(* ===== verification/Prelude.thy ===== *)
theory Prelude
  imports Main "HOL-Library.AList" "HOL-Library.Char_ord" "HOL-Library.List_Lexorder"
begin

text \<open>
  The shared vocabulary of the development: JavaScript strings, maps and truthiness as the
  repository's TypeScript uses them, the result type of code that can throw, and the generic
  lemmas on lists that several components need.

  A JavaScript string is modelled by the list of the bytes of its UTF-8 form.  The operations the
  code applies to strings here (concatenation, equality, splitting and replacing at ASCII
  characters, prefix tests) commute with that encoding.  \<open>toUpperCase\<close>/\<open>toLowerCase\<close> are modelled
  on the ASCII letters only, which are the only letters of the SQL keywords and type names the
  code changes the case of.

  A JavaScript \<open>Map\<close> keeps its keys in insertion order, and setting a present key keeps its place:
  this is \<open>AList.update\<close> on an association list.
\<close>

named_theorems js_simps \<open>evaluation of the JavaScript helpers\<close>
named_theorems sql_defs \<open>unfolding of the SQL emitters\<close>

section \<open>Results of code that may throw\<close>

type_synonym ('e, 'a) result = "'e + 'a"

fun bind_result :: "('e, 'a) result \<Rightarrow> ('a \<Rightarrow> ('e, 'b) result) \<Rightarrow> ('e, 'b) result" where
  "bind_result (Inl e) f = Inl e"
| "bind_result (Inr x) f = f x"

fun map_result :: "('a \<Rightarrow> 'b) \<Rightarrow> ('e, 'a) result \<Rightarrow> ('e, 'b) result" where
  "map_result f (Inl e) = Inl e"
| "map_result f (Inr x) = Inr (f x)"

text \<open>A loop that stops at the first exception, collecting the values in order.\<close>

fun collect_results :: "('a \<Rightarrow> ('e, 'b) result) \<Rightarrow> 'a list \<Rightarrow> ('e, 'b list) result" where
  "collect_results f [] = Inr []"
| "collect_results f (x # xs) =
     bind_result (f x) (\<lambda>y. map_result ((#) y) (collect_results f xs))"

lemma bind_result_Inr_iff: "bind_result r f = Inr y \<longleftrightarrow> (\<exists>x. r = Inr x \<and> f x = Inr y)"
  by (cases r) auto

lemma map_result_Inr_iff: "map_result f r = Inr y \<longleftrightarrow> (\<exists>x. r = Inr x \<and> y = f x)"
  by (cases r) auto

lemma collect_results_Inr_length: "collect_results f xs = Inr ys \<Longrightarrow> length ys = length xs"
  by (induction xs arbitrary: ys) (auto simp: bind_result_Inr_iff map_result_Inr_iff)

lemma collect_results_Inr_nth:
  "collect_results f xs = Inr ys \<Longrightarrow> i < length xs \<Longrightarrow> f (xs ! i) = Inr (ys ! i)"
proof (induction xs arbitrary: ys i)
  case Nil
  then show ?case by simp
next
  case (Cons x xs)
  then show ?case by (cases i) (auto simp: bind_result_Inr_iff map_result_Inr_iff)
qed

lemma collect_results_total:
  "(\<And>x. x \<in> set xs \<Longrightarrow> f x = Inr (g x)) \<Longrightarrow> collect_results f xs = Inr (map g xs)"
  by (induction xs) auto

lemma collect_results_error:
  "collect_results f xs = Inl e \<Longrightarrow> \<exists>x\<in>set xs. f x = Inl e"
proof (induction xs)
  case Nil
  then show ?case by simp
next
  case (Cons x xs)
  then show ?case
    by (cases "f x"; cases "collect_results f xs") auto
qed

lemma isl_map_result [simp]: "isl (map_result f r) \<longleftrightarrow> isl r"
  by (cases r) simp_all

lemma isl_bind_result: "isl (bind_result r f) \<longleftrightarrow> isl r \<or> (\<exists>x. r = Inr x \<and> isl (f x))"
  by (cases r) simp_all

lemma isl_collect_results: "isl (collect_results f xs) \<longleftrightarrow> (\<exists>x\<in>set xs. isl (f x))"
proof (induction xs)
  case (Cons x xs)
  then show ?case by (cases "f x") simp_all
qed simp

section \<open>Truthiness\<close>

text \<open>An optional string is truthy when it is there and not empty; an optional number when it is
  there and not zero.\<close>

definition truthy_str :: "string option \<Rightarrow> bool" where
  "truthy_str s \<longleftrightarrow> (case s of None \<Rightarrow> False | Some t \<Rightarrow> t \<noteq> [])"

definition num_or :: "int option \<Rightarrow> int \<Rightarrow> int" where
  "num_or n d = (case n of None \<Rightarrow> d | Some k \<Rightarrow> if k = 0 then d else k)"

definition nullish :: "'a option \<Rightarrow> 'a \<Rightarrow> 'a" where
  "nullish x d = (case x of None \<Rightarrow> d | Some y \<Rightarrow> y)"

lemma truthy_str_simps [simp, js_simps]:
  "truthy_str None = False" "truthy_str (Some t) = (t \<noteq> [])"
  by (simp_all add: truthy_str_def)

lemma truthy_str_the: "truthy_str s \<Longrightarrow> \<exists>t. s = Some t \<and> t \<noteq> []"
  by (cases s) simp_all

lemma num_or_simps [simp, js_simps]:
  "num_or None d = d" "num_or (Some k) d = (if k = 0 then d else k)"
  by (simp_all add: num_or_def)

lemma nullish_simps [simp, js_simps]:
  "nullish None d = d" "nullish (Some y) d = y"
  by (simp_all add: nullish_def)

lemma in_map_filter: "y \<in> set (List.map_filter f xs) \<longleftrightarrow> (\<exists>x\<in>set xs. f x = Some y)"
  by (induction xs) (auto simp: map_filter_simps split: option.splits)

section \<open>Strings\<close>

text \<open>\<open>xs.join(sep)\<close>\<close>

fun join :: "string \<Rightarrow> string list \<Rightarrow> string" where
  "join sep [] = []"
| "join sep [s] = s"
| "join sep (s # t # ss) = s @ sep @ join sep (t # ss)"

lemma join_Cons: "ss \<noteq> [] \<Longrightarrow> join sep (s # ss) = s @ sep @ join sep ss"
  by (cases ss) auto

text \<open>A list of non-empty words that do not contain the separator can be read back from its join.\<close>

lemma join_nonempty: "\<forall>s\<in>set ss. s \<noteq> [] \<Longrightarrow> join sep ss = [] \<longleftrightarrow> ss = []"
  by (induction sep ss rule: join.induct) auto

lemma split_first_sep:
  assumes "s @ c # u = t @ c # v" "c \<notin> set s" "c \<notin> set t"
  shows "s = t \<and> u = v"
  using assms by (induction s arbitrary: t) (auto simp: Cons_eq_append_conv append_eq_Cons_conv)

lemma join_inj:
  assumes "join [c] ss = join [c] ts"
    and "\<forall>s\<in>set ss. s \<noteq> [] \<and> c \<notin> set s" "\<forall>t\<in>set ts. t \<noteq> [] \<and> c \<notin> set t"
  shows "ss = ts"
  using assms
proof (induction ss arbitrary: ts)
  case Nil
  then show ?case using join_nonempty [of ts "[c]"] by auto
next
  case (Cons s ss)
  obtain t ts' where ts: "ts = t # ts'"
    using Cons.prems join_nonempty [of "s # ss" "[c]"] by (cases ts) auto
  have plain: "c \<notin> set s" "c \<notin> set t" using Cons.prems ts by auto
  show ?case
  proof (cases "ss = []"; cases "ts' = []")
    assume "ss = []" "ts' = []"
    with Cons.prems(1) ts show ?thesis by simp
  next
    assume *: "ss = []" "ts' \<noteq> []"
    with Cons.prems(1) ts have "s = t @ c # join [c] ts'" by (simp add: join_Cons)
    with plain show ?thesis by auto
  next
    assume *: "ss \<noteq> []" "ts' = []"
    with Cons.prems(1) ts have "t = s @ c # join [c] ss" by (simp add: join_Cons)
    with plain show ?thesis by auto
  next
    assume *: "ss \<noteq> []" "ts' \<noteq> []"
    with Cons.prems(1) ts have "s @ c # join [c] ss = t @ c # join [c] ts'" by (simp add: join_Cons)
    from split_first_sep [OF this plain] have "s = t" "join [c] ss = join [c] ts'" by simp_all
    moreover have "ss = ts'" using Cons.prems(2,3) ts calculation(2) by (intro Cons.IH) auto
    ultimately show ?thesis using ts by simp
  qed
qed

text \<open>\<open>s.replace(/c/g, r)\<close> for a single character \<open>c\<close>\<close>

definition replace_char :: "char \<Rightarrow> string \<Rightarrow> string \<Rightarrow> string" where
  "replace_char c r s = concat (map (\<lambda>x. if x = c then r else [x]) s)"

lemma replace_char_simps [simp, js_simps]:
  "replace_char c r [] = []"
  "replace_char c r (x # s) = (if x = c then r else [x]) @ replace_char c r s"
  by (simp_all add: replace_char_def)

lemma replace_char_append [simp]:
  "replace_char c r (s @ t) = replace_char c r s @ replace_char c r t"
  by (simp add: replace_char_def)

lemma replace_char_absent: "c \<notin> set s \<Longrightarrow> replace_char c r s = s"
  by (induction s) auto

text \<open>Case conversion on the ASCII letters.\<close>

definition ascii_upper :: "char \<Rightarrow> char" where
  "ascii_upper c = (if of_char c \<ge> (97::nat) \<and> of_char c \<le> (122::nat) then char_of (of_char c - (32::nat)) else c)"

definition ascii_lower :: "char \<Rightarrow> char" where
  "ascii_lower c = (if of_char c \<ge> (65::nat) \<and> of_char c \<le> (90::nat) then char_of (of_char c + (32::nat)) else c)"

definition to_upper :: "string \<Rightarrow> string" where
  "to_upper s = map ascii_upper s"

definition to_lower :: "string \<Rightarrow> string" where
  "to_lower s = map ascii_lower s"

lemma of_char_ascii_upper:
  "(of_char (ascii_upper c) :: nat) =
     (if 97 \<le> (of_char c :: nat) \<and> of_char c \<le> (122 :: nat) then of_char c - 32 else of_char c)"
  by (auto simp: ascii_upper_def)

lemma ascii_upper_idem [simp]: "ascii_upper (ascii_upper c) = ascii_upper c"
proof -
  have "\<not> (97 \<le> (of_char (ascii_upper c) :: nat) \<and> of_char (ascii_upper c) \<le> (122 :: nat))"
    by (auto simp: of_char_ascii_upper)
  then show ?thesis by (simp only: ascii_upper_def [of "ascii_upper c"] if_False)
qed

lemma to_upper_idem [simp]: "to_upper (to_upper s) = to_upper s"
  by (simp add: to_upper_def)

text \<open>Decimal rendering of an integer, as template literals print a number with no fraction.\<close>

definition digit_char :: "nat \<Rightarrow> char" where
  "digit_char d = char_of (48 + d)"

fun nat_to_string :: "nat \<Rightarrow> string" where
  "nat_to_string n = (if n < 10 then [digit_char n] else nat_to_string (n div 10) @ [digit_char (n mod 10)])"

declare nat_to_string.simps [simp del]

definition int_to_string :: "int \<Rightarrow> string" where
  "int_to_string i = (if i < 0 then CHR ''-'' # nat_to_string (nat (- i)) else nat_to_string (nat i))"

text \<open>The value the digits of a decimal string stand for, to invert the rendering.\<close>

definition digits_value :: "string \<Rightarrow> nat" where
  "digits_value s = foldl (\<lambda>n c. 10 * n + (of_char c - 48)) 0 s"

lemma digits_value_snoc: "digits_value (s @ [c]) = 10 * digits_value s + (of_char c - 48)"
  by (simp add: digits_value_def)

lemma of_char_digit_char: "d < 10 \<Longrightarrow> (of_char (digit_char d) :: nat) = 48 + d"
  by (simp add: digit_char_def)

lemma digits_value_nat_to_string: "digits_value (nat_to_string n) = n"
proof (induction n rule: nat_to_string.induct)
  case (1 n)
  show ?case
  proof (cases "n < 10")
    case True
    then show ?thesis
      by (subst nat_to_string.simps) (simp add: digits_value_def of_char_digit_char)
  next
    case False
    with "1.IH" show ?thesis
      by (subst nat_to_string.simps) (simp add: digits_value_snoc of_char_digit_char)
  qed
qed

lemma nat_to_string_inj: "nat_to_string m = nat_to_string n \<longleftrightarrow> m = n"
  by (metis digits_value_nat_to_string)

lemma nat_to_string_digits: "c \<in> set (nat_to_string n) \<Longrightarrow> 48 \<le> (of_char c :: nat) \<and> of_char c < (58 :: nat)"
proof (induction n rule: nat_to_string.induct)
  case (1 n)
  then show ?case
    by (subst (asm) (2) nat_to_string.simps) (auto simp: of_char_digit_char split: if_splits)
qed

lemma nat_to_string_nonempty [simp]: "nat_to_string n \<noteq> []"
  by (subst nat_to_string.simps) simp

text \<open>White space as the regular expression class \<open>\s\<close> and \<open>trim()\<close> see it (ASCII part).\<close>

definition is_space :: "char \<Rightarrow> bool" where
  "is_space c \<longleftrightarrow> (of_char c :: nat) = 32 \<or> (9 \<le> (of_char c :: nat) \<and> of_char c \<le> (13 :: nat))"

definition trim :: "string \<Rightarrow> string" where
  "trim s = rev (dropWhile is_space (rev (dropWhile is_space s)))"

text \<open>Word characters of a regular expression: letters, digits and the underscore.\<close>

definition is_word_char :: "char \<Rightarrow> bool" where
  "is_word_char c \<longleftrightarrow> (let n = (of_char c :: nat) in
     (48 \<le> n \<and> n \<le> 57) \<or> (65 \<le> n \<and> n \<le> 90) \<or> (97 \<le> n \<and> n \<le> 122) \<or> n = 95)"

fun strip_prefix :: "string \<Rightarrow> string \<Rightarrow> string option" where
  "strip_prefix [] s = Some s"
| "strip_prefix (p # ps) [] = None"
| "strip_prefix (p # ps) (c # s) = (if p = c then strip_prefix ps s else None)"

lemma strip_prefix_append [simp]: "strip_prefix p (p @ s) = Some s"
  by (induction p) auto

lemma strip_prefix_Some_iff: "strip_prefix p s = Some t \<longleftrightarrow> s = p @ t"
  by (induction p s rule: strip_prefix.induct) auto

section \<open>Maps in insertion order\<close>

type_synonym ('k, 'v) jsmap = "('k \<times> 'v) list"

abbreviation jget :: "('k, 'v) jsmap \<Rightarrow> 'k \<Rightarrow> 'v option" where
  "jget m k \<equiv> map_of m k"

abbreviation jhas :: "('k, 'v) jsmap \<Rightarrow> 'k \<Rightarrow> bool" where
  "jhas m k \<equiv> map_of m k \<noteq> None"

definition jset :: "'k \<Rightarrow> 'v \<Rightarrow> ('k, 'v) jsmap \<Rightarrow> ('k, 'v) jsmap" where
  "jset k v m = AList.update k v m"

definition jdelete :: "'k \<Rightarrow> ('k, 'v) jsmap \<Rightarrow> ('k, 'v) jsmap" where
  "jdelete k m = AList.delete k m"

definition jkeys :: "('k, 'v) jsmap \<Rightarrow> 'k list" where
  "jkeys m = map fst m"

definition jvalues :: "('k, 'v) jsmap \<Rightarrow> 'v list" where
  "jvalues m = map snd m"

text \<open>\<open>new Map(entries)\<close>: later entries overwrite the value of earlier ones.\<close>

definition jmap_of :: "('k \<times> 'v) list \<Rightarrow> ('k, 'v) jsmap" where
  "jmap_of es = fold (\<lambda>(k, v) m. jset k v m) es []"

lemma jget_jset [simp, js_simps]: "jget (jset k v m) k' = (if k' = k then Some v else jget m k')"
  by (simp add: jset_def update_conv')

lemma jget_jdelete [simp, js_simps]: "jget (jdelete k m) k' = (if k' = k then None else jget m k')"
  by (simp add: jdelete_def delete_conv')

lemma distinct_jset: "distinct (map fst m) \<Longrightarrow> distinct (map fst (jset k v m))"
  by (simp add: jset_def distinct_update)

lemma distinct_jdelete: "distinct (map fst m) \<Longrightarrow> distinct (map fst (jdelete k m))"
  by (simp add: jdelete_def distinct_delete)

lemma keys_jset: "fst ` set (jset k v m) = insert k (fst ` set m)"
  by (simp add: jset_def dom_update)

lemma jget_fold_jset:
  "jget (fold (\<lambda>(k, v) m. jset k v m) es m) k =
     (case map_of (rev es) k of None \<Rightarrow> jget m k | Some v \<Rightarrow> Some v)"
  by (induction es arbitrary: m) (auto simp: map_add_def split: option.splits)

lemma jget_jmap_of: "jget (jmap_of es) k = map_of (rev es) k"
  by (simp add: jmap_of_def jget_fold_jset split: option.splits)

lemma jget_jmap_of_None: "jget (jmap_of es) k = None \<longleftrightarrow> k \<notin> fst ` set es"
  by (simp add: jget_jmap_of map_of_eq_None_iff)

lemma jset_fresh: "k \<notin> fst ` set m \<Longrightarrow> jset k v m = m @ [(k, v)]"
  by (induction m) (auto simp: jset_def)

lemma fold_jset_fresh:
  "distinct (map fst es) \<Longrightarrow> fst ` set es \<inter> fst ` set m = {} \<Longrightarrow>
   fold (\<lambda>(k, v) m. jset k v m) es m = m @ es"
proof (induction es arbitrary: m)
  case Nil
  then show ?case by simp
next
  case (Cons e es)
  obtain k v where e: "e = (k, v)" by force
  from Cons.prems e have "jset k v m = m @ [(k, v)]"
    by (intro jset_fresh) auto
  moreover have "fold (\<lambda>(k, v) m. jset k v m) es (m @ [(k, v)]) = (m @ [(k, v)]) @ es"
    using Cons.prems e by (intro Cons.IH) auto
  ultimately show ?case using e by simp
qed

lemma jmap_of_distinct: "distinct (map fst es) \<Longrightarrow> jmap_of es = es"
  by (simp add: jmap_of_def fold_jset_fresh)

lemma jget_jmap_of_distinct: "distinct (map fst es) \<Longrightarrow> jget (jmap_of es) k = map_of es k"
  by (simp add: jmap_of_distinct)

lemma distinct_jmap_of: "distinct (map fst (jmap_of es))"
proof -
  have "distinct (map fst m) \<Longrightarrow> distinct (map fst (fold (\<lambda>(k, v) m. jset k v m) es m))" for m :: "('a, 'b) jsmap"
    by (induction es arbitrary: m) (auto simp: distinct_jset split: prod.split)
  then show ?thesis by (simp add: jmap_of_def)
qed

section \<open>Sets in insertion order\<close>

definition set_add :: "'a \<Rightarrow> 'a list \<Rightarrow> 'a list" where
  "set_add x s = (if x \<in> set s then s else s @ [x])"

lemma set_set_add [simp]: "set (set_add x s) = insert x (set s)"
  by (auto simp: set_add_def)

lemma distinct_set_add: "distinct s \<Longrightarrow> distinct (set_add x s)"
  by (simp add: set_add_def)

text \<open>\<open>new Set(xs)\<close>\<close>

definition set_of_list :: "'a list \<Rightarrow> 'a list" where
  "set_of_list xs = fold set_add xs []"

lemma set_fold_set_add: "set (fold set_add xs s) = set s \<union> set xs"
  by (induction xs arbitrary: s) auto

lemma distinct_fold_set_add: "distinct s \<Longrightarrow> distinct (fold set_add xs s)"
  by (induction xs arbitrary: s) (auto simp: distinct_set_add)

lemma set_set_of_list [simp]: "set (set_of_list xs) = set xs"
  by (simp add: set_of_list_def set_fold_set_add)

lemma distinct_set_of_list [simp]: "distinct (set_of_list xs)"
  by (simp add: set_of_list_def distinct_fold_set_add)

section \<open>Sequences of events\<close>

text \<open>A component that reacts to events is a step function; a run is a fold over the events.  What
  a step keeps, a run keeps.\<close>

definition run_events :: "('s \<Rightarrow> 'e \<Rightarrow> 's) \<Rightarrow> 's \<Rightarrow> 'e list \<Rightarrow> 's" where
  "run_events step s es = foldl step s es"

lemma run_events_simps [simp]:
  "run_events step s [] = s"
  "run_events step s (e # es) = run_events step (step s e) es"
  by (simp_all add: run_events_def)

lemma run_events_append: "run_events step s (es @ fs) = run_events step (run_events step s es) fs"
  by (simp add: run_events_def)

locale event_system =
  fixes init :: 's
    and step :: "'s \<Rightarrow> 'e \<Rightarrow> 's"
    and invar :: "'s \<Rightarrow> bool"
  assumes init_holds: "invar init"
    and step_keeps: "invar s \<Longrightarrow> invar (step s e)"
begin

lemma run_keeps: "invar s \<Longrightarrow> invar (run_events step s es)"
  by (induction es arbitrary: s) (auto intro: step_keeps)

lemma reachable_holds: "invar (run_events step init es)"
  by (rule run_keeps [OF init_holds])

end

end
