(* ===== verification/SqlText.thy ===== *)
theory SqlText
  imports Prelude
begin

text \<open>
  The text layer of the database subsystem: \<open>src/src/database/dialect.ts\<close> (dialects, identifier
  quoting, catalogue queries), the free functions of
  \<open>src/src/database/schema/grammar/Grammar.ts\<close> (string escaping, foreign-key actions) and the
  escaping of the two generators of TypeScript source, \<open>quoteStr\<close> of \<open>builder-regenerator.ts\<close>
  and \<open>formatStatement\<close> of \<open>file-generator.ts\<close>.

  What makes such text correct is that the reader it is written for gets the value back.  The
  locale \<open>literal_syntax\<close> states that contract once, for an encoder and the scanner of the
  language the text is in; every quoting function of the repository is an interpretation of it.
\<close>

section \<open>Dialects\<close>

datatype dialect = MySQL | Postgres

datatype sql_error = UnsupportedDialect string | InvalidFkAction string | SetDefaultUnsupported

definition getDialect :: "string \<Rightarrow> (sql_error, dialect) result" where
  "getDialect name =
     (if name = ''mysql'' then Inr MySQL
      else if name = ''postgres'' then Inr Postgres
      else Inl (UnsupportedDialect name))"

abbreviation dquote :: char where "dquote \<equiv> CHR 0x22"
abbreviation squote :: char where "squote \<equiv> CHR 0x27"
abbreviation backtick :: char where "backtick \<equiv> CHR 0x60"
abbreviation backslash :: char where "backslash \<equiv> CHR 0x5C"
abbreviation newline :: char where "newline \<equiv> CHR 0x0A"
abbreviation creturn :: char where "creturn \<equiv> CHR 0x0D"
abbreviation dollar :: char where "dollar \<equiv> CHR 0x24"

definition quoteId :: "dialect \<Rightarrow> string \<Rightarrow> string" where
  "quoteId d name =
     (if d = MySQL then [backtick] @ replace_char backtick [backtick, backtick] name @ [backtick]
      else [dquote] @ replace_char dquote [dquote, dquote] name @ [dquote])"

definition escapeStr :: "string \<Rightarrow> dialect option \<Rightarrow> string" where
  "escapeStr s d =
     (let s' = (if d = Some MySQL then replace_char backslash [backslash, backslash] s else s)
      in replace_char squote [squote, squote] s')"

text \<open>\<open>`'${escapeStr(s, d)}'`\<close>, the form in which every caller uses \<open>escapeStr\<close>\<close>

definition sqlString :: "dialect option \<Rightarrow> string \<Rightarrow> string" where
  "sqlString d s = [squote] @ escapeStr s d @ [squote]"

section \<open>Catalogue queries\<close>

definition tableExistsSql :: "dialect \<Rightarrow> string \<Rightarrow> string \<Rightarrow> string" where
  "tableExistsSql d tableName schema =
     (if d = MySQL then ''SHOW TABLES LIKE '' @ [squote] @ tableName @ [squote]
      else ''SELECT tablename FROM pg_tables WHERE schemaname = '' @ [squote] @ schema @ [squote]
           @ '' AND tablename = '' @ [squote] @ tableName @ [squote])"

definition listTablesSql :: "dialect \<Rightarrow> string \<Rightarrow> string" where
  "listTablesSql d schema =
     (if d = MySQL then ''SHOW TABLES''
      else ''SELECT tablename FROM pg_tables WHERE schemaname = '' @ [squote] @ schema @ [squote])"

definition listDatabasesSql :: "dialect \<Rightarrow> string" where
  "listDatabasesSql d =
     (if d = MySQL then ''SHOW DATABASES''
      else ''SELECT datname AS '' @ [dquote] @ ''Database'' @ [dquote] @ '' FROM pg_database WHERE datistemplate = false'')"

definition currentDatabaseSql :: "dialect \<Rightarrow> string" where
  "currentDatabaseSql d = (if d = MySQL then ''SELECT DATABASE()'' else ''SELECT current_database()'')"

section \<open>Foreign-key actions\<close>

definition VALID_FK_ACTIONS :: "string set" where
  "VALID_FK_ACTIONS = {''RESTRICT'', ''CASCADE'', ''SET NULL'', ''SET DEFAULT'', ''NO ACTION''}"

definition validateFkAction :: "string \<Rightarrow> dialect \<Rightarrow> (sql_error, string) result" where
  "validateFkAction action d =
     (let upper = to_upper action in
      if upper \<notin> VALID_FK_ACTIONS then Inl (InvalidFkAction action)
      else if upper = ''SET DEFAULT'' \<and> d = MySQL then Inl SetDefaultUnsupported
      else Inr upper)"

lemma validateFkAction_ok:
  "validateFkAction a d = Inr u \<Longrightarrow> u = to_upper a \<and> u \<in> VALID_FK_ACTIONS \<and> (d = MySQL \<longrightarrow> u \<noteq> ''SET DEFAULT'')"
  by (auto simp: validateFkAction_def Let_def split: if_splits)

lemma validateFkAction_idem: "validateFkAction a d = Inr u \<Longrightarrow> validateFkAction u d = Inr u"
  by (auto simp: validateFkAction_def Let_def split: if_splits)

section \<open>Escaping of generated TypeScript\<close>

text \<open>\<open>quoteStr\<close> of \<open>builder-regenerator.ts\<close>: a single-quoted JavaScript string.\<close>

definition quoteStr :: "string \<Rightarrow> string" where
  "quoteStr s =
     [squote] @ replace_char squote [backslash, squote] (replace_char backslash [backslash, backslash] s) @ [squote]"

text \<open>The escaping of \<open>formatStatement\<close> in \<open>file-generator.ts\<close>, inside the template quotes.\<close>

definition escapeTemplate :: "string \<Rightarrow> string" where
  "escapeTemplate s =
     replace_char dollar [backslash, dollar]
       (replace_char backtick [backslash, backtick]
         (replace_char backslash [backslash, backslash] s))"

definition templateLiteral :: "string \<Rightarrow> string" where
  "templateLiteral s = [backtick] @ escapeTemplate s @ [backtick]"

section \<open>The readers\<close>

text \<open>
  A quoted token in which the closing quote is written twice: SQL identifiers, and SQL strings
  where the backslash is an ordinary character (PostgreSQL with standard-conforming strings).
  The scanner reads a token whose opening quote has been consumed; it gives the value and the rest.
\<close>

fun scan_doubled :: "char \<Rightarrow> string \<Rightarrow> (string \<times> string) option" where
  "scan_doubled q [] = None"
| "scan_doubled q [c] = (if c = q then Some ([], []) else None)"
| "scan_doubled q (c # d # s) =
     (if c \<noteq> q then map_option (apfst ((#) c)) (scan_doubled q (d # s))
      else if d = q then map_option (apfst ((#) q)) (scan_doubled q s)
      else Some ([], d # s))"

text \<open>
  A MySQL string: the quote may be doubled, and a backslash makes the next character literal
  (the named escapes \<open>\n\<close>, \<open>\t\<close>, \<open>\0\<close> and their kin are left to \<open>esc\<close>).
\<close>

fun scan_mysql :: "(char \<Rightarrow> char) \<Rightarrow> string \<Rightarrow> (string \<times> string) option" where
  "scan_mysql esc [] = None"
| "scan_mysql esc [c] = (if c = squote then Some ([], []) else None)"
| "scan_mysql esc (c # d # s) =
     (if c = backslash then map_option (apfst ((#) (esc d))) (scan_mysql esc s)
      else if c \<noteq> squote then map_option (apfst ((#) c)) (scan_mysql esc (d # s))
      else if d = squote then map_option (apfst ((#) squote)) (scan_mysql esc s)
      else Some ([], d # s))"

text \<open>A single-quoted JavaScript string: no raw line break, backslash escapes.\<close>

fun scan_js :: "(char \<Rightarrow> char) \<Rightarrow> string \<Rightarrow> (string \<times> string) option" where
  "scan_js esc [] = None"
| "scan_js esc (c # s) =
     (if c = squote then Some ([], s)
      else if c = newline \<or> c = creturn then None
      else if c = backslash then
        (case s of [] \<Rightarrow> None | d # s' \<Rightarrow> map_option (apfst ((#) (esc d))) (scan_js esc s'))
      else map_option (apfst ((#) c)) (scan_js esc s))"

text \<open>A JavaScript template literal with no substitution: an unescaped \<open>${\<close> starts an expression,
  which is no literal, and a raw carriage return reads as a line feed.\<close>

fun scan_template :: "(char \<Rightarrow> char) \<Rightarrow> string \<Rightarrow> (string \<times> string) option" where
  "scan_template esc [] = None"
| "scan_template esc (c # s) =
     (if c = backtick then Some ([], s)
      else if c = backslash then
        (case s of [] \<Rightarrow> None | d # s' \<Rightarrow> map_option (apfst ((#) (esc d))) (scan_template esc s'))
      else if c = dollar \<and> (\<exists>s'. s = CHR ''{'' # s') then None
      else if c = creturn then map_option (apfst ((#) newline)) (scan_template esc s)
      else map_option (apfst ((#) c)) (scan_template esc s))"

section \<open>The contract of a literal syntax\<close>

text \<open>
  \<open>encode\<close> writes a value; \<open>scan\<close> reads a value off the front of a text, and is only asked to do so
  where the text after the token does not begin with \<open>closing\<close> (two adjacent quoted tokens would
  be read as one).  \<open>valid\<close> restricts the values the syntax can carry.
\<close>

locale literal_syntax =
  fixes encode :: "string \<Rightarrow> string"
    and scan :: "string \<Rightarrow> (string \<times> string) option"
    and closing :: char
    and valid :: "string \<Rightarrow> bool"
  assumes scan_encode: "valid s \<Longrightarrow> take 1 rest \<noteq> [closing] \<Longrightarrow> scan (encode s @ rest) = Some (s, rest)"
    and encode_nonempty: "encode s \<noteq> []"
begin

lemma encode_prefix_free:
  assumes "encode s @ r = encode t @ r'" "valid s" "valid t"
    and "take 1 r \<noteq> [closing]" "take 1 r' \<noteq> [closing]"
  shows "s = t \<and> r = r'"
proof -
  have "Some (s, r) = scan (encode s @ r)" by (rule sym) (rule scan_encode [OF assms(2,4)])
  also have "\<dots> = scan (encode t @ r')" by (simp only: assms(1))
  also have "\<dots> = Some (t, r')" by (rule scan_encode [OF assms(3,5)])
  finally show ?thesis by simp
qed

lemma encode_inj: "encode s = encode t \<Longrightarrow> valid s \<Longrightarrow> valid t \<Longrightarrow> s = t"
  using encode_prefix_free [of s "[]" t "[]"] by simp

text \<open>A separated list of tokens followed by a text that starts with neither the separator nor the
  closing quote determines the list.\<close>

lemma list_prefix_free:
  assumes "join (c # sep) (map encode ss) @ r = join (c # sep) (map encode ts) @ r'"
    and "\<forall>s\<in>set ss. valid s" "\<forall>t\<in>set ts. valid t"
    and "c \<noteq> closing"
    and "take 1 r \<noteq> [closing]" "take 1 r \<noteq> [c]" "take 1 r' \<noteq> [closing]" "take 1 r' \<noteq> [c]"
    and "ss = [] \<longleftrightarrow> ts = []"
  shows "ss = ts \<and> r = r'"
  using assms(1-3,9)
proof (induction ss arbitrary: ts)
  case Nil
  then show ?case by simp
next
  case (Cons s ss)
  then obtain t ts' where ts: "ts = t # ts'" by (cases ts) auto
  define tailr where "tailr = (\<lambda>us q. if us = [] then q else (c # sep) @ join (c # sep) (map encode us) @ q)"
  have split: "join (c # sep) (map encode (u # us)) @ q = encode u @ tailr us q" for u us q
    by (cases us) (simp_all add: tailr_def)
  have no_close: "take 1 (tailr us q) \<noteq> [closing]" if "take 1 q \<noteq> [closing]" for us q
    using that assms(4) by (simp add: tailr_def)
  have "encode s @ tailr ss r = encode t @ tailr ts' r'"
    using Cons.prems(1) by (simp only: ts split)
  with Cons.prems(2,3) ts assms(5,7) have st: "s = t" and tl: "tailr ss r = tailr ts' r'"
    using encode_prefix_free [of s "tailr ss r" t "tailr ts' r'"] no_close by auto
  have starts: "take 1 (tailr us q) = [c]" if "us \<noteq> []" for us q
    using that by (simp add: tailr_def)
  have iff: "ss = [] \<longleftrightarrow> ts' = []"
  proof -
    have "take 1 (tailr ss r) = [c] \<longleftrightarrow> take 1 (tailr ts' r') = [c]" using tl by simp
    moreover have "take 1 (tailr ss r) = [c] \<longleftrightarrow> ss \<noteq> []"
      using assms(6) by (simp add: tailr_def)
    moreover have "take 1 (tailr ts' r') = [c] \<longleftrightarrow> ts' \<noteq> []"
      using assms(8) by (simp add: tailr_def)
    ultimately show ?thesis by blast
  qed
  show ?case
  proof (cases "ss = []")
    case True
    with iff tl st ts show ?thesis by (simp add: tailr_def)
  next
    case False
    with tl iff have "join (c # sep) (map encode ss) @ r = join (c # sep) (map encode ts') @ r'"
      by (simp add: tailr_def)
    then have "ss = ts' \<and> r = r'"
      using Cons.prems(2,3) ts iff by (intro Cons.IH) auto
    with st ts show ?thesis by simp
  qed
qed

end

subsection \<open>The repository's encoders satisfy it\<close>

fun skip_quote :: "char \<Rightarrow> (string \<Rightarrow> (string \<times> string) option) \<Rightarrow> string \<Rightarrow> (string \<times> string) option" where
  "skip_quote q body [] = None"
| "skip_quote q body (c # s) = (if c = q then body s else None)"

lemma scan_doubled_escaped:
  "take 1 rest \<noteq> [q] \<Longrightarrow> scan_doubled q (replace_char q [q, q] s @ q # rest) = Some (s, rest)"
proof (induction s)
  case Nil
  then show ?case by (cases rest) auto
next
  case (Cons c s)
  have ne: "replace_char q [q, q] s @ q # rest \<noteq> []" by simp
  then obtain d u where du: "replace_char q [q, q] s @ q # rest = d # u"
    by (meson neq_Nil_conv)
  with Cons show ?case by auto
qed

lemma scan_mysql_escaped:
  assumes "esc backslash = backslash" "take 1 rest \<noteq> [squote]"
  shows "scan_mysql esc (escapeStr s (Some MySQL) @ squote # rest) = Some (s, rest)"
  using assms
proof (induction s)
  case Nil
  then show ?case by (cases rest) (auto simp: escapeStr_def)
next
  case (Cons c s)
  obtain d u where du: "escapeStr s (Some MySQL) @ squote # rest = d # u"
    by (metis append_is_Nil_conv list.distinct(1) neq_Nil_conv)
  have "escapeStr (c # s) (Some MySQL) =
    (if c = backslash then [backslash, backslash] else if c = squote then [squote, squote] else [c])
      @ escapeStr s (Some MySQL)"
    by (simp add: escapeStr_def Let_def)
  with Cons du show ?case by auto
qed

lemma scan_js_escaped:
  assumes "esc backslash = backslash" "esc squote = squote"
    and "newline \<notin> set s" "creturn \<notin> set s"
  shows "scan_js esc (replace_char squote [backslash, squote] (replace_char backslash [backslash, backslash] s)
           @ squote # rest) = Some (s, rest)"
  using assms by (induction s) auto

lemma scan_template_escaped:
  assumes "esc backslash = backslash" "esc backtick = backtick" "esc dollar = dollar"
    and "creturn \<notin> set s"
  shows "scan_template esc (escapeTemplate s @ backtick # rest) = Some (s, rest)"
  using assms by (induction s) (auto simp: escapeTemplate_def)

definition plain_escape :: "char \<Rightarrow> char" where
  "plain_escape c = (if c = CHR ''n'' then newline else if c = CHR ''r'' then creturn
     else if c = CHR ''t'' then CHR 0x09 else if c = CHR ''0'' then CHR 0x00 else c)"

lemma plain_escape_simps [simp]:
  "plain_escape backslash = backslash" "plain_escape squote = squote"
  "plain_escape backtick = backtick" "plain_escape dollar = dollar"
  by (simp_all add: plain_escape_def)

definition read_identifier :: "dialect \<Rightarrow> string \<Rightarrow> (string \<times> string) option" where
  "read_identifier d =
     (let q = (if d = MySQL then backtick else dquote) in skip_quote q (scan_doubled q))"

definition read_string :: "dialect \<Rightarrow> string \<Rightarrow> (string \<times> string) option" where
  "read_string d =
     skip_quote squote (if d = MySQL then scan_mysql plain_escape else scan_doubled squote)"

definition read_js :: "string \<Rightarrow> (string \<times> string) option" where
  "read_js = skip_quote squote (scan_js plain_escape)"

definition read_template :: "string \<Rightarrow> (string \<times> string) option" where
  "read_template = skip_quote backtick (scan_template plain_escape)"

definition one_line :: "string \<Rightarrow> bool" where
  "one_line s \<longleftrightarrow> newline \<notin> set s \<and> creturn \<notin> set s"

interpretation mysql_id: literal_syntax "quoteId MySQL" "read_identifier MySQL" backtick "\<lambda>_. True"
  by unfold_locales (simp_all add: quoteId_def read_identifier_def Let_def scan_doubled_escaped)

interpretation pg_id: literal_syntax "quoteId Postgres" "read_identifier Postgres" dquote "\<lambda>_. True"
  by unfold_locales (simp_all add: quoteId_def read_identifier_def Let_def scan_doubled_escaped)

interpretation mysql_str: literal_syntax "sqlString (Some MySQL)" "read_string MySQL" squote "\<lambda>_. True"
  by unfold_locales (simp_all add: sqlString_def read_string_def scan_mysql_escaped)

interpretation pg_str: literal_syntax "sqlString None" "read_string Postgres" squote "\<lambda>_. True"
  by unfold_locales (simp_all add: sqlString_def read_string_def escapeStr_def scan_doubled_escaped)

interpretation js_str: literal_syntax quoteStr read_js squote one_line
  by unfold_locales (simp_all add: quoteStr_def read_js_def one_line_def scan_js_escaped)

interpretation js_template: literal_syntax templateLiteral read_template backtick "\<lambda>s. creturn \<notin> set s"
  by unfold_locales (simp_all add: templateLiteral_def read_template_def scan_template_escaped)

lemma quoteId_inj: "quoteId d a = quoteId d b \<longleftrightarrow> a = b"
  using mysql_id.encode_inj [of a b] pg_id.encode_inj [of a b] by (cases d) auto

end
