(* ===== verification/SchemaModel.thy ===== *)
theory SchemaModel
  imports SqlText
begin

text \<open>
  The data of the migration generator and of the schema builder:
  \<open>src/src/database/migration/create/schema-model.ts\<close>.  Each interface is a record with the
  source's fields in the source's order; an optional field is an \<open>option\<close>, and a field that
  distinguishes \<open>undefined\<close> from \<open>null\<close> (\<open>afterColumn\<close>) is an option of an option.

  A default value is \<open>unknown\<close> in the source; the code looks at its \<open>typeof\<close>, compares it with
  \<open>null\<close> and prints it with \<open>String\<close>.  \<open>js_value\<close> keeps exactly that: a number and a value of any
  other type carry the text \<open>String\<close> gives for them.
\<close>

section \<open>Values\<close>

datatype js_value = JNull | JBool bool | JNum string | JStr string | JOther string

fun js_to_string :: "js_value \<Rightarrow> string" where
  "js_to_string JNull = ''null''"
| "js_to_string (JBool b) = (if b then ''true'' else ''false'')"
| "js_to_string (JNum s) = s"
| "js_to_string (JStr s) = s"
| "js_to_string (JOther s) = s"

section \<open>Schemas\<close>

record column =
  c_name :: string
  c_type :: string
  c_size :: "int option"
  c_scale :: "int option"
  c_unsigned :: bool
  c_nullable :: bool
  c_autoIncrement :: bool
  c_isPrimaryKey :: bool
  c_defaultValue :: "js_value option"
  c_defaultExpression :: "string option"
  c_onUpdateExpression :: "string option"
  c_enumValues :: "string list option"
  c_enumTypeName :: "string option"
  c_isIdentity :: bool
  c_sequenceName :: "string option"
  c_ordinalPosition :: int
  c_afterColumn :: "string option option"

text \<open>The column literal of the builder methods: a type, no size, and every flag off.\<close>

definition basic_column :: "string \<Rightarrow> string \<Rightarrow> column" where
  "basic_column name ty =
     \<lparr>c_name = name, c_type = ty, c_size = None, c_scale = None, c_unsigned = False, c_nullable = False,
      c_autoIncrement = False, c_isPrimaryKey = False, c_defaultValue = None, c_defaultExpression = None,
      c_onUpdateExpression = None, c_enumValues = None, c_enumTypeName = None, c_isIdentity = False,
      c_sequenceName = None, c_ordinalPosition = 0, c_afterColumn = None\<rparr>"

record index_schema =
  i_name :: string
  i_columns :: "string list"
  i_unique :: bool
  i_spatial :: bool

record foreign_key =
  f_name :: string
  f_columns :: "string list"
  f_referencedTable :: string
  f_referencedColumns :: "string list"
  f_onDelete :: string
  f_onUpdate :: string

record table_schema =
  t_name :: string
  t_columns :: "column list"
  t_indexes :: "index_schema list"
  t_foreignKeys :: "foreign_key list"
  t_primaryKeyConstraintName :: "string option"
  t_skippedColumns :: "string list"

definition plain_table :: "string \<Rightarrow> column list \<Rightarrow> table_schema" where
  "plain_table name cols =
     \<lparr>t_name = name, t_columns = cols, t_indexes = [], t_foreignKeys = [],
      t_primaryKeyConstraintName = None, t_skippedColumns = []\<rparr>"

type_synonym database_schema = "(string, table_schema) jsmap"

definition INTERNAL_TABLES :: "string list" where
  "INTERNAL_TABLES = [''_migrations'', ''_locks'', ''_jobs'']"

section \<open>Differences\<close>

record column_modification =
  m_name :: string
  m_oldColumn :: column
  m_newColumn :: column
  m_typeChanged :: bool
  m_nullableChanged :: bool
  m_defaultChanged :: bool
  m_autoIncrementChanged :: bool
  m_onUpdateChanged :: bool

record column_rename =
  r_from :: string
  r_to :: string
  r_column :: column

record column_reorder =
  o_name :: string
  o_after :: "string option"

record enum_type =
  e_typeName :: string
  e_values :: "string list"

record enum_modification =
  em_typeName :: string
  em_added :: "string list"
  em_removed :: "string list"
  em_newValues :: "string list"
  em_tableName :: string
  em_columnName :: string

record table_diff =
  d_tableName :: string
  d_addedColumns :: "column list"
  d_removedColumns :: "column list"
  d_modifiedColumns :: "column_modification list"
  d_renamedColumns :: "column_rename list"
  d_reorderedColumns :: "column_reorder list"
  d_addedIndexes :: "index_schema list"
  d_removedIndexes :: "index_schema list"
  d_addedForeignKeys :: "foreign_key list"
  d_removedForeignKeys :: "foreign_key list"
  d_primaryKeyChanged :: bool
  d_newPrimaryKey :: "string list option"
  d_oldPrimaryKey :: "string list option"
  d_oldPrimaryKeyConstraintName :: "string option"
  d_addedEnumTypes :: "enum_type list"
  d_removedEnumTypes :: "string list"
  d_modifiedEnumTypes :: "enum_modification list"
  d_entityColumns :: "column list option"

record schema_diff =
  s_dialect :: dialect
  s_pgSchema :: "string option"
  s_addedTables :: "table_schema list"
  s_removedTables :: "table_schema list"
  s_modifiedTables :: "table_diff list"
  s_entityEnumTypes :: "string list option"

section \<open>Well-formed tables\<close>

text \<open>Columns of a table have different names; a schema files every table under its name.\<close>

definition wf_table :: "table_schema \<Rightarrow> bool" where
  "wf_table t \<longleftrightarrow> distinct (map c_name (t_columns t))"

definition wf_schema :: "database_schema \<Rightarrow> bool" where
  "wf_schema s \<longleftrightarrow> distinct (map fst s) \<and> (\<forall>(n, t) \<in> set s. t_name t = n \<and> wf_table t)"

section \<open>Columns by name\<close>

text \<open>\<open>new Map(columns.map(c => [c.name, c]))\<close> and \<open>columns.find(c => c.name === name)\<close>\<close>

definition col_map :: "column list \<Rightarrow> (string, column) jsmap" where
  "col_map cs = jmap_of (map (\<lambda>c. (c_name c, c)) cs)"

definition find_column :: "string \<Rightarrow> column list \<Rightarrow> column option" where
  "find_column n cs = find (\<lambda>c. c_name c = n) cs"

lemma jhas_col_map: "jhas (col_map cs) n \<longleftrightarrow> n \<in> c_name ` set cs"
  using jget_jmap_of_None [of "map (\<lambda>c. (c_name c, c)) cs" n]
  by (auto simp: col_map_def image_image)

lemma col_map_distinct:
  assumes "distinct (map c_name cs)"
  shows "col_map cs = map (\<lambda>c. (c_name c, c)) cs"
  using assms by (simp add: col_map_def jmap_of_distinct comp_def)

lemma jget_col_map_Some: "jget (col_map cs) n = Some c \<Longrightarrow> c \<in> set cs \<and> c_name c = n"
  by (auto simp: col_map_def jget_jmap_of dest!: map_of_SomeD)

lemma jget_col_map_member:
  assumes "distinct (map c_name cs)" "c \<in> set cs"
  shows "jget (col_map cs) (c_name c) = Some c"
proof -
  have "(c_name c, c) \<in> set (map (\<lambda>c. (c_name c, c)) cs)" using assms(2) by auto
  then show ?thesis
    using assms(1) by (simp add: col_map_distinct comp_def map_of_is_SomeI)
qed

lemma jget_col_map_absent: "jget (col_map cs) n = None \<longleftrightarrow> n \<notin> c_name ` set cs"
  using jhas_col_map [of cs n] by auto

lemma find_column_Some: "find_column n cs = Some c \<Longrightarrow> c \<in> set cs \<and> c_name c = n"
  by (auto simp: find_column_def find_Some_iff in_set_conv_nth)

lemma find_column_None: "find_column n cs = None \<longleftrightarrow> n \<notin> c_name ` set cs"
  by (auto simp: find_column_def find_None_iff)

lemma distinct_names_inj: "distinct (map c_name cs) \<Longrightarrow> a \<in> set cs \<Longrightarrow> b \<in> set cs \<Longrightarrow> c_name a = c_name b \<Longrightarrow> a = b"
  by (metis distinct_map inj_onD)

end
