(* ===== verification/Grammars.thy ===== *)
theory Grammars
  imports SchemaModel
begin

text \<open>
  The two SQL grammars, \<open>src/src/database/schema/grammar/MySQLGrammar.ts\<close> and
  \<open>PostgresGrammar.ts\<close>, method by method.  A \<open>Grammar\<close> object is its two fields; a call of an
  abstract method is the dispatch on the dialect that the subclass makes.
\<close>

record grammar =
  g_dialect :: dialect
  g_pgSchema :: string

abbreviation sp :: string where "sp \<equiv> '' ''"

definition comma_sep :: "string list \<Rightarrow> string" where
  "comma_sep xs = join '', '' xs"

definition num_text :: "int \<Rightarrow> string" where
  "num_text i = int_to_string i"

section \<open>Identifiers\<close>

definition my_quote :: "string \<Rightarrow> string" where
  "my_quote n = quoteId MySQL n"

definition pg_quote :: "string \<Rightarrow> string" where
  "pg_quote n = quoteId Postgres n"

definition pg_qualified :: "string \<Rightarrow> string \<Rightarrow> string" where
  "pg_qualified schema n =
     (if schema \<noteq> [] \<and> schema \<noteq> ''public'' then pg_quote schema @ ''.'' @ pg_quote n else pg_quote n)"

definition g_quote :: "grammar \<Rightarrow> string \<Rightarrow> string" where
  "g_quote g n = (case g_dialect g of MySQL \<Rightarrow> my_quote n | Postgres \<Rightarrow> pg_quote n)"

definition g_qualifiedTable :: "grammar \<Rightarrow> string \<Rightarrow> string" where
  "g_qualifiedTable g n =
     (case g_dialect g of MySQL \<Rightarrow> my_quote n | Postgres \<Rightarrow> pg_qualified (g_pgSchema g) n)"

definition g_quoted_list :: "grammar \<Rightarrow> string list \<Rightarrow> string" where
  "g_quoted_list g cs = comma_sep (map (g_quote g) cs)"

section \<open>Column types\<close>

definition my_typeDef :: "column \<Rightarrow> string" where
  "my_typeDef col =
     (let t = c_type col in
      if t = ''varchar'' then ''VARCHAR('' @ num_text (num_or (c_size col) 255) @ '')''
      else if t = ''char'' then ''CHAR('' @ num_text (num_or (c_size col) 1) @ '')''
      else if t = ''tinyint'' then (if c_size col = Some 1 then ''TINYINT(1)'' else ''TINYINT'')
      else if t = ''smallint'' then ''SMALLINT''
      else if t = ''int'' then ''INT''
      else if t = ''bigint'' then ''BIGINT''
      else if t = ''float'' then ''FLOAT''
      else if t = ''double'' then ''DOUBLE''
      else if t = ''decimal'' then
        (case c_size col of None \<Rightarrow> ''DECIMAL''
         | Some n \<Rightarrow> (case c_scale col of
             Some k \<Rightarrow> ''DECIMAL('' @ num_text n @ '','' @ num_text k @ '')''
           | None \<Rightarrow> ''DECIMAL('' @ num_text n @ '')''))
      else if t = ''boolean'' then ''TINYINT(1)''
      else if t = ''date'' then ''DATE''
      else if t = ''datetime'' then ''DATETIME''
      else if t = ''timestamp'' then ''TIMESTAMP''
      else if t = ''text'' then ''TEXT''
      else if t = ''binary'' then ''BINARY('' @ num_text (num_or (c_size col) 16) @ '')''
      else if t = ''blob'' then ''BLOB''
      else if t = ''json'' then ''JSON''
      else if t = ''point'' then ''POINT''
      else if t = ''enum'' then
        (case c_enumValues col of
           Some vs \<Rightarrow> ''ENUM('' @ join '','' (map (sqlString (Some MySQL)) vs) @ '')''
         | None \<Rightarrow> ''VARCHAR(255)'')
      else to_upper t)"

definition pg_typeDef :: "string \<Rightarrow> column \<Rightarrow> string" where
  "pg_typeDef schema col =
     (let t = c_type col in
      if t = ''varchar'' then
        (if num_or (c_size col) 0 \<noteq> 0 then ''VARCHAR('' @ num_text (num_or (c_size col) 0) @ '')'' else ''VARCHAR'')
      else if t = ''char'' then ''CHAR('' @ num_text (num_or (c_size col) 1) @ '')''
      else if t = ''smallint'' then ''SMALLINT''
      else if t = ''int'' \<or> t = ''integer'' then ''INTEGER''
      else if t = ''bigint'' then ''BIGINT''
      else if t = ''real'' \<or> t = ''float'' then ''REAL''
      else if t = ''double precision'' \<or> t = ''double'' then ''DOUBLE PRECISION''
      else if t = ''decimal'' \<or> t = ''numeric'' then
        (case c_size col of None \<Rightarrow> ''NUMERIC''
         | Some n \<Rightarrow> (case c_scale col of
             Some k \<Rightarrow> ''NUMERIC('' @ num_text n @ '','' @ num_text k @ '')''
           | None \<Rightarrow> ''NUMERIC('' @ num_text n @ '')''))
      else if t = ''boolean'' then ''BOOLEAN''
      else if t = ''date'' then ''DATE''
      else if t = ''timestamp'' then ''TIMESTAMP''
      else if t = ''timestamptz'' then ''TIMESTAMPTZ''
      else if t = ''text'' then ''TEXT''
      else if t = ''bytea'' then ''BYTEA''
      else if t = ''json'' then ''JSON''
      else if t = ''jsonb'' then ''JSONB''
      else if t = ''uuid'' then ''UUID''
      else if t = ''enum'' then
        (if truthy_str (c_enumTypeName col) then pg_qualified schema (the (c_enumTypeName col)) else ''TEXT'')
      else to_upper t)"

definition g_columnType :: "grammar \<Rightarrow> column \<Rightarrow> string" where
  "g_columnType g col =
     (case g_dialect g of MySQL \<Rightarrow> my_typeDef col | Postgres \<Rightarrow> pg_typeDef (g_pgSchema g) col)"

section \<open>Default values\<close>

definition NUMERIC_TYPES :: "string set" where
  "NUMERIC_TYPES = {''tinyint'', ''smallint'', ''int'', ''integer'', ''bigint'', ''float'', ''double'',
     ''decimal'', ''numeric''}"

definition PG_NUMERIC_TYPES :: "string set" where
  "PG_NUMERIC_TYPES = {''smallint'', ''int'', ''integer'', ''bigint'', ''real'', ''float'', ''double'',
     ''double precision'', ''decimal'', ''numeric''}"

definition is_num :: "js_value \<Rightarrow> bool" where
  "is_num v = (case v of JNum _ \<Rightarrow> True | _ \<Rightarrow> False)"

definition renderMysqlDefault :: "column \<Rightarrow> js_value \<Rightarrow> string" where
  "renderMysqlDefault col v =
     (case v of JNull \<Rightarrow> ''NULL''
      | JBool b \<Rightarrow> (if b then ''1'' else ''0'')
      | _ \<Rightarrow>
        if c_type col = ''boolean'' \<or> (c_type col = ''tinyint'' \<and> c_size col = Some 1)
        then (let s = to_lower (js_to_string v) in if s = ''true'' \<or> s = ''1'' then ''1'' else ''0'')
        else if is_num v \<or> c_type col \<in> NUMERIC_TYPES then js_to_string v
        else sqlString (Some MySQL) (js_to_string v))"

definition renderPgDefault :: "column \<Rightarrow> js_value \<Rightarrow> string" where
  "renderPgDefault col v =
     (case v of JNull \<Rightarrow> ''NULL''
      | JBool b \<Rightarrow> (if b then ''TRUE'' else ''FALSE'')
      | _ \<Rightarrow>
        if c_type col = ''boolean''
        then (let s = to_lower (js_to_string v) in if s = ''true'' \<or> s = ''1'' then ''TRUE'' else ''FALSE'')
        else if is_num v \<or> c_type col \<in> PG_NUMERIC_TYPES then js_to_string v
        else sqlString None (js_to_string v))"

section \<open>Column definitions\<close>

definition my_columnDef :: "column \<Rightarrow> string" where
  "my_columnDef col =
     my_quote (c_name col) @ sp @ my_typeDef col
     @ (if c_unsigned col then '' UNSIGNED'' else [])
     @ (if \<not> c_nullable col then '' NOT NULL'' else [])
     @ (if c_autoIncrement col then '' AUTO_INCREMENT'' else [])
     @ (if truthy_str (c_defaultExpression col) then '' DEFAULT '' @ the (c_defaultExpression col)
        else case c_defaultValue col of Some v \<Rightarrow> '' DEFAULT '' @ renderMysqlDefault col v | None \<Rightarrow> [])
     @ (if truthy_str (c_onUpdateExpression col) then '' ON UPDATE '' @ the (c_onUpdateExpression col) else [])"

definition pg_columnDef :: "string \<Rightarrow> column \<Rightarrow> string" where
  "pg_columnDef schema col =
     (let typeDef = (if c_autoIncrement col then (if c_type col = ''bigint'' then ''BIGSERIAL'' else ''SERIAL'')
                     else pg_typeDef schema col)
      in pg_quote (c_name col) @ sp @ typeDef
         @ (if \<not> c_nullable col \<and> \<not> c_autoIncrement col then '' NOT NULL'' else [])
         @ (if \<not> c_autoIncrement col
            then (if truthy_str (c_defaultExpression col) then '' DEFAULT '' @ the (c_defaultExpression col)
                  else case c_defaultValue col of Some v \<Rightarrow> '' DEFAULT '' @ renderPgDefault col v | None \<Rightarrow> [])
            else []))"

definition g_columnDef :: "grammar \<Rightarrow> column \<Rightarrow> string" where
  "g_columnDef g col =
     (case g_dialect g of MySQL \<Rightarrow> my_columnDef col | Postgres \<Rightarrow> pg_columnDef (g_pgSchema g) col)"

section \<open>Tables, indexes and foreign keys\<close>

definition pk_columns :: "table_schema \<Rightarrow> string list" where
  "pk_columns t = map c_name (filter c_isPrimaryKey (t_columns t))"

definition g_createTable :: "grammar \<Rightarrow> table_schema \<Rightarrow> string" where
  "g_createTable g t =
     (let pkCols = pk_columns t;
          lines = map (\<lambda>col. ''    '' @ g_columnDef g col) (t_columns t)
            @ (if pkCols \<noteq> [] then [''    PRIMARY KEY ('' @ g_quoted_list g pkCols @ '')''] else [])
      in ''CREATE TABLE '' @ g_qualifiedTable g (t_name t) @ '' ('' @ [newline]
         @ join ('','' @ [newline]) lines @ [newline] @ '')'')"

definition g_createIndex :: "grammar \<Rightarrow> string \<Rightarrow> index_schema \<Rightarrow> string" where
  "g_createIndex g tableName idx =
     ''CREATE ''
     @ (if g_dialect g = MySQL \<and> i_spatial idx then ''SPATIAL '' else [])
     @ (if i_unique idx then ''UNIQUE '' else [])
     @ ''INDEX '' @ g_quote g (i_name idx) @ '' ON '' @ g_qualifiedTable g tableName
     @ '' ('' @ g_quoted_list g (i_columns idx) @ '')''"

definition g_addForeignKey :: "grammar \<Rightarrow> string \<Rightarrow> foreign_key \<Rightarrow> (sql_error, string) result" where
  "g_addForeignKey g tableName fk =
     bind_result (validateFkAction (f_onDelete fk) (g_dialect g)) (\<lambda>onDelete.
     map_result (\<lambda>onUpdate.
       ''ALTER TABLE '' @ g_qualifiedTable g tableName @ '' ADD CONSTRAINT '' @ g_quote g (f_name fk)
       @ '' FOREIGN KEY ('' @ g_quoted_list g (f_columns fk) @ '') REFERENCES ''
       @ g_qualifiedTable g (f_referencedTable fk) @ '' ('' @ g_quoted_list g (f_referencedColumns fk)
       @ '') ON DELETE '' @ onDelete @ '' ON UPDATE '' @ onUpdate)
     (validateFkAction (f_onUpdate fk) (g_dialect g)))"

definition pg_createEnumType :: "string \<Rightarrow> string \<Rightarrow> string list \<Rightarrow> string list" where
  "pg_createEnumType schema typeName values =
     (let qualifiedName = pg_qualified schema typeName;
          vals = comma_sep (map (sqlString None) values);
          schemaFilter =
            (if schema \<noteq> [] \<and> schema \<noteq> ''public''
             then '' AND typnamespace = (SELECT oid FROM pg_namespace WHERE nspname = '' @ sqlString None schema @ '')''
             else [])
      in [join [newline]
            [''DO $$ BEGIN'',
             ''IF NOT EXISTS (SELECT 1 FROM pg_type WHERE typname = '' @ sqlString None typeName @ schemaFilter @ '') THEN'',
             ''    CREATE TYPE '' @ qualifiedName @ '' AS ENUM ('' @ vals @ '');'',
             ''END IF;'',
             ''END $$''],
          ''CREATE CAST (text AS '' @ qualifiedName @ '') WITH INOUT AS IMPLICIT''])"

definition g_createEnumType :: "grammar \<Rightarrow> string \<Rightarrow> string list \<Rightarrow> string list" where
  "g_createEnumType g typeName values =
     (case g_dialect g of MySQL \<Rightarrow> [] | Postgres \<Rightarrow> pg_createEnumType (g_pgSchema g) typeName values)"

section \<open>Table statements\<close>

definition g_dropTable :: "grammar \<Rightarrow> string \<Rightarrow> string" where
  "g_dropTable g name = ''DROP TABLE '' @ g_qualifiedTable g name"

definition g_dropTableIfExists :: "grammar \<Rightarrow> string \<Rightarrow> string" where
  "g_dropTableIfExists g name = ''DROP TABLE IF EXISTS '' @ g_qualifiedTable g name"

definition g_renameTable :: "grammar \<Rightarrow> string \<Rightarrow> string \<Rightarrow> string" where
  "g_renameTable g old new =
     (case g_dialect g of
        MySQL \<Rightarrow> ''RENAME TABLE '' @ g_qualifiedTable g old @ '' TO '' @ g_qualifiedTable g new
      | Postgres \<Rightarrow> ''ALTER TABLE '' @ g_qualifiedTable g old @ '' RENAME TO '' @ g_quote g new)"

definition alter_table :: "grammar \<Rightarrow> string \<Rightarrow> string \<Rightarrow> string" where
  "alter_table g tableName clause = ''ALTER TABLE '' @ g_qualifiedTable g tableName @ sp @ clause"

definition my_positionClause :: "column \<Rightarrow> string" where
  "my_positionClause col =
     (case c_afterColumn col of
        Some None \<Rightarrow> '' FIRST''
      | Some (Some a) \<Rightarrow> '' AFTER '' @ my_quote a
      | None \<Rightarrow> [])"

definition g_addColumn :: "grammar \<Rightarrow> string \<Rightarrow> column \<Rightarrow> string" where
  "g_addColumn g tableName col =
     alter_table g tableName (''ADD COLUMN '' @ g_columnDef g col
       @ (if g_dialect g = MySQL then my_positionClause col else []))"

definition g_dropColumn :: "grammar \<Rightarrow> string \<Rightarrow> string \<Rightarrow> string" where
  "g_dropColumn g tableName columnName = alter_table g tableName (''DROP COLUMN '' @ g_quote g columnName)"

definition pg_modifyColumn :: "grammar \<Rightarrow> string \<Rightarrow> column \<Rightarrow> string list" where
  "pg_modifyColumn g tableName col =
     (let c = g_quote g (c_name col);
          typeDef = (if c_autoIncrement col then (if c_type col = ''bigint'' then ''BIGINT'' else ''INTEGER'')
                     else pg_typeDef (g_pgSchema g) col);
          alter = (\<lambda>s. alter_table g tableName (''ALTER COLUMN '' @ c @ s))
      in [alter ('' TYPE '' @ typeDef),
          alter (if c_nullable col then '' DROP NOT NULL'' else '' SET NOT NULL''),
          (if truthy_str (c_defaultExpression col) then alter ('' SET DEFAULT '' @ the (c_defaultExpression col))
           else case c_defaultValue col of
             Some v \<Rightarrow> alter ('' SET DEFAULT '' @ renderPgDefault col v)
           | None \<Rightarrow> alter '' DROP DEFAULT'')])"

definition g_modifyColumn :: "grammar \<Rightarrow> string \<Rightarrow> column \<Rightarrow> string list" where
  "g_modifyColumn g tableName col =
     (case g_dialect g of
        MySQL \<Rightarrow> [alter_table g tableName (''MODIFY COLUMN '' @ g_columnDef g col)]
      | Postgres \<Rightarrow> pg_modifyColumn g tableName col)"

definition g_renameColumn :: "grammar \<Rightarrow> string \<Rightarrow> string \<Rightarrow> string \<Rightarrow> string" where
  "g_renameColumn g tableName old new =
     alter_table g tableName (''RENAME COLUMN '' @ g_quote g old @ '' TO '' @ g_quote g new)"

definition g_dropIndex :: "grammar \<Rightarrow> string \<Rightarrow> string \<Rightarrow> string" where
  "g_dropIndex g tableName indexName =
     (case g_dialect g of
        MySQL \<Rightarrow> ''DROP INDEX '' @ g_quote g indexName @ '' ON '' @ g_qualifiedTable g tableName
      | Postgres \<Rightarrow>
          if g_pgSchema g \<noteq> [] \<and> g_pgSchema g \<noteq> ''public''
          then ''DROP INDEX '' @ g_quote g (g_pgSchema g) @ ''.'' @ g_quote g indexName
          else ''DROP INDEX '' @ g_quote g indexName)"

definition g_dropForeignKey :: "grammar \<Rightarrow> string \<Rightarrow> string \<Rightarrow> string" where
  "g_dropForeignKey g tableName constraintName =
     alter_table g tableName
       ((case g_dialect g of MySQL \<Rightarrow> ''DROP FOREIGN KEY '' | Postgres \<Rightarrow> ''DROP CONSTRAINT '')
        @ g_quote g constraintName)"

definition g_addPrimaryKey :: "grammar \<Rightarrow> string \<Rightarrow> string list \<Rightarrow> string" where
  "g_addPrimaryKey g tableName columns =
     alter_table g tableName (''ADD PRIMARY KEY ('' @ g_quoted_list g columns @ '')'')"

definition g_dropPrimaryKey :: "grammar \<Rightarrow> string \<Rightarrow> string option \<Rightarrow> string" where
  "g_dropPrimaryKey g tableName constraintName =
     (case g_dialect g of
        MySQL \<Rightarrow> alter_table g tableName ''DROP PRIMARY KEY''
      | Postgres \<Rightarrow> alter_table g tableName (''DROP CONSTRAINT ''
          @ g_quote g (nullish constraintName (tableName @ ''_pkey''))))"

end
