(* ===== verification/DdlMySQL.thy ===== *)
theory DdlMySQL
  imports Grammars
begin

text \<open>
  The MySQL half of \<open>src/src/database/migration/create/ddl-generator.ts\<close>: the statements for one
  modified table (\<open>generateMySQLTableDDL\<close>) and the position clauses.

  \<open>generateMySQLTableDDL\<close> is the translation of the source and produces text.  \<open>mysql_ops\<close> is the same
  migration as a list of abstract operations; \<open>generateMySQLTableDDL_refines\<close> shows that the text is
  the rendering of the operations one by one, so that what the operations do to a table (theory
  \<open>MySQLMigration\<close>) is what the emitted statements do.
\<close>

section \<open>Shared helpers\<close>

definition getGrammar :: "dialect \<Rightarrow> string option \<Rightarrow> grammar" where
  "getGrammar d pgSchema = \<lparr>g_dialect = d, g_pgSchema = nullish pgSchema ''public''\<rparr>"

definition q :: "dialect \<Rightarrow> string \<Rightarrow> string" where
  "q d name = g_quote (getGrammar d None) name"

definition qTable :: "dialect \<Rightarrow> string \<Rightarrow> string option \<Rightarrow> string" where
  "qTable d name pgSchema = g_qualifiedTable (getGrammar d pgSchema) name"

definition mysqlColumnDef :: "column \<Rightarrow> string" where
  "mysqlColumnDef col = g_columnDef (getGrammar MySQL None) col"

definition createIndex :: "string \<Rightarrow> index_schema \<Rightarrow> dialect \<Rightarrow> string option \<Rightarrow> string" where
  "createIndex tableName idx d pgSchema = g_createIndex (getGrammar d pgSchema) tableName idx"

definition addForeignKey :: "string \<Rightarrow> foreign_key \<Rightarrow> dialect \<Rightarrow> string option \<Rightarrow> (sql_error, string) result" where
  "addForeignKey tableName fk d pgSchema = g_addForeignKey (getGrammar d pgSchema) tableName fk"

section \<open>Position clauses\<close>

datatype position = NoPosition | First | After string

fun render_position :: "position \<Rightarrow> string" where
  "render_position NoPosition = []"
| "render_position First = '' FIRST''"
| "render_position (After a) = '' AFTER '' @ q MySQL a"

text \<open>The nearest preceding column of the entity that is not excluded: the loop that walks backwards
  from \<open>idx - 1\<close>, on the reversed prefix.\<close>

fun nearest_preceding :: "string set \<Rightarrow> column list \<Rightarrow> string option" where
  "nearest_preceding excluded [] = None"
| "nearest_preceding excluded (c # cs) =
     (if c_name c \<notin> excluded then Some (c_name c) else nearest_preceding excluded cs)"

definition columns_before :: "string \<Rightarrow> column list \<Rightarrow> column list" where
  "columns_before n cs = takeWhile (\<lambda>c. c_name c \<noteq> n) cs"

definition findAfterClause :: "column \<Rightarrow> table_diff \<Rightarrow> dialect \<Rightarrow> string set \<Rightarrow> string" where
  "findAfterClause col diff dialect excludeNames =
     (if dialect \<noteq> MySQL then []
      else case d_entityColumns diff of
        Some cs \<Rightarrow>
          if c_name col \<in> c_name ` set cs
          then (case nearest_preceding excludeNames (rev (columns_before (c_name col) cs)) of
                  Some p \<Rightarrow> '' AFTER '' @ q MySQL p
                | None \<Rightarrow> '' FIRST'')
          else if c_ordinalPosition col = 1 then '' FIRST'' else []
      | None \<Rightarrow> if c_ordinalPosition col = 1 then '' FIRST'' else [])"

definition findAfterClauseForExisting :: "string \<Rightarrow> table_diff \<Rightarrow> dialect \<Rightarrow> string" where
  "findAfterClauseForExisting colName diff dialect =
     (if dialect \<noteq> MySQL then []
      else case find (\<lambda>r. o_name r = colName) (d_reorderedColumns diff) of
        Some reorder \<Rightarrow> (case o_after reorder of None \<Rightarrow> '' FIRST'' | Some a \<Rightarrow> '' AFTER '' @ q MySQL a)
      | None \<Rightarrow> [])"

definition reorder_clause :: "column_reorder \<Rightarrow> string" where
  "reorder_clause r = (case o_after r of None \<Rightarrow> '' FIRST'' | Some a \<Rightarrow> '' AFTER '' @ q MySQL a)"

section \<open>Dropping the primary key\<close>

definition without_auto_increment :: "column \<Rightarrow> column" where
  "without_auto_increment c = c\<lparr>c_autoIncrement := False\<rparr>"

definition drops_primary_key :: "table_diff \<Rightarrow> bool" where
  "drops_primary_key diff \<longleftrightarrow> d_primaryKeyChanged diff \<and> nullish (d_oldPrimaryKey diff) [] \<noteq> []"

definition adds_primary_key :: "table_diff \<Rightarrow> bool" where
  "adds_primary_key diff \<longleftrightarrow> d_primaryKeyChanged diff \<and> nullish (d_newPrimaryKey diff) [] \<noteq> []"

definition old_pk_set :: "table_diff \<Rightarrow> string list" where
  "old_pk_set diff = set_of_list (nullish (d_oldPrimaryKey diff) [])"

text \<open>The modified and the removed columns that lose AUTO_INCREMENT before the key goes.\<close>

definition stripped_modified :: "table_diff \<Rightarrow> column list" where
  "stripped_modified diff =
     map m_oldColumn (filter (\<lambda>m. c_name (m_oldColumn m) \<in> set (old_pk_set diff) \<and> c_autoIncrement (m_oldColumn m))
       (d_modifiedColumns diff))"

definition stripped_removed :: "table_diff \<Rightarrow> column list" where
  "stripped_removed diff =
     filter (\<lambda>c. c_name c \<in> set (old_pk_set diff) \<and> c_autoIncrement c) (d_removedColumns diff)"

text \<open>The remaining columns of the old key whose entity column has AUTO_INCREMENT, with the name the
  database has for them: pairs of that name and the entity column.\<close>

definition rename_lookup :: "table_diff \<Rightarrow> string \<Rightarrow> string" where
  "rename_lookup diff n = nullish (jget (jmap_of (map (\<lambda>r. (r_from r, r_to r)) (d_renamedColumns diff))) n) n"

definition stripped_remaining :: "table_diff \<Rightarrow> (string \<times> column) list" where
  "stripped_remaining diff =
     (let alreadyHandled = map c_name (stripped_modified diff @ stripped_removed diff)
      in case d_entityColumns diff of
           None \<Rightarrow> []
         | Some cs \<Rightarrow> List.map_filter
             (\<lambda>dbColName.
                if dbColName \<in> set alreadyHandled then None
                else case find_column (rename_lookup diff dbColName) cs of
                       Some entityCol \<Rightarrow> if c_autoIncrement entityCol then Some (dbColName, entityCol) else None
                     | None \<Rightarrow> None)
             (old_pk_set diff))"

section \<open>Classes of columns\<close>

definition renamed_names :: "table_diff \<Rightarrow> string list" where
  "renamed_names diff = map r_to (d_renamedColumns diff)"

definition defers_mod :: "table_diff \<Rightarrow> column_modification \<Rightarrow> bool" where
  "defers_mod diff m \<longleftrightarrow> c_autoIncrement (m_newColumn m) \<and> (m_autoIncrementChanged m \<or> d_primaryKeyChanged diff)"

definition plain_mods :: "table_diff \<Rightarrow> column_modification list" where
  "plain_mods diff = filter (\<lambda>m. m_name m \<notin> set (renamed_names diff)) (d_modifiedColumns diff)"

definition defers_rename :: "table_diff \<Rightarrow> column_rename \<Rightarrow> bool" where
  "defers_rename diff r \<longleftrightarrow> c_autoIncrement (r_column r) \<and> d_primaryKeyChanged diff"

definition handled_names :: "table_diff \<Rightarrow> string list" where
  "handled_names diff = renamed_names diff @ map m_name (d_modifiedColumns diff) @ map c_name (d_addedColumns diff)"

text \<open>The reorders of step 8, with the entity column each one re-states.\<close>

definition pending_reorders :: "table_diff \<Rightarrow> (column_reorder \<times> column) list" where
  "pending_reorders diff = List.map_filter
     (\<lambda>r. if o_name r \<in> set (handled_names diff) then None
          else case d_entityColumns diff of
                 None \<Rightarrow> None
               | Some cs \<Rightarrow> map_option (Pair r) (find_column (o_name r) cs))
     (d_reorderedColumns diff)"

section \<open>The statements for one table\<close>

definition my_alter :: "table_diff \<Rightarrow> string \<Rightarrow> string" where
  "my_alter diff clause = ''ALTER TABLE '' @ q MySQL (d_tableName diff) @ sp @ clause"

definition my_modify :: "table_diff \<Rightarrow> column \<Rightarrow> string \<Rightarrow> string" where
  "my_modify diff col after = my_alter diff (''MODIFY COLUMN '' @ mysqlColumnDef col @ after)"

definition mysql_drop_part :: "table_diff \<Rightarrow> string list" where
  "mysql_drop_part diff =
     map (\<lambda>fk. my_alter diff (''DROP FOREIGN KEY '' @ q MySQL (f_name fk))) (d_removedForeignKeys diff)
     @ map (\<lambda>idx. my_alter diff (''DROP INDEX '' @ q MySQL (i_name idx))) (d_removedIndexes diff)
     @ (if drops_primary_key diff
        then map (\<lambda>c. my_modify diff (without_auto_increment c) []) (stripped_modified diff)
             @ map (\<lambda>c. my_modify diff (without_auto_increment c) []) (stripped_removed diff)
             @ map (\<lambda>(n, c). my_modify diff (c\<lparr>c_name := n, c_autoIncrement := False\<rparr>) []) (stripped_remaining diff)
             @ [my_alter diff ''DROP PRIMARY KEY'']
        else [])
     @ map (\<lambda>c. my_alter diff (''DROP COLUMN '' @ q MySQL (c_name c))) (d_removedColumns diff)"

definition mysql_change_part :: "table_diff \<Rightarrow> string list" where
  "mysql_change_part diff =
     (let addedNames = set (map c_name (d_addedColumns diff)) in
      map (\<lambda>r. let after = findAfterClause (r_column r) diff MySQL addedNames;
                   col = (if defers_rename diff r then without_auto_increment (r_column r) else r_column r)
               in my_alter diff (''CHANGE COLUMN '' @ q MySQL (r_from r) @ sp @ mysqlColumnDef col @ after))
        (d_renamedColumns diff)
      @ map (\<lambda>m. my_modify diff (m_newColumn m) (findAfterClauseForExisting (m_name m) diff MySQL))
          (filter (\<lambda>m. \<not> defers_mod diff m) (plain_mods diff))
      @ map (\<lambda>c. my_alter diff (''ADD COLUMN ''
              @ mysqlColumnDef (if c_autoIncrement c then without_auto_increment c else c)
              @ findAfterClause c diff MySQL {}))
          (d_addedColumns diff)
      @ map (\<lambda>(r, c). my_modify diff c (reorder_clause r)) (pending_reorders diff))"

definition mysql_key_part :: "table_diff \<Rightarrow> string list" where
  "mysql_key_part diff =
     (if adds_primary_key diff
      then [my_alter diff (''ADD PRIMARY KEY ('' @ comma_sep (map (q MySQL) (the (d_newPrimaryKey diff))) @ '')'')]
      else [])
     @ map (\<lambda>m. my_modify diff (m_newColumn m) (findAfterClauseForExisting (m_name m) diff MySQL))
         (filter (defers_mod diff) (plain_mods diff))
     @ map (\<lambda>c. my_modify diff c []) (filter c_autoIncrement (d_addedColumns diff))
     @ map (\<lambda>r. my_modify diff (r_column r) []) (filter (defers_rename diff) (d_renamedColumns diff))
     @ (if drops_primary_key diff then map (\<lambda>(n, c). my_modify diff c []) (stripped_remaining diff) else [])"

definition generateMySQLTableDDL :: "table_diff \<Rightarrow> (sql_error, string list) result" where
  "generateMySQLTableDDL diff =
     map_result (\<lambda>fks.
         mysql_drop_part diff @ mysql_change_part diff @ mysql_key_part diff
         @ map (\<lambda>idx. createIndex (d_tableName diff) idx MySQL None) (d_addedIndexes diff) @ fks)
       (collect_results (\<lambda>fk. addForeignKey (d_tableName diff) fk MySQL None) (d_addedForeignKeys diff))"

section \<open>The same migration as operations\<close>

datatype mysql_op =
    DropFK string
  | DropIndex string
  | ModifyColumn column position
  | DropPK
  | DropColumn string
  | ChangeColumn string column position
  | AddColumn column position
  | AddPK "string list"
  | CreateIndex index_schema
  | AddFK foreign_key

fun render_op :: "table_diff \<Rightarrow> mysql_op \<Rightarrow> (sql_error, string) result" where
  "render_op diff (DropFK n) = Inr (my_alter diff (''DROP FOREIGN KEY '' @ q MySQL n))"
| "render_op diff (DropIndex n) = Inr (my_alter diff (''DROP INDEX '' @ q MySQL n))"
| "render_op diff (ModifyColumn c p) = Inr (my_modify diff c (render_position p))"
| "render_op diff DropPK = Inr (my_alter diff ''DROP PRIMARY KEY'')"
| "render_op diff (DropColumn n) = Inr (my_alter diff (''DROP COLUMN '' @ q MySQL n))"
| "render_op diff (ChangeColumn n c p) =
     Inr (my_alter diff (''CHANGE COLUMN '' @ q MySQL n @ sp @ mysqlColumnDef c @ render_position p))"
| "render_op diff (AddColumn c p) = Inr (my_alter diff (''ADD COLUMN '' @ mysqlColumnDef c @ render_position p))"
| "render_op diff (AddPK ns) = Inr (my_alter diff (''ADD PRIMARY KEY ('' @ comma_sep (map (q MySQL) ns) @ '')''))"
| "render_op diff (CreateIndex i) = Inr (createIndex (d_tableName diff) i MySQL None)"
| "render_op diff (AddFK fk) = addForeignKey (d_tableName diff) fk MySQL None"

definition after_position :: "column \<Rightarrow> table_diff \<Rightarrow> string set \<Rightarrow> position" where
  "after_position col diff excluded =
     (case d_entityColumns diff of
        Some cs \<Rightarrow>
          if c_name col \<in> c_name ` set cs
          then (case nearest_preceding excluded (rev (columns_before (c_name col) cs)) of
                  Some p \<Rightarrow> After p | None \<Rightarrow> First)
          else if c_ordinalPosition col = 1 then First else NoPosition
      | None \<Rightarrow> if c_ordinalPosition col = 1 then First else NoPosition)"

definition reorder_position :: "column_reorder \<Rightarrow> position" where
  "reorder_position r = (case o_after r of None \<Rightarrow> First | Some a \<Rightarrow> After a)"

definition existing_position :: "string \<Rightarrow> table_diff \<Rightarrow> position" where
  "existing_position n diff =
     (case find (\<lambda>r. o_name r = n) (d_reorderedColumns diff) of Some r \<Rightarrow> reorder_position r | None \<Rightarrow> NoPosition)"

definition strip_ops :: "table_diff \<Rightarrow> mysql_op list" where
  "strip_ops diff =
     map (\<lambda>c. ModifyColumn (without_auto_increment c) NoPosition) (stripped_modified diff)
     @ map (\<lambda>c. ModifyColumn (without_auto_increment c) NoPosition) (stripped_removed diff)
     @ map (\<lambda>(n, c). ModifyColumn (c\<lparr>c_name := n, c_autoIncrement := False\<rparr>) NoPosition) (stripped_remaining diff)"

definition drop_ops :: "table_diff \<Rightarrow> mysql_op list" where
  "drop_ops diff =
     map (\<lambda>fk. DropFK (f_name fk)) (d_removedForeignKeys diff)
     @ map (\<lambda>i. DropIndex (i_name i)) (d_removedIndexes diff)
     @ (if drops_primary_key diff then strip_ops diff @ [DropPK] else [])
     @ map (\<lambda>c. DropColumn (c_name c)) (d_removedColumns diff)"

definition rename_op :: "table_diff \<Rightarrow> column_rename \<Rightarrow> mysql_op" where
  "rename_op diff r = ChangeColumn (r_from r)
     (if defers_rename diff r then without_auto_increment (r_column r) else r_column r)
     (after_position (r_column r) diff (set (map c_name (d_addedColumns diff))))"

definition mod_op :: "table_diff \<Rightarrow> column_modification \<Rightarrow> mysql_op" where
  "mod_op diff m = ModifyColumn (m_newColumn m) (existing_position (m_name m) diff)"

definition add_op :: "table_diff \<Rightarrow> column \<Rightarrow> mysql_op" where
  "add_op diff c = AddColumn (if c_autoIncrement c then without_auto_increment c else c) (after_position c diff {})"

definition change_ops :: "table_diff \<Rightarrow> mysql_op list" where
  "change_ops diff =
     map (rename_op diff) (d_renamedColumns diff)
     @ map (mod_op diff) (filter (\<lambda>m. \<not> defers_mod diff m) (plain_mods diff))
     @ map (add_op diff) (d_addedColumns diff)
     @ map (\<lambda>(r, c). ModifyColumn c (reorder_position r)) (pending_reorders diff)"

definition restore_ops :: "table_diff \<Rightarrow> mysql_op list" where
  "restore_ops diff =
     map (mod_op diff) (filter (defers_mod diff) (plain_mods diff))
     @ map (\<lambda>c. ModifyColumn c NoPosition) (filter c_autoIncrement (d_addedColumns diff))
     @ map (\<lambda>r. ModifyColumn (r_column r) NoPosition) (filter (defers_rename diff) (d_renamedColumns diff))
     @ (if drops_primary_key diff then map (\<lambda>(n, c). ModifyColumn c NoPosition) (stripped_remaining diff) else [])"

definition add_pk_ops :: "table_diff \<Rightarrow> mysql_op list" where
  "add_pk_ops diff = (if adds_primary_key diff then [AddPK (the (d_newPrimaryKey diff))] else [])"

definition mysql_ops :: "table_diff \<Rightarrow> mysql_op list" where
  "mysql_ops diff =
     drop_ops diff @ change_ops diff @ add_pk_ops diff @ restore_ops diff
     @ map CreateIndex (d_addedIndexes diff) @ map AddFK (d_addedForeignKeys diff)"

section \<open>The text renders the operations\<close>

lemma findAfterClause_position: "findAfterClause c diff MySQL ex = render_position (after_position c diff ex)"
  by (simp add: findAfterClause_def after_position_def split: option.split)

lemma reorder_clause_position: "reorder_clause r = render_position (reorder_position r)"
  by (simp add: reorder_clause_def reorder_position_def split: option.split)

lemma findAfterClauseForExisting_position:
  "findAfterClauseForExisting n diff MySQL = render_position (existing_position n diff)"
  by (simp add: findAfterClauseForExisting_def existing_position_def reorder_clause_position [symmetric]
      reorder_clause_def split: option.split)

lemma collect_results_append:
  "collect_results f (xs @ ys) =
     bind_result (collect_results f xs) (\<lambda>us. map_result ((@) us) (collect_results f ys))"
proof (induction xs)
  case Nil
  then show ?case by (cases "collect_results f ys") auto
next
  case (Cons x xs)
  then show ?case
    by (cases "f x"; cases "collect_results f xs"; cases "collect_results f ys") auto
qed

lemma collect_render_Inr:
  "(\<And>x. x \<in> set xs \<Longrightarrow> render_op diff (f x) = Inr (g x)) \<Longrightarrow>
   collect_results (render_op diff) (map f xs @ ops) = map_result ((@) (map g xs)) (collect_results (render_op diff) ops)"
proof (induction xs)
  case Nil
  then show ?case by (cases "collect_results (render_op diff) ops") auto
next
  case (Cons x xs)
  then show ?case by (cases "collect_results (render_op diff) ops") auto
qed

lemma collect_render_AddFK:
  "collect_results (render_op diff) (map AddFK fks) =
     collect_results (\<lambda>fk. addForeignKey (d_tableName diff) fk MySQL None) fks"
  by (induction fks) auto

lemma render_simps:
  "render_op diff (rename_op diff r) = Inr (my_alter diff (''CHANGE COLUMN '' @ q MySQL (r_from r) @ sp
     @ mysqlColumnDef (if defers_rename diff r then without_auto_increment (r_column r) else r_column r)
     @ findAfterClause (r_column r) diff MySQL (set (map c_name (d_addedColumns diff)))))"
  "render_op diff (mod_op diff m) = Inr (my_modify diff (m_newColumn m) (findAfterClauseForExisting (m_name m) diff MySQL))"
  "render_op diff (add_op diff c) = Inr (my_alter diff (''ADD COLUMN ''
     @ mysqlColumnDef (if c_autoIncrement c then without_auto_increment c else c) @ findAfterClause c diff MySQL {}))"
  by (simp_all add: rename_op_def mod_op_def add_op_def findAfterClause_position findAfterClauseForExisting_position)

lemma map_result_comp: "map_result f (map_result g r) = map_result (\<lambda>x. f (g x)) r"
  by (cases r) auto

lemma collect_render_split:
  assumes "collect_results (render_op diff) ops = Inr ts"
  shows "collect_results (render_op diff) (ops @ ops') = map_result ((@) ts) (collect_results (render_op diff) ops')"
  by (simp add: collect_results_append assms)

lemma collect_render_map:
  "(\<And>x. x \<in> set xs \<Longrightarrow> render_op diff (f x) = Inr (g x)) \<Longrightarrow> collect_results (render_op diff) (map f xs) = Inr (map g xs)"
  by (induction xs) auto

lemma collect_render_append_Inr:
  "collect_results (render_op diff) xs = Inr us \<Longrightarrow> collect_results (render_op diff) ys = Inr vs \<Longrightarrow>
   collect_results (render_op diff) (xs @ ys) = Inr (us @ vs)"
  by (simp add: collect_results_append)

lemma drop_ops_render: "collect_results (render_op diff) (drop_ops diff) = Inr (mysql_drop_part diff)"
proof -
  have cols: "collect_results (render_op diff) (map (\<lambda>c. DropColumn (c_name c)) (d_removedColumns diff))
      = Inr (map (\<lambda>c. my_alter diff (''DROP COLUMN '' @ q MySQL (c_name c))) (d_removedColumns diff))"
    by (rule collect_render_map) simp
  show ?thesis
    unfolding drop_ops_def mysql_drop_part_def strip_ops_def
    by (auto simp: cols intro!: collect_render_append_Inr collect_render_map split: prod.split)
qed

lemma change_ops_render: "collect_results (render_op diff) (change_ops diff) = Inr (mysql_change_part diff)"
  unfolding change_ops_def mysql_change_part_def Let_def
  by (intro collect_render_append_Inr collect_render_map)
    (auto simp: render_simps reorder_clause_position split: prod.split)

lemma key_ops_render: "collect_results (render_op diff) (add_pk_ops diff @ restore_ops diff) = Inr (mysql_key_part diff)"
  unfolding add_pk_ops_def restore_ops_def mysql_key_part_def
  by (intro collect_render_append_Inr collect_render_map)
    (auto simp: render_simps intro!: collect_render_map split: prod.split)

text \<open>C2. The SQL text emitted for a modified MySQL table is the rendering of the abstract operations, in
  order and one statement per operation, and generation fails exactly when rendering an operation fails
  (an invalid foreign key action).  So what the operations do to a table is what the emitted
  statements do.\<close>

theorem generateMySQLTableDDL_refines: "generateMySQLTableDDL diff = collect_results (render_op diff) (mysql_ops diff)"
proof -
  have "collect_results (render_op diff) (map CreateIndex (d_addedIndexes diff))
      = Inr (map (\<lambda>idx. createIndex (d_tableName diff) idx MySQL None) (d_addedIndexes diff))"
    by (rule collect_render_map) simp
  note front = collect_render_append_Inr [OF drop_ops_render collect_render_append_Inr [OF change_ops_render
        collect_render_append_Inr [OF key_ops_render this]]]
  show ?thesis
    using collect_render_split [OF front, of "map AddFK (d_addedForeignKeys diff)"]
    by (cases "collect_results (\<lambda>fk. addForeignKey (d_tableName diff) fk MySQL None) (d_addedForeignKeys diff)")
      (simp_all add: generateMySQLTableDDL_def mysql_ops_def collect_render_AddFK)
qed

end
