(* ===== verification/DdlPostgres.thy ===== *)
theory DdlPostgres
  imports DdlMySQL
begin

text \<open>
  The PostgreSQL half of \<open>src/src/database/migration/create/ddl-generator.ts\<close>: the statements for one
  modified table (\<open>generatePostgresTableDDL\<close>).  The set of enum types already created, which the source
  shares between tables and updates in place, is an argument and a result.

  As for MySQL, \<open>pg_ops\<close> is the same migration as a list of abstract operations, and
  \<open>generatePostgresTableDDL_refines\<close> shows that the text is their rendering.
\<close>

section \<open>Helpers\<close>

definition pgGrammar :: "string option \<Rightarrow> grammar" where
  "pgGrammar pgSchema = getGrammar Postgres pgSchema"

definition createEnumType :: "string \<Rightarrow> string list \<Rightarrow> string option \<Rightarrow> string list" where
  "createEnumType typeName values pgSchema = g_createEnumType (pgGrammar pgSchema) typeName values"

definition pgColumnDef :: "column \<Rightarrow> string option \<Rightarrow> string" where
  "pgColumnDef col pgSchema = g_columnDef (pgGrammar pgSchema) col"

definition pgTypeDef :: "column \<Rightarrow> string option \<Rightarrow> string" where
  "pgTypeDef col pgSchema = g_columnType (pgGrammar pgSchema) col"

definition qType :: "string \<Rightarrow> string option \<Rightarrow> string" where
  "qType typeName pgSchema = pg_qualified (g_pgSchema (pgGrammar pgSchema)) typeName"

definition pgRegclass :: "string \<Rightarrow> string option \<Rightarrow> string" where
  "pgRegclass name pgSchema = pg_qualified (g_pgSchema (pgGrammar pgSchema)) name"

section \<open>New enum types\<close>

fun pg_new_enums :: "string option \<Rightarrow> enum_type list \<Rightarrow> string list \<Rightarrow> string list \<times> string list" where
  "pg_new_enums pgSchema [] seen = ([], seen)"
| "pg_new_enums pgSchema (t # ts) seen =
     (if e_typeName t \<in> set seen then pg_new_enums pgSchema ts seen
      else let (stmts, seen') = pg_new_enums pgSchema ts (set_add (e_typeName t) seen)
           in (createEnumType (e_typeName t) (e_values t) pgSchema @ stmts, seen'))"

section \<open>Changes of one column\<close>

definition pg_alter :: "table_diff \<Rightarrow> string option \<Rightarrow> string \<Rightarrow> string" where
  "pg_alter diff pgSchema clause = ''ALTER TABLE '' @ qTable Postgres (d_tableName diff) pgSchema @ sp @ clause"

definition pg_alter_column :: "table_diff \<Rightarrow> string option \<Rightarrow> string \<Rightarrow> string \<Rightarrow> string" where
  "pg_alter_column diff pgSchema name clause =
     pg_alter diff pgSchema (''ALTER COLUMN '' @ q Postgres name @ sp @ clause)"

definition to_enum :: "column_modification \<Rightarrow> bool" where
  "to_enum m \<longleftrightarrow> c_type (m_newColumn m) = ''enum'' \<and> truthy_str (c_enumTypeName (m_newColumn m))"

definition had_default :: "column_modification \<Rightarrow> bool" where
  "had_default m \<longleftrightarrow> truthy_str (c_defaultExpression (m_oldColumn m)) \<or> c_defaultValue (m_oldColumn m) \<noteq> None"

definition restoreExpr :: "column_modification \<Rightarrow> string option" where
  "restoreExpr m = (case c_defaultExpression (m_newColumn m) of
     Some e \<Rightarrow> Some e | None \<Rightarrow> c_defaultExpression (m_oldColumn m))"

definition restoreVal :: "column_modification \<Rightarrow> js_value option" where
  "restoreVal m = (case c_defaultValue (m_newColumn m) of
     Some v \<Rightarrow> Some v | None \<Rightarrow> c_defaultValue (m_oldColumn m))"

definition pg_type_stmts :: "table_diff \<Rightarrow> string option \<Rightarrow> column_modification \<Rightarrow> string list" where
  "pg_type_stmts diff pgSchema m =
     (if \<not> m_typeChanged m then []
      else let typeDef = pgTypeDef (m_newColumn m) pgSchema in
        if to_enum m
        then (if had_default m then [pg_alter_column diff pgSchema (m_name m) ''DROP DEFAULT''] else [])
             @ [pg_alter_column diff pgSchema (m_name m)
                  (''TYPE '' @ typeDef @ '' USING '' @ q Postgres (m_name m) @ ''::text::'' @ typeDef)]
        else [pg_alter_column diff pgSchema (m_name m) (''TYPE '' @ typeDef)])"

text \<open>\<open>enumDefaultsToRestore\<close>: at most one entry for a modification\<close>

definition enum_default_to_restore :: "column_modification \<Rightarrow> string option" where
  "enum_default_to_restore m =
     (if m_typeChanged m \<and> to_enum m \<and> had_default m
      then (if truthy_str (restoreExpr m) then restoreExpr m
            else map_option (\<lambda>v. sqlString None (js_to_string v)) (restoreVal m))
      else None)"

definition pg_restore_stmts :: "table_diff \<Rightarrow> string option \<Rightarrow> column_modification \<Rightarrow> string list" where
  "pg_restore_stmts diff pgSchema m =
     (case enum_default_to_restore m of
        Some e \<Rightarrow> [pg_alter_column diff pgSchema (m_name m) (''SET DEFAULT '' @ e)] | None \<Rightarrow> [])"

definition pg_nullable_stmts :: "table_diff \<Rightarrow> string option \<Rightarrow> column_modification \<Rightarrow> string list" where
  "pg_nullable_stmts diff pgSchema m =
     (if m_nullableChanged m
      then [pg_alter_column diff pgSchema (m_name m)
              (if c_nullable (m_newColumn m) then ''DROP NOT NULL'' else ''SET NOT NULL'')]
      else [])"

definition pg_default_stmts :: "table_diff \<Rightarrow> string option \<Rightarrow> column_modification \<Rightarrow> string list" where
  "pg_default_stmts diff pgSchema m =
     (if m_defaultChanged m
      then [pg_alter_column diff pgSchema (m_name m)
              (if truthy_str (c_defaultExpression (m_newColumn m))
               then ''SET DEFAULT '' @ the (c_defaultExpression (m_newColumn m))
               else case c_defaultValue (m_newColumn m) of
                      Some v \<Rightarrow> ''SET DEFAULT '' @ sqlString None (js_to_string v)
                    | None \<Rightarrow> ''DROP DEFAULT'')]
      else [])"

definition seq_name :: "table_diff \<Rightarrow> string \<Rightarrow> string" where
  "seq_name diff column = d_tableName diff @ ''_'' @ column @ ''_seq''"

definition nextvalArg :: "table_diff \<Rightarrow> string option \<Rightarrow> string \<Rightarrow> string" where
  "nextvalArg diff pgSchema column = escapeStr (pgRegclass (seq_name diff column) pgSchema) None"

definition pg_create_sequence :: "table_diff \<Rightarrow> string option \<Rightarrow> string \<Rightarrow> string" where
  "pg_create_sequence diff pgSchema name =
     ''CREATE SEQUENCE '' @ qTable Postgres (seq_name diff name) pgSchema @ '' OWNED BY ''
     @ qTable Postgres (d_tableName diff) pgSchema @ ''.'' @ q Postgres name"

definition pg_setval :: "table_diff \<Rightarrow> string option \<Rightarrow> string \<Rightarrow> string" where
  "pg_setval diff pgSchema name =
     (let selectMax = ''(SELECT MAX('' @ q Postgres name @ '') FROM '' @ qTable Postgres (d_tableName diff) pgSchema @ '')''
      in ''SELECT setval('' @ [squote] @ nextvalArg diff pgSchema name @ [squote] @ '', COALESCE('' @ selectMax @ '', 1), ''
         @ selectMax @ '' IS NOT NULL)'')"

definition pg_nextval :: "table_diff \<Rightarrow> string option \<Rightarrow> string \<Rightarrow> string" where
  "pg_nextval diff pgSchema name = ''nextval('' @ [squote] @ nextvalArg diff pgSchema name @ [squote] @ '')''"

definition pg_drop_sequence :: "table_diff \<Rightarrow> string option \<Rightarrow> column_modification \<Rightarrow> string" where
  "pg_drop_sequence diff pgSchema m =
     ''DROP SEQUENCE IF EXISTS ''
     @ (if truthy_str (c_sequenceName (m_oldColumn m)) then the (c_sequenceName (m_oldColumn m))
        else qTable Postgres (seq_name diff (m_name m)) pgSchema)"

definition pg_autoincrement_stmts :: "table_diff \<Rightarrow> string option \<Rightarrow> column_modification \<Rightarrow> string list" where
  "pg_autoincrement_stmts diff pgSchema m =
     (if \<not> m_autoIncrementChanged m then []
      else if c_autoIncrement (m_newColumn m)
      then [pg_create_sequence diff pgSchema (m_name m),
            pg_alter_column diff pgSchema (m_name m) (''SET DEFAULT '' @ pg_nextval diff pgSchema (m_name m)),
            pg_setval diff pgSchema (m_name m)]
      else if c_isIdentity (m_oldColumn m) then [pg_alter_column diff pgSchema (m_name m) ''DROP IDENTITY'']
      else [pg_alter_column diff pgSchema (m_name m) ''DROP DEFAULT'', pg_drop_sequence diff pgSchema m])"

section \<open>The statements for one table\<close>

definition pg_drop_part :: "table_diff \<Rightarrow> string option \<Rightarrow> string list" where
  "pg_drop_part diff pgSchema =
     map (\<lambda>fk. pg_alter diff pgSchema (''DROP CONSTRAINT '' @ q Postgres (f_name fk))) (d_removedForeignKeys diff)
     @ map (\<lambda>idx. ''DROP INDEX '' @ qTable Postgres (i_name idx) pgSchema) (d_removedIndexes diff)
     @ (if drops_primary_key diff
        then [pg_alter diff pgSchema (''DROP CONSTRAINT ''
               @ q Postgres (nullish (d_oldPrimaryKeyConstraintName diff) (d_tableName diff @ ''_pkey'')))]
        else [])
     @ map (\<lambda>c. pg_alter diff pgSchema (''DROP COLUMN '' @ q Postgres (c_name c))) (d_removedColumns diff)"

definition pg_change_part :: "table_diff \<Rightarrow> string option \<Rightarrow> string list" where
  "pg_change_part diff pgSchema =
     map (\<lambda>r. pg_alter diff pgSchema (''RENAME COLUMN '' @ q Postgres (r_from r) @ '' TO '' @ q Postgres (r_to r)))
       (d_renamedColumns diff)
     @ concat (map (pg_type_stmts diff pgSchema) (d_modifiedColumns diff))
     @ concat (map (pg_restore_stmts diff pgSchema) (d_modifiedColumns diff))
     @ concat (map (pg_nullable_stmts diff pgSchema) (d_modifiedColumns diff))
     @ concat (map (pg_default_stmts diff pgSchema) (d_modifiedColumns diff))
     @ concat (map (pg_autoincrement_stmts diff pgSchema) (d_modifiedColumns diff))"

definition pg_add_part :: "table_diff \<Rightarrow> string option \<Rightarrow> string list" where
  "pg_add_part diff pgSchema =
     map (\<lambda>c. pg_alter diff pgSchema (''ADD COLUMN '' @ pgColumnDef c pgSchema)) (d_addedColumns diff)
     @ (if adds_primary_key diff
        then [pg_alter diff pgSchema (''ADD PRIMARY KEY ('' @ comma_sep (map (q Postgres) (the (d_newPrimaryKey diff))) @ '')'')]
        else [])
     @ map (\<lambda>idx. createIndex (d_tableName diff) idx Postgres pgSchema) (d_addedIndexes diff)"

definition generatePostgresTableDDL ::
    "table_diff \<Rightarrow> string option \<Rightarrow> string list \<Rightarrow> (sql_error, string list \<times> string list) result" where
  "generatePostgresTableDDL diff pgSchema globalEnumTypes =
     (let (enums, seen) = pg_new_enums pgSchema (d_addedEnumTypes diff) globalEnumTypes
      in map_result (\<lambda>fks.
           (enums @ pg_drop_part diff pgSchema @ pg_change_part diff pgSchema @ pg_add_part diff pgSchema @ fks, seen))
         (collect_results (\<lambda>fk. addForeignKey (d_tableName diff) fk Postgres pgSchema) (d_addedForeignKeys diff)))"

section \<open>The same migration as operations\<close>

text \<open>An action on one column, and an operation on the table.\<close>

datatype pg_action =
    SetType column bool
  | DropDefault
  | SetDefaultExpr string
  | SetDefaultValue js_value
  | SetNullable bool
  | CreateSequence
  | DefaultNextval
  | SyncSequence
  | DropIdentity
  | DropSequence column_modification

datatype pg_op =
    PDropConstraint string
  | PDropIndex string
  | PDropColumn string
  | PRenameColumn string string
  | PAlterColumn string pg_action
  | PAddColumn column
  | PAddPK "string list"
  | PCreateIndex index_schema
  | PAddFK foreign_key

fun render_action :: "table_diff \<Rightarrow> string option \<Rightarrow> string \<Rightarrow> pg_action \<Rightarrow> string" where
  "render_action diff pgSchema n (SetType c cast) =
     (let typeDef = pgTypeDef c pgSchema in
      pg_alter_column diff pgSchema n (''TYPE '' @ typeDef
        @ (if cast then '' USING '' @ q Postgres n @ ''::text::'' @ typeDef else [])))"
| "render_action diff pgSchema n DropDefault = pg_alter_column diff pgSchema n ''DROP DEFAULT''"
| "render_action diff pgSchema n (SetDefaultExpr e) = pg_alter_column diff pgSchema n (''SET DEFAULT '' @ e)"
| "render_action diff pgSchema n (SetDefaultValue v) =
     pg_alter_column diff pgSchema n (''SET DEFAULT '' @ sqlString None (js_to_string v))"
| "render_action diff pgSchema n (SetNullable b) =
     pg_alter_column diff pgSchema n (if b then ''DROP NOT NULL'' else ''SET NOT NULL'')"
| "render_action diff pgSchema n CreateSequence = pg_create_sequence diff pgSchema n"
| "render_action diff pgSchema n DefaultNextval =
     pg_alter_column diff pgSchema n (''SET DEFAULT '' @ pg_nextval diff pgSchema n)"
| "render_action diff pgSchema n SyncSequence = pg_setval diff pgSchema n"
| "render_action diff pgSchema n DropIdentity = pg_alter_column diff pgSchema n ''DROP IDENTITY''"
| "render_action diff pgSchema n (DropSequence m) = pg_drop_sequence diff pgSchema m"

fun render_pg_op :: "table_diff \<Rightarrow> string option \<Rightarrow> pg_op \<Rightarrow> (sql_error, string) result" where
  "render_pg_op diff s (PDropConstraint n) = Inr (pg_alter diff s (''DROP CONSTRAINT '' @ q Postgres n))"
| "render_pg_op diff s (PDropIndex n) = Inr (''DROP INDEX '' @ qTable Postgres n s)"
| "render_pg_op diff s (PDropColumn n) = Inr (pg_alter diff s (''DROP COLUMN '' @ q Postgres n))"
| "render_pg_op diff s (PRenameColumn a b) =
     Inr (pg_alter diff s (''RENAME COLUMN '' @ q Postgres a @ '' TO '' @ q Postgres b))"
| "render_pg_op diff s (PAlterColumn n a) = Inr (render_action diff s n a)"
| "render_pg_op diff s (PAddColumn c) = Inr (pg_alter diff s (''ADD COLUMN '' @ pgColumnDef c s))"
| "render_pg_op diff s (PAddPK ns) = Inr (pg_alter diff s (''ADD PRIMARY KEY ('' @ comma_sep (map (q Postgres) ns) @ '')''))"
| "render_pg_op diff s (PCreateIndex i) = Inr (createIndex (d_tableName diff) i Postgres s)"
| "render_pg_op diff s (PAddFK fk) = addForeignKey (d_tableName diff) fk Postgres s"

definition type_actions :: "column_modification \<Rightarrow> pg_action list" where
  "type_actions m =
     (if \<not> m_typeChanged m then []
      else if to_enum m then (if had_default m then [DropDefault] else []) @ [SetType (m_newColumn m) True]
      else [SetType (m_newColumn m) False])"

definition restore_actions :: "column_modification \<Rightarrow> pg_action list" where
  "restore_actions m =
     (if m_typeChanged m \<and> to_enum m \<and> had_default m
      then (if truthy_str (restoreExpr m) then [SetDefaultExpr (the (restoreExpr m))]
            else case restoreVal m of Some v \<Rightarrow> [SetDefaultValue v] | None \<Rightarrow> [])
      else [])"

definition nullable_actions :: "column_modification \<Rightarrow> pg_action list" where
  "nullable_actions m = (if m_nullableChanged m then [SetNullable (c_nullable (m_newColumn m))] else [])"

definition default_actions :: "column_modification \<Rightarrow> pg_action list" where
  "default_actions m =
     (if m_defaultChanged m
      then [if truthy_str (c_defaultExpression (m_newColumn m))
            then SetDefaultExpr (the (c_defaultExpression (m_newColumn m)))
            else case c_defaultValue (m_newColumn m) of Some v \<Rightarrow> SetDefaultValue v | None \<Rightarrow> DropDefault]
      else [])"

definition autoincrement_actions :: "column_modification \<Rightarrow> pg_action list" where
  "autoincrement_actions m =
     (if \<not> m_autoIncrementChanged m then []
      else if c_autoIncrement (m_newColumn m) then [CreateSequence, DefaultNextval, SyncSequence]
      else if c_isIdentity (m_oldColumn m) then [DropIdentity]
      else [DropDefault, DropSequence m])"

definition on_columns :: "(column_modification \<Rightarrow> pg_action list) \<Rightarrow> column_modification list \<Rightarrow> pg_op list" where
  "on_columns f ms = concat (map (\<lambda>m. map (PAlterColumn (m_name m)) (f m)) ms)"

definition pg_drop_ops :: "table_diff \<Rightarrow> pg_op list" where
  "pg_drop_ops diff =
     map (\<lambda>fk. PDropConstraint (f_name fk)) (d_removedForeignKeys diff)
     @ map (\<lambda>i. PDropIndex (i_name i)) (d_removedIndexes diff)
     @ (if drops_primary_key diff
        then [PDropConstraint (nullish (d_oldPrimaryKeyConstraintName diff) (d_tableName diff @ ''_pkey''))] else [])
     @ map (\<lambda>c. PDropColumn (c_name c)) (d_removedColumns diff)"

definition pg_change_ops :: "table_diff \<Rightarrow> pg_op list" where
  "pg_change_ops diff =
     map (\<lambda>r. PRenameColumn (r_from r) (r_to r)) (d_renamedColumns diff)
     @ on_columns type_actions (d_modifiedColumns diff)
     @ on_columns restore_actions (d_modifiedColumns diff)
     @ on_columns nullable_actions (d_modifiedColumns diff)
     @ on_columns default_actions (d_modifiedColumns diff)
     @ on_columns autoincrement_actions (d_modifiedColumns diff)"

definition pg_add_ops :: "table_diff \<Rightarrow> pg_op list" where
  "pg_add_ops diff =
     map PAddColumn (d_addedColumns diff)
     @ (if adds_primary_key diff then [PAddPK (the (d_newPrimaryKey diff))] else [])
     @ map PCreateIndex (d_addedIndexes diff)"

definition pg_ops :: "table_diff \<Rightarrow> pg_op list" where
  "pg_ops diff = pg_drop_ops diff @ pg_change_ops diff @ pg_add_ops diff @ map PAddFK (d_addedForeignKeys diff)"

section \<open>The text renders the operations\<close>

lemma collect_map_Inr:
  "(\<And>x. x \<in> set xs \<Longrightarrow> r (f x) = Inr (g x)) \<Longrightarrow> collect_results r (map f xs) = Inr (map g xs)"
  by (induction xs) auto

lemma collect_append_Inr:
  "collect_results r xs = Inr us \<Longrightarrow> collect_results r ys = Inr vs \<Longrightarrow> collect_results r (xs @ ys) = Inr (us @ vs)"
  by (simp add: collect_results_append)

lemma collect_concat_Inr:
  "(\<And>x. x \<in> set xs \<Longrightarrow> collect_results r (f x) = Inr (g x)) \<Longrightarrow>
   collect_results r (concat (map f xs)) = Inr (concat (map g xs))"
  by (induction xs) (auto intro!: collect_append_Inr)

lemma on_columns_render:
  assumes "\<And>m. m \<in> set ms \<Longrightarrow> map (render_action diff s (m_name m)) (f m) = g m"
  shows "collect_results (render_pg_op diff s) (on_columns f ms) = Inr (concat (map g ms))"
  unfolding on_columns_def
proof (rule collect_concat_Inr)
  fix m assume "m \<in> set ms"
  have "collect_results (render_pg_op diff s) (map (PAlterColumn (m_name m)) (f m)) = Inr (map (render_action diff s (m_name m)) (f m))"
    by (rule collect_map_Inr) simp
  with assms [OF \<open>m \<in> set ms\<close>] show "collect_results (render_pg_op diff s) (map (PAlterColumn (m_name m)) (f m)) = Inr (g m)" by simp
qed

lemma pg_actions_render:
  "map (render_action diff s (m_name m)) (type_actions m) = pg_type_stmts diff s m"
  "map (render_action diff s (m_name m)) (restore_actions m) = pg_restore_stmts diff s m"
  "map (render_action diff s (m_name m)) (nullable_actions m) = pg_nullable_stmts diff s m"
  "map (render_action diff s (m_name m)) (default_actions m) = pg_default_stmts diff s m"
  "map (render_action diff s (m_name m)) (autoincrement_actions m) = pg_autoincrement_stmts diff s m"
proof -
  show "map (render_action diff s (m_name m)) (type_actions m) = pg_type_stmts diff s m"
    by (simp add: type_actions_def pg_type_stmts_def Let_def)
  show "map (render_action diff s (m_name m)) (restore_actions m) = pg_restore_stmts diff s m"
    by (cases "restoreExpr m") (auto simp: restore_actions_def pg_restore_stmts_def enum_default_to_restore_def split: option.split)
  show "map (render_action diff s (m_name m)) (nullable_actions m) = pg_nullable_stmts diff s m"
    by (simp add: nullable_actions_def pg_nullable_stmts_def)
  show "map (render_action diff s (m_name m)) (default_actions m) = pg_default_stmts diff s m"
    by (simp add: default_actions_def pg_default_stmts_def split: option.split)
  show "map (render_action diff s (m_name m)) (autoincrement_actions m) = pg_autoincrement_stmts diff s m"
    by (simp add: autoincrement_actions_def pg_autoincrement_stmts_def)
qed

lemma pg_drop_render: "collect_results (render_pg_op diff s) (pg_drop_ops diff) = Inr (pg_drop_part diff s)"
  unfolding pg_drop_ops_def pg_drop_part_def
  by (intro collect_append_Inr collect_map_Inr) simp_all

lemma pg_change_render: "collect_results (render_pg_op diff s) (pg_change_ops diff) = Inr (pg_change_part diff s)"
  unfolding pg_change_ops_def pg_change_part_def
  by (intro collect_append_Inr collect_map_Inr on_columns_render) (simp_all add: pg_actions_render)

lemma pg_add_render: "collect_results (render_pg_op diff s) (pg_add_ops diff) = Inr (pg_add_part diff s)"
  unfolding pg_add_ops_def pg_add_part_def
  by (intro collect_append_Inr collect_map_Inr) simp_all

lemma generatePostgresTableDDL_ops:
  "generatePostgresTableDDL diff s seen =
     map_result (\<lambda>stmts. (fst (pg_new_enums s (d_addedEnumTypes diff) seen) @ stmts,
                          snd (pg_new_enums s (d_addedEnumTypes diff) seen)))
       (collect_results (render_pg_op diff s) (pg_ops diff))"
proof -
  have fks: "collect_results (render_pg_op diff s) (map PAddFK fks)
      = collect_results (\<lambda>fk. addForeignKey (d_tableName diff) fk Postgres s) fks" for fks
    by (induction fks) auto
  have front: "collect_results (render_pg_op diff s) (pg_drop_ops diff @ pg_change_ops diff @ pg_add_ops diff)
      = Inr (pg_drop_part diff s @ pg_change_part diff s @ pg_add_part diff s)"
    by (intro collect_append_Inr pg_drop_render pg_change_render pg_add_render)
  have "collect_results (render_pg_op diff s) (pg_ops diff)
      = map_result ((@) (pg_drop_part diff s @ pg_change_part diff s @ pg_add_part diff s))
          (collect_results (\<lambda>fk. addForeignKey (d_tableName diff) fk Postgres s) (d_addedForeignKeys diff))"
    using front fks [of "d_addedForeignKeys diff"]
      collect_results_append [of "render_pg_op diff s" "pg_drop_ops diff @ pg_change_ops diff @ pg_add_ops diff" "map PAddFK (d_addedForeignKeys diff)"]
    by (simp add: pg_ops_def)
  then show ?thesis
    by (cases "collect_results (\<lambda>fk. addForeignKey (d_tableName diff) fk Postgres s) (d_addedForeignKeys diff)")
      (simp_all add: generatePostgresTableDDL_def split: prod.split)
qed

text \<open>C14. The SQL text emitted for a modified PostgreSQL table is the creation of the enum types not
  created before, followed by the rendering of the abstract operations in order; generation fails
  exactly when rendering an operation fails.\<close>

theorem generatePostgresTableDDL_refines:
  "generatePostgresTableDDL diff s seen =
     map_result (\<lambda>stmts. (fst (pg_new_enums s (d_addedEnumTypes diff) seen) @ stmts,
                          snd (pg_new_enums s (d_addedEnumTypes diff) seen)))
       (collect_results (render_pg_op diff s) (pg_ops diff))"
  by (rule generatePostgresTableDDL_ops)

end
