(* ===== verification/Comparator.thy ===== *)
theory Comparator
  imports SchemaModel
begin

text \<open>
  The schema comparator, \<open>src/src/database/migration/create/comparator.ts\<close>, and the rename prompt
  of \<open>prompt.ts\<close>.  Reading the terminal is the only effect: the answer of the user to a question is
  the parameter \<open>ask\<close>, a function of the table, the new column and the candidates it names.
\<close>

definition arraysEqual :: "'a list \<Rightarrow> 'a list \<Rightarrow> bool" where
  "arraysEqual a b \<longleftrightarrow> length a = length b \<and> list_all (\<lambda>(x, y). x = y) (zip a b)"

lemma arraysEqual_iff [simp]: "arraysEqual a b \<longleftrightarrow> a = b"
  unfolding arraysEqual_def by (induction a b rule: list_induct2') auto

section \<open>The rename prompt\<close>

text \<open>\<open>parseInt(s, 10)\<close>: optional white space and sign, then the longest run of digits; \<open>None\<close> is NaN.\<close>

definition is_digit :: "char \<Rightarrow> bool" where
  "is_digit c \<longleftrightarrow> 48 \<le> (of_char c :: nat) \<and> of_char c \<le> (57 :: nat)"

definition parse_digits :: "string \<Rightarrow> int option" where
  "parse_digits s = (let ds = takeWhile is_digit s in if ds = [] then None else Some (int (digits_value ds)))"

definition parseInt :: "string \<Rightarrow> int option" where
  "parseInt s =
     (case dropWhile is_space s of
        [] \<Rightarrow> None
      | c # r \<Rightarrow>
          if c = CHR ''-'' then map_option uminus (parse_digits r)
          else if c = CHR ''+'' then parse_digits r
          else parse_digits (c # r))"

definition promptRename :: "bool \<Rightarrow> string \<Rightarrow> string list \<Rightarrow> string option" where
  "promptRename nonInteractive answer oldCandidates =
     (if nonInteractive then None
      else if length oldCandidates = 1
      then (if to_lower answer = ''y'' then Some (oldCandidates ! 0) else None)
      else (case parseInt answer of
              None \<Rightarrow> None
            | Some choice \<Rightarrow>
                if choice = 0 \<or> choice > int (length oldCandidates) then None
                else if choice < 0 then None \<comment> \<open>a negative index reads \<open>undefined\<close>\<close>
                else Some (oldCandidates ! nat (choice - 1))))"

lemma promptRename_candidate: "promptRename ni answer cands = Some r \<Longrightarrow> r \<in> set cands"
  by (auto simp: promptRename_def split: if_splits option.splits)

section \<open>Columns\<close>

definition normalizeTypeAlias :: "string \<Rightarrow> string" where
  "normalizeTypeAlias t = (if t = ''integer'' then ''int'' else if t = ''numeric'' then ''decimal'' else t)"

definition typesMatch :: "column \<Rightarrow> column \<Rightarrow> bool" where
  "typesMatch a b \<longleftrightarrow>
     (if normalizeTypeAlias (c_type a) \<noteq> normalizeTypeAlias (c_type b) then False
      else if (c_size a \<noteq> None \<or> c_size b \<noteq> None) \<and> c_size a \<noteq> c_size b then False
      else if (c_scale a \<noteq> None \<or> c_scale b \<noteq> None) \<and> c_scale a \<noteq> c_scale b then False
      else if c_unsigned a \<noteq> c_unsigned b then False
      else if (truthy_str (c_enumTypeName a) \<or> truthy_str (c_enumTypeName b))
              \<and> c_enumTypeName a \<noteq> c_enumTypeName b then False
      else if (c_enumValues a \<noteq> None \<or> c_enumValues b \<noteq> None)
              \<and> \<not> arraysEqual (sort (nullish (c_enumValues a) [])) (sort (nullish (c_enumValues b) [])) then False
      else True)"

text \<open>\<open>s.replace(/\bW\s*\(\)/g, 'CURRENT_TIMESTAMP')\<close> for a word \<open>W\<close>\<close>

definition match_call :: "string \<Rightarrow> string \<Rightarrow> string option" where
  "match_call w s =
     (case strip_prefix w s of None \<Rightarrow> None | Some r \<Rightarrow> strip_prefix ''()'' (dropWhile is_space r))"

lemma match_call_shorter: "match_call w s = Some r \<Longrightarrow> length r < length s"
proof -
  assume "match_call w s = Some r"
  then obtain q where "strip_prefix w s = Some q" and "strip_prefix ''()'' (dropWhile is_space q) = Some r"
    by (auto simp: match_call_def split: option.splits)
  then have "s = w @ q" and "dropWhile is_space q = ''()'' @ r"
    by (simp_all only: strip_prefix_Some_iff)
  moreover have "length (dropWhile is_space q) \<le> length q" by (rule length_dropWhile_le)
  ultimately show ?thesis by simp
qed

function replace_call :: "string \<Rightarrow> bool \<Rightarrow> string \<Rightarrow> string" where
  "replace_call w prev_word [] = []"
| "replace_call w prev_word (c # s) =
     (case (if prev_word then None else match_call w (c # s)) of
        Some r \<Rightarrow> ''CURRENT_TIMESTAMP'' @ replace_call w False r
      | None \<Rightarrow> c # replace_call w (is_word_char c) s)"
  by pat_completeness auto
termination
  by (relation "measure (\<lambda>(w, p, s). length s)")
    (auto split: if_splits dest!: match_call_shorter)

definition normalizeDefaultExpression :: "string \<Rightarrow> string" where
  "normalizeDefaultExpression expr =
     (let s0 = trim (to_upper expr);
          s1 = replace_call ''NOW'' False s0
      in replace_call ''CURRENT_TIMESTAMP'' False s1)"

definition defaultsMatch :: "column \<Rightarrow> column \<Rightarrow> bool" where
  "defaultsMatch a b \<longleftrightarrow>
     (if c_autoIncrement a \<or> c_autoIncrement b then True
      else if c_defaultValue a = None \<and> c_defaultExpression a = None then True
      else if truthy_str (c_defaultExpression a) \<and> truthy_str (c_defaultExpression b)
      then normalizeDefaultExpression (the (c_defaultExpression a))
             = normalizeDefaultExpression (the (c_defaultExpression b))
      else if c_defaultExpression a \<noteq> c_defaultExpression b
              \<and> ((truthy_str (c_defaultExpression a) \<and> \<not> truthy_str (c_defaultExpression b))
                 \<or> (\<not> truthy_str (c_defaultExpression a) \<and> truthy_str (c_defaultExpression b)))
      then False
      else (case (c_defaultValue a, c_defaultValue b) of
              (None, None) \<Rightarrow> True
            | (Some x, Some y) \<Rightarrow> js_to_string x = js_to_string y
            | _ \<Rightarrow> False))"

definition compareColumn :: "column \<Rightarrow> column \<Rightarrow> column_modification option" where
  "compareColumn entityCol dbCol =
     (let typeChanged = \<not> typesMatch entityCol dbCol;
          nullableChanged = c_nullable entityCol \<noteq> c_nullable dbCol;
          defaultChanged = \<not> defaultsMatch entityCol dbCol;
          autoIncrementChanged = c_autoIncrement entityCol \<noteq> c_autoIncrement dbCol;
          onUpdateChanged = nullish (c_onUpdateExpression entityCol) [] \<noteq> nullish (c_onUpdateExpression dbCol) []
      in if \<not> typeChanged \<and> \<not> nullableChanged \<and> \<not> defaultChanged \<and> \<not> autoIncrementChanged \<and> \<not> onUpdateChanged
         then None
         else Some \<lparr>m_name = c_name entityCol, m_oldColumn = dbCol, m_newColumn = entityCol,
                m_typeChanged = typeChanged, m_nullableChanged = nullableChanged,
                m_defaultChanged = defaultChanged, m_autoIncrementChanged = autoIncrementChanged,
                m_onUpdateChanged = onUpdateChanged\<rparr>)"

section \<open>Renames\<close>

text \<open>The loop of \<open>detectRenames\<close>, with the drops not yet claimed by a rename.\<close>

fun detectRenames :: "(string \<Rightarrow> string list \<Rightarrow> string) \<Rightarrow> bool \<Rightarrow> column list \<Rightarrow> column list \<Rightarrow> column_rename list" where
  "detectRenames ask ni [] remainingDrops = []"
| "detectRenames ask ni (added # adds) remainingDrops =
     (let exact = filter (typesMatch added) remainingDrops;
          compatibleDrops = (if exact = [] \<and> remainingDrops \<noteq> [] then remainingDrops else exact)
      in if compatibleDrops = [] then detectRenames ask ni adds remainingDrops
         else let names = map c_name compatibleDrops;
                  result = promptRename ni (ask (c_name added) names) names
              in if truthy_str result
                 then \<lparr>r_from = the result, r_to = c_name added, r_column = added\<rparr>
                      # detectRenames ask ni adds (filter (\<lambda>d. c_name d \<noteq> the result) remainingDrops)
                 else detectRenames ask ni adds remainingDrops)"

section \<open>Column order (MySQL)\<close>

definition rename_map :: "column_rename list \<Rightarrow> (string, string) jsmap" where
  "rename_map rs = jmap_of (map (\<lambda>r. (r_from r, r_to r)) rs)"

text \<open>The loop that compares the two orders position by position; \<open>prev\<close> is the previous name of
  the entity order.\<close>

fun reorder_loop :: "string option \<Rightarrow> string list \<Rightarrow> string list \<Rightarrow> column_reorder list" where
  "reorder_loop prev [] db = []"
| "reorder_loop prev (e # es) [] = \<lparr>o_name = e, o_after = prev\<rparr> # reorder_loop (Some e) es []"
| "reorder_loop prev (e # es) (d # ds) =
     (if e \<noteq> d then [\<lparr>o_name = e, o_after = prev\<rparr>] else []) @ reorder_loop (Some e) es ds"

definition db_column_order :: "table_schema \<Rightarrow> table_diff \<Rightarrow> string list" where
  "db_column_order dbTable diff =
     (let renamedFrom = rename_map (d_renamedColumns diff);
          removedNames = map c_name (d_removedColumns diff)
      in filter (\<lambda>n. n \<notin> set removedNames)
           (map (\<lambda>c. if truthy_str (jget renamedFrom (c_name c)) then the (jget renamedFrom (c_name c)) else c_name c)
             (t_columns dbTable)))"

definition existing_entity_order :: "table_schema \<Rightarrow> table_diff \<Rightarrow> string list" where
  "existing_entity_order entityTable diff =
     filter (\<lambda>n. n \<notin> set (map c_name (d_addedColumns diff))) (map c_name (t_columns entityTable))"

definition detectReorderingMySQL :: "table_schema \<Rightarrow> table_schema \<Rightarrow> table_diff \<Rightarrow> column_reorder list" where
  "detectReorderingMySQL entityTable dbTable diff =
     (let existing = existing_entity_order entityTable diff;
          dbOrder = db_column_order dbTable diff
      in if arraysEqual existing dbOrder then [] else reorder_loop None existing dbOrder)"

section \<open>Indexes and foreign keys\<close>

definition bool_text :: "bool \<Rightarrow> string" where
  "bool_text b = (if b then ''true'' else ''false'')"

definition indexKey :: "index_schema \<Rightarrow> string" where
  "indexKey idx = join '','' (i_columns idx) @ '':'' @ bool_text (i_unique idx) @ '':'' @ bool_text (i_spatial idx)"

definition missing_from :: "('a \<Rightarrow> string) \<Rightarrow> 'a list \<Rightarrow> 'a list \<Rightarrow> 'a list" where
  "missing_from key xs ys =
     (let keys = jmap_of (map (\<lambda>y. (key y, y)) ys) in filter (\<lambda>x. \<not> jhas keys (key x)) xs)"

definition compareIndexes :: "index_schema list \<Rightarrow> index_schema list \<Rightarrow> index_schema list \<times> index_schema list" where
  "compareIndexes entityIndexes dbIndexes =
     (missing_from indexKey entityIndexes dbIndexes, missing_from indexKey dbIndexes entityIndexes)"

definition normalizeFkAction :: "string \<Rightarrow> string" where
  "normalizeFkAction action = (let upper = to_upper action in if upper = ''NO ACTION'' then ''RESTRICT'' else upper)"

text \<open>The arrow between the two column lists, in UTF-8.\<close>

definition arrow :: string where
  "arrow = [CHR 0xE2, CHR 0x86, CHR 0x92]"

definition fkKey :: "foreign_key \<Rightarrow> string" where
  "fkKey fk = join '','' (f_columns fk) @ arrow @ f_referencedTable fk @ ''('' @ join '','' (f_referencedColumns fk)
     @ '')/'' @ normalizeFkAction (f_onDelete fk) @ ''/'' @ normalizeFkAction (f_onUpdate fk)"

definition compareForeignKeys :: "foreign_key list \<Rightarrow> foreign_key list \<Rightarrow> foreign_key list \<times> foreign_key list" where
  "compareForeignKeys entityFKs dbFKs = (missing_from fkKey entityFKs dbFKs, missing_from fkKey dbFKs entityFKs)"

lemma set_missing_from: "set (missing_from key xs ys) = {x \<in> set xs. key x \<notin> key ` set ys}"
  by (auto simp: missing_from_def Let_def jget_jmap_of_None image_image)

lemma missing_from_Nil_iff: "missing_from key xs ys = [] \<longleftrightarrow> key ` set xs \<subseteq> key ` set ys"
proof -
  have "missing_from key xs ys = [] \<longleftrightarrow> set (missing_from key xs ys) = {}" by simp
  then show ?thesis by (auto simp: set_missing_from)
qed

section \<open>Enum types (PostgreSQL)\<close>

text \<open>What one column of the entity contributes to the added, removed and modified enum types.\<close>

definition enum_step :: "string \<Rightarrow> (string, column) jsmap \<Rightarrow> column
    \<Rightarrow> enum_type list \<times> string list \<times> enum_modification list" where
  "enum_step tableName dbColMap col =
     (if c_type col \<noteq> ''enum'' \<or> c_enumValues col = None \<or> \<not> truthy_str (c_enumTypeName col) then ([], [], [])
      else
        let typeName = the (c_enumTypeName col); values = the (c_enumValues col);
            new = \<lparr>e_typeName = typeName, e_values = values\<rparr>
        in case jget dbColMap (c_name col) of
             None \<Rightarrow> ([new], [], [])
           | Some dbCol \<Rightarrow>
               if c_type dbCol \<noteq> ''enum'' then ([new], [], [])
               else if truthy_str (c_enumTypeName dbCol) \<and> c_enumTypeName dbCol \<noteq> c_enumTypeName col
               then ([new], [the (c_enumTypeName dbCol)], [])
               else (case c_enumValues dbCol of
                       None \<Rightarrow> ([], [], [])
                     | Some dbValues \<Rightarrow>
                         let added = filter (\<lambda>v. v \<notin> set dbValues) values;
                             removed = filter (\<lambda>v. v \<notin> set values) dbValues
                         in if added \<noteq> [] \<or> removed \<noteq> []
                            then ([], [], [\<lparr>em_typeName = typeName, em_added = added, em_removed = removed,
                                     em_newValues = values, em_tableName = tableName, em_columnName = c_name col\<rparr>])
                            else ([], [], [])))"

definition orphan_step :: "(string, column) jsmap \<Rightarrow> column \<Rightarrow> string list \<Rightarrow> string list" where
  "orphan_step entityColMap dbCol removed =
     (if c_type dbCol \<noteq> ''enum'' \<or> \<not> truthy_str (c_enumTypeName dbCol) then removed
      else if (case jget entityColMap (c_name dbCol) of
                 None \<Rightarrow> True
               | Some entityCol \<Rightarrow> c_type entityCol \<noteq> ''enum'' \<or> c_enumTypeName entityCol \<noteq> c_enumTypeName dbCol)
      then set_add (the (c_enumTypeName dbCol)) removed
      else removed)"

definition detectEnumChanges :: "string \<Rightarrow> table_schema \<Rightarrow> table_schema
    \<Rightarrow> enum_type list \<times> string list \<times> enum_modification list" where
  "detectEnumChanges tableName entityTable dbTable =
     (let dbColMap = col_map (t_columns dbTable);
          steps = map (enum_step tableName dbColMap) (t_columns entityTable);
          added = concat (map fst steps);
          removed = concat (map (fst \<circ> snd) steps);
          modified = concat (map (snd \<circ> snd) steps);
          entityColMap = col_map (t_columns entityTable)
      in (added, fold (orphan_step entityColMap) (t_columns dbTable) removed, modified))"

section \<open>Tables\<close>

definition candidate_adds :: "table_schema \<Rightarrow> table_schema \<Rightarrow> column list" where
  "candidate_adds entityTable dbTable =
     filter (\<lambda>c. \<not> jhas (col_map (t_columns dbTable)) (c_name c)) (t_columns entityTable)"

definition candidate_drops :: "table_schema \<Rightarrow> table_schema \<Rightarrow> column list" where
  "candidate_drops entityTable dbTable =
     filter (\<lambda>c. \<not> jhas (col_map (t_columns entityTable)) (c_name c)
               \<and> c_name c \<notin> set (t_skippedColumns entityTable)) (t_columns dbTable)"

definition table_renames :: "(string \<Rightarrow> string \<Rightarrow> string list \<Rightarrow> string) \<Rightarrow> bool \<Rightarrow> bool
    \<Rightarrow> table_schema \<Rightarrow> table_schema \<Rightarrow> column_rename list" where
  "table_renames ask ni interactive entityTable dbTable =
     (let adds = candidate_adds entityTable dbTable; drops = candidate_drops entityTable dbTable
      in if adds \<noteq> [] \<and> drops \<noteq> [] \<and> interactive
         then detectRenames (ask (t_name entityTable)) ni adds drops else [])"

definition modified_columns :: "table_schema \<Rightarrow> table_schema \<Rightarrow> column_rename list \<Rightarrow> column_modification list" where
  "modified_columns entityTable dbTable renames =
     (let dbColMap = col_map (t_columns dbTable);
          compare_with = (\<lambda>name col. case jget dbColMap name of None \<Rightarrow> None | Some dbCol \<Rightarrow> compareColumn col dbCol)
      in List.map_filter (\<lambda>(name, col). compare_with name col) (col_map (t_columns entityTable))
         @ List.map_filter (\<lambda>r. compare_with (r_from r) (r_column r)) renames)"

definition no_changes :: "table_diff \<Rightarrow> bool" where
  "no_changes d \<longleftrightarrow>
     d_addedColumns d = [] \<and> d_removedColumns d = [] \<and> d_modifiedColumns d = [] \<and> d_renamedColumns d = []
     \<and> d_reorderedColumns d = [] \<and> d_addedIndexes d = [] \<and> d_removedIndexes d = []
     \<and> d_addedForeignKeys d = [] \<and> d_removedForeignKeys d = [] \<and> \<not> d_primaryKeyChanged d
     \<and> d_addedEnumTypes d = [] \<and> d_removedEnumTypes d = [] \<and> d_modifiedEnumTypes d = []"

definition empty_diff :: "table_schema \<Rightarrow> table_diff" where
  "empty_diff entityTable =
     \<lparr>d_tableName = t_name entityTable, d_addedColumns = [], d_removedColumns = [], d_modifiedColumns = [],
      d_renamedColumns = [], d_reorderedColumns = [], d_addedIndexes = [], d_removedIndexes = [],
      d_addedForeignKeys = [], d_removedForeignKeys = [], d_primaryKeyChanged = False, d_newPrimaryKey = None,
      d_oldPrimaryKey = None, d_oldPrimaryKeyConstraintName = None, d_addedEnumTypes = [],
      d_removedEnumTypes = [], d_modifiedEnumTypes = [], d_entityColumns = Some (t_columns entityTable)\<rparr>"

definition compareTable_columns :: "(string \<Rightarrow> string \<Rightarrow> string list \<Rightarrow> string) \<Rightarrow> bool \<Rightarrow> dialect \<Rightarrow> bool
    \<Rightarrow> table_schema \<Rightarrow> table_schema \<Rightarrow> table_diff" where
  "compareTable_columns ask ni dialect interactive entityTable dbTable =
     (let renames = table_renames ask ni interactive entityTable dbTable;
          adds = filter (\<lambda>c. c_name c \<notin> set (map r_to renames)) (candidate_adds entityTable dbTable);
          drops = filter (\<lambda>c. c_name c \<notin> set (map r_from renames)) (candidate_drops entityTable dbTable);
          diff = (empty_diff entityTable)\<lparr>d_addedColumns := adds, d_removedColumns := drops,
            d_modifiedColumns := modified_columns entityTable dbTable renames, d_renamedColumns := renames\<rparr>
      in if dialect = MySQL
         then diff\<lparr>d_reorderedColumns := detectReorderingMySQL entityTable dbTable diff\<rparr> else diff)"

definition pk_names :: "table_schema \<Rightarrow> string list" where
  "pk_names t = map c_name (filter c_isPrimaryKey (t_columns t))"

definition mapped_db_pk :: "table_schema \<Rightarrow> column_rename list \<Rightarrow> string list" where
  "mapped_db_pk dbTable renames =
     map (\<lambda>n. nullish (jget (rename_map renames) n) n)
       (pk_names dbTable)"

definition compareTable_pk :: "table_schema \<Rightarrow> table_schema \<Rightarrow> table_diff \<Rightarrow> table_diff" where
  "compareTable_pk entityTable dbTable diff =
     (let entityPK = pk_names entityTable;
          rawDbPK = pk_names dbTable;
          dbPK = mapped_db_pk dbTable (d_renamedColumns diff)
      in if \<not> arraysEqual entityPK dbPK
         then diff\<lparr>d_primaryKeyChanged := True, d_newPrimaryKey := Some entityPK, d_oldPrimaryKey := Some rawDbPK,
                d_oldPrimaryKeyConstraintName := t_primaryKeyConstraintName dbTable\<rparr>
         else diff)"

definition compareTable_full :: "(string \<Rightarrow> string \<Rightarrow> string list \<Rightarrow> string) \<Rightarrow> bool \<Rightarrow> dialect \<Rightarrow> bool
    \<Rightarrow> table_schema \<Rightarrow> table_schema \<Rightarrow> table_diff" where
  "compareTable_full ask ni dialect interactive entityTable dbTable =
     (let diff = compareTable_pk entityTable dbTable (compareTable_columns ask ni dialect interactive entityTable dbTable);
          (addedIdx, removedIdx) = compareIndexes (t_indexes entityTable) (t_indexes dbTable);
          (addedFK, removedFK) = compareForeignKeys (t_foreignKeys entityTable) (t_foreignKeys dbTable);
          diff = diff\<lparr>d_addedIndexes := addedIdx, d_removedIndexes := removedIdx,
                   d_addedForeignKeys := addedFK, d_removedForeignKeys := removedFK\<rparr>
      in if dialect = Postgres
         then let (addedE, removedE, modifiedE) = detectEnumChanges (d_tableName diff) entityTable dbTable
              in diff\<lparr>d_addedEnumTypes := addedE, d_removedEnumTypes := removedE, d_modifiedEnumTypes := modifiedE\<rparr>
         else diff)"

definition compareTable :: "(string \<Rightarrow> string \<Rightarrow> string list \<Rightarrow> string) \<Rightarrow> bool \<Rightarrow> dialect \<Rightarrow> bool
    \<Rightarrow> table_schema \<Rightarrow> table_schema \<Rightarrow> table_diff option" where
  "compareTable ask ni dialect interactive entityTable dbTable =
     (let diff = compareTable_full ask ni dialect interactive entityTable dbTable
      in if no_changes diff then None else Some diff)"

section \<open>Schemas\<close>

definition entity_enum_types :: "database_schema \<Rightarrow> string list" where
  "entity_enum_types s =
     set_of_list (concat (map (\<lambda>t. List.map_filter
       (\<lambda>col. if c_type col = ''enum'' \<and> truthy_str (c_enumTypeName col) then c_enumTypeName col else None)
       (t_columns t)) (jvalues s)))"

definition compareSchemas :: "(string \<Rightarrow> string \<Rightarrow> string list \<Rightarrow> string) \<Rightarrow> bool \<Rightarrow> database_schema
    \<Rightarrow> database_schema \<Rightarrow> dialect \<Rightarrow> bool \<Rightarrow> string option \<Rightarrow> schema_diff" where
  "compareSchemas ask ni entitySchema dbSchema dialect interactive pgSchema =
     \<lparr>s_dialect = dialect, s_pgSchema = pgSchema,
      s_addedTables = map snd (filter (\<lambda>(n, _). \<not> jhas dbSchema n) entitySchema),
      s_removedTables = map snd (filter (\<lambda>(n, _). \<not> jhas entitySchema n) dbSchema),
      s_modifiedTables = List.map_filter
        (\<lambda>(n, t). case jget dbSchema n of None \<Rightarrow> None
           | Some dbTable \<Rightarrow> compareTable ask ni dialect interactive t dbTable) entitySchema,
      s_entityEnumTypes = (if dialect = Postgres then Some (entity_enum_types entitySchema) else None)\<rparr>"

end
