(* ===== verification/ComparatorFacts.thy ===== *)
theory ComparatorFacts
  imports Comparator "HOL-Library.Multiset" "HOL-Library.Sublist"
begin

text \<open>
  What the comparator guarantees.  \<open>tables_agree\<close> is the abstract specification: the two tables
  have the same columns (up to the columns the entity reader skipped), pairwise equal in the
  properties the generator can change, the same primary key, and the same indexes and foreign keys
  up to their names.  \<open>compareTable\<close> finds no difference exactly when the tables agree; the renames,
  additions and drops it reports account for every column once; the reordering it computes for
  MySQL, executed move by move, yields the order of the entity.
\<close>

section \<open>Types match as a kernel\<close>

text \<open>\<open>typesMatch\<close> is the kernel of a canonical form, so it is an equivalence.\<close>

definition type_key :: "column \<Rightarrow> string \<times> int option \<times> int option \<times> bool \<times> string option \<times> string multiset" where
  "type_key c = (normalizeTypeAlias (c_type c), c_size c, c_scale c, c_unsigned c,
     (if truthy_str (c_enumTypeName c) then c_enumTypeName c else None), mset (nullish (c_enumValues c) []))"

lemma sort_eq_iff: "sort xs = sort ys \<longleftrightarrow> mset xs = mset (ys :: 'a::linorder list)"
  by (metis mset_sort properties_for_sort sorted_sort)

lemma enum_name_key:
  "(truthy_str x \<or> truthy_str y \<longrightarrow> x = y) \<longleftrightarrow>
     (if truthy_str x then x else None) = (if truthy_str y then y else None)"
  by (cases x; cases y) auto

lemma typesMatch_iff: "typesMatch a b \<longleftrightarrow> type_key a = type_key b"
proof -
  have "typesMatch a b \<longleftrightarrow>
      normalizeTypeAlias (c_type a) = normalizeTypeAlias (c_type b) \<and> c_size a = c_size b \<and> c_scale a = c_scale b
      \<and> c_unsigned a = c_unsigned b
      \<and> (truthy_str (c_enumTypeName a) \<or> truthy_str (c_enumTypeName b) \<longrightarrow> c_enumTypeName a = c_enumTypeName b)
      \<and> mset (nullish (c_enumValues a) []) = mset (nullish (c_enumValues b) [])"
    unfolding typesMatch_def arraysEqual_iff sort_eq_iff by (simp split: if_split)
  then show ?thesis by (simp only: enum_name_key type_key_def prod.inject conj_assoc)
qed

lemma typesMatch_refl [simp]: "typesMatch a a"
  by (simp add: typesMatch_iff)

lemma typesMatch_enum_values:
  "typesMatch a b \<Longrightarrow> set (nullish (c_enumValues a) []) = set (nullish (c_enumValues b) [])"
  by (auto simp: typesMatch_iff type_key_def dest: mset_eq_setD)

lemma typesMatch_enum_name:
  "typesMatch a b \<Longrightarrow> truthy_str (c_enumTypeName a) \<or> truthy_str (c_enumTypeName b) \<Longrightarrow> c_enumTypeName a = c_enumTypeName b"
  by (auto simp: typesMatch_def split: if_splits)

lemma normalizeTypeAlias_enum [simp]: "normalizeTypeAlias t = ''enum'' \<longleftrightarrow> t = ''enum''"
  by (auto simp: normalizeTypeAlias_def)

lemma typesMatch_enum: "typesMatch a b \<Longrightarrow> c_type a = ''enum'' \<longleftrightarrow> c_type b = ''enum''"
  using normalizeTypeAlias_enum [of "c_type a"] normalizeTypeAlias_enum [of "c_type b"]
  by (simp add: typesMatch_iff type_key_def)

section \<open>Columns that agree\<close>

definition columns_agree :: "column \<Rightarrow> column \<Rightarrow> bool" where
  "columns_agree e d \<longleftrightarrow>
     type_key e = type_key d \<and> c_nullable e = c_nullable d \<and> defaultsMatch e d
     \<and> c_autoIncrement e = c_autoIncrement d
     \<and> nullish (c_onUpdateExpression e) [] = nullish (c_onUpdateExpression d) []"

lemma compareColumn_None_iff: "compareColumn e d = None \<longleftrightarrow> columns_agree e d"
  by (auto simp: compareColumn_def columns_agree_def typesMatch_iff Let_def)

lemma defaultsMatch_refl [simp]: "defaultsMatch c c"
  by (auto simp: defaultsMatch_def split: option.splits)

lemma columns_agree_refl [simp]: "columns_agree c c"
  by (simp add: columns_agree_def)

section \<open>Renames\<close>

text \<open>One round of the loop: the added column is left alone, or it takes one of the remaining drops.\<close>

lemma detectRenames_step:
  obtains (skip) "detectRenames ask ni (a # as) ds = detectRenames ask ni as ds"
  | (take) d where "d \<in> set ds" "detectRenames ask ni (a # as) ds =
      \<lparr>r_from = c_name d, r_to = c_name a, r_column = a\<rparr>
      # detectRenames ask ni as (filter (\<lambda>d'. c_name d' \<noteq> c_name d) ds)"
proof -
  define exact where "exact = filter (typesMatch a) ds"
  define compatible where "compatible = (if exact = [] \<and> ds \<noteq> [] then ds else exact)"
  define names where "names = map c_name compatible"
  define result where "result = promptRename ni (ask (c_name a) names) names"
  have unfolded: "detectRenames ask ni (a # as) ds =
      (if compatible = [] then detectRenames ask ni as ds
       else if truthy_str result
       then \<lparr>r_from = the result, r_to = c_name a, r_column = a\<rparr>
            # detectRenames ask ni as (filter (\<lambda>d. c_name d \<noteq> the result) ds)
       else detectRenames ask ni as ds)"
    unfolding result_def names_def compatible_def exact_def by (simp only: detectRenames.simps Let_def)
  show thesis
  proof (cases "compatible \<noteq> [] \<and> truthy_str result")
    case False
    with unfolded skip show thesis by auto
  next
    case True
    then obtain r where r: "result = Some r" by (cases result) auto
    then have "r \<in> set names" using promptRename_candidate by (simp add: result_def)
    then obtain d where "d \<in> set compatible" "r = c_name d" by (auto simp: names_def)
    moreover have "set compatible \<subseteq> set ds" by (simp add: compatible_def exact_def)
    ultimately have "d \<in> set ds" "r = c_name d" by auto
    with unfolded True r take show thesis by simp
  qed
qed

lemma detectRenames_column: "r \<in> set (detectRenames ask ni as ds) \<Longrightarrow> r_column r \<in> set as \<and> r_to r = c_name (r_column r)"
proof (induction as arbitrary: ds)
  case (Cons a as)
  show ?case by (cases rule: detectRenames_step [of ask ni a as ds]) (use Cons in auto)
qed simp

lemma detectRenames_from: "r \<in> set (detectRenames ask ni as ds) \<Longrightarrow> r_from r \<in> c_name ` set ds"
proof (induction as arbitrary: ds)
  case (Cons a as)
  show ?case by (cases rule: detectRenames_step [of ask ni a as ds]) (use Cons in force)+
qed simp

lemma detectRenames_from_distinct: "distinct (map r_from (detectRenames ask ni as ds))"
proof (induction as arbitrary: ds)
  case (Cons a as)
  have "n \<notin> r_from ` set (detectRenames ask ni as (filter (\<lambda>d. c_name d \<noteq> n) ds))" for n
    using detectRenames_from by fastforce
  with Cons show ?case by (cases rule: detectRenames_step [of ask ni a as ds]) auto
qed simp

lemma detectRenames_to_subseq: "subseq (map r_to (detectRenames ask ni as ds)) (map c_name as)"
proof (induction as arbitrary: ds)
  case (Cons a as)
  then show ?case by (cases rule: detectRenames_step [of ask ni a as ds]) auto
qed simp

lemma subseq_distinct_map: "subseq xs ys \<Longrightarrow> distinct ys \<Longrightarrow> distinct xs"
  by (induction xs ys rule: list_emb.induct) (auto dest: list_emb_set)

lemma detectRenames_to_distinct: "distinct (map c_name adds) \<Longrightarrow> distinct (map r_to (detectRenames ask ni adds drops))"
  by (rule subseq_distinct_map [OF detectRenames_to_subseq])

lemma set_candidate_adds: "set (candidate_adds e d) = {c \<in> set (t_columns e). c_name c \<notin> c_name ` set (t_columns d)}"
  by (auto simp: candidate_adds_def jget_col_map_absent)

lemma set_candidate_drops:
  "set (candidate_drops e d) =
     {c \<in> set (t_columns d). c_name c \<notin> c_name ` set (t_columns e) \<and> c_name c \<notin> set (t_skippedColumns e)}"
  by (auto simp: candidate_drops_def jget_col_map_absent)

lemma names_filter: "set (map c_name (filter (\<lambda>c. c_name c \<notin> R) cs)) = c_name ` set cs - R"
  by auto

lemma diff_union: "R \<subseteq> A \<Longrightarrow> A = N \<Longrightarrow> (A - R) \<union> R = N"
  by blast

lemma table_renames_shape:
  assumes "wf_table e"
  shows "distinct (map r_from (table_renames ask ni i e d))" "distinct (map r_to (table_renames ask ni i e d))"
    and "set (map r_from (table_renames ask ni i e d)) \<subseteq> c_name ` set (candidate_drops e d)"
    and "set (map r_to (table_renames ask ni i e d)) \<subseteq> c_name ` set (candidate_adds e d)"
proof -
  have "distinct (map c_name (candidate_adds e d))"
    using assms by (simp add: wf_table_def candidate_adds_def distinct_map_filter)
  then show "distinct (map r_to (table_renames ask ni i e d))"
    by (simp add: table_renames_def Let_def detectRenames_to_distinct)
  show "distinct (map r_from (table_renames ask ni i e d))"
    by (simp add: table_renames_def Let_def detectRenames_from_distinct)
  show "set (map r_from (table_renames ask ni i e d)) \<subseteq> c_name ` set (candidate_drops e d)"
    by (auto simp: table_renames_def Let_def dest: detectRenames_from)
  show "set (map r_to (table_renames ask ni i e d)) \<subseteq> c_name ` set (candidate_adds e d)"
    by (auto simp: table_renames_def Let_def dest: detectRenames_column)
qed

section \<open>Reading the fields of a difference\<close>

lemma compareTable_pk_frame [simp]:
  "d_tableName (compareTable_pk e d x) = d_tableName x"
  "d_addedColumns (compareTable_pk e d x) = d_addedColumns x"
  "d_removedColumns (compareTable_pk e d x) = d_removedColumns x"
  "d_modifiedColumns (compareTable_pk e d x) = d_modifiedColumns x"
  "d_renamedColumns (compareTable_pk e d x) = d_renamedColumns x"
  "d_reorderedColumns (compareTable_pk e d x) = d_reorderedColumns x"
  "d_entityColumns (compareTable_pk e d x) = d_entityColumns x"
  by (simp_all add: compareTable_pk_def Let_def)

lemma compareTable_columns_simps [simp]:
  fixes e d ask ni dial i
  defines "x \<equiv> compareTable_columns ask ni dial i e d"
  defines "rs \<equiv> table_renames ask ni i e d"
  shows "d_renamedColumns x = rs"
    and "d_addedColumns x = filter (\<lambda>c. c_name c \<notin> set (map r_to rs)) (candidate_adds e d)"
    and "d_removedColumns x = filter (\<lambda>c. c_name c \<notin> set (map r_from rs)) (candidate_drops e d)"
    and "d_modifiedColumns x = modified_columns e d rs"
    and "d_primaryKeyChanged x = False"
    and "d_tableName x = t_name e"
    and "d_entityColumns x = Some (t_columns e)"
  unfolding x_def rs_def by (simp_all add: compareTable_columns_def empty_diff_def Let_def)

lemma compareTable_full_simps [simp]:
  fixes e d ask ni dial i
  defines "x \<equiv> compareTable_full ask ni dial i e d"
  defines "y \<equiv> compareTable_columns ask ni dial i e d"
  shows "d_tableName x = t_name e"
    and "d_renamedColumns x = d_renamedColumns y"
    and "d_addedColumns x = d_addedColumns y"
    and "d_removedColumns x = d_removedColumns y"
    and "d_modifiedColumns x = d_modifiedColumns y"
    and "d_reorderedColumns x = d_reorderedColumns y"
    and "d_primaryKeyChanged x = d_primaryKeyChanged (compareTable_pk e d y)"
    and "d_entityColumns x = Some (t_columns e)"
    and "d_addedIndexes x = missing_from indexKey (t_indexes e) (t_indexes d)"
    and "d_removedIndexes x = missing_from indexKey (t_indexes d) (t_indexes e)"
    and "d_addedForeignKeys x = missing_from fkKey (t_foreignKeys e) (t_foreignKeys d)"
    and "d_removedForeignKeys x = missing_from fkKey (t_foreignKeys d) (t_foreignKeys e)"
  unfolding x_def y_def
  by (simp_all add: compareTable_full_def compareIndexes_def compareForeignKeys_def Let_def split: prod.split)

lemma compareTable_full_enums:
  "d_addedEnumTypes (compareTable_full ask ni dial i e d) =
     (if dial = Postgres then fst (detectEnumChanges (t_name e) e d) else [])"
  "d_removedEnumTypes (compareTable_full ask ni dial i e d) =
     (if dial = Postgres then fst (snd (detectEnumChanges (t_name e) e d)) else [])"
  "d_modifiedEnumTypes (compareTable_full ask ni dial i e d) =
     (if dial = Postgres then snd (snd (detectEnumChanges (t_name e) e d)) else [])"
  by (simp_all add: compareTable_full_def compareIndexes_def compareForeignKeys_def compareTable_pk_def
      compareTable_columns_def empty_diff_def Let_def split: prod.split)

section \<open>The diff accounts for every column once\<close>

lemma column_accounts:
  fixes ask ni dial i
  assumes "wf_table e" and "wf_table d"
  defines "x \<equiv> compareTable_full ask ni dial i e d"
  shows "distinct (map c_name (d_addedColumns x) @ map r_to (d_renamedColumns x))"
    and "set (map c_name (d_addedColumns x)) \<union> set (map r_to (d_renamedColumns x))
           = c_name ` set (t_columns e) - c_name ` set (t_columns d)"
    and "distinct (map c_name (d_removedColumns x) @ map r_from (d_renamedColumns x))"
    and "set (map c_name (d_removedColumns x)) \<union> set (map r_from (d_renamedColumns x))
           = c_name ` set (t_columns d) - c_name ` set (t_columns e) - set (t_skippedColumns e)"
proof -
  note shape = table_renames_shape [OF assms(1), of ask ni i d]
  have adds: "d_addedColumns x = filter (\<lambda>c. c_name c \<notin> set (map r_to (table_renames ask ni i e d))) (candidate_adds e d)"
    and drops: "d_removedColumns x = filter (\<lambda>c. c_name c \<notin> set (map r_from (table_renames ask ni i e d))) (candidate_drops e d)"
    and rens: "d_renamedColumns x = table_renames ask ni i e d"
    by (simp_all add: x_def)
  have "distinct (map c_name (candidate_adds e d))" "distinct (map c_name (candidate_drops e d))"
    using assms(1,2) by (simp_all add: wf_table_def candidate_adds_def candidate_drops_def distinct_map_filter)
  with shape show "distinct (map c_name (d_addedColumns x) @ map r_to (d_renamedColumns x))"
    and "distinct (map c_name (d_removedColumns x) @ map r_from (d_renamedColumns x))"
    unfolding adds drops rens by (auto simp: distinct_map_filter)
  have "c_name ` set (candidate_adds e d) = c_name ` set (t_columns e) - c_name ` set (t_columns d)"
    by (auto simp: set_candidate_adds)
  then show "set (map c_name (d_addedColumns x)) \<union> set (map r_to (d_renamedColumns x))
           = c_name ` set (t_columns e) - c_name ` set (t_columns d)"
    unfolding adds rens names_filter by (rule diff_union [OF shape(4)])
  have "c_name ` set (candidate_drops e d)
      = c_name ` set (t_columns d) - c_name ` set (t_columns e) - set (t_skippedColumns e)"
    by (auto simp: set_candidate_drops)
  then show "set (map c_name (d_removedColumns x)) \<union> set (map r_from (d_renamedColumns x))
           = c_name ` set (t_columns d) - c_name ` set (t_columns e) - set (t_skippedColumns e)"
    unfolding drops rens names_filter by (rule diff_union [OF shape(3)])
qed

section \<open>No difference means the tables agree\<close>

definition tables_agree :: "dialect \<Rightarrow> table_schema \<Rightarrow> table_schema \<Rightarrow> bool" where
  "tables_agree dial e d \<longleftrightarrow>
     (\<forall>c\<in>set (t_columns e). \<exists>c'\<in>set (t_columns d). c_name c' = c_name c \<and> columns_agree c c')
     \<and> c_name ` set (t_columns d) \<subseteq> c_name ` set (t_columns e) \<union> set (t_skippedColumns e)
     \<and> (dial = MySQL \<longrightarrow> prefix (map c_name (t_columns e)) (map c_name (t_columns d)))
     \<and> (dial = Postgres \<longrightarrow> (\<forall>c\<in>set (t_columns d). c_name c \<notin> c_name ` set (t_columns e)
            \<longrightarrow> \<not> (c_type c = ''enum'' \<and> truthy_str (c_enumTypeName c))))
     \<and> pk_names e = pk_names d
     \<and> indexKey ` set (t_indexes e) = indexKey ` set (t_indexes d)
     \<and> fkKey ` set (t_foreignKeys e) = fkKey ` set (t_foreignKeys d)"

lemma map_filter_Nil_iff: "List.map_filter f xs = [] \<longleftrightarrow> (\<forall>x\<in>set xs. f x = None)"
  by (induction xs) (auto simp: map_filter_simps split: option.splits)

lemma modified_columns_Nil_iff:
  assumes "wf_table e"
  shows "modified_columns e d [] = [] \<longleftrightarrow>
    (\<forall>c\<in>set (t_columns e). \<forall>c'. jget (col_map (t_columns d)) (c_name c) = Some c' \<longrightarrow> columns_agree c c')"
  using assms
  by (auto simp: modified_columns_def map_filter_Nil_iff col_map_distinct wf_table_def Let_def map_filter_simps
      compareColumn_None_iff split: option.splits)

lemma reorder_loop_Nil_iff: "reorder_loop p es ds = [] \<longleftrightarrow> prefix es ds"
  by (induction p es ds rule: reorder_loop.induct) auto

lemma rename_map_Nil [simp]: "rename_map [] = []"
  by (simp add: rename_map_def jmap_of_def)

lemma orders_no_changes:
  assumes "d_renamedColumns x = []" "d_addedColumns x = []" "d_removedColumns x = []"
  shows "existing_entity_order e x = map c_name (t_columns e)"
    and "db_column_order d x = map c_name (t_columns d)"
  using assms by (simp_all add: existing_entity_order_def db_column_order_def)

lemma detectReordering_Nil_iff:
  assumes "d_renamedColumns x = []" "d_addedColumns x = []" "d_removedColumns x = []"
  shows "detectReorderingMySQL e d x = [] \<longleftrightarrow> prefix (map c_name (t_columns e)) (map c_name (t_columns d))"
  by (simp add: detectReorderingMySQL_def orders_no_changes [OF assms] reorder_loop_Nil_iff Let_def)

lemma compareTable_pk_Nil_iff:
  assumes "d_renamedColumns x = []" "\<not> d_primaryKeyChanged x"
  shows "d_primaryKeyChanged (compareTable_pk e d x) \<longleftrightarrow> pk_names e \<noteq> pk_names d"
  using assms by (simp add: compareTable_pk_def mapped_db_pk_def pk_names_def Let_def)

lemma reordered_of_columns:
  "d_reorderedColumns (compareTable_columns ask ni dial i e d) =
     (if dial = MySQL
      then detectReorderingMySQL e d ((empty_diff e)\<lparr>
             d_addedColumns := d_addedColumns (compareTable_columns ask ni dial i e d),
             d_removedColumns := d_removedColumns (compareTable_columns ask ni dial i e d),
             d_modifiedColumns := d_modifiedColumns (compareTable_columns ask ni dial i e d),
             d_renamedColumns := d_renamedColumns (compareTable_columns ask ni dial i e d)\<rparr>)
      else [])"
  by (simp add: compareTable_columns_def empty_diff_def Let_def)

subsection \<open>Enum types of columns that agree\<close>

definition orphaned :: "(string, column) jsmap \<Rightarrow> column \<Rightarrow> bool" where
  "orphaned m c \<longleftrightarrow> c_type c = ''enum'' \<and> truthy_str (c_enumTypeName c)
     \<and> (case jget m (c_name c) of None \<Rightarrow> True
         | Some ec \<Rightarrow> c_type ec \<noteq> ''enum'' \<or> c_enumTypeName ec \<noteq> c_enumTypeName c)"

lemma orphan_step_eq: "orphan_step m c r = (if orphaned m c then set_add (the (c_enumTypeName c)) r else r)"
  by (auto simp: orphan_step_def orphaned_def)

lemma set_fold_orphan:
  "set (fold (orphan_step m) cs r) = set r \<union> {the (c_enumTypeName c) |c. c \<in> set cs \<and> orphaned m c}"
  by (induction cs arbitrary: r) (auto simp: orphan_step_eq)

lemma enum_step_agree:
  assumes "jget m (c_name c) = Some c'" "columns_agree c c'"
  shows "enum_step t m c = ([], [], [])"
proof (cases "c_type c = ''enum'' \<and> truthy_str (c_enumTypeName c)")
  case True
  have tm: "typesMatch c c'" using assms(2) by (simp add: columns_agree_def typesMatch_iff)
  have "c_type c' = ''enum''" using typesMatch_enum [OF tm] True by simp
  moreover have "c_enumTypeName c' = c_enumTypeName c" using typesMatch_enum_name [OF tm] True by simp
  moreover have "set (nullish (c_enumValues c) []) = set (nullish (c_enumValues c') [])"
    by (rule typesMatch_enum_values [OF tm])
  ultimately show ?thesis
    using assms(1) by (auto simp: enum_step_def Let_def split: option.splits)
next
  case False
  then show ?thesis by (auto simp: enum_step_def)
qed

lemma concat_map_Nil: "concat (map (\<lambda>_. []) xs) = []"
  by (induction xs) auto

lemma enum_changes_agree:
  assumes "wf_table e" "wf_table d"
    and "\<forall>c\<in>set (t_columns e). \<exists>c'\<in>set (t_columns d). c_name c' = c_name c \<and> columns_agree c c'"
  shows "detectEnumChanges t e d =
    ([], fold (orphan_step (col_map (t_columns e))) (t_columns d) [], [])"
proof -
  have "enum_step t (col_map (t_columns d)) c = ([], [], [])" if "c \<in> set (t_columns e)" for c
  proof -
    from assms(3) that obtain c' where c': "c' \<in> set (t_columns d)" "c_name c' = c_name c" "columns_agree c c'"
      by blast
    then have "jget (col_map (t_columns d)) (c_name c) = Some c'"
      using assms(2) jget_col_map_member [of "t_columns d" c'] by (simp add: wf_table_def)
    then show ?thesis using c'(3) by (rule enum_step_agree)
  qed
  then have steps: "map (enum_step t (col_map (t_columns d))) (t_columns e) = map (\<lambda>_. ([], [], [])) (t_columns e)"
    by simp
  show ?thesis unfolding detectEnumChanges_def Let_def steps by (simp add: comp_def concat_map_Nil)
qed

lemma no_orphans_iff:
  assumes "wf_table e" "wf_table d"
    and "\<forall>c\<in>set (t_columns e). \<exists>c'\<in>set (t_columns d). c_name c' = c_name c \<and> columns_agree c c'"
  shows "fold (orphan_step (col_map (t_columns e))) (t_columns d) [] = [] \<longleftrightarrow>
    (\<forall>c\<in>set (t_columns d). c_name c \<notin> c_name ` set (t_columns e)
        \<longrightarrow> \<not> (c_type c = ''enum'' \<and> truthy_str (c_enumTypeName c)))"
proof -
  have "orphaned (col_map (t_columns e)) c \<longleftrightarrow>
      c_name c \<notin> c_name ` set (t_columns e) \<and> c_type c = ''enum'' \<and> truthy_str (c_enumTypeName c)"
    if c: "c \<in> set (t_columns d)" for c
  proof (cases "c_name c \<in> c_name ` set (t_columns e)")
    case False
    then have "jget (col_map (t_columns e)) (c_name c) = None" by (simp add: jget_col_map_absent)
    with False show ?thesis by (auto simp: orphaned_def)
  next
    case True
    then obtain ec where ec: "ec \<in> set (t_columns e)" "c_name ec = c_name c" by force
    with assms(3) obtain c' where "c' \<in> set (t_columns d)" "c_name c' = c_name ec" "columns_agree ec c'" by blast
    then have "columns_agree ec c"
      using ec c assms(2) distinct_names_inj [of "t_columns d" c c'] by (simp add: wf_table_def)
    then have tm: "typesMatch ec c" by (simp add: columns_agree_def typesMatch_iff)
    have "jget (col_map (t_columns e)) (c_name c) = Some ec"
      using jget_col_map_member [of "t_columns e" ec] ec assms(1) by (simp add: wf_table_def)
    with True typesMatch_enum [OF tm] typesMatch_enum_name [OF tm] show ?thesis
      by (auto simp: orphaned_def)
  qed
  moreover have "fold (orphan_step (col_map (t_columns e))) (t_columns d) [] = [] \<longleftrightarrow>
      (\<forall>c\<in>set (t_columns d). \<not> orphaned (col_map (t_columns e)) c)"
    by (subst set_empty [symmetric], subst set_fold_orphan) auto
  ultimately show ?thesis by blast
qed

subsection \<open>The specification\<close>

lemma no_changes_columns:
  "no_changes (compareTable_full ask ni dial i e d) \<longleftrightarrow>
     candidate_adds e d = [] \<and> candidate_drops e d = [] \<and> modified_columns e d [] = []
     \<and> (dial = MySQL \<longrightarrow> prefix (map c_name (t_columns e)) (map c_name (t_columns d)))
     \<and> pk_names e = pk_names d
     \<and> indexKey ` set (t_indexes e) = indexKey ` set (t_indexes d)
     \<and> fkKey ` set (t_foreignKeys e) = fkKey ` set (t_foreignKeys d)
     \<and> (dial = Postgres \<longrightarrow> detectEnumChanges (t_name e) e d = ([], [], []))"
proof -
  let ?x = "compareTable_columns ask ni dial i e d"
  let ?rs = "table_renames ask ni i e d"
  have rs: "?rs = []" if "candidate_adds e d = [] \<or> candidate_drops e d = []"
    using that by (auto simp: table_renames_def Let_def)
  have cols: "d_addedColumns ?x = [] \<and> d_removedColumns ?x = [] \<and> d_modifiedColumns ?x = [] \<and> d_renamedColumns ?x = []
      \<longleftrightarrow> candidate_adds e d = [] \<and> candidate_drops e d = [] \<and> modified_columns e d [] = []" (is "?L \<longleftrightarrow> ?R")
  proof
    assume ?L
    then have "?rs = []" by simp
    with \<open>?L\<close> show ?R by simp
  next
    assume ?R
    with rs show ?L by simp
  qed
  have order: "(d_reorderedColumns ?x = []) \<longleftrightarrow>
      (dial = MySQL \<longrightarrow> prefix (map c_name (t_columns e)) (map c_name (t_columns d)))" if ?R
  proof -
    from that rs have "?rs = []" by simp
    with that show ?thesis
      by (simp add: reordered_of_columns detectReordering_Nil_iff empty_diff_def)
  qed
  have pk: "d_primaryKeyChanged (compareTable_pk e d ?x) \<longleftrightarrow> pk_names e \<noteq> pk_names d" if ?R
    using that rs by (intro compareTable_pk_Nil_iff) simp_all
  have idx: "missing_from k xs ys = [] \<and> missing_from k ys xs = [] \<longleftrightarrow> k ` set xs = k ` set ys" for k :: "'a \<Rightarrow> string" and xs ys
    by (auto simp: missing_from_Nil_iff)
  have E: "detectEnumChanges (t_name e) e d = ([], [], []) \<longleftrightarrow>
      fst (detectEnumChanges (t_name e) e d) = [] \<and> fst (snd (detectEnumChanges (t_name e) e d)) = []
      \<and> snd (snd (detectEnumChanges (t_name e) e d)) = []"
    by (simp add: prod_eq_iff)
  have "no_changes (compareTable_full ask ni dial i e d) \<longleftrightarrow>
      (d_addedColumns ?x = [] \<and> d_removedColumns ?x = [] \<and> d_modifiedColumns ?x = [] \<and> d_renamedColumns ?x = [])
      \<and> d_reorderedColumns ?x = [] \<and> \<not> d_primaryKeyChanged (compareTable_pk e d ?x)
      \<and> indexKey ` set (t_indexes e) = indexKey ` set (t_indexes d)
      \<and> fkKey ` set (t_foreignKeys e) = fkKey ` set (t_foreignKeys d)
      \<and> (dial = Postgres \<longrightarrow> detectEnumChanges (t_name e) e d = ([], [], []))"
    unfolding no_changes_def compareTable_full_enums compareTable_full_simps E idx [symmetric]
    by (cases "dial = Postgres"; simp only: if_True if_False simp_thms; blast)
  then show ?thesis using cols order pk by blast
qed

lemma agree_assemble:
  assumes "a \<and> m \<longleftrightarrow> p" "d \<longleftrightarrow> d'" "p \<Longrightarrow> en \<longleftrightarrow> en'"
  shows "(a \<and> d \<and> m \<and> o' \<and> k \<and> i \<and> f \<and> (pg \<longrightarrow> en)) \<longleftrightarrow> (p \<and> d' \<and> o' \<and> (pg \<longrightarrow> en') \<and> k \<and> i \<and> f)"
  using assms by blast

text \<open>C3. \<open>compareTable\<close> reports no difference if and only if the two tables agree: every column of
  the entity is in the database under its name with the same type, nullability, default,
  auto-increment and on-update clause; the database has no other column but skipped ones; the column
  order (MySQL), the primary key, the indexes and the foreign keys are the same.  So no migration is
  generated for a schema that is up to date, and none is missed.\<close>

theorem compareTable_None_iff:
  assumes "wf_table e" and "wf_table d"
  shows "compareTable ask ni dial i e d = None \<longleftrightarrow> tables_agree dial e d"
proof -
  let ?pairs = "\<forall>c\<in>set (t_columns e). \<exists>c'\<in>set (t_columns d). c_name c' = c_name c \<and> columns_agree c c'"
  have pairs: "candidate_adds e d = [] \<and> modified_columns e d [] = [] \<longleftrightarrow> ?pairs"
  proof -
    have "candidate_adds e d = [] \<longleftrightarrow> c_name ` set (t_columns e) \<subseteq> c_name ` set (t_columns d)"
      by (subst set_empty [symmetric], subst set_candidate_adds) auto
    moreover have "jget (col_map (t_columns d)) n = Some c' \<longleftrightarrow> c' \<in> set (t_columns d) \<and> c_name c' = n" for n c'
      using jget_col_map_member [of "t_columns d" c'] jget_col_map_Some [of "t_columns d" n c'] assms(2)
      by (auto simp: wf_table_def)
    moreover have "(c_name ` set (t_columns e) \<subseteq> c_name ` set (t_columns d)
        \<and> (\<forall>c\<in>set (t_columns e). \<forall>c'. c' \<in> set (t_columns d) \<and> c_name c' = c_name c \<longrightarrow> columns_agree c c')) \<longleftrightarrow> ?pairs"
      (is "?sub \<and> ?all \<longleftrightarrow> _")
    proof
      assume L: "?sub \<and> ?all"
      show ?pairs
      proof
        fix c assume c: "c \<in> set (t_columns e)"
        then have "c_name c \<in> c_name ` set (t_columns d)" using L by blast
        then obtain c' where "c' \<in> set (t_columns d)" "c_name c' = c_name c" by (metis imageE)
        with L c show "\<exists>c'\<in>set (t_columns d). c_name c' = c_name c \<and> columns_agree c c'" by blast
      qed
    next
      assume R: ?pairs
      have ?sub
      proof clarify
        fix c assume "c \<in> set (t_columns e)"
        with R obtain c' where "c' \<in> set (t_columns d)" "c_name c' = c_name c" by blast
        then show "c_name c \<in> c_name ` set (t_columns d)" by (metis image_eqI)
      qed
      moreover have ?all
      proof (intro ballI allI impI)
        fix c c' assume c: "c \<in> set (t_columns e)" "c' \<in> set (t_columns d) \<and> c_name c' = c_name c"
        with R obtain c2 where c2: "c2 \<in> set (t_columns d)" "c_name c2 = c_name c" "columns_agree c c2" by blast
        with c assms(2) have "c2 = c'"
          by (intro distinct_names_inj [of "t_columns d"]) (simp_all add: wf_table_def)
        with c2 show "columns_agree c c'" by simp
      qed
      ultimately show "?sub \<and> ?all" ..
    qed
    ultimately show ?thesis unfolding modified_columns_Nil_iff [OF assms(1)] by simp
  qed
  have drops: "candidate_drops e d = [] \<longleftrightarrow>
      c_name ` set (t_columns d) \<subseteq> c_name ` set (t_columns e) \<union> set (t_skippedColumns e)"
    by (subst set_empty [symmetric], subst set_candidate_drops) auto
  have enums: "detectEnumChanges (t_name e) e d = ([], [], []) \<longleftrightarrow>
      (\<forall>c\<in>set (t_columns d). c_name c \<notin> c_name ` set (t_columns e)
         \<longrightarrow> \<not> (c_type c = ''enum'' \<and> truthy_str (c_enumTypeName c)))" if ?pairs
    unfolding enum_changes_agree [OF assms that] prod.inject no_orphans_iff [OF assms that] by (simp only: simp_thms)
  have "compareTable ask ni dial i e d = None \<longleftrightarrow> no_changes (compareTable_full ask ni dial i e d)"
    by (simp add: compareTable_def Let_def)
  then show ?thesis
    unfolding no_changes_columns tables_agree_def using agree_assemble [OF pairs drops enums] by (simp only:)
qed

theorem compareTable_None_iff_witness:
  "wf_table (plain_table ''t'' [basic_column ''a'' ''int''])
   \<and> compareTable (\<lambda>_ _ _. []) False MySQL True (plain_table ''t'' [basic_column ''a'' ''int''])
       (plain_table ''t'' [basic_column ''a'' ''integer'']) = None"
proof -
  have wf: "wf_table (plain_table ''t'' [basic_column ''a'' ''int''])"
    "wf_table (plain_table ''t'' [basic_column ''a'' ''integer''])"
    by (simp_all add: wf_table_def plain_table_def basic_column_def)
  have "tables_agree MySQL (plain_table ''t'' [basic_column ''a'' ''int''])
      (plain_table ''t'' [basic_column ''a'' ''integer''])"
    by (simp add: tables_agree_def plain_table_def basic_column_def columns_agree_def type_key_def
        normalizeTypeAlias_def defaultsMatch_def pk_names_def)
  with wf compareTable_None_iff [OF wf] show ?thesis by simp
qed

text \<open>Every column of the entity is in exactly one of three classes: it is added, or it is the
  target of exactly one reported rename, or the database table has a column of its name; and every
  column of the database that the entity does not have and that was not skipped is either dropped or
  the source of exactly one reported rename.  No user answer can make the comparator lose a column,
  drop one it renames, or use a column in two renames.\<close>

theorem compareTable_accounts_for_columns:
  fixes ask ni dial i
  assumes "wf_table e" and "wf_table d"
  defines "x \<equiv> compareTable_full ask ni dial i e d"
  shows "distinct (map c_name (d_addedColumns x) @ map r_to (d_renamedColumns x))
    \<and> set (map c_name (d_addedColumns x)) \<union> set (map r_to (d_renamedColumns x))
           = c_name ` set (t_columns e) - c_name ` set (t_columns d)
    \<and> distinct (map c_name (d_removedColumns x) @ map r_from (d_renamedColumns x))
    \<and> set (map c_name (d_removedColumns x)) \<union> set (map r_from (d_renamedColumns x))
           = c_name ` set (t_columns d) - c_name ` set (t_columns e) - set (t_skippedColumns e)"
  using column_accounts [OF assms(1,2), of ask ni dial i] unfolding x_def by blast

theorem compareTable_accounts_for_columns_witness:
  "let e = plain_table ''t'' [basic_column ''a'' ''int'', basic_column ''b'' ''int''];
       d = plain_table ''t'' [basic_column ''a'' ''int'', basic_column ''c'' ''int''];
       x = compareTable_full (\<lambda>_ _ _. ''y'') False MySQL True e d
   in wf_table e \<and> wf_table d
      \<and> set (map c_name (d_addedColumns x)) \<union> set (map r_to (d_renamedColumns x)) = {''b''}
      \<and> set (map c_name (d_removedColumns x)) \<union> set (map r_from (d_renamedColumns x)) = {''c''}"
proof -
  let ?e = "plain_table ''t'' [basic_column ''a'' ''int'', basic_column ''b'' ''int'']"
  let ?d = "plain_table ''t'' [basic_column ''a'' ''int'', basic_column ''c'' ''int'']"
  have wf: "wf_table ?e" "wf_table ?d"
    by (simp_all add: wf_table_def plain_table_def basic_column_def)
  have "c_name ` set (t_columns ?e) - c_name ` set (t_columns ?d) = {''b''}"
    "c_name ` set (t_columns ?d) - c_name ` set (t_columns ?e) - set (t_skippedColumns ?e) = {''c''}"
    by (auto simp: plain_table_def basic_column_def)
  then show ?thesis
    using wf compareTable_accounts_for_columns [OF wf, of "\<lambda>_ _ _. ''y''" False MySQL True]
    by (simp add: Let_def)
qed

section \<open>Indexes are matched by structure\<close>

definition plain_index :: "index_schema \<Rightarrow> bool" where
  "plain_index i \<longleftrightarrow> (\<forall>c\<in>set (i_columns i). c \<noteq> [] \<and> CHR '','' \<notin> set c)"

lemma bool_text_suffix:
  "x @ '':'' @ bool_text a = y @ '':'' @ bool_text b \<longleftrightarrow> x = y \<and> a = b"
proof -
  have "x @ '':true'' \<noteq> y @ '':false''" for x y :: string
  proof
    assume "x @ '':true'' = y @ '':false''"
    then have "rev (x @ '':true'') = rev (y @ '':false'')" by (rule arg_cong)
    then show False by simp
  qed
  then show ?thesis by (cases a; cases b) (auto simp: bool_text_def)
qed

lemma indexKey_inj:
  assumes "plain_index i" "plain_index j"
  shows "indexKey i = indexKey j \<longleftrightarrow> i_columns i = i_columns j \<and> i_unique i = i_unique j \<and> i_spatial i = i_spatial j"
proof
  assume "indexKey i = indexKey j"
  then have "(join '','' (i_columns i) @ '':'' @ bool_text (i_unique i)) @ '':'' @ bool_text (i_spatial i)
      = (join '','' (i_columns j) @ '':'' @ bool_text (i_unique j)) @ '':'' @ bool_text (i_spatial j)"
    by (simp add: indexKey_def)
  then have "join '','' (i_columns i) = join '','' (i_columns j)" "i_unique i = i_unique j" "i_spatial i = i_spatial j"
    unfolding bool_text_suffix by simp_all
  then show "i_columns i = i_columns j \<and> i_unique i = i_unique j \<and> i_spatial i = i_spatial j"
    using assms join_inj [of "CHR '',''" "i_columns i" "i_columns j"] by (simp add: plain_index_def)
qed (simp add: indexKey_def)

text \<open>An index of the entity is created exactly when the table has no index on the same columns
  in the same order with the same uniqueness and kind, whatever the indexes are called; and an index
  of the table is dropped exactly when the entity has none such.  The comparison goes through a text
  key that joins the column names with commas, so it holds for column names without a comma.\<close>

theorem compareIndexes_structural:
  assumes "\<forall>i\<in>set es \<union> set ds. plain_index i" and "compareIndexes es ds = (added, removed)"
  defines "same \<equiv> (\<lambda>i j. i_columns i = i_columns j \<and> i_unique i = i_unique j \<and> i_spatial i = i_spatial j)"
  shows "set added = {i \<in> set es. \<not> (\<exists>j\<in>set ds. same i j)}
    \<and> set removed = {j \<in> set ds. \<not> (\<exists>i\<in>set es. same j i)}"
proof -
  have "added = missing_from indexKey es ds" "removed = missing_from indexKey ds es"
    using assms(2) by (simp_all add: compareIndexes_def)
  moreover have "indexKey i \<in> indexKey ` set js \<longleftrightarrow> (\<exists>j\<in>set js. same i j)"
    if i: "i \<in> set es \<union> set ds" and js: "set js \<subseteq> set es \<union> set ds" for i js
  proof -
    have "indexKey i = indexKey j \<longleftrightarrow> same i j" if "j \<in> set js" for j
      unfolding same_def using assms(1) i js that by (intro indexKey_inj) blast+
    then show ?thesis by (simp add: image_iff)
  qed
  ultimately show ?thesis
    by (auto simp: set_missing_from)
qed

theorem compareIndexes_structural_witness:
  "let i = \<lparr>i_name = ''x'', i_columns = [''a'', ''b''], i_unique = True, i_spatial = False\<rparr>;
       j = \<lparr>i_name = ''y'', i_columns = [''a'', ''b''], i_unique = True, i_spatial = False\<rparr>;
       k = \<lparr>i_name = ''z'', i_columns = [''b'', ''a''], i_unique = True, i_spatial = False\<rparr>
   in plain_index i \<and> set (fst (compareIndexes [i, k] [j])) = {k}"
proof -
  let ?i = "\<lparr>i_name = ''x'', i_columns = [''a'', ''b''], i_unique = True, i_spatial = False\<rparr>"
  let ?j = "\<lparr>i_name = ''y'', i_columns = [''a'', ''b''], i_unique = True, i_spatial = False\<rparr>"
  let ?k = "\<lparr>i_name = ''z'', i_columns = [''b'', ''a''], i_unique = True, i_spatial = False\<rparr>"
  have plain: "\<forall>i\<in>set [?i, ?k] \<union> set [?j]. plain_index i"
    by (simp add: plain_index_def)
  obtain a r where ar: "compareIndexes [?i, ?k] [?j] = (a, r)" by force
  have "set a = {i \<in> set [?i, ?k]. \<not> (\<exists>j\<in>set [?j]. i_columns i = i_columns j \<and> i_unique i = i_unique j \<and> i_spatial i = i_spatial j)}"
    using compareIndexes_structural [OF plain ar] by (rule conjunct1)
  also have "\<dots> = {?k}" by auto
  finally show ?thesis using plain by (simp add: Let_def ar)
qed

end
