(* ===== verification/ReorderFacts.thy ===== *)
theory ReorderFacts
  imports ComparatorFacts
begin

text \<open>
  The column moves of \<open>detectReorderingMySQL\<close>, run against an abstract table.  The specification of
  \<open>MODIFY COLUMN c ... FIRST\<close> and \<open>... AFTER a\<close> is \<open>move_column\<close>: the column is taken out and put
  first, or right behind \<open>a\<close>.  Executing the moves in the order they are listed gives the column
  order of the entity.
\<close>

section \<open>Moving columns\<close>

fun insert_after :: "'a \<Rightarrow> 'a \<Rightarrow> 'a list \<Rightarrow> 'a list" where
  "insert_after a n [] = []"
| "insert_after a n (x # xs) = (if x = a then x # n # xs else x # insert_after a n xs)"

definition place_column :: "string \<Rightarrow> string option \<Rightarrow> string list \<Rightarrow> string list" where
  "place_column n after xs = (case after of None \<Rightarrow> n # xs | Some a \<Rightarrow> insert_after a n xs)"

definition move_column :: "column_reorder \<Rightarrow> string list \<Rightarrow> string list" where
  "move_column r xs = place_column (o_name r) (o_after r) (removeAll (o_name r) xs)"

lemma insert_after_split: "insert_after a n (xs @ a # ys) = xs @ a # n # ys" if "a \<notin> set xs"
  using that by (induction xs) auto

lemma insert_after_absent: "a \<notin> set xs \<Longrightarrow> insert_after a n xs = xs"
  by (induction xs) auto

lemma set_insert_after: "set (insert_after a n xs) = (if a \<in> set xs then insert n (set xs) else set xs)"
  by (induction xs) auto

lemma distinct_insert_after: "distinct xs \<Longrightarrow> n \<notin> set xs \<Longrightarrow> distinct (insert_after a n xs)"
  by (induction xs) (auto simp: set_insert_after)

lemma filter_insert_after:
  "P a \<Longrightarrow> P n \<Longrightarrow> filter P (insert_after a n xs) = insert_after a n (filter P xs)"
  by (induction xs) auto

lemma move_column_set:
  assumes "o_name r \<in> set xs" "case o_after r of None \<Rightarrow> True | Some a \<Rightarrow> a \<in> set xs \<and> a \<noteq> o_name r"
  shows "set (move_column r xs) = set xs"
  using assms by (auto simp: move_column_def place_column_def set_insert_after split: option.splits)

lemma move_column_distinct: "distinct xs \<Longrightarrow> distinct (move_column r xs)"
  by (auto simp: move_column_def place_column_def distinct_removeAll distinct_insert_after split: option.splits)

section \<open>The comparison loop is correct\<close>

fun same_position :: "'a list \<Rightarrow> 'a list \<Rightarrow> 'a list" where
  "same_position (e # es) (d # ds) = (if e = d then [e] else []) @ same_position es ds"
| "same_position es ds = []"

lemma set_same_position: "set (same_position es ds) \<subseteq> set es \<inter> set ds"
  by (induction es ds rule: same_position.induct) auto

lemma filter_same_position:
  "distinct ds \<Longrightarrow> filter (\<lambda>x. x \<in> set (same_position es ds)) ds = same_position es ds"
proof (induction es ds rule: same_position.induct)
  case (1 e es d ds)
  have notin: "d \<notin> set (same_position es ds)" using "1.prems" set_same_position by fastforce
  have IH: "filter (\<lambda>x. x \<in> set (same_position es ds)) ds = same_position es ds"
    using 1 by simp
  have other: "x \<noteq> d" if "x \<in> set ds" for x using "1.prems" that by auto
  show ?case
  proof (cases "e = d")
    case True
    have "filter (\<lambda>x. x = d \<or> x \<in> set (same_position es ds)) ds = filter (\<lambda>x. x \<in> set (same_position es ds)) ds"
      by (rule filter_cong [OF refl]) (simp add: other)
    with IH True show ?thesis by simp
  next
    case False
    with IH notin show ?thesis by simp
  qed
qed simp_all

lemma reorder_loop_correct:
  assumes "distinct (pre @ es)" "distinct L" "set (pre @ es) \<subseteq> set L"
    and "p = (if pre = [] then None else Some (last pre))"
    and "filter (\<lambda>x. x \<in> set pre \<union> set (same_position es ds)) L = pre @ same_position es ds"
  shows "filter (\<lambda>x. x \<in> set (pre @ es)) (fold move_column (reorder_loop p es ds) L) = pre @ es
    \<and> set (fold move_column (reorder_loop p es ds) L) = set L
    \<and> distinct (fold move_column (reorder_loop p es ds) L)"
  using assms
proof (induction es arbitrary: pre ds L p)
  case Nil
  then show ?case by simp
next
  case (Cons e es)
  define keep where "keep = (\<exists>ds'. ds = e # ds')"
  define r where "r = \<lparr>o_name = e, o_after = p\<rparr>"
  define sp where "sp = same_position es (tl ds)"
  define L' where "L' = (if keep then L else move_column r L)"
  have loop: "reorder_loop p (e # es) ds = (if keep then [] else [r]) @ reorder_loop (Some e) es (tl ds)"
    by (cases ds) (auto simp: keep_def r_def)
  have same: "same_position (e # es) ds = (if keep then [e] else []) @ sp"
    by (cases ds; cases es) (auto simp: keep_def sp_def)
  have e_new: "e \<notin> set pre" "e \<notin> set sp" "e \<in> set L"
    using Cons.prems(1,3) set_same_position [of es "tl ds"] by (auto simp: sp_def)
  have kept: "filter (\<lambda>x. x \<in> set pre \<union> set sp \<union> {e}) L' = pre @ [e] @ sp"
  proof (cases keep)
    case True
    with Cons.prems(5) same show ?thesis by (simp add: L'_def Un_commute insert_commute)
  next
    case False
    let ?S = "\<lambda>x. x \<in> set pre \<union> set sp \<union> {e}"
    have "filter ?S (removeAll e L) = filter (\<lambda>x. x \<in> set pre \<union> set sp) L"
      using e_new by (auto simp: removeAll_filter_not_eq intro!: filter_cong)
    then have M: "filter ?S (removeAll e L) = pre @ sp" using Cons.prems(5) same False by simp
    show ?thesis
    proof (cases "pre = []")
      case True
      with M False Cons.prems(4) show ?thesis
        by (simp add: L'_def move_column_def place_column_def r_def)
    next
      case False
      define a where "a = last pre"
      have pre: "pre = butlast pre @ [a]" using False by (simp add: a_def)
      then have "a \<notin> set (butlast pre)" using Cons.prems(1) by (metis distinct_append distinct1_rotate
            not_distinct_conv_prefix distinct_append)
      then have "insert_after a e (butlast pre @ a # sp) = butlast pre @ a # e # sp"
        by (rule insert_after_split)
      with pre have ins: "insert_after a e (pre @ sp) = pre @ e # sp"
        by (metis append_Cons append_Nil append_assoc)
      have "filter ?S (insert_after a e (removeAll e L)) = insert_after a e (filter ?S (removeAll e L))"
        using False by (intro filter_insert_after) (auto simp: a_def)
      with M ins False \<open>\<not> keep\<close> Cons.prems(4) show ?thesis
        by (simp add: L'_def move_column_def place_column_def r_def a_def)
    qed
  qed
  have L': "distinct L'" "set L' = set L"
  proof -
    show "distinct L'" using Cons.prems(2) by (simp add: L'_def move_column_distinct)
    have "last pre \<in> set L" if "pre \<noteq> []" using that Cons.prems(3) last_in_set by fastforce
    then show "set L' = set L"
      using e_new Cons.prems(3,4) unfolding L'_def
      by (auto simp: r_def intro!: move_column_set split: option.splits if_splits)
  qed
  have "filter (\<lambda>x. x \<in> set ((pre @ [e]) @ es)) (fold move_column (reorder_loop (Some e) es (tl ds)) L') = (pre @ [e]) @ es
    \<and> set (fold move_column (reorder_loop (Some e) es (tl ds)) L') = set L'
    \<and> distinct (fold move_column (reorder_loop (Some e) es (tl ds)) L')"
  proof (rule Cons.IH)
    show "filter (\<lambda>x. x \<in> set (pre @ [e]) \<union> set (same_position es (tl ds))) L' = (pre @ [e]) @ same_position es (tl ds)"
      using kept by (simp add: sp_def Un_commute insert_commute)
  qed (use Cons.prems L' in auto)
  moreover have "fold move_column (reorder_loop p (e # es) ds) L = fold move_column (reorder_loop (Some e) es (tl ds)) L'"
    by (simp add: loop L'_def)
  ultimately show ?case using L'(2) by simp
qed

lemma reorder_moves_correct:
  assumes "distinct es" "distinct db" "set es \<subseteq> set db"
  shows "filter (\<lambda>x. x \<in> set es) (fold move_column (reorder_loop None es db) db) = es"
  using reorder_loop_correct [of "[]" es db None db] assms filter_same_position [of db es] by simp

section \<open>The database order the moves start from\<close>

lemma jget_rename_map:
  assumes "distinct (map r_from rs)" "r \<in> set rs"
  shows "jget (rename_map rs) (r_from r) = Some (r_to r)"
proof -
  have "(r_from r, r_to r) \<in> set (map (\<lambda>r. (r_from r, r_to r)) rs)" using assms(2) by auto
  with assms(1) show ?thesis
    by (simp add: rename_map_def jget_jmap_of_distinct comp_def map_of_is_SomeI)
qed

lemma jget_rename_map_None: "jget (rename_map rs) n = None \<longleftrightarrow> n \<notin> r_from ` set rs"
  by (auto simp: rename_map_def jget_jmap_of_None image_image)

text \<open>\<open>renamedFrom.get(c.name) || c.name\<close>\<close>

definition renamed :: "column_rename list \<Rightarrow> string \<Rightarrow> string" where
  "renamed rs n = (if truthy_str (jget (rename_map rs) n) then the (jget (rename_map rs) n) else n)"

lemma renamed_target: "distinct (map r_from rs) \<Longrightarrow> r \<in> set rs \<Longrightarrow> r_to r \<noteq> [] \<Longrightarrow> renamed rs (r_from r) = r_to r"
  by (simp add: renamed_def jget_rename_map)

lemma renamed_other: "n \<notin> r_from ` set rs \<Longrightarrow> renamed rs n = n"
  using jget_rename_map_None [of rs n] by (simp add: renamed_def)

lemma db_column_order_renamed:
  "db_column_order d x =
     filter (\<lambda>n. n \<notin> set (map c_name (d_removedColumns x))) (map (renamed (d_renamedColumns x)) (map c_name (t_columns d)))"
  by (simp add: db_column_order_def renamed_def Let_def comp_def)

lemma renamed_inj:
  assumes "distinct (map r_from rs)" "distinct (map r_to rs)" "\<forall>r\<in>set rs. r_to r \<noteq> [] \<and> r_to r \<notin> A"
  shows "inj_on (renamed rs) A"
proof (rule inj_onI)
  fix a b assume ab: "a \<in> A" "b \<in> A" "renamed rs a = renamed rs b"
  have cases: "(n \<notin> r_from ` set rs \<and> renamed rs n = n) \<or> (\<exists>r\<in>set rs. n = r_from r \<and> renamed rs n = r_to r)" for n
    using assms renamed_other renamed_target by (cases "n \<in> r_from ` set rs") auto
  have to_inj: "r = s" if "r \<in> set rs" "s \<in> set rs" "r_to r = r_to s" for r s
    using assms(2) that by (meson distinct_map inj_onD)
  show "a = b" using cases [of a] cases [of b] ab assms(3) to_inj by metis
qed

lemma db_order_ok:
  fixes ask ni i
  assumes "wf_table e" "wf_table d" "[] \<notin> c_name ` set (t_columns e)"
  defines "x \<equiv> compareTable_full ask ni MySQL i e d"
  shows "distinct (db_column_order d x)" "set (existing_entity_order e x) \<subseteq> set (db_column_order d x)"
proof -
  define rs where "rs = d_renamedColumns x"
  have rs: "rs = table_renames ask ni i e d" by (simp add: rs_def x_def)
  note shape = table_renames_shape [OF assms(1), of ask ni i d, folded rs]
  have adds_names: "c_name ` set (candidate_adds e d) = c_name ` set (t_columns e) - c_name ` set (t_columns d)"
    by (auto simp: set_candidate_adds)
  have to: "\<forall>r\<in>set rs. r_to r \<noteq> [] \<and> r_to r \<notin> c_name ` set (t_columns d) \<and> r_to r \<in> c_name ` set (t_columns e)"
  proof
    fix r assume "r \<in> set rs"
    then have "r_to r \<in> c_name ` set (candidate_adds e d)" using shape(4) by auto
    then show "r_to r \<noteq> [] \<and> r_to r \<notin> c_name ` set (t_columns d) \<and> r_to r \<in> c_name ` set (t_columns e)"
      using assms(3) unfolding adds_names by auto
  qed
  have "distinct (map (renamed rs) (map c_name (t_columns d)))"
    unfolding distinct_map [of "renamed rs"]
    using assms(2) renamed_inj [OF shape(1,2), of "set (map c_name (t_columns d))"] to by (simp add: wf_table_def)
  then show "distinct (db_column_order d x)"
    unfolding db_column_order_renamed rs_def [symmetric] by (rule distinct_filter)
  note acc = column_accounts [OF assms(1,2), of ask ni MySQL i, folded x_def, folded rs_def]
  show "set (existing_entity_order e x) \<subseteq> set (db_column_order d x)"
  proof
    fix n assume "n \<in> set (existing_entity_order e x)"
    then have n: "n \<in> c_name ` set (t_columns e)" "n \<notin> set (map c_name (d_addedColumns x))"
      by (auto simp: existing_entity_order_def)
    have kept: "n \<notin> set (map c_name (d_removedColumns x))" using n(1) acc(4) by blast
    have "\<exists>m\<in>set (map c_name (t_columns d)). renamed rs m = n"
    proof (cases "n \<in> c_name ` set (t_columns d)")
      case True
      have "n \<notin> r_from ` set rs" using acc(4) n(1) by auto
      with True renamed_other show ?thesis by auto
    next
      case False
      with n acc(2) have "n \<in> r_to ` set rs" by auto
      then obtain r where r: "r \<in> set rs" "n = r_to r" by blast
      then have "r_from r \<in> c_name ` set (t_columns d)" using acc(4) by auto
      with r to renamed_target [OF shape(1) r(1)] show ?thesis by auto
    qed
    with kept show "n \<in> set (db_column_order d x)"
      unfolding db_column_order_renamed rs_def [symmetric] by auto
  qed
qed

text \<open>C4. Executing the moves \<open>compareTable\<close> reports for a MySQL table, in the order it lists them, on
  the columns the table has after the renames and drops, puts the columns the entity shares with the
  table into the order of the entity: whatever the starting order, the renames and the columns the
  reader skipped.\<close>

theorem detectReordering_correct:
  fixes ask ni i
  assumes "wf_table e" "wf_table d" "[] \<notin> c_name ` set (t_columns e)"
  defines "x \<equiv> compareTable_full ask ni MySQL i e d"
  shows "filter (\<lambda>n. n \<in> set (existing_entity_order e x))
           (fold move_column (d_reorderedColumns x) (db_column_order d x)) = existing_entity_order e x"
proof -
  have moves: "d_reorderedColumns x =
      (if existing_entity_order e x = db_column_order d x then []
       else reorder_loop None (existing_entity_order e x) (db_column_order d x))"
    by (simp add: x_def reordered_of_columns detectReorderingMySQL_def existing_entity_order_def
        db_column_order_def Let_def)
  have "distinct (existing_entity_order e x)"
    using assms(1) by (simp add: existing_entity_order_def wf_table_def)
  with reorder_moves_correct [OF _ db_order_ok [OF assms(1-3), of ask ni i, folded x_def]] show ?thesis
    by (auto simp: moves)
qed

definition shuffled_entity :: table_schema where
  "shuffled_entity = plain_table ''t'' [basic_column ''a'' ''int'', basic_column ''b'' ''int'', basic_column ''c'' ''int'']"

definition shuffled_db :: table_schema where
  "shuffled_db = plain_table ''t'' [basic_column ''c'' ''int'', basic_column ''a'' ''int'', basic_column ''b'' ''int'']"


theorem detectReordering_correct_witness:
  "wf_table shuffled_entity \<and> wf_table shuffled_db
   \<and> reorder_loop None [''a'', ''b'', ''c''] [''c'', ''a'', ''b''] =
       [\<lparr>o_name = ''a'', o_after = None\<rparr>, \<lparr>o_name = ''b'', o_after = Some ''a''\<rparr>, \<lparr>o_name = ''c'', o_after = Some ''b''\<rparr>]
   \<and> (let x = compareTable_full (\<lambda>_ _ _. []) True MySQL False shuffled_entity shuffled_db
      in filter (\<lambda>n. n \<in> set (existing_entity_order shuffled_entity x))
           (fold move_column (d_reorderedColumns x) (db_column_order shuffled_db x))
         = existing_entity_order shuffled_entity x)"
proof -
  have wf: "wf_table shuffled_entity" "wf_table shuffled_db" "[] \<notin> c_name ` set (t_columns shuffled_entity)"
    by (simp_all add: wf_table_def shuffled_entity_def shuffled_db_def plain_table_def basic_column_def)
  show ?thesis
    using wf detectReordering_correct [OF wf, of "\<lambda>_ _ _. []" True False] by (simp add: Let_def)
qed

end
