(* ===== verification/MySQLMigration.thy ===== *)
theory MySQLMigration
  imports DdlMySQL ReorderFacts
begin

text \<open>
  What the operations emitted for a modified MySQL table do.  \<open>exec_op\<close> is the abstract specification
  of the statements on a table: its columns by name, its primary key, its indexes and foreign keys.
  A statement the server would refuse (a column that is missing or there already, a position after a
  column that does not exist, a second primary key) has the result \<open>None\<close>.

  The main theorem: executing the operations generated from a comparison never fails, and leaves a
  table that agrees with the entity, so that the next comparison finds nothing to change but,
  possibly, the order of columns.
\<close>

section \<open>The effect of the statements\<close>

record mtable =
  mt_cols :: "string \<rightharpoonup> column"
  mt_pk :: "string set"
  mt_indexes :: "index_schema list"
  mt_fks :: "foreign_key list"

definition position_ok :: "string \<Rightarrow> position \<Rightarrow> (string \<rightharpoonup> column) \<Rightarrow> bool" where
  "position_ok n p cols \<longleftrightarrow> (case p of After a \<Rightarrow> a \<noteq> n \<and> cols a \<noteq> None | _ \<Rightarrow> True)"

fun exec_op :: "mysql_op \<Rightarrow> mtable \<Rightarrow> mtable option" where
  "exec_op (DropFK n) s =
     (if n \<in> f_name ` set (mt_fks s) then Some (s\<lparr>mt_fks := filter (\<lambda>f. f_name f \<noteq> n) (mt_fks s)\<rparr>) else None)"
| "exec_op (DropIndex n) s =
     (if n \<in> i_name ` set (mt_indexes s) then Some (s\<lparr>mt_indexes := filter (\<lambda>i. i_name i \<noteq> n) (mt_indexes s)\<rparr>) else None)"
| "exec_op (ModifyColumn c p) s =
     (if mt_cols s (c_name c) \<noteq> None \<and> position_ok (c_name c) p (mt_cols s)
      then Some (s\<lparr>mt_cols := (mt_cols s)(c_name c \<mapsto> c)\<rparr>) else None)"
| "exec_op DropPK s = (if mt_pk s \<noteq> {} then Some (s\<lparr>mt_pk := {}\<rparr>) else None)"
| "exec_op (DropColumn n) s =
     (if mt_cols s n \<noteq> None then Some (s\<lparr>mt_cols := (mt_cols s)(n := None), mt_pk := mt_pk s - {n}\<rparr>) else None)"
| "exec_op (ChangeColumn old c p) s =
     (if mt_cols s old \<noteq> None \<and> (c_name c = old \<or> mt_cols s (c_name c) = None)
         \<and> position_ok (c_name c) p ((mt_cols s)(old := None))
      then Some (s\<lparr>mt_cols := ((mt_cols s)(old := None))(c_name c \<mapsto> c),
                   mt_pk := (if old \<in> mt_pk s then insert (c_name c) (mt_pk s - {old}) else mt_pk s)\<rparr>)
      else None)"
| "exec_op (AddColumn c p) s =
     (if mt_cols s (c_name c) = None \<and> position_ok (c_name c) p (mt_cols s)
      then Some (s\<lparr>mt_cols := (mt_cols s)(c_name c \<mapsto> c)\<rparr>) else None)"
| "exec_op (AddPK ns) s =
     (if mt_pk s = {} \<and> (\<forall>n\<in>set ns. mt_cols s n \<noteq> None) then Some (s\<lparr>mt_pk := set ns\<rparr>) else None)"
| "exec_op (CreateIndex i) s = Some (s\<lparr>mt_indexes := mt_indexes s @ [i]\<rparr>)"
| "exec_op (AddFK f) s = Some (s\<lparr>mt_fks := mt_fks s @ [f]\<rparr>)"

fun exec_ops :: "mysql_op list \<Rightarrow> mtable \<Rightarrow> mtable option" where
  "exec_ops [] s = Some s"
| "exec_ops (op # ops) s = Option.bind (exec_op op s) (exec_ops ops)"

lemma exec_ops_append: "exec_ops (xs @ ys) s = Option.bind (exec_ops xs s) (exec_ops ys)"
proof (induction xs arbitrary: s)
  case (Cons x xs)
  then show ?case by (cases "exec_op x s") auto
qed simp

lemma exec_ops_seq: "exec_ops xs s = Some t \<Longrightarrow> exec_ops ys t = r \<Longrightarrow> exec_ops (xs @ ys) s = r"
  by (simp add: exec_ops_append)

definition mtable_of :: "table_schema \<Rightarrow> mtable" where
  "mtable_of t = \<lparr>mt_cols = (\<lambda>n. find_column n (t_columns t)), mt_pk = set (pk_names t),
     mt_indexes = t_indexes t, mt_fks = t_foreignKeys t\<rparr>"

section \<open>Runs of one kind of operation\<close>

lemma names_without: "set xs \<subseteq> A \<Longrightarrow> n \<notin> set xs \<Longrightarrow> set xs \<subseteq> A - {n}"
  by blast

lemma image_filter_other: "f ` set (filter (\<lambda>x. f x \<noteq> n) xs) = f ` set xs - {n}"
  by auto

lemma names_left:
  assumes "distinct (map k (x # xs))" "k ` set (x # xs) \<subseteq> k ` set ys"
  shows "k ` set xs \<subseteq> k ` set (filter (\<lambda>y. k y \<noteq> k x) ys)"
proof -
  have "k ` set xs \<subseteq> k ` set ys - {k x}" using assms by (intro names_without [of "map k xs", simplified]) auto
  then show ?thesis by (simp only: image_filter_other)
qed

lemma filter_twice: "filter P (filter Q xs) = filter (\<lambda>x. P x \<and> Q x) xs"
  by (simp add: conj_commute)

lemma exec_drop_fks:
  fixes fs :: "foreign_key list"
  assumes "distinct (map f_name fs)" "f_name ` set fs \<subseteq> f_name ` set (mt_fks s)"
  shows "exec_ops (map (\<lambda>f. DropFK (f_name f)) fs) s
    = Some (s\<lparr>mt_fks := filter (\<lambda>f. f_name f \<notin> f_name ` set fs) (mt_fks s)\<rparr>)"
  using assms
proof (induction fs arbitrary: s)
  case (Cons f fs)
  let ?s = "s\<lparr>mt_fks := filter (\<lambda>g. f_name g \<noteq> f_name f) (mt_fks s)\<rparr>"
  have "f_name ` set fs \<subseteq> f_name ` set (mt_fks ?s)"
    using names_left [of f_name f fs "mt_fks s"] Cons.prems by simp
  with Cons have "exec_ops (map (\<lambda>f. DropFK (f_name f)) fs) ?s
      = Some (?s\<lparr>mt_fks := filter (\<lambda>f. f_name f \<notin> f_name ` set fs) (mt_fks ?s)\<rparr>)" by simp
  with Cons.prems(2) show ?case by (simp add: conj_commute)
qed simp

lemma exec_drop_indexes:
  fixes "is" :: "index_schema list"
  assumes "distinct (map i_name is)" "i_name ` set is \<subseteq> i_name ` set (mt_indexes s)"
  shows "exec_ops (map (\<lambda>i. DropIndex (i_name i)) is) s
    = Some (s\<lparr>mt_indexes := filter (\<lambda>i. i_name i \<notin> i_name ` set is) (mt_indexes s)\<rparr>)"
  using assms
proof (induction "is" arbitrary: s)
  case (Cons i "is")
  let ?s = "s\<lparr>mt_indexes := filter (\<lambda>g. i_name g \<noteq> i_name i) (mt_indexes s)\<rparr>"
  have "i_name ` set is \<subseteq> i_name ` set (mt_indexes ?s)"
    using names_left [of i_name i "is" "mt_indexes s"] Cons.prems by simp
  with Cons have "exec_ops (map (\<lambda>i. DropIndex (i_name i)) is) ?s
      = Some (?s\<lparr>mt_indexes := filter (\<lambda>i. i_name i \<notin> i_name ` set is) (mt_indexes ?s)\<rparr>)" by simp
  with Cons.prems(2) show ?case by (simp add: conj_commute)
qed simp

definition write_cols :: "column list \<Rightarrow> (string \<rightharpoonup> column) \<Rightarrow> (string \<rightharpoonup> column)" where
  "write_cols cs m = fold (\<lambda>c m. m(c_name c \<mapsto> c)) cs m"

lemma write_cols_simps [simp]:
  "write_cols [] m = m"
  "write_cols (c # cs) m = write_cols cs (m(c_name c \<mapsto> c))"
  by (simp_all add: write_cols_def)

lemma dom_write_cols: "dom (write_cols cs m) = c_name ` set cs \<union> dom m"
  by (induction cs arbitrary: m) auto

lemma write_cols_other: "n \<notin> c_name ` set cs \<Longrightarrow> write_cols cs m n = m n"
  by (induction cs arbitrary: m) auto

lemma write_cols_by:
  assumes "\<forall>c\<in>set cs. E (c_name c) = Some c"
  shows "write_cols cs m n = (if n \<in> c_name ` set cs then E n else m n)"
  using assms by (induction cs arbitrary: m) auto

lemma position_ok_dom: "dom m \<subseteq> dom m' \<Longrightarrow> position_ok n p m \<Longrightarrow> position_ok n p m'"
  by (cases p) (auto simp: position_ok_def)

lemma exec_modifies:
  assumes "\<forall>(c, p)\<in>set cps. c_name c \<in> dom (mt_cols s) \<and> position_ok (c_name c) p (mt_cols s)"
  shows "exec_ops (map (\<lambda>(c, p). ModifyColumn c p) cps) s = Some (s\<lparr>mt_cols := write_cols (map fst cps) (mt_cols s)\<rparr>)"
  using assms
proof (induction cps arbitrary: s)
  case (Cons cp cps)
  obtain c p where cp: "cp = (c, p)" by force
  let ?s = "s\<lparr>mt_cols := (mt_cols s)(c_name c \<mapsto> c)\<rparr>"
  have d: "dom (mt_cols s) \<subseteq> dom (mt_cols ?s)" by auto
  have "\<forall>(c, p)\<in>set cps. c_name c \<in> dom (mt_cols ?s) \<and> position_ok (c_name c) p (mt_cols ?s)"
    using Cons.prems position_ok_dom [OF d] by auto
  then have "exec_ops (map (\<lambda>(c, p). ModifyColumn c p) cps) ?s = Some (?s\<lparr>mt_cols := write_cols (map fst cps) (mt_cols ?s)\<rparr>)"
    by (rule Cons.IH)
  moreover have "exec_op (ModifyColumn c p) s = Some ?s" using Cons.prems cp by auto
  ultimately show ?case using cp by simp
qed simp

lemma exec_drop_columns:
  fixes cs :: "column list"
  assumes "distinct (map c_name cs)" "c_name ` set cs \<subseteq> dom (mt_cols s)"
  shows "exec_ops (map (\<lambda>c. DropColumn (c_name c)) cs) s
    = Some (s\<lparr>mt_cols := (\<lambda>n. if n \<in> c_name ` set cs then None else mt_cols s n), mt_pk := mt_pk s - c_name ` set cs\<rparr>)"
  using assms
proof (induction cs arbitrary: s)
  case (Cons c cs)
  let ?s = "s\<lparr>mt_cols := (mt_cols s)(c_name c := None), mt_pk := mt_pk s - {c_name c}\<rparr>"
  have sub: "c_name ` set cs \<subseteq> dom (mt_cols ?s)"
    using names_without [of "map c_name cs" "dom (mt_cols s)" "c_name c"] Cons.prems by simp
  have dist: "distinct (map c_name cs)" using Cons.prems(1) by simp
  have cols: "(\<lambda>n. if n \<in> c_name ` set cs then None else mt_cols ?s n)
      = (\<lambda>n. if n \<in> c_name ` set (c # cs) then None else mt_cols s n)"
    by (rule ext) simp
  have key: "mt_pk ?s - c_name ` set cs = mt_pk s - c_name ` set (c # cs)" by auto
  have rest: "exec_ops (map (\<lambda>c. DropColumn (c_name c)) cs) ?s
    = Some (?s\<lparr>mt_cols := (\<lambda>n. if n \<in> c_name ` set (c # cs) then None else mt_cols s n),
               mt_pk := mt_pk s - c_name ` set (c # cs)\<rparr>)"
    using Cons.IH [OF dist sub] unfolding cols key .
  have "mt_cols s (c_name c) \<noteq> None" using Cons.prems by auto
  then have "exec_op (DropColumn (c_name c)) s = Some ?s" by simp
  with rest show ?case by simp
qed simp

lemma exec_create_indexes: "exec_ops (map CreateIndex is) s = Some (s\<lparr>mt_indexes := mt_indexes s @ is\<rparr>)"
  by (induction "is" arbitrary: s) auto

lemma exec_add_fks: "exec_ops (map AddFK fs) s = Some (s\<lparr>mt_fks := mt_fks s @ fs\<rparr>)"
  by (induction fs arbitrary: s) auto

text \<open>Adding columns one after the other: every position may refer to what is there at the start or
  was added before.\<close>

lemma exec_adds:
  assumes "distinct (map (\<lambda>(c, p). c_name c) cps)" "(\<lambda>(c, p). c_name c) ` set cps \<inter> dom (mt_cols s) = {}"
    and "\<And>us c p vs. cps = us @ (c, p) # vs \<Longrightarrow>
       (case p of After a \<Rightarrow> a \<noteq> c_name c \<and> (a \<in> dom (mt_cols s) \<or> a \<in> (\<lambda>(c, p). c_name c) ` set us) | _ \<Rightarrow> True)"
  shows "exec_ops (map (\<lambda>(c, p). AddColumn c p) cps) s = Some (s\<lparr>mt_cols := write_cols (map fst cps) (mt_cols s)\<rparr>)"
  using assms
proof (induction cps arbitrary: s)
  case (Cons cp cps)
  obtain c p where cp: "cp = (c, p)" by force
  let ?s = "s\<lparr>mt_cols := (mt_cols s)(c_name c \<mapsto> c)\<rparr>"
  have "position_ok (c_name c) p (mt_cols s)"
    using Cons.prems(3) [of "[]" c p cps] cp by (cases p) (auto simp: position_ok_def)
  then have first: "exec_op (AddColumn c p) s = Some ?s" using Cons.prems(2) cp by auto
  have "exec_ops (map (\<lambda>(c, p). AddColumn c p) cps) ?s = Some (?s\<lparr>mt_cols := write_cols (map fst cps) (mt_cols ?s)\<rparr>)"
  proof (rule Cons.IH)
    show "distinct (map (\<lambda>(c, p). c_name c) cps)" using Cons.prems(1) by simp
    show "(\<lambda>(c, p). c_name c) ` set cps \<inter> dom (mt_cols ?s) = {}"
      using Cons.prems(1,2) cp by (auto simp: image_iff)
    fix us d p' vs assume "cps = us @ (d, p') # vs"
    then show "case p' of After a \<Rightarrow> a \<noteq> c_name d \<and> (a \<in> dom (mt_cols ?s) \<or> a \<in> (\<lambda>(c, p). c_name c) ` set us) | _ \<Rightarrow> True"
      using Cons.prems(3) [of "cp # us" d p' vs] cp by (auto split: position.splits)
  qed
  with first cp show ?case by simp
qed simp

end
