(* ===== verification/MigrationCorrect.thy ===== *)
theory MigrationCorrect
  imports MySQLMigration
begin

text \<open>
  The generated MySQL migration reaches the entity.  Each phase of \<open>mysql_ops\<close> is executed by the
  lemmas of \<open>MySQLMigration\<close>; this theory supplies their side conditions from what \<open>compareTable\<close>
  computes: the columns a phase names exist when it runs, the columns it adds do not, and every
  \<open>AFTER\<close> clause names a column that is there.
\<close>

section \<open>Order of the entity's columns\<close>

lemma subseq_set_subset: "subseq xs ys \<Longrightarrow> set xs \<subseteq> set ys"
  by (induction rule: list_emb.induct) auto

lemma subseq_after:
  "n \<notin> set us \<Longrightarrow> subseq (n # zs) (us @ n # rest) \<Longrightarrow> subseq zs rest"
  by (induction us) (auto dest: subseq_Cons2_neq subseq_Cons2')

lemma subseq_before:
  assumes "subseq (xs @ n # zs) ys" "distinct ys" "p \<in> set (takeWhile (\<lambda>y. y \<noteq> n) ys)" "p \<in> set (xs @ n # zs)"
  shows "p \<in> set xs"
proof (rule ccontr)
  assume "p \<notin> set xs"
  moreover have "p \<noteq> n" using assms(3) by (auto dest: set_takeWhileD)
  ultimately have p: "p \<in> set zs" using assms(4) by simp
  have sub: "subseq (n # zs) ys"
    using assms(1) by (meson subseq_order.trans list_emb_append2 subseq_order.order_refl)
  then have "n \<in> set ys" using subseq_set_subset by fastforce
  then obtain rest where rest: "ys = takeWhile (\<lambda>y. y \<noteq> n) ys @ n # rest"
    by (metis (mono_tags, lifting) dropWhile_eq_Cons_conv dropWhile_eq_Nil_conv list.exhaust takeWhile_dropWhile_id)
  have "subseq zs rest"
    by (rule subseq_after [of n "takeWhile (\<lambda>y. y \<noteq> n) ys"]) (use sub rest in \<open>auto dest: set_takeWhileD\<close>)
  then have "p \<in> set rest" using p subseq_set_subset by fastforce
  with assms(2,3) rest show False by (metis disjoint_iff distinct_append list.set_intros(2))
qed

lemma columns_before_names: "map c_name (columns_before n cs) = takeWhile (\<lambda>y. y \<noteq> n) (map c_name cs)"
  by (simp add: columns_before_def takeWhile_map comp_def)

lemma nearest_preceding_Some:
  "nearest_preceding ex cs = Some p \<Longrightarrow> p \<in> c_name ` set cs \<and> p \<notin> ex"
  by (induction cs) (auto split: if_splits)

lemma after_position_before:
  assumes "after_position c x ex = After p" "d_entityColumns x = Some cs"
  shows "p \<in> set (takeWhile (\<lambda>y. y \<noteq> c_name c) (map c_name cs))" "p \<notin> ex" "p \<noteq> c_name c"
proof -
  have "nearest_preceding ex (rev (columns_before (c_name c) cs)) = Some p"
    using assms by (auto simp: after_position_def split: if_splits option.splits)
  then have "p \<in> c_name ` set (columns_before (c_name c) cs) \<and> p \<notin> ex"
    using nearest_preceding_Some by fastforce
  moreover have "c_name ` set (columns_before (c_name c) cs) = set (takeWhile (\<lambda>y. y \<noteq> c_name c) (map c_name cs))"
    using columns_before_names [of "c_name c" cs] by (metis list.set_map)
  ultimately show "p \<in> set (takeWhile (\<lambda>y. y \<noteq> c_name c) (map c_name cs))" "p \<notin> ex" by auto
  then show "p \<noteq> c_name c" by (auto dest: set_takeWhileD)
qed

section \<open>Renaming columns one after the other\<close>

fun change_cols :: "(string \<times> column \<times> position) list \<Rightarrow> (string \<rightharpoonup> column) \<Rightarrow> (string \<rightharpoonup> column)" where
  "change_cols [] m = m"
| "change_cols ((f, c, p) # ts) m = change_cols ts ((m(f := None))(c_name c \<mapsto> c))"

fun change_pk :: "(string \<times> column \<times> position) list \<Rightarrow> string set \<Rightarrow> string set" where
  "change_pk [] k = k"
| "change_pk ((f, c, p) # ts) k = change_pk ts (if f \<in> k then insert (c_name c) (k - {f}) else k)"

abbreviation sources :: "(string \<times> column \<times> position) list \<Rightarrow> string list" where
  "sources ts \<equiv> map fst ts"

abbreviation targets :: "(string \<times> column \<times> position) list \<Rightarrow> string list" where
  "targets ts \<equiv> map (\<lambda>(f, c, p). c_name c) ts"

lemma change_cols_other: "n \<notin> set (sources ts) \<Longrightarrow> n \<notin> set (targets ts) \<Longrightarrow> change_cols ts m n = m n"
  by (induction ts m rule: change_cols.induct) auto

lemma change_cols_target:
  assumes "distinct (targets ts)" "set (sources ts) \<inter> set (targets ts) = {}" "(f, c, p) \<in> set ts"
  shows "change_cols ts m (c_name c) = Some c"
  using assms
proof (induction ts m rule: change_cols.induct)
  case (2 f' c' p' ts m)
  show ?case
  proof (cases "(f, c, p) \<in> set ts")
    case True
    show ?thesis unfolding change_cols.simps by (rule "2.IH") (use True "2.prems" in auto)
  next
    case False
    then have eq: "f' = f" "c' = c" "p' = p" using "2.prems"(3) by auto
    then have "c_name c \<notin> set (sources ts)" "c_name c \<notin> set (targets ts)" using "2.prems"(1,2) by auto
    with eq show ?thesis by (simp add: change_cols_other del: set_map)
  qed
qed simp

lemma dom_change_cols:
  assumes "set (sources ts) \<inter> set (targets ts) = {}"
  shows "dom (change_cols ts m) = (dom m - set (sources ts)) \<union> set (targets ts)"
  using assms by (induction ts m rule: change_cols.induct) auto

lemma change_pk_image:
  assumes "distinct (sources ts)" "set (sources ts) \<inter> set (targets ts) = {}" "k \<inter> set (targets ts) = {}" "distinct (targets ts)"
  shows "change_pk ts k = (k - set (sources ts)) \<union> {c_name c |f c p. (f, c, p) \<in> set ts \<and> f \<in> k}"
  using assms
proof (induction ts k rule: change_pk.induct)
  case (2 f c p ts k)
  let ?k = "if f \<in> k then insert (c_name c) (k - {f}) else k"
  have "change_pk ts ?k = (?k - set (sources ts)) \<union> {c_name c |f c p. (f, c, p) \<in> set ts \<and> f \<in> ?k}"
  proof (rule 2)
    have "set (targets ((f, c, p) # ts)) = insert (c_name c) (set (targets ts))" by simp
    then have "k \<inter> set (targets ts) = {}" "c_name c \<notin> set (targets ts)" using "2.prems"(3,4) by auto
    then show "?k \<inter> set (targets ts) = {}" by (simp add: Int_Diff del: set_map) blast
  qed (use "2.prems" in auto)
  also have "{c_name c |f c p. (f, c, p) \<in> set ts \<and> f \<in> ?k} = {c_name c |f c p. (f, c, p) \<in> set ts \<and> f \<in> k}"
  proof -
    have "f' \<in> ?k \<longleftrightarrow> f' \<in> k" if "(f', c', p') \<in> set ts" for f' c' p'
    proof -
      have "f' \<in> set (sources ts)" using that by force
      moreover have "f \<notin> set (sources ts)" "c_name c \<notin> set (sources ts)" using "2.prems"(1,2) by auto
      ultimately have "f' \<noteq> f" "f' \<noteq> c_name c" by blast+
      then show ?thesis by simp
    qed
    then show ?thesis by blast
  qed
  also have "?k - set (sources ts) = (k - set (sources ((f, c, p) # ts))) \<union> (if f \<in> k then {c_name c} else {})"
    using "2.prems"(2,3) by auto
  finally have step: "change_pk ts ?k = (k - set (sources ((f, c, p) # ts)) \<union> (if f \<in> k then {c_name c} else {}))
      \<union> {c_name c |f c p. (f, c, p) \<in> set ts \<and> f \<in> k}" .
  have "{c_name c' |f' c' p'. (f', c', p') \<in> set ((f, c, p) # ts) \<and> f' \<in> k}
      = (if f \<in> k then {c_name c} else {}) \<union> {c_name c |f c p. (f, c, p) \<in> set ts \<and> f \<in> k}"
    by (cases "f \<in> k") auto
  then show ?case unfolding change_pk.simps step by (simp only: Un_assoc)
qed simp

lemma exec_changes:
  assumes "distinct (sources ts)" "distinct (targets ts)" "set (sources ts) \<subseteq> dom (mt_cols s)"
    and "set (targets ts) \<inter> dom (mt_cols s) = {}"
    and "\<And>us f c a vs. ts = us @ (f, c, After a) # vs \<Longrightarrow>
       a \<noteq> c_name c \<and> (a \<in> dom (mt_cols s) - set (sources ts) \<or> a \<in> set (targets us))"
  shows "exec_ops (map (\<lambda>(f, c, p). ChangeColumn f c p) ts) s
    = Some (s\<lparr>mt_cols := change_cols ts (mt_cols s), mt_pk := change_pk ts (mt_pk s)\<rparr>)"
  using assms
proof (induction ts arbitrary: s)
  case (Cons t ts)
  obtain f c p where t: "t = (f, c, p)" by (cases t)
  let ?s = "s\<lparr>mt_cols := ((mt_cols s)(f := None))(c_name c \<mapsto> c),
              mt_pk := (if f \<in> mt_pk s then insert (c_name c) (mt_pk s - {f}) else mt_pk s)\<rparr>"
  have f: "f \<in> dom (mt_cols s)" "f \<notin> set (sources ts)" and c: "c_name c \<notin> dom (mt_cols s)" "c_name c \<notin> set (targets ts)"
    using Cons.prems(1-4) t by auto
  have "position_ok (c_name c) p ((mt_cols s)(f := None))"
  proof (cases p)
    case (After a)
    then have "a \<noteq> c_name c \<and> a \<in> dom (mt_cols s) - set (sources (t # ts))"
      using Cons.prems(5) [of "[]" f c a ts] t by simp
    then show ?thesis using After t by (auto simp: position_ok_def)
  qed (simp_all add: position_ok_def)
  with f c have first: "exec_op (ChangeColumn f c p) s = Some ?s" by auto
  have "exec_ops (map (\<lambda>(f, c, p). ChangeColumn f c p) ts) ?s
    = Some (?s\<lparr>mt_cols := change_cols ts (mt_cols ?s), mt_pk := change_pk ts (mt_pk ?s)\<rparr>)"
  proof (rule Cons.IH)
    show "distinct (sources ts)" "distinct (targets ts)" using Cons.prems(1,2) by simp_all
    show "set (sources ts) \<subseteq> dom (mt_cols ?s)" using Cons.prems(3) f(2) by auto
    show "set (targets ts) \<inter> dom (mt_cols ?s) = {}" using Cons.prems(4) c(2) by auto
    fix us f' c' a vs assume "ts = us @ (f', c', After a) # vs"
    then show "a \<noteq> c_name c' \<and> (a \<in> dom (mt_cols ?s) - set (sources ts) \<or> a \<in> set (targets us))"
      using Cons.prems(5) [of "t # us" f' c' a vs] t c Cons.prems(3) by auto
  qed
  with first t show ?case by simp
qed simp

section \<open>What the comparison reports\<close>

lemma compareColumn_Some:
  "compareColumn e d = Some m \<Longrightarrow> m_name m = c_name e \<and> m_oldColumn m = d \<and> m_newColumn m = e"
  by (auto simp: compareColumn_def Let_def split: if_splits)

lemma modified_facts:
  assumes "wf_table e" "m \<in> set (modified_columns e d rs)" "\<forall>r\<in>set rs. r_column r \<in> set (t_columns e)"
  shows "m_newColumn m \<in> set (t_columns e)" "m_name m = c_name (m_newColumn m)" "m_oldColumn m \<in> set (t_columns d)"
    and "c_name (m_oldColumn m) = m_name m \<or> (\<exists>r\<in>set rs. m_newColumn m = r_column r \<and> c_name (m_oldColumn m) = r_from r)"
proof -
  have "(\<exists>c\<in>set (t_columns e). \<exists>dc. jget (col_map (t_columns d)) (c_name c) = Some dc \<and> compareColumn c dc = Some m)
      \<or> (\<exists>r\<in>set rs. \<exists>dc. jget (col_map (t_columns d)) (r_from r) = Some dc \<and> compareColumn (r_column r) dc = Some m)"
    using assms(1,2) by (auto simp: modified_columns_def Let_def in_map_filter col_map_distinct wf_table_def split: option.splits)
  then have "m_newColumn m \<in> set (t_columns e) \<and> m_name m = c_name (m_newColumn m) \<and> m_oldColumn m \<in> set (t_columns d)
      \<and> (c_name (m_oldColumn m) = m_name m \<or> (\<exists>r\<in>set rs. m_newColumn m = r_column r \<and> c_name (m_oldColumn m) = r_from r))"
    using assms(3) by (elim disjE bexE exE conjE) (auto dest!: compareColumn_Some jget_col_map_Some)
  then show "m_newColumn m \<in> set (t_columns e)" "m_name m = c_name (m_newColumn m)" "m_oldColumn m \<in> set (t_columns d)"
    and "c_name (m_oldColumn m) = m_name m \<or> (\<exists>r\<in>set rs. m_newColumn m = r_column r \<and> c_name (m_oldColumn m) = r_from r)"
    by blast+
qed

lemma modified_complete:
  assumes "wf_table e" "wf_table d" "c \<in> set (t_columns e)" "dc \<in> set (t_columns d)" "c_name dc = c_name c" "\<not> columns_agree c dc"
  shows "\<exists>m\<in>set (modified_columns e d rs). m_name m = c_name c \<and> m_newColumn m = c"
proof -
  obtain m where m: "compareColumn c dc = Some m" using assms(6) compareColumn_None_iff [of c dc] by auto
  have "jget (col_map (t_columns d)) (c_name c) = Some dc"
    using jget_col_map_member [of "t_columns d" dc] assms(2,4,5) by (simp add: wf_table_def)
  then have "m \<in> set (modified_columns e d rs)"
    using assms(1,3) m by (auto simp: modified_columns_def Let_def in_map_filter col_map_distinct wf_table_def intro!: bexI [of _ c])
  with compareColumn_Some [OF m] show ?thesis by auto
qed

lemma find_column_member: "distinct (map c_name cs) \<Longrightarrow> c \<in> set cs \<Longrightarrow> find_column (c_name c) cs = Some c"
proof (induction cs)
  case (Cons a cs)
  then show ?case by (cases "c_name a = c_name c") (auto simp: find_column_def)
qed simp

lemma reorder_loop_facts:
  "r \<in> set (reorder_loop p es ds) \<Longrightarrow> distinct es \<Longrightarrow> (\<forall>a. p = Some a \<longrightarrow> a \<notin> set es) \<Longrightarrow>
   o_name r \<in> set es \<and> (\<forall>a. o_after r = Some a \<longrightarrow> a \<noteq> o_name r \<and> (a \<in> set es \<or> p = Some a))"
  by (induction p es ds rule: reorder_loop.induct) (auto split: if_splits)

lemma reorder_facts:
  assumes "wf_table e" "r \<in> set (d_reorderedColumns (compareTable_full ask ni dial i e d))"
  defines "x \<equiv> compareTable_full ask ni dial i e d"
  shows "o_name r \<in> set (existing_entity_order e x)"
    and "o_after r = Some a \<Longrightarrow> a \<noteq> o_name r \<and> a \<in> set (existing_entity_order e x)"
proof -
  have "r \<in> set (reorder_loop None (existing_entity_order e x) (db_column_order d x))"
    using assms(2) by (auto simp: x_def reordered_of_columns detectReorderingMySQL_def existing_entity_order_def
        db_column_order_def Let_def split: if_splits)
  moreover have "distinct (existing_entity_order e x)"
    using assms(1) by (simp add: existing_entity_order_def wf_table_def)
  ultimately show "o_name r \<in> set (existing_entity_order e x)"
    and "o_after r = Some a \<Longrightarrow> a \<noteq> o_name r \<and> a \<in> set (existing_entity_order e x)"
    using reorder_loop_facts [of r None "existing_entity_order e x" "db_column_order d x"] by auto
qed

lemma renames_in_order:
  "subseq (map r_to (table_renames ask ni i e d)) (map c_name (t_columns e))"
proof -
  have "subseq (map c_name (candidate_adds e d)) (map c_name (t_columns e))"
    unfolding candidate_adds_def by (rule subseq_map) simp
  then show ?thesis
    by (auto simp: table_renames_def Let_def intro: subseq_order.trans [OF detectRenames_to_subseq])
qed

lemma adds_in_order:
  "subseq (map c_name (d_addedColumns (compareTable_full ask ni dial i e d))) (map c_name (t_columns e))"
  unfolding compareTable_full_simps compareTable_columns_simps candidate_adds_def filter_filter
  by (rule subseq_map) simp

section \<open>Sound differences\<close>

text \<open>Everything the phases need to know of a difference between an entity and a table.\<close>

definition sound_diff :: "table_schema \<Rightarrow> table_schema \<Rightarrow> table_diff \<Rightarrow> bool" where
  "sound_diff e d x \<longleftrightarrow>
     distinct (map c_name (t_columns e)) \<and> distinct (map c_name (t_columns d))
     \<and> d_entityColumns x = Some (t_columns e)
     \<and> distinct (map c_name (d_addedColumns x) @ map r_to (d_renamedColumns x))
     \<and> distinct (map c_name (d_removedColumns x) @ map r_from (d_renamedColumns x))
     \<and> c_name ` set (d_addedColumns x) \<union> r_to ` set (d_renamedColumns x) = c_name ` set (t_columns e) - c_name ` set (t_columns d)
     \<and> c_name ` set (d_removedColumns x) \<union> r_from ` set (d_renamedColumns x)
         = c_name ` set (t_columns d) - c_name ` set (t_columns e) - set (t_skippedColumns e)
     \<and> set (d_addedColumns x) \<subseteq> set (t_columns e)
     \<and> (\<forall>r\<in>set (d_renamedColumns x). r_column r \<in> set (t_columns e) \<and> r_to r = c_name (r_column r))
     \<and> subseq (map r_to (d_renamedColumns x)) (map c_name (t_columns e))
     \<and> subseq (map c_name (d_addedColumns x)) (map c_name (t_columns e))
     \<and> d_modifiedColumns x = modified_columns e d (d_renamedColumns x)
     \<and> (\<forall>r\<in>set (d_reorderedColumns x). \<forall>a. o_after r = Some a \<longrightarrow> a \<noteq> o_name r \<and> a \<in> set (existing_entity_order e x))
     \<and> (if d_primaryKeyChanged x then d_oldPrimaryKey x = Some (pk_names d) \<and> d_newPrimaryKey x = Some (pk_names e)
        else pk_names e = mapped_db_pk d (d_renamedColumns x))
     \<and> d_removedIndexes x = missing_from indexKey (t_indexes d) (t_indexes e)
     \<and> d_addedIndexes x = missing_from indexKey (t_indexes e) (t_indexes d)
     \<and> d_removedForeignKeys x = missing_from fkKey (t_foreignKeys d) (t_foreignKeys e)
     \<and> d_addedForeignKeys x = missing_from fkKey (t_foreignKeys e) (t_foreignKeys d)"

lemma table_renames_columns:
  "r \<in> set (table_renames ask ni i e d) \<Longrightarrow> r_column r \<in> set (t_columns e) \<and> r_to r = c_name (r_column r)"
  by (auto simp: table_renames_def Let_def set_candidate_adds dest!: detectRenames_column split: if_splits)

lemma compareTable_full_pk:
  fixes ask ni dial i e d
  defines "x \<equiv> compareTable_full ask ni dial i e d"
  shows "if d_primaryKeyChanged x then d_oldPrimaryKey x = Some (pk_names d) \<and> d_newPrimaryKey x = Some (pk_names e)
        else pk_names e = mapped_db_pk d (d_renamedColumns x)"
  unfolding x_def
  by (simp add: compareTable_full_def compareTable_pk_def compareIndexes_def compareForeignKeys_def Let_def
      split: prod.split)

lemma compareTable_sound:
  assumes "wf_table e" "wf_table d"
  shows "sound_diff e d (compareTable_full ask ni dial i e d)" (is "sound_diff e d ?x")
proof -
  note acc = column_accounts [OF assms, of ask ni dial i]
  have "distinct (map c_name (t_columns e))" "distinct (map c_name (t_columns d))"
    using assms by (simp_all add: wf_table_def)
  moreover have "\<forall>r\<in>set (d_renamedColumns ?x). r_column r \<in> set (t_columns e) \<and> r_to r = c_name (r_column r)"
    using table_renames_columns by simp
  moreover have "subseq (map r_to (d_renamedColumns ?x)) (map c_name (t_columns e))"
    using renames_in_order by simp
  moreover have "subseq (map c_name (d_addedColumns ?x)) (map c_name (t_columns e))" by (rule adds_in_order)
  moreover have "\<forall>r\<in>set (d_reorderedColumns ?x). \<forall>a. o_after r = Some a \<longrightarrow> a \<noteq> o_name r \<and> a \<in> set (existing_entity_order e ?x)"
    using reorder_facts(2) [OF assms(1)] by blast
  moreover have "set (d_addedColumns ?x) \<subseteq> set (t_columns e)" by (auto simp: set_candidate_adds)
  moreover have "d_modifiedColumns ?x = modified_columns e d (d_renamedColumns ?x)" by simp
  moreover note acc [unfolded set_map] compareTable_full_pk [of ask ni dial i e d]
  ultimately show ?thesis
    unfolding sound_diff_def compareTable_full_simps(8-12) by (intro conjI refl) assumption+
qed

section \<open>The phases\<close>

definition strip_cols :: "table_diff \<Rightarrow> column list" where
  "strip_cols x = map without_auto_increment (stripped_modified x) @ map without_auto_increment (stripped_removed x)
     @ map (\<lambda>(n, c). c\<lparr>c_name := n, c_autoIncrement := False\<rparr>) (stripped_remaining x)"

lemma without_auto_increment_name [simp]: "c_name (without_auto_increment c) = c_name c"
  by (simp add: without_auto_increment_def)

lemma strip_ops_modifies: "strip_ops x = map (\<lambda>(c, p). ModifyColumn c p) (map (\<lambda>c. (c, NoPosition)) (strip_cols x))"
  by (simp add: strip_ops_def strip_cols_def comp_def split_def)

lemma strip_cols_names:
  "c_name ` set (strip_cols x) = c_name ` set (stripped_modified x) \<union> c_name ` set (stripped_removed x) \<union> fst ` set (stripped_remaining x)"
  by (auto simp: strip_cols_def image_Un image_image split_def)

lemma stripped_remaining_mem:
  assumes "(n, c) \<in> set (stripped_remaining x)" "d_entityColumns x = Some cs"
  shows "n \<in> set (old_pk_set x)" "find_column (rename_lookup x n) cs = Some c" "c_autoIncrement c"
proof -
  have "n \<in> set (old_pk_set x) \<and> find_column (rename_lookup x n) cs = Some c \<and> c_autoIncrement c"
    using assms unfolding stripped_remaining_def Let_def
    by (auto simp: in_map_filter split: if_splits option.splits)
  then show "n \<in> set (old_pk_set x)" "find_column (rename_lookup x n) cs = Some c" "c_autoIncrement c" by simp_all
qed

lemma old_pk_set_names: "sound_diff e d x \<Longrightarrow> drops_primary_key x \<Longrightarrow> set (old_pk_set x) = set (pk_names d)"
  by (auto simp: sound_diff_def old_pk_set_def drops_primary_key_def)

lemma pk_names_sub: "set (pk_names t) \<subseteq> c_name ` set (t_columns t)"
  by (auto simp: pk_names_def)

lemma stripped_names_in_table:
  assumes "sound_diff e d x" "drops_primary_key x"
  shows "c_name ` set (strip_cols x) \<subseteq> c_name ` set (t_columns d)"
proof -
  have ec: "d_entityColumns x = Some (t_columns e)" using assms(1) by (simp add: sound_diff_def)
  have "n \<in> set (old_pk_set x)" if "n \<in> c_name ` set (strip_cols x)" for n
    using that stripped_remaining_mem(1) [OF _ ec]
    by (auto simp: strip_cols_names stripped_modified_def stripped_removed_def)
  then show ?thesis using old_pk_set_names [OF assms] pk_names_sub [of d] by blast
qed

definition dropped_cols :: "table_schema \<Rightarrow> table_diff \<Rightarrow> (string \<rightharpoonup> column)" where
  "dropped_cols d x = (\<lambda>n. if n \<in> c_name ` set (d_removedColumns x) then None
     else (if drops_primary_key x then write_cols (strip_cols x) (\<lambda>n. find_column n (t_columns d))
           else (\<lambda>n. find_column n (t_columns d))) n)"

lemma dom_find_column: "dom (\<lambda>n. find_column n cs) = c_name ` set cs"
proof (rule set_eqI)
  fix n show "n \<in> dom (\<lambda>n. find_column n cs) \<longleftrightarrow> n \<in> c_name ` set cs"
    unfolding domIff find_column_None by (simp only: not_not)
qed

lemma dom_dropped_cols:
  assumes "sound_diff e d x"
  shows "dom (dropped_cols d x) = c_name ` set (t_columns d) - c_name ` set (d_removedColumns x)"
proof -
  have "dom (write_cols (strip_cols x) (\<lambda>n. find_column n (t_columns d))) = c_name ` set (t_columns d)" if "drops_primary_key x"
    using stripped_names_in_table [OF assms that] by (auto simp: dom_write_cols dom_find_column)
  then have "dom (if drops_primary_key x then write_cols (strip_cols x) (\<lambda>n. find_column n (t_columns d))
      else (\<lambda>n. find_column n (t_columns d))) = c_name ` set (t_columns d)"
    by (simp add: dom_find_column)
  then show ?thesis unfolding dropped_cols_def by (auto simp: dom_def split: if_splits)
qed

definition kept_indexes :: "table_schema \<Rightarrow> table_diff \<Rightarrow> index_schema list" where
  "kept_indexes d x = filter (\<lambda>i. i_name i \<notin> i_name ` set (d_removedIndexes x)) (t_indexes d)"

definition kept_fks :: "table_schema \<Rightarrow> table_diff \<Rightarrow> foreign_key list" where
  "kept_fks d x = filter (\<lambda>f. f_name f \<notin> f_name ` set (d_removedForeignKeys x)) (t_foreignKeys d)"

lemma missing_names:
  assumes "distinct (map f xs)"
  shows "distinct (map f (missing_from k xs ys))" "f ` set (missing_from k xs ys) \<subseteq> f ` set xs"
  using assms by (auto simp: missing_from_def Let_def distinct_map_filter)

lemma exec_drop_ops:
  assumes "sound_diff e d x" "distinct (map i_name (t_indexes d))" "distinct (map f_name (t_foreignKeys d))"
  shows "exec_ops (drop_ops x) (mtable_of d)
    = Some \<lparr>mt_cols = dropped_cols d x,
            mt_pk = (if drops_primary_key x then {} else set (pk_names d)) - c_name ` set (d_removedColumns x),
            mt_indexes = kept_indexes d x, mt_fks = kept_fks d x\<rparr>"
proof -
  let ?E = "\<lambda>n. find_column n (t_columns d)"
  let ?s1 = "(mtable_of d)\<lparr>mt_fks := kept_fks d x\<rparr>"
  let ?s2 = "?s1\<lparr>mt_indexes := kept_indexes d x\<rparr>"
  let ?s3 = "if drops_primary_key x then ?s2\<lparr>mt_cols := write_cols (strip_cols x) ?E, mt_pk := {}\<rparr> else ?s2"
  have rem: "d_removedIndexes x = missing_from indexKey (t_indexes d) (t_indexes e)"
    "d_removedForeignKeys x = missing_from fkKey (t_foreignKeys d) (t_foreignKeys e)"
    using assms(1) by (simp_all add: sound_diff_def)
  have 1: "exec_ops (map (\<lambda>f. DropFK (f_name f)) (d_removedForeignKeys x)) (mtable_of d) = Some ?s1"
    using exec_drop_fks [of "d_removedForeignKeys x" "mtable_of d"] missing_names [OF assms(3)] rem
    by (simp add: mtable_of_def kept_fks_def)
  have 2: "exec_ops (map (\<lambda>i. DropIndex (i_name i)) (d_removedIndexes x)) ?s1 = Some ?s2"
    using exec_drop_indexes [of "d_removedIndexes x" ?s1] missing_names [OF assms(2)] rem
    by (simp add: mtable_of_def kept_indexes_def)
  have 3: "exec_ops (if drops_primary_key x then strip_ops x @ [DropPK] else []) ?s2 = Some ?s3"
  proof (cases "drops_primary_key x")
    case True
    have "exec_ops (strip_ops x) ?s2 = Some (?s2\<lparr>mt_cols := write_cols (map fst (map (\<lambda>c. (c, NoPosition)) (strip_cols x))) (mt_cols ?s2)\<rparr>)"
      unfolding strip_ops_modifies
      by (rule exec_modifies) (use stripped_names_in_table [OF assms(1) True] in \<open>auto simp: mtable_of_def position_ok_def dom_find_column\<close>)
    moreover have "pk_names d \<noteq> []" using True assms(1) by (auto simp: drops_primary_key_def sound_diff_def)
    ultimately show ?thesis using True by (simp add: exec_ops_append mtable_of_def comp_def)
  qed simp
  have names: "distinct (map c_name (d_removedColumns x))" "c_name ` set (d_removedColumns x) \<subseteq> c_name ` set (t_columns d)"
    using assms(1) by (auto simp: sound_diff_def)
  have cols3: "mt_cols ?s3 = (if drops_primary_key x then write_cols (strip_cols x) ?E else ?E)"
    by (simp add: mtable_of_def)
  have "dom (mt_cols ?s3) = c_name ` set (t_columns d)"
    using stripped_names_in_table [OF assms(1)] unfolding cols3
    by (cases "drops_primary_key x") (simp_all add: dom_write_cols dom_find_column sup.absorb2)
  then have 4: "exec_ops (map (\<lambda>c. DropColumn (c_name c)) (d_removedColumns x)) ?s3
    = Some (?s3\<lparr>mt_cols := (\<lambda>n. if n \<in> c_name ` set (d_removedColumns x) then None else mt_cols ?s3 n),
               mt_pk := mt_pk ?s3 - c_name ` set (d_removedColumns x)\<rparr>)"
    using exec_drop_columns [OF names(1)] names(2) by simp
  have "exec_ops (drop_ops x) (mtable_of d)
    = Some (?s3\<lparr>mt_cols := (\<lambda>n. if n \<in> c_name ` set (d_removedColumns x) then None else mt_cols ?s3 n),
               mt_pk := mt_pk ?s3 - c_name ` set (d_removedColumns x)\<rparr>)"
    unfolding drop_ops_def by (intro exec_ops_seq [OF 1] exec_ops_seq [OF 2] exec_ops_seq [OF 3] 4)
  moreover have "?s3\<lparr>mt_cols := (\<lambda>n. if n \<in> c_name ` set (d_removedColumns x) then None else mt_cols ?s3 n),
               mt_pk := mt_pk ?s3 - c_name ` set (d_removedColumns x)\<rparr>
      = \<lparr>mt_cols = dropped_cols d x,
            mt_pk = (if drops_primary_key x then {} else set (pk_names d)) - c_name ` set (d_removedColumns x),
            mt_indexes = kept_indexes d x, mt_fks = kept_fks d x\<rparr>"
    unfolding cols3 dropped_cols_def by (cases "drops_primary_key x") (simp_all add: mtable_of_def)
  ultimately show ?thesis by simp
qed

subsection \<open>Renames\<close>

lemma classes_shared: "F \<inter> N = {} \<Longrightarrow> R \<inter> N = {} \<Longrightarrow> a \<in> N \<Longrightarrow> a \<in> D \<Longrightarrow> a \<in> D - R - F"
  by blast

lemma classes_existing: "F \<inter> N = {} \<Longrightarrow> R \<inter> N = {} \<Longrightarrow> N - D \<subseteq> A \<union> T \<Longrightarrow> N - A \<subseteq> D - R - F \<union> T"
  by blast

lemma classes_added: "A \<inter> D = {} \<Longrightarrow> T \<inter> A = {} \<Longrightarrow> A \<inter> (D - R - F \<union> T) = {}"
  by blast

definition rename_triples :: "table_diff \<Rightarrow> (string \<times> column \<times> position) list" where
  "rename_triples x = map (\<lambda>r. (r_from r, if defers_rename x r then without_auto_increment (r_column r) else r_column r,
     after_position (r_column r) x (set (map c_name (d_addedColumns x))))) (d_renamedColumns x)"

lemma rename_ops_changes:
  "map (rename_op x) (d_renamedColumns x) = map (\<lambda>(f, c, p). ChangeColumn f c p) (rename_triples x)"
  by (simp add: rename_triples_def rename_op_def)

lemma rename_triples_names:
  assumes "sound_diff e d x"
  shows "sources (rename_triples x) = map r_from (d_renamedColumns x)" "targets (rename_triples x) = map r_to (d_renamedColumns x)"
  using assms by (auto simp: rename_triples_def sound_diff_def comp_def)

lemma existing_names: "set (existing_entity_order e x) = c_name ` set (t_columns e) - c_name ` set (d_addedColumns x)"
  by (auto simp: existing_entity_order_def)

lemma sound_classes:
  assumes "sound_diff e d x"
  shows "r_from ` set (d_renamedColumns x) \<subseteq> c_name ` set (t_columns d)"
    and "r_from ` set (d_renamedColumns x) \<inter> c_name ` set (t_columns e) = {}"
    and "r_from ` set (d_renamedColumns x) \<inter> c_name ` set (d_removedColumns x) = {}"
    and "r_to ` set (d_renamedColumns x) \<inter> c_name ` set (t_columns d) = {}"
    and "r_to ` set (d_renamedColumns x) \<inter> c_name ` set (d_addedColumns x) = {}"
    and "c_name ` set (d_addedColumns x) \<inter> c_name ` set (t_columns d) = {}"
    and "c_name ` set (d_removedColumns x) \<inter> c_name ` set (t_columns e) = {}"
    and "c_name ` set (t_columns e) - c_name ` set (t_columns d) \<subseteq> c_name ` set (d_addedColumns x) \<union> r_to ` set (d_renamedColumns x)"
    and "r_to ` set (d_renamedColumns x) \<subseteq> c_name ` set (t_columns e)"
proof -
  have A: "c_name ` set (d_addedColumns x) \<union> r_to ` set (d_renamedColumns x) = c_name ` set (t_columns e) - c_name ` set (t_columns d)"
    and R: "c_name ` set (d_removedColumns x) \<union> r_from ` set (d_renamedColumns x)
         = c_name ` set (t_columns d) - c_name ` set (t_columns e) - set (t_skippedColumns e)"
    and dA: "distinct (map c_name (d_addedColumns x) @ map r_to (d_renamedColumns x))"
    and dR: "distinct (map c_name (d_removedColumns x) @ map r_from (d_renamedColumns x))"
    using assms by (simp_all only: sound_diff_def)
  show "r_from ` set (d_renamedColumns x) \<subseteq> c_name ` set (t_columns d)"
    "r_from ` set (d_renamedColumns x) \<inter> c_name ` set (t_columns e) = {}"
    "c_name ` set (d_removedColumns x) \<inter> c_name ` set (t_columns e) = {}" using R by blast+
  show "r_to ` set (d_renamedColumns x) \<inter> c_name ` set (t_columns d) = {}"
    "c_name ` set (d_addedColumns x) \<inter> c_name ` set (t_columns d) = {}"
    "c_name ` set (t_columns e) - c_name ` set (t_columns d) \<subseteq> c_name ` set (d_addedColumns x) \<union> r_to ` set (d_renamedColumns x)"
    "r_to ` set (d_renamedColumns x) \<subseteq> c_name ` set (t_columns e)" using A by blast+
  show "r_from ` set (d_renamedColumns x) \<inter> c_name ` set (d_removedColumns x) = {}"
    using dR unfolding distinct_append set_map by blast
  show "r_to ` set (d_renamedColumns x) \<inter> c_name ` set (d_addedColumns x) = {}"
    using dA unfolding distinct_append set_map by blast
qed

lemma rename_position:
  assumes "sound_diff e d x" "d_renamedColumns x = ru @ r # rv"
    and "after_position (r_column r) x (set (map c_name (d_addedColumns x))) = After a"
  shows "a \<noteq> c_name (r_column r) \<and> (a \<in> c_name ` set (t_columns d) - c_name ` set (d_removedColumns x)
           - r_from ` set (d_renamedColumns x) \<or> a \<in> set (map r_to ru))"
proof -
  have ec: "d_entityColumns x = Some (t_columns e)" using assms(1) by (simp add: sound_diff_def)
  note pos = after_position_before [OF assms(3) ec]
  have N: "a \<in> c_name ` set (t_columns e)" using pos(1) by (auto dest: set_takeWhileD)
  note cl = sound_classes [OF assms(1)]
  show ?thesis
  proof (cases "a \<in> c_name ` set (t_columns d)")
    case True
    with pos(3) classes_shared [OF cl(2) cl(7) N] show ?thesis by simp
  next
    case False
    then have "a \<in> c_name ` set (t_columns e) - c_name ` set (t_columns d)" using N by simp
    then have "a \<in> c_name ` set (d_addedColumns x) \<union> r_to ` set (d_renamedColumns x)" by (rule subsetD [OF cl(8)])
    then have "a \<in> r_to ` set (d_renamedColumns x)" using pos(2) by (simp only: Un_iff set_map simp_thms)
    then have to: "a \<in> set (map r_to ru @ c_name (r_column r) # map r_to rv)"
      using assms(1,2) by (auto simp: sound_diff_def)
    have "subseq (map r_to (d_renamedColumns x)) (map c_name (t_columns e))" "distinct (map c_name (t_columns e))"
      using assms(1) by (simp_all add: sound_diff_def)
    moreover have "map r_to (d_renamedColumns x) = map r_to ru @ c_name (r_column r) # map r_to rv"
      using assms(1,2) by (simp add: sound_diff_def)
    ultimately have "a \<in> set (map r_to ru)" using subseq_before [OF _ _ pos(1) to] by simp
    with pos(3) show ?thesis by simp
  qed
qed

definition renamed_cols :: "table_schema \<Rightarrow> table_diff \<Rightarrow> (string \<rightharpoonup> column)" where
  "renamed_cols d x = change_cols (rename_triples x) (dropped_cols d x)"

lemma exec_renames:
  assumes "sound_diff e d x" "mt_cols s = dropped_cols d x"
  shows "exec_ops (map (rename_op x) (d_renamedColumns x)) s
    = Some (s\<lparr>mt_cols := renamed_cols d x, mt_pk := change_pk (rename_triples x) (mt_pk s)\<rparr>)"
  unfolding rename_ops_changes renamed_cols_def assms(2) [symmetric]
proof (rule exec_changes)
  note cl = sound_classes [OF assms(1)]
  have dR: "distinct (map c_name (d_removedColumns x) @ map r_from (d_renamedColumns x))"
    and dA: "distinct (map c_name (d_addedColumns x) @ map r_to (d_renamedColumns x))"
    using assms(1) by (simp_all only: sound_diff_def)
  show "distinct (sources (rename_triples x))" "distinct (targets (rename_triples x))"
    unfolding rename_triples_names [OF assms(1)] using dR dA unfolding distinct_append by simp_all
  show "set (sources (rename_triples x)) \<subseteq> dom (mt_cols s)" "set (targets (rename_triples x)) \<inter> dom (mt_cols s) = {}"
    unfolding rename_triples_names [OF assms(1)] assms(2) dom_dropped_cols [OF assms(1)] set_map using cl by blast+
  fix us f c a vs assume split: "rename_triples x = us @ (f, c, After a) # vs"
  then obtain ru r rv where r: "d_renamedColumns x = ru @ r # rv" "after_position (r_column r) x (set (map c_name (d_addedColumns x))) = After a"
      "c_name c = c_name (r_column r)" and us: "length us = length ru"
    unfolding rename_triples_def by (auto simp: map_eq_append_conv map_eq_Cons_conv)
  have "targets (us @ (f, c, After a) # vs) = map r_to (ru @ r # rv)"
    using rename_triples_names(2) [OF assms(1)] split r(1) by simp
  then have "targets us = map r_to ru" using us by simp
  with rename_position [OF assms(1) r(1,2)] r(3)
  show "a \<noteq> c_name c \<and> (a \<in> dom (mt_cols s) - set (sources (rename_triples x)) \<or> a \<in> set (targets us))"
    unfolding rename_triples_names [OF assms(1)] assms(2) dom_dropped_cols [OF assms(1)] by simp
qed

lemma dom_renamed_cols:
  assumes "sound_diff e d x"
  shows "dom (renamed_cols d x) = c_name ` set (t_columns d) - c_name ` set (d_removedColumns x)
    - r_from ` set (d_renamedColumns x) \<union> r_to ` set (d_renamedColumns x)"
proof -
  have "set (sources (rename_triples x)) \<inter> set (targets (rename_triples x)) = {}"
    unfolding rename_triples_names [OF assms] set_map using sound_classes [OF assms] by blast
  from dom_change_cols [OF this] show ?thesis
    unfolding renamed_cols_def by (simp only: rename_triples_names [OF assms] dom_dropped_cols [OF assms] set_map)
qed

lemma renamed_cols_names:
  assumes "sound_diff e d x"
  shows "set (existing_entity_order e x) \<subseteq> dom (renamed_cols d x)" "c_name ` set (d_addedColumns x) \<inter> dom (renamed_cols d x) = {}"
proof -
  note cl = sound_classes [OF assms]
  show "set (existing_entity_order e x) \<subseteq> dom (renamed_cols d x)"
    unfolding existing_names dom_renamed_cols [OF assms] by (rule classes_existing [OF cl(2) cl(7) cl(8)])
  show "c_name ` set (d_addedColumns x) \<inter> dom (renamed_cols d x) = {}"
    unfolding dom_renamed_cols [OF assms] by (rule classes_added [OF cl(6) cl(5)])
qed

subsection \<open>Modifications, additions and moves\<close>

lemma existing_position_After:
  assumes "sound_diff e d x" "existing_position n x = After a"
  shows "a \<noteq> n \<and> a \<in> set (existing_entity_order e x)"
proof -
  obtain r where r: "find (\<lambda>r. o_name r = n) (d_reorderedColumns x) = Some r" "reorder_position r = After a"
    using assms(2) by (auto simp: existing_position_def split: option.splits)
  then have "r \<in> set (d_reorderedColumns x)" "o_name r = n" by (auto simp: find_Some_iff)
  moreover have "o_after r = Some a" using r(2) by (auto simp: reorder_position_def split: option.splits)
  ultimately show ?thesis using assms(1) unfolding sound_diff_def by blast
qed

lemma plain_mod_facts:
  assumes "sound_diff e d x" "m \<in> set (plain_mods x)"
  shows "m_newColumn m \<in> set (t_columns e)" "m_name m = c_name (m_newColumn m)"
    and "m_name m \<in> set (existing_entity_order e x)" "m_name m \<in> c_name ` set (t_columns d)"
proof -
  have m: "m \<in> set (modified_columns e d (d_renamedColumns x))" "m_name m \<notin> r_to ` set (d_renamedColumns x)"
    and rs: "\<forall>r\<in>set (d_renamedColumns x). r_column r \<in> set (t_columns e) \<and> r_to r = c_name (r_column r)" and wf: "wf_table e"
    using assms by (auto simp: plain_mods_def renamed_names_def sound_diff_def wf_table_def)
  note f = modified_facts [OF wf m(1)]
  show new: "m_newColumn m \<in> set (t_columns e)" "m_name m = c_name (m_newColumn m)" using f rs by blast+
  have "c_name (m_oldColumn m) = m_name m" using f(4) rs m(2) new(2) by force
  then show D: "m_name m \<in> c_name ` set (t_columns d)" using f(3) rs by (metis imageI)
  have "m_name m \<in> c_name ` set (t_columns e)" using new by simp
  moreover have "m_name m \<notin> c_name ` set (d_addedColumns x)" using D sound_classes(6) [OF assms(1)] by blast
  ultimately show "m_name m \<in> set (existing_entity_order e x)" unfolding existing_names by simp
qed

lemma exec_mods:
  assumes "sound_diff e d x" "set ms \<subseteq> set (plain_mods x)" "set (existing_entity_order e x) \<subseteq> dom (mt_cols s)"
  shows "exec_ops (map (mod_op x) ms) s = Some (s\<lparr>mt_cols := write_cols (map m_newColumn ms) (mt_cols s)\<rparr>)"
proof -
  have ops: "map (mod_op x) ms = map (\<lambda>(c, p). ModifyColumn c p) (map (\<lambda>m. (m_newColumn m, existing_position (m_name m) x)) ms)"
    by (simp add: mod_op_def)
  have "\<forall>(c, p)\<in>set (map (\<lambda>m. (m_newColumn m, existing_position (m_name m) x)) ms).
      c_name c \<in> dom (mt_cols s) \<and> position_ok (c_name c) p (mt_cols s)"
  proof (clarsimp simp only: set_map)
    fix m assume "m \<in> set ms"
    then have m: "m \<in> set (plain_mods x)" using assms(2) by blast
    note f = plain_mod_facts [OF assms(1) m]
    have "c_name (m_newColumn m) \<in> dom (mt_cols s)" using f(2,3) assms(3) by auto
    moreover have "position_ok (c_name (m_newColumn m)) (existing_position (m_name m) x) (mt_cols s)"
      using existing_position_After [OF assms(1), of "m_name m"] f(2) assms(3)
      by (auto simp: position_ok_def split: position.split)
    ultimately show "c_name (m_newColumn m) \<in> dom (mt_cols s)
        \<and> position_ok (c_name (m_newColumn m)) (existing_position (m_name m) x) (mt_cols s)" ..
  qed
  from exec_modifies [OF this] show ?thesis unfolding ops by (simp add: comp_def)
qed

definition added_first :: "table_diff \<Rightarrow> column list" where
  "added_first x = map (\<lambda>c. if c_autoIncrement c then without_auto_increment c else c) (d_addedColumns x)"

lemma added_first_names [simp]: "map c_name (added_first x) = map c_name (d_addedColumns x)"
  by (simp add: added_first_def)

lemma added_first_name_set [simp]: "c_name ` set (added_first x) = c_name ` set (d_addedColumns x)"
  by (simp only: set_map [symmetric] added_first_names)

lemma exec_add_columns:
  assumes "sound_diff e d x" "set (existing_entity_order e x) \<subseteq> dom (mt_cols s)" "c_name ` set (d_addedColumns x) \<inter> dom (mt_cols s) = {}"
  shows "exec_ops (map (add_op x) (d_addedColumns x)) s = Some (s\<lparr>mt_cols := write_cols (added_first x) (mt_cols s)\<rparr>)"
proof -
  let ?cps = "map (\<lambda>c. (if c_autoIncrement c then without_auto_increment c else c, after_position c x {})) (d_addedColumns x)"
  have ec: "d_entityColumns x = Some (t_columns e)" and dist: "distinct (map c_name (t_columns e))" "distinct (map c_name (d_addedColumns x))"
    and sub: "subseq (map c_name (d_addedColumns x)) (map c_name (t_columns e))"
    using assms(1) by (simp_all add: sound_diff_def)
  have names: "map (\<lambda>(c, p). c_name c) ?cps = map c_name (d_addedColumns x)" by simp
  have fsts: "map fst ?cps = added_first x" by (simp add: added_first_def)
  have "exec_ops (map (\<lambda>(c, p). AddColumn c p) ?cps) s = Some (s\<lparr>mt_cols := write_cols (map fst ?cps) (mt_cols s)\<rparr>)"
  proof (rule exec_adds)
    show "distinct (map (\<lambda>(c, p). c_name c) ?cps)" unfolding names by (rule dist)
    show "(\<lambda>(c, p). c_name c) ` set ?cps \<inter> dom (mt_cols s) = {}"
      using assms(3) unfolding set_map [symmetric] names by simp
    fix us c p vs assume split: "?cps = us @ (c, p) # vs"
    then obtain au a av where a: "d_addedColumns x = au @ a # av" "p = after_position a x {}" "c_name c = c_name a" "length us = length au"
      by (auto simp: map_eq_append_conv map_eq_Cons_conv)
    have "map (\<lambda>(c, p). c_name c) (us @ (c, p) # vs) = map c_name (d_addedColumns x)"
      unfolding split [symmetric] by (rule names)
    then have us: "map (\<lambda>(c, p). c_name c) us = map c_name au" using a(1,4) by simp
    show "case p of After b \<Rightarrow> b \<noteq> c_name c \<and> (b \<in> dom (mt_cols s) \<or> b \<in> (\<lambda>(c, p). c_name c) ` set us) | _ \<Rightarrow> True"
    proof (cases p)
      case (After b)
      note pos = after_position_before [OF a(2) [symmetric, unfolded After] ec]
      have N: "b \<in> c_name ` set (t_columns e)" using pos(1) by (auto dest: set_takeWhileD)
      have "b \<in> dom (mt_cols s) \<or> b \<in> set (map c_name au)"
      proof (cases "b \<in> set (map c_name (d_addedColumns x))")
        case True
        then show ?thesis
          using subseq_before [of "map c_name au" "c_name a" "map c_name av" "map c_name (t_columns e)" b] sub dist(1) pos(1) a(1) by simp
      next
        case False
        then have "b \<in> set (existing_entity_order e x)" using N unfolding existing_names by simp
        then show ?thesis using assms(2) by blast
      qed
      then show ?thesis unfolding After using pos(3) a(3) us by (simp add: set_map [symmetric] del: set_map)
    qed simp_all
  qed
  then show ?thesis unfolding fsts by (simp add: add_op_def [abs_def] comp_def)
qed

lemma pending_reorders_mem:
  assumes "(r, c) \<in> set (pending_reorders x)" "d_entityColumns x = Some cs"
  shows "r \<in> set (d_reorderedColumns x)" "c \<in> set cs" "c_name c = o_name r"
  using assms find_column_Some [of "o_name r" cs c]
  by (auto simp: pending_reorders_def in_map_filter split: if_splits option.splits)

lemma exec_reorders:
  assumes "sound_diff e d x" "c_name ` set (t_columns e) \<subseteq> dom (mt_cols s)"
  shows "exec_ops (map (\<lambda>(r, c). ModifyColumn c (reorder_position r)) (pending_reorders x)) s
    = Some (s\<lparr>mt_cols := write_cols (map snd (pending_reorders x)) (mt_cols s)\<rparr>)"
proof -
  let ?cps = "map (\<lambda>(r, c). (c, reorder_position r)) (pending_reorders x)"
  have ec: "d_entityColumns x = Some (t_columns e)" using assms(1) by (simp add: sound_diff_def)
  have ops: "map (\<lambda>(r, c). ModifyColumn c (reorder_position r)) (pending_reorders x) = map (\<lambda>(c, p). ModifyColumn c p) ?cps"
    by (simp add: split_def)
  have pos: "c_name c \<in> dom (mt_cols s) \<and> position_ok (c_name c) (reorder_position r) (mt_cols s)"
    if rc: "(r, c) \<in> set (pending_reorders x)" for r c
  proof -
    note f = pending_reorders_mem [OF rc ec]
    have "c_name c \<in> dom (mt_cols s)" using f(2) assms(2) by blast
    moreover have "position_ok (c_name c) (reorder_position r) (mt_cols s)"
    proof (cases "o_after r")
      case (Some a)
      then have "a \<noteq> o_name r \<and> a \<in> set (existing_entity_order e x)" using assms(1) f(1) unfolding sound_diff_def by blast
      moreover have "set (existing_entity_order e x) \<subseteq> c_name ` set (t_columns e)" unfolding existing_names by blast
      ultimately have "a \<in> dom (mt_cols s)" "a \<noteq> o_name r" using assms(2) by blast+
      then show ?thesis using Some f(3) by (auto simp: position_ok_def reorder_position_def)
    qed (simp add: position_ok_def reorder_position_def)
    ultimately show ?thesis ..
  qed
  then have "\<forall>(c, p)\<in>set ?cps. c_name c \<in> dom (mt_cols s) \<and> position_ok (c_name c) p (mt_cols s)" by fastforce
  from exec_modifies [OF this] show ?thesis unfolding ops by (simp add: comp_def split_def)
qed

section \<open>The columns at the end\<close>

definition restore_cols :: "table_diff \<Rightarrow> column list" where
  "restore_cols x = map m_newColumn (filter (defers_mod x) (plain_mods x)) @ filter c_autoIncrement (d_addedColumns x)
     @ map r_column (filter (defers_rename x) (d_renamedColumns x))
     @ (if drops_primary_key x then map snd (stripped_remaining x) else [])"

definition changed_cols :: "table_schema \<Rightarrow> table_diff \<Rightarrow> (string \<rightharpoonup> column)" where
  "changed_cols d x = write_cols (map snd (pending_reorders x)) (write_cols (added_first x)
     (write_cols (map m_newColumn (filter (\<lambda>m. \<not> defers_mod x m) (plain_mods x))) (renamed_cols d x)))"

definition final_cols :: "table_schema \<Rightarrow> table_diff \<Rightarrow> (string \<rightharpoonup> column)" where
  "final_cols d x = write_cols (restore_cols x) (changed_cols d x)"

lemma restore_cols_mem:
  assumes "sound_diff e d x"
  shows "set (restore_cols x) \<subseteq> set (t_columns e)"
proof -
  have ec: "d_entityColumns x = Some (t_columns e)" and add: "set (d_addedColumns x) \<subseteq> set (t_columns e)"
    and ren: "\<forall>r\<in>set (d_renamedColumns x). r_column r \<in> set (t_columns e)"
    using assms by (simp_all add: sound_diff_def)
  have "c \<in> set (t_columns e)" if "(n, c) \<in> set (stripped_remaining x)" for n c
    using stripped_remaining_mem(2) [OF that ec] find_column_Some by blast
  then show ?thesis
    using plain_mod_facts(1) [OF assms] add ren by (auto simp: restore_cols_def)
qed

lemma exec_restore_ops:
  assumes "sound_diff e d x" "c_name ` set (t_columns e) \<subseteq> dom (mt_cols s)"
  shows "exec_ops (restore_ops x) s = Some (s\<lparr>mt_cols := write_cols (restore_cols x) (mt_cols s)\<rparr>)"
proof -
  let ?ms = "filter (defers_mod x) (plain_mods x)"
  let ?rest = "filter c_autoIncrement (d_addedColumns x) @ map r_column (filter (defers_rename x) (d_renamedColumns x))
     @ (if drops_primary_key x then map snd (stripped_remaining x) else [])"
  have ops: "restore_ops x = map (mod_op x) ?ms @ map (\<lambda>(c, p). ModifyColumn c p) (map (\<lambda>c. (c, NoPosition)) ?rest)"
    by (simp add: restore_ops_def comp_def split_def)
  have "set (existing_entity_order e x) \<subseteq> dom (mt_cols s)" using assms(2) unfolding existing_names by blast
  then have 1: "exec_ops (map (mod_op x) ?ms) s = Some (s\<lparr>mt_cols := write_cols (map m_newColumn ?ms) (mt_cols s)\<rparr>)"
    by (intro exec_mods [OF assms(1)]) auto
  have rest: "set ?rest \<subseteq> set (t_columns e)" using restore_cols_mem [OF assms(1)] unfolding restore_cols_def by auto
  have free: "\<forall>(c, p)\<in>set (map (\<lambda>c. (c, NoPosition)) cs). c_name c \<in> dom m \<and> position_ok (c_name c) p m"
    if "set cs \<subseteq> set (t_columns e)" "c_name ` set (t_columns e) \<subseteq> dom m" for cs m
    using that by (auto simp: position_ok_def)
  have dom: "c_name ` set (t_columns e) \<subseteq> dom (write_cols (map m_newColumn ?ms) (mt_cols s))"
    using assms(2) unfolding dom_write_cols by blast
  then have 2: "exec_ops (map (\<lambda>(c, p). ModifyColumn c p) (map (\<lambda>c. (c, NoPosition)) ?rest)) (s\<lparr>mt_cols := write_cols (map m_newColumn ?ms) (mt_cols s)\<rparr>)
      = Some (s\<lparr>mt_cols := write_cols ?rest (write_cols (map m_newColumn ?ms) (mt_cols s))\<rparr>)"
    using free [OF rest dom] by (subst exec_modifies) (simp_all add: comp_def)
  show ?thesis unfolding ops restore_cols_def exec_ops_seq [OF 1 2] by (simp add: write_cols_def)
qed

lemma dom_changed_cols:
  assumes "sound_diff e d x"
  shows "dom (changed_cols d x) = c_name ` set (t_columns e) \<union> (c_name ` set (t_columns d) \<inter> set (t_skippedColumns e))"
proof -
  note cl = sound_classes [OF assms]
  have ec: "d_entityColumns x = Some (t_columns e)"
    and R: "c_name ` set (d_removedColumns x) \<union> r_from ` set (d_renamedColumns x)
         = c_name ` set (t_columns d) - c_name ` set (t_columns e) - set (t_skippedColumns e)"
    and A: "c_name ` set (d_addedColumns x) \<union> r_to ` set (d_renamedColumns x) = c_name ` set (t_columns e) - c_name ` set (t_columns d)"
    using assms by (simp_all only: sound_diff_def)
  have mods: "c_name ` set (map m_newColumn (filter (\<lambda>m. \<not> defers_mod x m) (plain_mods x))) \<subseteq> c_name ` set (t_columns e)"
    using plain_mod_facts(1) [OF assms] by auto
  have pend: "c_name ` set (map snd (pending_reorders x)) \<subseteq> c_name ` set (t_columns e)"
    using pending_reorders_mem(2) [OF _ ec] by auto
  have algebra: "P \<union> (A \<union> (M \<union> (D - R - F \<union> T))) = N \<union> (D \<inter> S)"
    if "P \<subseteq> N" "M \<subseteq> N" "A \<union> T = N - D" "R \<union> F = D - N - S" for P A M D R F T N S :: "string set"
    using that by blast
  show ?thesis
    unfolding changed_cols_def dom_write_cols added_first_name_set dom_renamed_cols [OF assms]
    by (rule algebra [OF pend mods A R])
qed

lemma dom_final_cols:
  assumes "sound_diff e d x"
  shows "dom (final_cols d x) = c_name ` set (t_columns e) \<union> (c_name ` set (t_columns d) \<inter> set (t_skippedColumns e))"
  using restore_cols_mem [OF assms] unfolding final_cols_def dom_write_cols dom_changed_cols [OF assms] by blast

lemma entity_writes:
  assumes "sound_diff e d x"
  shows "final_cols d x n =
    (if n \<in> c_name ` set (restore_cols x) \<or> n \<in> c_name ` set (map snd (pending_reorders x)) then find_column n (t_columns e)
     else if n \<in> c_name ` set (d_addedColumns x)
          then map_option (\<lambda>c. if c_autoIncrement c then without_auto_increment c else c) (find_column n (t_columns e))
     else if n \<in> m_name ` set (filter (\<lambda>m. \<not> defers_mod x m) (plain_mods x)) then find_column n (t_columns e)
     else renamed_cols d x n)"
proof -
  let ?E = "\<lambda>n. find_column n (t_columns e)"
  have ec: "d_entityColumns x = Some (t_columns e)" and dist: "distinct (map c_name (t_columns e))"
    and add: "set (d_addedColumns x) \<subseteq> set (t_columns e)" using assms by (simp_all add: sound_diff_def)
  note member = find_column_member [OF dist]
  have 1: "\<forall>c\<in>set (restore_cols x). ?E (c_name c) = Some c" using restore_cols_mem [OF assms] member by blast
  have 2: "\<forall>c\<in>set (map snd (pending_reorders x)). ?E (c_name c) = Some c"
    using pending_reorders_mem(2) [OF _ ec] member by auto
  have 3: "\<forall>c\<in>set (added_first x). map_option (\<lambda>c. if c_autoIncrement c then without_auto_increment c else c) (?E (c_name c)) = Some c"
    unfolding added_first_def set_map ball_simps
  proof
    fix c assume "c \<in> set (d_addedColumns x)"
    then have "?E (c_name c) = Some c" using add member by blast
    then show "map_option (\<lambda>c. if c_autoIncrement c then without_auto_increment c else c)
        (?E (c_name (if c_autoIncrement c then without_auto_increment c else c)))
      = Some (if c_autoIncrement c then without_auto_increment c else c)" by (cases "c_autoIncrement c") simp_all
  qed
  have 4: "\<forall>c\<in>set (map m_newColumn (filter (\<lambda>m. \<not> defers_mod x m) (plain_mods x))). ?E (c_name c) = Some c"
    using plain_mod_facts(1) [OF assms] member by auto
  have names: "c_name ` set (map m_newColumn (filter (\<lambda>m. \<not> defers_mod x m) (plain_mods x)))
      = m_name ` set (filter (\<lambda>m. \<not> defers_mod x m) (plain_mods x))"
    unfolding set_map image_image using plain_mod_facts(2) [OF assms] by (intro image_cong) auto
  show ?thesis
    unfolding final_cols_def changed_cols_def write_cols_by [of _ ?E, OF 1] write_cols_by [of _ ?E, OF 2]
      write_cols_by [of _ "\<lambda>n. map_option (\<lambda>c. if c_autoIncrement c then without_auto_increment c else c) (?E n)", OF 3]
      write_cols_by [of _ ?E, OF 4] names added_first_name_set
    by (cases "n \<in> c_name ` set (restore_cols x)"; cases "n \<in> c_name ` set (map snd (pending_reorders x))")
      (simp_all only: if_True if_False simp_thms)
qed

lemma added_final:
  assumes "sound_diff e d x" "c \<in> set (d_addedColumns x)"
  shows "final_cols d x (c_name c) = Some c"
proof -
  have c: "find_column (c_name c) (t_columns e) = Some c"
    using assms find_column_member by (auto simp: sound_diff_def)
  show ?thesis
  proof (cases "c_autoIncrement c")
    case True
    then have "c_name c \<in> c_name ` set (restore_cols x)" using assms(2) by (auto simp: restore_cols_def)
    with c show ?thesis by (simp add: entity_writes [OF assms(1)])
  next
    case False
    then show ?thesis using c assms(2) by (simp add: entity_writes [OF assms(1)])
  qed
qed

lemma rename_final:
  assumes "sound_diff e d x" "r \<in> set (d_renamedColumns x)"
  shows "final_cols d x (r_to r) = Some (r_column r)"
proof -
  have to: "r_to r = c_name (r_column r)" and c: "find_column (r_to r) (t_columns e) = Some (r_column r)"
    using assms find_column_member by (auto simp: sound_diff_def)
  note cl = sound_classes [OF assms(1)]
  have notadd: "r_to r \<notin> c_name ` set (d_addedColumns x)" using cl(5) assms(2) by auto
  show ?thesis
  proof (cases "defers_rename x r")
    case True
    then have "r_column r \<in> set (restore_cols x)" using assms(2) by (auto simp: restore_cols_def)
    then have "r_to r \<in> c_name ` set (restore_cols x)" unfolding to by (rule imageI)
    with c show ?thesis by (simp add: entity_writes [OF assms(1)])
  next
    case False
    have triple: "(r_from r, r_column r, after_position (r_column r) x (set (map c_name (d_addedColumns x)))) \<in> set (rename_triples x)"
      using assms(2) False by (force simp: rename_triples_def)
    have "distinct (map r_to (d_renamedColumns x))" using assms(1) by (simp add: sound_diff_def)
    moreover have "r_from ` set (d_renamedColumns x) \<inter> r_to ` set (d_renamedColumns x) = {}" using cl(1,4) by blast
    ultimately have "renamed_cols d x (r_to r) = Some (r_column r)"
      using change_cols_target [OF _ _ triple] rename_triples_names [OF assms(1)] unfolding renamed_cols_def to by simp
    then show ?thesis using c notadd by (simp add: entity_writes [OF assms(1)])
  qed
qed

text \<open>A column that is in both and was not modified ends as it was, or as the entity has it.\<close>

lemma stripped_remaining_restored:
  assumes "sound_diff e d x" "drops_primary_key x" "n \<in> fst ` set (stripped_remaining x)" "n \<in> c_name ` set (t_columns e)"
  shows "n \<in> c_name ` set (restore_cols x)"
proof -
  have ec: "d_entityColumns x = Some (t_columns e)" using assms(1) by (simp add: sound_diff_def)
  obtain c where c: "(n, c) \<in> set (stripped_remaining x)" using assms(3) by force
  have "jget (jmap_of (map (\<lambda>r. (r_from r, r_to r)) (d_renamedColumns x))) n = None"
    using sound_classes(2) [OF assms(1)] assms(4) by (auto simp: jget_jmap_of_None image_image)
  then have "rename_lookup x n = n" by (simp add: rename_lookup_def)
  then have "c_name c = n" using stripped_remaining_mem(2) [OF c ec] find_column_Some by force
  moreover have "c \<in> set (restore_cols x)" using c assms(2) by (force simp: restore_cols_def)
  ultimately show ?thesis by blast
qed

lemma unmodified_final:
  assumes "sound_diff e d x" "c \<in> set (t_columns e)" "dc \<in> set (t_columns d)" "c_name dc = c_name c"
    and "c_name c \<notin> m_name ` set (d_modifiedColumns x)"
  shows "final_cols d x (c_name c) \<in> {Some c, Some dc}"
proof -
  note cl = sound_classes [OF assms(1)]
  let ?n = "c_name c"
  have de: "distinct (map c_name (t_columns e))" and dd: "distinct (map c_name (t_columns d))"
    and mods: "d_modifiedColumns x = modified_columns e d (d_renamedColumns x)"
    and rs: "\<forall>r\<in>set (d_renamedColumns x). r_column r \<in> set (t_columns e)"
    using assms(1) by (simp_all add: sound_diff_def)
  have E: "find_column ?n (t_columns e) = Some c" and D: "find_column ?n (t_columns d) = Some dc"
    using find_column_member [OF de assms(2)] find_column_member [OF dd assms(3)] assms(4) by simp_all
  have n: "?n \<in> c_name ` set (t_columns e)" "?n \<in> c_name ` set (t_columns d)" using assms(2,3,4) by (auto simp: rev_image_eqI)
  have notadd: "?n \<notin> c_name ` set (d_addedColumns x)" using cl(6) n(2) by blast
  show ?thesis
  proof (cases "?n \<in> c_name ` set (restore_cols x) \<or> ?n \<in> c_name ` set (map snd (pending_reorders x))")
    case True
    with E show ?thesis by (simp only: entity_writes [OF assms(1)] if_True insert_iff simp_thms)
  next
    case False
    have notmod: "?n \<notin> m_name ` set (filter (\<lambda>m. \<not> defers_mod x m) (plain_mods x))"
      using assms(5) by (auto simp: plain_mods_def)
    have "final_cols d x ?n = renamed_cols d x ?n"
      using False notadd notmod by (simp only: entity_writes [OF assms(1)] if_False)
    also have "\<dots> = dropped_cols d x ?n"
    proof -
      have "?n \<notin> r_from ` set (d_renamedColumns x)" "?n \<notin> r_to ` set (d_renamedColumns x)"
        using cl(2,4) n by blast+
      then show ?thesis
        unfolding renamed_cols_def
        by (intro change_cols_other) (simp_all only: rename_triples_names [OF assms(1)] set_map not_False_eq_True)
    qed
    also have "\<dots> = Some dc"
    proof -
      have notrem: "?n \<notin> c_name ` set (d_removedColumns x)" using cl(7) n(1) by blast
      have "?n \<notin> c_name ` set (strip_cols x)" if "drops_primary_key x"
      proof -
        have "?n \<notin> c_name ` set (stripped_modified x)"
        proof
          assume "?n \<in> c_name ` set (stripped_modified x)"
          then obtain m where m: "m \<in> set (d_modifiedColumns x)" "c_name (m_oldColumn m) = ?n"
            by (auto simp: stripped_modified_def)
          have wf: "wf_table e" using de by (simp add: wf_table_def)
          have "c_name (m_oldColumn m) = m_name m \<or> (\<exists>r\<in>set (d_renamedColumns x). c_name (m_oldColumn m) = r_from r)"
            using modified_facts(4) [OF wf m(1) [unfolded mods] rs] by blast
          then show False using m assms(5) cl(2) n(1) by (auto simp: rev_image_eqI)
        qed
        moreover have "?n \<notin> c_name ` set (stripped_removed x)" using notrem by (auto simp: stripped_removed_def)
        moreover have "?n \<notin> fst ` set (stripped_remaining x)"
          using stripped_remaining_restored [OF assms(1) that _ n(1)] False by blast
        ultimately show ?thesis by (simp only: strip_cols_names Un_iff simp_thms)
      qed
      then have "(if drops_primary_key x then write_cols (strip_cols x) (\<lambda>n. find_column n (t_columns d))
           else (\<lambda>n. find_column n (t_columns d))) ?n = Some dc"
        using D write_cols_other by (cases "drops_primary_key x") simp_all
      with notrem show ?thesis unfolding dropped_cols_def by (simp only: if_False)
    qed
    finally show ?thesis by simp
  qed
qed

lemma modified_final:
  assumes "sound_diff e d x" "m \<in> set (d_modifiedColumns x)"
  shows "final_cols d x (m_name m) = Some (m_newColumn m)"
proof -
  have wf: "wf_table e" and mods: "d_modifiedColumns x = modified_columns e d (d_renamedColumns x)"
    and rs: "\<forall>r\<in>set (d_renamedColumns x). r_column r \<in> set (t_columns e) \<and> r_to r = c_name (r_column r)"
    and dist: "distinct (map c_name (t_columns e))"
    using assms(1) by (simp_all add: sound_diff_def wf_table_def)
  have new: "m_newColumn m \<in> set (t_columns e)" "m_name m = c_name (m_newColumn m)"
    using modified_facts(1,2) [OF wf assms(2) [unfolded mods]] rs by blast+
  have E: "find_column (m_name m) (t_columns e) = Some (m_newColumn m)"
    using find_column_member [OF dist new(1)] new(2) by simp
  show ?thesis
  proof (cases "m_name m \<in> r_to ` set (d_renamedColumns x)")
    case True
    then obtain r where r: "r \<in> set (d_renamedColumns x)" "m_name m = r_to r" by blast
    then have "r_column r = m_newColumn m" using rs new distinct_names_inj [OF dist] by metis
    with rename_final [OF assms(1) r(1)] r(2) show ?thesis by simp
  next
    case False
    then have plain: "m \<in> set (plain_mods x)" using assms(2) by (simp add: plain_mods_def renamed_names_def)
    have notadd: "m_name m \<notin> c_name ` set (d_addedColumns x)"
      using plain_mod_facts(4) [OF assms(1) plain] sound_classes(6) [OF assms(1)] by blast
    show ?thesis
    proof (cases "defers_mod x m")
      case True
      then have "m_newColumn m \<in> set (restore_cols x)" using plain by (simp add: restore_cols_def)
      then have "m_name m \<in> c_name ` set (restore_cols x)" unfolding new(2) by (rule imageI)
      with E show ?thesis by (simp add: entity_writes [OF assms(1)])
    next
      case False
      then have "m_name m \<in> m_name ` set (filter (\<lambda>m. \<not> defers_mod x m) (plain_mods x))" using plain by simp
      then show ?thesis unfolding entity_writes [OF assms(1)] using E notadd by (simp only: if_True if_False if_cancel)
    qed
  qed
qed

lemma entity_column_final:
  assumes "sound_diff e d x" "c \<in> set (t_columns e)"
  shows "\<exists>c'. final_cols d x (c_name c) = Some c' \<and> columns_agree c c'"
proof -
  have dist: "distinct (map c_name (t_columns e))" and wf: "wf_table e" "wf_table d"
    and mods: "d_modifiedColumns x = modified_columns e d (d_renamedColumns x)"
    and add: "set (d_addedColumns x) \<subseteq> set (t_columns e)"
    and rs: "\<forall>r\<in>set (d_renamedColumns x). r_column r \<in> set (t_columns e) \<and> r_to r = c_name (r_column r)"
    using assms(1) by (simp_all add: sound_diff_def wf_table_def)
  note same = distinct_names_inj [OF dist assms(2)]
  consider (modified) m where "m \<in> set (d_modifiedColumns x)" "m_name m = c_name c"
    | (kept) dc where "dc \<in> set (t_columns d)" "c_name dc = c_name c" "c_name c \<notin> m_name ` set (d_modifiedColumns x)"
    | (added) c' where "c' \<in> set (d_addedColumns x)" "c_name c' = c_name c"
    | (renamed) r where "r \<in> set (d_renamedColumns x)" "r_to r = c_name c"
  proof -
    have "c_name c \<in> c_name ` set (t_columns d) \<or> c_name c \<in> c_name ` set (d_addedColumns x) \<or> c_name c \<in> r_to ` set (d_renamedColumns x)"
      using sound_classes(8) [OF assms(1)] assms(2) by blast
    then show thesis by (elim disjE imageE; cases "c_name c \<in> m_name ` set (d_modifiedColumns x)") (metis imageE modified kept added renamed)+
  qed
  then show ?thesis
  proof cases
    case modified
    note nf = modified_facts [OF wf(1) modified(1) [unfolded mods]]
    have "m_newColumn m = c" using nf(1,2) rs same modified(2) by metis
    with modified_final [OF assms(1) modified(1)] modified(2) show ?thesis by simp
  next
    case kept
    have "columns_agree c dc"
      using modified_complete [OF wf assms(2) kept(1,2)] kept(3) unfolding mods by force
    then show ?thesis using unmodified_final [OF assms kept] columns_agree_refl by auto
  next
    case added
    have "c' = c" using same add added by (metis subsetD)
    with added_final [OF assms(1) added(1)] show ?thesis by simp
  next
    case renamed
    have "r_column r = c" using same rs renamed by metis
    with rename_final [OF assms(1) renamed(1)] renamed(2) show ?thesis by simp
  qed
qed

section \<open>The keys at the end\<close>

lemma change_pk_empty: "change_pk ts {} = {}"
  by (induction ts "{} :: string set" rule: change_pk.induct) auto

definition final_pk :: "table_schema \<Rightarrow> table_diff \<Rightarrow> string set" where
  "final_pk d x = change_pk (rename_triples x) ((if drops_primary_key x then {} else set (pk_names d)) - c_name ` set (d_removedColumns x))"

lemma final_pk_changed: "sound_diff e d x \<Longrightarrow> d_primaryKeyChanged x \<Longrightarrow> final_pk d x = {}"
  by (auto simp: final_pk_def change_pk_empty drops_primary_key_def sound_diff_def)

lemma final_pk_unchanged:
  assumes "sound_diff e d x" "\<not> d_primaryKeyChanged x"
  shows "final_pk d x = set (pk_names e)"
proof -
  let ?rs = "d_renamedColumns x"
  let ?ren = "\<lambda>n. nullish (jget (rename_map ?rs) n) n"
  have pk: "pk_names e = map ?ren (pk_names d)" and dist: "distinct (map r_from ?rs)" "distinct (map r_to ?rs)"
    using assms by (simp_all add: sound_diff_def mapped_db_pk_def)
  note cl = sound_classes [OF assms(1)]
  have other: "?ren n = n" if "n \<notin> r_from ` set ?rs" for n using that jget_rename_map_None [of ?rs n] by simp
  have target: "?ren (r_from r) = r_to r" if "r \<in> set ?rs" for r using jget_rename_map [OF dist(1) that] by simp
  have kept: "n \<notin> c_name ` set (d_removedColumns x)" if n: "n \<in> set (pk_names d)" for n
  proof
    assume R: "n \<in> c_name ` set (d_removedColumns x)"
    then have "?ren n = n" using cl(3) by (intro other) blast
    then have "n \<in> set (pk_names e)" using n unfolding pk set_map by force
    with R pk_names_sub [of e] cl(7) show False by blast
  qed
  have start: "(if drops_primary_key x then {} else set (pk_names d)) - c_name ` set (d_removedColumns x) = set (pk_names d)"
    using assms(2) kept by (auto simp: drops_primary_key_def)
  have triples: "(\<exists>p. (f, c, p) \<in> set (rename_triples x)) \<Longrightarrow> \<exists>r\<in>set ?rs. f = r_from r \<and> c_name c = r_to r" for f c
    using assms(1) by (auto simp: rename_triples_def sound_diff_def split: if_splits)
  have srcs: "set (sources (rename_triples x)) = r_from ` set ?rs"
    unfolding rename_triples_names [OF assms(1)] set_map ..
  have "final_pk d x = change_pk (rename_triples x) (set (pk_names d))" unfolding final_pk_def start ..
  also have "\<dots> = (set (pk_names d) - r_from ` set ?rs) \<union> {c_name c |f c p. (f, c, p) \<in> set (rename_triples x) \<and> f \<in> set (pk_names d)}"
    unfolding srcs [symmetric]
  proof (rule change_pk_image)
    show "distinct (sources (rename_triples x))" "distinct (targets (rename_triples x))"
      unfolding rename_triples_names [OF assms(1)] using dist by simp_all
    show "set (sources (rename_triples x)) \<inter> set (targets (rename_triples x)) = {}" "set (pk_names d) \<inter> set (targets (rename_triples x)) = {}"
      unfolding rename_triples_names [OF assms(1)] set_map using cl(1,4) pk_names_sub [of d] by blast+
  qed
  also have "{c_name c |f c p. (f, c, p) \<in> set (rename_triples x) \<and> f \<in> set (pk_names d)} = {r_to r |r. r \<in> set ?rs \<and> r_from r \<in> set (pk_names d)}"
    (is "?L = ?R")
  proof
    show "?L \<subseteq> ?R" using triples by blast
    show "?R \<subseteq> ?L"
    proof clarify
      fix r assume r: "r \<in> set ?rs" "r_from r \<in> set (pk_names d)"
      let ?c = "if defers_rename x r then without_auto_increment (r_column r) else r_column r"
      have "r_to r = c_name ?c" using assms(1) r(1) by (simp add: sound_diff_def)
      moreover have "(r_from r, ?c, after_position (r_column r) x (set (map c_name (d_addedColumns x)))) \<in> set (rename_triples x)"
        using r(1) by (force simp: rename_triples_def)
      ultimately show "\<exists>f c p. r_to r = c_name c \<and> (f, c, p) \<in> set (rename_triples x) \<and> f \<in> set (pk_names d)" using r(2) by blast
    qed
  qed
  also have "(set (pk_names d) - r_from ` set ?rs) \<union> \<dots> = ?ren ` set (pk_names d)"
  proof
    show "(set (pk_names d) - r_from ` set ?rs) \<union> {r_to r |r. r \<in> set ?rs \<and> r_from r \<in> set (pk_names d)} \<subseteq> ?ren ` set (pk_names d)"
    proof (intro Un_least subsetI)
      fix n assume n: "n \<in> set (pk_names d) - r_from ` set ?rs"
      then have "n = ?ren n" using other [of n] by simp
      with n show "n \<in> ?ren ` set (pk_names d)" by (intro image_eqI [of n ?ren n]) simp_all
    next
      fix n assume "n \<in> {r_to r |r. r \<in> set ?rs \<and> r_from r \<in> set (pk_names d)}"
      then obtain r where r: "n = r_to r" "r \<in> set ?rs" "r_from r \<in> set (pk_names d)" by blast
      then have "n = ?ren (r_from r)" using target [of r] by simp
      with r(3) show "n \<in> ?ren ` set (pk_names d)" by (intro image_eqI [of n ?ren "r_from r"])
    qed
    show "?ren ` set (pk_names d) \<subseteq> (set (pk_names d) - r_from ` set ?rs) \<union> {r_to r |r. r \<in> set ?rs \<and> r_from r \<in> set (pk_names d)}"
    proof
      fix k assume "k \<in> ?ren ` set (pk_names d)"
      then obtain n where n: "n \<in> set (pk_names d)" "k = ?ren n" by blast
      show "k \<in> (set (pk_names d) - r_from ` set ?rs) \<union> {r_to r |r. r \<in> set ?rs \<and> r_from r \<in> set (pk_names d)}"
      proof (cases "n \<in> r_from ` set ?rs")
        case True
        then obtain r where r: "r \<in> set ?rs" "n = r_from r" by blast
        then have "k = r_to r" using n(2) target [OF r(1)] by simp
        with r n(1) show ?thesis by blast
      next
        case False
        with n other [OF False] show ?thesis by simp
      qed
    qed
  qed
  finally show ?thesis unfolding pk set_map .
qed

lemma kept_keys:
  assumes "distinct (map f ds)"
  shows "key ` set (filter (\<lambda>i. f i \<notin> f ` set (missing_from key ds es)) ds @ missing_from key es ds) = key ` set es"
proof -
  have "f i \<in> f ` set (missing_from key ds es) \<longleftrightarrow> key i \<notin> key ` set es" if "i \<in> set ds" for i
    using assms that unfolding set_missing_from distinct_map by (auto dest: inj_onD)
  then have "set (filter (\<lambda>i. f i \<notin> f ` set (missing_from key ds es)) ds) = {i \<in> set ds. key i \<in> key ` set es}" by auto
  moreover have "key ` {i \<in> set ds. key i \<in> key ` set es} \<union> key ` {x \<in> set es. key x \<notin> key ` set ds} = key ` set es"
  proof
    show "key ` set es \<subseteq> key ` {i \<in> set ds. key i \<in> key ` set es} \<union> key ` {x \<in> set es. key x \<notin> key ` set ds}"
    proof
      fix k assume k: "k \<in> key ` set es"
      show "k \<in> key ` {i \<in> set ds. key i \<in> key ` set es} \<union> key ` {x \<in> set es. key x \<notin> key ` set ds}"
      proof (cases "k \<in> key ` set ds")
        case True
        then obtain i where "i \<in> set ds" "k = key i" by blast
        with k have "i \<in> {i \<in> set ds. key i \<in> key ` set es}" by simp
        with \<open>k = key i\<close> show ?thesis by simp
      next
        case False
        from k obtain i where "i \<in> set es" "k = key i" by blast
        with False have "i \<in> {x \<in> set es. key x \<notin> key ` set ds}" by simp
        with \<open>k = key i\<close> show ?thesis by simp
      qed
    qed
  qed auto
  ultimately show ?thesis unfolding set_append image_Un set_missing_from by simp
qed

section \<open>The migration reaches the entity\<close>

definition migrated :: "table_schema \<Rightarrow> table_schema \<Rightarrow> mtable \<Rightarrow> bool" where
  "migrated e d s \<longleftrightarrow>
     dom (mt_cols s) = c_name ` set (t_columns e) \<union> (c_name ` set (t_columns d) \<inter> set (t_skippedColumns e))
     \<and> (\<forall>c\<in>set (t_columns e). \<exists>c'. mt_cols s (c_name c) = Some c' \<and> columns_agree c c')
     \<and> mt_pk s = set (pk_names e)
     \<and> indexKey ` set (mt_indexes s) = indexKey ` set (t_indexes e)
     \<and> fkKey ` set (mt_fks s) = fkKey ` set (t_foreignKeys e)"

lemma exec_change_ops:
  assumes "sound_diff e d x" "mt_cols s = dropped_cols d x"
  shows "exec_ops (change_ops x) s = Some (s\<lparr>mt_cols := changed_cols d x, mt_pk := change_pk (rename_triples x) (mt_pk s)\<rparr>)"
proof -
  let ?ms = "filter (\<lambda>m. \<not> defers_mod x m) (plain_mods x)"
  let ?s1 = "s\<lparr>mt_cols := renamed_cols d x, mt_pk := change_pk (rename_triples x) (mt_pk s)\<rparr>"
  let ?m2 = "write_cols (map m_newColumn ?ms) (renamed_cols d x)"
  let ?m3 = "write_cols (added_first x) ?m2"
  note names = renamed_cols_names [OF assms(1)]
  have mods: "c_name ` set (map m_newColumn ?ms) \<subseteq> set (existing_entity_order e x)"
    using plain_mod_facts(2,3) [OF assms(1)] by auto
  have dom2: "set (existing_entity_order e x) \<subseteq> dom ?m2" "c_name ` set (d_addedColumns x) \<inter> dom ?m2 = {}"
  proof -
    show "set (existing_entity_order e x) \<subseteq> dom ?m2" using names(1) unfolding dom_write_cols by blast
    have "c_name ` set (map m_newColumn ?ms) \<inter> c_name ` set (d_addedColumns x) = {}"
      using mods unfolding existing_names by blast
    then show "c_name ` set (d_addedColumns x) \<inter> dom ?m2 = {}" using names(2) unfolding dom_write_cols by blast
  qed
  have dom3: "c_name ` set (t_columns e) \<subseteq> dom ?m3"
  proof -
    have "c_name ` set (t_columns e) \<subseteq> c_name ` set (d_addedColumns x) \<union> set (existing_entity_order e x)"
      unfolding existing_names by blast
    then show ?thesis using dom2(1) unfolding dom_write_cols [of "added_first x"] added_first_name_set by blast
  qed
  have 1: "exec_ops (map (rename_op x) (d_renamedColumns x)) s = Some ?s1" by (rule exec_renames [OF assms])
  have 2: "exec_ops (map (mod_op x) ?ms) ?s1 = Some (?s1\<lparr>mt_cols := ?m2\<rparr>)"
    using exec_mods [OF assms(1), of ?ms ?s1] names(1) by simp
  have 3: "exec_ops (map (add_op x) (d_addedColumns x)) (?s1\<lparr>mt_cols := ?m2\<rparr>) = Some (?s1\<lparr>mt_cols := ?m3\<rparr>)"
    using exec_add_columns [OF assms(1), of "?s1\<lparr>mt_cols := ?m2\<rparr>"] dom2 by simp
  have 4: "exec_ops (map (\<lambda>(r, c). ModifyColumn c (reorder_position r)) (pending_reorders x)) (?s1\<lparr>mt_cols := ?m3\<rparr>)
      = Some (?s1\<lparr>mt_cols := changed_cols d x\<rparr>)"
    using exec_reorders [OF assms(1), of "?s1\<lparr>mt_cols := ?m3\<rparr>"] dom3 by (simp add: changed_cols_def)
  have "exec_ops (change_ops x) s = Some (?s1\<lparr>mt_cols := changed_cols d x\<rparr>)"
    unfolding change_ops_def by (intro exec_ops_seq [OF 1] exec_ops_seq [OF 2] exec_ops_seq [OF 3] 4)
  then show ?thesis by simp
qed

lemma exec_add_pk:
  assumes "sound_diff e d x" "c_name ` set (t_columns e) \<subseteq> dom (mt_cols s)" "mt_pk s = final_pk d x"
  shows "exec_ops (add_pk_ops x) s = Some (s\<lparr>mt_pk := set (pk_names e)\<rparr>)"
proof (cases "d_primaryKeyChanged x")
  case True
  then have new: "d_newPrimaryKey x = Some (pk_names e)" using assms(1) by (simp add: sound_diff_def)
  have empty: "mt_pk s = {}" using final_pk_changed [OF assms(1) True] assms(3) by simp
  show ?thesis
  proof (cases "pk_names e = []")
    case True
    with new empty show ?thesis by (simp add: add_pk_ops_def adds_primary_key_def)
  next
    case False
    have "\<forall>n\<in>set (pk_names e). mt_cols s n \<noteq> None" using pk_names_sub [of e] assms(2) by blast
    with False True new empty show ?thesis by (simp add: add_pk_ops_def adds_primary_key_def)
  qed
next
  case False
  then show ?thesis using final_pk_unchanged [OF assms(1)] assms(3) by (simp add: add_pk_ops_def adds_primary_key_def)
qed

lemma exec_mysql_ops:
  assumes "sound_diff e d x" "distinct (map i_name (t_indexes d))" "distinct (map f_name (t_foreignKeys d))"
  shows "exec_ops (mysql_ops x) (mtable_of d)
    = Some \<lparr>mt_cols = final_cols d x, mt_pk = set (pk_names e),
            mt_indexes = kept_indexes d x @ d_addedIndexes x, mt_fks = kept_fks d x @ d_addedForeignKeys x\<rparr>"
proof -
  let ?s1 = "\<lparr>mt_cols = dropped_cols d x,
            mt_pk = (if drops_primary_key x then {} else set (pk_names d)) - c_name ` set (d_removedColumns x),
            mt_indexes = kept_indexes d x, mt_fks = kept_fks d x\<rparr>"
  let ?s2 = "?s1\<lparr>mt_cols := changed_cols d x, mt_pk := final_pk d x\<rparr>"
  let ?s3 = "?s2\<lparr>mt_pk := set (pk_names e)\<rparr>"
  let ?s4 = "?s3\<lparr>mt_cols := final_cols d x\<rparr>"
  let ?s5 = "?s4\<lparr>mt_indexes := kept_indexes d x @ d_addedIndexes x\<rparr>"
  have dom: "c_name ` set (t_columns e) \<subseteq> dom (changed_cols d x)" unfolding dom_changed_cols [OF assms(1)] by blast
  have 1: "exec_ops (drop_ops x) (mtable_of d) = Some ?s1" by (rule exec_drop_ops [OF assms])
  have 2: "exec_ops (change_ops x) ?s1 = Some ?s2" using exec_change_ops [OF assms(1), of ?s1] by (simp add: final_pk_def)
  have 3: "exec_ops (add_pk_ops x) ?s2 = Some ?s3" using exec_add_pk [OF assms(1), of ?s2] dom by simp
  have 4: "exec_ops (restore_ops x) ?s3 = Some ?s4" using exec_restore_ops [OF assms(1), of ?s3] dom by (simp add: final_cols_def)
  have 5: "exec_ops (map CreateIndex (d_addedIndexes x)) ?s4 = Some ?s5" by (simp add: exec_create_indexes)
  have 6: "exec_ops (map AddFK (d_addedForeignKeys x)) ?s5 = Some (?s5\<lparr>mt_fks := kept_fks d x @ d_addedForeignKeys x\<rparr>)"
    by (simp add: exec_add_fks)
  have "exec_ops (mysql_ops x) (mtable_of d) = Some (?s5\<lparr>mt_fks := kept_fks d x @ d_addedForeignKeys x\<rparr>)"
    unfolding mysql_ops_def
    by (intro exec_ops_seq [OF 1] exec_ops_seq [OF 2] exec_ops_seq [OF 3] exec_ops_seq [OF 4] exec_ops_seq [OF 5] 6)
  then show ?thesis by simp
qed

lemma sound_diff_migrates:
  assumes "sound_diff e d x" "distinct (map i_name (t_indexes d))" "distinct (map f_name (t_foreignKeys d))"
  shows "\<exists>s. exec_ops (mysql_ops x) (mtable_of d) = Some s \<and> migrated e d s"
proof -
  have keys: "d_removedIndexes x = missing_from indexKey (t_indexes d) (t_indexes e)"
    "d_addedIndexes x = missing_from indexKey (t_indexes e) (t_indexes d)"
    "d_removedForeignKeys x = missing_from fkKey (t_foreignKeys d) (t_foreignKeys e)"
    "d_addedForeignKeys x = missing_from fkKey (t_foreignKeys e) (t_foreignKeys d)"
    using assms(1) by (simp_all add: sound_diff_def)
  have "indexKey ` set (kept_indexes d x @ d_addedIndexes x) = indexKey ` set (t_indexes e)"
    "fkKey ` set (kept_fks d x @ d_addedForeignKeys x) = fkKey ` set (t_foreignKeys e)"
    unfolding kept_indexes_def kept_fks_def keys by (rule kept_keys [OF assms(2)] kept_keys [OF assms(3)])+
  then show ?thesis
    unfolding exec_mysql_ops [OF assms] migrated_def
    using dom_final_cols [OF assms(1)] entity_column_final [OF assms(1)] by simp
qed


definition renaming_entity :: table_schema where
  "renaming_entity = plain_table ''t'' [(basic_column ''key'' ''int'')\<lparr>c_isPrimaryKey := True, c_autoIncrement := True\<rparr>,
     basic_column ''name'' ''varchar'', basic_column ''age'' ''int'']"

definition renaming_db :: table_schema where
  "renaming_db = plain_table ''t'' [basic_column ''label'' ''varchar'',
     (basic_column ''id'' ''int'')\<lparr>c_isPrimaryKey := True, c_autoIncrement := True\<rparr>]"


section \<open>AUTO_INCREMENT needs its key\<close>

fun writes_auto_increment :: "mysql_op \<Rightarrow> bool" where
  "writes_auto_increment (ModifyColumn c p) = c_autoIncrement c"
| "writes_auto_increment (ChangeColumn n c p) = c_autoIncrement c"
| "writes_auto_increment (AddColumn c p) = c_autoIncrement c"
| "writes_auto_increment _ = False"

lemma strip_cols_no_auto_increment: "c \<in> set (strip_cols x) \<Longrightarrow> \<not> c_autoIncrement c"
  by (auto simp: strip_cols_def without_auto_increment_def)

text \<open>C5. While a table has no key, no statement gives it an AUTO_INCREMENT column (which MySQL refuses):
  when the primary key changes, every statement before \<open>ADD PRIMARY KEY\<close> writes its column without
  AUTO_INCREMENT, for any difference; the one exception is a move of an otherwise unchanged
  AUTO_INCREMENT column.\<close>

theorem no_auto_increment_without_key:
  assumes "d_primaryKeyChanged x" "op \<in> set (drop_ops x @ change_ops x)" "writes_auto_increment op"
  shows "\<exists>(r, c)\<in>set (pending_reorders x). op = ModifyColumn c (reorder_position r)"
proof -
  have drops: "\<not> writes_auto_increment o'" if "o' \<in> set (drop_ops x)" for o'
    using that strip_cols_no_auto_increment unfolding drop_ops_def strip_ops_modifies by (auto split: if_splits)
  then have "op \<in> set (change_ops x)" using assms(2,3) by auto
  moreover have "\<not> writes_auto_increment (rename_op x r)" for r
    using assms(1) by (simp add: rename_op_def defers_rename_def without_auto_increment_def)
  moreover have "\<not> writes_auto_increment (mod_op x m)" if "\<not> defers_mod x m" for m
    using that assms(1) by (simp add: mod_op_def defers_mod_def)
  moreover have "\<not> writes_auto_increment (add_op x c)" for c
    by (simp add: add_op_def without_auto_increment_def)
  ultimately show ?thesis using assms(3) by (auto simp: change_ops_def)
qed

definition keyed_entity :: table_schema where
  "keyed_entity = plain_table ''t'' [(basic_column ''id'' ''int'')\<lparr>c_isPrimaryKey := True, c_autoIncrement := True\<rparr>,
     (basic_column ''k'' ''int'')\<lparr>c_isPrimaryKey := True\<rparr>]"

definition moved_diff :: table_diff where
  "moved_diff = (empty_diff keyed_entity)\<lparr>d_primaryKeyChanged := True, d_oldPrimaryKey := Some [''id''],
     d_newPrimaryKey := Some [''id'', ''k''], d_reorderedColumns := [\<lparr>o_name = ''id'', o_after = None\<rparr>]\<rparr>"

theorem no_auto_increment_without_key_witness:
  "d_primaryKeyChanged moved_diff
   \<and> (let op = ModifyColumn (hd (t_columns keyed_entity)) First
      in op \<in> set (drop_ops moved_diff @ change_ops moved_diff) \<and> writes_auto_increment op
         \<and> (\<exists>(r, c)\<in>set (pending_reorders moved_diff). op = ModifyColumn c (reorder_position r)))"
proof -
  let ?op = "ModifyColumn (hd (t_columns keyed_entity)) First"
  have "pending_reorders moved_diff = [(\<lparr>o_name = ''id'', o_after = None\<rparr>, hd (t_columns keyed_entity))]"
    by (simp add: pending_reorders_def moved_diff_def handled_names_def renamed_names_def empty_diff_def keyed_entity_def
        plain_table_def basic_column_def map_filter_simps find_column_def)
  then have "?op \<in> set (drop_ops moved_diff @ change_ops moved_diff)"
    by (simp add: change_ops_def reorder_position_def)
  moreover have "d_primaryKeyChanged moved_diff" "writes_auto_increment ?op"
    by (simp_all add: moved_diff_def keyed_entity_def plain_table_def)
  ultimately show ?thesis using no_auto_increment_without_key [of moved_diff ?op] by (simp add: Let_def)
qed

end
