(* ===== verification/PostgresMigration.thy ===== *)
theory PostgresMigration
  imports DdlPostgres MigrationCorrect
begin

text \<open>
  What the operations emitted for a modified PostgreSQL table do, and that they reach the entity.
  \<open>exec_pg\<close> is the abstract specification of the statements: \<open>act\<close> is the effect of one action on one
  column, and a statement the server would refuse has the result \<open>None\<close>.  The nullability PostgreSQL
  forces on key columns and the columns of dropped indexes are not part of the specification.
\<close>

section \<open>The effect of the statements\<close>

record ptable =
  pt_cols :: "string \<rightharpoonup> column"
  pt_pk :: "string set"
  pt_pkName :: "string option"
  pt_indexes :: "index_schema list"
  pt_fks :: "foreign_key list"

definition set_type :: "column \<Rightarrow> column \<Rightarrow> column" where
  "set_type c b = b\<lparr>c_type := c_type c, c_size := c_size c, c_scale := c_scale c, c_unsigned := c_unsigned c,
     c_enumValues := c_enumValues c, c_enumTypeName := c_enumTypeName c\<rparr>"

text \<open>Dropping the default of a sequence-backed column ends its AUTO_INCREMENT; an identity column
  keeps it.\<close>

fun act :: "pg_action \<Rightarrow> column \<Rightarrow> column" where
  "act (SetType c cast) b = set_type c b"
| "act DropDefault b = b\<lparr>c_defaultValue := None, c_defaultExpression := None,
     c_autoIncrement := c_autoIncrement b \<and> c_isIdentity b\<rparr>"
| "act (SetDefaultExpr e) b = b\<lparr>c_defaultValue := None, c_defaultExpression := Some e,
     c_autoIncrement := c_autoIncrement b \<and> c_isIdentity b\<rparr>"
| "act (SetDefaultValue v) b = b\<lparr>c_defaultValue := Some v, c_defaultExpression := None,
     c_autoIncrement := c_autoIncrement b \<and> c_isIdentity b\<rparr>"
| "act (SetNullable x) b = b\<lparr>c_nullable := x\<rparr>"
| "act CreateSequence b = b"
| "act DefaultNextval b = b\<lparr>c_defaultValue := None, c_defaultExpression := None, c_autoIncrement := True\<rparr>"
| "act SyncSequence b = b"
| "act DropIdentity b = b\<lparr>c_autoIncrement := False, c_isIdentity := False\<rparr>"
| "act (DropSequence m) b = b"

text \<open>A new AUTO_INCREMENT column is \<open>SERIAL\<close> or \<open>BIGSERIAL\<close> whatever its other properties.\<close>

definition added_column :: "column \<Rightarrow> column" where
  "added_column c =
     (if c_autoIncrement c
      then (basic_column (c_name c) (if c_type c = ''bigint'' then ''bigint'' else ''int''))\<lparr>c_autoIncrement := True\<rparr>
      else c)"

fun exec_pg :: "pg_op \<Rightarrow> ptable \<Rightarrow> ptable option" where
  "exec_pg (PDropConstraint n) s =
     (if pt_pkName s = Some n then Some (s\<lparr>pt_pk := {}, pt_pkName := None\<rparr>)
      else if n \<in> f_name ` set (pt_fks s) then Some (s\<lparr>pt_fks := filter (\<lambda>f. f_name f \<noteq> n) (pt_fks s)\<rparr>)
      else None)"
| "exec_pg (PDropIndex n) s =
     (if n \<in> i_name ` set (pt_indexes s) then Some (s\<lparr>pt_indexes := filter (\<lambda>i. i_name i \<noteq> n) (pt_indexes s)\<rparr>) else None)"
| "exec_pg (PDropColumn n) s =
     (if pt_cols s n \<noteq> None
      then Some (if n \<in> pt_pk s then s\<lparr>pt_cols := (pt_cols s)(n := None), pt_pk := {}, pt_pkName := None\<rparr>
                 else s\<lparr>pt_cols := (pt_cols s)(n := None)\<rparr>)
      else None)"
| "exec_pg (PRenameColumn a b) s =
     (case pt_cols s a of
        Some c \<Rightarrow> if pt_cols s b = None
          then Some (s\<lparr>pt_cols := ((pt_cols s)(a := None))(b \<mapsto> c\<lparr>c_name := b\<rparr>),
                       pt_pk := (if a \<in> pt_pk s then insert b (pt_pk s - {a}) else pt_pk s)\<rparr>)
          else None
      | None \<Rightarrow> None)"
| "exec_pg (PAlterColumn n a) s =
     (case pt_cols s n of Some c \<Rightarrow> Some (s\<lparr>pt_cols := (pt_cols s)(n \<mapsto> act a c)\<rparr>) | None \<Rightarrow> None)"
| "exec_pg (PAddColumn c) s =
     (if pt_cols s (c_name c) = None then Some (s\<lparr>pt_cols := (pt_cols s)(c_name c \<mapsto> added_column c)\<rparr>) else None)"
| "exec_pg (PAddPK ns) s =
     (if pt_pk s = {} \<and> (\<forall>n\<in>set ns. pt_cols s n \<noteq> None) then Some (s\<lparr>pt_pk := set ns, pt_pkName := Some []\<rparr>) else None)"
| "exec_pg (PCreateIndex i) s = Some (s\<lparr>pt_indexes := pt_indexes s @ [i]\<rparr>)"
| "exec_pg (PAddFK f) s = Some (s\<lparr>pt_fks := pt_fks s @ [f]\<rparr>)"

fun exec_pgs :: "pg_op list \<Rightarrow> ptable \<Rightarrow> ptable option" where
  "exec_pgs [] s = Some s"
| "exec_pgs (op # ops) s = Option.bind (exec_pg op s) (exec_pgs ops)"

lemma exec_pgs_append: "exec_pgs (xs @ ys) s = Option.bind (exec_pgs xs s) (exec_pgs ys)"
proof (induction xs arbitrary: s)
  case (Cons x xs)
  then show ?case by (cases "exec_pg x s") auto
qed simp

lemma exec_pgs_seq: "exec_pgs xs s = Some t \<Longrightarrow> exec_pgs ys t = r \<Longrightarrow> exec_pgs (xs @ ys) s = r"
  by (simp add: exec_pgs_append)

definition pk_constraint_name :: "table_schema \<Rightarrow> string" where
  "pk_constraint_name t = nullish (t_primaryKeyConstraintName t) (t_name t @ ''_pkey'')"

definition ptable_of :: "table_schema \<Rightarrow> ptable" where
  "ptable_of t = \<lparr>pt_cols = (\<lambda>n. find_column n (t_columns t)), pt_pk = set (pk_names t),
     pt_pkName = (if pk_names t = [] then None else Some (pk_constraint_name t)),
     pt_indexes = t_indexes t, pt_fks = t_foreignKeys t\<rparr>"

section \<open>Runs of one kind of operation\<close>

lemma exec_pg_drop_fks:
  fixes fs :: "foreign_key list"
  assumes "distinct (map f_name fs)" "f_name ` set fs \<subseteq> f_name ` set (pt_fks s)" "\<forall>n. pt_pkName s = Some n \<longrightarrow> n \<notin> f_name ` set fs"
  shows "exec_pgs (map (\<lambda>f. PDropConstraint (f_name f)) fs) s
    = Some (s\<lparr>pt_fks := filter (\<lambda>f. f_name f \<notin> f_name ` set fs) (pt_fks s)\<rparr>)"
  using assms
proof (induction fs arbitrary: s)
  case (Cons f fs)
  let ?s = "s\<lparr>pt_fks := filter (\<lambda>g. f_name g \<noteq> f_name f) (pt_fks s)\<rparr>"
  have "f_name ` set fs \<subseteq> f_name ` set (pt_fks ?s)"
    using names_left [of f_name f fs "pt_fks s"] Cons.prems by simp
  with Cons have "exec_pgs (map (\<lambda>f. PDropConstraint (f_name f)) fs) ?s
      = Some (?s\<lparr>pt_fks := filter (\<lambda>f. f_name f \<notin> f_name ` set fs) (pt_fks ?s)\<rparr>)" by simp
  with Cons.prems(2,3) show ?case by (auto simp: conj_commute)
qed simp

lemma exec_pg_drop_indexes:
  fixes "is" :: "index_schema list"
  assumes "distinct (map i_name is)" "i_name ` set is \<subseteq> i_name ` set (pt_indexes s)"
  shows "exec_pgs (map (\<lambda>i. PDropIndex (i_name i)) is) s
    = Some (s\<lparr>pt_indexes := filter (\<lambda>i. i_name i \<notin> i_name ` set is) (pt_indexes s)\<rparr>)"
  using assms
proof (induction "is" arbitrary: s)
  case (Cons i "is")
  let ?s = "s\<lparr>pt_indexes := filter (\<lambda>g. i_name g \<noteq> i_name i) (pt_indexes s)\<rparr>"
  have "i_name ` set is \<subseteq> i_name ` set (pt_indexes ?s)"
    using names_left [of i_name i "is" "pt_indexes s"] Cons.prems by simp
  with Cons have "exec_pgs (map (\<lambda>i. PDropIndex (i_name i)) is) ?s
      = Some (?s\<lparr>pt_indexes := filter (\<lambda>i. i_name i \<notin> i_name ` set is) (pt_indexes ?s)\<rparr>)" by simp
  with Cons.prems(2) show ?case by (simp add: conj_commute)
qed simp

lemma exec_pg_drop_columns:
  fixes cs :: "column list"
  assumes "distinct (map c_name cs)" "c_name ` set cs \<subseteq> dom (pt_cols s)" "c_name ` set cs \<inter> pt_pk s = {}"
  shows "exec_pgs (map (\<lambda>c. PDropColumn (c_name c)) cs) s
    = Some (s\<lparr>pt_cols := (\<lambda>n. if n \<in> c_name ` set cs then None else pt_cols s n)\<rparr>)"
  using assms
proof (induction cs arbitrary: s)
  case (Cons c cs)
  let ?s = "s\<lparr>pt_cols := (pt_cols s)(c_name c := None)\<rparr>"
  have sub: "c_name ` set cs \<subseteq> dom (pt_cols ?s)"
    using names_without [of "map c_name cs" "dom (pt_cols s)" "c_name c"] Cons.prems by simp
  have dist: "distinct (map c_name cs)" "c_name ` set cs \<inter> pt_pk ?s = {}" using Cons.prems(1,3) by auto
  have cols: "(\<lambda>n. if n \<in> c_name ` set cs then None else pt_cols ?s n)
      = (\<lambda>n. if n \<in> c_name ` set (c # cs) then None else pt_cols s n)"
    by (rule ext) simp
  have rest: "exec_pgs (map (\<lambda>c. PDropColumn (c_name c)) cs) ?s
    = Some (?s\<lparr>pt_cols := (\<lambda>n. if n \<in> c_name ` set (c # cs) then None else pt_cols s n)\<rparr>)"
    using Cons.IH [OF dist(1) sub dist(2)] unfolding cols .
  have "exec_pg (PDropColumn (c_name c)) s = Some ?s" using Cons.prems by auto
  with rest show ?case by simp
qed simp

lemma exec_pg_create_indexes: "exec_pgs (map PCreateIndex is) s = Some (s\<lparr>pt_indexes := pt_indexes s @ is\<rparr>)"
  by (induction "is" arbitrary: s) auto

lemma exec_pg_add_fks: "exec_pgs (map PAddFK fs) s = Some (s\<lparr>pt_fks := pt_fks s @ fs\<rparr>)"
  by (induction fs arbitrary: s) auto

lemma exec_pg_adds:
  assumes "distinct (map c_name cs)" "c_name ` set cs \<inter> dom (pt_cols s) = {}"
  shows "exec_pgs (map PAddColumn cs) s = Some (s\<lparr>pt_cols := write_cols (map added_column cs) (pt_cols s)\<rparr>)"
  using assms
proof (induction cs arbitrary: s)
  case (Cons c cs)
  have name: "c_name (added_column c) = c_name c" by (simp add: added_column_def basic_column_def)
  let ?s = "s\<lparr>pt_cols := (pt_cols s)(c_name c \<mapsto> added_column c)\<rparr>"
  have "c_name ` set cs \<inter> dom (pt_cols ?s) = {}" using Cons.prems by auto
  with Cons have "exec_pgs (map PAddColumn cs) ?s = Some (?s\<lparr>pt_cols := write_cols (map added_column cs) (pt_cols ?s)\<rparr>)" by simp
  moreover have "exec_pg (PAddColumn c) s = Some ?s" using Cons.prems(2) by auto
  ultimately show ?case using name by simp
qed simp

subsection \<open>Renames\<close>

fun rename_cols :: "(string \<times> string) list \<Rightarrow> (string \<rightharpoonup> column) \<Rightarrow> (string \<rightharpoonup> column)" where
  "rename_cols [] m = m"
| "rename_cols ((a, b) # rs) m = rename_cols rs ((m(a := None))(b := map_option (\<lambda>c. c\<lparr>c_name := b\<rparr>) (m a)))"

lemma insert_disjointD: "insert a F \<inter> insert b S = {} \<Longrightarrow> F \<inter> S = {} \<and> a \<notin> S \<and> b \<notin> F \<and> a \<noteq> b"
  by blast

lemma insert_subsetD: "insert a F \<subseteq> D \<Longrightarrow> a \<notin> F \<Longrightarrow> a \<in> D \<and> F \<subseteq> insert b (D - {a})"
  by blast

lemma rename_algebra: "a \<noteq> b \<Longrightarrow> b \<notin> F \<Longrightarrow> insert b (D - {a}) - F \<union> S = (D - insert a F) \<union> insert b S"
  by blast

lemma rename_cols_other: "n \<notin> fst ` set rs \<Longrightarrow> n \<notin> snd ` set rs \<Longrightarrow> rename_cols rs m n = m n"
  by (induction rs m rule: rename_cols.induct) auto

lemma rename_cols_target:
  assumes "distinct (map fst rs)" "distinct (map snd rs)" "fst ` set rs \<inter> snd ` set rs = {}" "(a, b) \<in> set rs"
  shows "rename_cols rs m b = map_option (\<lambda>c. c\<lparr>c_name := b\<rparr>) (m a)"
  using assms
proof (induction rs m rule: rename_cols.induct)
  case (2 a' b' rs m)
  let ?m = "(m(a' := None))(b' := map_option (\<lambda>c. c\<lparr>c_name := b'\<rparr>) (m a'))"
  have "insert a' (fst ` set rs) \<inter> insert b' (snd ` set rs) = {}" using "2.prems"(3) by simp
  note sets = insert_disjointD [OF this]
  have dist: "distinct (map fst rs)" "distinct (map snd rs)" "a' \<notin> fst ` set rs" "b' \<notin> snd ` set rs"
    using "2.prems"(1,2) by simp_all
  show ?case
  proof (cases "(a, b) \<in> set rs")
    case True
    then have mem: "a \<in> fst ` set rs" by force
    have "rename_cols rs ?m b = map_option (\<lambda>c. c\<lparr>c_name := b\<rparr>) (?m a)"
      using "2.IH" [OF dist(1,2) _ True] sets by blast
    moreover have "a \<noteq> a'" "a \<noteq> b'" using mem dist(3) sets by blast+
    ultimately show ?thesis by simp
  next
    case False
    then have eq: "a' = a" "b' = b" using "2.prems"(4) by auto
    then have "b \<notin> fst ` set rs" "b \<notin> snd ` set rs" using sets dist(4) by blast+
    with eq show ?thesis by (simp add: rename_cols_other)
  qed
qed simp

lemma dom_rename_cols:
  assumes "fst ` set rs \<inter> snd ` set rs = {}" "distinct (map fst rs)" "fst ` set rs \<subseteq> dom m"
  shows "dom (rename_cols rs m) = (dom m - fst ` set rs) \<union> snd ` set rs"
  using assms
proof (induction rs m rule: rename_cols.induct)
  case (2 a b rs m)
  let ?m = "(m(a := None))(b := map_option (\<lambda>c. c\<lparr>c_name := b\<rparr>) (m a))"
  have "insert a (fst ` set rs) \<inter> insert b (snd ` set rs) = {}" "insert a (fst ` set rs) \<subseteq> dom m" "a \<notin> fst ` set rs"
    and dist: "distinct (map fst rs)"
    using "2.prems" by simp_all
  note sets = insert_disjointD [OF this(1)] insert_subsetD [OF this(2,3)]
  then have dom: "dom ?m = insert b (dom m - {a})" by auto
  have "dom (rename_cols rs ?m) = (dom ?m - fst ` set rs) \<union> snd ` set rs"
    by (rule "2.IH") (use sets dist in \<open>simp_all only: dom simp_thms\<close>)
  also have "\<dots> = (dom m - insert a (fst ` set rs)) \<union> insert b (snd ` set rs)"
    unfolding dom using sets by (intro rename_algebra) blast+
  finally show ?case by simp
qed simp

definition pk_triples :: "(string \<times> string) list \<Rightarrow> (string \<times> column \<times> position) list" where
  "pk_triples rs = map (\<lambda>(a, b). (a, basic_column b [], NoPosition)) rs"

lemma exec_pg_renames:
  assumes "distinct (map fst rs)" "distinct (map snd rs)" "fst ` set rs \<subseteq> dom (pt_cols s)" "snd ` set rs \<inter> dom (pt_cols s) = {}"
  shows "exec_pgs (map (\<lambda>(a, b). PRenameColumn a b) rs) s
    = Some (s\<lparr>pt_cols := rename_cols rs (pt_cols s), pt_pk := change_pk (pk_triples rs) (pt_pk s)\<rparr>)"
  using assms
proof (induction rs arbitrary: s)
  case Nil
  then show ?case by (simp add: pk_triples_def)
next
  case (Cons r rs)
  obtain a b where r: "r = (a, b)" by force
  obtain c where c: "pt_cols s a = Some c" using Cons.prems(3) r by auto
  let ?s = "s\<lparr>pt_cols := ((pt_cols s)(a := None))(b \<mapsto> c\<lparr>c_name := b\<rparr>),
              pt_pk := (if a \<in> pt_pk s then insert b (pt_pk s - {a}) else pt_pk s)\<rparr>"
  have first: "exec_pg (PRenameColumn a b) s = Some ?s" using Cons.prems(4) r c by auto
  have "exec_pgs (map (\<lambda>(a, b). PRenameColumn a b) rs) ?s
    = Some (?s\<lparr>pt_cols := rename_cols rs (pt_cols ?s), pt_pk := change_pk (pk_triples rs) (pt_pk ?s)\<rparr>)"
  proof (rule Cons.IH)
    show "distinct (map fst rs)" "distinct (map snd rs)" using Cons.prems(1,2) by simp_all
    show "fst ` set rs \<subseteq> dom (pt_cols ?s)" using Cons.prems(1,3) r by auto
    show "snd ` set rs \<inter> dom (pt_cols ?s) = {}" using Cons.prems(2,4) r by auto
  qed
  with first r c show ?case by (simp add: pk_triples_def basic_column_def)
qed

subsection \<open>Actions on columns\<close>

fun act_list :: "pg_action list \<Rightarrow> column \<Rightarrow> column" where
  "act_list [] b = b"
| "act_list (a # as) b = act_list as (act a b)"

lemma act_list_append: "act_list (xs @ ys) b = act_list ys (act_list xs b)"
  by (induction xs arbitrary: b) auto

definition alter_cols :: "(column_modification \<Rightarrow> pg_action list) \<Rightarrow> column_modification list \<Rightarrow> (string \<rightharpoonup> column) \<Rightarrow> (string \<rightharpoonup> column)" where
  "alter_cols f ms m = (\<lambda>n. case find (\<lambda>x. m_name x = n) ms of
     Some x \<Rightarrow> map_option (act_list (f x)) (m n) | None \<Rightarrow> m n)"

lemma exec_pg_actions:
  assumes "pt_cols s n = Some c"
  shows "exec_pgs (map (PAlterColumn n) as) s = Some (s\<lparr>pt_cols := (pt_cols s)(n \<mapsto> act_list as c)\<rparr>)"
  using assms
proof (induction as arbitrary: s c)
  case Nil
  then have "(pt_cols s)(n \<mapsto> c) = pt_cols s" by auto
  then show ?case by simp
next
  case (Cons a as)
  let ?s = "s\<lparr>pt_cols := (pt_cols s)(n \<mapsto> act a c)\<rparr>"
  have "exec_pgs (map (PAlterColumn n) as) ?s = Some (?s\<lparr>pt_cols := (pt_cols ?s)(n \<mapsto> act_list as (act a c))\<rparr>)"
    by (rule Cons.IH) simp
  with Cons.prems show ?case by (simp add: fun_upd_def cong: if_cong)
qed

lemma exec_on_columns:
  assumes "distinct (map m_name ms)" "m_name ` set ms \<subseteq> dom (pt_cols s)"
  shows "exec_pgs (on_columns f ms) s = Some (s\<lparr>pt_cols := alter_cols f ms (pt_cols s)\<rparr>)"
  using assms
proof (induction ms arbitrary: s)
  case Nil
  then show ?case by (simp add: on_columns_def alter_cols_def)
next
  case (Cons x ms)
  obtain c where c: "pt_cols s (m_name x) = Some c" using Cons.prems(2) by auto
  let ?s = "s\<lparr>pt_cols := (pt_cols s)(m_name x \<mapsto> act_list (f x) c)\<rparr>"
  have first: "exec_pgs (map (PAlterColumn (m_name x)) (f x)) s = Some ?s" by (rule exec_pg_actions [of s, OF c])
  have "exec_pgs (on_columns f ms) ?s = Some (?s\<lparr>pt_cols := alter_cols f ms (pt_cols ?s)\<rparr>)"
    by (rule Cons.IH) (use Cons.prems in auto)
  moreover have "alter_cols f ms (pt_cols ?s) = alter_cols f (x # ms) (pt_cols s)"
  proof
    fix n
    have "find (\<lambda>y. m_name y = n) ms = None" if "n = m_name x"
      using Cons.prems(1) that by (auto simp: find_None_iff image_iff)
    then show "alter_cols f ms (pt_cols ?s) n = alter_cols f (x # ms) (pt_cols s) n"
      using c by (cases "find (\<lambda>y. m_name y = n) ms"; cases "n = m_name x") (auto simp: alter_cols_def)
  qed
  ultimately show ?case using first by (simp add: on_columns_def exec_pgs_append)
qed

lemma dom_alter_cols [simp]: "dom (alter_cols f ms m) = dom m"
  by (auto simp: alter_cols_def dom_def split: option.splits)

lemma alter_cols_comp: "alter_cols g ms (alter_cols f ms m) = alter_cols (\<lambda>x. f x @ g x) ms m"
proof (rule ext)
  fix n show "alter_cols g ms (alter_cols f ms m) n = alter_cols (\<lambda>x. f x @ g x) ms m n"
    by (cases "find (\<lambda>x. m_name x = n) ms"; cases "m n") (simp_all add: alter_cols_def act_list_append)
qed

definition mod_actions :: "column_modification \<Rightarrow> pg_action list" where
  "mod_actions m = (((type_actions m @ restore_actions m) @ nullable_actions m) @ default_actions m) @ autoincrement_actions m"

lemma exec_modifications:
  assumes "distinct (map m_name ms)" "m_name ` set ms \<subseteq> dom (pt_cols s)"
  shows "exec_pgs (on_columns type_actions ms @ on_columns restore_actions ms @ on_columns nullable_actions ms
      @ on_columns default_actions ms @ on_columns autoincrement_actions ms) s
    = Some (s\<lparr>pt_cols := alter_cols mod_actions ms (pt_cols s)\<rparr>)"
proof -
  have step: "exec_pgs (on_columns f ms) (s\<lparr>pt_cols := m\<rparr>) = Some (s\<lparr>pt_cols := alter_cols f ms m\<rparr>)" if "dom m = dom (pt_cols s)" for f m
    using exec_on_columns [OF assms(1), of "s\<lparr>pt_cols := m\<rparr>" f] assms(2) that by simp
  show ?thesis
    using step [of "pt_cols s" type_actions]
    by (simp add: exec_pgs_append step alter_cols_comp mod_actions_def [abs_def])
qed

section \<open>A modified column ends as the entity has it\<close>

lemma compareColumn_flags:
  assumes "compareColumn e d = Some m"
  shows "m_newColumn m = e" "m_oldColumn m = d" "m_name m = c_name e" "m_typeChanged m \<longleftrightarrow> \<not> typesMatch e d"
    "m_nullableChanged m \<longleftrightarrow> c_nullable e \<noteq> c_nullable d" "m_defaultChanged m \<longleftrightarrow> \<not> defaultsMatch e d"
    "m_autoIncrementChanged m \<longleftrightarrow> c_autoIncrement e \<noteq> c_autoIncrement d"
  using assms by (auto simp: compareColumn_def Let_def split: if_splits)

definition sets_type :: "pg_action \<Rightarrow> bool" where
  "sets_type a = (case a of SetType _ _ \<Rightarrow> True | _ \<Rightarrow> False)"

lemma type_key_act_list: "\<forall>a\<in>set as. \<not> sets_type a \<Longrightarrow> type_key (act_list as b) = type_key b"
proof (induction as arbitrary: b)
  case (Cons a as)
  have "type_key (act a b) = type_key b" using Cons.prems by (cases a) (auto simp: type_key_def sets_type_def)
  with Cons show ?case by simp
qed simp

definition sets_nullable :: "pg_action \<Rightarrow> bool" where
  "sets_nullable a = (case a of SetNullable _ \<Rightarrow> True | _ \<Rightarrow> False)"

lemma nullable_act_list: "\<forall>a\<in>set as. \<not> sets_nullable a \<Longrightarrow> c_nullable (act_list as b) = c_nullable b"
proof (induction as arbitrary: b)
  case (Cons a as)
  have "c_nullable (act a b) = c_nullable b" using Cons.prems by (cases a) (auto simp: set_type_def sets_nullable_def)
  with Cons show ?case by simp
qed simp

lemma on_update_act: "c_onUpdateExpression (act a b) = c_onUpdateExpression b"
  by (cases a) (auto simp: set_type_def)

lemma on_update_act_list: "c_onUpdateExpression (act_list as b) = c_onUpdateExpression b"
  by (induction as arbitrary: b) (auto simp: on_update_act)

definition default_state :: "column \<Rightarrow> js_value option \<times> string option \<times> bool \<times> bool" where
  "default_state b = (c_defaultValue b, c_defaultExpression b, c_autoIncrement b, c_isIdentity b)"

lemma default_state_type: "default_state (act (SetType c x) b) = default_state b"
  "default_state (act (SetNullable n) b) = default_state b"
  by (simp_all add: default_state_def set_type_def)

lemma default_state_nullable_actions: "default_state (act_list (nullable_actions m) b) = default_state b"
  by (simp add: nullable_actions_def default_state_def)

lemma mod_actions_type:
  assumes "compareColumn e d = Some m"
  shows "type_key (act_list (mod_actions m) (d\<lparr>c_name := k\<rparr>)) = type_key e"
proof -
  note f = compareColumn_flags [OF assms]
  have rest: "\<forall>a\<in>set (restore_actions m @ nullable_actions m @ default_actions m @ autoincrement_actions m). \<not> sets_type a"
    by (auto simp: restore_actions_def nullable_actions_def default_actions_def autoincrement_actions_def sets_type_def
        split: option.splits)
  have "mod_actions m = type_actions m @ (restore_actions m @ nullable_actions m @ default_actions m @ autoincrement_actions m)"
    by (simp add: mod_actions_def)
  then have "type_key (act_list (mod_actions m) (d\<lparr>c_name := k\<rparr>)) = type_key (act_list (type_actions m) (d\<lparr>c_name := k\<rparr>))"
    by (simp only: act_list_append type_key_act_list [OF rest, unfolded act_list_append])
  also have "\<dots> = type_key e"
    using f typesMatch_iff [of e d] by (auto simp: type_actions_def set_type_def type_key_def)
  finally show ?thesis .
qed

lemma mod_actions_nullable:
  assumes "compareColumn e d = Some m"
  shows "c_nullable (act_list (mod_actions m) (d\<lparr>c_name := k\<rparr>)) = c_nullable e"
proof -
  note f = compareColumn_flags [OF assms]
  have before: "\<forall>a\<in>set (type_actions m @ restore_actions m). \<not> sets_nullable a"
    and after: "\<forall>a\<in>set (default_actions m @ autoincrement_actions m). \<not> sets_nullable a"
    by (auto simp: type_actions_def restore_actions_def default_actions_def autoincrement_actions_def sets_nullable_def
        split: option.splits)
  have "mod_actions m = (type_actions m @ restore_actions m) @ nullable_actions m @ (default_actions m @ autoincrement_actions m)"
    by (simp add: mod_actions_def)
  then have "c_nullable (act_list (mod_actions m) (d\<lparr>c_name := k\<rparr>))
      = c_nullable (act_list (nullable_actions m) (act_list (type_actions m @ restore_actions m) (d\<lparr>c_name := k\<rparr>)))"
    using nullable_act_list [OF after] by (simp only: act_list_append)
  also have "\<dots> = c_nullable e"
    using f nullable_act_list [OF before, of "d\<lparr>c_name := k\<rparr>"] by (auto simp: nullable_actions_def)
  finally show ?thesis .
qed

lemma defaultsMatch_state:
  assumes "default_state b = default_state b'"
  shows "defaultsMatch a b = defaultsMatch a b'"
  using assms by (simp add: default_state_def defaultsMatch_def)

text \<open>The default after the type change: what was there, or what was put back.\<close>

lemma restored_default:
  assumes "compareColumn e d = Some m" "\<not> c_autoIncrement d" "\<not> c_autoIncrement e" "defaultsMatch e d" "\<not> c_isIdentity d"
  shows "defaultsMatch e (act_list (type_actions m @ restore_actions m) (d\<lparr>c_name := k\<rparr>))
    \<and> \<not> c_autoIncrement (act_list (type_actions m @ restore_actions m) (d\<lparr>c_name := k\<rparr>))"
proof -
  note f = compareColumn_flags [OF assms(1)]
  let ?b = "act_list (type_actions m @ restore_actions m) (d\<lparr>c_name := k\<rparr>)"
  show ?thesis
  proof (cases "m_typeChanged m \<and> to_enum m \<and> had_default m")
    case False
    then have "default_state ?b = default_state d"
      using f by (auto simp: type_actions_def restore_actions_def default_state_def set_type_def)
    then show ?thesis using defaultsMatch_state [of ?b d e] assms(2,4) by (simp add: default_state_def)
  next
    case True
    then have types: "type_actions m = [DropDefault, SetType e True]" using f by (simp add: type_actions_def)
    show ?thesis
    proof (cases "truthy_str (restoreExpr m)")
      case expr: True
      then have "restore_actions m = [SetDefaultExpr (the (restoreExpr m))]" using True by (simp add: restore_actions_def)
      then show ?thesis using types expr assms f
        by (cases "c_defaultExpression e")
          (auto simp: act_list_append set_type_def restoreExpr_def defaultsMatch_def split: option.splits if_splits)
    next
      case noexpr: False
      show ?thesis
      proof (cases "restoreVal m")
        case (Some v)
        then have "restore_actions m = [SetDefaultValue v]" using True noexpr by (simp add: restore_actions_def)
        then show ?thesis using types noexpr Some assms f
          by (cases "c_defaultExpression e"; cases "c_defaultValue e")
            (auto simp: act_list_append set_type_def restoreExpr_def restoreVal_def defaultsMatch_def split: option.splits if_splits)
      next
        case None
        then have "restore_actions m = []" using True noexpr by (simp add: restore_actions_def)
        then show ?thesis using types noexpr None assms f True
          by (cases "c_defaultExpression e"; cases "c_defaultValue e")
            (auto simp: act_list_append set_type_def restoreExpr_def restoreVal_def defaultsMatch_def had_default_def split: option.splits if_splits)
      qed
    qed
  qed
qed

definition pg_column_ok :: "column \<Rightarrow> bool" where
  "pg_column_ok d \<longleftrightarrow> (c_autoIncrement d \<longrightarrow> c_defaultValue d = None \<and> c_defaultExpression d = None)
     \<and> (c_isIdentity d \<longrightarrow> c_autoIncrement d)"

lemma mod_actions_default:
  fixes k
  assumes "compareColumn e d = Some m" "pg_column_ok d"
    and "c_autoIncrement d \<Longrightarrow> \<not> c_autoIncrement e \<Longrightarrow> c_defaultValue e = None \<and> c_defaultExpression e = None"
  defines "fin \<equiv> act_list (mod_actions m) (d\<lparr>c_name := k\<rparr>)"
  shows "defaultsMatch e fin \<and> c_autoIncrement fin = c_autoIncrement e"
proof -
  note f = compareColumn_flags [OF assms(1)]
  define b1 where "b1 = act_list (type_actions m @ restore_actions m) (d\<lparr>c_name := k\<rparr>)"
  define b2 where "b2 = act_list (nullable_actions m) b1"
  define b3 where "b3 = act_list (default_actions m) b2"
  have fin: "fin = act_list (autoincrement_actions m) b3"
    by (simp add: fin_def b1_def b2_def b3_def mod_actions_def act_list_append)
  have st2: "default_state b2 = default_state b1" unfolding b2_def by (rule default_state_nullable_actions)
  consider (new) "c_autoIncrement e" | (off) "\<not> c_autoIncrement e" "c_autoIncrement d" | (none) "\<not> c_autoIncrement e" "\<not> c_autoIncrement d"
    by blast
  then show ?thesis
  proof cases
    case new
    have "c_autoIncrement fin"
    proof (cases "c_autoIncrement d")
      case True
      then have nodef: "\<not> had_default m" using assms(2) f by (simp add: had_default_def pg_column_ok_def)
      have "b1 = (if m_typeChanged m then set_type e (d\<lparr>c_name := k\<rparr>) else d\<lparr>c_name := k\<rparr>)"
        using nodef f by (auto simp: b1_def type_actions_def restore_actions_def)
      then have "default_state b1 = default_state d" by (simp add: default_state_def set_type_def)
      moreover have "default_actions m = []" "autoincrement_actions m = []"
        using f new True by (auto simp: default_actions_def autoincrement_actions_def defaultsMatch_def)
      ultimately show ?thesis using st2 True by (simp add: fin b3_def default_state_def)
    next
      case False
      then have "autoincrement_actions m = [CreateSequence, DefaultNextval, SyncSequence]"
        using f new by (simp add: autoincrement_actions_def)
      then show ?thesis by (simp add: fin)
    qed
    with new show ?thesis by (simp add: defaultsMatch_def)
  next
    case off
    have dd: "c_defaultValue d = None" "c_defaultExpression d = None" using assms(2) off by (simp_all add: pg_column_ok_def)
    have ee: "c_defaultValue e = None" "c_defaultExpression e = None" using assms(3) off by simp_all
    have nodef: "\<not> had_default m" using dd f by (simp add: had_default_def)
    have "b1 = (if m_typeChanged m then set_type e (d\<lparr>c_name := k\<rparr>) else d\<lparr>c_name := k\<rparr>)"
      using nodef f by (auto simp: b1_def type_actions_def restore_actions_def)
    then have "default_state b1 = default_state d" by (simp add: default_state_def set_type_def)
    moreover have "default_actions m = []" using f off by (auto simp: default_actions_def defaultsMatch_def)
    ultimately have st3: "default_state b3 = default_state d" using st2 by (simp add: b3_def)
    have "autoincrement_actions m = (if c_isIdentity d then [DropIdentity] else [DropDefault, DropSequence m])"
      using f off by (simp add: autoincrement_actions_def)
    then have "\<not> c_autoIncrement fin" using st3 by (auto simp: fin default_state_def)
    with off ee show ?thesis by (simp add: defaultsMatch_def)
  next
    case none
    have ident: "\<not> c_isIdentity d" using assms(2) none by (simp add: pg_column_ok_def)
    have noai: "autoincrement_actions m = []" using f none by (simp add: autoincrement_actions_def)
    show ?thesis
    proof (cases "m_defaultChanged m")
      case False
      then have "default_actions m = []" by (simp add: default_actions_def)
      moreover have "defaultsMatch e d" using False f by simp
      moreover note restored_default [OF assms(1) none(2,1) this ident, of k, folded b1_def]
      ultimately show ?thesis
        using st2 defaultsMatch_state [OF st2, of e] none(1) noai by (simp add: fin b3_def default_state_def)
    next
      case True
      have b1: "\<not> c_autoIncrement b1"
        using none(2) ident f by (auto simp: b1_def act_list_append type_actions_def restore_actions_def set_type_def split: option.split)
      then have b2: "\<not> c_autoIncrement b2" using st2 by (simp add: default_state_def)
      have "\<not> defaultsMatch e d" using True f by simp
      then have has: "c_defaultValue e \<noteq> None \<or> c_defaultExpression e \<noteq> None"
        by (rule contrapos_np) (simp add: defaultsMatch_def)
      show ?thesis
      proof (cases "truthy_str (c_defaultExpression e)")
        case expr: True
        then have "b3 = act (SetDefaultExpr (the (c_defaultExpression e))) b2" using True f by (simp add: b3_def default_actions_def)
        then show ?thesis using expr none(1) b2 noai
          by (cases "c_defaultExpression e") (auto simp: fin defaultsMatch_def)
      next
        case noexpr: False
        then have "b3 = act (case c_defaultValue e of Some v \<Rightarrow> SetDefaultValue v | None \<Rightarrow> DropDefault) b2"
          using True f by (simp add: b3_def default_actions_def)
        then show ?thesis using noexpr none(1) b2 noai has
          by (cases "c_defaultValue e"; cases "c_defaultExpression e") (auto simp: fin defaultsMatch_def)
      qed
    qed
  qed
qed

lemma mod_actions_agree:
  assumes "compareColumn e d = Some m" "pg_column_ok d"
    and "c_autoIncrement d \<Longrightarrow> \<not> c_autoIncrement e \<Longrightarrow> c_defaultValue e = None \<and> c_defaultExpression e = None"
    and "nullish (c_onUpdateExpression e) [] = nullish (c_onUpdateExpression d) []"
  shows "columns_agree e (act_list (mod_actions m) (d\<lparr>c_name := k\<rparr>))"
  using mod_actions_type [OF assms(1)] mod_actions_nullable [OF assms(1)] mod_actions_default [OF assms(1-3)] assms(4)
  by (simp add: columns_agree_def on_update_act_list)

section \<open>The modifications a comparison reports\<close>

lemma distinct_map_map_filter:
  assumes "distinct (map h xs)" "\<And>x y. x \<in> set xs \<Longrightarrow> f x = Some y \<Longrightarrow> k y = h x"
  shows "distinct (map k (List.map_filter f xs))" "k ` set (List.map_filter f xs) \<subseteq> h ` set xs"
proof -
  show sub: "k ` set (List.map_filter f xs) \<subseteq> h ` set xs"
    using assms(2) by (auto simp: in_map_filter)
  have names: "k y \<in> h ` set zs" if "y \<in> set (List.map_filter f zs)" "set zs \<subseteq> set xs" for y zs
    using that assms(2) by (auto simp: in_map_filter)
  have "distinct (map k (List.map_filter f zs))" if "set zs \<subseteq> set xs" "distinct (map h zs)" for zs
    using that
  proof (induction zs)
    case (Cons z zs)
    then have IH: "distinct (map k (List.map_filter f zs))" by simp
    show ?case
    proof (cases "f z")
      case None
      with IH show ?thesis by (simp add: map_filter_simps)
    next
      case (Some y)
      have "k y = h z" using assms(2) Some Cons.prems(1) by simp
      moreover have "h z \<notin> h ` set zs" using Cons.prems(2) by simp
      moreover have "k ` set (List.map_filter f zs) \<subseteq> h ` set zs" using names Cons.prems(1) by fastforce
      ultimately have "k y \<notin> k ` set (List.map_filter f zs)" by (metis subsetD)
      with IH Some show ?thesis by (simp add: map_filter_simps)
    qed
  qed (simp add: map_filter_simps)
  with assms(1) show "distinct (map k (List.map_filter f xs))" by simp
qed

text \<open>A modification is the comparison of a column with the table's column of its name, or of a renamed
  column with the column it was renamed from.\<close>

lemma modified_source:
  assumes "sound_diff e d x" "m \<in> set (d_modifiedColumns x)"
  obtains (kept) c dc where "c \<in> set (t_columns e)" "dc \<in> set (t_columns d)" "c_name dc = c_name c"
      "compareColumn c dc = Some m" "m_name m = c_name c"
  | (renamed) r dc where "r \<in> set (d_renamedColumns x)" "dc \<in> set (t_columns d)" "c_name dc = r_from r"
      "compareColumn (r_column r) dc = Some m" "m_name m = r_to r"
proof -
  have wf: "distinct (map c_name (t_columns e))" and mods: "d_modifiedColumns x = modified_columns e d (d_renamedColumns x)"
    and rs: "\<forall>r\<in>set (d_renamedColumns x). r_column r \<in> set (t_columns e) \<and> r_to r = c_name (r_column r)"
    using assms(1) by (simp_all add: sound_diff_def)
  have "(\<exists>c\<in>set (t_columns e). \<exists>dc. jget (col_map (t_columns d)) (c_name c) = Some dc \<and> compareColumn c dc = Some m)
      \<or> (\<exists>r\<in>set (d_renamedColumns x). \<exists>dc. jget (col_map (t_columns d)) (r_from r) = Some dc \<and> compareColumn (r_column r) dc = Some m)"
    using assms(2) wf unfolding mods
    by (auto simp: modified_columns_def Let_def in_map_filter col_map_distinct split: option.splits)
  then show thesis
  proof (elim disjE bexE exE conjE)
    fix c dc assume c: "c \<in> set (t_columns e)" "jget (col_map (t_columns d)) (c_name c) = Some dc" "compareColumn c dc = Some m"
    then have "dc \<in> set (t_columns d)" "c_name dc = c_name c" using jget_col_map_Some by blast+
    with c kept compareColumn_flags(3) [OF c(3)] show thesis by blast
  next
    fix r dc assume r: "r \<in> set (d_renamedColumns x)" "jget (col_map (t_columns d)) (r_from r) = Some dc" "compareColumn (r_column r) dc = Some m"
    then have "dc \<in> set (t_columns d)" "c_name dc = r_from r" using jget_col_map_Some by blast+
    moreover have "m_name m = r_to r" using compareColumn_flags(3) [OF r(3)] rs r(1) by simp
    ultimately show thesis using r renamed by blast
  qed
qed

lemma modified_names_distinct:
  assumes "sound_diff e d x"
  shows "distinct (map m_name (d_modifiedColumns x))"
proof -
  let ?cmp = "\<lambda>name col. case jget (col_map (t_columns d)) name of None \<Rightarrow> None | Some dbCol \<Rightarrow> compareColumn col dbCol"
  let ?A = "List.map_filter (\<lambda>(name, col). ?cmp name col) (col_map (t_columns e))"
  let ?B = "List.map_filter (\<lambda>r. ?cmp (r_from r) (r_column r)) (d_renamedColumns x)"
  have wf: "distinct (map c_name (t_columns e))" and mods: "d_modifiedColumns x = ?A @ ?B"
    and rs: "\<forall>r\<in>set (d_renamedColumns x). r_to r = c_name (r_column r)" "distinct (map r_to (d_renamedColumns x))"
    using assms by (simp_all add: sound_diff_def modified_columns_def Let_def)
  have A: "distinct (map m_name ?A)"
    by (rule distinct_map_map_filter [where h = fst])
      (use wf in \<open>auto simp: col_map_distinct comp_def dest!: compareColumn_flags(3) split: option.splits\<close>)
  have rename: "m_name m = r_to r" if "r \<in> set (d_renamedColumns x)" "?cmp (r_from r) (r_column r) = Some m" for r m
    using that rs by (auto dest!: compareColumn_flags(3) split: option.splits)
  have B: "distinct (map m_name ?B)" "m_name ` set ?B \<subseteq> r_to ` set (d_renamedColumns x)"
    by (rule distinct_map_map_filter(1) [OF rs(2) rename], assumption+)
      (rule distinct_map_map_filter(2) [OF rs(2) rename], assumption+)
  have "m_name m \<in> c_name ` set (t_columns d)" if m: "m \<in> set ?A" for m
  proof -
    obtain c dc where "jget (col_map (t_columns d)) (c_name c) = Some dc" "compareColumn c dc = Some m"
      using m wf by (auto simp: in_map_filter col_map_distinct split: option.splits)
    then show ?thesis using jget_col_map_Some compareColumn_flags(3) by (metis imageI)
  qed
  then have "m_name ` set ?A \<inter> r_to ` set (d_renamedColumns x) = {}"
    using sound_classes(4) [OF assms] by blast
  with A B show ?thesis unfolding mods map_append distinct_append set_map by blast
qed

section \<open>The phases\<close>

lemma removed_not_key:
  assumes "sound_diff e d x"
  shows "c_name ` set (d_removedColumns x) \<inter> (if drops_primary_key x then {} else set (pk_names d)) = {}"
proof (cases "d_primaryKeyChanged x")
  case True
  then show ?thesis using assms by (auto simp: drops_primary_key_def sound_diff_def)
next
  case False
  let ?rs = "d_renamedColumns x"
  have pk: "pk_names e = map (\<lambda>n. nullish (jget (rename_map ?rs) n) n) (pk_names d)"
    using assms False by (simp add: sound_diff_def mapped_db_pk_def)
  note cl = sound_classes [OF assms]
  have "n \<notin> c_name ` set (d_removedColumns x)" if n: "n \<in> set (pk_names d)" for n
  proof
    assume R: "n \<in> c_name ` set (d_removedColumns x)"
    then have "n \<notin> r_from ` set ?rs" using cl(3) by blast
    then have "nullish (jget (rename_map ?rs) n) n = n" using jget_rename_map_None [of ?rs n] by simp
    then have "n \<in> set (pk_names e)" using n unfolding pk set_map by force
    with R pk_names_sub [of e] cl(7) show False by blast
  qed
  then show ?thesis by auto
qed

definition pg_kept_cols :: "table_schema \<Rightarrow> table_diff \<Rightarrow> (string \<rightharpoonup> column)" where
  "pg_kept_cols d x = (\<lambda>n. if n \<in> c_name ` set (d_removedColumns x) then None else find_column n (t_columns d))"

lemma dom_pg_kept_cols: "dom (pg_kept_cols d x) = c_name ` set (t_columns d) - c_name ` set (d_removedColumns x)"
  unfolding pg_kept_cols_def dom_find_column [symmetric] by (auto simp: dom_def)

definition same_key_name :: "table_schema \<Rightarrow> table_diff \<Rightarrow> bool" where
  "same_key_name d x \<longleftrightarrow> (drops_primary_key x \<longrightarrow>
     nullish (d_oldPrimaryKeyConstraintName x) (d_tableName x @ ''_pkey'') = pk_constraint_name d)"

lemma exec_pg_drop_ops:
  assumes "sound_diff e d x" "distinct (map i_name (t_indexes d))" "distinct (map f_name (t_foreignKeys d))"
    and "pk_constraint_name d \<notin> f_name ` set (t_foreignKeys d)" "same_key_name d x"
  shows "exec_pgs (pg_drop_ops x) (ptable_of d)
    = Some \<lparr>pt_cols = pg_kept_cols d x, pt_pk = (if drops_primary_key x then {} else set (pk_names d)),
            pt_pkName = (if drops_primary_key x \<or> pk_names d = [] then None else Some (pk_constraint_name d)),
            pt_indexes = kept_indexes d x, pt_fks = kept_fks d x\<rparr>"
proof -
  let ?s1 = "(ptable_of d)\<lparr>pt_fks := kept_fks d x\<rparr>"
  let ?s2 = "?s1\<lparr>pt_indexes := kept_indexes d x\<rparr>"
  let ?s3 = "if drops_primary_key x then ?s2\<lparr>pt_pk := {}, pt_pkName := None\<rparr> else ?s2"
  have rem: "d_removedIndexes x = missing_from indexKey (t_indexes d) (t_indexes e)"
    "d_removedForeignKeys x = missing_from fkKey (t_foreignKeys d) (t_foreignKeys e)"
    using assms(1) by (simp_all add: sound_diff_def)
  have 1: "exec_pgs (map (\<lambda>f. PDropConstraint (f_name f)) (d_removedForeignKeys x)) (ptable_of d) = Some ?s1"
  proof -
    have "f_name ` set (d_removedForeignKeys x) \<subseteq> f_name ` set (t_foreignKeys d)" "distinct (map f_name (d_removedForeignKeys x))"
      using missing_names [OF assms(3)] rem by simp_all
    moreover from this(1) assms(4) have "pk_constraint_name d \<notin> f_name ` set (d_removedForeignKeys x)" by blast
    ultimately show ?thesis
      using exec_pg_drop_fks [of "d_removedForeignKeys x" "ptable_of d"] by (simp add: ptable_of_def kept_fks_def)
  qed
  have 2: "exec_pgs (map (\<lambda>i. PDropIndex (i_name i)) (d_removedIndexes x)) ?s1 = Some ?s2"
    using exec_pg_drop_indexes [of "d_removedIndexes x" ?s1] missing_names [OF assms(2)] rem
    by (simp add: ptable_of_def kept_indexes_def)
  have 3: "exec_pgs (if drops_primary_key x
        then [PDropConstraint (nullish (d_oldPrimaryKeyConstraintName x) (d_tableName x @ ''_pkey''))] else []) ?s2 = Some ?s3"
  proof (cases "drops_primary_key x")
    case True
    then have "pk_names d \<noteq> []" using assms(1) by (auto simp: drops_primary_key_def sound_diff_def)
    moreover have "nullish (d_oldPrimaryKeyConstraintName x) (d_tableName x @ ''_pkey'') = pk_constraint_name d"
      using True assms(5) by (simp add: same_key_name_def)
    ultimately show ?thesis using True by (simp only: if_True exec_pgs.simps) (simp add: ptable_of_def)
  qed simp
  have names: "distinct (map c_name (d_removedColumns x))" "c_name ` set (d_removedColumns x) \<subseteq> c_name ` set (t_columns d)"
    using assms(1) by (auto simp: sound_diff_def)
  have s3: "pt_cols ?s3 = (\<lambda>n. find_column n (t_columns d))" "pt_pk ?s3 = (if drops_primary_key x then {} else set (pk_names d))"
    by (simp_all add: ptable_of_def)
  have 4: "exec_pgs (map (\<lambda>c. PDropColumn (c_name c)) (d_removedColumns x)) ?s3
    = Some (?s3\<lparr>pt_cols := (\<lambda>n. if n \<in> c_name ` set (d_removedColumns x) then None else pt_cols ?s3 n)\<rparr>)"
    by (rule exec_pg_drop_columns [OF names(1)]) (use names(2) removed_not_key [OF assms(1)] in \<open>simp_all only: s3 dom_find_column\<close>)
  have "exec_pgs (pg_drop_ops x) (ptable_of d)
    = Some (?s3\<lparr>pt_cols := (\<lambda>n. if n \<in> c_name ` set (d_removedColumns x) then None else pt_cols ?s3 n)\<rparr>)"
    unfolding pg_drop_ops_def by (intro exec_pgs_seq [OF 1] exec_pgs_seq [OF 2] exec_pgs_seq [OF 3] 4)
  then show ?thesis unfolding s3 pg_kept_cols_def by (cases "drops_primary_key x") (simp_all add: ptable_of_def)
qed

definition rename_pairs :: "table_diff \<Rightarrow> (string \<times> string) list" where
  "rename_pairs x = map (\<lambda>r. (r_from r, r_to r)) (d_renamedColumns x)"

lemma rename_pairs_names:
  "map fst (rename_pairs x) = map r_from (d_renamedColumns x)" "map snd (rename_pairs x) = map r_to (d_renamedColumns x)"
  "fst ` set (rename_pairs x) = r_from ` set (d_renamedColumns x)" "snd ` set (rename_pairs x) = r_to ` set (d_renamedColumns x)"
  by (simp_all add: rename_pairs_def comp_def image_image)

lemma change_pk_names:
  "map (\<lambda>(f, c, p). (f, c_name c)) ts = map (\<lambda>(f, c, p). (f, c_name c)) ts' \<Longrightarrow> change_pk ts k = change_pk ts' k"
proof (induction ts arbitrary: ts' k)
  case (Cons t ts)
  obtain t' ts'' where ts': "ts' = t' # ts''" using Cons.prems by (cases ts') auto
  with Cons show ?case by (cases t; cases t') auto
qed simp

lemma pk_of_pairs:
  assumes "sound_diff e d x"
  shows "change_pk (pk_triples (rename_pairs x)) (if drops_primary_key x then {} else set (pk_names d)) = final_pk d x"
proof -
  have key: "(if drops_primary_key x then {} else set (pk_names d)) - c_name ` set (d_removedColumns x)
      = (if drops_primary_key x then {} else set (pk_names d))"
    using removed_not_key [OF assms] unfolding Int_commute [of "c_name ` set (d_removedColumns x)"] by (rule Diff_triv)
  have names: "map (\<lambda>(f, c, p). (f, c_name c)) (pk_triples (rename_pairs x)) = map (\<lambda>(f, c, p). (f, c_name c)) (rename_triples x)"
    using assms by (auto simp: pk_triples_def rename_pairs_def rename_triples_def basic_column_def sound_diff_def)
  show ?thesis unfolding final_pk_def key by (rule change_pk_names [OF names])
qed

definition pg_renamed_cols :: "table_schema \<Rightarrow> table_diff \<Rightarrow> (string \<rightharpoonup> column)" where
  "pg_renamed_cols d x = rename_cols (rename_pairs x) (pg_kept_cols d x)"

definition pg_changed_cols :: "table_schema \<Rightarrow> table_diff \<Rightarrow> (string \<rightharpoonup> column)" where
  "pg_changed_cols d x = alter_cols mod_actions (d_modifiedColumns x) (pg_renamed_cols d x)"

definition pg_final_cols :: "table_schema \<Rightarrow> table_diff \<Rightarrow> (string \<rightharpoonup> column)" where
  "pg_final_cols d x = write_cols (map added_column (d_addedColumns x)) (pg_changed_cols d x)"

lemma rename_pairs_ok:
  assumes "sound_diff e d x"
  shows "distinct (map fst (rename_pairs x))" "distinct (map snd (rename_pairs x))"
    and "fst ` set (rename_pairs x) \<inter> snd ` set (rename_pairs x) = {}"
    and "fst ` set (rename_pairs x) \<subseteq> dom (pg_kept_cols d x)" "snd ` set (rename_pairs x) \<inter> dom (pg_kept_cols d x) = {}"
proof -
  note cl = sound_classes [OF assms]
  show "distinct (map fst (rename_pairs x))" "distinct (map snd (rename_pairs x))"
    unfolding rename_pairs_names using assms by (simp_all add: sound_diff_def)
  show "fst ` set (rename_pairs x) \<inter> snd ` set (rename_pairs x) = {}"
    unfolding rename_pairs_names using cl(1,4) by blast
  show "fst ` set (rename_pairs x) \<subseteq> dom (pg_kept_cols d x)" "snd ` set (rename_pairs x) \<inter> dom (pg_kept_cols d x) = {}"
    unfolding rename_pairs_names dom_pg_kept_cols using cl(1,3,4) by blast+
qed

lemma dom_pg_renamed_cols:
  assumes "sound_diff e d x"
  shows "dom (pg_renamed_cols d x) = c_name ` set (t_columns d) - c_name ` set (d_removedColumns x)
    - r_from ` set (d_renamedColumns x) \<union> r_to ` set (d_renamedColumns x)"
  unfolding pg_renamed_cols_def dom_rename_cols [OF rename_pairs_ok(3,1,4) [OF assms]] dom_pg_kept_cols rename_pairs_names ..

lemma modified_names_present:
  assumes "sound_diff e d x"
  shows "m_name ` set (d_modifiedColumns x) \<subseteq> dom (pg_renamed_cols d x)"
proof
  fix n assume "n \<in> m_name ` set (d_modifiedColumns x)"
  then obtain m where m: "m \<in> set (d_modifiedColumns x)" "n = m_name m" by blast
  note cl = sound_classes [OF assms]
  show "n \<in> dom (pg_renamed_cols d x)"
  proof (cases rule: modified_source [OF assms m(1)])
    case (1 c dc)
    then have "n \<in> c_name ` set (t_columns e)" "n \<in> c_name ` set (t_columns d)" using m(2) by (auto simp: rev_image_eqI)
    then show ?thesis unfolding dom_pg_renamed_cols [OF assms] using classes_shared [OF cl(2) cl(7)] by blast
  next
    case (2 r dc)
    then show ?thesis unfolding dom_pg_renamed_cols [OF assms] using m(2) by simp
  qed
qed

lemma added_column_name [simp]: "c_name (added_column c) = c_name c"
  by (simp add: added_column_def basic_column_def)

lemma exec_pg_ops:
  assumes "sound_diff e d x" "distinct (map i_name (t_indexes d))" "distinct (map f_name (t_foreignKeys d))"
    and "pk_constraint_name d \<notin> f_name ` set (t_foreignKeys d)" "same_key_name d x"
  shows "\<exists>s. exec_pgs (pg_ops x) (ptable_of d) = Some s \<and> pt_cols s = pg_final_cols d x \<and> pt_pk s = set (pk_names e)
    \<and> pt_indexes s = kept_indexes d x @ d_addedIndexes x \<and> pt_fks s = kept_fks d x @ d_addedForeignKeys x"
proof -
  let ?pk = "if drops_primary_key x then {} else set (pk_names d)"
  let ?s1 = "\<lparr>pt_cols = pg_kept_cols d x, pt_pk = ?pk,
            pt_pkName = (if drops_primary_key x \<or> pk_names d = [] then None else Some (pk_constraint_name d)),
            pt_indexes = kept_indexes d x, pt_fks = kept_fks d x\<rparr>"
  let ?s2 = "?s1\<lparr>pt_cols := pg_renamed_cols d x, pt_pk := final_pk d x\<rparr>"
  let ?s3 = "?s2\<lparr>pt_cols := pg_changed_cols d x\<rparr>"
  let ?s4 = "?s2\<lparr>pt_cols := pg_final_cols d x\<rparr>"
  note cl = sound_classes [OF assms(1)]
  have 1: "exec_pgs (pg_drop_ops x) (ptable_of d) = Some ?s1" by (rule exec_pg_drop_ops [OF assms])
  have pairs: "map (\<lambda>r. PRenameColumn (r_from r) (r_to r)) (d_renamedColumns x) = map (\<lambda>(a, b). PRenameColumn a b) (rename_pairs x)"
    by (simp add: rename_pairs_def)
  have 2: "exec_pgs (map (\<lambda>r. PRenameColumn (r_from r) (r_to r)) (d_renamedColumns x)) ?s1 = Some ?s2"
    unfolding pairs pk_of_pairs [OF assms(1), symmetric] pg_renamed_cols_def
    using exec_pg_renames [of "rename_pairs x" ?s1] rename_pairs_ok [OF assms(1)] by simp
  have 3: "exec_pgs (on_columns type_actions (d_modifiedColumns x) @ on_columns restore_actions (d_modifiedColumns x)
      @ on_columns nullable_actions (d_modifiedColumns x) @ on_columns default_actions (d_modifiedColumns x)
      @ on_columns autoincrement_actions (d_modifiedColumns x)) ?s2 = Some ?s3"
    using exec_modifications [OF modified_names_distinct [OF assms(1)], of ?s2] modified_names_present [OF assms(1)]
    by (simp add: pg_changed_cols_def)
  have dom3: "dom (pg_changed_cols d x) = dom (pg_renamed_cols d x)" by (simp add: pg_changed_cols_def)
  have 4: "exec_pgs (map PAddColumn (d_addedColumns x)) ?s3 = Some ?s4"
  proof -
    have "distinct (map c_name (d_addedColumns x))" using assms(1) by (simp add: sound_diff_def)
    moreover have "c_name ` set (d_addedColumns x) \<inter> dom (pg_changed_cols d x) = {}"
      unfolding dom3 dom_pg_renamed_cols [OF assms(1)] by (rule classes_added [OF cl(6) cl(5)])
    ultimately show ?thesis using exec_pg_adds [of "d_addedColumns x" ?s3] by (simp add: pg_final_cols_def)
  qed
  have "\<exists>nm. exec_pgs (if adds_primary_key x then [PAddPK (the (d_newPrimaryKey x))] else []) ?s4
      = Some (?s4\<lparr>pt_pk := set (pk_names e), pt_pkName := nm\<rparr>)"
  proof (cases "d_primaryKeyChanged x")
    case True
    then have new: "d_newPrimaryKey x = Some (pk_names e)" using assms(1) by (simp add: sound_diff_def)
    have empty: "final_pk d x = {}" by (rule final_pk_changed [OF assms(1) True])
    have "c_name ` set (t_columns e) \<subseteq> dom (pg_final_cols d x)"
    proof -
      have "c_name ` set (t_columns e) - c_name ` set (d_addedColumns x) \<subseteq> dom (pg_changed_cols d x)"
        unfolding dom3 dom_pg_renamed_cols [OF assms(1)] by (rule classes_existing [OF cl(2) cl(7) cl(8)])
      moreover have "c_name ` set (map added_column (d_addedColumns x)) = c_name ` set (d_addedColumns x)"
        by (simp add: image_image)
      ultimately show ?thesis unfolding pg_final_cols_def dom_write_cols by blast
    qed
    then have "\<forall>n\<in>set (pk_names e). pg_final_cols d x n \<noteq> None" using pk_names_sub [of e] by blast
    then show ?thesis using new empty True by (cases "pk_names e = []") (auto simp: adds_primary_key_def intro: exI [of _ "Some []"])
  next
    case False
    then show ?thesis using final_pk_unchanged [OF assms(1) False]
      by (auto simp: adds_primary_key_def intro!: exI [of _ "pt_pkName ?s4"])
  qed
  then obtain nm where 5: "exec_pgs (if adds_primary_key x then [PAddPK (the (d_newPrimaryKey x))] else []) ?s4
      = Some (?s4\<lparr>pt_pk := set (pk_names e), pt_pkName := nm\<rparr>)" by blast
  let ?s5 = "?s4\<lparr>pt_pk := set (pk_names e), pt_pkName := nm\<rparr>"
  let ?s6 = "?s5\<lparr>pt_indexes := kept_indexes d x @ d_addedIndexes x\<rparr>"
  have 6: "exec_pgs (map PCreateIndex (d_addedIndexes x)) ?s5 = Some ?s6" by (simp add: exec_pg_create_indexes)
  have 7: "exec_pgs (map PAddFK (d_addedForeignKeys x)) ?s6 = Some (?s6\<lparr>pt_fks := kept_fks d x @ d_addedForeignKeys x\<rparr>)"
    by (simp add: exec_pg_add_fks)
  have chg: "exec_pgs (pg_change_ops x) ?s1 = Some ?s3" unfolding pg_change_ops_def by (rule exec_pgs_seq [OF 2 3])
  have add: "exec_pgs (pg_add_ops x) ?s3 = Some ?s6"
    unfolding pg_add_ops_def by (intro exec_pgs_seq [OF 4] exec_pgs_seq [OF 5] 6)
  have "exec_pgs (pg_ops x) (ptable_of d) = Some (?s6\<lparr>pt_fks := kept_fks d x @ d_addedForeignKeys x\<rparr>)"
    unfolding pg_ops_def by (intro exec_pgs_seq [OF 1] exec_pgs_seq [OF chg] exec_pgs_seq [OF add] 7)
  then show ?thesis by simp
qed

section \<open>The columns at the end\<close>

text \<open>What the theorem assumes of the two tables: what the readers guarantee (no \<open>ON UPDATE\<close> clause, an
  AUTO_INCREMENT column of the database has no other default), AUTO_INCREMENT only on \<open>NOT NULL\<close>
  integer columns, and no column that gains a default in the same migration that takes its
  AUTO_INCREMENT away (the generator drops that default again).\<close>

definition pg_ready :: "table_schema \<Rightarrow> table_schema \<Rightarrow> table_diff \<Rightarrow> bool" where
  "pg_ready e d x \<longleftrightarrow>
     (\<forall>c\<in>set (t_columns e) \<union> set (t_columns d). nullish (c_onUpdateExpression c) [] = [])
     \<and> (\<forall>c\<in>set (t_columns d). pg_column_ok c)
     \<and> (\<forall>c\<in>set (d_addedColumns x). c_autoIncrement c \<longrightarrow> type_key c = type_key (added_column c) \<and> \<not> c_nullable c)
     \<and> (\<forall>m\<in>set (d_modifiedColumns x). c_autoIncrement (m_oldColumn m) \<and> \<not> c_autoIncrement (m_newColumn m) \<longrightarrow>
          c_defaultValue (m_newColumn m) = None \<and> c_defaultExpression (m_newColumn m) = None)"

lemma added_column_agrees:
  assumes "c_autoIncrement c \<longrightarrow> type_key c = type_key (added_column c) \<and> \<not> c_nullable c" "nullish (c_onUpdateExpression c) [] = []"
  shows "columns_agree c (added_column c)"
proof (cases "c_autoIncrement c")
  case True
  then have "c_autoIncrement (added_column c)" "\<not> c_nullable (added_column c)" "c_onUpdateExpression (added_column c) = None"
    by (simp_all add: added_column_def basic_column_def)
  with True assms show ?thesis by (simp add: columns_agree_def defaultsMatch_def)
next
  case False
  then show ?thesis by (simp add: added_column_def)
qed

lemma columns_agree_rename: "columns_agree e d \<Longrightarrow> columns_agree e (d\<lparr>c_name := n\<rparr>)"
proof -
  have "default_state (d\<lparr>c_name := n\<rparr>) = default_state d" "type_key (d\<lparr>c_name := n\<rparr>) = type_key d"
    by (simp_all add: default_state_def type_key_def)
  then show "columns_agree e d \<Longrightarrow> columns_agree e (d\<lparr>c_name := n\<rparr>)"
    using defaultsMatch_state [of "d\<lparr>c_name := n\<rparr>" d e] by (simp add: columns_agree_def)
qed

lemma pg_final_changed: "n \<notin> c_name ` set (d_addedColumns x) \<Longrightarrow> pg_final_cols d x n = pg_changed_cols d x n"
  unfolding pg_final_cols_def by (rule write_cols_other) (simp add: image_image)

lemma pg_final_added:
  assumes "sound_diff e d x" "c \<in> set (d_addedColumns x)"
  shows "pg_final_cols d x (c_name c) = Some (added_column c)"
proof -
  have dist: "distinct (map c_name (d_addedColumns x))" using assms(1) by (simp add: sound_diff_def)
  have "\<forall>c\<in>set (map added_column (d_addedColumns x)). map_option added_column (find_column (c_name c) (d_addedColumns x)) = Some c"
    using find_column_member [OF dist] by simp
  from write_cols_by [of _ "\<lambda>n. map_option added_column (find_column n (d_addedColumns x))", OF this]
  show ?thesis unfolding pg_final_cols_def using find_column_member [OF dist assms(2)] assms(2) by (auto simp: image_image)
qed

lemma pg_renamed_target:
  assumes "sound_diff e d x" "r \<in> set (d_renamedColumns x)"
  shows "pg_renamed_cols d x (r_to r) = map_option (\<lambda>c. c\<lparr>c_name := r_to r\<rparr>) (find_column (r_from r) (t_columns d))"
proof -
  have "(r_from r, r_to r) \<in> set (rename_pairs x)" using assms(2) by (auto simp: rename_pairs_def)
  note target = rename_cols_target [OF rename_pairs_ok(1-3) [OF assms(1)] this, of "pg_kept_cols d x"]
  have "r_from r \<notin> c_name ` set (d_removedColumns x)" using sound_classes(3) [OF assms(1)] assms(2) by blast
  then have "pg_kept_cols d x (r_from r) = find_column (r_from r) (t_columns d)" by (simp only: pg_kept_cols_def if_False)
  with target show ?thesis by (simp only: pg_renamed_cols_def)
qed

lemma pg_renamed_other:
  assumes "sound_diff e d x" "n \<in> c_name ` set (t_columns e)" "n \<in> c_name ` set (t_columns d)"
  shows "pg_renamed_cols d x n = find_column n (t_columns d)"
proof -
  note cl = sound_classes [OF assms(1)]
  have "n \<notin> r_from ` set (d_renamedColumns x)" "n \<notin> r_to ` set (d_renamedColumns x)" "n \<notin> c_name ` set (d_removedColumns x)"
    using cl(2,4,7) assms(2,3) by blast+
  then show ?thesis
    unfolding pg_renamed_cols_def pg_kept_cols_def by (simp only: rename_cols_other rename_pairs_names not_False_eq_True if_False)
qed

lemma pg_changed_unmodified: "n \<notin> m_name ` set (d_modifiedColumns x) \<Longrightarrow> pg_changed_cols d x n = pg_renamed_cols d x n"
proof -
  assume n: "n \<notin> m_name ` set (d_modifiedColumns x)"
  have "find (\<lambda>m. m_name m = n) (d_modifiedColumns x) = None" using n by (auto simp: find_None_iff)
  then show ?thesis by (simp add: pg_changed_cols_def alter_cols_def)
qed

lemma find_by_name:
  "distinct (map f xs) \<Longrightarrow> x \<in> set xs \<Longrightarrow> find (\<lambda>y. f y = f x) xs = Some x"
proof (induction xs)
  case (Cons y ys)
  then show ?case by (cases "f y = f x") (auto simp: image_iff)
qed simp

lemma pg_changed_modified:
  assumes "sound_diff e d x" "m \<in> set (d_modifiedColumns x)"
  shows "pg_changed_cols d x (m_name m) = map_option (act_list (mod_actions m)) (pg_renamed_cols d x (m_name m))"
  unfolding pg_changed_cols_def alter_cols_def find_by_name [OF modified_names_distinct [OF assms(1)] assms(2)] by simp

lemma pg_entity_column_final:
  assumes "sound_diff e d x" "pg_ready e d x" "c \<in> set (t_columns e)"
  shows "\<exists>c'. pg_final_cols d x (c_name c) = Some c' \<and> columns_agree c c'"
proof -
  note cl = sound_classes [OF assms(1)]
  have dist: "distinct (map c_name (t_columns e))" "distinct (map c_name (t_columns d))" and wf: "wf_table e" "wf_table d"
    and mods: "d_modifiedColumns x = modified_columns e d (d_renamedColumns x)"
    and add: "set (d_addedColumns x) \<subseteq> set (t_columns e)"
    and rs: "\<forall>r\<in>set (d_renamedColumns x). r_column r \<in> set (t_columns e) \<and> r_to r = c_name (r_column r)"
    using assms(1) by (simp_all add: sound_diff_def wf_table_def)
  have upd: "\<forall>c\<in>set (t_columns e) \<union> set (t_columns d). nullish (c_onUpdateExpression c) [] = []"
    using assms(2) by (simp add: pg_ready_def)
  note same = distinct_names_inj [OF dist(1) assms(3)]
  show ?thesis
  proof (cases "c_name c \<in> c_name ` set (d_addedColumns x)")
    case True
    then obtain c' where c': "c' \<in> set (d_addedColumns x)" "c_name c' = c_name c" by (metis imageE)
    then have "c' = c" using same add by (metis subsetD)
    with c' pg_final_added [OF assms(1)] added_column_agrees [of c] assms(2,3) show ?thesis
      by (simp add: pg_ready_def)
  next
    case notadded: False
    note final = pg_final_changed [OF notadded, of d]
    show ?thesis
    proof (cases "c_name c \<in> m_name ` set (d_modifiedColumns x)")
      case True
      then obtain m where m: "m \<in> set (d_modifiedColumns x)" "m_name m = c_name c" by (metis imageE)
      have ready: "c_autoIncrement (m_oldColumn m) \<Longrightarrow> \<not> c_autoIncrement (m_newColumn m) \<Longrightarrow>
          c_defaultValue (m_newColumn m) = None \<and> c_defaultExpression (m_newColumn m) = None"
        using assms(2) m(1) by (simp add: pg_ready_def)
      note changed = pg_changed_modified [OF assms(1) m(1), unfolded m(2)]
      have agree: "columns_agree c (act_list (mod_actions m) (dc\<lparr>c_name := k\<rparr>))"
        if "compareColumn c dc = Some m" "dc \<in> set (t_columns d)" for dc k
        using mod_actions_agree [OF that(1)] assms(2) that compareColumn_flags(1,2) [OF that(1)] ready upd assms(3)
        by (simp add: pg_ready_def)
      show ?thesis
      proof (cases rule: modified_source [OF assms(1) m(1)])
        case (1 c2 dc)
        then have "c2 = c" using same m(2) by metis
        have n: "c_name c \<in> c_name ` set (t_columns e)" "c_name c \<in> c_name ` set (t_columns d)"
          using 1 m(2) assms(3) by (auto simp: rev_image_eqI)
        have "find_column (c_name c) (t_columns d) = Some dc" using find_column_member [OF dist(2) 1(2)] 1 m(2) by simp
        then have fin: "pg_final_cols d x (c_name c) = Some (act_list (mod_actions m) dc)"
          using final changed pg_renamed_other [OF assms(1) n] by simp
        have "dc\<lparr>c_name := c_name dc\<rparr> = dc" by simp
        then show ?thesis using fin agree [of dc "c_name dc"] 1(2,4) \<open>c2 = c\<close> by simp
      next
        case (2 r dc)
        then have "r_column r = c" using same rs m(2) by metis
        have "find_column (r_from r) (t_columns d) = Some dc" using find_column_member [OF dist(2) 2(2)] 2(3) by simp
        then have "pg_renamed_cols d x (c_name c) = Some (dc\<lparr>c_name := c_name c\<rparr>)"
          using pg_renamed_target [OF assms(1) 2(1)] 2(5) m(2) by simp
        then have "pg_final_cols d x (c_name c) = Some (act_list (mod_actions m) (dc\<lparr>c_name := c_name c\<rparr>))"
          using final changed by simp
        then show ?thesis using agree [of dc "c_name c"] 2(2,4) \<open>r_column r = c\<close> by simp
      qed
    next
      case unmodified: False
      note kept = pg_changed_unmodified [OF unmodified, of d]
      show ?thesis
      proof (cases "c_name c \<in> c_name ` set (t_columns d)")
        case True
        then obtain dc where dc: "dc \<in> set (t_columns d)" "c_name dc = c_name c" by (metis imageE)
        have "columns_agree c dc"
          using modified_complete [OF wf assms(3) dc, of "d_renamedColumns x"] unmodified unfolding mods by force
        moreover have "find_column (c_name c) (t_columns d) = Some dc" using find_column_member [OF dist(2) dc(1)] dc(2) by simp
        ultimately show ?thesis
          using final kept pg_renamed_other [OF assms(1) _ True] assms(3) by simp
      next
        case False
        then have "c_name c \<in> r_to ` set (d_renamedColumns x)" using cl(8) notadded assms(3) by blast
        then obtain r where r: "r \<in> set (d_renamedColumns x)" "r_to r = c_name c" by (metis imageE)
        then have col: "r_column r = c" using same rs by metis
        have "r_from r \<in> c_name ` set (t_columns d)" using cl(1) r(1) by blast
        then obtain dc where dc: "dc \<in> set (t_columns d)" "c_name dc = r_from r" by (metis imageE)
        have look: "jget (col_map (t_columns d)) (r_from r) = Some dc" using jget_col_map_member [OF dist(2) dc(1)] dc(2) by simp
        have "compareColumn c dc = None"
        proof (rule ccontr)
          assume "compareColumn c dc \<noteq> None"
          then obtain m where m: "compareColumn c dc = Some m" by blast
          then have "m \<in> set (modified_columns e d (d_renamedColumns x))"
            using r(1) col look by (auto simp: modified_columns_def Let_def in_map_filter intro!: bexI [of _ r])
          then show False using unmodified compareColumn_flags(3) [OF m] unfolding mods by (metis imageI)
        qed
        then have "columns_agree c (dc\<lparr>c_name := c_name c\<rparr>)" by (intro columns_agree_rename) (simp only: compareColumn_None_iff)
        moreover have "find_column (r_from r) (t_columns d) = Some dc" using find_column_member [OF dist(2) dc(1)] dc(2) by simp
        ultimately show ?thesis using final kept pg_renamed_target [OF assms(1) r(1)] r(2) by simp
      qed
    qed
  qed
qed

section \<open>The migration reaches the entity\<close>

definition pg_migrated :: "table_schema \<Rightarrow> table_schema \<Rightarrow> ptable \<Rightarrow> bool" where
  "pg_migrated e d s \<longleftrightarrow>
     dom (pt_cols s) = c_name ` set (t_columns e) \<union> (c_name ` set (t_columns d) \<inter> set (t_skippedColumns e))
     \<and> (\<forall>c\<in>set (t_columns e). \<exists>c'. pt_cols s (c_name c) = Some c' \<and> columns_agree c c')
     \<and> pt_pk s = set (pk_names e)
     \<and> indexKey ` set (pt_indexes s) = indexKey ` set (t_indexes e)
     \<and> fkKey ` set (pt_fks s) = fkKey ` set (t_foreignKeys e)"

lemma dom_pg_final_cols:
  assumes "sound_diff e d x"
  shows "dom (pg_final_cols d x) = c_name ` set (t_columns e) \<union> (c_name ` set (t_columns d) \<inter> set (t_skippedColumns e))"
proof -
  have R: "c_name ` set (d_removedColumns x) \<union> r_from ` set (d_renamedColumns x)
         = c_name ` set (t_columns d) - c_name ` set (t_columns e) - set (t_skippedColumns e)"
    and A: "c_name ` set (d_addedColumns x) \<union> r_to ` set (d_renamedColumns x) = c_name ` set (t_columns e) - c_name ` set (t_columns d)"
    using assms by (simp_all only: sound_diff_def)
  have names: "c_name ` set (map added_column (d_addedColumns x)) = c_name ` set (d_addedColumns x)"
    by (simp add: image_image)
  have algebra: "A \<union> (D - R - F \<union> T) = N \<union> (D \<inter> S)"
    if "A \<union> T = N - D" "R \<union> F = D - N - S" for A D R F T N S :: "string set"
    using that by blast
  show ?thesis
    unfolding pg_final_cols_def pg_changed_cols_def dom_write_cols names dom_alter_cols dom_pg_renamed_cols [OF assms]
    by (rule algebra [OF A R])
qed

lemma compareTable_key_name:
  assumes "t_name e = t_name d"
  shows "same_key_name d (compareTable_full ask ni dial i e d)"
  using assms
  by (auto simp: same_key_name_def drops_primary_key_def pk_constraint_name_def compareTable_full_def compareTable_pk_def
      compareTable_columns_def empty_diff_def compareIndexes_def compareForeignKeys_def Let_def split: prod.splits if_splits)


definition serial_entity :: table_schema where
  "serial_entity = plain_table ''t'' [(basic_column ''id'' ''int'')\<lparr>c_isPrimaryKey := True, c_autoIncrement := True\<rparr>,
     (basic_column ''name'' ''varchar'')\<lparr>c_nullable := True, c_defaultValue := Some (JStr ''x'')\<rparr>]"

definition serial_db :: table_schema where
  "serial_db = plain_table ''t'' [(basic_column ''id'' ''bigint'')\<lparr>c_isPrimaryKey := True\<rparr>,
     basic_column ''name'' ''varchar'', basic_column ''legacy'' ''text'']"


section \<open>A default that is lost\<close>

text \<open>A column that loses AUTO_INCREMENT and gains a default: the generated actions leave it without the
  default, so the next comparison finds a difference again.\<close>

definition counter_column :: column where
  "counter_column = (basic_column ''n'' ''int'')\<lparr>c_autoIncrement := True\<rparr>"

definition defaulted_column :: column where
  "defaulted_column = (basic_column ''n'' ''int'')\<lparr>c_defaultValue := Some (JStr ''5'')\<rparr>"

lemma default_lost_with_auto_increment:
  "(case compareColumn defaulted_column counter_column of
      Some m \<Rightarrow> \<not> columns_agree defaulted_column (act_list (mod_actions m) counter_column) | None \<Rightarrow> False)"
  by (simp add: compareColumn_def defaulted_column_def counter_column_def basic_column_def typesMatch_iff type_key_def
      defaultsMatch_def mod_actions_def type_actions_def restore_actions_def nullable_actions_def default_actions_def
      autoincrement_actions_def columns_agree_def Let_def)

end
