(* ===== verification/DdlGenerator.thy ===== *)
theory DdlGenerator
  imports DdlPostgres Comparator
begin

text \<open>
  \<open>generateDDL\<close> of \<open>src/src/database/migration/create/ddl-generator.ts\<close>: the statements for a whole
  schema difference.  The set \<open>globalEnumTypes\<close>, which the source updates while it emits statements,
  is threaded through the tables.  The properties are about the order of the statements and about the
  PostgreSQL enum types: each needed type is created exactly once, and a type that is still in use is
  never dropped.
\<close>

definition COMMENT_PREFIX :: string where
  "COMMENT_PREFIX = CHR 0x00 # ''comment:''"

definition createTable :: "table_schema \<Rightarrow> dialect \<Rightarrow> string option \<Rightarrow> string" where
  "createTable table d pgSchema = g_createTable (getGrammar d pgSchema) table"

section \<open>New tables\<close>

definition is_enum_column :: "column \<Rightarrow> bool" where
  "is_enum_column col \<longleftrightarrow> c_type col = ''enum'' \<and> truthy_str (c_enumTypeName col) \<and> c_enumValues col \<noteq> None"

fun new_table_enums :: "string option \<Rightarrow> column list \<Rightarrow> string list \<Rightarrow> string list \<times> string list" where
  "new_table_enums pgSchema [] seen = ([], seen)"
| "new_table_enums pgSchema (col # cols) seen =
     (if is_enum_column col \<and> the (c_enumTypeName col) \<notin> set seen
      then let (stmts, seen') = new_table_enums pgSchema cols (set_add (the (c_enumTypeName col)) seen)
           in (createEnumType (the (c_enumTypeName col)) (the (c_enumValues col)) pgSchema @ stmts, seen')
      else new_table_enums pgSchema cols seen)"

fun new_tables :: "dialect \<Rightarrow> string option \<Rightarrow> table_schema list \<Rightarrow> string list \<Rightarrow> string list \<times> string list" where
  "new_tables d pgSchema [] seen = ([], seen)"
| "new_tables d pgSchema (table # tables) seen =
     (let (enums, seen1) = (if d = Postgres then new_table_enums pgSchema (t_columns table) seen else ([], seen));
          (stmts, seen2) = new_tables d pgSchema tables seen1
      in ([COMMENT_PREFIX @ t_name table] @ enums @ [createTable table d pgSchema]
          @ map (\<lambda>idx. createIndex (t_name table) idx d pgSchema) (t_indexes table) @ stmts, seen2))"

definition deferredFKs :: "table_schema list \<Rightarrow> (string \<times> foreign_key) list" where
  "deferredFKs tables = concat (map (\<lambda>t. map (Pair (t_name t)) (t_foreignKeys t)) tables)"

section \<open>Modified enum types\<close>

text \<open>The first modification of each type, in order of appearance.\<close>

definition seenEnumMods :: "table_diff list \<Rightarrow> (string, enum_modification) jsmap" where
  "seenEnumMods diffs =
     fold (\<lambda>m acc. if jhas acc (em_typeName m) then acc else jset (em_typeName m) m acc)
       (concat (map d_modifiedEnumTypes diffs)) []"

definition drop_type :: "string option \<Rightarrow> string \<Rightarrow> string" where
  "drop_type pgSchema typeName = ''DROP TYPE IF EXISTS '' @ qType typeName pgSchema"

definition old_name :: "string \<Rightarrow> string" where
  "old_name typeName = typeName @ ''_old''"

definition enum_mod_stmts :: "string option \<Rightarrow> enum_modification \<Rightarrow> string list" where
  "enum_mod_stmts pgSchema m =
     (if em_removed m \<noteq> []
      then let vals = comma_sep (map (sqlString None) (em_newValues m)); typeRef = qType (em_typeName m) pgSchema
           in [drop_type pgSchema (old_name (em_typeName m)),
               ''ALTER TYPE '' @ typeRef @ '' RENAME TO '' @ q Postgres (old_name (em_typeName m)),
               ''CREATE TYPE '' @ typeRef @ '' AS ENUM ('' @ vals @ '')'']
      else map (\<lambda>v. ''ALTER TYPE '' @ qType (em_typeName m) pgSchema @ '' ADD VALUE '' @ sqlString None v) (em_added m))"

definition enum_mod_drops :: "string option \<Rightarrow> enum_modification list \<Rightarrow> string list" where
  "enum_mod_drops pgSchema ms =
     map (\<lambda>m. drop_type pgSchema (old_name (em_typeName m))) (filter (\<lambda>m. em_removed m \<noteq> []) ms)"

section \<open>Modified tables\<close>

definition generateTableDDL :: "table_diff \<Rightarrow> dialect \<Rightarrow> string option \<Rightarrow> string list \<Rightarrow> (sql_error, string list \<times> string list) result" where
  "generateTableDDL diff d pgSchema globalEnumTypes =
     (if d = MySQL then map_result (\<lambda>s. (s, globalEnumTypes)) (generateMySQLTableDDL diff)
      else generatePostgresTableDDL diff pgSchema globalEnumTypes)"

fun modified_tables :: "dialect \<Rightarrow> string option \<Rightarrow> table_diff list \<Rightarrow> string list \<Rightarrow> (sql_error, string list \<times> string list) result" where
  "modified_tables d pgSchema [] seen = Inr ([], seen)"
| "modified_tables d pgSchema (diff # diffs) seen =
     bind_result (generateTableDDL diff d pgSchema seen) (\<lambda>(stmts, seen1).
     map_result (\<lambda>(rest, seen2). ([COMMENT_PREFIX @ d_tableName diff] @ stmts @ rest, seen2))
       (modified_tables d pgSchema diffs seen1))"

section \<open>Removed tables\<close>

definition removed_table_fks :: "dialect \<Rightarrow> string option \<Rightarrow> table_schema list \<Rightarrow> string list" where
  "removed_table_fks d pgSchema tables =
     concat (map (\<lambda>t. map (\<lambda>fk. ''ALTER TABLE '' @ qTable d (t_name t) pgSchema
         @ (if d = MySQL then '' DROP FOREIGN KEY '' else '' DROP CONSTRAINT '') @ q d (f_name fk))
       (t_foreignKeys t)) tables)"

definition removed_table_drops :: "dialect \<Rightarrow> string option \<Rightarrow> table_schema list \<Rightarrow> string list" where
  "removed_table_drops d pgSchema tables =
     concat (map (\<lambda>t. [COMMENT_PREFIX @ t_name t, ''DROP TABLE '' @ qTable d (t_name t) pgSchema]) tables)"

section \<open>Orphaned enum types\<close>

definition orphan_drops :: "schema_diff \<Rightarrow> string list" where
  "orphan_drops diff =
     map (drop_type (s_pgSchema diff))
       (concat (map d_removedEnumTypes (s_modifiedTables diff))
        @ concat (map (\<lambda>t. List.map_filter (\<lambda>col. if c_type col = ''enum'' \<and> truthy_str (c_enumTypeName col)
              then c_enumTypeName col else None) (t_columns t)) (s_removedTables diff)))"

text \<open>\<open>seenDrops\<close> starts with the statements already scheduled; each further one is scheduled once.\<close>

fun schedule_drops :: "string list \<Rightarrow> string list \<Rightarrow> string list" where
  "schedule_drops scheduled [] = scheduled"
| "schedule_drops scheduled (s # ss) =
     (if s \<in> set scheduled then schedule_drops scheduled ss else schedule_drops (scheduled @ [s]) ss)"

definition enum_drops :: "schema_diff \<Rightarrow> enum_modification list \<Rightarrow> string list" where
  "enum_drops diff mods =
     filter (\<lambda>stmt. \<forall>typeName\<in>set (nullish (s_entityEnumTypes diff) []). stmt \<noteq> drop_type (s_pgSchema diff) typeName)
       (schedule_drops (enum_mod_drops (s_pgSchema diff) mods) (orphan_drops diff))"

section \<open>All statements\<close>

definition generateDDL :: "schema_diff \<Rightarrow> (sql_error, string list) result" where
  "generateDDL diff =
     (let d = s_dialect diff; pgSchema = s_pgSchema diff;
          (created, seen) = new_tables d pgSchema (s_addedTables diff) [];
          mods = (if d = Postgres then map snd (seenEnumMods (s_modifiedTables diff)) else []);
          enumMods = concat (map (enum_mod_stmts pgSchema) mods)
      in bind_result (modified_tables d pgSchema (s_modifiedTables diff) seen) (\<lambda>(modified, _).
         map_result (\<lambda>fks.
             created @ enumMods @ modified @ fks
             @ removed_table_fks d pgSchema (s_removedTables diff) @ removed_table_drops d pgSchema (s_removedTables diff)
             @ (if d = Postgres then enum_drops diff mods else []))
           (collect_results (\<lambda>(tableName, fk). addForeignKey tableName fk d pgSchema) (deferredFKs (s_addedTables diff)))))"

section \<open>Dropping enum types\<close>

lemma set_schedule_drops: "set (schedule_drops scheduled ss) = set scheduled \<union> set ss"
  by (induction scheduled ss rule: schedule_drops.induct) auto

lemma distinct_schedule_drops: "distinct scheduled \<Longrightarrow> distinct (schedule_drops scheduled ss)"
  by (induction scheduled ss rule: schedule_drops.induct) auto

lemma seenEnumMods_keys:
  "distinct (map fst (seenEnumMods diffs)) \<and> (\<forall>(n, m)\<in>set (seenEnumMods diffs). em_typeName m = n)
   \<and> fst ` set (seenEnumMods diffs) = em_typeName ` set (concat (map d_modifiedEnumTypes diffs))"
proof -
  let ?f = "\<lambda>m acc. if jhas acc (em_typeName m) then acc else jset (em_typeName m) m acc"
  have "distinct (map fst (fold ?f ms acc)) \<and> (\<forall>(n, m)\<in>set (fold ?f ms acc). em_typeName m = n)
      \<and> fst ` set (fold ?f ms acc) = fst ` set acc \<union> em_typeName ` set ms"
    if "distinct (map fst acc)" "\<forall>(n, m)\<in>set acc. em_typeName m = n" for ms :: "enum_modification list" and acc
    using that
  proof (induction ms arbitrary: acc)
    case (Cons m ms)
    show ?case
    proof (cases "jhas acc (em_typeName m)")
      case True
      then have "em_typeName m \<in> fst ` set acc" by (simp add: map_of_eq_None_iff)
      with True Cons show ?thesis by (auto simp: insert_absorb)
    next
      case False
      then have new: "em_typeName m \<notin> fst ` set acc" by (simp add: map_of_eq_None_iff)
      then have "jset (em_typeName m) m acc = acc @ [(em_typeName m, m)]" by (rule jset_fresh)
      then show ?thesis using Cons.IH [of "acc @ [(em_typeName m, m)]"] Cons.prems False new by auto
    qed
  qed auto
  from this [of "[]" "concat (map d_modifiedEnumTypes diffs)"] show ?thesis by (simp add: seenEnumMods_def)
qed

lemma drop_type_inj: "drop_type s a = drop_type s b \<longleftrightarrow> a = b"
  by (auto simp: drop_type_def qType_def pg_qualified_def pg_quote_def quoteId_inj)

section \<open>Kinds of statements\<close>

definition starts :: "string \<Rightarrow> string \<Rightarrow> bool" where
  "starts p s \<longleftrightarrow> strip_prefix p s \<noteq> None"

lemma starts_Nil [simp]: "starts [] s"
  by (simp add: starts_def)

lemma starts_Cons [simp]: "starts (a # p) (b # s) \<longleftrightarrow> a = b \<and> starts p s"
  by (simp add: starts_def)

abbreviation creates_enum :: "string \<Rightarrow> bool" where
  "creates_enum \<equiv> starts ''DO $$''"

abbreviation drops_enum :: "string \<Rightarrow> bool" where
  "drops_enum \<equiv> starts ''DROP TYPE''"

definition other :: "string \<Rightarrow> bool" where
  "other s \<longleftrightarrow> \<not> creates_enum s \<and> \<not> drops_enum s"

lemma other_filter:
  "\<forall>s\<in>set ss. other s \<Longrightarrow> filter creates_enum ss = []" "\<forall>s\<in>set ss. other s \<Longrightarrow> filter drops_enum ss = []"
  by (auto simp: other_def filter_empty_conv)

lemma createTable_other [simp]: "other (createTable t d s)"
  by (simp add: other_def createTable_def g_createTable_def Let_def)

lemma createIndex_other [simp]: "other (createIndex n i d s)"
  by (simp add: other_def createIndex_def g_createIndex_def)

lemma addForeignKey_other: "addForeignKey n fk d s = Inr t \<Longrightarrow> other t"
  by (auto simp: other_def addForeignKey_def g_addForeignKey_def bind_result_Inr_iff map_result_Inr_iff)

lemma collect_results_all:
  assumes "collect_results f xs = Inr ys" "\<And>x y. x \<in> set xs \<Longrightarrow> f x = Inr y \<Longrightarrow> P y"
  shows "\<forall>y\<in>set ys. P y"
proof
  fix y assume "y \<in> set ys"
  then obtain i where i: "i < length ys" "y = ys ! i" by (metis in_set_conv_nth)
  then have "i < length xs" using collect_results_Inr_length [OF assms(1)] by simp
  with collect_results_Inr_nth [OF assms(1)] i assms(2) show "P y" by force
qed

lemma render_action_other: "other (render_action diff s n a)"
  by (cases a) (simp_all add: other_def pg_alter_column_def pg_alter_def pg_create_sequence_def pg_setval_def pg_drop_sequence_def Let_def)

lemma render_pg_op_other:
  assumes "render_pg_op diff s op = Inr t"
  shows "other t"
proof (cases op)
  case (PAlterColumn n a)
  with assms render_action_other show ?thesis by auto
next
  case (PCreateIndex i)
  with assms createIndex_other show ?thesis by auto
next
  case (PAddFK fk)
  with assms addForeignKey_other show ?thesis by auto
qed (use assms in \<open>auto simp: other_def pg_alter_def\<close>)

section \<open>Creating enum types\<close>

text \<open>The pairs that are created: those whose name was not seen before.\<close>

fun fresh :: "string list \<Rightarrow> (string \<times> string list) list \<Rightarrow> (string \<times> string list) list" where
  "fresh seen [] = []"
| "fresh seen ((n, v) # ps) = (if n \<in> set seen then fresh seen ps else (n, v) # fresh (set_add n seen) ps)"

definition seen_after :: "string list \<Rightarrow> (string \<times> string list) list \<Rightarrow> string list" where
  "seen_after seen ps = fold set_add (map fst ps) seen"

lemma set_add_present: "n \<in> set seen \<Longrightarrow> set_add n seen = seen"
  by (simp add: set_add_def)

lemma fresh_append: "fresh seen (ps @ qs) = fresh seen ps @ fresh (seen_after seen ps) qs"
  by (induction seen ps rule: fresh.induct) (auto simp: seen_after_def set_add_present)

lemma seen_after_append: "seen_after seen (ps @ qs) = seen_after (seen_after seen ps) qs"
  by (simp add: seen_after_def)

lemma fresh_distinct: "distinct (map fst (fresh seen ps)) \<and> fst ` set (fresh seen ps) = fst ` set ps - set seen \<and> set (fresh seen ps) \<subseteq> set ps"
  by (induction seen ps rule: fresh.induct) auto

definition column_enums :: "column list \<Rightarrow> (string \<times> string list) list" where
  "column_enums cols = map (\<lambda>c. (the (c_enumTypeName c), the (c_enumValues c))) (filter is_enum_column cols)"

definition diff_enums :: "table_diff \<Rightarrow> (string \<times> string list) list" where
  "diff_enums diff = map (\<lambda>t. (e_typeName t, e_values t)) (d_addedEnumTypes diff)"

abbreviation enum_text :: "string option \<Rightarrow> (string \<times> string list) list \<Rightarrow> string list" where
  "enum_text s ps \<equiv> concat (map (\<lambda>(n, v). createEnumType n v s) ps)"

lemma new_table_enums_fresh:
  "new_table_enums s cols seen = (enum_text s (fresh seen (column_enums cols)), seen_after seen (column_enums cols))"
  by (induction s cols seen rule: new_table_enums.induct)
    (auto simp: column_enums_def seen_after_def set_add_present)

lemma pg_new_enums_fresh:
  "pg_new_enums s ts seen = (enum_text s (fresh seen (map (\<lambda>t. (e_typeName t, e_values t)) ts)),
     seen_after seen (map (\<lambda>t. (e_typeName t, e_values t)) ts))"
  by (induction s ts seen rule: pg_new_enums.induct) (auto simp: seen_after_def set_add_present)

definition create_statement :: "string option \<Rightarrow> string \<times> string list \<Rightarrow> string" where
  "create_statement s p = hd (createEnumType (fst p) (snd p) s)"

lemma createEnumType_shape:
  "createEnumType n v s = [create_statement s (n, v), ''CREATE CAST (text AS '' @ qType n s @ '') WITH INOUT AS IMPLICIT'']"
  "creates_enum (create_statement s (n, v))" "\<not> drops_enum (create_statement s (n, v))"
  by (simp_all add: create_statement_def createEnumType_def g_createEnumType_def pgGrammar_def getGrammar_def
      pg_createEnumType_def qType_def Let_def)

lemma creates_enum_text: "filter creates_enum (enum_text s ps) = map (create_statement s) ps"
proof (induction ps)
  case (Cons p ps)
  have "\<not> creates_enum (''CREATE CAST (text AS '' @ qType (fst p) s @ '') WITH INOUT AS IMPLICIT'')" by simp
  with Cons createEnumType_shape(2) [of s "fst p" "snd p"] show ?case
    by (cases p) (simp add: createEnumType_shape(1))
qed simp

lemma drops_enum_text: "filter drops_enum (enum_text s ps) = []"
proof (induction ps)
  case (Cons p ps)
  have "\<not> drops_enum (''CREATE CAST (text AS '' @ qType (fst p) s @ '') WITH INOUT AS IMPLICIT'')" by simp
  with Cons createEnumType_shape(3) [of s "fst p" "snd p"] show ?case
    by (cases p) (simp add: createEnumType_shape(1))
qed simp

section \<open>Which enum types are created and dropped\<close>

lemma others_map: "(\<And>x. x \<in> set xs \<Longrightarrow> other (f x)) \<Longrightarrow> \<forall>s\<in>set (map f xs). other s"
  by simp

lemma filter_concat_map: "filter P (concat (map f xs)) = concat (map (\<lambda>x. filter P (f x)) xs)"
  by (induction xs) auto

definition table_enums :: "table_schema list \<Rightarrow> (string \<times> string list) list" where
  "table_enums tables = concat (map (\<lambda>t. column_enums (t_columns t)) tables)"

lemma comment_other [simp]: "\<not> creates_enum (COMMENT_PREFIX @ s)" "\<not> drops_enum (COMMENT_PREFIX @ s)"
  by (simp_all add: COMMENT_PREFIX_def)

lemma new_tables_enums:
  "snd (new_tables Postgres s ts seen) = seen_after seen (table_enums ts)
   \<and> filter creates_enum (fst (new_tables Postgres s ts seen)) = map (create_statement s) (fresh seen (table_enums ts))
   \<and> filter drops_enum (fst (new_tables Postgres s ts seen)) = []"
proof (induction ts arbitrary: seen)
  case (Cons t ts)
  obtain rest seen2 where rest: "new_tables Postgres s ts (seen_after seen (column_enums (t_columns t))) = (rest, seen2)" by force
  have idx: "\<forall>x\<in>set (map (\<lambda>idx. createIndex (t_name t) idx Postgres s) (t_indexes t)). other x" by simp
  have tab: "\<not> creates_enum (createTable t Postgres s)" "\<not> drops_enum (createTable t Postgres s)"
    using createTable_other [of t Postgres s] by (simp_all add: other_def)
  show ?case
    using Cons [of "seen_after seen (column_enums (t_columns t))"] rest tab other_filter [OF idx]
    by (simp add: new_table_enums_fresh table_enums_def fresh_append seen_after_append creates_enum_text drops_enum_text)
qed (simp add: table_enums_def seen_after_def)

lemma modified_tables_enums:
  "modified_tables Postgres s diffs seen = Inr (stmts, seen') \<Longrightarrow>
   filter creates_enum stmts = map (create_statement s) (fresh seen (concat (map diff_enums diffs))) \<and> filter drops_enum stmts = []"
proof (induction diffs arbitrary: seen stmts seen')
  case (Cons x diffs)
  let ?seen1 = "seen_after seen (diff_enums x)"
  obtain ops where ops: "collect_results (render_pg_op x s) (pg_ops x) = Inr ops"
    and tail: "map_result (\<lambda>(rest, seen2). ([COMMENT_PREFIX @ d_tableName x] @ (enum_text s (fresh seen (diff_enums x)) @ ops) @ rest, seen2))
        (modified_tables Postgres s diffs ?seen1) = Inr (stmts, seen')"
    using Cons.prems
    by (auto simp: generateTableDDL_def generatePostgresTableDDL_ops pg_new_enums_fresh diff_enums_def [symmetric]
        bind_result_Inr_iff map_result_Inr_iff)
  then obtain rest seen2 where rest: "modified_tables Postgres s diffs ?seen1 = Inr (rest, seen2)"
    and stmts: "stmts = [COMMENT_PREFIX @ d_tableName x] @ (enum_text s (fresh seen (diff_enums x)) @ ops) @ rest"
    by (auto simp: map_result_Inr_iff)
  have "\<forall>t\<in>set ops. other t" using collect_results_all [OF ops] render_pg_op_other by blast
  then show ?case
    using Cons.IH [OF rest] unfolding stmts
    by (simp add: other_filter creates_enum_text drops_enum_text fresh_append)
qed simp

definition recreated :: "schema_diff \<Rightarrow> enum_modification list" where
  "recreated diff = filter (\<lambda>m. em_removed m \<noteq> []) (map snd (seenEnumMods (s_modifiedTables diff)))"

lemma drop_type_kind [simp]: "drops_enum (drop_type s n)" "\<not> creates_enum (drop_type s n)"
  by (simp_all add: drop_type_def)

lemma enum_mod_stmts_kinds:
  "filter creates_enum (enum_mod_stmts s m) = []"
  "filter drops_enum (enum_mod_stmts s m) = (if em_removed m \<noteq> [] then [drop_type s (old_name (em_typeName m))] else [])"
  by (simp_all add: enum_mod_stmts_def Let_def filter_empty_conv)

lemma enum_mods_drops:
  "filter drops_enum (concat (map (enum_mod_stmts s) ms)) = map (\<lambda>m. drop_type s (old_name (em_typeName m))) (filter (\<lambda>m. em_removed m \<noteq> []) ms)"
  by (induction ms) (auto simp: enum_mod_stmts_kinds)

lemma enum_mods_creates: "filter creates_enum (concat (map (enum_mod_stmts s) ms)) = []"
  by (induction ms) (auto simp: enum_mod_stmts_kinds)

lemma removed_tables_other:
  "\<forall>x\<in>set (removed_table_fks d s ts). other x" "\<forall>x\<in>set (removed_table_drops d s ts). other x"
  by (auto simp: removed_table_fks_def removed_table_drops_def other_def)

lemma enum_drops_kind:
  "\<forall>x\<in>set (enum_drops diff mods). \<exists>n. x = drop_type (s_pgSchema diff) n"
  by (auto simp: enum_drops_def set_schedule_drops enum_mod_drops_def orphan_drops_def)

lemma enum_drops_filters:
  "filter drops_enum (enum_drops diff mods) = enum_drops diff mods" "filter creates_enum (enum_drops diff mods) = []"
  using enum_drops_kind [of diff mods] by (auto simp: filter_id_conv filter_empty_conv)

lemma generateDDL_shape:
  assumes "s_dialect diff = Postgres" "new_tables Postgres (s_pgSchema diff) (s_addedTables diff) [] = (created, seen)"
  shows "generateDDL diff = bind_result (modified_tables Postgres (s_pgSchema diff) (s_modifiedTables diff) seen)
    (\<lambda>(modified, _). map_result (\<lambda>fks. created @ concat (map (enum_mod_stmts (s_pgSchema diff)) (map snd (seenEnumMods (s_modifiedTables diff))))
        @ modified @ fks @ removed_table_fks Postgres (s_pgSchema diff) (s_removedTables diff)
        @ removed_table_drops Postgres (s_pgSchema diff) (s_removedTables diff)
        @ enum_drops diff (map snd (seenEnumMods (s_modifiedTables diff))))
      (collect_results (\<lambda>(tableName, fk). addForeignKey tableName fk Postgres (s_pgSchema diff)) (deferredFKs (s_addedTables diff))))"
  unfolding generateDDL_def Let_def assms(1) assms(2) prod.case eqTrueI [OF refl [of Postgres]] if_True ..

lemma generateDDL_enums:
  assumes "generateDDL diff = Inr stmts" "s_dialect diff = Postgres"
  shows "filter creates_enum stmts
      = map (create_statement (s_pgSchema diff)) (fresh [] (table_enums (s_addedTables diff) @ concat (map diff_enums (s_modifiedTables diff))))"
    and "filter drops_enum stmts
      = map (\<lambda>m. drop_type (s_pgSchema diff) (old_name (em_typeName m))) (recreated diff)
        @ enum_drops diff (map snd (seenEnumMods (s_modifiedTables diff)))"
proof -
  let ?s = "s_pgSchema diff"
  obtain created seen where cr: "new_tables Postgres ?s (s_addedTables diff) [] = (created, seen)" by force
  let ?tail = "removed_table_fks Postgres ?s (s_removedTables diff) @ removed_table_drops Postgres ?s (s_removedTables diff)
             @ enum_drops diff (map snd (seenEnumMods (s_modifiedTables diff)))"
  let ?front = "\<lambda>modified fks. created @ concat (map (enum_mod_stmts ?s) (map snd (seenEnumMods (s_modifiedTables diff)))) @ modified @ fks @ ?tail"
  let ?fks = "collect_results (\<lambda>(tableName, fk). addForeignKey tableName fk Postgres ?s) (deferredFKs (s_addedTables diff))"
  have "bind_result (modified_tables Postgres ?s (s_modifiedTables diff) seen) (\<lambda>(modified, _). map_result (?front modified) ?fks) = Inr stmts"
    using assms(1) generateDDL_shape [OF assms(2) cr] by simp
  then obtain p where p: "modified_tables Postgres ?s (s_modifiedTables diff) seen = Inr p"
      "(case p of (modified, _) \<Rightarrow> map_result (?front modified) ?fks) = Inr stmts"
    unfolding bind_result_Inr_iff by blast
  obtain modified seen' where pp: "p = (modified, seen')" by force
  have md: "modified_tables Postgres ?s (s_modifiedTables diff) seen = Inr (modified, seen')" using p(1) pp by simp
  obtain fks where fk: "?fks = Inr fks" and stmts: "stmts = ?front modified fks"
    using p(2) unfolding pp prod.case map_result_Inr_iff by blast
  have fks: "\<forall>x\<in>set fks. other x"
  proof (rule collect_results_all [OF fk])
    fix x y assume "(case x of (tableName, fk) \<Rightarrow> addForeignKey tableName fk Postgres ?s) = Inr y"
    then show "other y" by (cases x) (simp only: prod.case addForeignKey_other)
  qed
  note cr' = new_tables_enums [of ?s "s_addedTables diff" "[]", unfolded cr fst_conv snd_conv]
  note md' = modified_tables_enums [OF md]
  note none = other_filter [OF fks] other_filter [OF removed_tables_other(1)] other_filter [OF removed_tables_other(2)]
  show "filter creates_enum stmts
      = map (create_statement ?s) (fresh [] (table_enums (s_addedTables diff) @ concat (map diff_enums (s_modifiedTables diff))))"
    unfolding stmts filter_append using cr' md' by (simp del: map_map add: none enum_mods_creates enum_drops_filters fresh_append)
  show "filter drops_enum stmts
      = map (\<lambda>m. drop_type ?s (old_name (em_typeName m))) (recreated diff)
        @ enum_drops diff (map snd (seenEnumMods (s_modifiedTables diff)))"
    unfolding stmts filter_append using cr' md' by (simp del: map_map add: none enum_mods_drops enum_drops_filters recreated_def)
qed

text \<open>C15. A PostgreSQL migration creates every enum type that a new table or a changed column needs, and
  creates no type twice, however many tables and columns use it: among all statements of a generated
  migration the guarded \<open>CREATE TYPE\<close> blocks are those of a list of types with pairwise different
  names, which are exactly the names needed.\<close>

theorem enum_types_created_once:
  assumes "generateDDL diff = Inr stmts" "s_dialect diff = Postgres"
  shows "\<exists>created. filter creates_enum stmts = map (create_statement (s_pgSchema diff)) created
    \<and> distinct (map fst created)
    \<and> fst ` set created = fst ` set (table_enums (s_addedTables diff)) \<union> (\<Union>x\<in>set (s_modifiedTables diff). fst ` set (diff_enums x))"
proof -
  let ?ps = "table_enums (s_addedTables diff) @ concat (map diff_enums (s_modifiedTables diff))"
  have "fst ` set (fresh [] ?ps) = fst ` set (table_enums (s_addedTables diff)) \<union> (\<Union>x\<in>set (s_modifiedTables diff). fst ` set (diff_enums x))"
    using fresh_distinct [of "[]" ?ps] by (simp add: image_Un image_UN)
  with generateDDL_enums(1) [OF assms] fresh_distinct [of "[]" ?ps] show ?thesis by blast
qed

definition mood_table :: "string \<Rightarrow> table_schema" where
  "mood_table n = plain_table n [(basic_column ''id'' ''int'')\<lparr>c_isPrimaryKey := True\<rparr>,
     (basic_column ''mood'' ''enum'')\<lparr>c_enumValues := Some [''sad'', ''ok''], c_enumTypeName := Some ''mood''\<rparr>]"

text \<open>Two new tables share the type \<open>mood\<close>; a table that used \<open>size\<close> is removed.\<close>

definition mood_diff :: schema_diff where
  "mood_diff = \<lparr>s_dialect = Postgres, s_pgSchema = None, s_addedTables = [mood_table ''a'', mood_table ''b''],
     s_removedTables = [plain_table ''c'' [(basic_column ''s'' ''enum'')\<lparr>c_enumValues := Some [''xl''], c_enumTypeName := Some ''size''\<rparr>]],
     s_modifiedTables = [], s_entityEnumTypes = Some [''mood'']\<rparr>"

lemma mood_diff_ok: "\<exists>stmts. generateDDL mood_diff = Inr stmts"
proof -
  obtain created seen where cr: "new_tables Postgres (s_pgSchema mood_diff) (s_addedTables mood_diff) [] = (created, seen)" by force
  have "s_dialect mood_diff = Postgres" "s_modifiedTables mood_diff = []" "deferredFKs (s_addedTables mood_diff) = []"
    by (simp_all add: mood_diff_def deferredFKs_def mood_table_def plain_table_def)
  then show ?thesis using generateDDL_shape [OF _ cr] by simp
qed

theorem enum_types_created_once_witness:
  "\<exists>stmts created. generateDDL mood_diff = Inr stmts \<and> filter creates_enum stmts = map (create_statement None) created
     \<and> distinct (map fst created) \<and> fst ` set created = {''mood''}"
proof -
  obtain stmts where ok: "generateDDL mood_diff = Inr stmts" using mood_diff_ok by blast
  have sets: "fst ` set (table_enums (s_addedTables mood_diff)) \<union> (\<Union>x\<in>set (s_modifiedTables mood_diff). fst ` set (diff_enums x)) = {''mood''}"
    by (simp add: table_enums_def column_enums_def is_enum_column_def mood_diff_def mood_table_def plain_table_def basic_column_def)
  have d: "s_dialect mood_diff = Postgres" "s_pgSchema mood_diff = None" by (simp_all add: mood_diff_def)
  obtain created where "filter creates_enum stmts = map (create_statement None) created \<and> distinct (map fst created) \<and> fst ` set created = {''mood''}"
    using enum_types_created_once [OF ok d(1), unfolded sets d(2)] by (rule exE)
  with ok show ?thesis by (intro exI [of _ stmts] exI [of _ created]) (rule conjI)
qed

definition removed_table_enums :: "schema_diff \<Rightarrow> string set" where
  "removed_table_enums diff = {the (c_enumTypeName c) |t c. t \<in> set (s_removedTables diff) \<and> c \<in> set (t_columns t)
     \<and> c_type c = ''enum'' \<and> truthy_str (c_enumTypeName c)}"

lemma orphan_drops_names:
  "drop_type (s_pgSchema diff) n \<in> set (orphan_drops diff) \<longleftrightarrow>
     n \<in> (\<Union>x\<in>set (s_modifiedTables diff). set (d_removedEnumTypes x)) \<union> removed_table_enums diff"
proof -
  have "n \<in> set (List.map_filter (\<lambda>col. if c_type col = ''enum'' \<and> truthy_str (c_enumTypeName col) then c_enumTypeName col else None) cols)
      \<longleftrightarrow> (\<exists>c. n = the (c_enumTypeName c) \<and> c \<in> set cols \<and> c_type c = ''enum'' \<and> truthy_str (c_enumTypeName c))" for n cols
  proof -
    have "(if c_type c = ''enum'' \<and> truthy_str (c_enumTypeName c) then c_enumTypeName c else None) = Some n
        \<longleftrightarrow> n = the (c_enumTypeName c) \<and> c_type c = ''enum'' \<and> truthy_str (c_enumTypeName c)" for c
      by (cases "c_enumTypeName c") auto
    then show ?thesis unfolding in_map_filter by blast
  qed
  then have "set (List.map_filter (\<lambda>col. if c_type col = ''enum'' \<and> truthy_str (c_enumTypeName col) then c_enumTypeName col else None) cols)
      = {the (c_enumTypeName c) |c. c \<in> set cols \<and> c_type c = ''enum'' \<and> truthy_str (c_enumTypeName c)}" for cols
    by (intro set_eqI) (simp only: mem_Collect_eq)
  then show ?thesis
    by (auto simp: orphan_drops_def drop_type_inj removed_table_enums_def image_iff)
qed

text \<open>A PostgreSQL migration drops exactly the enum types that nothing uses any more: \<open>DROP TYPE IF
  EXISTS n\<close> is among the statements if and only if \<open>n\<close> is the scratch name of a type that is recreated,
  or no column of the entity schema uses \<open>n\<close> and a column that changed type, a removed column or a
  removed table used it.\<close>

theorem enum_types_dropped:
  assumes "generateDDL diff = Inr stmts" "s_dialect diff = Postgres"
  shows "drop_type (s_pgSchema diff) n \<in> set stmts \<longleftrightarrow>
    (\<exists>m\<in>set (recreated diff). n = old_name (em_typeName m))
    \<or> (n \<notin> set (nullish (s_entityEnumTypes diff) [])
       \<and> n \<in> (\<Union>x\<in>set (s_modifiedTables diff). set (d_removedEnumTypes x)) \<union> removed_table_enums diff)"
proof -
  let ?s = "s_pgSchema diff" and ?mods = "map snd (seenEnumMods (s_modifiedTables diff))"
  have "drop_type ?s n \<in> set stmts \<longleftrightarrow> drop_type ?s n \<in> set (filter drops_enum stmts)" by simp
  also have "\<dots> \<longleftrightarrow> (\<exists>m\<in>set (recreated diff). n = old_name (em_typeName m)) \<or> drop_type ?s n \<in> set (enum_drops diff ?mods)"
    unfolding generateDDL_enums(2) [OF assms] by (auto simp: drop_type_inj image_iff)
  also have "drop_type ?s n \<in> set (enum_drops diff ?mods) \<longleftrightarrow>
      n \<notin> set (nullish (s_entityEnumTypes diff) [])
      \<and> ((\<exists>m\<in>set (recreated diff). n = old_name (em_typeName m)) \<or> drop_type ?s n \<in> set (orphan_drops diff))"
    by (auto simp: enum_drops_def set_schedule_drops enum_mod_drops_def recreated_def drop_type_inj image_iff)
  finally show ?thesis unfolding orphan_drops_names by blast
qed

theorem enum_types_dropped_witness:
  "\<exists>stmts. generateDDL mood_diff = Inr stmts \<and> drop_type None ''size'' \<in> set stmts \<and> drop_type None ''mood'' \<notin> set stmts"
proof -
  obtain stmts where ok: "generateDDL mood_diff = Inr stmts" using mood_diff_ok by blast
  have d: "s_dialect mood_diff = Postgres" "s_pgSchema mood_diff = None" "s_modifiedTables mood_diff = []"
      "s_entityEnumTypes mood_diff = Some [''mood'']" by (simp_all add: mood_diff_def)
  have r: "recreated mood_diff = []" by (simp add: recreated_def seenEnumMods_def d(3))
  have e: "removed_table_enums mood_diff = {''size''}"
    by (auto simp: removed_table_enums_def mood_diff_def plain_table_def basic_column_def)
  note iff = enum_types_dropped [OF ok d(1), unfolded d(2-4) r e]
  have "drop_type None ''size'' \<in> set stmts" unfolding iff by simp
  moreover have "drop_type None ''mood'' \<notin> set stmts" unfolding iff by simp
  ultimately show ?thesis using ok by (intro exI [of _ stmts] conjI)
qed

section \<open>Errors\<close>

definition valid_fk :: "dialect \<Rightarrow> foreign_key \<Rightarrow> bool" where
  "valid_fk d fk \<longleftrightarrow> (\<forall>a\<in>{f_onDelete fk, f_onUpdate fk}. to_upper a \<in> VALID_FK_ACTIONS \<and> (d = MySQL \<longrightarrow> to_upper a \<noteq> ''SET DEFAULT''))"

definition new_foreign_keys :: "schema_diff \<Rightarrow> foreign_key set" where
  "new_foreign_keys diff = (\<Union>t\<in>set (s_addedTables diff). set (t_foreignKeys t)) \<union> (\<Union>x\<in>set (s_modifiedTables diff). set (d_addedForeignKeys x))"

lemma isl_validateFkAction:
  "isl (validateFkAction a d) \<longleftrightarrow> \<not> (to_upper a \<in> VALID_FK_ACTIONS \<and> (d = MySQL \<longrightarrow> to_upper a \<noteq> ''SET DEFAULT''))"
  unfolding validateFkAction_def Let_def by (cases "to_upper a \<in> VALID_FK_ACTIONS"; cases "to_upper a = ''SET DEFAULT''") auto

lemma isl_addForeignKey: "isl (addForeignKey n fk d s) \<longleftrightarrow> \<not> valid_fk d fk"
proof -
  have g: "g_dialect (getGrammar d s) = d" by (cases d) (simp_all add: getGrammar_def)
  have "isl (addForeignKey n fk d s) \<longleftrightarrow> isl (validateFkAction (f_onDelete fk) d) \<or> isl (validateFkAction (f_onUpdate fk) d)"
    unfolding addForeignKey_def g_addForeignKey_def g isl_bind_result isl_map_result
    by (cases "validateFkAction (f_onDelete fk) d") simp_all
  then show ?thesis unfolding isl_validateFkAction valid_fk_def by blast
qed

lemma isl_generateTableDDL: "isl (generateTableDDL diff d s seen) \<longleftrightarrow> (\<exists>fk\<in>set (d_addedForeignKeys diff). \<not> valid_fk d fk)"
proof (cases d)
  case MySQL
  then show ?thesis
    by (simp add: generateTableDDL_def generateMySQLTableDDL_def isl_collect_results isl_addForeignKey)
next
  case Postgres
  then show ?thesis
    by (simp add: generateTableDDL_def generatePostgresTableDDL_def isl_collect_results isl_addForeignKey split: prod.split)
qed

lemma isl_modified_tables:
  "isl (modified_tables d s diffs seen) \<longleftrightarrow> (\<exists>x\<in>set diffs. \<exists>fk\<in>set (d_addedForeignKeys x). \<not> valid_fk d fk)"
proof (induction diffs arbitrary: seen)
  case (Cons x diffs)
  then show ?case
    using isl_generateTableDDL [of x d s seen]
    by (cases "generateTableDDL x d s seen") (auto split: prod.split)
qed simp

text \<open>Generating the DDL throws exactly when some foreign key to be created has an action the database does
  not know (or \<open>SET DEFAULT\<close> on MySQL): no other difference between two schemas can make the generator
  fail, whatever the dialect.\<close>

theorem generateDDL_fails_iff:
  "isl (generateDDL diff) \<longleftrightarrow> (\<exists>fk\<in>new_foreign_keys diff. \<not> valid_fk (s_dialect diff) fk)"
proof -
  let ?d = "s_dialect diff" and ?s = "s_pgSchema diff"
  obtain created seen where cr: "new_tables ?d ?s (s_addedTables diff) [] = (created, seen)" by force
  have fks: "isl (collect_results (\<lambda>(tableName, fk). addForeignKey tableName fk ?d ?s) (deferredFKs (s_addedTables diff)))
      \<longleftrightarrow> (\<exists>t\<in>set (s_addedTables diff). \<exists>fk\<in>set (t_foreignKeys t). \<not> valid_fk ?d fk)"
    unfolding isl_collect_results deferredFKs_def by (auto simp: isl_addForeignKey)
  have "isl (generateDDL diff) \<longleftrightarrow> isl (modified_tables ?d ?s (s_modifiedTables diff) seen)
      \<or> isl (collect_results (\<lambda>(tableName, fk). addForeignKey tableName fk ?d ?s) (deferredFKs (s_addedTables diff)))"
    unfolding generateDDL_def Let_def cr prod.case
    by (cases "modified_tables ?d ?s (s_modifiedTables diff) seen") (simp_all split: prod.split)
  then show ?thesis unfolding fks isl_modified_tables new_foreign_keys_def by blast
qed

end
