(* ===== verification/ByteStream.thy ===== *)
theory ByteStream
  imports Prelude
begin

text \<open>
  \<open>src/src/srpc/SrpcByteStream.ts\<close>: byte streams multiplexed over one RPC connection.  Each side keeps
  the streams it sends, the streams it receives, and, because a stream's first bytes may arrive before
  the message that announces it, a bounded buffer per stream that has no receiver yet.

  The stream objects are mutable and shared (the maps of the connection, the transport's disconnect
  handlers and the user all hold them), so they live in a store \<open>bc_objs\<close> and are named by their index.
  The fields \<open>b_received\<close>, \<open>b_ended\<close>, \<open>b_destroyed\<close>, \<open>b_error\<close> and \<open>b_finalled\<close> are those of Node's
  \<open>Duplex\<close> that the code drives: what was pushed, whether \<open>push(null)\<close> ended the readable side,
  whether \<open>destroy\<close> has run (it runs once) and with which error, and whether \<open>_final\<close> has run.  Node
  calls \<open>_write\<close> and \<open>_final\<close> one at a time, never after \<open>destroy\<close>, and not before the callback of the
  previous \<open>_write\<close> was called; those are the guards of the events \<open>LocalWrite\<close> and \<open>LocalFinal\<close>.

  What a stream hands to the transport is logged in \<open>bc_sent\<close> with the stream that sent it, the write
  callbacks that were called in \<open>bc_called\<close>.  The amount the WebSocket has buffered is an input of the
  events that read it.
\<close>

section \<open>State\<close>

definition HIGH_WATER_MARK :: int where
  "HIGH_WATER_MARK = 256 * 1024"

definition PENDING_RECEIVER_MAX_BYTES :: int where
  "PENDING_RECEIVER_MAX_BYTES = 2 * 1024 * 1024"

datatype pending_timer = NoTimer | Armed | Fired

record pending_receiver =
  p_chunks :: "string list"
  p_bytes :: int
  p_finished :: bool
  p_destroyedError :: "string option"
  p_timeout :: pending_timer

definition new_pending :: pending_receiver where
  "new_pending = \<lparr>p_chunks = [], p_bytes = 0, p_finished = False, p_destroyedError = None, p_timeout = NoTimer\<rparr>"

record byte_info =
  bi_receivers :: "(int, nat) jsmap"
  bi_senders :: "(int, nat) jsmap"
  bi_nextId :: int
  bi_step :: int
  bi_pendingReceivers :: "(int, pending_receiver) jsmap"

definition new_info :: "int \<Rightarrow> int \<Rightarrow> byte_info" where
  "new_info startId step = \<lparr>bi_receivers = [], bi_senders = [], bi_nextId = startId, bi_step = step, bi_pendingReceivers = []\<rparr>"

record byte_stream =
  b_id :: int
  b_attached :: bool
  b_isSender :: bool
  b_isLocallyDestroyed :: bool
  b_isRemotelyDestroyed :: bool
  b_drainCallbacks :: "nat list"
  b_waitingForDrain :: bool
  b_pollArmed :: bool
  b_received :: "string list"
  b_ended :: bool
  b_destroyed :: bool
  b_error :: "string option"
  b_finalled :: bool

definition new_stream :: "int \<Rightarrow> bool \<Rightarrow> byte_stream" where
  "new_stream sid isSender =
     \<lparr>b_id = sid, b_attached = True, b_isSender = isSender, b_isLocallyDestroyed = False, b_isRemotelyDestroyed = False,
      b_drainCallbacks = [], b_waitingForDrain = False, b_pollArmed = False, b_received = [], b_ended = False,
      b_destroyed = False, b_error = None, b_finalled = False\<rparr>"

datatype byte_message = BWrite int string | BFinish int | BDestroy int "string option"

record byte_conn =
  bc_info :: "byte_info option"
  bc_objs :: "byte_stream list"
  bc_handlers :: "nat list"
  bc_sent :: "(nat \<times> byte_message) list"
  bc_called :: "(nat \<times> string option) list"

definition new_conn :: byte_conn where
  "new_conn = \<lparr>bc_info = None, bc_objs = [], bc_handlers = [], bc_sent = [], bc_called = []\<rparr>"

definition obj :: "byte_conn \<Rightarrow> nat \<Rightarrow> byte_stream" where
  "obj s r = bc_objs s ! r"

definition upd :: "nat \<Rightarrow> (byte_stream \<Rightarrow> byte_stream) \<Rightarrow> byte_conn \<Rightarrow> byte_conn" where
  "upd r f s = s\<lparr>bc_objs := (bc_objs s)[r := f (bc_objs s ! r)]\<rparr>"

definition on_info :: "(byte_info \<Rightarrow> byte_info) \<Rightarrow> byte_conn \<Rightarrow> byte_conn" where
  "on_info f s = s\<lparr>bc_info := map_option f (bc_info s)\<rparr>"

definition send :: "nat \<Rightarrow> byte_message \<Rightarrow> byte_conn \<Rightarrow> byte_conn" where
  "send r m s = s\<lparr>bc_sent := bc_sent s @ [(r, m)]\<rparr>"

definition call :: "string option \<Rightarrow> nat list \<Rightarrow> byte_conn \<Rightarrow> byte_conn" where
  "call err cbs s = s\<lparr>bc_called := bc_called s @ map (\<lambda>cb. (cb, err)) cbs\<rparr>"

section \<open>Creation\<close>

definition byte_init :: "int \<Rightarrow> int \<Rightarrow> byte_conn \<Rightarrow> byte_conn" where
  "byte_init startId step s =
     (case bc_info s of None \<Rightarrow> s\<lparr>bc_info := Some (new_info startId step)\<rparr> | Some _ \<Rightarrow> s)"

text \<open>The constructor: without an id the stream is a sender and takes the next one.\<close>

definition construct :: "int \<Rightarrow> byte_conn \<Rightarrow> nat \<times> byte_conn" where
  "construct sid s =
     (let s1 = byte_init 1 1 s; r = length (bc_objs s1); info = the (bc_info s1);
          s2 = s1\<lparr>bc_handlers := bc_handlers s1 @ [r]\<rparr>
      in (r, if sid = 0
             then s2\<lparr>bc_objs := bc_objs s2 @ [new_stream (bi_nextId info) True],
                     bc_info := Some (info\<lparr>bi_senders := jset (bi_nextId info) r (bi_senders info),
                                           bi_nextId := bi_nextId info + bi_step info\<rparr>)\<rparr>
             else s2\<lparr>bc_objs := bc_objs s2 @ [new_stream sid False],
                     bc_info := Some (info\<lparr>bi_receivers := jset sid r (bi_receivers info)\<rparr>)\<rparr>))"

section \<open>Lifecycle\<close>

definition byte_cleanup :: "nat \<Rightarrow> byte_conn \<Rightarrow> byte_conn" where
  "byte_cleanup r s =
     (let b = obj s r;
          s1 = (if b_attached b
                then on_info (\<lambda>i. if b_isSender b then i\<lparr>bi_senders := jdelete (b_id b) (bi_senders i)\<rparr>
                                  else i\<lparr>bi_receivers := jdelete (b_id b) (bi_receivers i)\<rparr>) s
                else s);
          s2 = call None (b_drainCallbacks b) s1;
          s3 = (if b_attached b then s2\<lparr>bc_handlers := filter (\<lambda>h. h \<noteq> r) (bc_handlers s2)\<rparr> else s2)
      in upd r (\<lambda>b. b\<lparr>b_drainCallbacks := [], b_attached := False\<rparr>) s3)"

definition destroy_impl :: "nat \<Rightarrow> string option \<Rightarrow> byte_conn \<Rightarrow> byte_conn" where
  "destroy_impl r err s =
     (let b = obj s r in
      if b_isLocallyDestroyed b then s
      else let s1 = (if \<not> b_isRemotelyDestroyed b \<and> b_attached b then send r (BDestroy (b_id b) err) s else s)
           in byte_cleanup r (upd r (\<lambda>b. b\<lparr>b_isLocallyDestroyed := True\<rparr>) s1))"

text \<open>Node's \<open>destroy\<close>: runs \<open>_destroy\<close> the first time only.\<close>

definition node_destroy :: "string option \<Rightarrow> nat \<Rightarrow> byte_conn \<Rightarrow> byte_conn" where
  "node_destroy err r s =
     (if b_destroyed (obj s r) then s
      else destroy_impl r err (upd r (\<lambda>b. b\<lparr>b_destroyed := True, b_error := err\<rparr>) s))"

text \<open>Node's \<open>push\<close>: an empty chunk is skipped, a chunk after the end is an error, and a destroyed
  stream ignores what is pushed.\<close>

definition node_push :: "nat \<Rightarrow> string \<Rightarrow> byte_conn \<Rightarrow> byte_conn" where
  "node_push r chunk s =
     (if chunk = [] then s
      else if b_ended (obj s r) then node_destroy (Some ''stream.push() after EOF'') r s
      else if b_destroyed (obj s r) then s
      else upd r (\<lambda>b. b\<lparr>b_received := b_received b @ [chunk]\<rparr>) s)"

definition node_push_null :: "nat \<Rightarrow> byte_conn \<Rightarrow> byte_conn" where
  "node_push_null r s = upd r (\<lambda>b. b\<lparr>b_ended := True\<rparr>) s"

definition handleDisconnect :: "nat \<Rightarrow> byte_conn \<Rightarrow> byte_conn" where
  "handleDisconnect r s = node_destroy None r s"

section \<open>Receivers\<close>

definition deliver_pending :: "nat \<Rightarrow> pending_receiver \<Rightarrow> byte_conn \<Rightarrow> byte_conn" where
  "deliver_pending r p s =
     (case p_destroyedError p of
        Some e \<Rightarrow> node_destroy (Some e) r s
      | None \<Rightarrow> let s1 = fold (node_push r) (p_chunks p) s in if p_finished p then node_push_null r s1 else s1)"

definition has_receiver :: "byte_conn \<Rightarrow> int \<Rightarrow> bool" where
  "has_receiver s sid \<longleftrightarrow> (case bc_info s of None \<Rightarrow> False | Some i \<Rightarrow> jhas (bi_receivers i) sid)"

definition get_pending :: "byte_conn \<Rightarrow> int \<Rightarrow> pending_receiver option" where
  "get_pending s sid = (case bc_info s of None \<Rightarrow> None | Some i \<Rightarrow> jget (bi_pendingReceivers i) sid)"

definition set_pending :: "int \<Rightarrow> pending_receiver \<Rightarrow> byte_conn \<Rightarrow> byte_conn" where
  "set_pending sid p = on_info (\<lambda>i. i\<lparr>bi_pendingReceivers := jset sid p (bi_pendingReceivers i)\<rparr>)"

definition drop_pending :: "int \<Rightarrow> byte_conn \<Rightarrow> byte_conn" where
  "drop_pending sid = on_info (\<lambda>i. i\<lparr>bi_pendingReceivers := jdelete sid (bi_pendingReceivers i)\<rparr>)"

datatype byte_error = StreamExists int

definition createReceiver :: "int \<Rightarrow> byte_conn \<Rightarrow> (byte_error, nat \<times> byte_conn) result" where
  "createReceiver sid s =
     (if has_receiver s sid then Inl (StreamExists sid)
      else let (r, s1) = construct sid s
           in Inr (r, case get_pending s1 sid of
                        None \<Rightarrow> s1
                      | Some p \<Rightarrow> deliver_pending r p (drop_pending sid s1)))"

definition createSender :: "byte_conn \<Rightarrow> nat \<times> byte_conn" where
  "createSender s = construct 0 s"

section \<open>Operations of the remote side\<close>

definition pending_failed :: "string \<Rightarrow> pending_receiver \<Rightarrow> pending_receiver" where
  "pending_failed err p = p\<lparr>p_destroyedError := Some err, p_chunks := [], p_bytes := 0\<rparr>"

definition buffer_chunk :: "string \<Rightarrow> pending_receiver \<Rightarrow> pending_receiver" where
  "buffer_chunk chunk p =
     (let p1 = (if p_timeout p = NoTimer then p\<lparr>p_timeout := Armed\<rparr> else p);
          p2 = p1\<lparr>p_bytes := p_bytes p1 + int (length chunk)\<rparr>
      in if p_bytes p2 > PENDING_RECEIVER_MAX_BYTES
         then pending_failed ''Pending receiver exceeded max buffered bytes'' p2
         else p2\<lparr>p_chunks := p_chunks p2 @ [chunk]\<rparr>)"

definition receiver_of :: "byte_conn \<Rightarrow> int \<Rightarrow> nat option" where
  "receiver_of s sid = (case bc_info s of None \<Rightarrow> None | Some i \<Rightarrow> jget (bi_receivers i) sid)"

definition sender_of :: "byte_conn \<Rightarrow> int \<Rightarrow> nat option" where
  "sender_of s sid = (case bc_info s of None \<Rightarrow> None | Some i \<Rightarrow> jget (bi_senders i) sid)"

definition writeReceiver :: "int \<Rightarrow> string \<Rightarrow> byte_conn \<Rightarrow> byte_conn" where
  "writeReceiver sid data s =
     (case receiver_of s sid of
        Some r \<Rightarrow> node_push r data s
      | None \<Rightarrow> let p = nullish (get_pending s sid) new_pending
                in if p_destroyedError p \<noteq> None then s else set_pending sid (buffer_chunk data p) s)"

definition finishReceiver :: "int \<Rightarrow> byte_conn \<Rightarrow> byte_conn" where
  "finishReceiver sid s =
     (case receiver_of s sid of
        Some r \<Rightarrow> node_push_null r s
      | None \<Rightarrow> let p = nullish (get_pending s sid) new_pending
                in if p_destroyedError p \<noteq> None then s else set_pending sid (p\<lparr>p_finished := True\<rparr>) s)"

text \<open>An absent or empty message makes no error (\<open>err ? new Error(err) : undefined\<close>).\<close>

definition destroySubstream :: "int \<Rightarrow> string option \<Rightarrow> byte_conn \<Rightarrow> byte_conn" where
  "destroySubstream sid err s =
     (let e = (if truthy_str err then err else None);
          remote = (\<lambda>r. node_destroy e r (upd r (\<lambda>b. b\<lparr>b_isRemotelyDestroyed := True\<rparr>) s))
      in case receiver_of s sid of
           Some r \<Rightarrow> remote r
         | None \<Rightarrow>
             (case sender_of s sid of
                Some r \<Rightarrow> remote r
              | None \<Rightarrow> set_pending sid (pending_failed (nullish e ''Remote destroyed substream'')
                           (nullish (get_pending s sid) new_pending)) s))"

text \<open>The timer of a pending receiver.\<close>

definition expirePending :: "int \<Rightarrow> byte_conn \<Rightarrow> byte_conn" where
  "expirePending sid s =
     (case get_pending s sid of
        Some p \<Rightarrow> if p_timeout p = Armed
                  then set_pending sid (pending_failed ''Pending receiver expired before creation'' (p\<lparr>p_timeout := Fired\<rparr>)) s
                  else s
      | None \<Rightarrow> s)"

section \<open>The sending side\<close>

definition pollForDrain :: "nat \<Rightarrow> int \<Rightarrow> byte_conn \<Rightarrow> byte_conn" where
  "pollForDrain r buffered s =
     (let b = obj s r in
      if \<not> b_waitingForDrain b \<or> \<not> b_attached b then s
      else if buffered < HIGH_WATER_MARK
      then call None (b_drainCallbacks b) (upd r (\<lambda>b. b\<lparr>b_waitingForDrain := False, b_drainCallbacks := []\<rparr>) s)
      else upd r (\<lambda>b. b\<lparr>b_pollArmed := True\<rparr>) s)"

definition pollTimer :: "nat \<Rightarrow> int \<Rightarrow> byte_conn \<Rightarrow> byte_conn" where
  "pollTimer r buffered s =
     (if b_pollArmed (obj s r) then pollForDrain r buffered (upd r (\<lambda>b. b\<lparr>b_pollArmed := False\<rparr>) s) else s)"

text \<open>\<open>getBufferedAmount\<close> is read twice with nothing in between, so both reads see the same amount.\<close>

definition write_impl :: "nat \<Rightarrow> string \<Rightarrow> nat \<Rightarrow> int \<Rightarrow> byte_conn \<Rightarrow> byte_conn" where
  "write_impl r chunk cb buffered s =
     (let b = obj s r in
      if \<not> b_attached b then call (Some ''Stream closed'') [cb] s
      else let s1 = send r (BWrite (b_id b) chunk) s
           in if buffered \<ge> HIGH_WATER_MARK
              then pollForDrain r buffered
                     (upd r (\<lambda>b. b\<lparr>b_waitingForDrain := True, b_drainCallbacks := b_drainCallbacks b @ [cb]\<rparr>) s1)
              else call None [cb] s1)"

definition final_impl :: "nat \<Rightarrow> byte_conn \<Rightarrow> byte_conn" where
  "final_impl r s =
     byte_cleanup r (if b_attached (obj s r) then send r (BFinish (b_id (obj s r))) s else s)"

section \<open>Events\<close>

datatype byte_event =
    Init bool
  | CreateReceiver int
  | CreateSender
  | RemoteWrite int string
  | RemoteFinish int
  | RemoteDestroy int "string option"
  | Expire int
  | LocalWrite nat string nat int
  | LocalFinal nat
  | LocalDestroy nat "string option"
  | PollTimer nat int
  | EndEvent nat
  | Disconnect

definition node_writable :: "byte_conn \<Rightarrow> nat \<Rightarrow> bool" where
  "node_writable s r \<longleftrightarrow> r < length (bc_objs s) \<and> \<not> b_destroyed (obj s r) \<and> \<not> b_finalled (obj s r) \<and> b_drainCallbacks (obj s r) = []"

text \<open>\<open>Init b\<close> is the call of the server (\<open>b\<close>) or of the client.  A disconnect calls the handlers that are
  attached when it happens.\<close>

fun byte_step :: "byte_conn \<Rightarrow> byte_event \<Rightarrow> byte_conn" where
  "byte_step s (Init server) = byte_init (if server then 2 else 1) 2 s"
| "byte_step s (CreateReceiver sid) = (case createReceiver sid s of Inl _ \<Rightarrow> s | Inr (_, s') \<Rightarrow> s')"
| "byte_step s CreateSender = snd (createSender s)"
| "byte_step s (RemoteWrite sid data) = writeReceiver sid data s"
| "byte_step s (RemoteFinish sid) = finishReceiver sid s"
| "byte_step s (RemoteDestroy sid err) = destroySubstream sid err s"
| "byte_step s (Expire sid) = expirePending sid s"
| "byte_step s (LocalWrite r chunk cb buffered) = (if node_writable s r then write_impl r chunk cb buffered s else s)"
| "byte_step s (LocalFinal r) = (if node_writable s r then final_impl r (upd r (\<lambda>b. b\<lparr>b_finalled := True\<rparr>) s) else s)"
| "byte_step s (LocalDestroy r err) = (if r < length (bc_objs s) then node_destroy err r s else s)"
| "byte_step s (PollTimer r buffered) = (if r < length (bc_objs s) then pollTimer r buffered s else s)"
| "byte_step s (EndEvent r) =
     (if r < length (bc_objs s) \<and> b_ended (obj s r) \<and> \<not> b_destroyed (obj s r) \<and> \<not> b_isSender (obj s r)
      then byte_cleanup r s else s)"
| "byte_step s Disconnect = fold handleDisconnect (bc_handlers s) s"

end
