(* ===== verification/ByteStreamFacts.thy ===== *)
theory ByteStreamFacts
  imports ByteStream
begin

text \<open>
  What the byte streams of a connection guarantee: the maps, the stream objects and the disconnect
  handlers always agree, buffers stay bounded, a stream writes and then terminates at most once, a
  blocked writer is always woken, and the bytes of a stream arrive whether or not its receiver was
  created before them.
\<close>

section \<open>The store\<close>

lemma upd_simps [simp]:
  "length (bc_objs (upd r f s)) = length (bc_objs s)" "bc_info (upd r f s) = bc_info s"
  "bc_handlers (upd r f s) = bc_handlers s" "bc_sent (upd r f s) = bc_sent s" "bc_called (upd r f s) = bc_called s"
  by (simp_all add: upd_def)

lemma obj_upd [simp]: "r < length (bc_objs s) \<Longrightarrow> obj (upd r f s) q = (if q = r then f (obj s r) else obj s q)"
  by (simp add: obj_def upd_def)

lemma send_simps [simp]:
  "bc_objs (send r m s) = bc_objs s" "bc_info (send r m s) = bc_info s" "bc_handlers (send r m s) = bc_handlers s"
  "obj (send r m s) = obj s" "bc_sent (send r m s) = bc_sent s @ [(r, m)]" "bc_called (send r m s) = bc_called s"
  by (simp_all add: send_def obj_def [abs_def])

lemma call_simps [simp]:
  "bc_objs (call e cbs s) = bc_objs s" "bc_info (call e cbs s) = bc_info s" "bc_handlers (call e cbs s) = bc_handlers s"
  "obj (call e cbs s) = obj s" "bc_sent (call e cbs s) = bc_sent s"
  "bc_called (call e cbs s) = bc_called s @ map (\<lambda>cb. (cb, e)) cbs"
  by (simp_all add: call_def obj_def [abs_def])

lemma on_info_simps [simp]:
  "bc_objs (on_info f s) = bc_objs s" "bc_info (on_info f s) = map_option f (bc_info s)"
  "bc_handlers (on_info f s) = bc_handlers s" "obj (on_info f s) = obj s" "bc_sent (on_info f s) = bc_sent s"
  "bc_called (on_info f s) = bc_called s"
  by (simp_all add: on_info_def obj_def [abs_def])

lemma maps_cong:
  "bc_info s = bc_info t \<Longrightarrow> receiver_of s = receiver_of t" "bc_info s = bc_info t \<Longrightarrow> sender_of s = sender_of t"
  "bc_info s = bc_info t \<Longrightarrow> get_pending s = get_pending t"
  by (simp_all add: receiver_of_def [abs_def] sender_of_def [abs_def] get_pending_def [abs_def])

lemma maps_simps [simp]:
  "receiver_of (upd r f s) = receiver_of s" "sender_of (upd r f s) = sender_of s" "get_pending (upd r f s) = get_pending s"
  "receiver_of (send r m s) = receiver_of s" "sender_of (send r m s) = sender_of s" "get_pending (send r m s) = get_pending s"
  "receiver_of (call e cbs s) = receiver_of s" "sender_of (call e cbs s) = sender_of s" "get_pending (call e cbs s) = get_pending s"
  by (intro maps_cong; simp)+

lemma handlers_simps [simp]:
  "bc_objs (s\<lparr>bc_handlers := h\<rparr>) = bc_objs s" "obj (s\<lparr>bc_handlers := h\<rparr>) = obj s"
  "receiver_of (s\<lparr>bc_handlers := h\<rparr>) = receiver_of s" "sender_of (s\<lparr>bc_handlers := h\<rparr>) = sender_of s"
  "get_pending (s\<lparr>bc_handlers := h\<rparr>) = get_pending s"
  by (simp_all add: obj_def [abs_def] receiver_of_def [abs_def] sender_of_def [abs_def] get_pending_def [abs_def])

lemma on_info_maps:
  "receiver_of (on_info f s) i = (case bc_info s of None \<Rightarrow> None | Some x \<Rightarrow> jget (bi_receivers (f x)) i)"
  "sender_of (on_info f s) i = (case bc_info s of None \<Rightarrow> None | Some x \<Rightarrow> jget (bi_senders (f x)) i)"
  "get_pending (on_info f s) i = (case bc_info s of None \<Rightarrow> None | Some x \<Rightarrow> jget (bi_pendingReceivers (f x)) i)"
  by (simp_all add: receiver_of_def sender_of_def get_pending_def split: option.split)

lemma pending_maps [simp]:
  "receiver_of (set_pending i p s) = receiver_of s" "sender_of (set_pending i p s) = sender_of s"
  "receiver_of (drop_pending i s) = receiver_of s" "sender_of (drop_pending i s) = sender_of s"
  by (rule ext, simp add: set_pending_def drop_pending_def on_info_maps receiver_of_def [of s] sender_of_def [of s] split: option.split)+

lemma get_pending_set [simp]:
  "get_pending (set_pending i p s) j = (if bc_info s = None then None else if j = i then Some p else get_pending s j)"
  "get_pending (drop_pending i s) j = (if j = i then None else get_pending s j)"
  by (simp_all add: get_pending_def set_pending_def drop_pending_def split: option.split)

section \<open>Wiring\<close>

definition statics :: "byte_conn \<Rightarrow> (int \<times> bool \<times> bool) list" where
  "statics s = map (\<lambda>b. (b_id b, b_attached b, b_isSender b)) (bc_objs s)"

definition wired_view ::
    "(int \<times> bool \<times> bool) list \<Rightarrow> (int \<Rightarrow> nat option) \<Rightarrow> (int \<Rightarrow> nat option) \<Rightarrow> nat list \<Rightarrow> bool" where
  "wired_view objs receivers senders handlers \<longleftrightarrow>
     (\<forall>i r. receivers i = Some r \<longrightarrow> r < length objs \<and> objs ! r = (i, True, False))
   \<and> (\<forall>i r. senders i = Some r \<longrightarrow> r < length objs \<and> objs ! r = (i, True, True))
   \<and> (\<forall>r<length objs. \<forall>i. objs ! r = (i, True, False) \<longrightarrow> receivers i = Some r)
   \<and> (\<forall>r<length objs. \<forall>i. objs ! r = (i, True, True) \<longrightarrow> senders i = Some r)
   \<and> distinct handlers \<and> set handlers = {r. r < length objs \<and> fst (snd (objs ! r))}"

abbreviation wired :: "byte_conn \<Rightarrow> bool" where
  "wired s \<equiv> wired_view (statics s) (receiver_of s) (sender_of s) (bc_handlers s)"

lemma length_statics [simp]: "length (statics s) = length (bc_objs s)"
  by (simp add: statics_def)

lemma statics_nth: "r < length (bc_objs s) \<Longrightarrow> statics s ! r = (b_id (obj s r), b_attached (obj s r), b_isSender (obj s r))"
  by (simp add: statics_def obj_def)

lemma statics_simps [simp]:
  "statics (send r m s) = statics s" "statics (call e cbs s) = statics s" "statics (on_info f s) = statics s"
  by (simp_all add: statics_def)

lemma statics_upd:
  "r < length (bc_objs s) \<Longrightarrow> statics (upd r f s) =
     (statics s)[r := (b_id (f (obj s r)), b_attached (f (obj s r)), b_isSender (f (obj s r)))]"
  by (simp add: statics_def upd_def map_update obj_def)

lemma statics_upd_same [simp]:
  assumes "r < length (bc_objs s)" "b_id (f (obj s r)) = b_id (obj s r)" "b_attached (f (obj s r)) = b_attached (obj s r)"
    "b_isSender (f (obj s r)) = b_isSender (obj s r)"
  shows "statics (upd r f s) = statics s"
proof -
  have "statics (upd r f s) = (statics s)[r := statics s ! r]" using assms by (simp add: statics_upd statics_nth)
  then show ?thesis by simp
qed

lemma wired_view_close:
  assumes "wired_view objs rcv snds hs" "r < length objs" "objs ! r = (i, True, b)"
  shows "wired_view (objs[r := (i, False, b)]) (if b then rcv else rcv(i := None)) (if b then snds(i := None) else snds) (filter (\<lambda>h. h \<noteq> r) hs)"
    (is "wired_view ?objs ?rcv ?snds ?hs")
proof -
  note w = assms(1) [unfolded wired_view_def]
  have nth: "?objs ! q = (if q = r then (i, False, b) else objs ! q)" if "q < length objs" for q
    using that assms(2) by (simp add: nth_list_update)
  note rcv_at = w [THEN conjunct2, THEN conjunct2, THEN conjunct1, rule_format]
    and snd_at = w [THEN conjunct2, THEN conjunct2, THEN conjunct2, THEN conjunct1, rule_format]
  have reg: "\<not> b \<Longrightarrow> rcv i = Some r" "b \<Longrightarrow> snds i = Some r"
    using rcv_at [OF assms(2), of i] snd_at [OF assms(2), of i] assms(3) by simp_all
  have f1: "q < length ?objs \<and> ?objs ! q = (j, True, False)" if "?rcv j = Some q" for j q
  proof -
    have j: "rcv j = Some q" using that by (cases b; cases "j = i") simp_all
    with w have q: "q < length objs" "objs ! q = (j, True, False)" by blast+
    moreover have "q \<noteq> r" using that q assms(3) by (cases b) auto
    ultimately show ?thesis by (simp add: nth)
  qed
  have f2: "q < length ?objs \<and> ?objs ! q = (j, True, True)" if "?snds j = Some q" for j q
  proof -
    have j: "snds j = Some q" using that by (cases b; cases "j = i") simp_all
    with w have q: "q < length objs" "objs ! q = (j, True, True)" by blast+
    moreover have "q \<noteq> r" using that q assms(3) by (cases b) auto
    ultimately show ?thesis by (simp add: nth)
  qed
  have f3: "?rcv j = Some q" if "q < length ?objs" "?objs ! q = (j, True, False)" for q j
  proof -
    from that have q: "q \<noteq> r" "objs ! q = (j, True, False)" by (auto simp: nth split: if_splits)
    then have "rcv j = Some q" using rcv_at that(1) by simp
    moreover have "j \<noteq> i" if "\<not> b" using reg(1) that q(1) \<open>rcv j = Some q\<close> by auto
    ultimately show ?thesis by simp
  qed
  have f4: "?snds j = Some q" if "q < length ?objs" "?objs ! q = (j, True, True)" for q j
  proof -
    from that have q: "q \<noteq> r" "objs ! q = (j, True, True)" by (auto simp: nth split: if_splits)
    then have "snds j = Some q" using snd_at that(1) by simp
    moreover have "j \<noteq> i" if b using reg(2) that q(1) \<open>snds j = Some q\<close> by auto
    ultimately show ?thesis by simp
  qed
  note hs = w [THEN conjunct2, THEN conjunct2, THEN conjunct2, THEN conjunct2]
  have f5: "distinct ?hs" using hs [THEN conjunct1] by (rule distinct_filter)
  have mem: "q \<in> set hs \<longleftrightarrow> q < length objs \<and> fst (snd (objs ! q))" for q
    by (simp only: hs [THEN conjunct2] mem_Collect_eq)
  have f6: "set ?hs = {q. q < length ?objs \<and> fst (snd (?objs ! q))}"
  proof (rule set_eqI)
    fix q
    show "q \<in> set ?hs \<longleftrightarrow> q \<in> {q. q < length ?objs \<and> fst (snd (?objs ! q))}"
      unfolding set_filter mem_Collect_eq mem length_list_update
      using nth [of q] by (cases "q < length objs"; cases "q = r") simp_all
  qed
  show ?thesis
    unfolding wired_view_def
    by (intro conjI allI impI)
      (erule f1 [THEN conjunct1] | erule f1 [THEN conjunct2] | erule f2 [THEN conjunct1] | erule f2 [THEN conjunct2]
       | erule (1) f3 | erule (1) f4 | rule f5 | rule f6)+
qed

lemma cleanup_maps:
  assumes "r < length (bc_objs s)"
  shows "receiver_of (byte_cleanup r s) i =
      (if b_attached (obj s r) \<and> \<not> b_isSender (obj s r) \<and> i = b_id (obj s r) then None else receiver_of s i)"
    "sender_of (byte_cleanup r s) i =
      (if b_attached (obj s r) \<and> b_isSender (obj s r) \<and> i = b_id (obj s r) then None else sender_of s i)"
    "get_pending (byte_cleanup r s) i = get_pending s i"
    "length (bc_objs (byte_cleanup r s)) = length (bc_objs s)"
    "bc_handlers (byte_cleanup r s) = (if b_attached (obj s r) then filter (\<lambda>h. h \<noteq> r) (bc_handlers s) else bc_handlers s)"
    "obj (byte_cleanup r s) q = (if q = r then (obj s r)\<lparr>b_drainCallbacks := [], b_attached := False\<rparr> else obj s q)"
    "bc_sent (byte_cleanup r s) = bc_sent s"
    "bc_called (byte_cleanup r s) = bc_called s @ map (\<lambda>cb. (cb, None)) (b_drainCallbacks (obj s r))"
    "(bc_info (byte_cleanup r s) = None) = (bc_info s = None)"
proof -
  note d = byte_cleanup_def Let_def
  show "receiver_of (byte_cleanup r s) i =
      (if b_attached (obj s r) \<and> \<not> b_isSender (obj s r) \<and> i = b_id (obj s r) then None else receiver_of s i)"
    "sender_of (byte_cleanup r s) i =
      (if b_attached (obj s r) \<and> b_isSender (obj s r) \<and> i = b_id (obj s r) then None else sender_of s i)"
    "get_pending (byte_cleanup r s) i = get_pending s i"
    by (cases "bc_info s"; cases "b_attached (obj s r)"; cases "b_isSender (obj s r)";
        simp add: d on_info_maps receiver_of_def [of s] sender_of_def [of s] get_pending_def [of s])+
  show "length (bc_objs (byte_cleanup r s)) = length (bc_objs s)"
    "bc_handlers (byte_cleanup r s) = (if b_attached (obj s r) then filter (\<lambda>h. h \<noteq> r) (bc_handlers s) else bc_handlers s)"
    "bc_sent (byte_cleanup r s) = bc_sent s"
    "bc_called (byte_cleanup r s) = bc_called s @ map (\<lambda>cb. (cb, None)) (b_drainCallbacks (obj s r))"
    "(bc_info (byte_cleanup r s) = None) = (bc_info s = None)"
    by (simp_all add: d)
  show "obj (byte_cleanup r s) q = (if q = r then (obj s r)\<lparr>b_drainCallbacks := [], b_attached := False\<rparr> else obj s q)"
    using assms by (simp add: d)
qed

lemma wired_cleanup:
  assumes "wired s" "r < length (bc_objs s)"
  shows "wired (byte_cleanup r s)"
proof -
  have st: "statics (byte_cleanup r s) = (statics s)[r := (b_id (obj s r), False, b_isSender (obj s r))]"
    using assms(2) by (simp add: list_eq_iff_nth_eq statics_nth cleanup_maps nth_list_update)
  show ?thesis
  proof (cases "b_attached (obj s r)")
    case True
    have "receiver_of (byte_cleanup r s) = (if b_isSender (obj s r) then receiver_of s else (receiver_of s)(b_id (obj s r) := None))"
      "sender_of (byte_cleanup r s) = (if b_isSender (obj s r) then (sender_of s)(b_id (obj s r) := None) else sender_of s)"
      using True assms(2) by (auto simp: fun_eq_iff cleanup_maps)
    then show ?thesis
      using wired_view_close [OF assms(1), of r "b_id (obj s r)" "b_isSender (obj s r)"] True assms(2)
      by (simp add: st cleanup_maps statics_nth)
  next
    case False
    then have "statics (byte_cleanup r s) = statics s" using assms(2) unfolding st by (simp add: list_eq_iff_nth_eq nth_list_update statics_nth)
    moreover have "receiver_of (byte_cleanup r s) = receiver_of s" "sender_of (byte_cleanup r s) = sender_of s"
      using False assms(2) by (simp_all add: fun_eq_iff cleanup_maps)
    ultimately show ?thesis using False assms by (simp add: cleanup_maps)
  qed
qed

section \<open>What every reachable state satisfies\<close>

text \<open>One stream: a callback waits only while the stream is attached and a poll is scheduled, and a stream
  that was destroyed or finished is detached.\<close>

definition stream_ok :: "byte_stream \<Rightarrow> bool" where
  "stream_ok b \<longleftrightarrow> (b_drainCallbacks b \<noteq> [] \<longrightarrow> b_attached b \<and> b_waitingForDrain b)
     \<and> (b_attached b \<and> b_waitingForDrain b \<longrightarrow> b_drainCallbacks b \<noteq> [] \<and> b_pollArmed b)
     \<and> (b_isLocallyDestroyed b \<longleftrightarrow> b_destroyed b) \<and> (b_destroyed b \<or> b_finalled b \<longrightarrow> \<not> b_attached b)"

text \<open>A pending receiver counts its bytes, stays within the limit, and keeps nothing once it failed.\<close>

definition pending_ok :: "pending_receiver \<Rightarrow> bool" where
  "pending_ok p \<longleftrightarrow> p_bytes p = sum_list (map (\<lambda>c. int (length c)) (p_chunks p)) \<and> p_bytes p \<le> PENDING_RECEIVER_MAX_BYTES
     \<and> (p_destroyedError p \<noteq> None \<longrightarrow> p_chunks p = [])"

definition pendings_ok :: "byte_conn \<Rightarrow> bool" where
  "pendings_ok s \<longleftrightarrow> (\<forall>i p. get_pending s i = Some p \<longrightarrow> receiver_of s i = None \<and> pending_ok p)"

text \<open>Senders have different ids, all of them handed out in steps from the next one down.\<close>

definition identities :: "byte_conn \<Rightarrow> (int \<times> bool) list" where
  "identities s = map (\<lambda>b. (b_id b, b_isSender b)) (bc_objs s)"

definition numbering :: "byte_conn \<Rightarrow> (int \<times> int) option" where
  "numbering s = map_option (\<lambda>i. (bi_nextId i, bi_step i)) (bc_info s)"

fun ids_ok :: "(int \<times> bool) list \<Rightarrow> (int \<times> int) option \<Rightarrow> bool" where
  "ids_ok objs None \<longleftrightarrow> objs = []"
| "ids_ok objs (Some (next, step)) \<longleftrightarrow>
     step > 0 \<and> distinct (map fst (filter snd objs)) \<and> (\<forall>i. (i, True) \<in> set objs \<longrightarrow> i < next \<and> step dvd next - i)"

definition sent_by :: "nat \<Rightarrow> byte_conn \<Rightarrow> byte_message list" where
  "sent_by r s = map snd (filter (\<lambda>p. fst p = r) (bc_sent s))"

text \<open>What one stream sends: writes, then at most one terminator, and nothing after it.\<close>

fun terminator :: "int \<Rightarrow> byte_message \<Rightarrow> bool" where
  "terminator i (BWrite j c) \<longleftrightarrow> False"
| "terminator i (BFinish j) \<longleftrightarrow> j = i"
| "terminator i (BDestroy j e) \<longleftrightarrow> j = i"

definition transcript_ok :: "int \<Rightarrow> bool \<Rightarrow> byte_message list \<Rightarrow> bool" where
  "transcript_ok i attached ms \<longleftrightarrow>
     (\<exists>ws. ms = map (BWrite i) ws) \<or> (\<not> attached \<and> (\<exists>ws t. ms = map (BWrite i) ws @ [t] \<and> terminator i t))"

definition log_ok :: "byte_conn \<Rightarrow> bool" where
  "log_ok s \<longleftrightarrow> (\<forall>r<length (bc_objs s). transcript_ok (b_id (obj s r)) (b_attached (obj s r)) (sent_by r s))
     \<and> (\<forall>r\<ge>length (bc_objs s). sent_by r s = [])"

definition conn_ok :: "byte_conn \<Rightarrow> bool" where
  "conn_ok s \<longleftrightarrow> wired s \<and> (\<forall>r<length (bc_objs s). stream_ok (obj s r)) \<and> pendings_ok s
     \<and> ids_ok (identities s) (numbering s) \<and> log_ok s"

lemma conn_okI:
  "\<lbrakk>wired s; \<And>r. r < length (bc_objs s) \<Longrightarrow> stream_ok (obj s r); pendings_ok s; ids_ok (identities s) (numbering s); log_ok s\<rbrakk> \<Longrightarrow> conn_ok s"
  by (simp add: conn_ok_def)

lemma conn_okD:
  assumes "conn_ok s"
  shows "wired s" "\<And>r. r < length (bc_objs s) \<Longrightarrow> stream_ok (obj s r)" "pendings_ok s" "ids_ok (identities s) (numbering s)" "log_ok s"
  using assms by (simp_all add: conn_ok_def)

lemma identities_simps [simp]:
  "identities (send r m s) = identities s" "identities (call e cbs s) = identities s" "identities (on_info g s) = identities s"
  "identities (s\<lparr>bc_handlers := h\<rparr>) = identities s" "numbering (send r m s) = numbering s" "numbering (call e cbs s) = numbering s"
  "numbering (upd r f s) = numbering s" "numbering (s\<lparr>bc_handlers := h\<rparr>) = numbering s"
  by (simp_all add: identities_def numbering_def)

lemma identities_upd [simp]:
  assumes "r < length (bc_objs s)" "b_id (f (obj s r)) = b_id (obj s r)" "b_isSender (f (obj s r)) = b_isSender (obj s r)"
  shows "identities (upd r f s) = identities s"
proof -
  have "identities (upd r f s) = (identities s)[r := identities s ! r]"
    using assms by (simp add: identities_def upd_def map_update obj_def)
  then show ?thesis by simp
qed

lemma cleanup_identities:
  assumes "r < length (bc_objs s)"
  shows "identities (byte_cleanup r s) = identities s" "numbering (byte_cleanup r s) = numbering s"
proof -
  show "identities (byte_cleanup r s) = identities s"
    using assms by (simp add: list_eq_iff_nth_eq identities_def cleanup_maps flip: obj_def)
  show "numbering (byte_cleanup r s) = numbering s"
    by (cases "bc_info s"; cases "b_attached (obj s r)"; cases "b_isSender (obj s r)"; simp add: byte_cleanup_def Let_def numbering_def)
qed

lemma sent_by_simps [simp]:
  "sent_by q (upd r f s) = sent_by q s" "sent_by q (call e cbs s) = sent_by q s" "sent_by q (on_info g s) = sent_by q s"
  "sent_by q (s\<lparr>bc_handlers := h\<rparr>) = sent_by q s" "sent_by q (send r m s) = sent_by q s @ (if q = r then [m] else [])"
  by (simp_all add: sent_by_def)

lemma transcript_send: "transcript_ok i True ms \<Longrightarrow> transcript_ok i True (ms @ [BWrite i c])"
  by (auto simp: transcript_ok_def intro: exI [of _ "_ @ [c]"])

lemma transcript_terminate: "transcript_ok i True ms \<Longrightarrow> terminator i t \<Longrightarrow> transcript_ok i False (ms @ [t])"
  by (auto simp: transcript_ok_def)

lemma transcript_detach: "transcript_ok i a ms \<Longrightarrow> transcript_ok i False ms"
  by (auto simp: transcript_ok_def)

lemma stream_ok_unrelated [simp]:
  "stream_ok (b\<lparr>b_isRemotelyDestroyed := x\<rparr>) = stream_ok b" "stream_ok (b\<lparr>b_received := cs\<rparr>) = stream_ok b"
  "stream_ok (b\<lparr>b_ended := x\<rparr>) = stream_ok b"
  by (simp_all add: stream_ok_def)

lemma stream_ok_destroyed: "stream_ok b \<Longrightarrow> b_isLocallyDestroyed b = b_destroyed b"
  by (simp only: stream_ok_def)

lemma stream_ok_waiting: "stream_ok b \<Longrightarrow> b_waitingForDrain b \<Longrightarrow> b_attached b \<Longrightarrow> b_drainCallbacks b \<noteq> [] \<and> b_pollArmed b"
  unfolding stream_ok_def by blast

lemma stream_ok_idle: "stream_ok b \<Longrightarrow> \<not> (b_waitingForDrain b \<and> b_attached b) \<Longrightarrow> b_drainCallbacks b = []"
  unfolding stream_ok_def by blast

lemma stream_ok_change:
  assumes "stream_ok b" "b_isLocallyDestroyed c = b_isLocallyDestroyed b" "b_destroyed c = b_destroyed b"
    "b_finalled c = b_finalled b" "b_attached c = b_attached b"
    and "b_drainCallbacks c \<noteq> [] \<Longrightarrow> b_attached b \<and> b_waitingForDrain c"
    and "b_attached b \<and> b_waitingForDrain c \<Longrightarrow> b_drainCallbacks c \<noteq> [] \<and> b_pollArmed c"
  shows "stream_ok c"
  using assms(1,6,7) unfolding stream_ok_def assms(2-5) by blast

section \<open>Closing a stream\<close>

text \<open>\<open>_final\<close>, \<open>_destroy\<close> and the end of a receiver all end in \<open>cleanup\<close> after a change that leaves
  the wiring alone and after at most one terminator.\<close>

lemma conn_ok_close:
  assumes ok: "conn_ok s" and r: "r < length (bc_objs s)"
    and f: "b_id (f (obj s r)) = b_id (obj s r)" "b_attached (f (obj s r)) = b_attached (obj s r)" "b_isSender (f (obj s r)) = b_isSender (obj s r)"
      "b_isLocallyDestroyed (f (obj s r)) = b_destroyed (f (obj s r))"
    and ts: "ts = [] \<or> (b_attached (obj s r) \<and> (\<exists>t. ts = [t] \<and> terminator (b_id (obj s r)) t))"
    and t: "t = upd r f (fold (send r) ts s)"
  shows "conn_ok (byte_cleanup r t)"
proof -
  have sends: "bc_objs (fold (send r) ts s) = bc_objs s" "obj (fold (send r) ts s) = obj s" "statics (fold (send r) ts s) = statics s"
    "receiver_of (fold (send r) ts s) = receiver_of s" "sender_of (fold (send r) ts s) = sender_of s"
    "get_pending (fold (send r) ts s) = get_pending s" "bc_handlers (fold (send r) ts s) = bc_handlers s"
    "identities (fold (send r) ts s) = identities s" "numbering (fold (send r) ts s) = numbering s"
    "sent_by q (fold (send r) ts s) = sent_by q s @ (if q = r then ts else [])" for q
    using ts by auto
  have rt: "r < length (bc_objs t)" using r by (simp add: t sends)
  have wt: "wired t" using conn_okD(1) [OF ok] r f by (simp add: t sends)
  show ?thesis
  proof (rule conn_okI)
    show "wired (byte_cleanup r t)" by (rule wired_cleanup [OF wt rt])
    show "stream_ok (obj (byte_cleanup r t) q)" if "q < length (bc_objs (byte_cleanup r t))" for q
    proof (cases "q = r")
      case True
      have "b_isLocallyDestroyed (obj t r) = b_destroyed (obj t r)" using f(4) r by (simp add: t sends)
      then show ?thesis unfolding True cleanup_maps [OF rt] by (simp add: stream_ok_def)
    next
      case False
      have "q < length (bc_objs s)" using that unfolding cleanup_maps [OF rt] by (simp only: t upd_simps sends)
      moreover have "obj t q = obj s q" using False r by (simp add: t sends)
      ultimately show ?thesis using False conn_okD(2) [OF ok, of q] unfolding cleanup_maps [OF rt] by simp
    qed
    have "receiver_of t = receiver_of s" "get_pending t = get_pending s" by (simp_all add: t sends)
    then show "pendings_ok (byte_cleanup r t)"
      using conn_okD(3) [OF ok] unfolding pendings_ok_def cleanup_maps [OF rt] by auto
    show "ids_ok (identities (byte_cleanup r t)) (numbering (byte_cleanup r t))"
      unfolding cleanup_identities [OF rt] using conn_okD(4) [OF ok] r f by (simp add: t sends)
    have sent: "sent_by q (byte_cleanup r t) = sent_by q s @ (if q = r then ts else [])" for q
      by (simp add: sent_by_def cleanup_maps [OF rt]) (simp add: t sends flip: sent_by_def)
    have tr: "transcript_ok (b_id (obj s q)) (b_attached (obj s q)) (sent_by q s)" if "q < length (bc_objs s)" for q
      using conn_okD(5) [OF ok] that by (simp add: log_ok_def)
    have closed: "transcript_ok (b_id (obj s r)) False (sent_by r s @ ts)"
      using ts tr [OF r] by (auto intro: transcript_detach transcript_terminate)
    have len: "length (bc_objs t) = length (bc_objs s)" by (simp only: t upd_simps sends)
    have at: "obj t q = (if q = r then f (obj s r) else obj s q)" for q using r by (simp add: t sends)
    show "log_ok (byte_cleanup r t)"
      unfolding log_ok_def sent cleanup_maps [OF rt] len at
      using closed tr conn_okD(5) [OF ok] r f(1) by (simp add: log_ok_def)
  qed
qed

lemma send_upd: "send r m (upd q f s) = upd q f (send r m s)"
  by (simp add: upd_def send_def)

lemma upd_upd: "r < length (bc_objs s) \<Longrightarrow> upd r g (upd r f s) = upd r (\<lambda>b. g (f b)) s"
  by (simp add: upd_def)

lemma node_destroy_close:
  assumes "stream_ok (obj s r)" "r < length (bc_objs s)" "\<not> b_destroyed (obj s r)"
  shows "node_destroy e r s = byte_cleanup r (upd r (\<lambda>b. b\<lparr>b_destroyed := True, b_error := e, b_isLocallyDestroyed := True\<rparr>)
     (fold (send r) (if \<not> b_isRemotelyDestroyed (obj s r) \<and> b_attached (obj s r) then [BDestroy (b_id (obj s r)) e] else []) s))"
proof -
  have l: "\<not> b_isLocallyDestroyed (obj s r)" using assms by (simp add: stream_ok_def)
  show ?thesis
  proof (cases "\<not> b_isRemotelyDestroyed (obj s r) \<and> b_attached (obj s r)")
    case True
    with l assms(2,3) show ?thesis
      by (simp add: node_destroy_def destroy_impl_def Let_def send_upd upd_upd)
  next
    case False
    with l assms(2,3) show ?thesis
      by (auto simp: node_destroy_def destroy_impl_def Let_def send_upd upd_upd)
  qed
qed

lemma conn_ok_node_destroy:
  assumes "conn_ok s" "r < length (bc_objs s)"
  shows "conn_ok (node_destroy e r s)"
proof (cases "b_destroyed (obj s r)")
  case True
  then show ?thesis using assms by (simp add: node_destroy_def)
next
  case False
  note c = node_destroy_close [OF conn_okD(2) [OF assms] assms(2) False]
  show ?thesis unfolding c by (rule conn_ok_close [OF assms, where f = "\<lambda>b. b\<lparr>b_destroyed := True, b_error := e, b_isLocallyDestroyed := True\<rparr>"]) simp_all
qed

section \<open>The other operations\<close>

lemma conn_ok_upd:
  assumes ok: "conn_ok s" and r: "r < length (bc_objs s)"
    and f: "b_id (f (obj s r)) = b_id (obj s r)" "b_attached (f (obj s r)) = b_attached (obj s r)" "b_isSender (f (obj s r)) = b_isSender (obj s r)"
      "stream_ok (f (obj s r))"
  shows "conn_ok (upd r f s)"
  using conn_okD [OF ok] r f by (intro conn_okI) (simp_all add: pendings_ok_def log_ok_def)

lemma conn_ok_call: "conn_ok s \<Longrightarrow> conn_ok (call e cbs s)"
  using conn_okD [of s] by (intro conn_okI) (simp_all add: pendings_ok_def log_ok_def)

lemma conn_ok_write_message:
  assumes ok: "conn_ok s" and r: "r < length (bc_objs s)" "b_attached (obj s r)"
  shows "conn_ok (send r (BWrite (b_id (obj s r)) c) s)"
proof -
  have "transcript_ok (b_id (obj s r)) True (sent_by r s)" using conn_okD(5) [OF ok] r by (auto simp: log_ok_def)
  note tr = transcript_send [OF this, of c]
  from conn_okD [OF ok] r tr show ?thesis by (intro conn_okI) (simp_all add: pendings_ok_def log_ok_def)
qed

lemma conn_ok_node_push: "conn_ok s \<Longrightarrow> r < length (bc_objs s) \<Longrightarrow> conn_ok (node_push r c s)"
  using conn_okD(2) [of s r]
  by (auto simp: node_push_def stream_ok_def intro!: conn_ok_node_destroy conn_ok_upd)

lemma conn_ok_node_push_null: "conn_ok s \<Longrightarrow> r < length (bc_objs s) \<Longrightarrow> conn_ok (node_push_null r s)"
  using conn_okD(2) [of s r] by (auto simp: node_push_null_def stream_ok_def intro!: conn_ok_upd)

lemma conn_ok_cleanup:
  assumes "conn_ok s" "r < length (bc_objs s)"
  shows "conn_ok (byte_cleanup r s)"
proof -
  have "upd r (\<lambda>b. b) (fold (send r) [] s) = s" by (simp add: upd_def)
  moreover have "b_isLocallyDestroyed (obj s r) = b_destroyed (obj s r)" using conn_okD(2) [OF assms] by (simp add: stream_ok_def)
  ultimately show ?thesis using conn_ok_close [OF assms, of "\<lambda>b. b" "[]" s] by simp
qed

lemma length_node_destroy [simp]: "r < length (bc_objs s) \<Longrightarrow> length (bc_objs (node_destroy e r s)) = length (bc_objs s)"
  by (simp add: node_destroy_def destroy_impl_def Let_def cleanup_maps)

lemma length_node_push [simp]: "r < length (bc_objs s) \<Longrightarrow> length (bc_objs (node_push r c s)) = length (bc_objs s)"
  by (simp add: node_push_def)

lemma conn_ok_pushes:
  "conn_ok s \<Longrightarrow> r < length (bc_objs s) \<Longrightarrow> conn_ok (fold (node_push r) cs s) \<and> r < length (bc_objs (fold (node_push r) cs s))"
  by (induction cs arbitrary: s) (simp_all add: conn_ok_node_push)

lemma conn_ok_deliver: "conn_ok s \<Longrightarrow> r < length (bc_objs s) \<Longrightarrow> conn_ok (deliver_pending r p s)"
  using conn_ok_pushes [of s r "p_chunks p"]
  by (auto simp: deliver_pending_def Let_def intro: conn_ok_node_destroy conn_ok_node_push_null split: option.split)

lemma pending_frame [simp]:
  "bc_objs (set_pending i p s) = bc_objs s" "obj (set_pending i p s) = obj s" "statics (set_pending i p s) = statics s"
  "bc_handlers (set_pending i p s) = bc_handlers s" "identities (set_pending i p s) = identities s"
  "numbering (set_pending i p s) = numbering s" "sent_by q (set_pending i p s) = sent_by q s"
  "bc_objs (drop_pending i s) = bc_objs s" "obj (drop_pending i s) = obj s" "statics (drop_pending i s) = statics s"
  "bc_handlers (drop_pending i s) = bc_handlers s" "identities (drop_pending i s) = identities s"
  "numbering (drop_pending i s) = numbering s" "sent_by q (drop_pending i s) = sent_by q s"
  by (simp_all add: set_pending_def drop_pending_def numbering_def option.map_comp comp_def)

lemma conn_ok_set_pending:
  assumes "conn_ok s" "receiver_of s i = None" "pending_ok p"
  shows "conn_ok (set_pending i p s)"
  using conn_okD [OF assms(1)] assms(2,3)
  by (intro conn_okI) (auto simp: pendings_ok_def log_ok_def split: if_splits)

lemma conn_ok_drop_pending: "conn_ok s \<Longrightarrow> conn_ok (drop_pending i s)"
  using conn_okD [of s] by (intro conn_okI) (auto simp: pendings_ok_def log_ok_def split: if_splits)

section \<open>Creating streams\<close>

lemma construct_frame:
  assumes "construct i s = (r, t)"
  shows "r = length (bc_objs s)" "bc_handlers t = bc_handlers s @ [r]" "sent_by q t = sent_by q s"
    "bc_objs t = bc_objs s @ [new_stream (if i = 0 then bi_nextId (the (bc_info (byte_init 1 1 s))) else i) (i = 0)]"
    "receiver_of t = (if i = 0 then receiver_of s else (receiver_of s)(i \<mapsto> r))"
    "sender_of t = (if i = 0 then (sender_of s)(bi_nextId (the (bc_info (byte_init 1 1 s))) \<mapsto> r) else sender_of s)"
    "get_pending t = get_pending s"
    "numbering t = map_option (\<lambda>(n, st). (if i = 0 then n + st else n, st)) (numbering (byte_init 1 1 s))"
  using assms
  by (auto simp: construct_def Let_def byte_init_def new_info_def numbering_def sent_by_def fun_eq_iff receiver_of_def sender_of_def
      get_pending_def split: option.splits if_splits)

lemma wired_view_open:
  assumes w: "wired_view objs rcv snds hs" and new: "\<not> b \<Longrightarrow> rcv i = None" "b \<Longrightarrow> snds i = None"
  shows "wired_view (objs @ [(i, True, b)]) (if b then rcv else rcv(i \<mapsto> length objs)) (if b then snds(i \<mapsto> length objs) else snds)
     (hs @ [length objs])" (is "wired_view ?objs ?rcv ?snds ?hs")
proof -
  note w' = w [unfolded wired_view_def]
  note rcv_in = w' [THEN conjunct1, rule_format] and snd_in = w' [THEN conjunct2, THEN conjunct1, rule_format]
    and rcv_at = w' [THEN conjunct2, THEN conjunct2, THEN conjunct1, rule_format]
    and snd_at = w' [THEN conjunct2, THEN conjunct2, THEN conjunct2, THEN conjunct1, rule_format]
    and hs = w' [THEN conjunct2, THEN conjunct2, THEN conjunct2, THEN conjunct2]
  have mem: "q \<in> set hs \<longleftrightarrow> q < length objs \<and> fst (snd (objs ! q))" for q
    by (simp only: hs [THEN conjunct2] mem_Collect_eq)
  have f1: "q < length ?objs \<and> ?objs ! q = (j, True, False)" if "?rcv j = Some q" for j q
    using that rcv_in [of j q] by (cases b; cases "j = i") (auto simp: nth_append)
  have f2: "q < length ?objs \<and> ?objs ! q = (j, True, True)" if "?snds j = Some q" for j q
    using that snd_in [of j q] by (cases b; cases "j = i") (auto simp: nth_append)
  have f3: "?rcv j = Some q" if "q < length ?objs" "?objs ! q = (j, True, False)" for q j
  proof (cases "q < length objs")
    case True
    then have "rcv j = Some q" using that by (simp add: nth_append rcv_at)
    with new(1) show ?thesis by (cases "j = i") auto
  next
    case False
    with that show ?thesis by (auto simp: nth_append less_Suc_eq)
  qed
  have f4: "?snds j = Some q" if "q < length ?objs" "?objs ! q = (j, True, True)" for q j
  proof (cases "q < length objs")
    case True
    then have "snds j = Some q" using that by (simp add: nth_append snd_at)
    with new(2) show ?thesis by (cases "j = i") auto
  next
    case False
    with that show ?thesis by (auto simp: nth_append less_Suc_eq)
  qed
  have f5: "distinct ?hs" using hs [THEN conjunct1] mem by simp
  have f6: "set ?hs = {q. q < length ?objs \<and> fst (snd (?objs ! q))}"
  proof (rule set_eqI)
    fix q
    show "q \<in> set ?hs \<longleftrightarrow> q \<in> {q. q < length ?objs \<and> fst (snd (?objs ! q))}"
      by (cases "q < length objs"; cases "q = length objs") (simp_all add: mem nth_append)
  qed
  show ?thesis
    unfolding wired_view_def
    by (intro conjI allI impI)
      (erule f1 [THEN conjunct1] | erule f1 [THEN conjunct2] | erule f2 [THEN conjunct1] | erule f2 [THEN conjunct2]
       | erule (1) f3 | erule (1) f4 | rule f5 | rule f6)+
qed

lemma ids_ok_new:
  assumes "ids_ok objs (Some (next, st))" "i \<noteq> 0"
  shows "ids_ok (objs @ [(i, False)]) (Some (next, st))" "ids_ok (objs @ [(next, True)]) (Some (next + st, st))"
proof -
  have st: "st > 0" and d: "distinct (map fst (filter snd objs))" and lt: "\<And>j. (j, True) \<in> set objs \<Longrightarrow> j < next \<and> st dvd next - j"
    using assms(1) by auto
  show "ids_ok (objs @ [(i, False)]) (Some (next, st))" using st d lt by auto
  have dv: "st dvd next + st - j" if "st dvd next - j" for j
    using dvd_add [OF that, of st] by (simp add: algebra_simps)
  have "next \<notin> fst ` set (filter snd objs)" using lt by force
  moreover have "j < next + st" if "(j, True) \<in> set objs" for j using lt [OF that] st by simp
  ultimately show "ids_ok (objs @ [(next, True)]) (Some (next + st, st))"
    using st d lt dv by auto
qed

lemma conn_ok_byte_init:
  assumes "conn_ok s" "b > 0"
  shows "conn_ok (byte_init a b s)"
proof (cases "bc_info s")
  case None
  then have "identities s = []" using conn_okD(4) [OF assms(1)] by (simp add: numbering_def)
  then have objs: "bc_objs s = []" by (simp add: identities_def)
  have frame: "statics (byte_init a b s) = statics s" "receiver_of (byte_init a b s) = receiver_of s" "sender_of (byte_init a b s) = sender_of s"
    "bc_handlers (byte_init a b s) = bc_handlers s" "get_pending (byte_init a b s) = get_pending s" "sent_by q (byte_init a b s) = sent_by q s"
    "bc_objs (byte_init a b s) = []" "numbering (byte_init a b s) = Some (a, b)" for q
    using None objs by (simp_all add: byte_init_def new_info_def statics_def sent_by_def numbering_def fun_eq_iff receiver_of_def sender_of_def get_pending_def)
  show ?thesis
    using conn_okD [OF assms(1)] assms(2) objs
    by (intro conn_okI) (auto simp: frame pendings_ok_def log_ok_def identities_def)
next
  case (Some x)
  then show ?thesis using assms(1) by (simp add: byte_init_def)
qed

lemma byte_init_maps [simp]:
  "receiver_of (byte_init a b s) = receiver_of s" "sender_of (byte_init a b s) = sender_of s" "get_pending (byte_init a b s) = get_pending s"
  by (simp_all add: byte_init_def fun_eq_iff receiver_of_def sender_of_def get_pending_def new_info_def split: option.split)

lemma construct_init: "construct i s = construct i (byte_init 1 1 s)"
  by (simp add: construct_def Let_def byte_init_def new_info_def split: option.split)

lemma conn_ok_construct:
  assumes ok: "conn_ok s" and new: "i \<noteq> 0 \<Longrightarrow> receiver_of s i = None \<and> get_pending s i = None" and c: "construct i s = (r, t)"
  shows "conn_ok t"
proof -
  let ?s = "byte_init 1 1 s"
  have ok: "conn_ok ?s" by (rule conn_ok_byte_init [OF ok]) simp
  have new: "i \<noteq> 0 \<Longrightarrow> receiver_of ?s i = None \<and> get_pending ?s i = None" using new by simp
  have c: "construct i ?s = (r, t)" using c construct_init by simp
  obtain x where x: "bc_info ?s = Some x" by (cases "bc_info s") (auto simp: byte_init_def)
  have idem: "byte_init 1 1 ?s = ?s" using x by (simp add: byte_init_def)
  let ?n = "bi_nextId x" and ?st = "bi_step x"
  note f = construct_frame [OF c, unfolded idem x option.sel]
  have num: "numbering ?s = Some (?n, ?st)" by (simp add: numbering_def x)
  have ids: "ids_ok (identities ?s) (Some (?n, ?st))" using conn_okD(4) [OF ok] num by simp
  have fresh: "sender_of ?s ?n = None"
  proof (rule ccontr)
    assume "sender_of ?s ?n \<noteq> None"
    then obtain q where "sender_of ?s ?n = Some q" by blast
    then have "q < length (statics ?s) \<and> statics ?s ! q = (?n, True, True)"
      using conn_okD(1) [OF ok] unfolding wired_view_def by blast
    then have "q < length (identities ?s)" "identities ?s ! q = (?n, True)"
      by (auto simp: identities_def statics_def)
    then have "(?n, True) \<in> set (identities ?s)" by (metis nth_mem)
    with ids show False by auto
  qed
  have obj: "obj t q = (if q = r then new_stream (if i = 0 then ?n else i) (i = 0) else obj ?s q)" if "q < length (bc_objs t)" for q
    using that by (auto simp: obj_def f(1,4) nth_append)
  have idf: "identities t = identities ?s @ [(if i = 0 then ?n else i, i = 0)]"
    "statics t = statics ?s @ [(if i = 0 then ?n else i, True, i = 0)]"
    by (simp_all add: identities_def statics_def f(4) new_stream_def)
  show ?thesis
  proof (rule conn_okI)
    show "wired t"
      using wired_view_open [OF conn_okD(1) [OF ok], of "i = 0" "if i = 0 then ?n else i"] new fresh
      by (simp add: idf f(1,2,5,6) split: if_splits)
    show "stream_ok (obj t q)" if "q < length (bc_objs t)" for q
      using that conn_okD(2) [OF ok, of q] by (auto simp: obj f(1) new_stream_def stream_ok_def f(4) less_Suc_eq)
    show "pendings_ok t"
      using conn_okD(3) [OF ok] new by (auto simp: pendings_ok_def f(5,7))
    show "ids_ok (identities t) (numbering t)"
      using ids_ok_new [OF ids, of 1] ids_ok_new(1) [OF ids, of i] by (simp add: idf f(8) num)
    have "sent_by r ?s = []" using conn_okD(5) [OF ok] f(1) by (simp add: log_ok_def)
    then show "log_ok t"
      using conn_okD(5) [OF ok] by (auto simp: log_ok_def f(3) obj f(1,4) less_Suc_eq new_stream_def transcript_ok_def)
  qed
qed

lemma drop_pending_construct:
  assumes "construct i s = (r, t)"
  shows "construct i (drop_pending i s) = (r, drop_pending i t)"
  using assms by (cases "bc_info s") (auto simp: construct_def Let_def byte_init_def drop_pending_def on_info_def new_info_def jdelete_def)

lemma has_receiver_of: "has_receiver s i \<longleftrightarrow> receiver_of s i \<noteq> None"
  by (simp add: has_receiver_def receiver_of_def split: option.split)

lemma conn_ok_createReceiver:
  assumes "conn_ok s" "createReceiver i s = Inr (r, t)"
  shows "conn_ok t"
proof -
  obtain u where c: "construct i s = (r, u)" and none: "receiver_of s i = None"
    and t: "t = (case get_pending u i of None \<Rightarrow> u | Some p \<Rightarrow> deliver_pending r p (drop_pending i u))"
    using assms(2) by (auto simp: createReceiver_def has_receiver_of split: if_splits prod.splits)
  show ?thesis
  proof (cases "get_pending u i")
    case None
    then show ?thesis using conn_ok_construct [OF assms(1) _ c] none construct_frame(7) [OF c] t by simp
  next
    case (Some p)
    have "conn_ok (drop_pending i u)"
      by (rule conn_ok_construct [OF conn_ok_drop_pending [OF assms(1), of i] _ drop_pending_construct [OF c]]) (simp add: none)
    moreover have "r < length (bc_objs (drop_pending i u))" using construct_frame(1,4) [OF c] by simp
    ultimately show ?thesis using Some t by (simp add: conn_ok_deliver)
  qed
qed

lemma pending_ok_new [simp]: "pending_ok new_pending"
  by (simp add: pending_ok_def new_pending_def PENDING_RECEIVER_MAX_BYTES_def)

lemma pending_ok_failed [simp]: "pending_ok (pending_failed e p)"
  by (simp add: pending_ok_def pending_failed_def PENDING_RECEIVER_MAX_BYTES_def)

lemma pending_ok_buffer: "pending_ok p \<Longrightarrow> p_destroyedError p = None \<Longrightarrow> pending_ok (buffer_chunk c p)"
  by (auto simp: buffer_chunk_def Let_def) (auto simp: pending_ok_def)

lemma pending_ok_get: "conn_ok s \<Longrightarrow> pending_ok (nullish (get_pending s i) new_pending)"
  using conn_okD(3) [of s] by (cases "get_pending s i") (auto simp: pendings_ok_def)

lemma registered_in_range:
  assumes "conn_ok s"
  shows "receiver_of s i = Some r \<Longrightarrow> r < length (bc_objs s)" "sender_of s i = Some r \<Longrightarrow> r < length (bc_objs s)"
  using conn_okD(1) [OF assms] unfolding wired_view_def length_statics by blast+

lemma conn_ok_writeReceiver: "conn_ok s \<Longrightarrow> conn_ok (writeReceiver i c s)"
  using pending_ok_get [of s i] registered_in_range(1) [of s i]
  by (auto simp: writeReceiver_def Let_def intro: conn_ok_node_push conn_ok_set_pending pending_ok_buffer split: option.split)

lemma conn_ok_finishReceiver: "conn_ok s \<Longrightarrow> conn_ok (finishReceiver i s)"
  using pending_ok_get [of s i] registered_in_range(1) [of s i]
  by (auto simp: finishReceiver_def Let_def pending_ok_def intro!: conn_ok_node_push_null conn_ok_set_pending split: option.split)

lemma conn_ok_mark_remote:
  assumes "conn_ok s" "r < length (bc_objs s)"
  shows "conn_ok (upd r (\<lambda>b. b\<lparr>b_isRemotelyDestroyed := True\<rparr>) s)"
  by (rule conn_ok_upd [OF assms]) (use conn_okD(2) [OF assms] in simp_all)

lemma conn_ok_destroySubstream: "conn_ok s \<Longrightarrow> conn_ok (destroySubstream i e s)"
  using registered_in_range [of s i]
  by (auto simp: destroySubstream_def Let_def intro!: conn_ok_node_destroy conn_ok_mark_remote conn_ok_set_pending split: option.split)

lemma conn_ok_expirePending: "conn_ok s \<Longrightarrow> conn_ok (expirePending i s)"
  using conn_okD(3) [of s]
  by (auto simp: expirePending_def pendings_ok_def intro!: conn_ok_set_pending split: option.split)

lemma conn_ok_pollForDrain:
  assumes ok: "conn_ok t" and r: "r < length (bc_objs t)" and b: "b = f (obj t r)"
    and f: "b_id b = b_id (obj t r)" "b_attached b = b_attached (obj t r)" "b_isSender b = b_isSender (obj t r)"
    and idle: "\<not> (b_waitingForDrain b \<and> b_attached b) \<Longrightarrow> stream_ok b"
    and low: "stream_ok (b\<lparr>b_waitingForDrain := False, b_drainCallbacks := []\<rparr>)"
    and high: "b_waitingForDrain b \<and> b_attached b \<Longrightarrow> stream_ok (b\<lparr>b_pollArmed := True\<rparr>)"
  shows "conn_ok (pollForDrain r buffered (upd r f t))"
proof -
  have go: "conn_ok (upd r (\<lambda>x. g (f x)) t)" if "b_id (g b) = b_id b" "b_attached (g b) = b_attached b" "b_isSender (g b) = b_isSender b" "stream_ok (g b)" for g
    using that f by (intro conn_ok_upd [OF ok r]) (simp_all add: b)
  consider "\<not> (b_waitingForDrain b \<and> b_attached b)" | "b_waitingForDrain b \<and> b_attached b" "buffered < HIGH_WATER_MARK"
    | "b_waitingForDrain b \<and> b_attached b" "\<not> buffered < HIGH_WATER_MARK" by blast
  then show ?thesis
  proof cases
    case 1
    have "pollForDrain r buffered (upd r f t) = upd r f t" using 1 r by (auto simp: pollForDrain_def Let_def b)
    with go [of "\<lambda>b. b"] idle [OF 1] show ?thesis by simp
  next
    case 2
    have "conn_ok (upd r (\<lambda>x. (f x)\<lparr>b_waitingForDrain := False, b_drainCallbacks := []\<rparr>) t)" by (rule go) (simp_all add: low)
    from conn_ok_call [OF this] 2 r show ?thesis by (simp add: pollForDrain_def Let_def b upd_upd)
  next
    case 3
    have "conn_ok (upd r (\<lambda>x. (f x)\<lparr>b_pollArmed := True\<rparr>) t)" by (rule go) (simp_all add: high [OF 3(1)])
    with 3 r show ?thesis by (simp add: pollForDrain_def Let_def b upd_upd)
  qed
qed

lemma conn_ok_pollTimer:
  assumes "conn_ok s" "r < length (bc_objs s)"
  shows "conn_ok (pollTimer r buffered s)"
proof (cases "b_pollArmed (obj s r)")
  case True
  note so = conn_okD(2) [OF assms]
  have "conn_ok (pollForDrain r buffered (upd r (\<lambda>b. b\<lparr>b_pollArmed := False\<rparr>) s))"
  proof (rule conn_ok_pollForDrain [OF assms refl])
    show "stream_ok ((obj s r)\<lparr>b_pollArmed := False\<rparr>)"
      if "\<not> (b_waitingForDrain ((obj s r)\<lparr>b_pollArmed := False\<rparr>) \<and> b_attached ((obj s r)\<lparr>b_pollArmed := False\<rparr>))"
      by (rule stream_ok_change [OF so]) (use that stream_ok_idle [OF so] in auto)
    show "stream_ok ((obj s r)\<lparr>b_pollArmed := False, b_waitingForDrain := False, b_drainCallbacks := []\<rparr>)"
      by (rule stream_ok_change [OF so]) simp_all
    show "stream_ok ((obj s r)\<lparr>b_pollArmed := False, b_pollArmed := True\<rparr>)"
      if "b_waitingForDrain ((obj s r)\<lparr>b_pollArmed := False\<rparr>) \<and> b_attached ((obj s r)\<lparr>b_pollArmed := False\<rparr>)"
      by (rule stream_ok_change [OF so]) (use that stream_ok_waiting [OF so] in auto)
  qed simp_all
  with True show ?thesis by (simp add: pollTimer_def)
qed (simp add: pollTimer_def assms)

lemma conn_ok_write_impl:
  assumes ok: "conn_ok s" and r: "r < length (bc_objs s)" and w: "node_writable s r"
  shows "conn_ok (write_impl r c cb buffered s)"
proof (cases "b_attached (obj s r)")
  case True
  let ?t = "send r (BWrite (b_id (obj s r)) c) s" and ?f = "\<lambda>b. b\<lparr>b_waitingForDrain := True, b_drainCallbacks := b_drainCallbacks b @ [cb]\<rparr>"
  have t: "conn_ok ?t" by (rule conn_ok_write_message [OF ok r True])
  note so = conn_okD(2) [OF ok r]
  have "conn_ok (pollForDrain r buffered (upd r ?f ?t))"
  proof (rule conn_ok_pollForDrain [OF t _ refl])
    show "stream_ok ((?f (obj ?t r))\<lparr>b_waitingForDrain := False, b_drainCallbacks := []\<rparr>)"
      by (rule stream_ok_change [OF so]) simp_all
    show "stream_ok ((?f (obj ?t r))\<lparr>b_pollArmed := True\<rparr>)"
      by (rule stream_ok_change [OF so]) (use True in simp_all)
  qed (use r True in simp_all)
  with True t show ?thesis by (simp add: write_impl_def Let_def conn_ok_call)
qed (simp add: write_impl_def Let_def ok conn_ok_call)

lemma conn_ok_final_impl:
  assumes "conn_ok s" "r < length (bc_objs s)" "\<not> b_destroyed (obj s r)"
  shows "conn_ok (final_impl r (upd r (\<lambda>b. b\<lparr>b_finalled := True\<rparr>) s))"
proof -
  let ?f = "\<lambda>b. b\<lparr>b_finalled := True\<rparr>" and ?ts = "if b_attached (obj s r) then [BFinish (b_id (obj s r))] else []"
  have "final_impl r (upd r ?f s) = byte_cleanup r (upd r ?f (fold (send r) ?ts s))"
    using assms(2) by (simp add: final_impl_def send_upd)
  moreover have "conn_ok (byte_cleanup r (upd r ?f (fold (send r) ?ts s)))"
    by (rule conn_ok_close [OF assms(1,2), where f = ?f and ts = ?ts])
      (use stream_ok_destroyed [OF conn_okD(2) [OF assms(1,2)]] in simp_all)
  ultimately show ?thesis by simp
qed

lemma conn_ok_disconnect:
  "conn_ok s \<Longrightarrow> \<forall>r\<in>set rs. r < length (bc_objs s) \<Longrightarrow> conn_ok (fold handleDisconnect rs s)"
  by (induction rs arbitrary: s) (simp_all add: handleDisconnect_def conn_ok_node_destroy)

lemma conn_ok_new: "conn_ok new_conn"
  by (auto simp: conn_ok_def wired_view_def statics_def new_conn_def pendings_ok_def get_pending_def receiver_of_def sender_of_def
      identities_def numbering_def log_ok_def sent_by_def)

lemma conn_ok_step:
  assumes ok: "conn_ok s"
  shows "conn_ok (byte_step s e)"
proof (cases e)
  case (CreateReceiver i)
  then show ?thesis using ok conn_ok_createReceiver [OF ok, of i] by (auto split: sum.split)
next
  case CreateSender
  then show ?thesis
    using conn_ok_construct [OF ok, of 0] by (cases "construct 0 s") (simp add: createSender_def)
next
  case (LocalWrite r c cb n)
  then show ?thesis using ok conn_ok_write_impl [OF ok, of r c cb n] by (auto simp: node_writable_def)
next
  case (LocalFinal r)
  then show ?thesis using ok conn_ok_final_impl [OF ok, of r] by (auto simp: node_writable_def)
next
  case Disconnect
  have "set (bc_handlers s) = {r. r < length (statics s) \<and> fst (snd (statics s ! r))}"
    using conn_okD(1) [OF ok] unfolding wired_view_def by (elim conjE)
  then have "\<forall>r\<in>set (bc_handlers s). r < length (bc_objs s)" by simp
  then show ?thesis using Disconnect conn_ok_disconnect [OF ok] by simp
qed (simp_all add: ok conn_ok_byte_init conn_ok_writeReceiver conn_ok_finishReceiver conn_ok_destroySubstream conn_ok_expirePending
    conn_ok_node_destroy conn_ok_pollTimer conn_ok_cleanup)

interpretation byte_streams: event_system new_conn byte_step conn_ok
  by unfold_locales (fact conn_ok_new, fact conn_ok_step)

abbreviation byte_run :: "byte_event list \<Rightarrow> byte_conn" where
  "byte_run es \<equiv> run_events byte_step new_conn es"

section \<open>Properties of every run\<close>

text \<open>C16. In every reachable state of a connection the maps, the stream objects and the disconnect handlers
  agree: the receiver (sender) filed under an id is an attached stream object of that kind with that id, every
  attached stream object is filed, exactly the attached streams have a disconnect handler, each one handler,
  and no two senders ever had the same id.\<close>

theorem byte_streams_wired:
  "let s = byte_run es in
     (\<forall>i r. receiver_of s i = Some r \<longleftrightarrow>
        r < length (bc_objs s) \<and> b_attached (obj s r) \<and> \<not> b_isSender (obj s r) \<and> b_id (obj s r) = i)
   \<and> (\<forall>i r. sender_of s i = Some r \<longleftrightarrow>
        r < length (bc_objs s) \<and> b_attached (obj s r) \<and> b_isSender (obj s r) \<and> b_id (obj s r) = i)
   \<and> distinct (bc_handlers s) \<and> set (bc_handlers s) = {r. r < length (bc_objs s) \<and> b_attached (obj s r)}
   \<and> distinct (map b_id (filter b_isSender (bc_objs s)))"
proof -
  define s where "s = byte_run es"
  have ok: "conn_ok s" unfolding s_def by (rule byte_streams.reachable_holds)
  note w = conn_okD(1) [OF ok, unfolded wired_view_def length_statics]
  note rcv_in = w [THEN conjunct1, rule_format] and snd_in = w [THEN conjunct2, THEN conjunct1, rule_format]
    and rcv_at = w [THEN conjunct2, THEN conjunct2, THEN conjunct1, rule_format]
    and snd_at = w [THEN conjunct2, THEN conjunct2, THEN conjunct2, THEN conjunct1, rule_format]
    and hs = w [THEN conjunct2, THEN conjunct2, THEN conjunct2, THEN conjunct2]
  have rcv: "receiver_of s i = Some r \<longleftrightarrow>
      r < length (bc_objs s) \<and> b_attached (obj s r) \<and> \<not> b_isSender (obj s r) \<and> b_id (obj s r) = i" for i r
    using rcv_in [of i r] rcv_at [of r i] statics_nth [of r s] by auto
  have snd: "sender_of s i = Some r \<longleftrightarrow>
      r < length (bc_objs s) \<and> b_attached (obj s r) \<and> b_isSender (obj s r) \<and> b_id (obj s r) = i" for i r
    using snd_in [of i r] snd_at [of r i] statics_nth [of r s] by auto
  have "set (bc_handlers s) = {r. r < length (bc_objs s) \<and> b_attached (obj s r)}"
    unfolding hs [THEN conjunct2] by (auto simp: statics_nth)
  moreover have "distinct (map fst (filter snd (identities s)))"
    using conn_okD(4) [OF ok] by (cases "numbering s") auto
  then have "distinct (map b_id (filter b_isSender (bc_objs s)))"
    by (simp add: identities_def filter_map comp_def)
  ultimately show ?thesis using rcv snd hs [THEN conjunct1] unfolding s_def [symmetric] Let_def by blast
qed

text \<open>C17. What is buffered for a stream without a receiver is bounded: in every reachable state such a stream has
  no receiver, its byte count is the size of its chunks, never above the 2 MB limit, and nothing is kept once
  it failed.\<close>

theorem pending_receivers_bounded:
  "\<forall>i p. get_pending (byte_run es) i = Some p \<longrightarrow>
     receiver_of (byte_run es) i = None
   \<and> p_bytes p = (\<Sum>c\<leftarrow>p_chunks p. int (length c)) \<and> p_bytes p \<le> 2 * 1024 * 1024
   \<and> (p_destroyedError p \<noteq> None \<longrightarrow> p_chunks p = [])"
  using conn_okD(3) [OF byte_streams.reachable_holds [of es]]
  by (simp only: pendings_ok_def pending_ok_def PENDING_RECEIVER_MAX_BYTES_def)

theorem pending_receivers_bounded_witness:
  "p_bytes (the (get_pending (byte_run [Init True, RemoteWrite 1 ''abc'', RemoteWrite 1 ''de'']) 1)) = 5
   \<and> receiver_of (byte_run [Init True, RemoteWrite 1 ''abc'', RemoteWrite 1 ''de'']) 1 = None"
proof -
  define es where "es = [Init True, RemoteWrite 1 ''abc'', RemoteWrite 1 ''de'']"
  have p: "get_pending (byte_run es) 1 = Some \<lparr>p_chunks = [''abc'', ''de''], p_bytes = 5, p_finished = False, p_destroyedError = None, p_timeout = Armed\<rparr>"
    by (simp add: es_def new_conn_def byte_init_def new_info_def writeReceiver_def receiver_of_def get_pending_def Let_def new_pending_def
        buffer_chunk_def set_pending_def on_info_def PENDING_RECEIVER_MAX_BYTES_def jset_def)
  show ?thesis using pending_receivers_bounded [of es, rule_format, OF p] unfolding es_def [symmetric] p by simp
qed

text \<open>The wire protocol of a stream: in every run, what one stream object handed to the transport is a
  sequence of writes followed by at most one message that ends the stream (finish or destroy), all under the
  stream's own id; after the ending message nothing more is sent for it.\<close>

theorem one_terminator_per_stream:
  "\<forall>r<length (bc_objs (byte_run es)). \<exists>ws ts.
     sent_by r (byte_run es) = map (BWrite (b_id (obj (byte_run es) r))) ws @ ts
   \<and> (ts = [] \<or> (\<exists>t. ts = [t] \<and> terminator (b_id (obj (byte_run es) r)) t \<and> \<not> b_attached (obj (byte_run es) r)))"
proof (intro allI impI)
  fix r assume "r < length (bc_objs (byte_run es))"
  then have "transcript_ok (b_id (obj (byte_run es) r)) (b_attached (obj (byte_run es) r)) (sent_by r (byte_run es))"
    using conn_okD(5) [OF byte_streams.reachable_holds [of es]] unfolding log_ok_def by blast
  then show "\<exists>ws ts. sent_by r (byte_run es) = map (BWrite (b_id (obj (byte_run es) r))) ws @ ts
   \<and> (ts = [] \<or> (\<exists>t. ts = [t] \<and> terminator (b_id (obj (byte_run es) r)) t \<and> \<not> b_attached (obj (byte_run es) r)))"
    unfolding transcript_ok_def by (metis append_Nil2)
qed

theorem one_terminator_per_stream_witness:
  "\<exists>ws ts. sent_by 0 (byte_run [Init False, CreateSender, LocalWrite 0 ''x'' 7 0, LocalFinal 0, LocalDestroy 0 None]) = map (BWrite 1) ws @ ts
     \<and> (ts = [] \<or> (\<exists>t. ts = [t] \<and> terminator 1 t))"
proof -
  define s where "s = byte_run [Init False, CreateSender, LocalWrite 0 ''x'' 7 0, LocalFinal 0, LocalDestroy 0 None]"
  have "length (bc_objs s) = 1 \<and> b_id (obj s 0) = 1"
    by (simp add: s_def new_conn_def byte_init_def new_info_def createSender_def construct_def Let_def node_writable_def new_stream_def obj_def
        write_impl_def send_def call_def HIGH_WATER_MARK_def final_impl_def upd_def byte_cleanup_def on_info_def node_destroy_def destroy_impl_def)
  then show ?thesis
    using one_terminator_per_stream [of "[Init False, CreateSender, LocalWrite 0 ''x'' 7 0, LocalFinal 0, LocalDestroy 0 None]", rule_format, of 0]
    unfolding s_def [symmetric] by auto
qed

text \<open>C18. A writer that is held back is always woken: while callbacks wait, the stream is attached and a poll is
  scheduled; the poll that finds the WebSocket buffer below the mark calls every waiting callback, one that
  does not schedules the next poll, and destroying the stream calls them too.\<close>

theorem blocked_writer_resumes:
  assumes "s = byte_run es" "r < length (bc_objs s)" "b_drainCallbacks (obj s r) \<noteq> []"
  shows "b_attached (obj s r) \<and> b_pollArmed (obj s r)
   \<and> (\<forall>n<HIGH_WATER_MARK. bc_called (byte_step s (PollTimer r n)) = bc_called s @ map (\<lambda>cb. (cb, None)) (b_drainCallbacks (obj s r))
        \<and> b_drainCallbacks (obj (byte_step s (PollTimer r n)) r) = [])
   \<and> (\<forall>n\<ge>HIGH_WATER_MARK. b_pollArmed (obj (byte_step s (PollTimer r n)) r)
        \<and> b_drainCallbacks (obj (byte_step s (PollTimer r n)) r) = b_drainCallbacks (obj s r))
   \<and> (\<forall>e. bc_called (byte_step s (LocalDestroy r e)) = bc_called s @ map (\<lambda>cb. (cb, None)) (b_drainCallbacks (obj s r)))"
proof -
  have ok: "conn_ok s" unfolding assms(1) by (rule byte_streams.reachable_holds)
  note so = conn_okD(2) [OF ok assms(2)]
  have att: "b_attached (obj s r)" "b_waitingForDrain (obj s r)" using stream_ok_idle [OF so] assms(3) by auto
  have armed: "b_pollArmed (obj s r)" using stream_ok_waiting [OF so att(2,1)] by simp
  have live: "\<not> b_destroyed (obj s r)" using so att(1) unfolding stream_ok_def by blast
  have local: "\<not> b_isLocallyDestroyed (obj s r)" using live stream_ok_destroyed [OF so] by simp
  have "bc_called (byte_step s (LocalDestroy r e)) = bc_called s @ map (\<lambda>cb. (cb, None)) (b_drainCallbacks (obj s r))" for e
    using assms(2) live local by (simp add: node_destroy_def destroy_impl_def Let_def cleanup_maps)
  then show ?thesis
    using assms(2) att armed by (simp add: pollTimer_def pollForDrain_def Let_def)
qed

theorem blocked_writer_resumes_witness:
  "let s = byte_run [Init False, CreateSender, LocalWrite 0 ''x'' 7 300000]
   in b_drainCallbacks (obj s 0) = [7] \<and> b_pollArmed (obj s 0) \<and> bc_called s = [] \<and> bc_called (byte_step s (PollTimer 0 1000)) = [(7, None)]"
proof -
  define es where "es = [Init False, CreateSender, LocalWrite 0 ''x'' 7 300000]"
  define s where "s = byte_run es"
  have s: "length (bc_objs s) = 1 \<and> b_drainCallbacks (obj s 0) = [7] \<and> bc_called s = []"
    by (simp add: s_def es_def new_conn_def byte_init_def new_info_def createSender_def construct_def Let_def node_writable_def new_stream_def obj_def
        write_impl_def send_def call_def HIGH_WATER_MARK_def upd_def pollForDrain_def)
  have "(1000::int) < HIGH_WATER_MARK" by (simp add: HIGH_WATER_MARK_def)
  with blocked_writer_resumes [OF s_def, of 0] s show ?thesis
    unfolding es_def [symmetric] s_def [symmetric] Let_def by auto
qed

section \<open>Delivery\<close>

definition pending_at :: "byte_conn \<Rightarrow> int \<Rightarrow> pending_receiver" where
  "pending_at s i = nullish (get_pending s i) new_pending"

text \<open>Before the receiver exists.\<close>

lemma early_writes:
  assumes "bc_info s \<noteq> None" "receiver_of s i = None" "p_destroyedError (pending_at s i) = None"
    and "p_bytes (pending_at s i) + (\<Sum>c\<leftarrow>cs. int (length c)) \<le> PENDING_RECEIVER_MAX_BYTES"
  shows "let t = run_events byte_step s (map (RemoteWrite i) cs) in
     bc_objs t = bc_objs s \<and> bc_info t \<noteq> None \<and> receiver_of t = receiver_of s
     \<and> p_chunks (pending_at t i) = p_chunks (pending_at s i) @ cs \<and> p_finished (pending_at t i) = p_finished (pending_at s i)
     \<and> p_destroyedError (pending_at t i) = None"
  using assms
proof (induction cs arbitrary: s)
  case (Cons c cs)
  define v where "v = byte_step s (RemoteWrite i c)"
  have nn: "(\<Sum>c\<leftarrow>cs. int (length c)) \<ge> 0" by (rule sum_list_nonneg) auto
  then have room: "p_bytes (pending_at s i) + int (length c) \<le> PENDING_RECEIVER_MAX_BYTES" using Cons.prems(4) by simp
  have u: "v = set_pending i (buffer_chunk c (pending_at s i)) s"
    using Cons.prems(2,3) by (simp add: v_def writeReceiver_def Let_def pending_at_def)
  have info: "bc_info v \<noteq> None" unfolding u using Cons.prems(1) by (simp add: set_pending_def)
  have at: "pending_at v i = buffer_chunk c (pending_at s i)" unfolding u using Cons.prems(1) by (auto simp: pending_at_def)
  have fields: "p_bytes (pending_at v i) = p_bytes (pending_at s i) + int (length c)"
    "p_chunks (pending_at v i) = p_chunks (pending_at s i) @ [c]" "p_finished (pending_at v i) = p_finished (pending_at s i)"
    "p_destroyedError (pending_at v i) = None"
    using room Cons.prems(3) by (simp_all add: at buffer_chunk_def Let_def)
  have same: "bc_objs v = bc_objs s" "receiver_of v = receiver_of s" by (simp_all only: u pending_frame pending_maps)
  have "p_bytes (pending_at v i) + (\<Sum>c\<leftarrow>cs. int (length c)) \<le> PENDING_RECEIVER_MAX_BYTES"
    using Cons.prems(4) fields(1) by simp
  moreover have "run_events byte_step s (map (RemoteWrite i) (c # cs)) = run_events byte_step v (map (RemoteWrite i) cs)"
    by (simp add: v_def)
  ultimately show ?case using Cons.IH [OF info _ fields(4)] Cons.prems(2) same fields by (simp add: Let_def)
qed simp

lemma early_finish:
  assumes "bc_info s \<noteq> None" "receiver_of s i = None" "p_destroyedError (pending_at s i) = None"
  shows "let t = byte_step s (RemoteFinish i) in
     bc_objs t = bc_objs s \<and> bc_info t \<noteq> None \<and> receiver_of t = receiver_of s
     \<and> p_chunks (pending_at t i) = p_chunks (pending_at s i) \<and> p_finished (pending_at t i) \<and> p_destroyedError (pending_at t i) = None"
proof -
  have "byte_step s (RemoteFinish i) = set_pending i ((pending_at s i)\<lparr>p_finished := True\<rparr>) s"
    using assms(2,3) by (simp add: finishReceiver_def Let_def pending_at_def)
  then show ?thesis using assms(1,3) by (simp add: Let_def pending_at_def) (simp add: set_pending_def)
qed

text \<open>Once it exists.\<close>

lemma pushes:
  assumes "r < length (bc_objs s)" "\<not> b_ended (obj s r)" "\<not> b_destroyed (obj s r)"
  shows "let t = fold (node_push r) cs s in
     length (bc_objs t) = length (bc_objs s) \<and> receiver_of t = receiver_of s
     \<and> obj t r = (obj s r)\<lparr>b_received := b_received (obj s r) @ filter (\<lambda>c. c \<noteq> []) cs\<rparr>"
  using assms
proof (induction cs arbitrary: s)
  case (Cons c cs)
  show ?case
  proof (cases "c = []")
    case True
    with Cons show ?thesis by (simp add: node_push_def)
  next
    case False
    let ?u = "node_push r c s"
    have u: "?u = upd r (\<lambda>b. b\<lparr>b_received := b_received b @ [c]\<rparr>) s" using False Cons.prems by (simp add: node_push_def)
    show ?thesis using Cons.IH [of ?u] Cons.prems False by (simp add: u Let_def)
  qed
qed simp

lemma late_writes:
  assumes "receiver_of s i = Some r" "r < length (bc_objs s)" "\<not> b_ended (obj s r)" "\<not> b_destroyed (obj s r)"
  shows "run_events byte_step s (map (RemoteWrite i) cs) = fold (node_push r) cs s"
  using assms
proof (induction cs arbitrary: s)
  case (Cons c cs)
  let ?u = "node_push r c s"
  have "byte_step s (RemoteWrite i c) = ?u" using Cons.prems(1) by (simp add: writeReceiver_def)
  moreover have "receiver_of ?u i = Some r" "r < length (bc_objs ?u)" "\<not> b_ended (obj ?u r)" "\<not> b_destroyed (obj ?u r)"
    using pushes [OF Cons.prems(2-4), of "[c]"] Cons.prems by (simp_all add: Let_def)
  ultimately show ?case using Cons.IH [of ?u] by simp
qed simp

text \<open>The receiver, created at any point, holds what was buffered.\<close>

lemma created:
  assumes "i \<noteq> 0" "receiver_of s i = None" "p_destroyedError (pending_at s i) = None"
  shows "let t = byte_step s (CreateReceiver i); r = length (bc_objs s) in
     receiver_of t i = Some r \<and> length (bc_objs t) = Suc r
     \<and> b_received (obj t r) = filter (\<lambda>c. c \<noteq> []) (p_chunks (pending_at s i)) \<and> b_ended (obj t r) = p_finished (pending_at s i)
     \<and> \<not> b_destroyed (obj t r)"
proof -
  obtain r u where c: "construct i s = (r, u)" by force
  note f = construct_frame [OF c]
  have r: "r = length (bc_objs s)" "length (bc_objs u) = Suc r" using f(1,4) by simp_all
  have new: "obj u r = new_stream i False" using f(1,4) assms(1) by (simp add: obj_def)
  show ?thesis
  proof (cases "get_pending s i")
    case None
    then have "createReceiver i s = Inr (r, u)" using assms(2) c by (simp add: createReceiver_def has_receiver_of f(7))
    then show ?thesis using None r new f(5) assms(1) by (simp add: Let_def pending_at_def new_pending_def new_stream_def)
  next
    case (Some p)
    let ?v = "drop_pending i u"
    have p: "pending_at s i = p" "p_destroyedError p = None" using Some assms(3) by (simp_all add: pending_at_def)
    have "createReceiver i s = Inr (r, deliver_pending r p ?v)"
      using Some assms(2) c by (simp add: createReceiver_def has_receiver_of f(7))
    moreover have "r < length (bc_objs ?v)" "\<not> b_ended (obj ?v r)" "\<not> b_destroyed (obj ?v r)"
      using r(2) by (simp_all add: new) (simp_all add: new_stream_def)
    note push = pushes [OF this, of "p_chunks p", unfolded Let_def]
    ultimately show ?thesis
      using push p r new f(5) assms(1)
      by (simp add: Let_def deliver_pending_def node_push_null_def new_stream_def)
  qed
qed

text \<open>C19. A stream's bytes arrive whether its receiver is created before, between or after them: on any initialised
  connection that has nothing for the id yet, if the remote writes chunks and finishes, and the receiver is
  created after any number \<open>n\<close> of these messages, then the receiver holds all chunks in order (empty ones are
  not visible), its readable side has ended, and it is not in error, provided what arrived before the creation
  is within the 2 MB limit.\<close>

theorem delivery_is_independent_of_creation:
  assumes "bc_info s \<noteq> None" "i \<noteq> 0" "receiver_of s i = None" "get_pending s i = None"
    and "n \<le> length chunks \<Longrightarrow> (\<Sum>c\<leftarrow>take n chunks. int (length c)) \<le> PENDING_RECEIVER_MAX_BYTES"
    and "n > length chunks \<Longrightarrow> (\<Sum>c\<leftarrow>chunks. int (length c)) \<le> PENDING_RECEIVER_MAX_BYTES"
    and "ops = map (RemoteWrite i) chunks @ [RemoteFinish i]"
    and "t = run_events byte_step s (take n ops @ [CreateReceiver i] @ drop n ops)"
  shows "\<exists>r. receiver_of t i = Some r \<and> b_received (obj t r) = filter (\<lambda>c. c \<noteq> []) chunks
     \<and> b_ended (obj t r) \<and> \<not> b_destroyed (obj t r)"
proof -
  have new: "pending_at s i = new_pending" using assms(4) by (simp add: pending_at_def)
  have p0: "p_destroyedError (pending_at s i) = None" "p_bytes (pending_at s i) = 0" "p_chunks (pending_at s i) = []" "\<not> p_finished (pending_at s i)"
    by (simp_all add: new new_pending_def)
  show ?thesis
  proof (cases "n \<le> length chunks")
    case True
    let ?u = "run_events byte_step s (map (RemoteWrite i) (take n chunks))"
    let ?v = "byte_step ?u (CreateReceiver i)" and ?r = "length (bc_objs s)"
    let ?w = "fold (node_push ?r) (drop n chunks) ?v"
    note u = early_writes [OF assms(1,3) p0(1), of "take n chunks", unfolded p0 Let_def add_0, OF assms(5) [OF True]]
    have v: "receiver_of ?v i = Some ?r" "length (bc_objs ?v) = Suc ?r" "b_received (obj ?v ?r) = filter (\<lambda>c. c \<noteq> []) (take n chunks)"
        "\<not> b_ended (obj ?v ?r)" "\<not> b_destroyed (obj ?v ?r)"
      using created [OF assms(2), of ?u] u assms(3) p0(4) by (simp_all add: Let_def)
    have r: "?r < length (bc_objs ?v)" using v(2) by simp
    note w = pushes [OF r v(4,5), of "drop n chunks", unfolded Let_def]
    have "t = run_events byte_step ?v (map (RemoteWrite i) (drop n chunks) @ [RemoteFinish i])"
      using True by (simp add: assms(7,8) run_events_append take_map drop_map)
    then have "t = byte_step ?w (RemoteFinish i)"
      by (simp only: run_events_append late_writes [OF v(1) r v(4,5)] run_events_simps)
    then have "t = node_push_null ?r ?w" using w v(1) by (simp add: finishReceiver_def)
    then show ?thesis
      using w v r by (intro exI [of _ ?r]) (simp add: node_push_null_def flip: filter_append)
  next
    case False
    let ?u = "run_events byte_step s (map (RemoteWrite i) chunks)"
    let ?f = "byte_step ?u (RemoteFinish i)"
    let ?v = "byte_step ?f (CreateReceiver i)" and ?r = "length (bc_objs s)"
    have lim: "0 + (\<Sum>c\<leftarrow>chunks. int (length c)) \<le> PENDING_RECEIVER_MAX_BYTES" using assms(6) False by simp
    note u = early_writes [OF assms(1,3) p0(1), of chunks, unfolded p0 Let_def, OF lim]
    note f = early_finish [of ?u i, unfolded Let_def]
    have "t = ?v" using False by (simp add: assms(7,8) run_events_append)
    moreover have "receiver_of ?v i = Some ?r \<and> b_received (obj ?v ?r) = filter (\<lambda>c. c \<noteq> []) chunks \<and> b_ended (obj ?v ?r) \<and> \<not> b_destroyed (obj ?v ?r)"
      using created [OF assms(2), of ?f] u f assms(3) by (simp add: Let_def)
    ultimately show ?thesis by blast
  qed
qed

theorem delivery_is_independent_of_creation_witness:
  "\<exists>r t. t = run_events byte_step (byte_init 1 2 new_conn)
       [RemoteWrite 2 ''ab'', CreateReceiver 2, RemoteWrite 2 '''', RemoteWrite 2 ''c'', RemoteFinish 2]
     \<and> receiver_of t 2 = Some r \<and> b_received (obj t r) = [''ab'', ''c''] \<and> b_ended (obj t r) \<and> \<not> b_destroyed (obj t r)"
proof -
  define s where "s = byte_init 1 2 new_conn"
  have s: "bc_info s \<noteq> None" "receiver_of s 2 = None" "get_pending s 2 = None"
    by (simp_all add: s_def byte_init_def new_conn_def receiver_of_def get_pending_def) (simp_all add: new_info_def)
  have ops: "map (RemoteWrite 2) [''ab'', '''', ''c''] @ [RemoteFinish 2] = [RemoteWrite 2 ''ab'', RemoteWrite 2 '''', RemoteWrite 2 ''c'', RemoteFinish 2]" by simp
  have small: "(\<Sum>c\<leftarrow>take 1 [''ab'', '''', ''c'']. int (length c)) \<le> PENDING_RECEIVER_MAX_BYTES"
    by (simp add: PENDING_RECEIVER_MAX_BYTES_def)
  from delivery_is_independent_of_creation [OF s(1) _ s(2,3), of 1 "[''ab'', '''', ''c'']", OF _ small _ refl refl, unfolded ops]
  obtain r where "receiver_of (run_events byte_step s [RemoteWrite 2 ''ab'', CreateReceiver 2, RemoteWrite 2 '''', RemoteWrite 2 ''c'', RemoteFinish 2]) 2 = Some r
    \<and> b_received (obj (run_events byte_step s [RemoteWrite 2 ''ab'', CreateReceiver 2, RemoteWrite 2 '''', RemoteWrite 2 ''c'', RemoteFinish 2]) r) = [''ab'', ''c'']
    \<and> b_ended (obj (run_events byte_step s [RemoteWrite 2 ''ab'', CreateReceiver 2, RemoteWrite 2 '''', RemoteWrite 2 ''c'', RemoteFinish 2]) r)
    \<and> \<not> b_destroyed (obj (run_events byte_step s [RemoteWrite 2 ''ab'', CreateReceiver 2, RemoteWrite 2 '''', RemoteWrite 2 ''c'', RemoteFinish 2]) r)"
    by auto
  then show ?thesis unfolding s_def by blast
qed

section \<open>Failure\<close>

text \<open>A receiver created for a stream that already failed (its buffer overflowed or expired, or the remote
  destroyed it) is born destroyed with that failure: it shows no bytes, is not registered, leaves no buffered
  state behind, and the remote is told once, with the same error.\<close>

theorem failed_stream_is_born_destroyed:
  assumes "s = byte_run es" "i \<noteq> 0" "get_pending s i = Some p" "p_destroyedError p = Some e"
  shows "\<exists>r t. createReceiver i s = Inr (r, t) \<and> b_destroyed (obj t r) \<and> b_error (obj t r) = Some e \<and> b_received (obj t r) = []
     \<and> receiver_of t i = None \<and> get_pending t i = None \<and> sent_by r t = [BDestroy i (Some e)]"
proof -
  have ok: "conn_ok s" unfolding assms(1) by (rule byte_streams.reachable_holds)
  have none: "receiver_of s i = None" using conn_okD(3) [OF ok] assms(3) by (simp add: pendings_ok_def)
  obtain r u where c: "construct i s = (r, u)" by force
  note f = construct_frame [OF c]
  have r: "r < length (bc_objs u)" "obj u r = new_stream i False" using f(1,4) assms(2) by (simp_all add: obj_def)
  have sent: "sent_by r u = []" using conn_okD(5) [OF ok] f(1,3) by (simp add: log_ok_def)
  let ?v = "drop_pending i u"
  have v: "r < length (bc_objs ?v)" "obj ?v r = new_stream i False" "sent_by r ?v = []" "receiver_of ?v i = Some r"
    using r sent f(5) assms(2) by simp_all
  have cr: "createReceiver i s = Inr (r, node_destroy (Some e) r ?v)"
    using assms(3,4) none c by (simp add: createReceiver_def has_receiver_of f(7) deliver_pending_def)
  have "sent_by r (byte_cleanup r t) = sent_by r t" if "r < length (bc_objs t)" for t
    using that by (simp add: sent_by_def cleanup_maps)
  then show ?thesis
    using cr v by (intro exI [of _ r] exI [of _ "node_destroy (Some e) r ?v"])
      (simp add: node_destroy_def destroy_impl_def Let_def cleanup_maps new_stream_def)
qed

text \<open>The witness is a fault of the code: a late message for a receiver that has ended leaves a failed entry
  behind, and the next stream with the same id (a server numbers its streams from 2 again on every
  connection, while the client keeps the maps of the previous one) is destroyed at birth.\<close>

definition reused_id_events :: "byte_event list" where
  "reused_id_events = [Init False, CreateReceiver 2, RemoteWrite 2 ''a'', RemoteFinish 2, EndEvent 0, RemoteDestroy 2 None]"

theorem failed_stream_is_born_destroyed_witness:
  "\<exists>r t. createReceiver 2 (byte_run reused_id_events) = Inr (r, t) \<and> b_destroyed (obj t r)
     \<and> b_error (obj t r) = Some ''Remote destroyed substream'' \<and> b_received (obj t r) = []"
proof -
  have p: "get_pending (byte_run reused_id_events) 2
      = Some \<lparr>p_chunks = [], p_bytes = 0, p_finished = False, p_destroyedError = Some ''Remote destroyed substream'', p_timeout = NoTimer\<rparr>"
    by (simp add: reused_id_events_def new_conn_def byte_init_def new_info_def createReceiver_def has_receiver_def construct_def Let_def get_pending_def
        new_stream_def writeReceiver_def receiver_of_def node_push_def obj_def upd_def finishReceiver_def node_push_null_def byte_cleanup_def
        on_info_def call_def jdelete_def jset_def destroySubstream_def sender_of_def set_pending_def pending_failed_def new_pending_def)
  show ?thesis
    using failed_stream_is_born_destroyed [OF refl _ p] by auto
qed

text \<open>A destroy signal from the remote side is never echoed: in every reachable state, handling it sends
  nothing, and afterwards neither a receiver nor a sender that had the id at first is left under it.\<close>

theorem remote_destroy_is_silent:
  "let s = byte_run es; t = destroySubstream i e s in
     bc_sent t = bc_sent s \<and> receiver_of t i = None \<and> (receiver_of s i = None \<longrightarrow> sender_of t i = None)"
proof -
  define s where "s = byte_run es"
  have ok: "conn_ok s" unfolding s_def by (rule byte_streams.reachable_holds)
  have gone: "bc_sent (node_destroy err r (upd r (\<lambda>b. b\<lparr>b_isRemotelyDestroyed := True\<rparr>) s)) = bc_sent s
      \<and> (\<not> b_isSender (obj s r) \<longrightarrow> receiver_of (node_destroy err r (upd r (\<lambda>b. b\<lparr>b_isRemotelyDestroyed := True\<rparr>) s)) (b_id (obj s r)) = None)
      \<and> (b_isSender (obj s r) \<longrightarrow> sender_of (node_destroy err r (upd r (\<lambda>b. b\<lparr>b_isRemotelyDestroyed := True\<rparr>) s)) (b_id (obj s r)) = None
           \<and> receiver_of (node_destroy err r (upd r (\<lambda>b. b\<lparr>b_isRemotelyDestroyed := True\<rparr>) s)) = receiver_of s)"
    if r: "r < length (bc_objs s)" "b_attached (obj s r)" for err r
  proof -
    note so = conn_okD(2) [OF ok r(1)]
    have "\<not> b_destroyed (obj s r)" using so r(2) unfolding stream_ok_def by blast
    moreover have "\<not> b_isLocallyDestroyed (obj s r)" using stream_ok_destroyed [OF so] calculation by simp
    ultimately show ?thesis
      using r by (simp add: node_destroy_def destroy_impl_def Let_def cleanup_maps fun_eq_iff)
  qed
  note w = conn_okD(1) [OF ok, unfolded wired_view_def length_statics]
  have at: "receiver_of s i = Some r \<Longrightarrow> r < length (bc_objs s) \<and> b_attached (obj s r) \<and> \<not> b_isSender (obj s r) \<and> b_id (obj s r) = i"
    "sender_of s i = Some r \<Longrightarrow> r < length (bc_objs s) \<and> b_attached (obj s r) \<and> b_isSender (obj s r) \<and> b_id (obj s r) = i" for r
    using w [THEN conjunct1, rule_format, of i r] w [THEN conjunct2, THEN conjunct1, rule_format, of i r] statics_nth [of r s] by auto
  have pend: "bc_sent (set_pending i p s) = bc_sent s" for p by (simp add: set_pending_def)
  show ?thesis
  proof (cases "receiver_of s i")
    case (Some r)
    with gone [of r "if truthy_str e then e else None"] at(1) [OF Some] show ?thesis
      unfolding s_def [symmetric] by (auto simp: Let_def destroySubstream_def)
  next
    case None
    show ?thesis
    proof (cases "sender_of s i")
      case (Some r)
      with None gone [of r "if truthy_str e then e else None"] at(2) [OF Some] show ?thesis
        unfolding s_def [symmetric] by (auto simp: Let_def destroySubstream_def)
    next
      case n: None
      with None pend show ?thesis
        unfolding s_def [symmetric] by (simp add: Let_def destroySubstream_def)
    qed
  qed
qed

theorem remote_destroy_is_silent_witness:
  "let t = destroySubstream 1 None (byte_run [Init False, CreateSender]) in
     bc_sent t = bc_sent (byte_run [Init False, CreateSender]) \<and> sender_of t 1 = None"
proof -
  have "receiver_of (byte_run [Init False, CreateSender]) 1 = None"
    by (simp add: new_conn_def byte_init_def new_info_def createSender_def construct_def Let_def receiver_of_def)
  then show ?thesis using remote_destroy_is_silent [of "[Init False, CreateSender]" 1 None] by (auto simp: Let_def)
qed

end
