(* ===== verification/SrpcAuth.thy ===== *)
theory SrpcAuth
  imports Prelude
begin

text \<open>
  How an SRPC client identifies itself and how the server decides: \<open>generateWsUrl\<close> of
  \<open>src/src/srpc/SrpcClient.ts\<close>, \<open>verifyClient\<close>, \<open>validateClientAuth\<close> and \<open>fetchClientKey\<close> of
  \<open>src/src/srpc/SrpcServer.ts\<close>, and the two tables that carry the cause of a disconnect over the
  WebSocket close code.

  HMAC-SHA256 is a parameter \<open>hmac key text\<close> that gives the hexadecimal digest.  The query of the URL is
  a map from names to values: encoding it into the URL and decoding it back is the business of
  \<open>URLSearchParams\<close>.  Times are milliseconds; the clock is an argument.
\<close>

section \<open>Numbers in strings\<close>

definition ascii_digit :: "char \<Rightarrow> bool" where
  "ascii_digit c \<longleftrightarrow> 48 \<le> (of_char c :: nat) \<and> (of_char c :: nat) < 58"

fun split_sign :: "string \<Rightarrow> bool \<times> string" where
  "split_sign [] = (False, [])"
| "split_sign (c # s) = (if c = CHR ''-'' then (True, s) else if c = CHR ''+'' then (False, s) else (False, c # s))"

text \<open>\<open>parseInt(s, 10)\<close>; \<open>None\<close> is \<open>NaN\<close>.\<close>

definition parseInt10 :: "string \<Rightarrow> int option" where
  "parseInt10 s =
     (let (neg, t) = split_sign (dropWhile is_space s); ds = takeWhile ascii_digit t
      in if ds = [] then None else Some (if neg then - int (digits_value ds) else int (digits_value ds)))"

text \<open>\<open>parseInt(s)\<close> reads a number that starts with \<open>0x\<close> as hexadecimal.\<close>

definition hex_value :: "char \<Rightarrow> nat option" where
  "hex_value c = (let n = (of_char (ascii_lower c) :: nat) in
     if 48 \<le> n \<and> n < 58 then Some (n - 48) else if 97 \<le> n \<and> n < 103 then Some (n - 87) else None)"

definition parseIntAny :: "string \<Rightarrow> int option" where
  "parseIntAny s =
     (let (neg, t) = split_sign (dropWhile is_space s)
      in if to_lower (take 2 t) = ''0x''
         then let ds = takeWhile (\<lambda>c. hex_value c \<noteq> None) (drop 2 t); v = int (foldl (\<lambda>n c. 16 * n + the (hex_value c)) 0 ds)
              in if ds = [] then None else Some (if neg then - v else v)
         else parseInt10 s)"

section \<open>The cause of a disconnect\<close>

datatype disconnect_cause = CauseDisconnect | CauseConflict | CauseSupersede | CauseTimeout | CauseBadArg

fun CLOSE_CODES :: "disconnect_cause \<Rightarrow> int" where
  "CLOSE_CODES CauseDisconnect = 1000"
| "CLOSE_CODES CauseBadArg = 4000"
| "CLOSE_CODES CauseConflict = 4001"
| "CLOSE_CODES CauseSupersede = 4002"
| "CLOSE_CODES CauseTimeout = 4003"

definition CLOSE_CAUSES :: "(int, disconnect_cause) jsmap" where
  "CLOSE_CAUSES = [(4000, CauseBadArg), (4001, CauseConflict), (4002, CauseSupersede), (4003, CauseTimeout)]"

definition parseDisconnectCause :: "int \<Rightarrow> disconnect_cause" where
  "parseDisconnectCause code = nullish (jget CLOSE_CAUSES code) CauseDisconnect"

section \<open>The client's request\<close>

datatype auth_error = NoSecret | MissingMetadata

record ws_client =
  wc_uri :: string
  wc_streamId :: string
  wc_clientId :: string
  wc_clientMeta :: "(string \<times> string) list option"
  wc_clientSecret :: "string option"
  wc_appSecret :: "string option"
  wc_protocolVersion :: int
  wc_supersede :: bool

definition signable :: "string \<Rightarrow> string \<Rightarrow> string \<Rightarrow> string \<Rightarrow> string \<Rightarrow> string" where
  "signable authv appv ts streamId cid = (let nl = [CHR 0x0A] in authv @ nl @ appv @ nl @ ts @ nl @ streamId @ nl @ cid @ nl)"

definition ws_secret :: "ws_client \<Rightarrow> string option" where
  "ws_secret c = (case wc_clientSecret c of Some s \<Rightarrow> Some s | None \<Rightarrow> wc_appSecret c)"

definition base_uri :: "string \<Rightarrow> string" where
  "base_uri uri = (if strip_prefix ''ws://'' uri \<noteq> None \<or> strip_prefix ''wss://'' uri \<noteq> None then uri else ''ws://'' @ uri)"

text \<open>The URL and its query; \<open>supersede\<close> is used up by the caller.\<close>

definition generateWsUrl ::
    "(string \<Rightarrow> string \<Rightarrow> string) \<Rightarrow> int \<Rightarrow> ws_client \<Rightarrow> (auth_error, string \<times> (string, string) jsmap) result" where
  "generateWsUrl hmac now c =
     (let authv = int_to_string 1; appv = ''0.0.0''; ts = int_to_string now; cid = wc_clientId c
      in if \<not> truthy_str (ws_secret c) then Inl NoSecret
         else let signature = hmac (the (ws_secret c)) (signable authv appv ts (wc_streamId c) cid);
                  params = [(''authv'', authv), (''appv'', appv), (''ts'', ts), (''id'', wc_streamId c), (''cid'', cid),
                            (''signature'', signature), (''_v'', int_to_string (wc_protocolVersion c))];
                  params1 = (if wc_supersede c then jset ''_supersede'' ''1'' params else params);
                  params2 = (case wc_clientMeta c of
                               None \<Rightarrow> params1
                             | Some m \<Rightarrow> fold (\<lambda>(k, v) ps. jset (''m--'' @ k) v ps) m params1)
              in Inr (base_uri (wc_uri c), params2))"

section \<open>The server's decision\<close>

text \<open>\<open>clientAuthorizer\<close> and \<open>clientKeyFetcher\<close> are set by the user: their answers for the request at hand
  are part of the configuration, \<open>None\<close> when they are not set; a rejected promise is \<open>Inl\<close>.\<close>

datatype authorizer_result = AuthBool bool | AuthMeta "(string \<times> string) list"

record srpc_auth =
  sa_clientAuthorizer :: "((string, string) jsmap \<Rightarrow> (auth_error, authorizer_result) result) option"
  sa_clientKeyFetcher :: "(string \<Rightarrow> (auth_error, string option) result) option"
  sa_standardSrpcAuthKey :: "string option"
  sa_authClockDriftMs :: int
  sa_useRealIpHeader :: bool

definition fetchClientKey :: "srpc_auth \<Rightarrow> string \<Rightarrow> (auth_error, string option) result" where
  "fetchClientKey cfg clientId =
     (case sa_clientKeyFetcher cfg of
        Some f \<Rightarrow> f clientId
      | None \<Rightarrow> if truthy_str (sa_standardSrpcAuthKey cfg) then Inr (sa_standardSrpcAuthKey cfg) else Inl NoSecret)"

definition qget :: "(string, string) jsmap \<Rightarrow> string \<Rightarrow> string" where
  "qget q k = nullish (jget q k) ''undefined''"

definition validateClientAuth ::
    "(string \<Rightarrow> string \<Rightarrow> string) \<Rightarrow> int \<Rightarrow> srpc_auth \<Rightarrow> (string, string) jsmap \<Rightarrow> (auth_error, authorizer_result) result" where
  "validateClientAuth hmac now cfg q =
     (case sa_clientAuthorizer cfg of
        Some authorizer \<Rightarrow> authorizer q
      | None \<Rightarrow>
          if \<not> truthy_str (jget q ''authv'') \<or> \<not> truthy_str (jget q ''appv'') \<or> \<not> truthy_str (jget q ''ts'') \<or> \<not> truthy_str (jget q ''signature'')
          then Inl MissingMetadata
          else map_result (\<lambda>clientKey.
                 case clientKey of
                   None \<Rightarrow> AuthBool False
                 | Some key \<Rightarrow>
                     (case parseInt10 (qget q ''ts'') of
                        None \<Rightarrow> AuthBool False
                      | Some tsInt \<Rightarrow>
                          if \<bar>now - tsInt\<bar> > sa_authClockDriftMs cfg then AuthBool False
                          else AuthBool (jget q ''signature'' = Some (hmac key
                                 (signable (qget q ''authv'') (qget q ''appv'') (qget q ''ts'') (qget q ''id'') (qget q ''cid''))))))
               (fetchClientKey cfg (qget q ''cid'')))"

record stream_info =
  si_clientStreamId :: string
  si_clientId :: string
  si_appVersion :: string
  si_configureTs :: "int option"
  si_protocolVersion :: "int option"
  si_supersede :: bool
  si_address :: string
  si_meta :: "(string, string) jsmap"

definition query_meta :: "(string, string) jsmap \<Rightarrow> (string, string) jsmap" where
  "query_meta q = jmap_of (map (\<lambda>(k, v). (drop 3 k, v)) (filter (\<lambda>(k, v). strip_prefix ''m--'' k \<noteq> None) q))"

definition merge_meta :: "(string, string) jsmap \<Rightarrow> (string \<times> string) list \<Rightarrow> (string, string) jsmap" where
  "merge_meta m n = fold (\<lambda>(k, v) acc. jset k v acc) n m"

text \<open>The answer to the upgrade request: the HTTP status and text of a refusal, or what the connection will know
  of its client.  \<open>realIp\<close> is the \<open>x-real-ip\<close> header.\<close>

definition verifyClient ::
    "(string \<Rightarrow> string \<Rightarrow> string) \<Rightarrow> int \<Rightarrow> srpc_auth \<Rightarrow> string option \<Rightarrow> string \<Rightarrow> (string \<times> string) list
     \<Rightarrow> (int \<times> string, stream_info) result" where
  "verifyClient hmac now cfg realIp remoteAddress entries =
     (let q = jmap_of entries;
          address = (if sa_useRealIpHeader cfg \<and> truthy_str realIp then the realIp else remoteAddress)
      in if \<not> truthy_str (jget q ''id'') \<or> \<not> truthy_str (jget q ''cid'') \<or> \<not> truthy_str (jget q ''appv'')
         then Inl (400, ''Missing required query parameters'')
         else case validateClientAuth hmac now cfg q of
                Inl _ \<Rightarrow> Inl (500, ''Error during authentication'')
              | Inr (AuthBool False) \<Rightarrow> Inl (403, ''Failed authentication'')
              | Inr r \<Rightarrow>
                  Inr \<lparr>si_clientStreamId = qget q ''id'', si_clientId = qget q ''cid'', si_appVersion = qget q ''appv'',
                       si_configureTs = parseIntAny (nullish (jget q ''ts'') ''0''),
                       si_protocolVersion = parseIntAny (nullish (jget q ''_v'') ''1''),
                       si_supersede = (jget q ''_supersede'' = Some ''1''), si_address = address,
                       si_meta = merge_meta (query_meta q) (case r of AuthMeta m \<Rightarrow> m | AuthBool _ \<Rightarrow> [])\<rparr>)"

section \<open>The codes are a round trip\<close>

text \<open>The cause the server closes a connection with is the cause the client reports: the client's table of
  close codes inverts the server's, for every cause.\<close>

theorem disconnect_cause_roundtrip: "parseDisconnectCause (CLOSE_CODES cause) = cause"
  by (cases cause) (simp_all add: parseDisconnectCause_def CLOSE_CAUSES_def)

section \<open>Numbers\<close>

lemma ascii_digit_nat_to_string: "\<forall>c\<in>set (nat_to_string n). ascii_digit c"
  using nat_to_string_digits by (auto simp: ascii_digit_def)

lemma takeWhile_digits: "takeWhile ascii_digit (nat_to_string n) = nat_to_string n"
  using ascii_digit_nat_to_string by (simp add: takeWhile_eq_all_conv)

lemma nat_to_string_Cons:
  obtains c cs where "nat_to_string n = c # cs" "ascii_digit c"
  using ascii_digit_nat_to_string [of n] by (cases "nat_to_string n") auto

lemma digit_plain: "ascii_digit c \<Longrightarrow> \<not> is_space c \<and> c \<noteq> CHR ''-'' \<and> c \<noteq> CHR ''+''"
  by (auto simp: ascii_digit_def is_space_def)

lemma split_sign_int: "split_sign (dropWhile is_space (int_to_string i)) = (i < 0, nat_to_string (nat \<bar>i\<bar>))"
proof (cases "i < 0")
  case True
  then show ?thesis by (simp add: int_to_string_def is_space_def)
next
  case False
  obtain c cs where "nat_to_string (nat i) = c # cs" "ascii_digit c" by (rule nat_to_string_Cons)
  with False digit_plain [of c] show ?thesis by (simp add: int_to_string_def)
qed

lemma parseInt10_int_to_string: "parseInt10 (int_to_string i) = Some i"
  by (simp add: parseInt10_def Let_def split_sign_int takeWhile_digits digits_value_nat_to_string)

lemma int_to_string_nonempty [simp]: "int_to_string i \<noteq> []"
  by (simp add: int_to_string_def)

lemma take2_lower_not_0x: "\<forall>c\<in>set t. ascii_digit c \<Longrightarrow> to_lower (take 2 t) \<noteq> ''0x''"
proof
  assume d: "\<forall>c\<in>set t. ascii_digit c" and eq: "to_lower (take 2 t) = ''0x''"
  have "CHR ''x'' \<in> ascii_lower ` set (take 2 t)"
    using arg_cong [OF eq, of set] by (simp add: to_lower_def)
  then obtain c where c: "c \<in> set t" "ascii_lower c = CHR ''x''" using set_take_subset [of 2 t] by auto
  with d have "ascii_digit c" by blast
  then have "ascii_lower c = c" by (auto simp: ascii_lower_def ascii_digit_def)
  with c \<open>ascii_digit c\<close> show False by (simp add: ascii_digit_def)
qed

lemma parseInt_int_to_string: "parseIntAny (int_to_string i) = Some i"
  using take2_lower_not_0x [OF ascii_digit_nat_to_string, of "nat \<bar>i\<bar>"] parseInt10_int_to_string [of i]
  by (simp add: parseIntAny_def split_sign_int)

section \<open>A signed request is accepted\<close>

definition meta_entries :: "ws_client \<Rightarrow> (string \<times> string) list" where
  "meta_entries c = nullish (wc_clientMeta c) []"

definition std_params :: "(string \<Rightarrow> string \<Rightarrow> string) \<Rightarrow> int \<Rightarrow> ws_client \<Rightarrow> (string, string) jsmap" where
  "std_params hmac now c =
     [(''authv'', int_to_string 1), (''appv'', ''0.0.0''), (''ts'', int_to_string now), (''id'', wc_streamId c), (''cid'', wc_clientId c),
      (''signature'', hmac (the (ws_secret c)) (signable (int_to_string 1) ''0.0.0'' (int_to_string now) (wc_streamId c) (wc_clientId c))),
      (''_v'', int_to_string (wc_protocolVersion c))]
     @ (if wc_supersede c then [(''_supersede'', ''1'')] else [])"

abbreviation meta_key :: "string \<times> string \<Rightarrow> string \<times> string" where
  "meta_key \<equiv> \<lambda>(k, v). (''m--'' @ k, v)"

lemma std_params_keys: "k \<in> fst ` set (std_params hmac now c) \<Longrightarrow> strip_prefix ''m--'' k = None"
  by (auto simp: std_params_def split: if_splits)

lemma distinct_std_params: "distinct (map fst (std_params hmac now c))"
  by (simp add: std_params_def)

lemma fold_meta_key:
  "fold (\<lambda>(k, v) ps. jset (''m--'' @ k) v ps) m ps = fold (\<lambda>(k, v) ps. jset k v ps) (map meta_key m) ps"
  by (induction m arbitrary: ps) auto

lemma generateWsUrl_params:
  assumes "generateWsUrl hmac now c = Inr (url, params)" "distinct (map fst (meta_entries c))"
  shows "params = std_params hmac now c @ map meta_key (meta_entries c)" "truthy_str (ws_secret c)"
proof -
  show secret: "truthy_str (ws_secret c)" using assms(1) by (simp add: generateWsUrl_def Let_def split: if_splits)
  have sup: "jset ''_supersede'' ''1'' ps = ps @ [(''_supersede'', ''1'')]" if "''_supersede'' \<notin> fst ` set ps" for ps :: "(string, string) jsmap"
    by (rule jset_fresh [OF that])
  have "params = fold (\<lambda>(k, v) ps. jset (''m--'' @ k) v ps) (meta_entries c) (std_params hmac now c)"
    using assms(1) secret by (cases "wc_clientMeta c") (auto simp: generateWsUrl_def Let_def std_params_def meta_entries_def sup)
  also have "\<dots> = fold (\<lambda>(k, v) ps. jset k v ps) (map meta_key (meta_entries c)) (std_params hmac now c)"
    by (rule fold_meta_key)
  also have "\<dots> = std_params hmac now c @ map meta_key (meta_entries c)"
  proof (rule fold_jset_fresh)
    show "distinct (map fst (map meta_key (meta_entries c)))"
      using assms(2) by (simp add: comp_def case_prod_beta distinct_map inj_on_def)
    show "fst ` set (map meta_key (meta_entries c)) \<inter> fst ` set (std_params hmac now c) = {}"
      using std_params_keys [of _ hmac now c] by fastforce
  qed
  finally show "params = std_params hmac now c @ map meta_key (meta_entries c)" .
qed

lemma jget_params:
  assumes "strip_prefix ''m--'' k = None"
  shows "jget (std_params hmac now c @ map meta_key ms) k = jget (std_params hmac now c) k"
proof -
  have "jget (map meta_key ms) k = None"
    using assms by (auto simp: map_of_eq_None_iff)
  then show ?thesis by (simp only: map_of_append map_add_def option.case) (cases "jget (std_params hmac now c) k"; simp only: option.case)
qed

lemma distinct_params:
  assumes "distinct (map fst ms)"
  shows "distinct (map fst (std_params hmac now c @ map meta_key ms))"
proof -
  have "distinct (map fst (map meta_key ms))" using assms by (simp add: comp_def case_prod_beta distinct_map inj_on_def)
  moreover have "fst ` set (map meta_key ms) \<inter> fst ` set (std_params hmac now c) = {}"
    using std_params_keys [of _ hmac now c] by fastforce
  ultimately show ?thesis using distinct_std_params [of hmac now c] unfolding map_append distinct_append set_map by blast
qed

lemma query_meta_params:
  assumes "distinct (map fst ms)"
  shows "query_meta (std_params hmac now c @ map meta_key ms) = ms"
proof -
  have "filter (\<lambda>(k, v). strip_prefix ''m--'' k \<noteq> None) (std_params hmac now c) = []"
    using std_params_keys [of _ hmac now c] by (force simp: filter_empty_conv)
  moreover have "filter (\<lambda>(k, v). strip_prefix ''m--'' k \<noteq> None) (map meta_key ms) = map meta_key ms"
    by (induction ms) auto
  moreover have "map (\<lambda>(k, v). (drop 3 k, v)) (map meta_key ms) = ms" by (induction ms) auto
  ultimately show ?thesis using assms by (simp only: query_meta_def filter_append append_Nil jmap_of_distinct)
qed

text \<open>C23. What a client asks for is what the server accepts: if the client and the server share the secret and
  their clocks differ by no more than the allowed drift, the request built by \<open>generateWsUrl\<close> passes
  \<open>verifyClient\<close>, and the server then knows the client's stream id, client id, protocol version,
  supersede flag and metadata exactly as the client sent them.\<close>

theorem signed_request_accepted:
  assumes "generateWsUrl hmac now c = Inr (url, params)"
    and "sa_clientAuthorizer cfg = None" "fetchClientKey cfg (wc_clientId c) = Inr (ws_secret c)"
    and "\<bar>now' - now\<bar> \<le> sa_authClockDriftMs cfg"
    and "wc_streamId c \<noteq> []" "wc_clientId c \<noteq> []" "distinct (map fst (meta_entries c))"
    and "\<And>key text. hmac key text \<noteq> []"
  shows "\<exists>info. verifyClient hmac now' cfg realIp addr params = Inr info
     \<and> si_clientStreamId info = wc_streamId c \<and> si_clientId info = wc_clientId c \<and> si_supersede info = wc_supersede c
     \<and> si_protocolVersion info = Some (wc_protocolVersion c) \<and> si_configureTs info = Some now \<and> si_meta info = meta_entries c"
proof -
  define p where "p = std_params hmac now c @ map meta_key (meta_entries c)"
  note params = generateWsUrl_params [OF assms(1,7)]
  have q: "jmap_of params = p" unfolding params(1) p_def by (rule jmap_of_distinct [OF distinct_params [OF assms(7)]])
  have qm: "query_meta p = meta_entries c" unfolding p_def by (rule query_meta_params [OF assms(7)])
  obtain key where key: "ws_secret c = Some key" "key \<noteq> []" using truthy_str_the [OF params(2)] by blast
  have get: "jget p k = jget (std_params hmac now c) k" if "strip_prefix ''m--'' k = None" for k
    unfolding p_def by (rule jget_params [OF that])
  have std: "jget p ''authv'' = Some (int_to_string 1)" "jget p ''appv'' = Some ''0.0.0''" "jget p ''ts'' = Some (int_to_string now)"
    "jget p ''id'' = Some (wc_streamId c)" "jget p ''cid'' = Some (wc_clientId c)"
    "jget p ''signature'' = Some (hmac key (signable (int_to_string 1) ''0.0.0'' (int_to_string now) (wc_streamId c) (wc_clientId c)))"
    "jget p ''_v'' = Some (int_to_string (wc_protocolVersion c))"
    "jget p ''_supersede'' = (if wc_supersede c then Some ''1'' else None)"
    by (subst get; simp add: std_params_def key(1))+
  have auth: "validateClientAuth hmac now' cfg p = Inr (AuthBool True)"
    using assms(2,3,4,8) by (simp add: validateClientAuth_def qget_def std key(1) parseInt10_int_to_string)
  show ?thesis
    using assms(5,6)
    by (simp add: verifyClient_def Let_def q auth std qget_def parseInt_int_to_string qm merge_meta_def)
qed

definition demo_client :: ws_client where
  "demo_client = \<lparr>wc_uri = ''localhost'', wc_streamId = ''s1'', wc_clientId = ''c1'', wc_clientMeta = Some [(''role'', ''worker'')],
     wc_clientSecret = Some ''k'', wc_appSecret = None, wc_protocolVersion = 2, wc_supersede = True\<rparr>"

definition demo_auth :: srpc_auth where
  "demo_auth = \<lparr>sa_clientAuthorizer = None, sa_clientKeyFetcher = None, sa_standardSrpcAuthKey = Some ''k'',
     sa_authClockDriftMs = 30000, sa_useRealIpHeader = False\<rparr>"

theorem signed_request_accepted_witness:
  "\<exists>url params info. generateWsUrl (\<lambda>key text. ''sig'' @ key @ text) 1000 demo_client = Inr (url, params)
     \<and> verifyClient (\<lambda>key text. ''sig'' @ key @ text) 2000 demo_auth None ''10.0.0.1'' params = Inr info
     \<and> si_clientId info = ''c1'' \<and> si_supersede info \<and> si_meta info = [(''role'', ''worker'')]"
proof -
  let ?h = "\<lambda>key text. ''sig'' @ key @ text"
  obtain url params where g: "generateWsUrl ?h 1000 demo_client = Inr (url, params)"
    by (simp add: generateWsUrl_def Let_def demo_client_def ws_secret_def)
  have "fetchClientKey demo_auth (wc_clientId demo_client) = Inr (ws_secret demo_client)"
    "sa_clientAuthorizer demo_auth = None" "\<bar>2000 - 1000\<bar> \<le> sa_authClockDriftMs demo_auth"
    "wc_streamId demo_client \<noteq> []" "wc_clientId demo_client \<noteq> []" "distinct (map fst (meta_entries demo_client))"
    by (simp_all add: fetchClientKey_def demo_auth_def demo_client_def ws_secret_def meta_entries_def)
  from signed_request_accepted [OF g this(2,1,3,4,5,6), of None "''10.0.0.1''"] g show ?thesis
    by (auto simp: demo_client_def meta_entries_def)
qed

text \<open>C24. Nothing unsigned or stale gets in: without a custom authorizer, a request that is accepted carries the
  HMAC of its own version, timestamp, stream id and client id under the key of that client, its
  timestamp is within the allowed drift of the server's clock, and its ids are not empty.\<close>

theorem accepted_request_is_signed:
  assumes "verifyClient hmac now cfg realIp addr entries = Inr info" "sa_clientAuthorizer cfg = None"
  shows "\<exists>key ts. fetchClientKey cfg (si_clientId info) = Inr (Some key)
     \<and> parseInt10 (qget (jmap_of entries) ''ts'') = Some ts \<and> \<bar>now - ts\<bar> \<le> sa_authClockDriftMs cfg
     \<and> qget (jmap_of entries) ''signature'' = hmac key (signable (qget (jmap_of entries) ''authv'') (si_appVersion info)
          (qget (jmap_of entries) ''ts'') (si_clientStreamId info) (si_clientId info))
     \<and> si_clientId info \<noteq> [] \<and> si_clientStreamId info \<noteq> []"
proof -
  let ?q = "jmap_of entries"
  have ids: "truthy_str (jget ?q ''id'')" "truthy_str (jget ?q ''cid'')"
    using assms(1) unfolding verifyClient_def Let_def by (auto split: if_splits)
  have v: "(case validateClientAuth hmac now cfg ?q of Inl _ \<Rightarrow> False | Inr (AuthBool b) \<Rightarrow> b | Inr (AuthMeta m) \<Rightarrow> True)"
    and info: "si_clientStreamId info = qget ?q ''id''" "si_clientId info = qget ?q ''cid''" "si_appVersion info = qget ?q ''appv''"
    using assms(1) unfolding verifyClient_def Let_def
    by (auto split: if_splits sum.splits authorizer_result.splits bool.splits)
  have "\<exists>b. validateClientAuth hmac now cfg ?q = Inr (AuthBool b) \<or> (\<exists>e. validateClientAuth hmac now cfg ?q = Inl e)"
    using assms(2) by (cases "fetchClientKey cfg (qget ?q ''cid'')") (auto simp: validateClientAuth_def split: option.split)
  with v have ok: "validateClientAuth hmac now cfg ?q = Inr (AuthBool True)" by auto
  then obtain k where k: "fetchClientKey cfg (qget ?q ''cid'') = Inr k" and sig: "truthy_str (jget ?q ''signature'')"
    using assms(2) by (auto simp: validateClientAuth_def map_result_Inr_iff split: if_splits)
  obtain key where key: "k = Some key" using ok k assms(2) by (cases k) (auto simp: validateClientAuth_def split: if_splits)
  obtain ts where ts: "parseInt10 (qget ?q ''ts'') = Some ts"
    using ok k key assms(2) by (cases "parseInt10 (qget ?q ''ts'')") (auto simp: validateClientAuth_def split: if_splits)
  have "\<bar>now - ts\<bar> \<le> sa_authClockDriftMs cfg \<and> jget ?q ''signature'' = Some (hmac key (signable (qget ?q ''authv'') (qget ?q ''appv'') (qget ?q ''ts'') (qget ?q ''id'') (qget ?q ''cid'')))"
    using ok k key ts assms(2) by (auto simp: validateClientAuth_def split: if_splits)
  then show ?thesis
    using k key ts ids truthy_str_the [OF ids(1)] truthy_str_the [OF ids(2)] unfolding info
    by (intro exI [of _ key] exI [of _ ts]) (auto simp: qget_def)
qed

theorem accepted_request_is_signed_witness:
  "\<exists>info. verifyClient (\<lambda>key text. ''sig'' @ key) 1500 demo_auth None ''10.0.0.1''
       [(''authv'', ''1''), (''appv'', ''0''), (''ts'', ''1000''), (''id'', ''s''), (''cid'', ''c''), (''signature'', ''sigk'')] = Inr info
     \<and> fetchClientKey demo_auth (si_clientId info) = Inr (Some ''k'')"
proof -
  let ?e = "[(''authv'', ''1''), (''appv'', ''0''), (''ts'', ''1000''), (''id'', ''s''), (''cid'', ''c''), (''signature'', ''sigk'')] :: (string \<times> string) list"
  have q: "jmap_of ?e = ?e" by (rule jmap_of_distinct) simp
  have ts: "parseInt10 ''1000'' = Some 1000"
    by (simp add: parseInt10_def Let_def is_space_def ascii_digit_def digits_value_def)
  have "validateClientAuth (\<lambda>key text. ''sig'' @ key) 1500 demo_auth ?e = Inr (AuthBool True)"
    by (simp add: validateClientAuth_def demo_auth_def fetchClientKey_def qget_def ts)
  then obtain info where v: "verifyClient (\<lambda>key text. ''sig'' @ key) 1500 demo_auth None ''10.0.0.1'' ?e = Inr info"
    unfolding verifyClient_def Let_def q by simp
  have "sa_clientAuthorizer demo_auth = None" by (simp add: demo_auth_def)
  from accepted_request_is_signed [OF v this] have "fetchClientKey demo_auth (si_clientId info) = Inr (Some ''k'')"
    by (auto simp: fetchClientKey_def demo_auth_def)
  with v show ?thesis by blast
qed

end
