(* ===== verification/SrpcServer.thy ===== *)
theory SrpcServer
  imports ByteStream SrpcAuth
begin

text \<open>
  The connections of \<open>src/src/srpc/SrpcServer.ts\<close>: how a WebSocket becomes a stream, how a second
  connection of the same client is refused or replaces the first, how requests wait for the activation of
  their stream, and how requests and replies are matched.

  The stream objects are shared and compared by identity (\<open>=== stream\<close>), so they live in the store
  \<open>sv_objs\<close> and are named by their index.  The asynchronous chain of \<open>handleStreamEstablished\<close> is cut at
  its \<open>await\<close>s: \<open>ss_phase\<close> says which promise a stream waits for, and the events \<open>CheckDone\<close>,
  \<open>ConnectedDone\<close> and \<open>ActivatedDone\<close> resume it.  What the server does to the outside is appended to
  \<open>sv_log\<close>: frames, closes, calls of the registered handlers and settled invocations.  User code (the hooks,
  the message handlers, the subclass) answers by events.
\<close>

section \<open>Messages\<close>

record byte_operation =
  bo_streamId :: int
  bo_write :: "string option"
  bo_finish :: bool
  bo_destroy :: "string option option"

text \<open>\<open>bm_fields\<close> holds the request and response fields that are set, with their payload.\<close>

record base_message =
  bm_requestId :: "string option"
  bm_reply :: bool
  bm_error :: "string option"
  bm_userError :: bool
  bm_pingPong :: bool
  bm_byteStreamOperation :: "byte_operation option"
  bm_fields :: "(string \<times> string) list"

definition empty_message :: base_message where
  "empty_message = \<lparr>bm_requestId = None, bm_reply = False, bm_error = None, bm_userError = False, bm_pingPong = False,
     bm_byteStreamOperation = None, bm_fields = []\<rparr>"

definition ping_message :: base_message where
  "ping_message = empty_message\<lparr>bm_pingPong := True\<rparr>"

definition handleByteStreamOperation :: "byte_operation \<Rightarrow> byte_conn \<Rightarrow> byte_conn" where
  "handleByteStreamOperation op s =
     (case bo_write op of
        Some chunk \<Rightarrow> writeReceiver (bo_streamId op) chunk s
      | None \<Rightarrow>
          if bo_finish op then finishReceiver (bo_streamId op) s
          else case bo_destroy op of Some err \<Rightarrow> destroySubstream (bo_streamId op) err s | None \<Rightarrow> s)"

section \<open>State\<close>

datatype phase = Checking | Connecting | Activating | Open | Over

record queued_request =
  qr_exp :: int
  qr_resultType :: string

record srpc_stream =
  ss_id :: string
  ss_clientId :: string
  ss_protocolVersion :: "int option"
  ss_isActivated :: bool
  ss_lastPingAt :: int
  ss_queue :: "(string, queued_request) jsmap"
  ss_bytes :: byte_conn
  ss_phase :: phase
  ss_listening :: bool

datatype invocation_outcome = Resolved string | Rejected string

datatype server_output =
    Sent nat base_message
  | Closed nat int string
  | ConnectedHook nat
  | ActivatedHook nat
  | Disconnected nat disconnect_cause
  | Dispatched nat string string string
  | Invoked nat string
  | Settled nat string invocation_outcome

record srpc_server =
  sv_objs :: "srpc_stream list"
  sv_streamsById :: "(string, nat) jsmap"
  sv_streamsByClientId :: "(string, nat) jsmap"
  sv_pendingStreamsByClientId :: "(string, nat) jsmap"
  sv_blockedClientRequests :: "nat list"
  sv_pendingClientRequests :: "(nat, base_message list) jsmap"
  sv_streamMessageHandlers :: "(string, string) jsmap"
  sv_running :: "(nat \<times> string \<times> string) list"
  sv_log :: "server_output list"

definition new_server :: "(string, string) jsmap \<Rightarrow> srpc_server" where
  "new_server handlers = \<lparr>sv_objs = [], sv_streamsById = [], sv_streamsByClientId = [], sv_pendingStreamsByClientId = [],
     sv_blockedClientRequests = [], sv_pendingClientRequests = [], sv_streamMessageHandlers = handlers, sv_running = [], sv_log = []\<rparr>"

definition sobj :: "srpc_server \<Rightarrow> nat \<Rightarrow> srpc_stream" where
  "sobj s r = sv_objs s ! r"

definition supd :: "nat \<Rightarrow> (srpc_stream \<Rightarrow> srpc_stream) \<Rightarrow> srpc_server \<Rightarrow> srpc_server" where
  "supd r f s = s\<lparr>sv_objs := (sv_objs s)[r := f (sv_objs s ! r)]\<rparr>"

definition emit :: "server_output list \<Rightarrow> srpc_server \<Rightarrow> srpc_server" where
  "emit os s = s\<lparr>sv_log := sv_log s @ os\<rparr>"

section \<open>The stream of a client\<close>

definition getCurrentStreamByClientId :: "srpc_server \<Rightarrow> string \<Rightarrow> nat option" where
  "getCurrentStreamByClientId s clientId =
     (case jget (sv_pendingStreamsByClientId s) clientId of Some r \<Rightarrow> Some r | None \<Rightarrow> jget (sv_streamsByClientId s) clientId)"

definition isCurrentStream :: "srpc_server \<Rightarrow> nat \<Rightarrow> bool" where
  "isCurrentStream s r \<longleftrightarrow> getCurrentStreamByClientId s (ss_clientId (sobj s r)) = Some r"

definition activateStream :: "nat \<Rightarrow> srpc_server \<Rightarrow> srpc_server" where
  "activateStream r s =
     (if ss_lastPingAt (sobj s r) < 0 \<or> \<not> isCurrentStream s r then s
      else let c = ss_clientId (sobj s r);
               s1 = s\<lparr>sv_pendingStreamsByClientId := jdelete c (sv_pendingStreamsByClientId s)\<rparr>;
               s2 = supd r (\<lambda>b. b\<lparr>ss_isActivated := True\<rparr>) s1
           in s2\<lparr>sv_streamsByClientId := jset c r (sv_streamsByClientId s2)\<rparr>)"

definition closeStreamWithError :: "nat \<Rightarrow> disconnect_cause \<Rightarrow> string \<Rightarrow> srpc_server \<Rightarrow> srpc_server" where
  "closeStreamWithError r cause message = emit [Closed r (CLOSE_CODES cause) (take 123 message)]"

fun cause_text :: "disconnect_cause \<Rightarrow> string" where
  "cause_text CauseDisconnect = ''disconnect''"
| "cause_text CauseConflict = ''conflict''"
| "cause_text CauseSupersede = ''supersede''"
| "cause_text CauseTimeout = ''timeout''"
| "cause_text CauseBadArg = ''badArg''"

definition jdelete_if :: "'k \<Rightarrow> 'v \<Rightarrow> ('k, 'v) jsmap \<Rightarrow> ('k, 'v) jsmap" where
  "jdelete_if k v m = (if jget m k = Some v then jdelete k m else m)"

definition cleanupStream :: "disconnect_cause option \<Rightarrow> nat \<Rightarrow> srpc_server \<Rightarrow> srpc_server" where
  "cleanupStream forceCause r s =
     (let b = sobj s r in
      if ss_lastPingAt b < 0 then s
      else let s1 = supd r (\<lambda>b. b\<lparr>ss_lastPingAt := -1\<rparr>) s;
               s2 = (case forceCause of
                       Some cause \<Rightarrow> closeStreamWithError r cause (''Stream terminated with cause: '' @ cause_text cause) s1
                     | None \<Rightarrow> s1);
               s3 = emit [Disconnected r (nullish forceCause CauseDisconnect)] s2;
               s4 = emit (map (\<lambda>q. Settled r q (Rejected ''Stream disconnected'')) (jkeys (ss_queue b))) s3;
               s5 = supd r (\<lambda>b. b\<lparr>ss_queue := []\<rparr>) s4
           in s5\<lparr>sv_blockedClientRequests := filter (\<lambda>q. q \<noteq> r) (sv_blockedClientRequests s5),
                 sv_pendingClientRequests := jdelete r (sv_pendingClientRequests s5),
                 sv_streamsById := jdelete (ss_id b) (sv_streamsById s5),
                 sv_pendingStreamsByClientId := jdelete_if (ss_clientId b) r (sv_pendingStreamsByClientId s5),
                 sv_streamsByClientId := jdelete_if (ss_clientId b) r (sv_streamsByClientId s5)\<rparr>)"

section \<open>Requests and replies\<close>

definition writeToStream :: "nat \<Rightarrow> base_message \<Rightarrow> srpc_server \<Rightarrow> srpc_server" where
  "writeToStream r m = emit [Sent r m]"

definition reply_message :: "string \<Rightarrow> base_message" where
  "reply_message requestId = empty_message\<lparr>bm_requestId := Some requestId, bm_reply := True\<rparr>"

text \<open>The first registered key the message has a field for; an unhandled message is answered with an error.\<close>

definition handler_for :: "srpc_server \<Rightarrow> base_message \<Rightarrow> (string \<times> string) option" where
  "handler_for s m =
     (case find (\<lambda>key. jget (bm_fields m) key \<noteq> None) (jkeys (sv_streamMessageHandlers s)) of
        Some key \<Rightarrow> Some (key, the (jget (bm_fields m) key)) | None \<Rightarrow> None)"

definition handleClientRequest :: "nat \<Rightarrow> string \<Rightarrow> base_message \<Rightarrow> srpc_server \<Rightarrow> srpc_server" where
  "handleClientRequest r requestId m s =
     (case handler_for s m of
        Some (key, data) \<Rightarrow>
          (emit [Dispatched r requestId key data] s)
            \<lparr>sv_running := sv_running s @ [(r, requestId, the (jget (sv_streamMessageHandlers s) key))]\<rparr>
      | None \<Rightarrow> writeToStream r ((reply_message requestId)\<lparr>bm_error := Some ''Error: Unhandled message type''\<rparr>) s)"

datatype handler_outcome = HandlerResult string | HandlerUserError string | HandlerError string

text \<open>The reply once the handler's promise settles; \<open>HandlerError\<close> carries \<open>String(err)\<close>.\<close>

definition handlerDone :: "nat \<Rightarrow> string \<Rightarrow> string \<Rightarrow> handler_outcome \<Rightarrow> srpc_server \<Rightarrow> srpc_server" where
  "handlerDone r requestId resultType outcome s =
     (let s1 = s\<lparr>sv_running := remove1 (r, requestId, resultType) (sv_running s)\<rparr>; m = reply_message requestId
      in writeToStream r
           (case outcome of
              HandlerResult v \<Rightarrow> m\<lparr>bm_fields := [(resultType, v)]\<rparr>
            | HandlerUserError e \<Rightarrow> m\<lparr>bm_error := Some e, bm_userError := True\<rparr>
            | HandlerError e \<Rightarrow> m\<lparr>bm_error := Some e\<rparr>) s1)"

definition invocation_outcome_of :: "queued_request \<Rightarrow> base_message \<Rightarrow> invocation_outcome" where
  "invocation_outcome_of q m =
     (if truthy_str (bm_error m) then Rejected (the (bm_error m))
      else case jget (bm_fields m) (qr_resultType q) of
             Some v \<Rightarrow> Resolved v | None \<Rightarrow> Rejected ''Invalid response from client'')"

definition handleStreamDataReceived :: "int \<Rightarrow> nat \<Rightarrow> base_message \<Rightarrow> srpc_server \<Rightarrow> srpc_server" where
  "handleStreamDataReceived now r m s =
     (let b = sobj s r in
      if bm_pingPong m then writeToStream r ping_message (supd r (\<lambda>b. b\<lparr>ss_lastPingAt := now\<rparr>) s)
      else case bm_byteStreamOperation m of
        Some op \<Rightarrow> supd r (\<lambda>b. b\<lparr>ss_bytes := handleByteStreamOperation op (ss_bytes b)\<rparr>) s
      | None \<Rightarrow>
          if (\<not> ss_isActivated b \<or> r \<in> set (sv_blockedClientRequests s)) \<and> \<not> bm_reply m
          then s\<lparr>sv_pendingClientRequests :=
                   jset r (nullish (jget (sv_pendingClientRequests s) r) [] @ [m]) (sv_pendingClientRequests s)\<rparr>
          else if \<not> truthy_str (bm_requestId m) then closeStreamWithError r CauseBadArg ''Invalid request ID'' s
          else let requestId = the (bm_requestId m) in
            if bm_reply m
            then case jget (ss_queue b) requestId of
                   None \<Rightarrow> closeStreamWithError r CauseBadArg ''Unknown request ID'' s
                 | Some q \<Rightarrow> emit [Settled r requestId (invocation_outcome_of q m)]
                              (supd r (\<lambda>b. b\<lparr>ss_queue := jdelete requestId (ss_queue b)\<rparr>) s)
            else handleClientRequest r requestId m s)"

datatype ws_data = NonBinary | Undecodable | Decoded base_message

definition handleWsMessage :: "int \<Rightarrow> nat \<Rightarrow> ws_data \<Rightarrow> srpc_server \<Rightarrow> srpc_server" where
  "handleWsMessage now r data s =
     (case data of
        NonBinary \<Rightarrow> closeStreamWithError r CauseBadArg ''Received non-binary data'' s
      | Undecodable \<Rightarrow> closeStreamWithError r CauseBadArg ''Invalid message format'' s
      | Decoded m \<Rightarrow> handleStreamDataReceived now r m s)"

definition openClientRequests :: "int \<Rightarrow> nat \<Rightarrow> srpc_server \<Rightarrow> srpc_server" where
  "openClientRequests now r s =
     (let s1 = s\<lparr>sv_blockedClientRequests := filter (\<lambda>q. q \<noteq> r) (sv_blockedClientRequests s)\<rparr>;
          queued = nullish (jget (sv_pendingClientRequests s1) r) []
      in if queued = [] then s1
         else fold (handleStreamDataReceived now r) queued
                (s1\<lparr>sv_pendingClientRequests := jdelete r (sv_pendingClientRequests s1)\<rparr>))"

definition invoke :: "nat \<Rightarrow> string \<Rightarrow> string \<Rightarrow> string \<Rightarrow> int \<Rightarrow> int \<Rightarrow> srpc_server \<Rightarrow> srpc_server" where
  "invoke r prefix data requestId now timeoutMs s =
     writeToStream r (empty_message\<lparr>bm_requestId := Some requestId, bm_fields := [(prefix @ ''Request'', data)]\<rparr>)
       (emit [Invoked r requestId]
         (supd r (\<lambda>b. b\<lparr>ss_queue := jset requestId \<lparr>qr_exp = now + timeoutMs, qr_resultType = prefix @ ''Response''\<rparr> (ss_queue b)\<rparr>) s))"

section \<open>The life of a stream\<close>

definition handleStreamEstablished :: "nat \<Rightarrow> bool \<Rightarrow> srpc_server \<Rightarrow> srpc_server" where
  "handleStreamEstablished r supersede s =
     (let b = sobj s r; conflicting = getCurrentStreamByClientId s (ss_clientId b);
          v2 = (case ss_protocolVersion b of Some v \<Rightarrow> v \<ge> 2 | None \<Rightarrow> False)
      in if conflicting \<noteq> None \<and> v2 \<and> \<not> supersede
         then closeStreamWithError r CauseConflict ''Client ID already connected''
                (supd r (\<lambda>b. b\<lparr>ss_lastPingAt := -1, ss_phase := Over\<rparr>) s)
         else let s1 = (case conflicting of Some q \<Rightarrow> cleanupStream (Some CauseSupersede) q s | None \<Rightarrow> s)
              in s1\<lparr>sv_streamsById := jset (ss_id b) r (sv_streamsById s1),
                    sv_pendingStreamsByClientId := jset (ss_clientId b) r (sv_pendingStreamsByClientId s1),
                    sv_blockedClientRequests := set_add r (sv_blockedClientRequests s1)\<rparr>)"

definition attachConnection :: "int \<Rightarrow> string \<Rightarrow> stream_info \<Rightarrow> srpc_server \<Rightarrow> srpc_server" where
  "attachConnection now streamId info s =
     handleStreamEstablished (length (sv_objs s)) (si_supersede info)
       (s\<lparr>sv_objs := sv_objs s @
          [\<lparr>ss_id = streamId, ss_clientId = si_clientId info, ss_protocolVersion = si_protocolVersion info,
            ss_isActivated = False, ss_lastPingAt = now, ss_queue = [], ss_bytes = byte_init 2 2 new_conn,
            ss_phase = Checking, ss_listening = False\<rparr>]\<rparr>)"

definition set_phase :: "phase \<Rightarrow> nat \<Rightarrow> srpc_server \<Rightarrow> srpc_server" where
  "set_phase p r = supd r (\<lambda>b. b\<lparr>ss_phase := p\<rparr>)"

text \<open>\<open>postEstablishCheck\<close> has answered: \<open>Inl\<close> an exception, \<open>Inr True\<close> rejected.\<close>

definition checkDone :: "nat \<Rightarrow> unit + bool \<Rightarrow> srpc_server \<Rightarrow> srpc_server" where
  "checkDone r result s =
     (case result of
        Inl _ \<Rightarrow> set_phase Over r (cleanupStream (Some CauseDisconnect) r s)
      | Inr rejected \<Rightarrow>
          if rejected \<or> ss_lastPingAt (sobj s r) < 0 then set_phase Over r s
          else emit [ConnectedHook r] (supd r (\<lambda>b. b\<lparr>ss_phase := Connecting, ss_listening := True\<rparr>) (writeToStream r ping_message s)))"

definition connectedDone :: "nat \<Rightarrow> bool \<Rightarrow> srpc_server \<Rightarrow> srpc_server" where
  "connectedDone r ok s =
     (if \<not> ok then set_phase Over r (cleanupStream (Some CauseDisconnect) r s)
      else if ss_lastPingAt (sobj s r) < 0 then set_phase Over r s
      else let s1 = activateStream r s
           in if \<not> ss_isActivated (sobj s1 r) then set_phase Over r s1
              else emit [ActivatedHook r] (set_phase Activating r s1))"

definition activatedDone :: "int \<Rightarrow> nat \<Rightarrow> bool \<Rightarrow> srpc_server \<Rightarrow> srpc_server" where
  "activatedDone now r ok s =
     (if \<not> ok then set_phase Over r (cleanupStream (Some CauseDisconnect) r s)
      else if ss_lastPingAt (sobj s r) < 0 \<or> \<not> ss_isActivated (sobj s r) then set_phase Over r s
      else openClientRequests now r (set_phase Open r s))"

definition handleStreamDisconnected :: "nat \<Rightarrow> srpc_server \<Rightarrow> srpc_server" where
  "handleStreamDisconnected r s = cleanupStream None r s"

definition terminateInactiveStreams :: "int \<Rightarrow> srpc_server \<Rightarrow> srpc_server" where
  "terminateInactiveStreams now s =
     fold (\<lambda>r t. if ss_lastPingAt (sobj t r) < now - 75000 then cleanupStream (Some CauseTimeout) r t else t)
       (jvalues (sv_streamsById s)) s"

definition closeServer :: "srpc_server \<Rightarrow> srpc_server" where
  "closeServer s = fold (cleanupStream (Some CauseDisconnect)) (jvalues (sv_streamsById s)) s"

section \<open>Events\<close>

text \<open>A connection gets a stream id that was not used before (\<open>uuid()\<close>), an invocation likewise.  The clock
  of an event is a natural number.  \<open>SubclassCleanup\<close> is the protected \<open>cleanupStream\<close> a subclass may call.  On
  the close of the socket the server's own handler runs before those of the byte streams, which were
  attached later.\<close>

datatype server_event =
    Connect nat string stream_info
  | CheckDone nat "unit + bool"
  | ConnectedDone nat bool
  | ActivatedDone nat nat bool
  | WsMessage nat nat ws_data
  | WsClose nat
  | WsError nat
  | HandlerDone nat string string handler_outcome
  | Invoke nat string string string nat int
  | InactivityCheck nat
  | SubclassCleanup nat disconnect_cause
  | CloseServer

definition in_phase :: "srpc_server \<Rightarrow> nat \<Rightarrow> phase \<Rightarrow> bool" where
  "in_phase s r p \<longleftrightarrow> r < length (sv_objs s) \<and> ss_phase (sobj s r) = p"

definition fresh_request :: "srpc_server \<Rightarrow> nat \<Rightarrow> string \<Rightarrow> bool" where
  "fresh_request s r requestId \<longleftrightarrow> r < length (sv_objs s) \<and> requestId \<noteq> [] \<and> Invoked r requestId \<notin> set (sv_log s)"

fun server_step :: "srpc_server \<Rightarrow> server_event \<Rightarrow> srpc_server" where
  "server_step s (Connect now streamId info) =
     (if streamId \<in> ss_id ` set (sv_objs s) then s else attachConnection (int now) streamId info s)"
| "server_step s (CheckDone r result) = (if in_phase s r Checking then checkDone r result s else s)"
| "server_step s (ConnectedDone r ok) = (if in_phase s r Connecting then connectedDone r ok s else s)"
| "server_step s (ActivatedDone now r ok) = (if in_phase s r Activating then activatedDone (int now) r ok s else s)"
| "server_step s (WsMessage now r data) =
     (if r < length (sv_objs s) \<and> ss_listening (sobj s r) then handleWsMessage (int now) r data s else s)"
| "server_step s (WsClose r) =
     (if r < length (sv_objs s)
      then supd r (\<lambda>b. b\<lparr>ss_bytes := byte_step (ss_bytes b) Disconnect\<rparr>) (handleStreamDisconnected r s) else s)"
| "server_step s (WsError r) = (if r < length (sv_objs s) then cleanupStream None r s else s)"
| "server_step s (HandlerDone r requestId resultType outcome) =
     (if (r, requestId, resultType) \<in> set (sv_running s) then handlerDone r requestId resultType outcome s else s)"
| "server_step s (Invoke r prefix data requestId now timeoutMs) =
     (if fresh_request s r requestId then invoke r prefix data requestId (int now) timeoutMs s else s)"
| "server_step s (InactivityCheck now) = terminateInactiveStreams (int now) s"
| "server_step s (SubclassCleanup r cause) = (if r < length (sv_objs s) then cleanupStream (Some cause) r s else s)"
| "server_step s CloseServer = closeServer s"

end
