(* ===== verification/SrpcServerFacts.thy ===== *)
theory SrpcServerFacts
  imports SrpcServer "HOL-Library.Multiset"
begin

text \<open>
  What holds in every reachable state of an SRPC server: the three maps agree with the streams and with
  each other, so that a client has at most one registered stream; no request is handled before its stream
  was activated and opened; every invocation is settled at most once, and a stream that ends leaves none
  open.
\<close>

section \<open>The store and the log\<close>

lemma supd_simps [simp]:
  "length (sv_objs (supd r f s)) = length (sv_objs s)" "sv_streamsById (supd r f s) = sv_streamsById s"
  "sv_streamsByClientId (supd r f s) = sv_streamsByClientId s" "sv_pendingStreamsByClientId (supd r f s) = sv_pendingStreamsByClientId s"
  "sv_blockedClientRequests (supd r f s) = sv_blockedClientRequests s" "sv_pendingClientRequests (supd r f s) = sv_pendingClientRequests s"
  "sv_log (supd r f s) = sv_log s" "sv_streamMessageHandlers (supd r f s) = sv_streamMessageHandlers s" "sv_running (supd r f s) = sv_running s"
  by (simp_all add: supd_def)

lemma sobj_supd [simp]: "r < length (sv_objs s) \<Longrightarrow> sobj (supd r f s) q = (if q = r then f (sobj s r) else sobj s q)"
  by (simp add: sobj_def supd_def)

lemma emit_simps [simp]:
  "sv_objs (emit os s) = sv_objs s" "sobj (emit os s) = sobj s" "sv_streamsById (emit os s) = sv_streamsById s"
  "sv_streamsByClientId (emit os s) = sv_streamsByClientId s" "sv_pendingStreamsByClientId (emit os s) = sv_pendingStreamsByClientId s"
  "sv_blockedClientRequests (emit os s) = sv_blockedClientRequests s" "sv_pendingClientRequests (emit os s) = sv_pendingClientRequests s"
  "sv_log (emit os s) = sv_log s @ os" "sv_streamMessageHandlers (emit os s) = sv_streamMessageHandlers s" "sv_running (emit os s) = sv_running s"
  by (simp_all add: emit_def sobj_def [abs_def])

lemma map_updates_sobj [simp]:
  "sobj (s\<lparr>sv_streamsById := m\<rparr>) = sobj s" "sobj (s\<lparr>sv_streamsByClientId := m\<rparr>) = sobj s" "sobj (s\<lparr>sv_pendingStreamsByClientId := m\<rparr>) = sobj s"
  "sobj (s\<lparr>sv_blockedClientRequests := bl\<rparr>) = sobj s" "sobj (s\<lparr>sv_pendingClientRequests := pr\<rparr>) = sobj s" "sobj (s\<lparr>sv_running := ru\<rparr>) = sobj s"
  by (simp_all add: sobj_def [abs_def])

lemma jget_jdelete_if [simp]: "jget (jdelete_if k v m) k' = (if k' = k \<and> jget m k = Some v then None else jget m k')"
  by (simp add: jdelete_if_def)

text \<open>What one stream did, read off the log.\<close>

definition invoked_ids :: "nat \<Rightarrow> server_output list \<Rightarrow> string list" where
  "invoked_ids r log = List.map_filter (\<lambda>out. case out of Invoked q i \<Rightarrow> if q = r then Some i else None | _ \<Rightarrow> None) log"

definition settled_ids :: "nat \<Rightarrow> server_output list \<Rightarrow> string list" where
  "settled_ids r log = List.map_filter (\<lambda>out. case out of Settled q i x \<Rightarrow> if q = r then Some i else None | _ \<Rightarrow> None) log"

definition dispatched :: "nat \<Rightarrow> server_output list \<Rightarrow> bool" where
  "dispatched r log \<longleftrightarrow> (\<exists>i key data. Dispatched r i key data \<in> set log)"

definition disconnected :: "nat \<Rightarrow> server_output list \<Rightarrow> bool" where
  "disconnected r log \<longleftrightarrow> (\<exists>cause. Disconnected r cause \<in> set log)"

definition refused :: "nat \<Rightarrow> server_output list \<Rightarrow> bool" where
  "refused r log \<longleftrightarrow> (\<exists>text. Closed r (CLOSE_CODES CauseConflict) text \<in> set log)"

lemma close_code_conflict: "CLOSE_CODES cause = 4001 \<longleftrightarrow> cause = CauseConflict"
  by (cases cause) simp_all

lemma emit_nil: "emit [] s = s"
  by (cases s) (simp add: emit_def)

lemma log_append [simp]:
  "invoked_ids r (log @ log') = invoked_ids r log @ invoked_ids r log'" "settled_ids r (log @ log') = settled_ids r log @ settled_ids r log'"
  "dispatched r (log @ log') \<longleftrightarrow> dispatched r log \<or> dispatched r log'" "disconnected r (log @ log') \<longleftrightarrow> disconnected r log \<or> disconnected r log'"
  "refused r (log @ log') \<longleftrightarrow> refused r log \<or> refused r log'"
  by (auto simp: invoked_ids_def settled_ids_def dispatched_def disconnected_def refused_def List.map_filter_def)

lemma log_nil [simp]:
  "invoked_ids r [] = []" "settled_ids r [] = []" "\<not> dispatched r []" "\<not> disconnected r []" "\<not> refused r []"
  by (simp_all add: invoked_ids_def settled_ids_def dispatched_def disconnected_def refused_def map_filter_simps)

lemma log_Cons [simp]:
  "invoked_ids r (out # log) = (case out of Invoked q i \<Rightarrow> if q = r then [i] else [] | _ \<Rightarrow> []) @ invoked_ids r log"
  "settled_ids r (out # log) = (case out of Settled q i x \<Rightarrow> if q = r then [i] else [] | _ \<Rightarrow> []) @ settled_ids r log"
  "dispatched r (out # log) \<longleftrightarrow> (case out of Dispatched q i k d \<Rightarrow> q = r | _ \<Rightarrow> False) \<or> dispatched r log"
  "disconnected r (out # log) \<longleftrightarrow> (case out of Disconnected q c \<Rightarrow> q = r | _ \<Rightarrow> False) \<or> disconnected r log"
  "refused r (out # log) \<longleftrightarrow> (case out of Closed q c t \<Rightarrow> q = r \<and> c = CLOSE_CODES CauseConflict | _ \<Rightarrow> False) \<or> refused r log"
  by (auto simp: invoked_ids_def settled_ids_def dispatched_def disconnected_def refused_def map_filter_simps split: server_output.split)

lemma settle_all [simp]:
  "invoked_ids q (map (\<lambda>i. Settled r i x) is) = []" "settled_ids q (map (\<lambda>i. Settled r i x) is) = (if q = r then is else [])"
  "\<not> dispatched q (map (\<lambda>i. Settled r i x) is)" "\<not> disconnected q (map (\<lambda>i. Settled r i x) is)" "\<not> refused q (map (\<lambda>i. Settled r i x) is)"
  by (induction "is") simp_all

section \<open>The invariant\<close>

definition registered :: "srpc_server \<Rightarrow> nat \<Rightarrow> bool" where
  "registered s r \<longleftrightarrow> r < length (sv_objs s) \<and> jget (sv_streamsById s) (ss_id (sobj s r)) = Some r"

definition ids_distinct :: "srpc_server \<Rightarrow> bool" where
  "ids_distinct s \<longleftrightarrow> distinct (map ss_id (sv_objs s)) \<and> distinct (map fst (sv_streamsById s))"

definition by_id_ok :: "srpc_server \<Rightarrow> bool" where
  "by_id_ok s \<longleftrightarrow> (\<forall>i r. jget (sv_streamsById s) i = Some r \<longrightarrow>
     r < length (sv_objs s) \<and> ss_id (sobj s r) = i \<and> 0 \<le> ss_lastPingAt (sobj s r) \<and> isCurrentStream s r)"

definition by_client_ok :: "srpc_server \<Rightarrow> bool" where
  "by_client_ok s \<longleftrightarrow>
     (\<forall>c r. jget (sv_streamsByClientId s) c = Some r \<longrightarrow> registered s r \<and> ss_clientId (sobj s r) = c \<and> ss_isActivated (sobj s r))
   \<and> (\<forall>c r. jget (sv_pendingStreamsByClientId s) c = Some r \<longrightarrow> registered s r \<and> ss_clientId (sobj s r) = c \<and> \<not> ss_isActivated (sobj s r))
   \<and> (\<forall>c. jget (sv_pendingStreamsByClientId s) c = None \<or> jget (sv_streamsByClientId s) c = None)"

definition gate_ok :: "srpc_server \<Rightarrow> bool" where
  "gate_ok s \<longleftrightarrow> (\<forall>r. registered s r \<and> ss_phase (sobj s r) \<noteq> Open \<longrightarrow> r \<in> set (sv_blockedClientRequests s) \<and> \<not> dispatched r (sv_log s))
     \<and> (\<forall>r<length (sv_objs s). (ss_isActivated (sobj s r) \<longrightarrow> ss_phase (sobj s r) \<in> {Activating, Open, Over}) \<and> (dispatched r (sv_log s) \<longrightarrow> ss_isActivated (sobj s r)))
     \<and> (\<forall>r\<ge>length (sv_objs s). \<not> dispatched r (sv_log s))"

definition queue_ok :: "srpc_server \<Rightarrow> bool" where
  "queue_ok s \<longleftrightarrow> (\<forall>r. distinct (invoked_ids r (sv_log s)))
     \<and> (\<forall>r<length (sv_objs s). mset (invoked_ids r (sv_log s)) = mset (settled_ids r (sv_log s)) + mset (jkeys (ss_queue (sobj s r))))
     \<and> (\<forall>r\<ge>length (sv_objs s). invoked_ids r (sv_log s) = [] \<and> settled_ids r (sv_log s) = [])"

definition notice_ok :: "srpc_server \<Rightarrow> bool" where
  "notice_ok s \<longleftrightarrow> (\<forall>r<length (sv_objs s). (registered s r \<longleftrightarrow> \<not> disconnected r (sv_log s) \<and> \<not> refused r (sv_log s)))
     \<and> (\<forall>r\<ge>length (sv_objs s). \<not> disconnected r (sv_log s) \<and> \<not> refused r (sv_log s))"

definition server_ok :: "srpc_server \<Rightarrow> bool" where
  "server_ok s \<longleftrightarrow> ids_distinct s \<and> by_id_ok s \<and> by_client_ok s \<and> gate_ok s \<and> queue_ok s \<and> notice_ok s"

lemma server_okD:
  assumes "server_ok s"
  shows "ids_distinct s" "by_id_ok s" "by_client_ok s" "gate_ok s" "queue_ok s" "notice_ok s"
  using assms by (simp_all add: server_ok_def)

lemma server_okI: "\<lbrakk>ids_distinct s; by_id_ok s; by_client_ok s; gate_ok s; queue_ok s; notice_ok s\<rbrakk> \<Longrightarrow> server_ok s"
  by (simp add: server_ok_def)

lemma sobj_id_inj:
  "ids_distinct s \<Longrightarrow> q < length (sv_objs s) \<Longrightarrow> r < length (sv_objs s) \<Longrightarrow> ss_id (sobj s q) = ss_id (sobj s r) \<Longrightarrow> q = r"
  unfolding ids_distinct_def sobj_def by (metis distinct_conv_nth length_map nth_map)

section \<open>Changes of one stream\<close>

lemma current_supd [simp]:
  "r < length (sv_objs s) \<Longrightarrow> ss_clientId (f (sobj s r)) = ss_clientId (sobj s r) \<Longrightarrow> isCurrentStream (supd r f s) q = isCurrentStream s q"
  by (simp add: isCurrentStream_def getCurrentStreamByClientId_def split: option.split)

lemma current_emit [simp]: "isCurrentStream (emit os s) q = isCurrentStream s q"
  by (simp add: isCurrentStream_def getCurrentStreamByClientId_def split: option.split)

lemma registered_supd [simp]:
  "r < length (sv_objs s) \<Longrightarrow> ss_id (f (sobj s r)) = ss_id (sobj s r) \<Longrightarrow> registered (supd r f s) q = registered s q"
  by (simp add: registered_def)

lemma registered_emit [simp]: "registered (emit os s) q = registered s q"
  by (simp add: registered_def)

lemma map_id_supd:
  assumes "r < length (sv_objs s)" "ss_id (f (sobj s r)) = ss_id (sobj s r)"
  shows "map ss_id (sv_objs (supd r f s)) = map ss_id (sv_objs s)"
  using assms by (simp add: supd_def sobj_def map_update) (metis length_map list_update_id nth_map)

text \<open>An operation that changes the fields of one stream other than its names and its activation, and that
  appends to the log; the maps stay.\<close>

lemma server_ok_touch:
  assumes ok: "server_ok s" and r: "r < length (sv_objs s)"
    and names: "ss_id (f (sobj s r)) = ss_id (sobj s r)" "ss_clientId (f (sobj s r)) = ss_clientId (sobj s r)"
      "ss_isActivated (f (sobj s r)) = ss_isActivated (sobj s r)"
    and live: "registered s r \<Longrightarrow> 0 \<le> ss_lastPingAt (f (sobj s r))"
    and quiet: "\<And>q. \<not> disconnected q os" "\<And>q. \<not> refused q os" "\<And>q. q \<noteq> r \<Longrightarrow> invoked_ids q os = [] \<and> settled_ids q os = [] \<and> \<not> dispatched q os"
    and gate: "dispatched r os \<Longrightarrow> ss_isActivated (sobj s r)"
      "ss_isActivated (sobj s r) \<Longrightarrow> ss_phase (f (sobj s r)) \<in> {Activating, Open, Over}"
      "registered s r \<Longrightarrow> ss_phase (f (sobj s r)) \<noteq> Open \<Longrightarrow> ss_phase (sobj s r) \<noteq> Open \<and> \<not> dispatched r os"
    and queue: "distinct (invoked_ids r os)" "set (invoked_ids r os) \<inter> set (invoked_ids r (sv_log s)) = {}"
      "mset (invoked_ids r os) + mset (jkeys (ss_queue (sobj s r))) = mset (settled_ids r os) + mset (jkeys (ss_queue (f (sobj s r))))"
  shows "server_ok (emit os (supd r f s))" (is "server_ok ?t")
proof (rule server_okI)
  note d = server_okD [OF ok]
  show "ids_distinct ?t" using d(1) by (simp add: ids_distinct_def map_id_supd [of r s f, OF r names(1)])
  have reg: "registered s r" if "jget (sv_streamsById s) i = Some r" for i
    using d(2) that r unfolding by_id_ok_def registered_def by auto
  show "by_id_ok ?t"
    using d(2) r names live reg by (auto simp: by_id_ok_def)
  show "by_client_ok ?t"
    using d(3) r names unfolding by_client_ok_def by (auto split: if_splits)
  show "gate_ok ?t"
    using d(4) r names gate quiet(3) unfolding gate_ok_def by (auto split: if_splits)
  show "queue_ok ?t"
    unfolding queue_ok_def
  proof (intro conjI allI impI)
    fix q
    show "distinct (invoked_ids q (sv_log ?t))"
      using d(5) queue(1,2) quiet(3) [of q] by (cases "q = r") (auto simp: queue_ok_def)
    show "mset (invoked_ids q (sv_log ?t)) = mset (settled_ids q (sv_log ?t)) + mset (jkeys (ss_queue (sobj ?t q)))" if "q < length (sv_objs ?t)"
      using d(5) queue(3) quiet(3) [of q] r that by (cases "q = r") (auto simp: queue_ok_def ac_simps)
    show "invoked_ids q (sv_log ?t) = []" if "length (sv_objs ?t) \<le> q" using d(5) quiet(3) [of q] r that by (auto simp: queue_ok_def)
    show "settled_ids q (sv_log ?t) = []" if "length (sv_objs ?t) \<le> q" using d(5) quiet(3) [of q] r that by (auto simp: queue_ok_def)
  qed
  show "notice_ok ?t"
    using d(6) r names quiet(1,2) by (auto simp: notice_ok_def)
qed

lemma server_ok_emit:
  assumes "server_ok s" "\<And>q. \<not> disconnected q os \<and> \<not> refused q os \<and> invoked_ids q os = [] \<and> settled_ids q os = [] \<and> \<not> dispatched q os"
  shows "server_ok (emit os s)"
  using server_okD [OF assms(1)] assms(2)
  by (intro server_okI) (simp_all add: ids_distinct_def by_id_ok_def by_client_ok_def gate_ok_def queue_ok_def notice_ok_def)

lemma server_ok_irrelevant [simp]:
  "server_ok (s\<lparr>sv_pendingClientRequests := pr\<rparr>) = server_ok s" "server_ok (s\<lparr>sv_running := ru\<rparr>) = server_ok s"
proof -
  have "registered (s\<lparr>sv_pendingClientRequests := pr\<rparr>) = registered s" "isCurrentStream (s\<lparr>sv_pendingClientRequests := pr\<rparr>) = isCurrentStream s"
    "registered (s\<lparr>sv_running := ru\<rparr>) = registered s" "isCurrentStream (s\<lparr>sv_running := ru\<rparr>) = isCurrentStream s"
    by (simp_all add: registered_def [abs_def] isCurrentStream_def [abs_def] getCurrentStreamByClientId_def split: option.split)
  then show "server_ok (s\<lparr>sv_pendingClientRequests := pr\<rparr>) = server_ok s" "server_ok (s\<lparr>sv_running := ru\<rparr>) = server_ok s"
    by (simp_all add: server_ok_def ids_distinct_def by_id_ok_def by_client_ok_def gate_ok_def queue_ok_def notice_ok_def)
qed

section \<open>Cleanup\<close>

lemma cleanup_frame:
  assumes "r < length (sv_objs s)" "\<not> ss_lastPingAt (sobj s r) < 0"
  shows "length (sv_objs (cleanupStream c r s)) = length (sv_objs s)"
    "sobj (cleanupStream c r s) q = (if q = r then (sobj s r)\<lparr>ss_lastPingAt := -1, ss_queue := []\<rparr> else sobj s q)"
    "sv_streamsById (cleanupStream c r s) = jdelete (ss_id (sobj s r)) (sv_streamsById s)"
    "sv_pendingStreamsByClientId (cleanupStream c r s) = jdelete_if (ss_clientId (sobj s r)) r (sv_pendingStreamsByClientId s)"
    "sv_streamsByClientId (cleanupStream c r s) = jdelete_if (ss_clientId (sobj s r)) r (sv_streamsByClientId s)"
    "sv_blockedClientRequests (cleanupStream c r s) = filter (\<lambda>q. q \<noteq> r) (sv_blockedClientRequests s)"
    "sv_log (cleanupStream c r s) = sv_log s
       @ (case c of Some cause \<Rightarrow> [Closed r (CLOSE_CODES cause) (take 123 (''Stream terminated with cause: '' @ cause_text cause))] | None \<Rightarrow> [])
       @ [Disconnected r (nullish c CauseDisconnect)] @ map (\<lambda>q. Settled r q (Rejected ''Stream disconnected'')) (jkeys (ss_queue (sobj s r)))"
  using assms by (cases c; simp add: cleanupStream_def Let_def closeStreamWithError_def)+

lemma cleanup_noop: "ss_lastPingAt (sobj s r) < 0 \<Longrightarrow> cleanupStream c r s = s"
  by (simp add: cleanupStream_def Let_def)

lemma cleanup_registered:
  assumes "ids_distinct s" "r < length (sv_objs s)" "\<not> ss_lastPingAt (sobj s r) < 0"
  shows "registered (cleanupStream c r s) q \<longleftrightarrow> q \<noteq> r \<and> registered s q"
  using sobj_id_inj [OF assms(1), of q r] assms(2)
  by (auto simp: registered_def cleanup_frame [OF assms(2,3)])

lemma cleanup_current:
  assumes "r < length (sv_objs s)" "\<not> ss_lastPingAt (sobj s r) < 0" "isCurrentStream s q" "q \<noteq> r"
  shows "isCurrentStream (cleanupStream c r s) q"
  using assms(3,4)
  by (auto simp: isCurrentStream_def getCurrentStreamByClientId_def cleanup_frame [OF assms(1,2)] split: option.splits if_splits)

lemma server_ok_cleanup:
  assumes ok: "server_ok s" and r: "r < length (sv_objs s)"
  shows "server_ok (cleanupStream c r s)"
proof (cases "ss_lastPingAt (sobj s r) < 0")
  case True
  with ok show ?thesis by (simp add: cleanup_noop)
next
  case False
  let ?t = "cleanupStream c r s"
  note d = server_okD [OF ok]
  note f = cleanup_frame [OF r False] and reg = cleanup_registered [OF d(1) r False]
  show ?thesis
  proof (rule server_okI)
    have "map ss_id (sv_objs ?t) = map ss_id (sv_objs s)"
    proof (rule nth_equalityI)
      fix i assume "i < length (map ss_id (sv_objs ?t))"
      then have "i < length (sv_objs ?t)" "i < length (sv_objs s)" by (simp_all add: f(1))
      then show "map ss_id (sv_objs ?t) ! i = map ss_id (sv_objs s) ! i"
        using f(2) [of c i] by (simp add: sobj_def split: if_splits)
    qed (simp add: f(1))
    then show "ids_distinct ?t" using d(1) by (simp add: ids_distinct_def f(3) distinct_jdelete)
    show "by_id_ok ?t"
      unfolding by_id_ok_def
    proof (intro allI impI)
      fix i q assume "jget (sv_streamsById ?t) i = Some q"
      then have i: "jget (sv_streamsById s) i = Some q" "i \<noteq> ss_id (sobj s r)" by (auto simp: f(3) split: if_splits)
      with d(2) have q: "q < length (sv_objs s)" "ss_id (sobj s q) = i" "0 \<le> ss_lastPingAt (sobj s q)" "isCurrentStream s q"
        unfolding by_id_ok_def by blast+
      moreover have "q \<noteq> r" using i(2) q(2) by auto
      ultimately show "q < length (sv_objs ?t) \<and> ss_id (sobj ?t q) = i \<and> 0 \<le> ss_lastPingAt (sobj ?t q) \<and> isCurrentStream ?t q"
        using cleanup_current [OF r False q(4)] by (simp add: f(1,2))
    qed
    show "by_client_ok ?t"
      using d(3) unfolding by_client_ok_def reg by (auto simp: f(2,4,5) split: if_splits)
    show "gate_ok ?t"
      using d(4) unfolding gate_ok_def reg by (auto simp: f(1,2,6,7) split: option.splits if_splits)
    have inv: "invoked_ids q (sv_log ?t) = invoked_ids q (sv_log s)" for q by (simp add: f(7) split: option.split)
    have settled: "settled_ids q (sv_log ?t) = settled_ids q (sv_log s) @ (if q = r then jkeys (ss_queue (sobj s r)) else [])" for q
      by (simp add: f(7) split: option.split)
    show "queue_ok ?t"
      using d(5) r unfolding queue_ok_def inv settled f(1) by (auto simp: f(2) jkeys_def)
    have note': "disconnected q (sv_log ?t) \<longleftrightarrow> q = r \<or> disconnected q (sv_log s)" for q by (auto simp: f(7) split: option.split)
    have ref: "refused q (sv_log ?t) \<longleftrightarrow> refused q (sv_log s) \<or> (q = r \<and> c = Some CauseConflict)" for q
      by (cases c) (auto simp: f(7) close_code_conflict)
    show "notice_ok ?t"
      using d(6) r unfolding notice_ok_def reg note' ref f(1) by auto
  qed
qed

section \<open>Connecting\<close>

definition append_stream :: "srpc_stream \<Rightarrow> srpc_server \<Rightarrow> srpc_server" where
  "append_stream b s = s\<lparr>sv_objs := sv_objs s @ [b]\<rparr>"

lemma append_stream_simps [simp]:
  "length (sv_objs (append_stream b s)) = Suc (length (sv_objs s))" "sv_streamsById (append_stream b s) = sv_streamsById s"
  "sv_streamsByClientId (append_stream b s) = sv_streamsByClientId s" "sv_pendingStreamsByClientId (append_stream b s) = sv_pendingStreamsByClientId s"
  "sv_blockedClientRequests (append_stream b s) = sv_blockedClientRequests s" "sv_pendingClientRequests (append_stream b s) = sv_pendingClientRequests s"
  "sv_log (append_stream b s) = sv_log s"
  by (simp_all add: append_stream_def)

lemma sobj_append_old [simp]: "r < length (sv_objs s) \<Longrightarrow> sobj (append_stream b s) r = sobj s r"
  and sobj_append_new [simp]: "sobj (append_stream b s) (length (sv_objs s)) = b"
  by (simp_all add: append_stream_def sobj_def nth_append)

lemma supd_append: "r < length (sv_objs s) \<Longrightarrow> supd r f (append_stream b s) = append_stream b (supd r f s)"
  by (simp add: supd_def append_stream_def nth_append list_update_append)

lemma emit_append: "emit os (append_stream b s) = append_stream b (emit os s)"
  by (simp add: emit_def append_stream_def)

lemma cleanup_append:
  assumes "q < length (sv_objs s)"
  shows "cleanupStream c q (append_stream b s) = append_stream b (cleanupStream c q s)"
  using assms by (cases c)
    (simp_all add: cleanupStream_def Let_def supd_append emit_append closeStreamWithError_def, simp_all add: append_stream_def)

text \<open>Registering a new stream of a client that has none.\<close>

lemma server_ok_register:
  assumes ok: "server_ok s" and free: "getCurrentStreamByClientId s (ss_clientId b) = None"
    and fresh: "ss_id b \<notin> ss_id ` set (sv_objs s)"
    and b: "\<not> ss_isActivated b" "0 \<le> ss_lastPingAt b" "ss_queue b = []"
    and t: "t = (append_stream b s)\<lparr>sv_streamsById := jset (ss_id b) r (sv_streamsById s),
        sv_pendingStreamsByClientId := jset (ss_clientId b) r (sv_pendingStreamsByClientId s),
        sv_blockedClientRequests := set_add r (sv_blockedClientRequests s)\<rparr>"
    and r: "r = length (sv_objs s)"
  shows "server_ok t"
proof -
  note d = server_okD [OF ok]
  have tf: "length (sv_objs t) = Suc r" "sobj t r = b" "\<And>q. q < r \<Longrightarrow> sobj t q = sobj s q"
    "sv_streamsById t = jset (ss_id b) r (sv_streamsById s)" "sv_streamsByClientId t = sv_streamsByClientId s"
    "sv_pendingStreamsByClientId t = jset (ss_clientId b) r (sv_pendingStreamsByClientId s)"
    "sv_blockedClientRequests t = set_add r (sv_blockedClientRequests s)" "sv_log t = sv_log s" "sv_objs t = sv_objs s @ [b]"
    using r unfolding t append_stream_def by (simp_all add: sobj_def nth_append)
  have old: "q < r" "q \<noteq> r" if "jget (sv_streamsById s) i = Some q" for i q
    using d(2) that r unfolding by_id_ok_def by blast+
  have ids: "ss_id (sobj s q) \<noteq> ss_id b" if "q < r" for q
    using fresh that r unfolding sobj_def by (metis imageI nth_mem)
  have free': "jget (sv_pendingStreamsByClientId s) (ss_clientId b) = None" "jget (sv_streamsByClientId s) (ss_clientId b) = None"
    using free by (auto simp: getCurrentStreamByClientId_def split: option.splits)
  have reg: "registered t q \<longleftrightarrow> q = r \<or> registered s q" for q
    using ids [of q] r tf(2,3) by (auto simp: registered_def tf(1,4) less_Suc_eq)
  have cur: "isCurrentStream t q" if "isCurrentStream s q" "q < r" for q
  proof -
    have "ss_clientId (sobj s q) \<noteq> ss_clientId b" using that(1) free by (auto simp: isCurrentStream_def)
    with that show ?thesis by (simp add: isCurrentStream_def getCurrentStreamByClientId_def tf(3,5,6) split: option.splits)
  qed
  show ?thesis
  proof (rule server_okI)
    show "ids_distinct t" using d(1) fresh by (auto simp: ids_distinct_def tf(4,9) distinct_jset)
    show "by_id_ok t"
      unfolding by_id_ok_def
    proof (intro allI impI)
      fix i q assume i: "jget (sv_streamsById t) i = Some q"
      show "q < length (sv_objs t) \<and> ss_id (sobj t q) = i \<and> 0 \<le> ss_lastPingAt (sobj t q) \<and> isCurrentStream t q"
      proof (cases "i = ss_id b")
        case True
        with i b tf show ?thesis by (simp add: isCurrentStream_def getCurrentStreamByClientId_def)
      next
        case False
        with i have i': "jget (sv_streamsById s) i = Some q" by (simp add: tf(4))
        with d(2) have "ss_id (sobj s q) = i" "0 \<le> ss_lastPingAt (sobj s q)" "isCurrentStream s q" unfolding by_id_ok_def by blast+
        with old(1) [OF i'] cur show ?thesis by (simp add: tf(1,3))
      qed
    qed
    have small: "registered s q \<Longrightarrow> q < r" for q using r by (simp add: registered_def)
    show "by_client_ok t"
      unfolding by_client_ok_def
    proof (intro conjI allI impI)
      fix c q
      assume "jget (sv_streamsByClientId t) c = Some q"
      then have "registered s q \<and> ss_clientId (sobj s q) = c \<and> ss_isActivated (sobj s q)"
        using d(3) unfolding by_client_ok_def tf(5) by blast
      then show "registered t q" "ss_clientId (sobj t q) = c" "ss_isActivated (sobj t q)" using small tf(3) by (auto simp: reg)
    next
      fix c q
      assume a: "jget (sv_pendingStreamsByClientId t) c = Some q"
      have "c \<noteq> ss_clientId b \<Longrightarrow> registered s q \<and> ss_clientId (sobj s q) = c \<and> \<not> ss_isActivated (sobj s q)"
        using d(3) a unfolding by_client_ok_def by (simp add: tf(6))
      moreover have "c = ss_clientId b \<Longrightarrow> q = r" using a by (simp add: tf(6))
      ultimately have "registered t q \<and> ss_clientId (sobj t q) = c \<and> \<not> ss_isActivated (sobj t q)"
        using small [of q] tf(2) tf(3) [of q] b(1) by (cases "c = ss_clientId b") (simp_all add: reg)
      then show "registered t q" "ss_clientId (sobj t q) = c" "\<not> ss_isActivated (sobj t q)" by simp_all
    next
      fix c
      show "jget (sv_pendingStreamsByClientId t) c = None \<or> jget (sv_streamsByClientId t) c = None"
        using d(3) free'(2) unfolding by_client_ok_def by (simp add: tf(5,6))
    qed
    have out: "\<not> dispatched r (sv_log s)" "invoked_ids r (sv_log s) = []" "settled_ids r (sv_log s) = []"
      "\<not> disconnected r (sv_log s)" "\<not> refused r (sv_log s)"
      using d(4-6) r by (auto simp: gate_ok_def queue_ok_def notice_ok_def)
    show "gate_ok t"
      unfolding gate_ok_def
    proof (intro conjI allI impI)
      fix q assume a: "registered t q \<and> ss_phase (sobj t q) \<noteq> Open"
      then have "q = r \<or> registered s q \<and> ss_phase (sobj s q) \<noteq> Open" using small tf(3) by (auto simp: reg)
      then show "q \<in> set (sv_blockedClientRequests t)" "\<not> dispatched q (sv_log t)"
        using d(4) out by (auto simp: gate_ok_def tf(7,8))
    next
      fix q assume "q < length (sv_objs t)"
      then have q: "q = r \<or> q < r" by (auto simp: tf(1))
      show "ss_isActivated (sobj t q)" if "dispatched q (sv_log t)" using that q d(4) out r by (auto simp: gate_ok_def tf(3,8))
      show "ss_phase (sobj t q) \<in> {Activating, Open, Over}" if "ss_isActivated (sobj t q)"
        using that q d(4) b(1) r tf(2) tf(3) [of q] by (cases "q = r") (simp_all add: gate_ok_def)
    next
      fix q assume "length (sv_objs t) \<le> q"
      then show "\<not> dispatched q (sv_log t)" using d(4) r by (simp add: gate_ok_def tf(1,8))
    qed
    show "queue_ok t"
      unfolding queue_ok_def
    proof (intro conjI allI impI)
      fix q
      show "distinct (invoked_ids q (sv_log t))" using d(5) by (simp add: queue_ok_def tf(8))
      show "mset (invoked_ids q (sv_log t)) = mset (settled_ids q (sv_log t)) + mset (jkeys (ss_queue (sobj t q)))" if "q < length (sv_objs t)"
        using that d(5) out(2,3) b(3) r [symmetric] tf(2) tf(3) [of q] by (cases "q = r") (simp_all add: queue_ok_def tf(1,8) jkeys_def)
      show "invoked_ids q (sv_log t) = []" "settled_ids q (sv_log t) = []" if "length (sv_objs t) \<le> q"
        using that d(5) r by (simp_all add: queue_ok_def tf(1,8))
    qed
    show "notice_ok t"
      unfolding notice_ok_def
    proof (intro conjI allI impI)
      fix q
      show "registered t q = (\<not> disconnected q (sv_log t) \<and> \<not> refused q (sv_log t))" if "q < length (sv_objs t)"
        using that d(6) out r by (cases "q = r") (auto simp: notice_ok_def reg tf(1,8))
      show "\<not> disconnected q (sv_log t)" "\<not> refused q (sv_log t)" if "length (sv_objs t) \<le> q"
        using that d(6) r by (simp_all add: notice_ok_def tf(1,8))
    qed
  qed
qed

text \<open>A connection that is refused leaves no trace but its dead object.\<close>

lemma server_ok_refuse:
  assumes ok: "server_ok s" and fresh: "ss_id b \<notin> ss_id ` set (sv_objs s)"
    and b: "\<not> ss_isActivated b" "ss_queue b = []" and r: "r = length (sv_objs s)"
  shows "server_ok (emit [Closed r (CLOSE_CODES CauseConflict) text] (append_stream b s))" (is "server_ok ?t")
proof -
  note d = server_okD [OF ok]
  have tf: "length (sv_objs ?t) = Suc r" "sobj ?t r = b" "\<And>q. q < r \<Longrightarrow> sobj ?t q = sobj s q" "sv_objs ?t = sv_objs s @ [b]"
    using r by simp_all (simp add: append_stream_def)
  have none: "jget (sv_streamsById s) (ss_id b) = None"
  proof (rule ccontr)
    assume "jget (sv_streamsById s) (ss_id b) \<noteq> None"
    then obtain q where "q < length (sv_objs s)" "ss_id (sobj s q) = ss_id b" using d(2) unfolding by_id_ok_def by blast
    with fresh show False unfolding sobj_def by (metis imageI nth_mem)
  qed
  have reg: "registered ?t q \<longleftrightarrow> registered s q" for q
    using none r tf(2) tf(3) [of q] by (cases "q = r"; cases "q < r") (auto simp: registered_def)
  have small: "registered s q \<Longrightarrow> q < r" for q using r by (simp add: registered_def)
  have cur: "isCurrentStream ?t q = isCurrentStream s q" if "q < r" for q
    using that r by (simp add: isCurrentStream_def getCurrentStreamByClientId_def split: option.split)
  have out: "\<not> dispatched r (sv_log s)" "invoked_ids r (sv_log s) = []" "settled_ids r (sv_log s) = []" "\<not> disconnected r (sv_log s)"
    using d(4-6) r by (auto simp: gate_ok_def queue_ok_def notice_ok_def)
  show ?thesis
  proof (rule server_okI)
    show "ids_distinct ?t" using d(1) fresh unfolding ids_distinct_def tf(4) by simp
    show "by_id_ok ?t"
      unfolding by_id_ok_def
    proof (intro allI impI)
      fix i q assume i: "jget (sv_streamsById ?t) i = Some q"
      then have q: "q < length (sv_objs s)" "ss_id (sobj s q) = i" "0 \<le> ss_lastPingAt (sobj s q)" "isCurrentStream s q"
        using d(2) unfolding by_id_ok_def by simp_all
      then show "q < length (sv_objs ?t) \<and> ss_id (sobj ?t q) = i \<and> 0 \<le> ss_lastPingAt (sobj ?t q) \<and> isCurrentStream ?t q"
        using cur [of q] r by simp
    qed
    show "by_client_ok ?t" using d(3) small tf(3) unfolding by_client_ok_def reg by simp
    show "gate_ok ?t"
      unfolding gate_ok_def reg
    proof (intro conjI allI impI)
      fix q assume "registered s q \<and> ss_phase (sobj ?t q) \<noteq> Open"
      then show "q \<in> set (sv_blockedClientRequests ?t)" "\<not> dispatched q (sv_log ?t)" using d(4) small tf(3) by (auto simp: gate_ok_def)
    next
      fix q assume "q < length (sv_objs ?t)"
      then have q: "q = r \<or> q < r" using r by auto
      show "ss_isActivated (sobj ?t q)" if "dispatched q (sv_log ?t)" using that q d(4) out r tf(3) by (auto simp: gate_ok_def)
      show "ss_phase (sobj ?t q) \<in> {Activating, Open, Over}" if "ss_isActivated (sobj ?t q)" using that q d(4) b r tf(2,3) by (auto simp: gate_ok_def)
    next
      fix q assume "length (sv_objs ?t) \<le> q"
      then show "\<not> dispatched q (sv_log ?t)" using d(4) r by (simp add: gate_ok_def)
    qed
    show "queue_ok ?t"
      unfolding queue_ok_def
    proof (intro conjI allI impI)
      fix q
      show "distinct (invoked_ids q (sv_log ?t))" using d(5) by (simp add: queue_ok_def)
      show "mset (invoked_ids q (sv_log ?t)) = mset (settled_ids q (sv_log ?t)) + mset (jkeys (ss_queue (sobj ?t q)))" if "q < length (sv_objs ?t)"
        using that d(5) out(2,3) b(2) r [symmetric] tf(2) tf(3) [of q] by (cases "q = r") (simp_all add: queue_ok_def jkeys_def)
      show "invoked_ids q (sv_log ?t) = []" "settled_ids q (sv_log ?t) = []" if "length (sv_objs ?t) \<le> q"
        using that d(5) r by (simp_all add: queue_ok_def)
    qed
    show "notice_ok ?t"
      unfolding notice_ok_def reg
    proof (intro conjI allI impI)
      fix q
      show "registered s q = (\<not> disconnected q (sv_log ?t) \<and> \<not> refused q (sv_log ?t))" if "q < length (sv_objs ?t)"
        using that d(6) small r by (cases "q = r") (auto simp: notice_ok_def)
      show "\<not> disconnected q (sv_log ?t)" "\<not> refused q (sv_log ?t)" if "length (sv_objs ?t) \<le> q"
        using that d(6) r by (simp_all add: notice_ok_def)
    qed
  qed
qed

lemma current_registered:
  assumes "server_ok s" "getCurrentStreamByClientId s c = Some q"
  shows "registered s q" "ss_clientId (sobj s q) = c" "q < length (sv_objs s)" "\<not> ss_lastPingAt (sobj s q) < 0"
proof -
  note bc = server_okD(3) [OF assms(1), unfolded by_client_ok_def]
  have "jget (sv_pendingStreamsByClientId s) c = Some q \<or> jget (sv_streamsByClientId s) c = Some q"
    using assms(2) by (simp add: getCurrentStreamByClientId_def split: option.splits)
  then have rc: "registered s q \<and> ss_clientId (sobj s q) = c"
    using bc [THEN conjunct1, rule_format, of c q] bc [THEN conjunct2, THEN conjunct1, rule_format, of c q] by blast
  then show "registered s q" "ss_clientId (sobj s q) = c" by blast+
  then show "q < length (sv_objs s)" by (simp only: registered_def)
  have "jget (sv_streamsById s) (ss_id (sobj s q)) = Some q" using rc by (simp only: registered_def)
  then have "0 \<le> ss_lastPingAt (sobj s q)" using server_okD(2) [OF assms(1)] unfolding by_id_ok_def by blast
  then show "\<not> ss_lastPingAt (sobj s q) < 0" by simp
qed

lemma cleanup_frees:
  assumes "server_ok s" "getCurrentStreamByClientId s c = Some q"
  shows "getCurrentStreamByClientId (cleanupStream cause q s) c = None"
proof -
  have ex: "jget (sv_pendingStreamsByClientId s) c = None \<or> jget (sv_streamsByClientId s) c = None"
    by (rule server_okD(3) [OF assms(1), unfolded by_client_ok_def, THEN conjunct2, THEN conjunct2, rule_format])
  have maps: "sv_pendingStreamsByClientId (cleanupStream cause q s) = jdelete_if c q (sv_pendingStreamsByClientId s)"
    "sv_streamsByClientId (cleanupStream cause q s) = jdelete_if c q (sv_streamsByClientId s)"
    using cleanup_frame(4,5) [OF current_registered(3,4) [OF assms]] current_registered(2) [OF assms] by simp_all
  show ?thesis
    using assms(2) ex unfolding getCurrentStreamByClientId_def maps
    by (cases "jget (sv_pendingStreamsByClientId s) c") simp_all
qed

definition fresh_stream :: "int \<Rightarrow> string \<Rightarrow> stream_info \<Rightarrow> srpc_stream" where
  "fresh_stream now streamId info = \<lparr>ss_id = streamId, ss_clientId = si_clientId info, ss_protocolVersion = si_protocolVersion info,
     ss_isActivated = False, ss_lastPingAt = now, ss_queue = [], ss_bytes = byte_init 2 2 new_conn, ss_phase = Checking, ss_listening = False\<rparr>"

lemma fresh_stream_simps [simp]:
  "ss_id (fresh_stream now streamId info) = streamId" "ss_clientId (fresh_stream now streamId info) = si_clientId info"
  "ss_protocolVersion (fresh_stream now streamId info) = si_protocolVersion info" "\<not> ss_isActivated (fresh_stream now streamId info)"
  "ss_lastPingAt (fresh_stream now streamId info) = now" "ss_queue (fresh_stream now streamId info) = []"
  by (simp_all add: fresh_stream_def)

definition insists :: "stream_info \<Rightarrow> bool" where
  "insists info \<longleftrightarrow> si_supersede info \<or> (case si_protocolVersion info of Some v \<Rightarrow> v < 2 | None \<Rightarrow> True)"

definition register_stream :: "srpc_stream \<Rightarrow> srpc_server \<Rightarrow> srpc_server" where
  "register_stream b s = (append_stream b s)
     \<lparr>sv_streamsById := jset (ss_id b) (length (sv_objs s)) (sv_streamsById s),
      sv_pendingStreamsByClientId := jset (ss_clientId b) (length (sv_objs s)) (sv_pendingStreamsByClientId s),
      sv_blockedClientRequests := set_add (length (sv_objs s)) (sv_blockedClientRequests s)\<rparr>"

lemma attach_established:
  "attachConnection now streamId info s =
     handleStreamEstablished (length (sv_objs s)) (si_supersede info) (append_stream (fresh_stream now streamId info) s)"
  by (simp add: attachConnection_def append_stream_def fresh_stream_def)

lemma current_append [simp]: "getCurrentStreamByClientId (append_stream b s) c = getCurrentStreamByClientId s c"
  by (simp add: getCurrentStreamByClientId_def split: option.split)

text \<open>The three ways a connection ends: registered at once, refused, or registered in place of the old one.\<close>

lemma attach_free:
  "getCurrentStreamByClientId s (si_clientId info) = None \<Longrightarrow>
   attachConnection now streamId info s = register_stream (fresh_stream now streamId info) s"
  by (simp add: attach_established handleStreamEstablished_def Let_def register_stream_def)

lemma attach_refused:
  assumes "getCurrentStreamByClientId s (si_clientId info) = Some q" "\<not> insists info"
  shows "attachConnection now streamId info s = emit [Closed (length (sv_objs s)) (CLOSE_CODES CauseConflict) ''Client ID already connected'']
    (append_stream ((fresh_stream now streamId info)\<lparr>ss_lastPingAt := -1, ss_phase := Over\<rparr>) s)"
proof -
  have "supd (length (sv_objs s)) f (append_stream b s) = append_stream (f b) s" for f b by (simp add: supd_def append_stream_def)
  then show ?thesis
    using assms by (simp add: attach_established handleStreamEstablished_def Let_def closeStreamWithError_def insists_def split: option.splits)
qed

lemma attach_replaces:
  assumes ok: "server_ok s" and q: "getCurrentStreamByClientId s (si_clientId info) = Some q" and "insists info"
  shows "attachConnection now streamId info s = register_stream (fresh_stream now streamId info) (cleanupStream (Some CauseSupersede) q s)"
proof -
  note r = current_registered [OF ok q]
  have "length (sv_objs (cleanupStream (Some CauseSupersede) q s)) = length (sv_objs s)" by (rule cleanup_frame(1) [OF r(3,4)])
  then show ?thesis
    using assms(2,3) by (auto simp: attach_established handleStreamEstablished_def Let_def cleanup_append [OF r(3)] insists_def register_stream_def
        split: option.splits)
qed

lemma server_ok_attach:
  assumes ok: "server_ok s" and fresh: "streamId \<notin> ss_id ` set (sv_objs s)" and now: "0 \<le> now"
  shows "server_ok (attachConnection now streamId info s)"
proof (cases "getCurrentStreamByClientId s (si_clientId info)")
  case None
  then show ?thesis
    using server_ok_register [OF ok _ _ _ _ _ register_stream_def refl, of "fresh_stream now streamId info"] fresh now
    by (simp add: attach_free)
next
  case (Some q)
  note q = current_registered [OF ok Some]
  show ?thesis
  proof (cases "insists info")
    case False
    then show ?thesis
      using server_ok_refuse [OF ok, of "(fresh_stream now streamId info)\<lparr>ss_lastPingAt := -1, ss_phase := Over\<rparr>" "length (sv_objs s)"] fresh Some
      by (simp add: attach_refused)
  next
    case True
    let ?s = "cleanupStream (Some CauseSupersede) q s"
    have "map ss_id (sv_objs ?s) = map ss_id (sv_objs s)"
      by (rule nth_equalityI) (use cleanup_frame(1,2) [OF q(3,4)] in \<open>auto simp: sobj_def split: if_splits\<close>)
    then have "ss_id ` set (sv_objs ?s) = ss_id ` set (sv_objs s)" by (metis set_map)
    then show ?thesis
      using server_ok_register [OF server_ok_cleanup [OF ok q(3)] _ _ _ _ _ register_stream_def refl, of "Some CauseSupersede" "fresh_stream now streamId info"]
        cleanup_frees [OF ok Some] fresh now
      by (simp add: attach_replaces [OF ok Some True])
  qed
qed

section \<open>Activation\<close>

lemma server_ok_activate:
  assumes ok: "server_ok s" and cur: "isCurrentStream s r" and ph: "ss_phase (sobj s r) = Connecting"
  shows "server_ok (set_phase Activating r (activateStream r s))" (is "server_ok ?t") "ss_isActivated (sobj (activateStream r s) r)"
proof -
  note d = server_okD [OF ok]
  let ?c = "ss_clientId (sobj s r)"
  have cur': "getCurrentStreamByClientId s ?c = Some r" using cur by (simp only: isCurrentStream_def)
  note r = current_registered [OF ok cur']
  have inactive: "\<not> ss_isActivated (sobj s r)" using d(4) r(3) ph unfolding gate_ok_def by auto
  have act: "activateStream r s = (supd r (\<lambda>b. b\<lparr>ss_isActivated := True\<rparr>) (s\<lparr>sv_pendingStreamsByClientId := jdelete ?c (sv_pendingStreamsByClientId s)\<rparr>))
      \<lparr>sv_streamsByClientId := jset ?c r (sv_streamsByClientId s)\<rparr>"
    using r(4) cur by (simp add: activateStream_def Let_def)
  show activated: "ss_isActivated (sobj (activateStream r s) r)" unfolding act using r(3) by simp
  have tf: "length (sv_objs ?t) = length (sv_objs s)"
    "\<And>q. sobj ?t q = (if q = r then (sobj s r)\<lparr>ss_isActivated := True, ss_phase := Activating\<rparr> else sobj s q)"
    "sv_streamsById ?t = sv_streamsById s" "sv_pendingStreamsByClientId ?t = jdelete ?c (sv_pendingStreamsByClientId s)"
    "sv_streamsByClientId ?t = jset ?c r (sv_streamsByClientId s)" "sv_blockedClientRequests ?t = sv_blockedClientRequests s" "sv_log ?t = sv_log s"
    using r(3) unfolding set_phase_def act by simp_all
  have reg: "registered ?t q = registered s q" for q by (auto simp: registered_def tf(1-3))
  have unique: "q = r" if "registered s q" "ss_clientId (sobj s q) = ?c" for q
  proof -
    have "isCurrentStream s q" using that(1) d(2) unfolding registered_def by_id_ok_def by blast
    then show ?thesis using that(2) cur' by (simp add: isCurrentStream_def)
  qed
  have keep: "isCurrentStream ?t q" if "isCurrentStream s q" "registered s q" for q
  proof (cases "q = r")
    case True
    then show ?thesis by (simp add: isCurrentStream_def getCurrentStreamByClientId_def tf)
  next
    case False
    then have "ss_clientId (sobj s q) \<noteq> ?c" using unique that(2) by blast
    with False that(1) show ?thesis
      by (simp add: isCurrentStream_def getCurrentStreamByClientId_def tf split: option.splits)
  qed
  note bc = d(3) [unfolded by_client_ok_def]
  show "server_ok ?t"
  proof (rule server_okI)
    have "map ss_id (sv_objs ?t) = map ss_id (sv_objs s)"
      by (rule nth_equalityI) (use tf(1,2) in \<open>auto simp: sobj_def split: if_splits\<close>)
    then show "ids_distinct ?t" using d(1) by (simp only: ids_distinct_def tf(3))
    show "by_id_ok ?t"
      unfolding by_id_ok_def tf(3)
    proof (intro allI impI)
      fix i q assume "jget (sv_streamsById s) i = Some q"
      then have q: "q < length (sv_objs s)" "ss_id (sobj s q) = i" "0 \<le> ss_lastPingAt (sobj s q)" "isCurrentStream s q"
        using d(2) unfolding by_id_ok_def by blast+
      moreover have "registered s q" using q(1,2) \<open>jget (sv_streamsById s) i = Some q\<close> by (simp add: registered_def)
      ultimately show "q < length (sv_objs ?t) \<and> ss_id (sobj ?t q) = i \<and> 0 \<le> ss_lastPingAt (sobj ?t q) \<and> isCurrentStream ?t q"
        using keep [of q] by (cases "q = r") (simp_all add: tf(1,2))
    qed
    show "by_client_ok ?t"
      unfolding by_client_ok_def
    proof (intro conjI allI impI)
      fix c q assume a: "jget (sv_streamsByClientId ?t) c = Some q"
      have "registered s q \<and> ss_clientId (sobj s q) = c \<and> (q = r \<or> ss_isActivated (sobj s q))"
        using a r(1) bc [THEN conjunct1, rule_format, of c q] by (cases "c = ?c") (auto simp: tf(5))
      then show "registered ?t q" "ss_clientId (sobj ?t q) = c" "ss_isActivated (sobj ?t q)" by (auto simp: reg tf(2))
    next
      fix c q assume a: "jget (sv_pendingStreamsByClientId ?t) c = Some q"
      then have "c \<noteq> ?c" "jget (sv_pendingStreamsByClientId s) c = Some q" by (auto simp: tf(4) split: if_splits)
      with bc [THEN conjunct2, THEN conjunct1, rule_format, of c q]
      have "registered s q \<and> ss_clientId (sobj s q) = c \<and> \<not> ss_isActivated (sobj s q) \<and> q \<noteq> r" by auto
      then show "registered ?t q" "ss_clientId (sobj ?t q) = c" "\<not> ss_isActivated (sobj ?t q)" by (simp_all add: reg tf(2))
    next
      fix c
      show "jget (sv_pendingStreamsByClientId ?t) c = None \<or> jget (sv_streamsByClientId ?t) c = None"
        using bc [THEN conjunct2, THEN conjunct2, rule_format, of c] by (simp add: tf(4,5))
    qed
    show "gate_ok ?t"
      unfolding gate_ok_def reg
    proof (intro conjI allI impI)
      fix q assume a: "registered s q \<and> ss_phase (sobj ?t q) \<noteq> Open"
      then have "registered s q \<and> ss_phase (sobj s q) \<noteq> Open" using ph by (cases "q = r") (simp_all add: tf(2))
      then show "q \<in> set (sv_blockedClientRequests ?t)" "\<not> dispatched q (sv_log ?t)" using d(4) by (simp_all add: gate_ok_def tf(6,7))
    next
      fix q assume "q < length (sv_objs ?t)"
      then have q: "q < length (sv_objs s)" by (simp add: tf(1))
      show "ss_isActivated (sobj ?t q)" if "dispatched q (sv_log ?t)" using that q d(4) by (simp add: gate_ok_def tf(2,7))
      show "ss_phase (sobj ?t q) \<in> {Activating, Open, Over}" if "ss_isActivated (sobj ?t q)"
        using that q d(4) by (cases "q = r") (simp_all add: gate_ok_def tf(2))
    next
      fix q assume "length (sv_objs ?t) \<le> q"
      then show "\<not> dispatched q (sv_log ?t)" using d(4) by (simp add: gate_ok_def tf(1,7))
    qed
    show "queue_ok ?t" using d(5) by (simp add: queue_ok_def tf(1,2,7))
    show "notice_ok ?t" using d(6) by (simp add: notice_ok_def reg tf(1,7))
  qed
qed

section \<open>Messages and hooks\<close>

text \<open>Changes of one stream that nothing else looks at.\<close>

lemma server_ok_field:
  assumes "server_ok s" "r < length (sv_objs s)"
    "ss_id (f (sobj s r)) = ss_id (sobj s r)" "ss_clientId (f (sobj s r)) = ss_clientId (sobj s r)"
    "ss_isActivated (f (sobj s r)) = ss_isActivated (sobj s r)" "ss_queue (f (sobj s r)) = ss_queue (sobj s r)"
    and "registered s r \<Longrightarrow> 0 \<le> ss_lastPingAt (f (sobj s r))"
    and "ss_isActivated (sobj s r) \<Longrightarrow> ss_phase (f (sobj s r)) \<in> {Activating, Open, Over}"
    and "registered s r \<Longrightarrow> ss_phase (f (sobj s r)) \<noteq> Open \<Longrightarrow> ss_phase (sobj s r) \<noteq> Open"
  shows "server_ok (supd r f s)"
  using server_ok_touch [of s r f "[]"] assms by (simp add: emit_nil)

lemma live_registered: "server_ok s \<Longrightarrow> registered s r \<Longrightarrow> 0 \<le> ss_lastPingAt (sobj s r)"
  using server_okD(2) [of s] unfolding registered_def by_id_ok_def by blast

lemma activated_phase: "server_ok s \<Longrightarrow> r < length (sv_objs s) \<Longrightarrow> ss_isActivated (sobj s r) \<Longrightarrow> ss_phase (sobj s r) \<in> {Activating, Open, Over}"
  using server_okD(4) [of s] unfolding gate_ok_def by blast

text \<open>A phase only moves forward, and a stream is opened once.\<close>

lemma server_ok_set_phase:
  assumes "server_ok s" "r < length (sv_objs s)" "ss_phase (sobj s r) \<noteq> Open" "p \<in> {Activating, Over} \<or> p = Connecting \<and> \<not> ss_isActivated (sobj s r)"
  shows "server_ok (set_phase p r s)"
  unfolding set_phase_def
  by (rule server_ok_field) (use assms live_registered [OF assms(1)] in auto)

lemma server_ok_close: "server_ok s \<Longrightarrow> cause \<noteq> CauseConflict \<Longrightarrow> server_ok (closeStreamWithError r cause text s)"
  unfolding closeStreamWithError_def by (rule server_ok_emit) (simp_all, cases cause, simp_all)

lemma server_ok_write: "server_ok s \<Longrightarrow> server_ok (writeToStream r m s)"
  unfolding writeToStream_def by (rule server_ok_emit) simp_all

lemma server_ok_request:
  assumes ok: "server_ok s" and r: "r < length (sv_objs s)"
    and gate: "ss_isActivated (sobj s r)" "r \<notin> set (sv_blockedClientRequests s)"
  shows "server_ok (handleClientRequest r requestId m s)"
proof (cases "handler_for s m")
  case None
  then show ?thesis using server_ok_write [OF ok] by (simp add: handleClientRequest_def)
next
  case (Some kd)
  obtain key data where kd: "kd = (key, data)" by force
  have open_now: "registered s r \<Longrightarrow> ss_phase (sobj s r) = Open" using server_okD(4) [OF ok] gate(2) unfolding gate_ok_def by blast
  have "supd r (\<lambda>b. b) s = s" by (simp add: supd_def)
  then have "server_ok (emit [Dispatched r requestId key data] s)"
    using server_ok_touch [OF ok r, of "\<lambda>b. b" "[Dispatched r requestId key data]"] gate open_now live_registered [OF ok] activated_phase [OF ok r]
    by simp
  then show ?thesis using Some kd by (simp add: handleClientRequest_def)
qed

lemma jkeys_jdelete_mset:
  "distinct (map fst m) \<Longrightarrow> jget m k = Some v \<Longrightarrow> mset (jkeys m) = add_mset k (mset (jkeys (jdelete k m)))"
proof (induction m)
  case (Cons a m)
  then show ?case
  proof (cases "fst a = k")
    case True
    with Cons.prems have "jdelete k m = m" unfolding jdelete_def by (intro delete_id) simp
    with True show ?thesis by (cases a) (simp add: jkeys_def jdelete_def)
  next
    case False
    with Cons show ?thesis by (cases a) (auto simp: jkeys_def jdelete_def)
  qed
qed simp

lemma queue_distinct:
  assumes "server_ok s" "r < length (sv_objs s)"
  shows "distinct (map fst (ss_queue (sobj s r)))" "set (jkeys (ss_queue (sobj s r))) \<subseteq> set (invoked_ids r (sv_log s))"
proof -
  have d: "distinct (invoked_ids r (sv_log s))"
    and m: "mset (invoked_ids r (sv_log s)) = mset (settled_ids r (sv_log s)) + mset (jkeys (ss_queue (sobj s r)))"
    using server_okD(5) [OF assms(1)] assms(2) unfolding queue_ok_def by blast+
  have "mset (invoked_ids r (sv_log s)) = mset (settled_ids r (sv_log s) @ jkeys (ss_queue (sobj s r)))" using m by simp
  then have "distinct (settled_ids r (sv_log s) @ jkeys (ss_queue (sobj s r)))"
    using d by (metis mset_eq_imp_distinct_iff)
  then show "distinct (map fst (ss_queue (sobj s r)))" by (simp add: jkeys_def)
  show "set (jkeys (ss_queue (sobj s r))) \<subseteq> set (invoked_ids r (sv_log s))"
    using arg_cong [OF m, of set_mset] by auto
qed

lemma server_ok_settle:
  assumes ok: "server_ok s" and r: "r < length (sv_objs s)" and q: "jget (ss_queue (sobj s r)) requestId = Some qr"
  shows "server_ok (emit [Settled r requestId x] (supd r (\<lambda>b. b\<lparr>ss_queue := jdelete requestId (ss_queue b)\<rparr>) s))"
  by (rule server_ok_touch [OF ok r])
    (use live_registered [OF ok] activated_phase [OF ok r] jkeys_jdelete_mset [OF queue_distinct(1) [OF ok r] q] in auto)

lemma server_ok_handle:
  assumes ok: "server_ok s" and r: "r < length (sv_objs s)" and now: "0 \<le> now"
  shows "server_ok (handleStreamDataReceived now r m s)"
proof -
  have ping: "server_ok (supd r (\<lambda>b. b\<lparr>ss_lastPingAt := now\<rparr>) s)"
    by (rule server_ok_field [OF ok r]) (use now activated_phase [OF ok r] in auto)
  have bytes: "server_ok (supd r (\<lambda>b. b\<lparr>ss_bytes := handleByteStreamOperation op (ss_bytes b)\<rparr>) s)" for op
    by (rule server_ok_field [OF ok r]) (use live_registered [OF ok] activated_phase [OF ok r] in auto)
  show ?thesis
    unfolding handleStreamDataReceived_def Let_def
    using server_ok_write [OF ping] bytes ok server_ok_close [OF ok] server_ok_settle [OF ok r] server_ok_request [OF ok r]
    by (simp split: option.split)
qed

lemma length_handle [simp]: "length (sv_objs (handleStreamDataReceived now r m s)) = length (sv_objs s)"
  by (simp add: handleStreamDataReceived_def Let_def writeToStream_def closeStreamWithError_def handleClientRequest_def split: option.split prod.split)

lemma server_ok_handle_all:
  "server_ok s \<Longrightarrow> r < length (sv_objs s) \<Longrightarrow> 0 \<le> now \<Longrightarrow> server_ok (fold (handleStreamDataReceived now r) ms s)"
  by (induction ms arbitrary: s) (simp_all add: server_ok_handle)

section \<open>Every event keeps the invariant\<close>

lemma length_cleanup [simp]: "length (sv_objs (cleanupStream c r s)) = length (sv_objs s)"
  by (cases c) (simp_all add: cleanupStream_def Let_def closeStreamWithError_def)

lemma phase_cleanup: "r < length (sv_objs s) \<Longrightarrow> ss_phase (sobj (cleanupStream c q s) r) = ss_phase (sobj s r)"
proof (cases "q < length (sv_objs s)")
  case True
  then show ?thesis
    by (cases "ss_lastPingAt (sobj s q) < 0") (simp_all add: cleanup_noop cleanup_frame)
next
  case False
  then have "supd q f t = t" if "length (sv_objs t) = length (sv_objs s)" for f and t :: srpc_server
    using that False by (cases t) (simp add: supd_def list_update_beyond)
  then show ?thesis by (cases c) (simp_all add: cleanupStream_def Let_def closeStreamWithError_def)
qed

lemma server_ok_end:
  assumes "server_ok s" "r < length (sv_objs s)" "ss_phase (sobj s r) \<noteq> Open"
  shows "server_ok (set_phase Over r (cleanupStream c r s))"
  by (rule server_ok_set_phase) (use assms in \<open>simp_all add: server_ok_cleanup phase_cleanup\<close>)

lemma server_ok_connected:
  assumes ok: "server_ok s" and r: "r < length (sv_objs s)" and ph: "ss_phase (sobj s r) = Connecting"
  shows "server_ok (connectedDone r good s)"
proof -
  have inactive: "\<not> ss_isActivated (sobj s r)" using activated_phase [OF ok r] ph by auto
  have over: "server_ok (set_phase Over r s)" by (rule server_ok_set_phase [OF ok r]) (use ph in auto)
  have stop: "server_ok (set_phase Over r (cleanupStream (Some CauseDisconnect) r s))" by (rule server_ok_end [OF ok r]) (use ph in simp)
  show ?thesis
  proof (cases "isCurrentStream s r")
    case True
    have "server_ok (emit [ActivatedHook r] (set_phase Activating r (activateStream r s)))"
      by (rule server_ok_emit [OF server_ok_activate(1) [OF ok True ph]]) simp
    with over stop server_ok_activate(2) [OF ok True ph] show ?thesis
      by (auto simp: connectedDone_def Let_def)
  next
    case False
    then have "activateStream r s = s" by (simp add: activateStream_def)
    with over stop inactive show ?thesis by (simp add: connectedDone_def Let_def)
  qed
qed

lemma server_ok_unblock:
  assumes "server_ok s" "ss_phase (sobj s r) = Open"
  shows "server_ok (s\<lparr>sv_blockedClientRequests := filter (\<lambda>q. q \<noteq> r) (sv_blockedClientRequests s)\<rparr>)" (is "server_ok ?t")
proof -
  have "registered ?t = registered s" "isCurrentStream ?t = isCurrentStream s"
    by (simp_all add: registered_def [abs_def] isCurrentStream_def [abs_def] getCurrentStreamByClientId_def split: option.split)
  with server_okD [OF assms(1)] assms(2) show ?thesis
    by (intro server_okI) (auto simp: ids_distinct_def by_id_ok_def by_client_ok_def gate_ok_def queue_ok_def notice_ok_def)
qed

lemma server_ok_open:
  assumes ok: "server_ok s" and r: "r < length (sv_objs s)" and ph: "ss_phase (sobj s r) = Activating" and now: "0 \<le> now"
    and act: "ss_isActivated (sobj s r)"
  shows "server_ok (openClientRequests now r (set_phase Open r s))"
proof -
  have "server_ok (set_phase Open r s)"
    unfolding set_phase_def by (rule server_ok_field [OF ok r]) (use ph live_registered [OF ok] in auto)
  moreover have "ss_phase (sobj (set_phase Open r s) r) = Open" using r by (simp add: set_phase_def)
  ultimately have ub: "server_ok ((set_phase Open r s)\<lparr>sv_blockedClientRequests := filter (\<lambda>q. q \<noteq> r) (sv_blockedClientRequests (set_phase Open r s))\<rparr>)"
    by (rule server_ok_unblock)
  have len: "r < length (sv_objs (set_phase Open r s))" using r by (simp add: set_phase_def)
  show ?thesis
    unfolding openClientRequests_def Let_def using ub len now by (simp add: server_ok_handle_all)
qed

lemma server_ok_invoke:
  assumes ok: "server_ok s" and fresh: "fresh_request s r requestId"
  shows "server_ok (invoke r prefix data requestId now timeoutMs s)"
proof -
  have r: "r < length (sv_objs s)" using fresh by (simp add: fresh_request_def)
  have new: "requestId \<notin> set (invoked_ids r (sv_log s))"
  proof
    have *: "Invoked r i \<in> set log" if "i \<in> set (invoked_ids r log)" for i log
      using that by (induction log) (auto split: server_output.splits if_splits)
    assume "requestId \<in> set (invoked_ids r (sv_log s))"
    from * [OF this] fresh show False by (simp add: fresh_request_def)
  qed
  then have "requestId \<notin> fst ` set (ss_queue (sobj s r))"
    using queue_distinct(2) [OF ok r] by (auto simp: jkeys_def)
  then have keys: "jkeys (jset requestId v (ss_queue (sobj s r))) = jkeys (ss_queue (sobj s r)) @ [requestId]" for v
    by (simp add: jset_fresh jkeys_def)
  have "server_ok (emit [Invoked r requestId] (supd r (\<lambda>b. b\<lparr>ss_queue := jset requestId v (ss_queue b)\<rparr>) s))" for v
    by (rule server_ok_touch [OF ok r])
      (use live_registered [OF ok] activated_phase [OF ok r] new keys [of v] in auto)
  then show ?thesis unfolding invoke_def by (rule server_ok_write)
qed

lemma server_ok_cleanups:
  "server_ok s \<Longrightarrow> \<forall>r\<in>set rs. r < length (sv_objs s) \<Longrightarrow>
   server_ok (fold (\<lambda>r t. if P r t then cleanupStream c r t else t) rs s)"
  by (induction rs arbitrary: s) (simp_all add: server_ok_cleanup)

lemma values_in_range:
  assumes "server_ok s"
  shows "\<forall>r\<in>set (jvalues (sv_streamsById s)). r < length (sv_objs s)"
proof
  fix r assume "r \<in> set (jvalues (sv_streamsById s))"
  then obtain i where "(i, r) \<in> set (sv_streamsById s)" by (auto simp: jvalues_def)
  then have "jget (sv_streamsById s) i = Some r"
    using server_okD(1) [OF assms] by (simp add: ids_distinct_def)
  then show "r < length (sv_objs s)" using server_okD(2) [OF assms] unfolding by_id_ok_def by blast
qed

lemma server_ok_bytes:
  assumes "server_ok s" "r < length (sv_objs s)"
  shows "server_ok (supd r (\<lambda>b. b\<lparr>ss_bytes := f (ss_bytes b)\<rparr>) s)"
  by (rule server_ok_field [OF assms]) (use live_registered [OF assms(1)] activated_phase [OF assms] in auto)

lemma server_ok_new: "server_ok (new_server handlers)"
  by (intro server_okI)
    (simp_all add: new_server_def ids_distinct_def by_id_ok_def by_client_ok_def gate_ok_def queue_ok_def notice_ok_def registered_def)

lemma server_ok_step:
  assumes ok: "server_ok s"
  shows "server_ok (server_step s e)"
proof (cases e)
  case (Connect now streamId info)
  then show ?thesis using ok server_ok_attach [OF ok] by simp
next
  case (CheckDone r result)
  show ?thesis
  proof (cases "in_phase s r Checking")
    case True
    then have r: "r < length (sv_objs s)" "ss_phase (sobj s r) = Checking" by (simp_all add: in_phase_def)
    have over: "server_ok (set_phase Over r s)" by (rule server_ok_set_phase [OF ok r(1)]) (use r in auto)
    have inactive: "\<not> ss_isActivated (sobj s r)" using activated_phase [OF ok r(1)] r(2) by auto
    let ?w = "writeToStream r ping_message s"
    have w: "server_ok ?w" "length (sv_objs ?w) = length (sv_objs s)" "sobj ?w = sobj s" by (simp_all add: server_ok_write [OF ok]) (simp_all add: writeToStream_def)
    have "server_ok (supd r (\<lambda>b. b\<lparr>ss_phase := Connecting, ss_listening := True\<rparr>) ?w)"
      by (rule server_ok_field [OF w(1)]) (use r inactive live_registered [OF w(1)] w in auto)
    then have go: "server_ok (emit [ConnectedHook r] (supd r (\<lambda>b. b\<lparr>ss_phase := Connecting, ss_listening := True\<rparr>) ?w))"
      by (rule server_ok_emit) simp
    have stop: "server_ok (set_phase Over r (cleanupStream (Some CauseDisconnect) r s))" by (rule server_ok_end [OF ok r(1)]) (use r in simp)
    show ?thesis using CheckDone True over go stop by (simp add: checkDone_def split: sum.split)
  qed (simp add: CheckDone ok)
next
  case (ConnectedDone r good)
  then show ?thesis using ok server_ok_connected [OF ok, of r good] by (simp add: in_phase_def)
next
  case (ActivatedDone now r good)
  show ?thesis
  proof (cases "in_phase s r Activating")
    case True
    then have r: "r < length (sv_objs s)" "ss_phase (sobj s r) = Activating" by (simp_all add: in_phase_def)
    have "server_ok (set_phase Over r s)" by (rule server_ok_set_phase [OF ok r(1)]) (use r in auto)
    moreover have "server_ok (set_phase Over r (cleanupStream (Some CauseDisconnect) r s))" by (rule server_ok_end [OF ok r(1)]) (use r in simp)
    ultimately show ?thesis using ActivatedDone True server_ok_open [OF ok r, of "int now"] by (simp add: activatedDone_def)
  qed (simp add: ActivatedDone ok)
next
  case (WsMessage now r data)
  then show ?thesis
    using ok server_ok_handle [OF ok, of r "int now"] server_ok_close [OF ok, of CauseBadArg]
    by (simp add: handleWsMessage_def split: ws_data.split)
next
  case (WsClose r)
  then show ?thesis
    using ok server_ok_bytes [OF server_ok_cleanup [OF ok, of r None], of r "\<lambda>b. byte_step b Disconnect"]
    by (simp add: handleStreamDisconnected_def del: byte_step.simps)
next
  case (WsError r)
  then show ?thesis using ok server_ok_cleanup by simp
next
  case (HandlerDone r requestId resultType outcome)
  then show ?thesis using ok by (simp add: handlerDone_def Let_def server_ok_write)
next
  case (Invoke r prefix data requestId now timeoutMs)
  then show ?thesis using ok server_ok_invoke [OF ok] by simp
next
  case (InactivityCheck now)
  then show ?thesis
    using server_ok_cleanups [OF ok values_in_range [OF ok], of "\<lambda>r t. ss_lastPingAt (sobj t r) < int now - 75000" "Some CauseTimeout"]
    by (simp add: terminateInactiveStreams_def)
next
  case (SubclassCleanup r cause)
  then show ?thesis using ok server_ok_cleanup by simp
next
  case CloseServer
  then show ?thesis
    using server_ok_cleanups [OF ok values_in_range [OF ok], of "\<lambda>r t. True" "Some CauseDisconnect"] by (simp add: closeServer_def)
qed

interpretation srpc: event_system "new_server handlers" server_step server_ok
  by unfold_locales (fact server_ok_new, fact server_ok_step)

abbreviation server_run :: "(string, string) jsmap \<Rightarrow> server_event list \<Rightarrow> srpc_server" where
  "server_run handlers es \<equiv> run_events server_step (new_server handlers) es"

end
