(* ===== verification/SrpcServerCorrect.thy ===== *)
theory SrpcServerCorrect
  imports SrpcServerFacts
begin

text \<open>
  What \<open>src/src/srpc/SrpcServer.ts\<close> promises, for every order of connections, messages, hook answers, closes
  and timers: read off the invariant of \<open>SrpcServerFacts\<close>, and computed for the single operations.
\<close>

section \<open>Reading the invariant\<close>

lemma run_ok: "server_ok (server_run handlers es)"
  by (rule srpc.reachable_holds)

lemma unregistered_new: "\<not> registered s (length (sv_objs s))"
  by (simp add: registered_def)

lemma dispatchedI: "Dispatched r i key data \<in> set log \<Longrightarrow> dispatched r log"
  by (auto simp: dispatched_def)

lemma registered_current: "server_ok s \<Longrightarrow> registered s r \<Longrightarrow> isCurrentStream s r"
  using server_okD(2) [of s] unfolding registered_def by_id_ok_def by blast

lemma registered_register:
  assumes "server_ok s" "ss_id b \<notin> ss_id ` set (sv_objs s)"
  shows "registered (register_stream b s) q \<longleftrightarrow> q = length (sv_objs s) \<or> registered s q"
proof (cases "q < length (sv_objs s)")
  case True
  then have "ss_id (sobj s q) \<noteq> ss_id b" using assms(2) unfolding sobj_def by (metis imageI nth_mem)
  with True show ?thesis by (simp add: registered_def register_stream_def)
next
  case False
  then show ?thesis by (auto simp: registered_def register_stream_def less_Suc_eq)
qed

text \<open>The loop of the inactivity check, on the handles \<open>streamsById.values()\<close> had at first.\<close>

lemma terminate_registered:
  "server_ok s \<Longrightarrow> \<forall>r\<in>set rs. r < length (sv_objs s) \<Longrightarrow>
   registered (fold (\<lambda>r t. if ss_lastPingAt (sobj t r) < d then cleanupStream c r t else t) rs s) q
     \<longleftrightarrow> registered s q \<and> \<not> (q \<in> set rs \<and> ss_lastPingAt (sobj s q) < d)"
proof (induction rs arbitrary: s)
  case (Cons r rs)
  define t where "t = (if ss_lastPingAt (sobj s r) < d then cleanupStream c r s else s)"
  have r: "r < length (sv_objs s)" using Cons.prems(2) by simp
  have ok: "server_ok t" using Cons.prems(1) r by (simp add: t_def server_ok_cleanup)
  have one: "registered t q \<longleftrightarrow> registered s q \<and> \<not> (q = r \<and> ss_lastPingAt (sobj s r) < d)"
  proof (cases "ss_lastPingAt (sobj s r) < 0")
    case True
    then show ?thesis using live_registered [OF Cons.prems(1), of r] by (auto simp: t_def cleanup_noop)
  next
    case False
    then show ?thesis using cleanup_registered [OF server_okD(1) [OF Cons.prems(1)] r False] by (auto simp: t_def)
  qed
  have same: "q \<noteq> r \<Longrightarrow> sobj t q = sobj s q"
    by (cases "ss_lastPingAt (sobj s r) < 0") (simp_all add: t_def cleanup_noop cleanup_frame [OF r])
  have idle: "\<not> ss_lastPingAt (sobj s r) < d \<Longrightarrow> t = s" by (simp add: t_def)
  have len: "\<forall>x\<in>set rs. x < length (sv_objs t)" using Cons.prems(2) by (simp add: t_def)
  show ?case
    using Cons.IH [OF ok len] one same idle by (cases "q = r") (auto simp: t_def [symmetric])
qed simp

text \<open>Two clients and a reconnection, as a run that witnesses use.\<close>

definition echo_handlers :: "(string, string) jsmap" where
  "echo_handlers = [(''uEchoRequest'', ''uEchoResponse'')]"

definition client_info :: "string \<Rightarrow> bool \<Rightarrow> stream_info" where
  "client_info c supersede = \<lparr>si_clientStreamId = ''x'', si_clientId = c, si_appVersion = ''1'', si_configureTs = None,
     si_protocolVersion = Some 2, si_supersede = supersede, si_address = ''::1'', si_meta = []\<rparr>"

definition established :: "nat \<Rightarrow> server_event list" where
  "established r = [CheckDone r (Inr False), ConnectedDone r True]"

definition two_clients :: srpc_server where
  "two_clients = server_run echo_handlers ([Connect 0 ''s1'' (client_info ''a'' False)] @ established 0 @ [Connect 0 ''s2'' (client_info ''b'' False)])"

lemmas run_defs = two_clients_def established_def echo_handlers_def client_info_def

lemma two_clients_current: "getCurrentStreamByClientId two_clients ''a'' = Some 0" "getCurrentStreamByClientId two_clients ''b'' = Some 1"
  by code_simp+

section \<open>One stream per client\<close>

text \<open>C20. A client is connected at most once: in every reachable state two streams that are both registered
  belong to different clients, and the stream the server would use for a client id is registered and has
  that id.\<close>

theorem one_stream_per_client:
  "let s = server_run handlers es in
     (\<forall>q r. registered s q \<and> registered s r \<and> ss_clientId (sobj s q) = ss_clientId (sobj s r) \<longrightarrow> q = r)
   \<and> (\<forall>c r. getCurrentStreamByClientId s c = Some r \<longrightarrow> registered s r \<and> ss_clientId (sobj s r) = c)"
proof -
  define s where "s = server_run handlers es"
  have ok: "server_ok s" unfolding s_def by (rule run_ok)
  have "q = r" if "registered s q" "registered s r" "ss_clientId (sobj s q) = ss_clientId (sobj s r)" for q r
    using registered_current [OF ok that(1)] registered_current [OF ok that(2)] that(3) by (simp add: isCurrentStream_def)
  then show ?thesis
    unfolding s_def [symmetric] Let_def using current_registered(1,2) [OF ok] by blast
qed


theorem one_stream_per_client_witness:
  "registered two_clients 0 \<and> registered two_clients 1 \<and> ss_clientId (sobj two_clients 1) = ''b''"
  using one_stream_per_client [of echo_handlers "[Connect 0 ''s1'' (client_info ''a'' False)] @ established 0 @ [Connect 0 ''s2'' (client_info ''b'' False)]"]
    two_clients_current
  unfolding two_clients_def [symmetric] Let_def by blast


text \<open>C21. Requests wait for the activation of their stream: in every reachable state a request was handed to
  a message handler only for a stream whose activation had succeeded, and while a registered stream is not
  yet open, nothing it sent was handed to a handler and it is in the set of blocked streams.\<close>

theorem requests_wait_for_activation:
  "let s = server_run handlers es in
     (\<forall>r requestId key data. Dispatched r requestId key data \<in> set (sv_log s) \<longrightarrow> ss_isActivated (sobj s r))
   \<and> (\<forall>r. registered s r \<and> ss_phase (sobj s r) \<noteq> Open \<longrightarrow>
        r \<in> set (sv_blockedClientRequests s) \<and> (\<forall>requestId key data. Dispatched r requestId key data \<notin> set (sv_log s)))"
proof -
  define s where "s = server_run handlers es"
  note g = server_okD(4) [OF run_ok [of handlers es], folded s_def, unfolded gate_ok_def]
  have act: "ss_isActivated (sobj s r)" if "Dispatched r i key data \<in> set (sv_log s)" for r i key data
  proof -
    have d: "dispatched r (sv_log s)" by (rule dispatchedI [OF that])
    then have "r < length (sv_objs s)" using g [THEN conjunct2, THEN conjunct2, rule_format, of r] by linarith
    then show ?thesis using g [THEN conjunct2, THEN conjunct1, rule_format, of r] d by blast
  qed
  have "r \<in> set (sv_blockedClientRequests s) \<and> Dispatched r i key data \<notin> set (sv_log s)"
    if "registered s r" "ss_phase (sobj s r) \<noteq> Open" for r i key data
    using g [THEN conjunct1, rule_format, of r] that dispatchedI [of r i key data "sv_log s"] by blast
  with act show ?thesis unfolding s_def [symmetric] Let_def by blast
qed

text \<open>A request that arrives before the activation of client \<open>b\<close> has not been dispatched; one that arrives
  once client \<open>a\<close> is open has.\<close>

definition echo_request :: "string \<Rightarrow> string \<Rightarrow> base_message" where
  "echo_request requestId data = empty_message\<lparr>bm_requestId := Some requestId, bm_fields := [(''uEchoRequest'', data)]\<rparr>"

definition early_request :: "server_event list" where
  "early_request = [Connect 0 ''s1'' (client_info ''a'' False)] @ established 0
     @ [ActivatedDone 1 0 True, WsMessage 2 0 (Decoded (echo_request ''q'' ''hi'')),
        Connect 3 ''s2'' (client_info ''b'' False), CheckDone 1 (Inr False), WsMessage 4 1 (Decoded (echo_request ''q'' ''hi''))]"

theorem requests_wait_for_activation_witness:
  "let s = server_run echo_handlers early_request in
     ss_isActivated (sobj s 0) \<and> 1 \<in> set (sv_blockedClientRequests s) \<and> Dispatched 1 ''q'' ''uEchoRequest'' ''hi'' \<notin> set (sv_log s)"
proof -
  have "Dispatched 0 ''q'' ''uEchoRequest'' ''hi'' \<in> set (sv_log (server_run echo_handlers early_request))" by code_simp
  moreover have "registered (server_run echo_handlers early_request) 1" by code_simp
  moreover have "ss_phase (sobj (server_run echo_handlers early_request) 1) \<noteq> Open" by code_simp
  ultimately show ?thesis
    using requests_wait_for_activation [of echo_handlers early_request] unfolding Let_def by blast
qed

text \<open>C22. An invocation of a client is settled at most once: in every reachable state the request ids a stream
  was invoked with are, each exactly once, either settled or still in the queue of the stream.\<close>

theorem invocations_settle_once:
  "r < length (sv_objs (server_run handlers es)) \<Longrightarrow>
   (let s = server_run handlers es in
      distinct (settled_ids r (sv_log s) @ jkeys (ss_queue (sobj s r)))
    \<and> set (settled_ids r (sv_log s)) \<union> set (jkeys (ss_queue (sobj s r))) = set (invoked_ids r (sv_log s)))"
proof -
  assume r: "r < length (sv_objs (server_run handlers es))"
  define s where "s = server_run handlers es"
  note q = server_okD(5) [OF run_ok [of handlers es], folded s_def, unfolded queue_ok_def]
  have m: "mset (invoked_ids r (sv_log s)) = mset (settled_ids r (sv_log s) @ jkeys (ss_queue (sobj s r)))"
    using q [THEN conjunct2, THEN conjunct1, rule_format, of r] r by (simp add: s_def)
  have "distinct (settled_ids r (sv_log s) @ jkeys (ss_queue (sobj s r)))"
    using q [THEN conjunct1, rule_format, of r] mset_eq_imp_distinct_iff [OF m] by blast
  moreover have "set (settled_ids r (sv_log s)) \<union> set (jkeys (ss_queue (sobj s r))) = set (invoked_ids r (sv_log s))"
    using arg_cong [OF m, of set_mset] by simp
  ultimately show ?thesis unfolding s_def [symmetric] Let_def by blast
qed

definition invocations :: "server_event list" where
  "invocations = [Connect 0 ''s1'' (client_info ''a'' False)] @ established 0
     @ [ActivatedDone 1 0 True, Invoke 0 ''dNotify'' ''x'' ''i1'' 2 30000, Invoke 0 ''dNotify'' ''y'' ''i2'' 2 30000,
        WsMessage 3 0 (Decoded ((reply_message ''i1'')\<lparr>bm_fields := [(''dNotifyResponse'', ''ok'')]\<rparr>))]"

theorem invocations_settle_once_witness:
  "let s = server_run echo_handlers invocations in
     settled_ids 0 (sv_log s) = [''i1''] \<and> jkeys (ss_queue (sobj s 0)) = [''i2''] \<and> {''i1'', ''i2''} = set (invoked_ids 0 (sv_log s))"
proof -
  have "0 < length (sv_objs (server_run echo_handlers invocations))" by code_simp
  moreover have "settled_ids 0 (sv_log (server_run echo_handlers invocations)) = [''i1'']" by code_simp
  moreover have "jkeys (ss_queue (sobj (server_run echo_handlers invocations) 0)) = [''i2'']" by code_simp
  ultimately show ?thesis using invocations_settle_once [of 0 echo_handlers invocations] by (simp add: Let_def insert_commute)
qed

text \<open>A stream that ends leaves no invocation open: once its cleanup has run, every id it was invoked with
  is settled, its socket's close was reported, and it is registered nowhere.\<close>

theorem ended_stream_settles_all:
  "\<lbrakk>s = server_run handlers es; registered s r\<rbrakk> \<Longrightarrow>
   (let t = server_step s (WsClose r) in
      set (settled_ids r (sv_log t)) = set (invoked_ids r (sv_log t)) \<and> ss_queue (sobj t r) = []
    \<and> Disconnected r CauseDisconnect \<in> set (sv_log t) \<and> \<not> registered t r)"
proof -
  assume s: "s = server_run handlers es" and reg: "registered s r"
  have ok: "server_ok s" unfolding s by (rule run_ok)
  have r: "r < length (sv_objs s)" "\<not> ss_lastPingAt (sobj s r) < 0" using reg live_registered [OF ok reg] by (simp_all add: registered_def)
  define t where "t = server_step s (WsClose r)"
  have okt: "server_ok t" unfolding t_def by (rule server_ok_step [OF ok])
  have t: "t = supd r (\<lambda>b. b\<lparr>ss_bytes := byte_step (ss_bytes b) Disconnect\<rparr>) (cleanupStream None r s)"
    using r by (simp add: t_def handleStreamDisconnected_def del: byte_step.simps)
  have f: "length (sv_objs t) = length (sv_objs s)" "ss_queue (sobj t r) = []" "Disconnected r CauseDisconnect \<in> set (sv_log t)" "\<not> registered t r"
    using r cleanup_registered [OF server_okD(1) [OF ok] r] by (simp_all add: t cleanup_frame [OF r] del: byte_step.simps)
  have "mset (invoked_ids r (sv_log t)) = mset (settled_ids r (sv_log t))"
    using server_okD(5) [OF okt, unfolded queue_ok_def, THEN conjunct2, THEN conjunct1, rule_format, of r] r(1) f(1,2) by (simp add: jkeys_def)
  then have "set (settled_ids r (sv_log t)) = set (invoked_ids r (sv_log t))" by (metis set_mset_mset)
  with f show ?thesis by (simp add: Let_def t_def)
qed

theorem ended_stream_settles_all_witness:
  "let t = server_step (server_run echo_handlers invocations) (WsClose 0) in
     set (settled_ids 0 (sv_log t)) = set (invoked_ids 0 (sv_log t)) \<and> \<not> registered t 0"
proof -
  have "registered (server_run echo_handlers invocations) 0" by code_simp
  from ended_stream_settles_all [OF refl this] show ?thesis unfolding Let_def by blast
qed

text \<open>Handlers of disconnections are told about every stream that goes: in every reachable state a stream
  object is registered exactly when no disconnection was reported for it and it was not refused.\<close>

theorem registered_until_reported:
  "r < length (sv_objs (server_run handlers es)) \<Longrightarrow>
   (let s = server_run handlers es in
      registered s r \<longleftrightarrow> (\<forall>cause. Disconnected r cause \<notin> set (sv_log s)) \<and> (\<forall>text. Closed r 4001 text \<notin> set (sv_log s)))"
  using server_okD(6) [OF run_ok [of handlers es], unfolded notice_ok_def, THEN conjunct1, rule_format, of r]
  unfolding Let_def disconnected_def refused_def CLOSE_CODES.simps by blast

theorem registered_until_reported_witness:
  "registered two_clients 1 \<and> (\<forall>cause. Disconnected 1 cause \<notin> set (sv_log two_clients)) \<and> (\<forall>text. Closed 1 4001 text \<notin> set (sv_log two_clients))"
proof -
  have "1 < length (sv_objs two_clients)" by code_simp
  moreover have "registered two_clients 1" by code_simp
  ultimately show ?thesis
    using registered_until_reported [of 1 echo_handlers "[Connect 0 ''s1'' (client_info ''a'' False)] @ established 0 @ [Connect 0 ''s2'' (client_info ''b'' False)]"]
    unfolding two_clients_def [symmetric] Let_def by blast
qed

text \<open>A second connection of a client: a client of protocol version 2 that does not ask to supersede is
  closed with the conflict code and changes nothing else; any other replaces the old stream, which is closed
  and reported with the cause \<open>supersede\<close>.\<close>

theorem second_connection_of_client:
  "\<lbrakk>s = server_run handlers es; getCurrentStreamByClientId s (si_clientId info) = Some q; streamId \<notin> ss_id ` set (sv_objs s)\<rbrakk> \<Longrightarrow>
   (let t = server_step s (Connect now streamId info); r = length (sv_objs s) in
      if \<not> si_supersede info \<and> (\<exists>v\<ge>2. si_protocolVersion info = Some v)
      then registered t = registered s \<and> sv_log t = sv_log s @ [Closed r 4001 ''Client ID already connected'']
      else (\<forall>x. registered t x \<longleftrightarrow> x = r \<or> registered s x \<and> x \<noteq> q)
         \<and> getCurrentStreamByClientId t (si_clientId info) = Some r
         \<and> Closed q 4002 ''Stream terminated with cause: supersede'' \<in> set (sv_log t) \<and> Disconnected q CauseSupersede \<in> set (sv_log t))"
proof -
  assume s: "s = server_run handlers es" and q: "getCurrentStreamByClientId s (si_clientId info) = Some q" and fresh: "streamId \<notin> ss_id ` set (sv_objs s)"
  have ok: "server_ok s" unfolding s by (rule run_ok)
  note c = current_registered [OF ok q]
  define t where "t = server_step s (Connect now streamId info)"
  define r where "r = length (sv_objs s)"
  have t: "t = attachConnection (int now) streamId info s" using fresh by (simp add: t_def)
  have polite: "insists info \<longleftrightarrow> \<not> (\<not> si_supersede info \<and> (\<exists>v\<ge>2. si_protocolVersion info = Some v))"
    by (cases "si_protocolVersion info") (auto simp: insists_def)
  show ?thesis
  proof (cases "insists info")
    case False
    have none: "jget (sv_streamsById s) streamId = None"
    proof (cases "jget (sv_streamsById s) streamId")
      case (Some x)
      then have "x < length (sv_objs s)" "ss_id (sobj s x) = streamId" using server_okD(2) [OF ok] unfolding by_id_ok_def by blast+
      with fresh show ?thesis unfolding sobj_def by (metis imageI nth_mem)
    qed simp
    have tr: "t = emit [Closed r (CLOSE_CODES CauseConflict) ''Client ID already connected'']
        (append_stream ((fresh_stream (int now) streamId info)\<lparr>ss_lastPingAt := -1, ss_phase := Over\<rparr>) s)"
      unfolding t r_def by (rule attach_refused [OF q False])
    have "registered t x = registered s x" for x
      using none by (cases "x < r"; cases "x = r") (auto simp: tr r_def registered_def)
    moreover have "sv_log t = sv_log s @ [Closed r 4001 ''Client ID already connected'']" by (simp add: tr)
    ultimately show ?thesis using False polite unfolding t_def [symmetric] r_def [symmetric] Let_def by (auto simp: fun_eq_iff)
  next
    case True
    let ?s = "cleanupStream (Some CauseSupersede) q s"
    have tr: "t = register_stream (fresh_stream (int now) streamId info) ?s" unfolding t by (rule attach_replaces [OF ok q True])
    have len: "length (sv_objs ?s) = r" by (simp add: r_def)
    have "map ss_id (sv_objs ?s) = map ss_id (sv_objs s)"
      by (rule nth_equalityI) (use cleanup_frame(1,2) [OF c(3,4)] in \<open>auto simp: sobj_def split: if_splits\<close>)
    then have "ss_id (fresh_stream (int now) streamId info) \<notin> ss_id ` set (sv_objs ?s)" using fresh by (metis fresh_stream_simps(1) set_map)
    from registered_register [OF server_ok_cleanup [OF ok c(3)] this]
    have "registered t x \<longleftrightarrow> x = r \<or> registered s x \<and> x \<noteq> q" for x
      unfolding tr len using cleanup_registered [OF server_okD(1) [OF ok] c(3,4), of _ x] by blast
    moreover have "getCurrentStreamByClientId t (si_clientId info) = Some r"
      using len by (simp add: tr register_stream_def getCurrentStreamByClientId_def)
    moreover have "sv_log t = sv_log ?s" by (simp add: tr register_stream_def)
    moreover have "Closed q 4002 ''Stream terminated with cause: supersede'' \<in> set (sv_log ?s) \<and> Disconnected q CauseSupersede \<in> set (sv_log ?s)"
      by (simp add: cleanup_frame(7) [OF c(3,4)])
    ultimately show ?thesis using True polite unfolding t_def [symmetric] r_def [symmetric] Let_def by (simp only: if_False) simp
  qed
qed

theorem second_connection_of_client_witness:
  "(let t = server_step two_clients (Connect 9 ''s3'' (client_info ''a'' False)) in registered t 0 \<and> \<not> registered t 2)
 \<and> (let t = server_step two_clients (Connect 9 ''s3'' (client_info ''a'' True)) in registered t 2 \<and> \<not> registered t 0)"
proof -
  have now: "registered two_clients 0" "\<not> registered two_clients 2" "length (sv_objs two_clients) = 2" "''s3'' \<notin> ss_id ` set (sv_objs two_clients)"
    by code_simp+
  have same: "si_clientId (client_info ''a'' b) = ''a''" for b by (simp add: client_info_def)
  note two = second_connection_of_client [OF two_clients_def, of "client_info ''a'' b" for b, unfolded same, OF two_clients_current(1) now(4), where now = 9]
  show ?thesis using two [of False] two [of True] now by (simp add: Let_def client_info_def)
qed

text \<open>The inactivity check ends exactly the streams that are silent: afterwards the registered streams are
  those whose last ping is at most 75 seconds old.\<close>

theorem inactivity_check_keeps_the_live:
  "let s = server_run handlers es; t = server_step s (InactivityCheck now) in
     registered t r \<longleftrightarrow> registered s r \<and> int now - 75000 \<le> ss_lastPingAt (sobj s r)"
proof -
  define s where "s = server_run handlers es"
  have ok: "server_ok s" unfolding s_def by (rule run_ok)
  have "r \<in> set (jvalues (sv_streamsById s))" if "registered s r"
    using that by (force simp: registered_def jvalues_def dest!: map_of_SomeD)
  then show ?thesis
    unfolding s_def [symmetric] Let_def
    by (simp add: terminateInactiveStreams_def terminate_registered [OF ok values_in_range [OF ok]]) (meson not_less)
qed

section \<open>Requests before activation\<close>

definition is_request :: "base_message \<Rightarrow> bool" where
  "is_request m \<longleftrightarrow> \<not> bm_pingPong m \<and> bm_byteStreamOperation m = None \<and> \<not> bm_reply m"

lemma stash_request:
  "is_request m \<Longrightarrow> r \<in> set (sv_blockedClientRequests s) \<Longrightarrow>
   handleStreamDataReceived now r m s =
     s\<lparr>sv_pendingClientRequests := jset r (nullish (jget (sv_pendingClientRequests s) r) [] @ [m]) (sv_pendingClientRequests s)\<rparr>"
  by (simp add: is_request_def handleStreamDataReceived_def Let_def)

lemma jset_jset [simp]: "jset k v (jset k w m) = jset k v m"
  by (induction m) (auto simp: jset_def)

lemma jdelete_jset [simp]: "jdelete k (jset k v m) = jdelete k m"
  by (induction m) (auto simp: jset_def jdelete_def)

lemma jdelete_absent: "jget m k = None \<Longrightarrow> jdelete k m = m"
  by (simp add: jdelete_def map_of_eq_None_iff delete_id)

lemma stash_requests:
  assumes "\<forall>m\<in>set ms. is_request m" "r \<in> set (sv_blockedClientRequests s)" "ms \<noteq> []"
  shows "fold (handleStreamDataReceived now r) ms s =
    s\<lparr>sv_pendingClientRequests := jset r (nullish (jget (sv_pendingClientRequests s) r) [] @ ms) (sv_pendingClientRequests s)\<rparr>"
  using assms
proof (induction ms arbitrary: s)
  case (Cons m ms)
  then show ?case by (cases "ms = []") (simp_all add: stash_request)
qed simp

text \<open>The clock only matters for pings.\<close>

lemma request_clock: "is_request m \<Longrightarrow> handleStreamDataReceived now r m s = handleStreamDataReceived now' r m s"
  by (simp add: is_request_def handleStreamDataReceived_def Let_def)

lemma requests_clock: "\<forall>m\<in>set ms. is_request m \<Longrightarrow> fold (handleStreamDataReceived now r) ms s = fold (handleStreamDataReceived now' r) ms s"
  using request_clock [of _ now r _ now'] by (intro fold_cong) auto

text \<open>Waiting for the activation is invisible to the client: requests that arrive while the stream is
  blocked and are replayed when it opens leave the server in exactly the state it has when the stream opens
  first and the requests arrive afterwards, in the same order.\<close>

theorem early_requests_are_replayed:
  "\<lbrakk>r \<in> set (sv_blockedClientRequests s); 0 \<le> ss_lastPingAt (sobj s r); ss_isActivated (sobj s r);
    jget (sv_pendingClientRequests s) r \<noteq> Some []; \<forall>m\<in>set ms. is_request m\<rbrakk> \<Longrightarrow>
   activatedDone now r True (fold (handleStreamDataReceived before r) ms s) =
   fold (handleStreamDataReceived now r) ms (activatedDone now r True s)"
proof (cases "ms = []")
  case False
  assume a: "r \<in> set (sv_blockedClientRequests s)" "0 \<le> ss_lastPingAt (sobj s r)" "ss_isActivated (sobj s r)"
    "jget (sv_pendingClientRequests s) r \<noteq> Some []" "\<forall>m\<in>set ms. is_request m"
  define queued where "queued = nullish (jget (sv_pendingClientRequests s) r) []"
  define u where "u = (set_phase Open r s)\<lparr>sv_blockedClientRequests := filter (\<lambda>q. q \<noteq> r) (sv_blockedClientRequests s),
    sv_pendingClientRequests := jdelete r (sv_pendingClientRequests s)\<rparr>"
  have stash: "fold (handleStreamDataReceived before r) ms s
      = s\<lparr>sv_pendingClientRequests := jset r (queued @ ms) (sv_pendingClientRequests s)\<rparr>"
    unfolding queued_def by (rule stash_requests [OF a(5,1) False])
  have phase: "set_phase Open r (s\<lparr>sv_pendingClientRequests := p\<rparr>) = (set_phase Open r s)\<lparr>sv_pendingClientRequests := p\<rparr>" for p
    by (simp add: set_phase_def supd_def)
  have keep: "sv_pendingClientRequests (set_phase Open r s) = sv_pendingClientRequests s"
    "sv_blockedClientRequests (set_phase Open r s) = sv_blockedClientRequests s" by (simp_all add: set_phase_def)
  have left: "activatedDone now r True (fold (handleStreamDataReceived before r) ms s) = fold (handleStreamDataReceived now r) (queued @ ms) u"
    unfolding stash activatedDone_def phase using a(2,3) False
    by (simp add: openClientRequests_def Let_def keep u_def)
  have "activatedDone now r True s = fold (handleStreamDataReceived now r) queued u"
  proof (cases "jget (sv_pendingClientRequests s) r")
    case None
    have "(set_phase Open r s)\<lparr>sv_blockedClientRequests := filter (\<lambda>q. q \<noteq> r) (sv_blockedClientRequests s)\<rparr> = u"
      unfolding u_def jdelete_absent [OF None] by (cases "set_phase Open r s") (use keep in simp)
    moreover have "jget (sv_pendingClientRequests u) r = None" by (simp add: u_def)
    ultimately show ?thesis using a(2,3) None by (simp add: activatedDone_def openClientRequests_def Let_def keep queued_def)
  next
    case (Some qs)
    with a show ?thesis by (simp add: activatedDone_def openClientRequests_def Let_def keep queued_def u_def)
  qed
  with left show ?thesis by simp
qed simp

definition activating :: srpc_server where
  "activating = server_run echo_handlers ([Connect 0 ''s1'' (client_info ''a'' False)] @ established 0)"

theorem early_requests_are_replayed_witness:
  "let ms = [echo_request ''q1'' ''x'', echo_request ''q2'' ''y'']; s = fold (handleStreamDataReceived 5 0) ms activating in
     sv_log s = sv_log activating
   \<and> activatedDone 9 0 True s = fold (handleStreamDataReceived 9 0) ms (activatedDone 9 0 True activating)
   \<and> sv_log (activatedDone 9 0 True s) = sv_log activating @ [Dispatched 0 ''q1'' ''uEchoRequest'' ''x'', Dispatched 0 ''q2'' ''uEchoRequest'' ''y'']"
proof -
  define ms where "ms = [echo_request ''q1'' ''x'', echo_request ''q2'' ''y'']"
  have a: "0 \<in> set (sv_blockedClientRequests activating)" "0 \<le> ss_lastPingAt (sobj activating 0)" "ss_isActivated (sobj activating 0)"
    "jget (sv_pendingClientRequests activating) 0 = None"
    by code_simp+
  have "\<forall>m\<in>set ms. is_request m" by (simp add: ms_def echo_request_def is_request_def empty_message_def)
  with a have eq: "activatedDone 9 0 True (fold (handleStreamDataReceived 5 0) ms activating)
      = fold (handleStreamDataReceived 9 0) ms (activatedDone 9 0 True activating)"
    by (intro early_requests_are_replayed) simp_all
  have "sv_log (fold (handleStreamDataReceived 5 0) ms activating) = sv_log activating" unfolding ms_def by code_simp
  moreover have "sv_log (activatedDone 9 0 True (fold (handleStreamDataReceived 5 0) ms activating))
      = sv_log activating @ [Dispatched 0 ''q1'' ''uEchoRequest'' ''x'', Dispatched 0 ''q2'' ''uEchoRequest'' ''y'']"
    unfolding ms_def by code_simp
  ultimately show ?thesis using eq unfolding ms_def Let_def by blast
qed

section \<open>Where the code is too trusting\<close>

text \<open>A ping that arrives after the cleanup of a stream sets \<open>lastPingAt\<close> again, and the close of the socket
  then runs the disconnect handlers a second time.\<close>

definition late_ping :: "server_event list" where
  "late_ping = [Connect 0 ''s1'' (client_info ''a'' False)] @ established 0
     @ [ActivatedDone 1 0 True, SubclassCleanup 0 CauseTimeout, WsMessage 2 0 (Decoded ping_message), WsClose 0]"

lemma late_ping_repeats_the_notice:
  "filter (\<lambda>out. case out of Disconnected q c \<Rightarrow> True | _ \<Rightarrow> False) (sv_log (server_run echo_handlers late_ping))
     = [Disconnected 0 CauseTimeout, Disconnected 0 CauseDisconnect]"
  by code_simp

text \<open>A request that arrives after the cleanup of an opened stream, before its socket is closed, is still
  handed to its handler.\<close>

definition late_request :: "server_event list" where
  "late_request = [Connect 0 ''s1'' (client_info ''a'' False)] @ established 0
     @ [ActivatedDone 1 0 True, SubclassCleanup 0 CauseTimeout, WsMessage 2 0 (Decoded (echo_request ''q'' ''hi''))]"

lemma late_request_is_dispatched:
  "\<not> registered (server_run echo_handlers late_request) 0
   \<and> last (sv_log (server_run echo_handlers late_request)) = Dispatched 0 ''q'' ''uEchoRequest'' ''hi''"
  by code_simp

text \<open>An invocation made on a stream that has ended is never settled: there is no timer for it, and the
  cleanup that would reject it has been.\<close>

lemma invocation_on_ended_stream_hangs:
  "let s = server_run echo_handlers ([Connect 0 ''s1'' (client_info ''a'' False)] @ established 0
       @ [ActivatedDone 1 0 True, WsClose 0, Invoke 0 ''dNotify'' ''x'' ''i'' 2 30000, WsError 0, CloseServer]) in
     jkeys (ss_queue (sobj s 0)) = [''i''] \<and> settled_ids 0 (sv_log s) = []"
  by code_simp

end
