(* ===== verification/SrpcClient.thy ===== *)
theory SrpcClient
  imports SrpcServer
begin

text \<open>
  The client of \<open>src/src/srpc/SrpcClient.ts\<close>: its connection attempts, the handshake, reconnection, the ping
  timer, and its requests in both directions.

  Every \<open>connect()\<close> makes a new WebSocket; listeners of the earlier ones stay attached, so sockets live in the
  store \<open>cl_socks\<close> and are named by their index.  Timers and intervals are named by handles: a handle in
  \<open>cl_reconnectTimers\<close> or \<open>cl_pingIntervals\<close> is armed, whether or not the client still remembers it.  What the
  client does to the outside is appended to \<open>cl_log\<close>.  The WebSocket library is modelled by the ready state
  of a socket; its notifications, the expiry of timers and the answers of user code are events.
\<close>

section \<open>State\<close>

datatype ready_state = CONNECTING | OPEN | CLOSING | CLOSED

record client_socket =
  cs_readyState :: ready_state
  cs_handshake :: bool
  cs_listening :: bool
  cs_connectTimer :: bool

datatype client_output =
    SocketOpened nat string "(string, string) jsmap"
  | SocketClose nat int string
  | SocketTerminate nat
  | ClientSent nat base_message
  | ByteStreamsInit
  | ByteOperation byte_operation
  | ConnectThrew auth_error
  | ConnectResolved nat
  | ConnectRejected nat string
  | ConnectionHandlersRun
  | DisconnectHandlersRun disconnect_cause
  | ClientDispatched string string string
  | HandlerRejectionUnhandled string
  | ClientInvoked string
  | ClientSettled string invocation_outcome

record srpc_client =
  cl_config :: ws_client
  cl_socks :: "client_socket list"
  cl_ws :: "nat option"
  cl_reconnectionTimeout :: "nat option"
  cl_pingInterval :: "nat option"
  cl_lastPongMs :: "int option"
  cl_requestQueue :: "(string, queued_request) jsmap"
  cl_connect :: "nat option"
  cl_enableReconnect :: bool
  cl_intentionalDisconnect :: bool
  cl_isConnected :: bool
  cl_streamMessageHandlers :: "(string, string) jsmap"
  cl_promises :: nat
  cl_handles :: nat
  cl_reconnectTimers :: "nat list"
  cl_pingIntervals :: "nat list"
  cl_requestTimers :: "(string, int) jsmap"
  cl_running :: "(string \<times> string) list"
  cl_log :: "client_output list"

definition new_client :: "ws_client \<Rightarrow> bool \<Rightarrow> (string, string) jsmap \<Rightarrow> srpc_client" where
  "new_client config enableReconnect handlers = \<lparr>cl_config = config, cl_socks = [], cl_ws = None, cl_reconnectionTimeout = None,
     cl_pingInterval = None, cl_lastPongMs = None, cl_requestQueue = [], cl_connect = None, cl_enableReconnect = enableReconnect,
     cl_intentionalDisconnect = False, cl_isConnected = False, cl_streamMessageHandlers = handlers, cl_promises = 0, cl_handles = 0,
     cl_reconnectTimers = [], cl_pingIntervals = [], cl_requestTimers = [], cl_running = [], cl_log = []\<rparr>"

definition csock :: "srpc_client \<Rightarrow> nat \<Rightarrow> client_socket" where
  "csock s w = cl_socks s ! w"

definition cupd :: "nat \<Rightarrow> (client_socket \<Rightarrow> client_socket) \<Rightarrow> srpc_client \<Rightarrow> srpc_client" where
  "cupd w f s = s\<lparr>cl_socks := (cl_socks s)[w := f (cl_socks s ! w)]\<rparr>"

definition cemit :: "client_output list \<Rightarrow> srpc_client \<Rightarrow> srpc_client" where
  "cemit os s = s\<lparr>cl_log := cl_log s @ os\<rparr>"

section \<open>Sockets, timers and the promise of connect\<close>

text \<open>\<open>close()\<close> and \<open>terminate()\<close> on a socket that is already closing do nothing.\<close>

definition close_socket :: "nat \<Rightarrow> int \<Rightarrow> string \<Rightarrow> srpc_client \<Rightarrow> srpc_client" where
  "close_socket w code reason s =
     (if cs_readyState (csock s w) \<in> {CONNECTING, OPEN}
      then cemit [SocketClose w code reason] (cupd w (\<lambda>k. k\<lparr>cs_readyState := CLOSING\<rparr>) s) else s)"

definition terminate_socket :: "nat \<Rightarrow> srpc_client \<Rightarrow> srpc_client" where
  "terminate_socket w s =
     (if cs_readyState (csock s w) = CLOSED then s else cemit [SocketTerminate w] (cupd w (\<lambda>k. k\<lparr>cs_readyState := CLOSING\<rparr>) s))"

text \<open>The code 1005 stands for \<open>close()\<close> without a code.\<close>

definition close_current :: "int \<Rightarrow> string \<Rightarrow> srpc_client \<Rightarrow> srpc_client" where
  "close_current code reason s = (case cl_ws s of Some w \<Rightarrow> close_socket w code reason s | None \<Rightarrow> s)"

definition clearReconnection :: "srpc_client \<Rightarrow> srpc_client" where
  "clearReconnection s =
     (case cl_reconnectionTimeout s of
        Some h \<Rightarrow> s\<lparr>cl_reconnectTimers := filter (\<lambda>x. x \<noteq> h) (cl_reconnectTimers s), cl_reconnectionTimeout := None\<rparr>
      | None \<Rightarrow> s)"

definition clearPingInterval :: "srpc_client \<Rightarrow> srpc_client" where
  "clearPingInterval s =
     (case cl_pingInterval s of
        Some h \<Rightarrow> s\<lparr>cl_pingIntervals := filter (\<lambda>x. x \<noteq> h) (cl_pingIntervals s), cl_pingInterval := None\<rparr>
      | None \<Rightarrow> s)"

definition clearConnectTimeout :: "nat \<Rightarrow> srpc_client \<Rightarrow> srpc_client" where
  "clearConnectTimeout w = cupd w (\<lambda>k. k\<lparr>cs_connectTimer := False\<rparr>)"

definition connectReject :: "string \<Rightarrow> srpc_client \<Rightarrow> srpc_client" where
  "connectReject message s =
     (case cl_connect s of Some n \<Rightarrow> (cemit [ConnectRejected n message] s)\<lparr>cl_connect := None\<rparr> | None \<Rightarrow> s)"

definition connectResolve :: "srpc_client \<Rightarrow> srpc_client" where
  "connectResolve s =
     (case cl_connect s of Some n \<Rightarrow> (cemit [ConnectResolved n] s)\<lparr>cl_connect := None\<rparr> | None \<Rightarrow> s)"

definition queueReconnect :: "srpc_client \<Rightarrow> srpc_client" where
  "queueReconnect s =
     (if \<not> cl_enableReconnect s then s
      else s\<lparr>cl_reconnectionTimeout := Some (cl_handles s), cl_reconnectTimers := cl_reconnectTimers s @ [cl_handles s],
             cl_handles := Suc (cl_handles s)\<rparr>)"

text \<open>\<open>encodes\<close> says whether the user's codec accepts the message.\<close>

definition can_send :: "srpc_client \<Rightarrow> bool" where
  "can_send s \<longleftrightarrow> (case cl_ws s of Some w \<Rightarrow> cs_readyState (csock s w) = OPEN | None \<Rightarrow> False)"

definition writeMessage :: "bool \<Rightarrow> base_message \<Rightarrow> srpc_client \<Rightarrow> srpc_client \<times> bool" where
  "writeMessage encodes m s = (if can_send s \<and> encodes then (cemit [ClientSent (the (cl_ws s)) m] s, True) else (s, False))"

section \<open>Connecting\<close>

definition connect ::
    "(string \<Rightarrow> string \<Rightarrow> string) \<Rightarrow> int \<Rightarrow> string \<Rightarrow> bool \<Rightarrow> srpc_client \<Rightarrow> srpc_client" where
  "connect hmac now streamId supersede s =
     (let s1 = connectReject ''Connection superseded by new connect() call'' (clearReconnection s);
          s2 = (case cl_ws s1 of Some w \<Rightarrow> (close_socket w 1005 [] s1)\<lparr>cl_ws := None\<rparr> | None \<Rightarrow> s1);
          s3 = cemit [ByteStreamsInit] (s2\<lparr>cl_intentionalDisconnect := False,
                 cl_config := (cl_config s2)\<lparr>wc_supersede := supersede, wc_streamId := streamId\<rparr>\<rparr>)
      in case generateWsUrl hmac now (cl_config s3) of
           Inl e \<Rightarrow> cemit [ConnectThrew e] s3
         | Inr (url, query) \<Rightarrow>
             let w = length (cl_socks s3)
             in (cemit [SocketOpened w url query] s3)
                  \<lparr>cl_config := (cl_config s3)\<lparr>wc_supersede := False\<rparr>,
                   cl_socks := cl_socks s3 @ [\<lparr>cs_readyState = CONNECTING, cs_handshake = True, cs_listening = False, cs_connectTimer = True\<rparr>],
                   cl_ws := Some w, cl_connect := Some (cl_promises s3), cl_promises := Suc (cl_promises s3)\<rparr>)"

definition connectTimeout :: "nat \<Rightarrow> srpc_client \<Rightarrow> srpc_client" where
  "connectTimeout w s = queueReconnect (close_socket w 1005 [] (connectReject ''Connection failed: timeout'' (clearConnectTimeout w s)))"

definition disconnect :: "srpc_client \<Rightarrow> srpc_client" where
  "disconnect s =
     close_current 1000 ''Client disconnect''
       (clearPingInterval (clearReconnection (s\<lparr>cl_enableReconnect := False, cl_intentionalDisconnect := True\<rparr>)))"

definition triggerConnectionCheck :: "int \<Rightarrow> srpc_client \<Rightarrow> srpc_client" where
  "triggerConnectionCheck now s =
     (if \<not> cl_isConnected s then s else fst (writeMessage True ping_message (s\<lparr>cl_lastPongMs := Some (now - 20000)\<rparr>)))"

definition onDisconnect :: "disconnect_cause \<Rightarrow> bool \<Rightarrow> srpc_client \<Rightarrow> srpc_client" where
  "onDisconnect cause suppressReconnect s =
     (if cl_reconnectionTimeout s \<noteq> None then s
      else let s1 = (if cl_enableReconnect s \<and> \<not> suppressReconnect then queueReconnect s else s);
               s2 = connectReject (''Connection failed: '' @ cause_text cause) (clearPingInterval s1);
               s3 = cemit (if cl_isConnected s then [DisconnectHandlersRun cause] else []) (s2\<lparr>cl_isConnected := False, cl_ws := None\<rparr>);
               s4 = cemit (map (\<lambda>i. ClientSettled i (Rejected ''Disconnected'')) (jkeys (cl_requestQueue s))) s3
           in s4\<lparr>cl_requestQueue := [],
                 cl_requestTimers := filter (\<lambda>t. fst t \<notin> set (jkeys (cl_requestQueue s))) (cl_requestTimers s4)\<rparr>)"

definition handleClose :: "nat \<Rightarrow> int \<Rightarrow> srpc_client \<Rightarrow> srpc_client" where
  "handleClose w code s =
     (if cl_ws s \<noteq> Some w then s
      else let s1 = clearConnectTimeout w s; cause = parseDisconnectCause code
           in if \<not> cl_intentionalDisconnect s1 \<and> cause = CauseConflict
              then onDisconnect cause True (connectReject ''Client ID is already connected'' s1)
              else onDisconnect cause False s1)"

definition handleError :: "nat \<Rightarrow> srpc_client \<Rightarrow> srpc_client" where
  "handleError w s =
     (if cl_ws s \<noteq> Some w then s
      else onDisconnect CauseDisconnect False (terminate_socket w (clearConnectTimeout w s)))"

definition doPingPong :: "int \<Rightarrow> srpc_client \<Rightarrow> srpc_client" where
  "doPingPong now s =
     (if nullish (cl_lastPongMs s) 0 < now - 75000 then close_current 4003 ''Pong timeout'' s
      else fst (writeMessage True ping_message s))"

section \<open>Messages\<close>

text \<open>A message is \<open>None\<close> when the codec cannot decode it.\<close>

definition handleInitialHandshake :: "nat \<Rightarrow> base_message option \<Rightarrow> int \<Rightarrow> srpc_client \<Rightarrow> srpc_client" where
  "handleInitialHandshake w data now s =
     (if cl_ws s \<noteq> Some w then s
      else let s1 = clearConnectTimeout w s
           in case data of
                None \<Rightarrow> close_socket w 1005 [] s1
              | Some m \<Rightarrow>
                  if \<not> bm_pingPong m then close_socket w 1005 [] s1
                  else let s2 = fst (writeMessage True ping_message (s1\<lparr>cl_lastPongMs := Some now\<rparr>));
                           s3 = s2\<lparr>cl_isConnected := True, cl_pingInterval := Some (cl_handles s2),
                                   cl_pingIntervals := cl_pingIntervals s2 @ [cl_handles s2], cl_handles := Suc (cl_handles s2)\<rparr>
                       in cupd w (\<lambda>k. k\<lparr>cs_listening := True\<rparr>) (cemit [ConnectionHandlersRun] (connectResolve s3)))"

definition reply_outcome :: "queued_request \<Rightarrow> base_message \<Rightarrow> invocation_outcome" where
  "reply_outcome q m =
     (if truthy_str (bm_error m) then Rejected (the (bm_error m))
      else case jget (bm_fields m) (qr_resultType q) of
             Some v \<Rightarrow> Resolved v | None \<Rightarrow> Rejected ''Invalid response from server'')"

text \<open>Settling an invocation ends its race, which clears its timer.\<close>

definition settle :: "string \<Rightarrow> invocation_outcome \<Rightarrow> srpc_client \<Rightarrow> srpc_client" where
  "settle requestId x s =
     (cemit [ClientSettled requestId x] s)
       \<lparr>cl_requestQueue := jdelete requestId (cl_requestQueue s),
        cl_requestTimers := jdelete requestId (cl_requestTimers s)\<rparr>"

definition handleReply :: "string \<Rightarrow> base_message \<Rightarrow> srpc_client \<Rightarrow> srpc_client" where
  "handleReply requestId m s =
     (case jget (cl_requestQueue s) requestId of
        None \<Rightarrow> close_current 4000 ''Unknown request ID'' s
      | Some q \<Rightarrow> settle requestId (reply_outcome q m) s)"

definition client_handler_for :: "srpc_client \<Rightarrow> base_message \<Rightarrow> (string \<times> string) option" where
  "client_handler_for s m =
     (case find (\<lambda>key. jget (bm_fields m) key \<noteq> None) (jkeys (cl_streamMessageHandlers s)) of
        Some key \<Rightarrow> Some (key, the (jget (bm_fields m) key)) | None \<Rightarrow> None)"

definition handleServerRequest :: "string \<Rightarrow> base_message \<Rightarrow> srpc_client \<Rightarrow> srpc_client" where
  "handleServerRequest requestId m s =
     (case client_handler_for s m of
        Some (key, data) \<Rightarrow>
          (cemit [ClientDispatched requestId key data] s)
            \<lparr>cl_running := cl_running s @ [(requestId, the (jget (cl_streamMessageHandlers s) key))]\<rparr>
      | None \<Rightarrow> fst (writeMessage True ((reply_message requestId)\<lparr>bm_error := Some ''Unhandled message type''\<rparr>) s))"

text \<open>The handler's promise settles; a rejection leaves \<open>handleMessage\<close> as an unhandled rejection.\<close>

definition clientHandlerDone :: "string \<Rightarrow> string \<Rightarrow> handler_outcome \<Rightarrow> srpc_client \<Rightarrow> srpc_client" where
  "clientHandlerDone requestId resultType outcome s =
     (let s1 = s\<lparr>cl_running := remove1 (requestId, resultType) (cl_running s)\<rparr>
      in case outcome of
           HandlerResult v \<Rightarrow> fst (writeMessage True ((reply_message requestId)\<lparr>bm_fields := [(resultType, v)]\<rparr>) s1)
         | _ \<Rightarrow> cemit [HandlerRejectionUnhandled requestId] s1)"

definition handleMessage :: "base_message option \<Rightarrow> int \<Rightarrow> srpc_client \<Rightarrow> srpc_client" where
  "handleMessage data now s =
     (case data of
        None \<Rightarrow> s
      | Some m \<Rightarrow>
          if bm_pingPong m then s\<lparr>cl_lastPongMs := Some now\<rparr>
          else case bm_byteStreamOperation m of
            Some op \<Rightarrow> cemit [ByteOperation op] s
          | None \<Rightarrow>
              if \<not> truthy_str (bm_requestId m) then close_current 4000 ''Invalid request ID'' s
              else if bm_reply m then handleReply (the (bm_requestId m)) m s
              else handleServerRequest (the (bm_requestId m)) m s)"

definition request_message :: "string \<Rightarrow> string \<Rightarrow> string \<Rightarrow> base_message" where
  "request_message prefix data requestId = empty_message\<lparr>bm_requestId := Some requestId, bm_fields := [(prefix @ ''Request'', data)]\<rparr>"

definition client_invoke :: "string \<Rightarrow> string \<Rightarrow> string \<Rightarrow> int \<Rightarrow> int \<Rightarrow> bool \<Rightarrow> srpc_client \<Rightarrow> srpc_client" where
  "client_invoke prefix data requestId now timeoutMs encodes s =
     (let s1 = (cemit [ClientInvoked requestId] s)
            \<lparr>cl_requestQueue := jset requestId \<lparr>qr_exp = now + timeoutMs, qr_resultType = prefix @ ''Response''\<rparr> (cl_requestQueue s),
             cl_requestTimers := jset requestId timeoutMs (cl_requestTimers s)\<rparr>;
          (s2, sent) = writeMessage encodes (request_message prefix data requestId) s1
      in if sent then s2 else settle requestId (Rejected ''Failed to send request: not connected'') s2)"

definition requestTimeout :: "string \<Rightarrow> srpc_client \<Rightarrow> srpc_client" where
  "requestTimeout requestId s =
     (let timeoutMs = the (jget (cl_requestTimers s) requestId)
      in if jhas (cl_requestQueue s) requestId
         then settle requestId (Rejected (''Request timeout after '' @ int_to_string timeoutMs @ ''ms'')) s
         else s\<lparr>cl_requestTimers := jdelete requestId (cl_requestTimers s)\<rparr>)"

definition registerMessageHandler :: "string \<Rightarrow> (string, string) jsmap \<Rightarrow> (string, string) jsmap" where
  "registerMessageHandler prefix handlers = jset (prefix @ ''Request'') (prefix @ ''Response'') handlers"

section \<open>Events\<close>

text \<open>\<open>uuid7()\<close> gives every invocation a new id.  The first message of a socket goes to the handshake, which
  is a \<open>once\<close> listener; only when it succeeds are later ones handled.\<close>

datatype client_event =
    CallConnect nat string bool
  | CallDisconnect
  | CheckConnection nat
  | SocketIsOpen nat
  | SocketMessage nat nat "base_message option"
  | SocketIsClosed nat int
  | SocketError nat
  | ConnectTimer nat
  | ReconnectTimer nat nat string
  | PingTimer nat nat
  | ClientHandlerDone string string handler_outcome
  | CallInvoke string string string nat int bool
  | RequestTimer string

definition sock_in :: "srpc_client \<Rightarrow> nat \<Rightarrow> ready_state set \<Rightarrow> bool" where
  "sock_in s w st \<longleftrightarrow> w < length (cl_socks s) \<and> cs_readyState (csock s w) \<in> st"

fun client_step :: "(string \<Rightarrow> string \<Rightarrow> string) \<Rightarrow> srpc_client \<Rightarrow> client_event \<Rightarrow> srpc_client" where
  "client_step hmac s (CallConnect now streamId supersede) = connect hmac (int now) streamId supersede s"
| "client_step hmac s CallDisconnect = disconnect s"
| "client_step hmac s (CheckConnection now) = triggerConnectionCheck (int now) s"
| "client_step hmac s (SocketIsOpen w) =
     (if sock_in s w {CONNECTING} then cupd w (\<lambda>k. k\<lparr>cs_readyState := OPEN\<rparr>) s else s)"
| "client_step hmac s (SocketMessage w now data) =
     (if \<not> sock_in s w {OPEN, CLOSING} then s
      else if cs_handshake (csock s w)
      then handleInitialHandshake w data (int now) (cupd w (\<lambda>k. k\<lparr>cs_handshake := False\<rparr>) s)
      else if cs_listening (csock s w) then handleMessage data (int now) s else s)"
| "client_step hmac s (SocketIsClosed w code) =
     (if sock_in s w {CONNECTING, OPEN, CLOSING} then handleClose w code (cupd w (\<lambda>k. k\<lparr>cs_readyState := CLOSED\<rparr>) s) else s)"
| "client_step hmac s (SocketError w) = (if sock_in s w {CONNECTING, OPEN, CLOSING} then handleError w s else s)"
| "client_step hmac s (ConnectTimer w) = (if w < length (cl_socks s) \<and> cs_connectTimer (csock s w) then connectTimeout w s else s)"
| "client_step hmac s (ReconnectTimer h now streamId) =
     (if h \<in> set (cl_reconnectTimers s)
      then connect hmac (int now) streamId False
             (s\<lparr>cl_reconnectTimers := filter (\<lambda>x. x \<noteq> h) (cl_reconnectTimers s), cl_reconnectionTimeout := None\<rparr>)
      else s)"
| "client_step hmac s (PingTimer h now) = (if h \<in> set (cl_pingIntervals s) then doPingPong (int now) s else s)"
| "client_step hmac s (ClientHandlerDone requestId resultType outcome) =
     (if (requestId, resultType) \<in> set (cl_running s) then clientHandlerDone requestId resultType outcome s else s)"
| "client_step hmac s (CallInvoke prefix data requestId now timeoutMs encodes) =
     (if requestId \<noteq> [] \<and> ClientInvoked requestId \<notin> set (cl_log s)
      then client_invoke prefix data requestId (int now) timeoutMs encodes s else s)"
| "client_step hmac s (RequestTimer requestId) =
     (if jhas (cl_requestTimers s) requestId then requestTimeout requestId s else s)"

end
