(* ===== verification/SrpcClientFacts.thy ===== *)
theory SrpcClientFacts
  imports SrpcClient SrpcServerFacts
begin

text \<open>
  What holds in every reachable state of an SRPC client: its requests are settled once and every open one has a
  timer, and every promise of \<open>connect()\<close> but the last is settled once.
\<close>

section \<open>The log\<close>

definition cinvoked :: "client_output list \<Rightarrow> string list" where
  "cinvoked log = List.map_filter (\<lambda>out. case out of ClientInvoked i \<Rightarrow> Some i | _ \<Rightarrow> None) log"

definition csettled :: "client_output list \<Rightarrow> string list" where
  "csettled log = List.map_filter (\<lambda>out. case out of ClientSettled i x \<Rightarrow> Some i | _ \<Rightarrow> None) log"

definition connects_settled :: "client_output list \<Rightarrow> nat list" where
  "connects_settled log = List.map_filter (\<lambda>out. case out of ConnectResolved n \<Rightarrow> Some n | ConnectRejected n x \<Rightarrow> Some n | _ \<Rightarrow> None) log"

lemma clog_simps [simp]:
  "cinvoked [] = []" "csettled [] = []" "connects_settled [] = []"
  "cinvoked (out # log) = (case out of ClientInvoked i \<Rightarrow> [i] | _ \<Rightarrow> []) @ cinvoked log"
  "csettled (out # log) = (case out of ClientSettled i x \<Rightarrow> [i] | _ \<Rightarrow> []) @ csettled log"
  "connects_settled (out # log) = (case out of ConnectResolved n \<Rightarrow> [n] | ConnectRejected n x \<Rightarrow> [n] | _ \<Rightarrow> []) @ connects_settled log"
  "cinvoked (log @ log') = cinvoked log @ cinvoked log'" "csettled (log @ log') = csettled log @ csettled log'"
  "connects_settled (log @ log') = connects_settled log @ connects_settled log'"
  by (simp_all add: cinvoked_def csettled_def connects_settled_def List.map_filter_def split: client_output.split)

lemma csettle_all [simp]:
  "cinvoked (map (\<lambda>i. ClientSettled i x) is) = []" "csettled (map (\<lambda>i. ClientSettled i x) is) = is"
  "connects_settled (map (\<lambda>i. ClientSettled i x) is) = []"
  by (induction "is") simp_all

lemma cinvoked_member: "i \<in> set (cinvoked log) \<longleftrightarrow> ClientInvoked i \<in> set log"
  by (induction log) (auto split: client_output.split)

section \<open>What the invariant looks at\<close>

text \<open>The requests, as a view of the state: their ids in the log, the queue and the timers.  The promises of
  \<open>connect()\<close> likewise.\<close>

type_synonym request_view = "string list \<times> string list \<times> (string, queued_request) jsmap \<times> (string, int) jsmap"

definition rview :: "srpc_client \<Rightarrow> request_view" where
  "rview s = (cinvoked (cl_log s), csettled (cl_log s), cl_requestQueue s, cl_requestTimers s)"

fun requests_ok :: "request_view \<Rightarrow> bool" where
  "requests_ok (invoked, settled, queue, timers) \<longleftrightarrow> distinct invoked \<and> mset invoked = mset settled + mset (jkeys queue)
     \<and> (\<forall>i. jhas timers i \<longleftrightarrow> jhas queue i)"

definition pview :: "srpc_client \<Rightarrow> nat list \<times> nat option \<times> nat" where
  "pview s = (connects_settled (cl_log s), cl_connect s, cl_promises s)"

fun promises_ok :: "nat list \<times> nat option \<times> nat \<Rightarrow> bool" where
  "promises_ok (settled, pending, n) \<longleftrightarrow> mset settled + mset (case pending of Some k \<Rightarrow> [k] | None \<Rightarrow> []) = mset [0..<n]"

definition client_ok :: "srpc_client \<Rightarrow> bool" where
  "client_ok s \<longleftrightarrow> requests_ok (rview s) \<and> promises_ok (pview s)"

lemma view_updates [simp]:
  "rview (s\<lparr>cl_config := c\<rparr>) = rview s" "rview (s\<lparr>cl_socks := k\<rparr>) = rview s" "rview (s\<lparr>cl_ws := w\<rparr>) = rview s"
  "rview (s\<lparr>cl_reconnectionTimeout := h\<rparr>) = rview s" "rview (s\<lparr>cl_pingInterval := h\<rparr>) = rview s" "rview (s\<lparr>cl_lastPongMs := t\<rparr>) = rview s"
  "rview (s\<lparr>cl_connect := p\<rparr>) = rview s" "rview (s\<lparr>cl_enableReconnect := b\<rparr>) = rview s" "rview (s\<lparr>cl_intentionalDisconnect := b\<rparr>) = rview s"
  "rview (s\<lparr>cl_isConnected := b\<rparr>) = rview s" "rview (s\<lparr>cl_promises := n\<rparr>) = rview s" "rview (s\<lparr>cl_handles := n\<rparr>) = rview s"
  "rview (s\<lparr>cl_reconnectTimers := l\<rparr>) = rview s" "rview (s\<lparr>cl_pingIntervals := l\<rparr>) = rview s" "rview (s\<lparr>cl_running := r\<rparr>) = rview s"
  "pview (s\<lparr>cl_config := c\<rparr>) = pview s" "pview (s\<lparr>cl_socks := k\<rparr>) = pview s" "pview (s\<lparr>cl_ws := w\<rparr>) = pview s"
  "pview (s\<lparr>cl_reconnectionTimeout := h\<rparr>) = pview s" "pview (s\<lparr>cl_pingInterval := h\<rparr>) = pview s" "pview (s\<lparr>cl_lastPongMs := t\<rparr>) = pview s"
  "pview (s\<lparr>cl_requestQueue := q\<rparr>) = pview s" "pview (s\<lparr>cl_enableReconnect := b\<rparr>) = pview s" "pview (s\<lparr>cl_intentionalDisconnect := b\<rparr>) = pview s"
  "pview (s\<lparr>cl_isConnected := b\<rparr>) = pview s" "pview (s\<lparr>cl_requestTimers := tm\<rparr>) = pview s" "pview (s\<lparr>cl_handles := n\<rparr>) = pview s"
  "pview (s\<lparr>cl_reconnectTimers := l\<rparr>) = pview s" "pview (s\<lparr>cl_pingIntervals := l\<rparr>) = pview s" "pview (s\<lparr>cl_running := r\<rparr>) = pview s"
  by (simp_all add: rview_def pview_def)

lemma view_emit [simp]:
  "cinvoked os = [] \<Longrightarrow> csettled os = [] \<Longrightarrow> rview (cemit os s) = rview s"
  "connects_settled os = [] \<Longrightarrow> pview (cemit os s) = pview s"
  by (simp_all add: rview_def pview_def cemit_def)

lemma view_operations [simp]:
  "rview (cupd w f s) = rview s" "pview (cupd w f s) = pview s"
  "rview (close_socket w c r s) = rview s" "pview (close_socket w c r s) = pview s"
  "rview (terminate_socket w s) = rview s" "pview (terminate_socket w s) = pview s"
  "rview (close_current c r s) = rview s" "pview (close_current c r s) = pview s"
  "rview (clearReconnection s) = rview s" "pview (clearReconnection s) = pview s"
  "rview (clearPingInterval s) = rview s" "pview (clearPingInterval s) = pview s"
  "rview (clearConnectTimeout w s) = rview s" "pview (clearConnectTimeout w s) = pview s"
  "rview (queueReconnect s) = rview s" "pview (queueReconnect s) = pview s"
  "rview (fst (writeMessage e m s)) = rview s" "pview (fst (writeMessage e m s)) = pview s"
  "rview (connectReject x s) = rview s" "rview (connectResolve s) = rview s"
  by (simp_all add: close_socket_def terminate_socket_def close_current_def clearReconnection_def clearPingInterval_def
      clearConnectTimeout_def queueReconnect_def writeMessage_def cupd_def connectReject_def connectResolve_def split: option.split)

lemma promises_settle:
  "promises_ok (pview s) \<Longrightarrow> promises_ok (pview (connectReject x s))" "promises_ok (pview s) \<Longrightarrow> promises_ok (pview (connectResolve s))"
  by (cases "cl_connect s"; simp add: connectReject_def connectResolve_def pview_def cemit_def)+

lemma connect_settled_none [simp]: "cl_connect (connectReject x s) = None" "cl_connect (connectResolve s) = None"
  by (simp_all add: connectReject_def connectResolve_def split: option.split)

section \<open>Promises of connect\<close>

lemma promises_connect:
  assumes "promises_ok (pview s)"
  shows "promises_ok (pview (connect hmac now i b s))"
proof -
  define s1 where "s1 = connectReject ''Connection superseded by new connect() call'' (clearReconnection s)"
  define s2 where "s2 = (case cl_ws s1 of Some w \<Rightarrow> (close_socket w 1005 [] s1)\<lparr>cl_ws := None\<rparr> | None \<Rightarrow> s1)"
  define s3 where "s3 = cemit [ByteStreamsInit] (s2\<lparr>cl_intentionalDisconnect := False,
                 cl_config := (cl_config s2)\<lparr>wc_supersede := b, wc_streamId := i\<rparr>\<rparr>)"
  have "promises_ok (pview s1)" unfolding s1_def by (rule promises_settle) (simp add: assms)
  moreover have "pview s3 = pview s1" by (simp add: s3_def s2_def split: option.split)
  ultimately have ok: "promises_ok (pview s3)" by simp
  have "cl_connect s1 = None" by (simp add: s1_def)
  then have none: "cl_connect s3 = None"
    using arg_cong [OF \<open>pview s3 = pview s1\<close>, of "\<lambda>v. fst (snd v)"] by (simp add: pview_def)
  have *: "connect hmac now i b s = (case generateWsUrl hmac now (cl_config s3) of
           Inl e \<Rightarrow> cemit [ConnectThrew e] s3
         | Inr (url, query) \<Rightarrow>
             let w = length (cl_socks s3)
             in (cemit [SocketOpened w url query] s3)
                  \<lparr>cl_config := (cl_config s3)\<lparr>wc_supersede := False\<rparr>,
                   cl_socks := cl_socks s3 @ [\<lparr>cs_readyState = CONNECTING, cs_handshake = True, cs_listening = False, cs_connectTimer = True\<rparr>],
                   cl_ws := Some w, cl_connect := Some (cl_promises s3), cl_promises := Suc (cl_promises s3)\<rparr>)"
    unfolding connect_def Let_def s1_def s2_def s3_def by (rule refl)
  show ?thesis
  proof (cases "generateWsUrl hmac now (cl_config s3)")
    case (Inl e)
    then show ?thesis unfolding * using ok by simp
  next
    case (Inr r)
    obtain url query where "r = (url, query)" by force
    with Inr ok none show ?thesis unfolding * by (simp add: pview_def Let_def cemit_def)
  qed
qed

lemma promises_onDisconnect:
  assumes "promises_ok (pview s)"
  shows "promises_ok (pview (onDisconnect cause b s))"
proof -
  define s1 where "s1 = (if cl_enableReconnect s \<and> \<not> b then queueReconnect s else s)"
  have "promises_ok (pview (connectReject x (clearPingInterval s1)))" for x
    by (rule promises_settle) (simp add: s1_def assms)
  then show ?thesis using assms unfolding onDisconnect_def s1_def [symmetric] Let_def by simp
qed


section \<open>Every event keeps the invariant\<close>

lemma requests_connect [simp]: "rview (connect hmac now i b s) = rview s"
  by (simp add: connect_def Let_def split: option.split sum.split prod.split)

lemma requests_onDisconnect:
  assumes "requests_ok (rview s)"
  shows "requests_ok (rview (onDisconnect cause b s))"
proof (cases "cl_reconnectionTimeout s")
  case None
  have "rview (onDisconnect cause b s)
      = (cinvoked (cl_log s), csettled (cl_log s) @ jkeys (cl_requestQueue s), [], filter (\<lambda>t. fst t \<notin> set (jkeys (cl_requestQueue s))) (cl_requestTimers s))"
  proof -
    define s1 where "s1 = (if cl_enableReconnect s \<and> \<not> b then queueReconnect s else s)"
    define s3 where "s3 = cemit (if cl_isConnected s then [DisconnectHandlersRun cause] else [])
      ((connectReject (''Connection failed: '' @ cause_text cause) (clearPingInterval s1))\<lparr>cl_isConnected := False, cl_ws := None\<rparr>)"
    have v: "rview s3 = rview s" by (simp add: s3_def s1_def)
    have "onDisconnect cause b s = (let s4 = cemit (map (\<lambda>i. ClientSettled i (Rejected ''Disconnected'')) (jkeys (cl_requestQueue s))) s3
           in s4\<lparr>cl_requestQueue := [], cl_requestTimers := filter (\<lambda>t. fst t \<notin> set (jkeys (cl_requestQueue s))) (cl_requestTimers s4)\<rparr>)"
      using None by (simp add: onDisconnect_def s3_def s1_def Let_def)
    with v show ?thesis by (simp add: rview_def cemit_def)
  qed
  moreover have "jhas (filter (\<lambda>t. fst t \<notin> set (jkeys (cl_requestQueue s))) (cl_requestTimers s)) i \<longleftrightarrow> False" for i
  proof -
    have "jhas (cl_requestTimers s) i \<longleftrightarrow> jhas (cl_requestQueue s) i" using assms by (simp add: rview_def)
    then have "i \<in> fst ` set (cl_requestTimers s) \<longleftrightarrow> i \<in> set (jkeys (cl_requestQueue s))"
      by (simp only: jkeys_def map_of_eq_None_iff set_map not_not)
    then show ?thesis by (force simp: map_of_eq_None_iff)
  qed
  ultimately show ?thesis using assms by (simp add: rview_def jkeys_def)
qed (use assms in \<open>simp add: onDisconnect_def\<close>)

lemma queue_of_requests_ok:
  assumes "requests_ok (rview s)"
  shows "distinct (map fst (cl_requestQueue s))" "set (jkeys (cl_requestQueue s)) \<subseteq> set (cinvoked (cl_log s))"
proof -
  have d: "distinct (cinvoked (cl_log s))"
    and m: "mset (cinvoked (cl_log s)) = mset (csettled (cl_log s) @ jkeys (cl_requestQueue s))"
    using assms by (simp_all add: rview_def)
  show "distinct (map fst (cl_requestQueue s))" using d mset_eq_imp_distinct_iff [OF m] by (simp add: jkeys_def)
  show "set (jkeys (cl_requestQueue s)) \<subseteq> set (cinvoked (cl_log s))" using arg_cong [OF m, of set_mset] by auto
qed

lemma requests_settle:
  assumes "requests_ok (rview s)" "jget (cl_requestQueue s) i = Some q"
  shows "requests_ok (rview (settle i x s))"
proof -
  have k: "mset (jkeys (cl_requestQueue s)) = add_mset i (mset (jkeys (jdelete i (cl_requestQueue s))))"
    by (rule jkeys_jdelete_mset [OF queue_of_requests_ok(1) [OF assms(1)] assms(2)])
  have v: "rview (settle i x s) = (cinvoked (cl_log s), csettled (cl_log s) @ [i], jdelete i (cl_requestQueue s), jdelete i (cl_requestTimers s))"
    by (simp add: rview_def settle_def cemit_def)
  show ?thesis unfolding v using assms(1) by (simp add: rview_def k)
qed

lemma promises_quiet [simp]: "pview (settle i x s) = pview s"
  by (simp add: settle_def)

lemma requests_invoke:
  assumes ok: "requests_ok (rview s)" and fresh: "ClientInvoked i \<notin> set (cl_log s)"
  shows "requests_ok (rview (client_invoke p d i now t e s))"
proof -
  define s1 where "s1 = (cemit [ClientInvoked i] s)
            \<lparr>cl_requestQueue := jset i \<lparr>qr_exp = now + t, qr_resultType = p @ ''Response''\<rparr> (cl_requestQueue s),
             cl_requestTimers := jset i t (cl_requestTimers s)\<rparr>"
  have new: "i \<notin> set (cinvoked (cl_log s))" using fresh by (simp add: cinvoked_member)
  then have "i \<notin> fst ` set (cl_requestQueue s)" using queue_of_requests_ok(2) [OF ok] by (auto simp: jkeys_def)
  then have keys: "jkeys (jset i v (cl_requestQueue s)) = jkeys (cl_requestQueue s) @ [i]" for v by (simp add: jset_fresh jkeys_def)
  have ok1: "requests_ok (rview s1)" using ok new keys by (simp add: rview_def s1_def cemit_def)
  define w where "w = writeMessage e (request_message p d i) s1"
  have "rview (fst w) = rview s1" by (simp add: w_def)
  then have okw: "requests_ok (rview (fst w))" and q: "cl_requestQueue (fst w) = cl_requestQueue s1"
    using ok1 by (simp_all add: rview_def)
  have "\<exists>v. jget (cl_requestQueue (fst w)) i = Some v" by (simp add: q s1_def)
  then have "requests_ok (rview (settle i x (fst w)))" for x using requests_settle [OF okw] by blast
  then show ?thesis
    using okw unfolding client_invoke_def s1_def [symmetric] Let_def w_def [symmetric] by (cases w) simp
qed

lemma promises_invoke [simp]: "pview (client_invoke p d i now t e s) = pview s"
proof -
  define s1 where "s1 = (cemit [ClientInvoked i] s)
            \<lparr>cl_requestQueue := jset i \<lparr>qr_exp = now + t, qr_resultType = p @ ''Response''\<rparr> (cl_requestQueue s),
             cl_requestTimers := jset i t (cl_requestTimers s)\<rparr>"
  have "pview (fst (writeMessage e (request_message p d i) s1)) = pview s" by (simp add: s1_def)
  then show ?thesis
    unfolding client_invoke_def s1_def [symmetric] Let_def by (cases "writeMessage e (request_message p d i) s1") simp
qed

lemma client_okI: "requests_ok (rview s) \<Longrightarrow> promises_ok (pview s) \<Longrightarrow> client_ok s"
  by (simp add: client_ok_def)

lemma client_ok_quiet: "client_ok s \<Longrightarrow> rview t = rview s \<Longrightarrow> pview t = pview s \<Longrightarrow> client_ok t"
  by (simp add: client_ok_def)

lemma client_ok_settle_promise:
  "client_ok s \<Longrightarrow> client_ok (connectReject x s)" "client_ok s \<Longrightarrow> client_ok (connectResolve s)"
  by (simp_all add: client_ok_def promises_settle del: promises_ok.simps requests_ok.simps)

lemma client_ok_connect: "client_ok s \<Longrightarrow> client_ok (connect hmac now i b s)"
  by (simp add: client_ok_def promises_connect)

lemma client_ok_onDisconnect: "client_ok s \<Longrightarrow> client_ok (onDisconnect cause b s)"
  by (simp add: client_ok_def promises_onDisconnect requests_onDisconnect)

lemma client_ok_connectTimeout:
  assumes "client_ok s"
  shows "client_ok (connectTimeout w s)"
proof -
  have "client_ok (clearConnectTimeout w s)" by (rule client_ok_quiet [OF assms]) simp_all
  then show ?thesis
    unfolding connectTimeout_def by (rule client_ok_settle_promise(1) [THEN client_ok_quiet]) simp_all
qed

lemma client_ok_handleClose:
  assumes "client_ok s"
  shows "client_ok (handleClose w code s)"
proof -
  have "client_ok (clearConnectTimeout w s)" by (rule client_ok_quiet [OF assms]) simp_all
  then show ?thesis
    using assms by (simp add: handleClose_def Let_def client_ok_onDisconnect client_ok_settle_promise)
qed

lemma client_ok_handleError:
  assumes "client_ok s"
  shows "client_ok (handleError w s)"
proof -
  have "client_ok (terminate_socket w (clearConnectTimeout w s))" by (rule client_ok_quiet [OF assms]) simp_all
  then show ?thesis using assms by (simp add: handleError_def client_ok_onDisconnect)
qed

lemma client_ok_handshake:
  assumes "client_ok s"
  shows "client_ok (handleInitialHandshake w data now s)"
proof (cases "cl_ws s = Some w \<and> (\<exists>m. data = Some m \<and> bm_pingPong m)")
  case True
  define s1 where "s1 = (clearConnectTimeout w s)\<lparr>cl_lastPongMs := Some now\<rparr>"
  define s2 where "s2 = fst (writeMessage True ping_message s1)"
  define s3 where "s3 = s2\<lparr>cl_isConnected := True, cl_pingInterval := Some (cl_handles s2),
      cl_pingIntervals := cl_pingIntervals s2 @ [cl_handles s2], cl_handles := Suc (cl_handles s2)\<rparr>"
  have "client_ok s3" by (rule client_ok_quiet [OF assms]) (simp_all add: s3_def s2_def s1_def)
  then have ok: "client_ok (connectResolve s3)" by (rule client_ok_settle_promise)
  have "handleInitialHandshake w data now s = cupd w (\<lambda>k. k\<lparr>cs_listening := True\<rparr>) (cemit [ConnectionHandlersRun] (connectResolve s3))"
    using True by (auto simp: handleInitialHandshake_def Let_def s3_def s2_def s1_def)
  then show ?thesis using ok by (simp add: client_ok_quiet [OF ok])
next
  case False
  have "rview (handleInitialHandshake w data now s) = rview s" "pview (handleInitialHandshake w data now s) = pview s"
    using False by (auto simp: handleInitialHandshake_def Let_def split: option.split)
  then show ?thesis by (rule client_ok_quiet [OF assms])
qed

lemma client_ok_message:
  assumes "client_ok s"
  shows "client_ok (handleMessage data now s)"
proof -
  have close: "client_ok (close_current c r s)" for c r by (rule client_ok_quiet [OF assms]) simp_all
  have reply: "client_ok (handleReply i m s)" for i m
    using assms close requests_settle by (auto simp: handleReply_def client_ok_def split: option.split simp del: requests_ok.simps promises_ok.simps)
  have request: "client_ok (handleServerRequest i m s)" for i m
    by (rule client_ok_quiet [OF assms]) (auto simp: handleServerRequest_def split: option.split prod.split)
  have "client_ok (s\<lparr>cl_lastPongMs := Some now\<rparr>)" "client_ok (cemit [ByteOperation op] s)" for op
    by (rule client_ok_quiet [OF assms]; simp)+
  with assms close reply request show ?thesis by (simp add: handleMessage_def split: option.split)
qed

lemma client_ok_new: "client_ok (new_client config enableReconnect handlers)"
  by (simp add: client_ok_def rview_def pview_def new_client_def jkeys_def)

lemma client_ok_step: "client_ok s \<Longrightarrow> client_ok (client_step hmac s e)"
proof (cases e)
  case (CallConnect now i b)
  then show "client_ok s \<Longrightarrow> ?thesis" by (simp add: client_ok_connect)
next
  case CallDisconnect
  then show "client_ok s \<Longrightarrow> ?thesis" by (elim client_ok_quiet) (simp_all add: disconnect_def)
next
  case (CheckConnection now)
  then show "client_ok s \<Longrightarrow> ?thesis" by (elim client_ok_quiet) (simp_all add: triggerConnectionCheck_def)
next
  case (SocketIsOpen w)
  then show "client_ok s \<Longrightarrow> ?thesis" by (elim client_ok_quiet) simp_all
next
  case (SocketMessage w now data)
  assume ok: "client_ok s"
  have "client_ok (cupd w (\<lambda>k. k\<lparr>cs_handshake := False\<rparr>) s)" by (rule client_ok_quiet [OF ok]) simp_all
  then show ?thesis using SocketMessage ok by (simp add: client_ok_handshake client_ok_message)
next
  case (SocketIsClosed w code)
  assume ok: "client_ok s"
  have "client_ok (cupd w (\<lambda>k. k\<lparr>cs_readyState := CLOSED\<rparr>) s)" by (rule client_ok_quiet [OF ok]) simp_all
  then show ?thesis using SocketIsClosed ok by (simp add: client_ok_handleClose)
next
  case (SocketError w)
  then show "client_ok s \<Longrightarrow> ?thesis" by (simp add: client_ok_handleError)
next
  case (ConnectTimer w)
  then show "client_ok s \<Longrightarrow> ?thesis" by (simp add: client_ok_connectTimeout)
next
  case (ReconnectTimer h now i)
  assume ok: "client_ok s"
  have "client_ok (s\<lparr>cl_reconnectTimers := filter (\<lambda>x. x \<noteq> h) (cl_reconnectTimers s), cl_reconnectionTimeout := None\<rparr>)"
    by (rule client_ok_quiet [OF ok]) simp_all
  then show ?thesis using ReconnectTimer ok by (simp add: client_ok_connect)
next
  case (PingTimer h now)
  then show "client_ok s \<Longrightarrow> ?thesis" by (elim client_ok_quiet) (simp_all add: doPingPong_def)
next
  case (ClientHandlerDone i rt outcome)
  then show "client_ok s \<Longrightarrow> ?thesis" by (elim client_ok_quiet) (auto simp: clientHandlerDone_def Let_def split: handler_outcome.split)
next
  case (CallInvoke p d i now t enc)
  then show "client_ok s \<Longrightarrow> ?thesis" by (simp add: client_ok_def requests_invoke del: requests_ok.simps promises_ok.simps)
next
  case (RequestTimer i)
  assume ok: "client_ok s"
  have both: "jhas (cl_requestTimers s) i \<Longrightarrow> \<exists>q. jget (cl_requestQueue s) i = Some q"
    using ok by (auto simp: client_ok_def rview_def)
  show ?thesis
  proof (cases "jhas (cl_requestTimers s) i")
    case True
    then obtain q where q: "jget (cl_requestQueue s) i = Some q" using both by blast
    have "client_ok (settle i x s)" for x
      using ok requests_settle [OF _ q] by (simp add: client_ok_def del: requests_ok.simps promises_ok.simps)
    then show ?thesis using RequestTimer True q by (simp add: requestTimeout_def Let_def)
  qed (use RequestTimer ok in simp)
qed

interpretation srpc_client: event_system "new_client config enableReconnect handlers" "client_step hmac" client_ok
  by unfold_locales (fact client_ok_new, fact client_ok_step)

abbreviation client_run :: "(string \<Rightarrow> string \<Rightarrow> string) \<Rightarrow> ws_client \<Rightarrow> bool \<Rightarrow> (string, string) jsmap \<Rightarrow> client_event list \<Rightarrow> srpc_client" where
  "client_run hmac config enableReconnect handlers es \<equiv> run_events (client_step hmac) (new_client config enableReconnect handlers) es"

end
