(* ===== verification/SrpcClientCorrect.thy ===== *)
theory SrpcClientCorrect
  imports SrpcClientFacts
begin

text \<open>
  What \<open>src/src/srpc/SrpcClient.ts\<close> promises in every order of events, and a request's way from the client to
  the server and back, through the handlers of both sides.
\<close>

section \<open>Requests and promises\<close>

lemma client_run_ok: "client_ok (client_run hmac config enableReconnect handlers es)"
  by (rule srpc_client.reachable_holds)

text \<open>C27. Requests of a client are settled once and never forgotten: in every reachable state the ids it invoked
  are, each exactly once, settled or in the queue, and exactly those in the queue have a timer running.\<close>

theorem client_requests_settle_once:
  "let s = client_run hmac config enableReconnect handlers es in
     distinct (csettled (cl_log s) @ jkeys (cl_requestQueue s))
   \<and> set (csettled (cl_log s)) \<union> set (jkeys (cl_requestQueue s)) = set (cinvoked (cl_log s))
   \<and> (\<forall>i. jhas (cl_requestTimers s) i \<longleftrightarrow> i \<in> set (jkeys (cl_requestQueue s)))"
proof -
  define s where "s = client_run hmac config enableReconnect handlers es"
  have ok: "requests_ok (rview s)" using client_run_ok [of hmac config enableReconnect handlers es] by (simp add: client_ok_def s_def)
  then have m: "mset (cinvoked (cl_log s)) = mset (csettled (cl_log s) @ jkeys (cl_requestQueue s))"
    and d: "distinct (cinvoked (cl_log s))" by (simp_all add: rview_def)
  have "jhas (cl_requestTimers s) i \<longleftrightarrow> i \<in> set (jkeys (cl_requestQueue s))" for i
  proof -
    have "jhas (cl_requestTimers s) i \<longleftrightarrow> jhas (cl_requestQueue s) i" using ok by (simp add: rview_def)
    then show ?thesis by (simp only: jkeys_def map_of_eq_None_iff set_map not_not)
  qed
  moreover have "distinct (csettled (cl_log s) @ jkeys (cl_requestQueue s))" using d mset_eq_imp_distinct_iff [OF m] by blast
  moreover have "set (csettled (cl_log s)) \<union> set (jkeys (cl_requestQueue s)) = set (cinvoked (cl_log s))"
    using arg_cong [OF m, of set_mset] by simp
  ultimately show ?thesis unfolding s_def [symmetric] Let_def by blast
qed

text \<open>Every request ends: a request that was made and is not settled has a timer, and when it fires the
  request is rejected.\<close>

theorem open_request_times_out:
  "\<lbrakk>s = client_run hmac config enableReconnect handlers es; i \<in> set (cinvoked (cl_log s)); i \<notin> set (csettled (cl_log s))\<rbrakk> \<Longrightarrow>
   (\<exists>ms. jget (cl_requestTimers s) i = Some ms
      \<and> cl_log (client_step hmac s (RequestTimer i)) = cl_log s @ [ClientSettled i (Rejected (''Request timeout after '' @ int_to_string ms @ ''ms''))]
      \<and> jget (cl_requestQueue (client_step hmac s (RequestTimer i))) i = None)"
proof -
  assume s: "s = client_run hmac config enableReconnect handlers es" and i: "i \<in> set (cinvoked (cl_log s))" "i \<notin> set (csettled (cl_log s))"
  have ok: "requests_ok (rview s)" using client_run_ok [of hmac config enableReconnect handlers es] by (simp add: client_ok_def s)
  then have m: "mset (cinvoked (cl_log s)) = mset (csettled (cl_log s) @ jkeys (cl_requestQueue s))" by (simp add: rview_def)
  have "i \<in> fst ` set (cl_requestQueue s)" using i arg_cong [OF m, of set_mset] by (simp add: jkeys_def)
  then obtain q where q: "jget (cl_requestQueue s) i = Some q" by (metis map_of_eq_None_iff not_None_eq)
  moreover obtain ms where ms: "jget (cl_requestTimers s) i = Some ms" using ok q by (auto simp: rview_def)
  ultimately show ?thesis by (simp add: requestTimeout_def Let_def settle_def cemit_def)
qed

definition demo_events :: "client_event list" where
  "demo_events = [CallConnect 0 ''s1'' False, SocketIsOpen 0, SocketMessage 0 1 (Some ping_message),
     CallInvoke ''uEcho'' ''x'' ''q1'' 2 30 True, CallInvoke ''uEcho'' ''y'' ''q2'' 2 30 True,
     SocketMessage 0 3 (Some ((reply_message ''q1'')\<lparr>bm_fields := [(''uEchoResponse'', ''x'')]\<rparr>))]"

abbreviation demo_run :: "client_event list \<Rightarrow> srpc_client" where
  "demo_run es \<equiv> client_run (\<lambda>key text. ''sig'') demo_client True [] es"

theorem open_request_times_out_witness:
  "\<exists>ms. jget (cl_requestTimers (demo_run demo_events)) ''q2'' = Some ms
     \<and> cl_log (client_step (\<lambda>key text. ''sig'') (demo_run demo_events) (RequestTimer ''q2''))
       = cl_log (demo_run demo_events) @ [ClientSettled ''q2'' (Rejected (''Request timeout after '' @ int_to_string ms @ ''ms''))]"
proof -
  have "''q2'' \<in> set (cinvoked (cl_log (demo_run demo_events)))" "''q2'' \<notin> set (csettled (cl_log (demo_run demo_events)))"
    by code_simp+
  from open_request_times_out [OF refl this] show ?thesis by blast
qed

text \<open>Every promise of \<open>connect()\<close> is settled at most once, and all but the pending one are settled.\<close>

theorem connect_settles_once:
  "let s = client_run hmac config enableReconnect handlers es in
     distinct (connects_settled (cl_log s)) \<and> set (connects_settled (cl_log s)) = {0..<cl_promises s} - set_option (cl_connect s)"
proof -
  define s where "s = client_run hmac config enableReconnect handlers es"
  define p where "p = (case cl_connect s of Some k \<Rightarrow> [k] | None \<Rightarrow> [])"
  have "promises_ok (pview s)" using client_run_ok [of hmac config enableReconnect handlers es] by (simp add: client_ok_def s_def)
  then have m: "mset (connects_settled (cl_log s) @ p) = mset [0..<cl_promises s]" by (simp add: pview_def p_def)
  have "distinct (connects_settled (cl_log s) @ p)" using mset_eq_imp_distinct_iff [OF m] by simp
  moreover have "set (connects_settled (cl_log s)) \<union> set p = {0..<cl_promises s}" using arg_cong [OF m, of set_mset] by simp
  moreover have "set p = set_option (cl_connect s)" by (cases "cl_connect s") (simp_all add: p_def)
  ultimately show ?thesis unfolding s_def [symmetric] Let_def by auto
qed

section \<open>The end of a connection\<close>

text \<open>C28. When the current socket closes and no reconnection is queued, the client is left clean: no socket, no
  ping timer, no pending promise, every open request rejected; and it will reconnect exactly if
  reconnection is enabled and the close was not a conflict it did not cause itself.\<close>

theorem close_cleans_up:
  "\<lbrakk>cl_ws s = Some w; w < length (cl_socks s); cs_readyState (csock s w) \<noteq> CLOSED; cl_reconnectionTimeout s = None\<rbrakk> \<Longrightarrow>
   (let t = client_step hmac s (SocketIsClosed w code) in
      cl_ws t = None \<and> \<not> cl_isConnected t \<and> cl_pingInterval t = None \<and> cl_connect t = None \<and> cl_requestQueue t = []
    \<and> csettled (cl_log t) = csettled (cl_log s) @ jkeys (cl_requestQueue s)
    \<and> (cl_reconnectionTimeout t \<noteq> None \<longleftrightarrow> cl_enableReconnect s \<and> \<not> (code = 4001 \<and> \<not> cl_intentionalDisconnect s)))"
proof -
  assume a: "cl_ws s = Some w" "w < length (cl_socks s)" "cs_readyState (csock s w) \<noteq> CLOSED" "cl_reconnectionTimeout s = None"
  have cause: "parseDisconnectCause code = CauseConflict \<longleftrightarrow> code = 4001" by (simp add: parseDisconnectCause_def CLOSE_CAUSES_def)
  have "sock_in s w {CONNECTING, OPEN, CLOSING}" using a(2,3) by (cases "cs_readyState (csock s w)") (simp_all add: sock_in_def)
  then show ?thesis
    using a(1,4) cause
    by (simp add: handleClose_def onDisconnect_def connectReject_def clearPingInterval_def queueReconnect_def clearConnectTimeout_def
        cupd_def cemit_def Let_def split: option.split)
qed

theorem close_cleans_up_witness:
  "let t = client_step (\<lambda>key text. ''sig'') (demo_run demo_events) (SocketIsClosed 0 4001) in
     cl_ws t = None \<and> csettled (cl_log t) = [''q1'', ''q2''] \<and> cl_reconnectionTimeout t = None"
proof -
  have "cl_ws (demo_run demo_events) = Some 0" "0 < length (cl_socks (demo_run demo_events))"
    "cs_readyState (csock (demo_run demo_events) 0) \<noteq> CLOSED" "cl_reconnectionTimeout (demo_run demo_events) = None"
    by code_simp+
  note t = close_cleans_up [OF this, of "\<lambda>key text. ''sig''" 4001]
  have "csettled (cl_log (demo_run demo_events)) = [''q1'']" "jkeys (cl_requestQueue (demo_run demo_events)) = [''q2'']"
    "\<not> cl_intentionalDisconnect (demo_run demo_events)"
    by code_simp+
  with t show ?thesis by (simp add: Let_def)
qed


text \<open>What a client without reconnection looks at when it could open a socket.\<close>

definition idle_view :: "srpc_client \<Rightarrow> bool \<times> nat list \<times> nat" where
  "idle_view s = (cl_enableReconnect s, cl_reconnectTimers s, length (cl_socks s))"

lemma idle_updates [simp]:
  "idle_view (cupd w f s) = idle_view s" "idle_view (cemit os s) = idle_view s" "idle_view (close_socket w c x s) = idle_view s"
  "idle_view (terminate_socket w s) = idle_view s" "idle_view (close_current c x s) = idle_view s"
  "idle_view (clearPingInterval s) = idle_view s" "idle_view (clearConnectTimeout w s) = idle_view s"
  "idle_view (connectReject x s) = idle_view s" "idle_view (connectResolve s) = idle_view s" "idle_view (fst (writeMessage e m s)) = idle_view s"
  "idle_view (settle i out s) = idle_view s"
  "idle_view (s\<lparr>cl_config := cf\<rparr>) = idle_view s" "idle_view (s\<lparr>cl_ws := w'\<rparr>) = idle_view s" "idle_view (s\<lparr>cl_reconnectionTimeout := h\<rparr>) = idle_view s"
  "idle_view (s\<lparr>cl_pingInterval := h\<rparr>) = idle_view s" "idle_view (s\<lparr>cl_lastPongMs := t\<rparr>) = idle_view s" "idle_view (s\<lparr>cl_requestQueue := q\<rparr>) = idle_view s"
  "idle_view (s\<lparr>cl_connect := p\<rparr>) = idle_view s" "idle_view (s\<lparr>cl_intentionalDisconnect := b\<rparr>) = idle_view s" "idle_view (s\<lparr>cl_isConnected := b\<rparr>) = idle_view s"
  "idle_view (s\<lparr>cl_promises := n\<rparr>) = idle_view s" "idle_view (s\<lparr>cl_handles := n\<rparr>) = idle_view s" "idle_view (s\<lparr>cl_pingIntervals := l\<rparr>) = idle_view s"
  "idle_view (s\<lparr>cl_requestTimers := tm\<rparr>) = idle_view s" "idle_view (s\<lparr>cl_running := ru\<rparr>) = idle_view s"
  by (simp_all add: idle_view_def close_socket_def terminate_socket_def close_current_def clearPingInterval_def clearConnectTimeout_def
      connectReject_def connectResolve_def writeMessage_def settle_def cupd_def cemit_def split: option.split)

lemma idle_queue [simp]: "\<not> cl_enableReconnect s \<Longrightarrow> queueReconnect s = s"
  by (simp add: queueReconnect_def)

lemma idle_step:
  assumes "idle_view s = (False, [], n)" "\<nexists>now i b. e = CallConnect now i b"
  shows "idle_view (client_step hmac s e) = (False, [], n)"
proof -
  have off: "\<not> cl_enableReconnect t" if "idle_view t = (False, [], n)" for t using that by (simp add: idle_view_def)
  have drop: "idle_view (onDisconnect c b t) = (False, [], n)" if "idle_view t = (False, [], n)" for c b t
    using that off [OF that] by (simp add: onDisconnect_def Let_def)
  have wait: "idle_view (connectTimeout w s) = (False, [], n)" for w
    using assms(1) off [of "close_socket w 1005 [] (connectReject ''Connection failed: timeout'' (clearConnectTimeout w s))"]
    by (simp add: connectTimeout_def)
  have clear: "idle_view (clearReconnection (s\<lparr>cl_enableReconnect := False, cl_intentionalDisconnect := True\<rparr>)) = (False, [], n)"
    using assms(1) by (simp add: clearReconnection_def idle_view_def split: option.split)
  have handle: "idle_view (handleMessage data now s) = idle_view s" for data now
    by (simp add: handleMessage_def handleReply_def handleServerRequest_def split: option.split prod.split)
  have shake: "idle_view (handleInitialHandshake w data now t) = idle_view t" for w data now t
    by (simp add: handleInitialHandshake_def Let_def split: option.split)
  have call: "idle_view (client_invoke p d i now t enc s) = idle_view s" for p d i now t enc
  proof -
    define s1 where "s1 = (cemit [ClientInvoked i] s)
            \<lparr>cl_requestQueue := jset i \<lparr>qr_exp = now + t, qr_resultType = p @ ''Response''\<rparr> (cl_requestQueue s),
             cl_requestTimers := jset i t (cl_requestTimers s)\<rparr>"
    have "idle_view (fst (writeMessage enc (request_message p d i) s1)) = idle_view s" by (simp add: s1_def)
    then show ?thesis
      unfolding client_invoke_def s1_def [symmetric] Let_def by (cases "writeMessage enc (request_message p d i) s1") simp
  qed
  have none: "cl_reconnectTimers s = []" using assms(1) by (simp add: idle_view_def)
  show ?thesis
    using assms drop wait clear handle shake call none
    by (cases e) (simp_all add: disconnect_def triggerConnectionCheck_def handleClose_def handleError_def doPingPong_def clientHandlerDone_def
        requestTimeout_def Let_def split: handler_outcome.split)
qed

lemma idle_run:
  "idle_view s = (False, [], n) \<Longrightarrow> \<forall>e\<in>set es. \<nexists>now i b. e = CallConnect now i b \<Longrightarrow> idle_view (run_events (client_step hmac) s es) = (False, [], n)"
  by (induction es arbitrary: s) (simp_all add: idle_step)

text \<open>\<open>disconnect()\<close> is final: if the only reconnection that is scheduled is the one the client remembers,
  then whatever happens after \<open>disconnect()\<close> short of a new \<open>connect()\<close>, no new socket is opened.\<close>

theorem disconnect_is_final:
  "\<lbrakk>set (cl_reconnectTimers s) \<subseteq> set_option (cl_reconnectionTimeout s); \<forall>e\<in>set es. \<nexists>now i b. e = CallConnect now i b\<rbrakk> \<Longrightarrow>
   length (cl_socks (run_events (client_step hmac) (client_step hmac s CallDisconnect) es)) = length (cl_socks s)"
proof -
  assume a: "set (cl_reconnectTimers s) \<subseteq> set_option (cl_reconnectionTimeout s)" "\<forall>e\<in>set es. \<nexists>now i b. e = CallConnect now i b"
  have "idle_view (clearReconnection (s\<lparr>cl_enableReconnect := False, cl_intentionalDisconnect := True\<rparr>)) = (False, [], length (cl_socks s))"
    using a(1) by (cases "cl_reconnectionTimeout s") (auto simp: clearReconnection_def idle_view_def filter_empty_conv)
  then have "idle_view (client_step hmac s CallDisconnect) = (False, [], length (cl_socks s))" by (simp add: disconnect_def)
  from idle_run [OF this a(2)] show ?thesis by (simp add: idle_view_def)
qed

theorem disconnect_is_final_witness:
  "length (cl_socks (run_events (client_step (\<lambda>key text. ''sig'')) (client_step (\<lambda>key text. ''sig'') (demo_run demo_events) CallDisconnect)
     [SocketIsClosed 0 1000, ConnectTimer 0, ReconnectTimer 0 5000 ''s2''])) = length (cl_socks (demo_run demo_events))"
proof -
  have "set (cl_reconnectTimers (demo_run demo_events)) \<subseteq> set_option (cl_reconnectionTimeout (demo_run demo_events))" by code_simp
  then show ?thesis by (rule disconnect_is_final) simp
qed


section \<open>A request's way there and back\<close>

text \<open>What a handler's outcome becomes at the caller; an error without text cannot be told from no answer.\<close>

fun outcome_seen :: "handler_outcome \<Rightarrow> invocation_outcome" where
  "outcome_seen (HandlerResult v) = Resolved v"
| "outcome_seen (HandlerUserError e) = Rejected e"
| "outcome_seen (HandlerError e) = Rejected e"

lemma find_registered:
  assumes "jget handlers (p @ ''Request'') = Some rt"
  shows "find (\<lambda>key. key = p @ ''Request'') (jkeys handlers) = Some (p @ ''Request'')"
proof -
  have "p @ ''Request'' \<in> set (jkeys handlers)" using assms by (force simp: jkeys_def dest!: map_of_SomeD)
  then show ?thesis by (induction handlers) (auto simp: jkeys_def)
qed

lemma request_message_simps [simp]:
  "\<not> bm_pingPong (request_message p d i)" "bm_byteStreamOperation (request_message p d i) = None" "\<not> bm_reply (request_message p d i)"
  "bm_requestId (request_message p d i) = Some i" "bm_fields (request_message p d i) = [(p @ ''Request'', d)]" "bm_error (request_message p d i) = None"
  by (simp_all add: request_message_def empty_message_def)

lemma server_accepts_request:
  assumes "ss_isActivated (sobj s r)" "r \<notin> set (sv_blockedClientRequests s)" "i \<noteq> []"
    and "jget (sv_streamMessageHandlers s) (p @ ''Request'') = Some rt"
  shows "handleStreamDataReceived now r (request_message p d i) s
    = (emit [Dispatched r i (p @ ''Request'') d] s)\<lparr>sv_running := sv_running s @ [(r, i, rt)]\<rparr>"
  using assms by (simp add: handleStreamDataReceived_def Let_def handleClientRequest_def handler_for_def find_registered [OF assms(4)])

lemma client_accepts_request:
  assumes "i \<noteq> []" "jget (cl_streamMessageHandlers c) (p @ ''Request'') = Some rt"
  shows "handleMessage (Some (request_message p d i)) now c
    = (cemit [ClientDispatched i (p @ ''Request'') d] c)\<lparr>cl_running := cl_running c @ [(i, rt)]\<rparr>"
  using assms by (simp add: handleMessage_def handleServerRequest_def client_handler_for_def find_registered [OF assms(2)])

definition reply_of :: "string \<Rightarrow> string \<Rightarrow> handler_outcome \<Rightarrow> base_message" where
  "reply_of i rt outcome = (case outcome of
     HandlerResult v \<Rightarrow> (reply_message i)\<lparr>bm_fields := [(rt, v)]\<rparr>
   | HandlerUserError e \<Rightarrow> (reply_message i)\<lparr>bm_error := Some e, bm_userError := True\<rparr>
   | HandlerError e \<Rightarrow> (reply_message i)\<lparr>bm_error := Some e\<rparr>)"

lemma reply_of_simps [simp]:
  "\<not> bm_pingPong (reply_of i rt outcome)" "bm_byteStreamOperation (reply_of i rt outcome) = None" "bm_reply (reply_of i rt outcome)"
  "bm_requestId (reply_of i rt outcome) = Some i"
  by (simp_all add: reply_of_def reply_message_def empty_message_def split: handler_outcome.split)

lemma handlerDone_reply: "sv_log (handlerDone r i rt outcome s) = sv_log s @ [Sent r (reply_of i rt outcome)]"
  by (simp add: handlerDone_def Let_def writeToStream_def reply_of_def emit_def split: handler_outcome.split)

text \<open>C25. A request gets through and its answer comes back: what \<open>invoke\<close> of a connected client sends is
  dispatched by a server that has opened the client's stream to the handler of its kind, and the reply the
  server sends once that handler has settled settles the client's request with the handler's result or
  error.\<close>

theorem request_roundtrip:
  assumes "can_send c" "i \<noteq> []"
    and "ss_isActivated (sobj s r)" "r \<notin> set (sv_blockedClientRequests s)"
    and "jget (sv_streamMessageHandlers s) (p @ ''Request'') = Some (p @ ''Response'')"
    and "outcome \<noteq> HandlerUserError []" "outcome \<noteq> HandlerError []"
  shows "\<exists>request reply.
      cl_log (client_invoke p d i now ms True c) = cl_log c @ [ClientInvoked i, ClientSent (the (cl_ws c)) request]
    \<and> sv_log (handleStreamDataReceived now' r request s) = sv_log s @ [Dispatched r i (p @ ''Request'') d]
    \<and> sv_log (handlerDone r i (p @ ''Response'') outcome (handleStreamDataReceived now' r request s))
        = sv_log s @ [Dispatched r i (p @ ''Request'') d, Sent r reply]
    \<and> cl_log (handleMessage (Some reply) now'' (client_invoke p d i now ms True c))
        = cl_log c @ [ClientInvoked i, ClientSent (the (cl_ws c)) request, ClientSettled i (outcome_seen outcome)]"
proof -
  define q where "q = \<lparr>qr_exp = now + ms, qr_resultType = p @ ''Response''\<rparr>"
  define c1 where "c1 = client_invoke p d i now ms True c"
  have "can_send ((cemit [ClientInvoked i] c)\<lparr>cl_requestQueue := x, cl_requestTimers := y\<rparr>)" for x y
    using assms(1) by (simp add: can_send_def csock_def cemit_def split: option.splits)
  then have c1: "cl_log c1 = cl_log c @ [ClientInvoked i, ClientSent (the (cl_ws c)) (request_message p d i)]" "jget (cl_requestQueue c1) i = Some q"
    by (simp_all add: c1_def client_invoke_def Let_def writeMessage_def q_def) (simp_all add: cemit_def)
  have out: "reply_outcome q (reply_of i (p @ ''Response'') outcome) = outcome_seen outcome"
    using assms(6,7) by (cases outcome) (auto simp: reply_outcome_def reply_of_def reply_message_def empty_message_def q_def truthy_str_def)
  have "cl_log (handleMessage (Some (reply_of i (p @ ''Response'') outcome)) now'' c1) = cl_log c1 @ [ClientSettled i (outcome_seen outcome)]"
    using assms(2) by (simp add: handleMessage_def handleReply_def c1(2) settle_def cemit_def out)
  then show ?thesis
    using c1(1) server_accepts_request [OF assms(3,4,2,5), of now' d] unfolding c1_def
    by (intro exI [of _ "request_message p d i"] exI [of _ "reply_of i (p @ ''Response'') outcome"]) (simp add: handlerDone_reply emit_def)
qed

definition connected_events :: "client_event list" where
  "connected_events = [CallConnect 0 ''s1'' False, SocketIsOpen 0, SocketMessage 0 1 (Some ping_message)]"

definition opened_server :: srpc_server where
  "opened_server = server_run (registerMessageHandler ''uEcho'' [])
     [Connect 0 ''s1'' \<lparr>si_clientStreamId = ''x'', si_clientId = ''a'', si_appVersion = ''1'', si_configureTs = None,
        si_protocolVersion = Some 2, si_supersede = False, si_address = ''::1'', si_meta = []\<rparr>,
      CheckDone 0 (Inr False), ConnectedDone 0 True, ActivatedDone 1 0 True]"

lemma opened_server_ready:
  "ss_isActivated (sobj opened_server 0)" "0 \<notin> set (sv_blockedClientRequests opened_server)"
  "jget (sv_streamMessageHandlers opened_server) (''uEcho'' @ ''Request'') = Some (''uEcho'' @ ''Response'')"
  by code_simp+

lemma connected_client_ready: "can_send (demo_run connected_events)"
  by code_simp

theorem request_roundtrip_witness:
  "\<exists>reply. cl_log (handleMessage (Some reply) 9 (client_invoke ''uEcho'' ''hi'' ''q'' 2 30 True (demo_run connected_events)))
     = cl_log (demo_run connected_events)
       @ [ClientInvoked ''q'', ClientSent (the (cl_ws (demo_run connected_events))) (request_message ''uEcho'' ''hi'' ''q''), ClientSettled ''q'' (Rejected ''no'')]"
proof -
  have "can_send ((cemit [ClientInvoked ''q''] c)\<lparr>cl_requestQueue := x, cl_requestTimers := y\<rparr>) = can_send c" for c x y
    by (simp add: can_send_def csock_def cemit_def split: option.split)
  then have sent: "cl_log (client_invoke ''uEcho'' ''hi'' ''q'' 2 30 True (demo_run connected_events)) = cl_log (demo_run connected_events)
      @ [ClientInvoked ''q'', ClientSent (the (cl_ws (demo_run connected_events))) (request_message ''uEcho'' ''hi'' ''q'')]"
    using connected_client_ready by (simp add: client_invoke_def Let_def writeMessage_def del: run_events_simps) (simp add: cemit_def del: run_events_simps)
  have "\<exists>request reply.
      cl_log (client_invoke ''uEcho'' ''hi'' ''q'' 2 30 True (demo_run connected_events)) = cl_log (demo_run connected_events) @ [ClientInvoked ''q'', ClientSent (the (cl_ws (demo_run connected_events))) request]
    \<and> cl_log (handleMessage (Some reply) 9 (client_invoke ''uEcho'' ''hi'' ''q'' 2 30 True (demo_run connected_events)))
        = cl_log (demo_run connected_events) @ [ClientInvoked ''q'', ClientSent (the (cl_ws (demo_run connected_events))) request, ClientSettled ''q'' (Rejected ''no'')]"
    using request_roundtrip [OF connected_client_ready _ opened_server_ready, of "''q''" "HandlerUserError ''no''" "''hi''" 2 30 5 9] by auto
  with sent show ?thesis by auto
qed

text \<open>C26. The other direction: what the server's \<open>invoke\<close> sends is dispatched by the client to the handler of its
  kind; if that handler succeeds, the client's reply settles the server's invocation with its result, and if
  it fails, the client sends nothing and the invocation stays open.\<close>

theorem server_request_roundtrip:
  assumes "can_send c" "i \<noteq> []" "r < length (sv_objs s)"
    and "jget (cl_streamMessageHandlers c) (p @ ''Request'') = Some (p @ ''Response'')"
  shows "\<exists>request reply.
      sv_log (invoke r p d i now ms s) = sv_log s @ [Invoked r i, Sent r request]
    \<and> cl_log (handleMessage (Some request) now' c) = cl_log c @ [ClientDispatched i (p @ ''Request'') d]
    \<and> cl_log (clientHandlerDone i (p @ ''Response'') (HandlerResult v) (handleMessage (Some request) now' c))
        = cl_log c @ [ClientDispatched i (p @ ''Request'') d, ClientSent (the (cl_ws c)) reply]
    \<and> sv_log (handleStreamDataReceived now'' r reply (invoke r p d i now ms s))
        = sv_log s @ [Invoked r i, Sent r request, Settled r i (Resolved v)]
    \<and> cl_log (clientHandlerDone i (p @ ''Response'') (HandlerError e) (handleMessage (Some request) now' c))
        = cl_log c @ [ClientDispatched i (p @ ''Request'') d, HandlerRejectionUnhandled i]"
proof -
  define c1 where "c1 = handleMessage (Some (request_message p d i)) now' c"
  note c1 = client_accepts_request [OF assms(2,4), of d now', folded c1_def]
  have send: "can_send (c1\<lparr>cl_running := ru\<rparr>)" "cl_ws (c1\<lparr>cl_running := ru\<rparr>) = cl_ws c" for ru
    using assms(1) by (simp_all add: c1 can_send_def csock_def cemit_def split: option.splits)
  have answered: "cl_log (clientHandlerDone i (p @ ''Response'') (HandlerResult v) c1)
      = cl_log c @ [ClientDispatched i (p @ ''Request'') d, ClientSent (the (cl_ws c)) (reply_of i (p @ ''Response'') (HandlerResult v))]"
    using send by (simp add: clientHandlerDone_def Let_def writeMessage_def reply_of_def cemit_def) (simp add: c1 cemit_def)
  have failed: "cl_log (clientHandlerDone i (p @ ''Response'') (HandlerError e) c1)
      = cl_log c @ [ClientDispatched i (p @ ''Request'') d, HandlerRejectionUnhandled i]"
    by (simp add: clientHandlerDone_def Let_def cemit_def c1)
  define s1 where "s1 = invoke r p d i now ms s"
  have s1: "sv_log s1 = sv_log s @ [Invoked r i, Sent r (request_message p d i)]"
    "jget (ss_queue (sobj s1 r)) i = Some \<lparr>qr_exp = now + ms, qr_resultType = p @ ''Response''\<rparr>"
    using assms(3) by (simp_all add: s1_def invoke_def writeToStream_def request_message_def)
  have "sv_log (handleStreamDataReceived now'' r (reply_of i (p @ ''Response'') (HandlerResult v)) s1) = sv_log s1 @ [Settled r i (Resolved v)]"
    using assms(2) s1(2)
    by (simp add: handleStreamDataReceived_def Let_def invocation_outcome_of_def) (simp add: reply_of_def reply_message_def empty_message_def)
  with s1(1) show ?thesis
    using answered failed unfolding c1_def s1_def
    by (intro exI [of _ "request_message p d i"] exI [of _ "reply_of i (p @ ''Response'') (HandlerResult v)"])
      (simp add: c1 [unfolded c1_def] cemit_def)
qed

theorem server_request_roundtrip_witness:
  "\<exists>request reply. sv_log (handleStreamDataReceived 9 0 reply (invoke 0 ''dNotify'' ''hi'' ''q'' 2 30 opened_server))
     = sv_log opened_server @ [Invoked 0 ''q'', Sent 0 request, Settled 0 ''q'' (Resolved ''ok'')]"
proof -
  let ?c = "client_run (\<lambda>key text. ''sig'') demo_client True (registerMessageHandler ''dNotify'' []) connected_events"
  have "can_send ?c" "jget (cl_streamMessageHandlers ?c) (''dNotify'' @ ''Request'') = Some (''dNotify'' @ ''Response'')"
    "0 < length (sv_objs opened_server)" by code_simp+
  from server_request_roundtrip [OF this(1) _ this(3,2), of "''q''" "''hi''" 2 30 5 "''ok''" 9 "[]"] show ?thesis by auto
qed

section \<open>Where the code is too trusting\<close>

text \<open>The connect timer of a socket that a newer \<open>connect()\<close> replaced is never cleared, since the close of that
  socket is ignored: ten seconds later it queues a reconnection, which closes the healthy connection.\<close>

definition replaced_events :: "client_event list" where
  "replaced_events = [CallConnect 0 ''s1'' False, CallConnect 5 ''s2'' False, SocketIsClosed 0 1006, SocketIsOpen 1,
     SocketMessage 1 6 (Some ping_message), ConnectTimer 0]"

lemma stale_connect_timer_closes_connection:
  "cl_isConnected (demo_run replaced_events) \<and> cl_reconnectTimers (demo_run replaced_events) = [1]
   \<and> SocketClose 1 1005 [] \<in> set (cl_log (client_step (\<lambda>key text. ''sig'') (demo_run replaced_events) (ReconnectTimer 1 11 ''s3'')))"
  by code_simp

text \<open>A \<open>connect()\<close> while connected forgets the ping interval, which then runs forever.\<close>

lemma reconnect_leaks_ping_interval:
  "let s = demo_run (connected_events @ [CallConnect 5 ''s2'' False, SocketIsOpen 1, SocketMessage 1 6 (Some ping_message), SocketIsClosed 1 1000])
   in cl_pingInterval s = None \<and> cl_pingIntervals s = [0]"
  by code_simp

text \<open>Two connect timers that expire within a second leave a reconnection the client has forgotten, and it
  connects again after \<open>disconnect()\<close>.\<close>

lemma forgotten_reconnection_survives_disconnect:
  "let s = demo_run [CallConnect 0 ''s1'' False, CallConnect 5 ''s2'' False, ConnectTimer 0, ConnectTimer 1, CallDisconnect]
   in \<not> cl_enableReconnect s \<and> length (cl_socks s) = 2
    \<and> length (cl_socks (client_step (\<lambda>key text. ''sig'') s (ReconnectTimer 0 11 ''s3''))) = 3"
  by code_simp

end
