(* ===== verification/RedisLock.thy ===== *)
theory RedisLock
  imports Prelude
begin

text \<open>
  The lock that \<open>src/src/helpers/redis/mutex.ts\<close> and \<open>src/src/services/leader.ts\<close> keep in Redis: one key with
  the id of its holder and an expiry, changed only by the three Lua scripts \<open>ACQUIRE\<close>, \<open>RENEW\<close> and
  \<open>RELEASE\<close>, which Redis runs one at a time.  Times are milliseconds of the Redis clock; lock ids (\<open>uuid()\<close>)
  are numbers.  Both files carry the same scripts.
\<close>

section \<open>The scripts\<close>

record redis_lock =
  rk_value :: nat
  rk_expires :: nat

type_synonym redis_key = "redis_lock option"

text \<open>A key whose expiry has come does not exist.\<close>

definition redis_live :: "nat \<Rightarrow> redis_key \<Rightarrow> redis_key" where
  "redis_live now k = (case k of Some l \<Rightarrow> if now < rk_expires l then Some l else None | None \<Rightarrow> None)"

definition redis_get :: "nat \<Rightarrow> redis_key \<Rightarrow> nat option" where
  "redis_get now k = map_option rk_value (redis_live now k)"

definition ACQUIRE :: "nat \<Rightarrow> nat \<Rightarrow> nat \<Rightarrow> redis_key \<Rightarrow> int \<times> redis_key" where
  "ACQUIRE now v ttl k =
     (if redis_live now k \<noteq> None then (0, k) else (1, Some \<lparr>rk_value = v, rk_expires = now + ttl\<rparr>))"

definition RENEW :: "nat \<Rightarrow> nat \<Rightarrow> nat \<Rightarrow> redis_key \<Rightarrow> int \<times> redis_key" where
  "RENEW now v ttl k =
     (if redis_get now k \<noteq> Some v then (0, k) else (1, map_option (\<lambda>l. l\<lparr>rk_expires := now + ttl\<rparr>) k))"

definition RELEASE :: "nat \<Rightarrow> nat \<Rightarrow> redis_key \<Rightarrow> int \<times> redis_key" where
  "RELEASE now v k = (if redis_get now k \<noteq> Some v then (0, k) else (1, None))"

datatype lock_command = Acquire | Renew | Release

definition exec_command :: "nat \<Rightarrow> nat \<Rightarrow> lock_command \<Rightarrow> nat \<Rightarrow> redis_key \<Rightarrow> int \<times> redis_key" where
  "exec_command ttl now c v k = (case c of Acquire \<Rightarrow> ACQUIRE now v ttl k | Renew \<Rightarrow> RENEW now v ttl k | Release \<Rightarrow> RELEASE now v k)"

section \<open>Leases\<close>

text \<open>What the executed commands grant: the last successful \<open>ACQUIRE\<close> or \<open>RENEW\<close> of an id fixes until when its
  lease runs, a successful \<open>RELEASE\<close> ends it.\<close>

type_synonym lock_log = "(nat \<times> lock_command \<times> nat \<times> int) list"

definition lease_step :: "nat \<Rightarrow> nat \<times> lock_command \<times> nat \<times> int \<Rightarrow> (nat \<Rightarrow> nat option) \<Rightarrow> nat \<Rightarrow> nat option" where
  "lease_step ttl e L = (case e of (t, c, v, r) \<Rightarrow>
     if r \<noteq> 1 then L else L(v := (case c of Release \<Rightarrow> None | _ \<Rightarrow> Some (t + ttl))))"

definition lease :: "nat \<Rightarrow> lock_log \<Rightarrow> nat \<Rightarrow> nat option" where
  "lease ttl log = fold (lease_step ttl) log (\<lambda>_. None)"

definition holds_lease :: "nat \<Rightarrow> lock_log \<Rightarrow> nat \<Rightarrow> nat \<Rightarrow> bool" where
  "holds_lease ttl log now v \<longleftrightarrow> (case lease ttl log v of Some e \<Rightarrow> now < e | None \<Rightarrow> False)"

lemma lease_snoc: "lease ttl (log @ [e]) = lease_step ttl e (lease ttl log)"
  by (simp add: lease_def)

lemma lease_Nil [simp]: "lease ttl [] v = None"
  by (simp add: lease_def)

section \<open>The contract of a lock with leases\<close>

text \<open>What a client of such a lock relies on: who holds it and until when, that only a free lock is acquired,
  that only the holder renews or releases, and that time alone ends a lease.\<close>

locale lease_lock =
  fixes ttl :: nat
    and exec :: "nat \<Rightarrow> lock_command \<Rightarrow> nat \<Rightarrow> 'k \<Rightarrow> int \<times> 'k"
    and holder :: "nat \<Rightarrow> 'k \<Rightarrow> (nat \<times> nat) option"
  assumes refused: "exec t c v k = (r, k') \<Longrightarrow> r \<noteq> 1 \<Longrightarrow> k' = k"
    and acquired: "exec t Acquire v k = (1, k') \<Longrightarrow> holder t k = None \<and> (\<forall>t'\<ge>t. holder t' k' = (if t' < t + ttl then Some (v, t + ttl) else None))"
    and renewed: "exec t Renew v k = (1, k') \<Longrightarrow> (\<exists>e. holder t k = Some (v, e)) \<and> (\<forall>t'\<ge>t. holder t' k' = (if t' < t + ttl then Some (v, t + ttl) else None))"
    and released: "exec t Release v k = (1, k') \<Longrightarrow> (\<exists>e. holder t k = Some (v, e)) \<and> (\<forall>t'. holder t' k' = None)"
    and expires: "t \<le> t' \<Longrightarrow> holder t' k = (case holder t k of Some (v, e) \<Rightarrow> if t' < e then Some (v, e) else None | None \<Rightarrow> None)"
begin

definition leases_ok :: "nat \<Rightarrow> 'k \<Rightarrow> lock_log \<Rightarrow> bool" where
  "leases_ok t k log \<longleftrightarrow> (\<forall>v e. lease ttl log v = Some e \<and> t < e \<longrightarrow> holder t k = Some (v, e))"

lemma leases_okD: "leases_ok t k log \<Longrightarrow> lease ttl log v = Some e \<Longrightarrow> t < e \<Longrightarrow> holder t k = Some (v, e)"
  by (simp add: leases_ok_def)

lemma leases_start: "leases_ok t k []"
  by (simp add: leases_ok_def)

lemma leases_wait:
  assumes "leases_ok t k log" "t \<le> t'"
  shows "leases_ok t' k log"
  unfolding leases_ok_def
proof (intro allI impI)
  fix v e assume "lease ttl log v = Some e \<and> t' < e"
  with leases_okD [OF assms(1), of v e] assms(2) show "holder t' k = Some (v, e)" using expires [OF assms(2), of k] by simp
qed

lemma leases_exec:
  assumes ok: "leases_ok t k log" and ex: "exec t c v k = (r, k')"
  shows "leases_ok t k' (log @ [(t, c, v, r)])"
proof (cases "r = 1")
  case False
  then show ?thesis using refused [OF ex] ok by (simp add: leases_ok_def lease_snoc lease_step_def)
next
  case True
  note ex1 = ex [unfolded True]
  show ?thesis
    unfolding leases_ok_def
  proof (intro allI impI)
    fix w e
    assume a: "lease ttl (log @ [(t, c, v, r)]) w = Some e \<and> t < e"
    have other: "w \<noteq> v \<Longrightarrow> holder t k = Some (w, e)"
      using a leases_okD [OF ok, of w e] True by (simp add: lease_snoc lease_step_def split: lock_command.splits)
    show "holder t k' = Some (w, e)"
    proof (cases c)
      case Acquire
      with acquired [of t v k k'] ex1 other a True show ?thesis by (cases "w = v") (simp_all add: lease_snoc lease_step_def)
    next
      case Renew
      with renewed [of t v k k'] ex1 other a True show ?thesis by (cases "w = v") (auto simp: lease_snoc lease_step_def)
    next
      case Release
      with released [of t v k k'] ex1 other a True show ?thesis by (cases "w = v") (auto simp: lease_snoc lease_step_def)
    qed
  qed
qed

text \<open>Two leases that both run belong to the same id.\<close>

lemma one_lease:
  assumes "leases_ok t k log" "holds_lease ttl log t v" "holds_lease ttl log t w"
  shows "v = w"
proof -
  have "\<exists>e. holder t k = Some (x, e)" if "holds_lease ttl log t x" for x
    using that leases_okD [OF assms(1), of x] by (cases "lease ttl log x") (auto simp: holds_lease_def)
  then obtain e e' where "holder t k = Some (v, e)" "holder t k = Some (w, e')" using assms(2,3) by blast
  then show ?thesis by simp
qed

end

definition lock_holder :: "nat \<Rightarrow> redis_key \<Rightarrow> (nat \<times> nat) option" where
  "lock_holder now k = map_option (\<lambda>l. (rk_value l, rk_expires l)) (redis_live now k)"

interpretation redis: lease_lock ttl "exec_command ttl" lock_holder
proof unfold_locales
  fix t c v k r k'
  assume "exec_command ttl t c v k = (r, k')" "r \<noteq> 1"
  then show "k' = k" by (auto simp: exec_command_def ACQUIRE_def RENEW_def RELEASE_def split: lock_command.splits if_splits)
next
  fix t v k k'
  assume "exec_command ttl t Acquire v k = (1, k')"
  then show "lock_holder t k = None \<and> (\<forall>t'\<ge>t. lock_holder t' k' = (if t' < t + ttl then Some (v, t + ttl) else None))"
    by (auto simp: exec_command_def ACQUIRE_def lock_holder_def redis_live_def split: if_splits)
next
  fix t v k k'
  assume "exec_command ttl t Renew v k = (1, k')"
  then show "(\<exists>e. lock_holder t k = Some (v, e)) \<and> (\<forall>t'\<ge>t. lock_holder t' k' = (if t' < t + ttl then Some (v, t + ttl) else None))"
    by (cases k) (auto simp: exec_command_def RENEW_def redis_get_def lock_holder_def redis_live_def split: if_splits)
next
  fix t v k k'
  assume "exec_command ttl t Release v k = (1, k')"
  then show "(\<exists>e. lock_holder t k = Some (v, e)) \<and> (\<forall>t'. lock_holder t' k' = None)"
    by (cases k) (auto simp: exec_command_def RELEASE_def redis_get_def lock_holder_def redis_live_def split: if_splits)
next
  fix t t' k
  assume "t \<le> (t' :: nat)"
  then show "lock_holder t' k = (case lock_holder t k of Some (v, e) \<Rightarrow> if t' < e then Some (v, e) else None | None \<Rightarrow> None)"
    by (cases k) (auto simp: lock_holder_def redis_live_def)
qed

end
