(* ===== verification/LeaderElection.thy ===== *)
theory LeaderElection
  imports RedisLock
begin

text \<open>
  Leader election, \<open>src/src/services/leader.ts\<close>: any number of services compete for one Redis lock.

  A call to Redis is in flight from the moment the service makes it: \<open>RedisExec\<close> lets Redis run the script,
  \<open>Reply\<close> lets the answer (or an error) arrive and the code after the \<open>await\<close> run.  Timers and intervals are
  named by handles; those in \<open>ls_timeouts\<close> and \<open>ls_intervals\<close> are armed.  The user's callbacks are outputs.
  \<open>el_log\<close> is what Redis executed, with its clock.
\<close>

section \<open>State\<close>

datatype leader_call = AcquireCall | RenewCall | StopRelease | LateRelease

record leader_op =
  lo_call :: leader_call
  lo_value :: nat
  lo_result :: "int option"

record leader_service =
  ls_lockId :: nat
  ls_isLeader :: bool
  ls_running :: bool
  ls_renewTimer :: "nat option"
  ls_retryTimer :: "nat option"
  ls_intervals :: "nat list"
  ls_timeouts :: "nat list"
  ls_handles :: nat
  ls_ops :: "leader_op list"

datatype leader_output = Started nat | StartThrew nat | BecameLeader nat | LostLeader nat

record election =
  el_services :: "leader_service list"
  el_ttlMs :: nat
  el_key :: redis_key
  el_now :: nat
  el_uuids :: nat
  el_log :: lock_log
  el_out :: "leader_output list"

definition new_service :: "nat \<Rightarrow> leader_service" where
  "new_service lockId = \<lparr>ls_lockId = lockId, ls_isLeader = False, ls_running = False, ls_renewTimer = None, ls_retryTimer = None,
     ls_intervals = [], ls_timeouts = [], ls_handles = 0, ls_ops = []\<rparr>"

definition new_election :: "nat \<Rightarrow> nat \<Rightarrow> election" where
  "new_election ttlMs n = \<lparr>el_services = map new_service [0..<n], el_ttlMs = ttlMs, el_key = None, el_now = 0, el_uuids = n, el_log = [], el_out = []\<rparr>"

definition svc :: "election \<Rightarrow> nat \<Rightarrow> leader_service" where
  "svc s i = el_services s ! i"

definition svupd :: "nat \<Rightarrow> (leader_service \<Rightarrow> leader_service) \<Rightarrow> election \<Rightarrow> election" where
  "svupd i f s = s\<lparr>el_services := (el_services s)[i := f (el_services s ! i)]\<rparr>"

definition tell :: "leader_output \<Rightarrow> election \<Rightarrow> election" where
  "tell out s = s\<lparr>el_out := el_out s @ [out]\<rparr>"

section \<open>Operations\<close>

definition call_redis :: "leader_call \<Rightarrow> leader_service \<Rightarrow> leader_service" where
  "call_redis c v = v\<lparr>ls_ops := ls_ops v @ [\<lparr>lo_call = c, lo_value = ls_lockId v, lo_result = None\<rparr>]\<rparr>"

definition tryAcquire :: "leader_service \<Rightarrow> leader_service" where
  "tryAcquire v = (if \<not> ls_running v then v else call_redis AcquireCall v)"

definition setRetryTimer :: "leader_service \<Rightarrow> leader_service" where
  "setRetryTimer v = v\<lparr>ls_retryTimer := Some (ls_handles v), ls_timeouts := ls_timeouts v @ [ls_handles v], ls_handles := Suc (ls_handles v)\<rparr>"

definition startRenewal :: "leader_service \<Rightarrow> leader_service" where
  "startRenewal v = v\<lparr>ls_renewTimer := Some (ls_handles v), ls_intervals := ls_intervals v @ [ls_handles v], ls_handles := Suc (ls_handles v)\<rparr>"

definition clearRenewTimer :: "leader_service \<Rightarrow> leader_service" where
  "clearRenewTimer v = (case ls_renewTimer v of
     Some h \<Rightarrow> v\<lparr>ls_intervals := filter (\<lambda>x. x \<noteq> h) (ls_intervals v), ls_renewTimer := None\<rparr> | None \<Rightarrow> v)"

definition clearRetryTimer :: "leader_service \<Rightarrow> leader_service" where
  "clearRetryTimer v = (case ls_retryTimer v of
     Some h \<Rightarrow> v\<lparr>ls_timeouts := filter (\<lambda>x. x \<noteq> h) (ls_timeouts v), ls_retryTimer := None\<rparr> | None \<Rightarrow> v)"

definition start :: "nat \<Rightarrow> election \<Rightarrow> election" where
  "start i s =
     (if ls_running (svc s i) then tell (StartThrew i) s
      else tell (Started i) (svupd i (\<lambda>v. tryAcquire (v\<lparr>ls_running := True\<rparr>)) s))"

definition stop :: "leader_service \<Rightarrow> leader_service" where
  "stop v =
     (let w = clearRetryTimer (clearRenewTimer (v\<lparr>ls_running := False\<rparr>))
      in if ls_isLeader w then call_redis StopRelease w else w)"

text \<open>After the \<open>await\<close>s; \<open>None\<close> is a rejected promise.\<close>

definition stopReleased :: "leader_service \<Rightarrow> leader_service" where
  "stopReleased v = v\<lparr>ls_isLeader := False\<rparr>"

definition acquireAnswered :: "nat \<Rightarrow> int option \<Rightarrow> election \<Rightarrow> election" where
  "acquireAnswered i r s =
     (if r = Some 1
      then if \<not> ls_running (svc s i) then svupd i (call_redis LateRelease) s
           else tell (BecameLeader i) (svupd i (\<lambda>v. startRenewal (v\<lparr>ls_isLeader := True\<rparr>)) s)
      else if ls_running (svc s i) then svupd i setRetryTimer s else s)"

definition handleLostLeadership :: "nat \<Rightarrow> election \<Rightarrow> election" where
  "handleLostLeadership i s =
     (if \<not> ls_isLeader (svc s i) then s
      else (tell (LostLeader i)
             (svupd i (\<lambda>v. let w = (clearRenewTimer (v\<lparr>ls_isLeader := False\<rparr>))\<lparr>ls_lockId := el_uuids s\<rparr>
                           in if ls_running w then setRetryTimer w else w) s))\<lparr>el_uuids := Suc (el_uuids s)\<rparr>)"

definition renewAnswered :: "nat \<Rightarrow> int option \<Rightarrow> election \<Rightarrow> election" where
  "renewAnswered i r s = (case r of Some x \<Rightarrow> if x = 0 then handleLostLeadership i s else s | None \<Rightarrow> handleLostLeadership i s)"

definition renewTick :: "leader_service \<Rightarrow> leader_service" where
  "renewTick v = (if \<not> ls_running v then v else call_redis RenewCall v)"

definition call_command :: "leader_call \<Rightarrow> lock_command" where
  "call_command c = (case c of AcquireCall \<Rightarrow> Acquire | RenewCall \<Rightarrow> Renew | StopRelease \<Rightarrow> Release | LateRelease \<Rightarrow> Release)"

definition redis_exec :: "nat \<Rightarrow> nat \<Rightarrow> election \<Rightarrow> election" where
  "redis_exec i k s =
     (let op = ls_ops (svc s i) ! k; c = call_command (lo_call op);
          (r, key) = exec_command (el_ttlMs s) (el_now s) c (lo_value op) (el_key s)
      in (svupd i (\<lambda>v. v\<lparr>ls_ops := (ls_ops v)[k := op\<lparr>lo_result := Some r\<rparr>]\<rparr>) s)
           \<lparr>el_key := key, el_log := el_log s @ [(el_now s, c, lo_value op, r)]\<rparr>)"

definition remove_at :: "nat \<Rightarrow> 'a list \<Rightarrow> 'a list" where
  "remove_at k xs = take k xs @ drop (Suc k) xs"

definition reply :: "nat \<Rightarrow> nat \<Rightarrow> bool \<Rightarrow> election \<Rightarrow> election" where
  "reply i k arrives s =
     (let op = ls_ops (svc s i) ! k; r = (if arrives then lo_result op else None);
          t = svupd i (\<lambda>v. v\<lparr>ls_ops := remove_at k (ls_ops v)\<rparr>) s
      in case lo_call op of
           AcquireCall \<Rightarrow> acquireAnswered i r t
         | RenewCall \<Rightarrow> renewAnswered i r t
         | StopRelease \<Rightarrow> svupd i stopReleased t
         | LateRelease \<Rightarrow> t)"

section \<open>Events\<close>

text \<open>A reply needs the result of its command; an error may come at any time.\<close>

datatype leader_event =
    Start nat
  | Stop nat
  | RetryTimer nat nat
  | RenewTimer nat nat
  | RedisExec nat nat
  | Reply nat nat bool
  | ClockTick nat

definition in_flight :: "election \<Rightarrow> nat \<Rightarrow> nat \<Rightarrow> bool" where
  "in_flight s i k \<longleftrightarrow> i < length (el_services s) \<and> k < length (ls_ops (svc s i))"

fun leader_step :: "election \<Rightarrow> leader_event \<Rightarrow> election" where
  "leader_step s (Start i) = (if i < length (el_services s) then start i s else s)"
| "leader_step s (Stop i) = (if i < length (el_services s) then svupd i stop s else s)"
| "leader_step s (RetryTimer i h) =
     (if i < length (el_services s) \<and> h \<in> set (ls_timeouts (svc s i))
      then svupd i (\<lambda>v. tryAcquire (v\<lparr>ls_timeouts := filter (\<lambda>x. x \<noteq> h) (ls_timeouts v)\<rparr>)) s else s)"
| "leader_step s (RenewTimer i h) =
     (if i < length (el_services s) \<and> h \<in> set (ls_intervals (svc s i)) then svupd i renewTick s else s)"
| "leader_step s (RedisExec i k) =
     (if in_flight s i k \<and> lo_result (ls_ops (svc s i) ! k) = None then redis_exec i k s else s)"
| "leader_step s (Reply i k arrives) =
     (if in_flight s i k \<and> (arrives \<longrightarrow> lo_result (ls_ops (svc s i) ! k) \<noteq> None) then reply i k arrives s else s)"
| "leader_step s (ClockTick dt) = s\<lparr>el_now := el_now s + dt\<rparr>"

end
