(* ===== verification/LeaderCorrect.thy ===== *)
theory LeaderCorrect
  imports LeaderElection "HOL-Library.Multiset"
begin

text \<open>
  What \<open>src/src/services/leader.ts\<close> promises: never two services with a running lease, and an election that
  never stalls as long as no service is started a second time.
\<close>

section \<open>The store of services\<close>

lemma svupd_simps [simp]:
  "length (el_services (svupd i f s)) = length (el_services s)" "el_ttlMs (svupd i f s) = el_ttlMs s" "el_key (svupd i f s) = el_key s"
  "el_now (svupd i f s) = el_now s" "el_uuids (svupd i f s) = el_uuids s" "el_log (svupd i f s) = el_log s" "el_out (svupd i f s) = el_out s"
  by (simp_all add: svupd_def)

lemma svc_svupd [simp]: "i < length (el_services s) \<Longrightarrow> svc (svupd i f s) j = (if j = i then f (svc s i) else svc s j)"
  by (simp add: svc_def svupd_def)

lemma tell_simps [simp]:
  "el_services (tell x s) = el_services s" "svc (tell x s) = svc s" "el_ttlMs (tell x s) = el_ttlMs s" "el_key (tell x s) = el_key s"
  "el_now (tell x s) = el_now s" "el_uuids (tell x s) = el_uuids s" "el_log (tell x s) = el_log s" "el_out (tell x s) = el_out s @ [x]"
  by (simp_all add: tell_def svc_def [abs_def])

lemma svc_updates [simp]:
  "svc (s\<lparr>el_key := k\<rparr>) = svc s" "svc (s\<lparr>el_now := t\<rparr>) = svc s" "svc (s\<lparr>el_uuids := n\<rparr>) = svc s" "svc (s\<lparr>el_log := l\<rparr>) = svc s"
  by (simp_all add: svc_def [abs_def])

lemma service_simps [simp]:
  "ls_lockId (call_redis c v) = ls_lockId v" "ls_lockId (tryAcquire v) = ls_lockId v" "ls_lockId (setRetryTimer v) = ls_lockId v"
  "ls_lockId (startRenewal v) = ls_lockId v" "ls_lockId (clearRenewTimer v) = ls_lockId v" "ls_lockId (clearRetryTimer v) = ls_lockId v"
  "ls_lockId (stop v) = ls_lockId v" "ls_lockId (stopReleased v) = ls_lockId v" "ls_lockId (renewTick v) = ls_lockId v"
  by (simp_all add: call_redis_def tryAcquire_def setRetryTimer_def startRenewal_def clearRenewTimer_def clearRetryTimer_def stop_def
      stopReleased_def renewTick_def Let_def split: option.split)

section \<open>One lease\<close>

definition key_ok :: "election \<Rightarrow> bool" where
  "key_ok s \<longleftrightarrow> lease_lock.leases_ok (el_ttlMs s) lock_holder (el_now s) (el_key s) (el_log s)"

definition lockIds_ok :: "election \<Rightarrow> bool" where
  "lockIds_ok s \<longleftrightarrow> (\<forall>i<length (el_services s). ls_lockId (svc s i) < el_uuids s)
     \<and> (\<forall>i<length (el_services s). \<forall>j<length (el_services s). ls_lockId (svc s i) = ls_lockId (svc s j) \<longrightarrow> i = j)"

definition election_ok :: "election \<Rightarrow> bool" where
  "election_ok s \<longleftrightarrow> key_ok s \<and> lockIds_ok s"

lemma election_ok_same:
  assumes "election_ok s" "el_ttlMs t = el_ttlMs s" "el_now t = el_now s" "el_key t = el_key s" "el_log t = el_log s" "el_uuids t = el_uuids s"
    and "length (el_services t) = length (el_services s)" "\<And>j. ls_lockId (svc t j) = ls_lockId (svc s j)"
  shows "election_ok t"
  using assms by (simp add: election_ok_def key_ok_def lockIds_ok_def)

lemma election_ok_svupd:
  assumes "election_ok s" "i < length (el_services s)" "ls_lockId (f (svc s i)) = ls_lockId (svc s i)"
  shows "election_ok (svupd i f s)"
  by (rule election_ok_same [OF assms(1)]) (use assms in auto)

lemma election_ok_tell: "election_ok s \<Longrightarrow> election_ok (tell x s)"
  by (erule election_ok_same) simp_all

lemma election_ok_lost:
  assumes "election_ok s" "i < length (el_services s)"
  shows "election_ok (handleLostLeadership i s)"
proof (cases "ls_isLeader (svc s i)")
  case True
  define t where "t = handleLostLeadership i s"
  have t: "el_ttlMs t = el_ttlMs s" "el_now t = el_now s" "el_key t = el_key s" "el_log t = el_log s" "el_uuids t = Suc (el_uuids s)"
    "length (el_services t) = length (el_services s)" "\<And>j. ls_lockId (svc t j) = (if j = i then el_uuids s else ls_lockId (svc s j))"
    using True assms(2) by (simp_all add: t_def handleLostLeadership_def Let_def)
  have "lockIds_ok t"
    using assms unfolding election_ok_def lockIds_ok_def t(5-7) by (auto simp: less_Suc_eq)
  then show ?thesis using assms(1) t(1-4) unfolding t_def [symmetric] election_ok_def key_ok_def by simp
qed (use assms in \<open>simp add: handleLostLeadership_def\<close>)

lemma election_ok_exec:
  assumes ok: "election_ok s" and i: "i < length (el_services s)"
  shows "election_ok (redis_exec i k s)"
proof -
  define op where "op = ls_ops (svc s i) ! k"
  obtain r key where ex: "exec_command (el_ttlMs s) (el_now s) (call_command (lo_call op)) (lo_value op) (el_key s) = (r, key)" by force
  define t where "t = svupd i (\<lambda>v. v\<lparr>ls_ops := (ls_ops v)[k := op\<lparr>lo_result := Some r\<rparr>]\<rparr>) s"
  have e: "redis_exec i k s = t\<lparr>el_key := key, el_log := el_log s @ [(el_now s, call_command (lo_call op), lo_value op, r)]\<rparr>"
    using ex by (simp add: redis_exec_def op_def [symmetric] Let_def t_def)
  have "election_ok t" unfolding t_def by (rule election_ok_svupd [OF ok i]) simp
  then have ids: "lockIds_ok t" and k: "key_ok t" by (simp_all add: election_ok_def)
  have "key_ok (redis_exec i k s)"
    using k redis.leases_exec [OF _ ex, of "el_log s"] by (simp add: key_ok_def e) (simp add: t_def)
  then show ?thesis using ids by (simp add: election_ok_def e lockIds_ok_def)
qed

lemma election_ok_reply:
  assumes ok: "election_ok s" and i: "i < length (el_services s)"
  shows "election_ok (reply i k b s)"
proof -
  define t where "t = svupd i (\<lambda>v. v\<lparr>ls_ops := remove_at k (ls_ops v)\<rparr>) s"
  have t: "election_ok t" unfolding t_def by (rule election_ok_svupd [OF ok i]) simp
  have len: "i < length (el_services t)" using i by (simp add: t_def)
  have up: "election_ok (svupd i f t)" if "\<And>v. ls_lockId (f v) = ls_lockId v" for f
    by (rule election_ok_svupd [OF t len]) (rule that)
  show ?thesis
    unfolding reply_def t_def [symmetric] Let_def acquireAnswered_def renewAnswered_def
    using t up election_ok_lost [OF t len] by (auto simp: election_ok_tell split: leader_call.split option.split)
qed

lemma election_ok_step: "election_ok s \<Longrightarrow> election_ok (leader_step s e)"
proof (cases e)
  case (ClockTick dt)
  assume ok: "election_ok s"
  have "lease_lock.leases_ok (el_ttlMs s) lock_holder (el_now s + dt) (el_key s) (el_log s)"
    by (rule redis.leases_wait [of "el_ttlMs s" "el_now s"]) (use ok in \<open>simp_all add: election_ok_def key_ok_def\<close>)
  with ok ClockTick show ?thesis by (simp add: election_ok_def key_ok_def lockIds_ok_def)
qed (simp_all add: start_def election_ok_tell election_ok_svupd election_ok_exec election_ok_reply in_flight_def)

lemma election_ok_new: "election_ok (new_election ttlMs n)"
  using redis.leases_start [of ttlMs 0 None]
  by (auto simp: election_ok_def key_ok_def lockIds_ok_def new_election_def svc_def new_service_def)

interpretation leader: event_system "new_election ttlMs n" leader_step election_ok
  by unfold_locales (fact election_ok_new, fact election_ok_step)

text \<open>C29. Never two leaders with a running lease: in every reachable state, whatever the services, the clock, the
  replies and the errors did, at most one service holds a lock id whose last successful \<open>ACQUIRE\<close> or
  \<open>RENEW\<close> has not expired and was not released, and Redis then has that id as the holder.\<close>

theorem one_leader_with_lease:
  "\<lbrakk>s = run_events leader_step (new_election ttlMs n) es; i < length (el_services s); j < length (el_services s);
    holds_lease (el_ttlMs s) (el_log s) (el_now s) (ls_lockId (svc s i))\<rbrakk> \<Longrightarrow>
   redis_get (el_now s) (el_key s) = Some (ls_lockId (svc s i))
   \<and> (holds_lease (el_ttlMs s) (el_log s) (el_now s) (ls_lockId (svc s j)) \<longleftrightarrow> j = i)"
proof -
  assume s: "s = run_events leader_step (new_election ttlMs n) es" and i: "i < length (el_services s)" and j: "j < length (el_services s)"
    and l: "holds_lease (el_ttlMs s) (el_log s) (el_now s) (ls_lockId (svc s i))"
  have ok: "election_ok s" unfolding s by (rule leader.reachable_holds)
  then have k: "lease_lock.leases_ok (el_ttlMs s) lock_holder (el_now s) (el_key s) (el_log s)" by (simp add: election_ok_def key_ok_def)
  obtain e where e: "lease (el_ttlMs s) (el_log s) (ls_lockId (svc s i)) = Some e" "el_now s < e"
    using l by (cases "lease (el_ttlMs s) (el_log s) (ls_lockId (svc s i))") (auto simp: holds_lease_def)
  have "lock_holder (el_now s) (el_key s) = Some (ls_lockId (svc s i), e)" by (rule redis.leases_okD [OF k e])
  then have "redis_get (el_now s) (el_key s) = Some (ls_lockId (svc s i))" by (auto simp: lock_holder_def redis_get_def)
  moreover have "j = i" if "holds_lease (el_ttlMs s) (el_log s) (el_now s) (ls_lockId (svc s j))"
  proof -
    have "ls_lockId (svc s j) = ls_lockId (svc s i)" by (rule redis.one_lease [OF k that l])
    then show ?thesis using ok i j by (auto simp: election_ok_def lockIds_ok_def)
  qed
  ultimately show ?thesis using l by blast
qed

text \<open>Two services: the first leads, its lease runs out unnoticed, and the second takes over.\<close>

definition takeover :: "leader_event list" where
  "takeover = [Start 0, RedisExec 0 0, Reply 0 0 True, ClockTick 31, Start 1, RedisExec 1 0, Reply 1 0 True]"

theorem one_leader_with_lease_witness:
  "let s = run_events leader_step (new_election 30 2) takeover in
     ls_isLeader (svc s 0) \<and> ls_isLeader (svc s 1) \<and> redis_get (el_now s) (el_key s) = Some (ls_lockId (svc s 1))
   \<and> \<not> holds_lease (el_ttlMs s) (el_log s) (el_now s) (ls_lockId (svc s 0))"
proof -
  let ?s = "run_events leader_step (new_election 30 2) takeover"
  have "1 < length (el_services ?s)" "0 < length (el_services ?s)"
    "holds_lease (el_ttlMs ?s) (el_log ?s) (el_now ?s) (ls_lockId (svc ?s 1))" "ls_isLeader (svc ?s 0)" "ls_isLeader (svc ?s 1)"
    by code_simp+
  with one_leader_with_lease [OF refl this(1-3)] show ?thesis unfolding Let_def by auto
qed

section \<open>The election does not stall\<close>

text \<open>The services as their owners use them: each is started once.\<close>

definition leader_step_once :: "election \<Rightarrow> leader_event \<Rightarrow> election" where
  "leader_step_once s e = (case e of Start i \<Rightarrow> if Started i \<in> set (el_out s) then s else leader_step s e | _ \<Rightarrow> leader_step s e)"

definition acquiring :: "leader_service \<Rightarrow> leader_op list" where
  "acquiring v = filter (\<lambda>op. lo_call op = AcquireCall) (ls_ops v)"

definition granted :: "lock_log \<Rightarrow> nat \<Rightarrow> bool" where
  "granted log v \<longleftrightarrow> (\<exists>t. (t, Acquire, v, 1) \<in> set log)"

text \<open>A running service leads and renews, or it waits for exactly one \<open>ACQUIRE\<close> or retry timer.\<close>

definition chain_ok :: "bool \<Rightarrow> lock_log \<Rightarrow> leader_service \<Rightarrow> bool" where
  "chain_ok started log v \<longleftrightarrow>
     (if ls_running v
      then started \<and> set (ls_timeouts v) \<subseteq> set_option (ls_retryTimer v) \<and> StopRelease \<notin> lo_call ` set (ls_ops v)
         \<and> (if ls_isLeader v
            then ls_timeouts v = [] \<and> acquiring v = [] \<and> (\<exists>h. ls_renewTimer v = Some h \<and> ls_intervals v = [h]) \<and> granted log (ls_lockId v)
            else ls_intervals v = [] \<and> ls_renewTimer v = None \<and> length (acquiring v) + length (ls_timeouts v) = 1
               \<and> (\<forall>op\<in>set (acquiring v). lo_value op = ls_lockId v \<and> (lo_result op = Some 1 \<longrightarrow> granted log (ls_lockId v))))
      else ls_intervals v = [] \<and> ls_timeouts v = [] \<and> ls_renewTimer v = None
         \<and> (\<not> started \<longrightarrow> ls_ops v = [] \<and> \<not> ls_isLeader v))"

definition chains_ok :: "election \<Rightarrow> bool" where
  "chains_ok s \<longleftrightarrow> (\<forall>i<length (el_services s). chain_ok (Started i \<in> set (el_out s)) (el_log s) (svc s i))"

lemma chain_log: "chain_ok b log v \<Longrightarrow> chain_ok b (log @ l) v"
  unfolding chain_ok_def granted_def by (auto split: if_splits)

lemma chains_okI:
  assumes "chains_ok s" "length (el_services t) = length (el_services s)" "\<And>j. Started j \<in> set (el_out s) \<Longrightarrow> Started j \<in> set (el_out t)"
    "\<And>j. j \<noteq> i \<Longrightarrow> svc t j = svc s j \<and> (Started j \<in> set (el_out t) \<longrightarrow> Started j \<in> set (el_out s))" "el_log t = el_log s @ l"
    and "i < length (el_services s) \<Longrightarrow> chain_ok (Started i \<in> set (el_out t)) (el_log t) (svc t i)"
  shows "chains_ok t"
  unfolding chains_ok_def
proof (intro allI impI)
  fix j assume j: "j < length (el_services t)"
  show "chain_ok (Started j \<in> set (el_out t)) (el_log t) (svc t j)"
  proof (cases "j = i")
    case True
    then show ?thesis using assms(2,6) j by simp
  next
    case False
    then have "chain_ok (Started j \<in> set (el_out s)) (el_log s) (svc s j)" using assms(1,2) j by (simp add: chains_ok_def)
    moreover have "(Started j \<in> set (el_out t)) = (Started j \<in> set (el_out s))" "svc t j = svc s j" using assms(3) [of j] assms(4) [OF False] by blast+
    ultimately show ?thesis using chain_log [of _ "el_log s" _ l] by (simp add: assms(5))
  qed
qed

lemma chain_start:
  assumes "chain_ok False log v"
  shows "chain_ok True log (tryAcquire (v\<lparr>ls_running := True\<rparr>))"
  using assms by (auto simp: chain_ok_def tryAcquire_def call_redis_def acquiring_def split: if_splits)

lemma chain_stop:
  assumes "chain_ok b log v"
  shows "chain_ok b log (stop v)"
proof (cases "ls_running v")
  case True
  then have "ls_timeouts (clearRetryTimer w) = []" if "ls_timeouts w = ls_timeouts v" "ls_retryTimer w = ls_retryTimer v" for w
    using assms that by (auto simp: chain_ok_def clearRetryTimer_def filter_empty_conv split: option.split if_splits)
  then show ?thesis
    using assms True by (auto simp: chain_ok_def stop_def Let_def clearRenewTimer_def clearRetryTimer_def call_redis_def split: option.splits if_splits)
next
  case False
  then show ?thesis
    using assms by (auto simp: chain_ok_def stop_def Let_def clearRenewTimer_def clearRetryTimer_def call_redis_def split: option.splits if_splits)
qed

lemma chain_retry:
  assumes "chain_ok b log v" "h \<in> set (ls_timeouts v)"
  shows "chain_ok b log (tryAcquire (v\<lparr>ls_timeouts := filter (\<lambda>x. x \<noteq> h) (ls_timeouts v)\<rparr>))"
proof -
  have r: "ls_running v" "\<not> ls_isLeader v" using assms by (auto simp: chain_ok_def split: if_splits)
  have "length (acquiring v) + length (ls_timeouts v) = 1" using assms r by (simp add: chain_ok_def)
  then have "ls_timeouts v = [h]" "acquiring v = []" using assms(2) by (cases "ls_timeouts v"; auto)+
  with assms r show ?thesis by (auto simp: chain_ok_def tryAcquire_def call_redis_def acquiring_def)
qed

lemma chain_renewTick: "chain_ok b log v \<Longrightarrow> chain_ok b log (renewTick v)"
  by (auto simp: chain_ok_def renewTick_def call_redis_def acquiring_def split: if_splits)


lemma acquiring_removed:
  assumes "k < length (ls_ops v)"
  shows "mset (acquiring v) = mset (acquiring (v\<lparr>ls_ops := remove_at k (ls_ops v)\<rparr>)) + (if lo_call (ls_ops v ! k) = AcquireCall then {#ls_ops v ! k#} else {#})"
    "set (remove_at k (ls_ops v)) \<subseteq> set (ls_ops v)"
proof -
  have split: "ls_ops v = take k (ls_ops v) @ ls_ops v ! k # drop (Suc k) (ls_ops v)" by (rule id_take_nth_drop [OF assms])
  have "acquiring v = filter (\<lambda>op. lo_call op = AcquireCall) (take k (ls_ops v) @ ls_ops v ! k # drop (Suc k) (ls_ops v))"
    unfolding acquiring_def by (subst split) (rule refl)
  then show "mset (acquiring v) = mset (acquiring (v\<lparr>ls_ops := remove_at k (ls_ops v)\<rparr>)) + (if lo_call (ls_ops v ! k) = AcquireCall then {#ls_ops v ! k#} else {#})"
    by (simp add: acquiring_def remove_at_def)
  show "set (remove_at k (ls_ops v)) \<subseteq> set (ls_ops v)" by (auto simp: remove_at_def dest: in_set_takeD in_set_dropD)
qed

text \<open>The state between the arrival of a reply and what the code does with it.\<close>

lemma chain_removed_other:
  assumes "chain_ok b log v" "k < length (ls_ops v)" "lo_call (ls_ops v ! k) \<noteq> AcquireCall"
  shows "chain_ok b log (v\<lparr>ls_ops := remove_at k (ls_ops v)\<rparr>)" (is "chain_ok b log ?w")
proof -
  note r = acquiring_removed [OF assms(2)]
  have m: "mset (acquiring ?w) = mset (acquiring v)" using r(1) assms(3) by simp
  then have "set (acquiring ?w) = set (acquiring v)" "length (acquiring ?w) = length (acquiring v)" "acquiring ?w = [] \<longleftrightarrow> acquiring v = []"
    by (metis set_mset_mset) (metis m size_mset, metis m mset_zero_iff)
  then show ?thesis using assms r(2) unfolding chain_ok_def by (auto split: if_splits)
qed

lemma chain_acquired:
  assumes "chain_ok b log v" "k < length (ls_ops v)" "lo_call (ls_ops v ! k) = AcquireCall" "ls_running v"
  shows "\<not> ls_isLeader v" "ls_timeouts v = []" "acquiring (v\<lparr>ls_ops := remove_at k (ls_ops v)\<rparr>) = []" "ls_intervals v = []" "b"
    "lo_result (ls_ops v ! k) = Some 1 \<longrightarrow> granted log (ls_lockId v)" "StopRelease \<notin> lo_call ` set (remove_at k (ls_ops v))"
proof -
  note r = acquiring_removed [OF assms(2)]
  have mem: "ls_ops v ! k \<in> set (acquiring v)" using assms(2,3) by (simp add: acquiring_def)
  then show nl: "\<not> ls_isLeader v" using assms(1,4) by (auto simp: chain_ok_def)
  have len: "length (acquiring v) + length (ls_timeouts v) = 1" using assms(1,4) nl by (simp add: chain_ok_def)
  have "size (mset (acquiring v)) = Suc (length (acquiring (v\<lparr>ls_ops := remove_at k (ls_ops v)\<rparr>)))" using r(1) assms(3) by simp
  then show "ls_timeouts v = []" "acquiring (v\<lparr>ls_ops := remove_at k (ls_ops v)\<rparr>) = []" using len by simp_all
  show "ls_intervals v = []" "b" using assms(1,4) nl by (simp_all add: chain_ok_def)
  show "lo_result (ls_ops v ! k) = Some 1 \<longrightarrow> granted log (ls_lockId v)" using assms(1,4) nl mem by (simp add: chain_ok_def)
  show "StopRelease \<notin> lo_call ` set (remove_at k (ls_ops v))" using assms(1,4) r(2) by (auto simp: chain_ok_def)
qed

lemma acquiring_length: "length (acquiring v) = length (filter (\<lambda>c. c = AcquireCall) (map lo_call (ls_ops v)))"
  by (simp add: acquiring_def filter_map comp_def)

lemma chain_executed:
  assumes ok: "chain_ok b log v" and k: "k < length (ls_ops v)" and op: "op = ls_ops v ! k"
  shows "chain_ok b (log @ [(t, call_command (lo_call op), lo_value op, r)]) (v\<lparr>ls_ops := (ls_ops v)[k := op\<lparr>lo_result := Some r\<rparr>]\<rparr>)"
    (is "chain_ok b ?log ?w")
proof -
  have calls: "map lo_call (ls_ops ?w) = map lo_call (ls_ops v)" using k op by (simp add: map_update) (metis length_map list_update_id nth_map)
  then have len: "length (acquiring ?w) = length (acquiring v)" by (simp only: acquiring_length)
  then have none: "acquiring ?w = [] \<longleftrightarrow> acquiring v = []" by (metis length_0_conv)
  have same: "lo_call ` set (ls_ops ?w) = lo_call ` set (ls_ops v)" using arg_cong [OF calls, of set] by simp
  have empty: "ls_ops ?w = [] \<longleftrightarrow> ls_ops v = []" by simp
  have acq: "x \<in> set (acquiring v) \<or> x = op\<lparr>lo_result := Some r\<rparr> \<and> op \<in> set (acquiring v)" if "x \<in> set (acquiring ?w)" for x
  proof -
    have "x \<in> set ((ls_ops v)[k := op\<lparr>lo_result := Some r\<rparr>])" "lo_call x = AcquireCall" using that by (auto simp: acquiring_def)
    then show ?thesis using set_update_subset_insert [of "ls_ops v" k "op\<lparr>lo_result := Some r\<rparr>"] k op by (auto simp: acquiring_def)
  qed
  have more: "granted log u \<Longrightarrow> granted ?log u" for u by (auto simp: granted_def)
  have grant: "granted ?log (lo_value op)" if "lo_call op = AcquireCall" "r = 1" using that by (auto simp: granted_def call_command_def)
  show ?thesis
  proof (cases "ls_running v \<and> \<not> ls_isLeader v")
    case True
    then have old: "\<forall>x\<in>set (acquiring v). lo_value x = ls_lockId v \<and> (lo_result x = Some 1 \<longrightarrow> granted log (ls_lockId v))"
      using ok by (simp add: chain_ok_def)
    have "lo_value x = ls_lockId v \<and> (lo_result x = Some 1 \<longrightarrow> granted ?log (ls_lockId v))" if "x \<in> set (acquiring ?w)" for x
    proof (cases "x \<in> set (acquiring v)")
      case False
      with acq [OF that] have x: "x = op\<lparr>lo_result := Some r\<rparr>" "op \<in> set (acquiring v)" by blast+
      then have "lo_call op = AcquireCall" "lo_value op = ls_lockId v" using old by (auto simp: acquiring_def)
      with x grant show ?thesis by auto
    qed (use old more in blast)
    with ok True len same show ?thesis by (simp add: chain_ok_def del: set_map)
  next
    case False
    then show ?thesis using ok none same more empty unfolding chain_ok_def by (cases "ls_running v") (simp_all, blast?)
  qed
qed

lemma chain_lost:
  assumes "chain_ok b log v" "ls_isLeader v"
  shows "chain_ok b log (let w = (clearRenewTimer (v\<lparr>ls_isLeader := False\<rparr>))\<lparr>ls_lockId := u\<rparr> in if ls_running w then setRetryTimer w else w)"
proof (cases "ls_running v")
  case True
  then obtain h where "ls_renewTimer v = Some h" "ls_intervals v = [h]" using assms by (auto simp: chain_ok_def)
  then show ?thesis using assms True by (simp add: chain_ok_def clearRenewTimer_def Let_def setRetryTimer_def acquiring_def)
next
  case False
  then show ?thesis using assms by (auto simp: chain_ok_def clearRenewTimer_def Let_def split: option.splits)
qed

lemma chain_late: "chain_ok b log v \<Longrightarrow> b \<Longrightarrow> \<not> ls_running v \<Longrightarrow> chain_ok b log (call_redis LateRelease v)"
  by (simp add: chain_ok_def call_redis_def)

lemma chain_leads:
  assumes "chain_ok b log v" "k < length (ls_ops v)" "lo_call (ls_ops v ! k) = AcquireCall" "ls_running v" "lo_result (ls_ops v ! k) = Some 1"
  shows "chain_ok b log (startRenewal ((v\<lparr>ls_ops := remove_at k (ls_ops v)\<rparr>)\<lparr>ls_isLeader := True\<rparr>))"
  using chain_acquired [OF assms(1-4)] assms(4,5) by (simp add: chain_ok_def startRenewal_def acquiring_def)

lemma chain_waits:
  assumes "chain_ok b log v" "k < length (ls_ops v)" "lo_call (ls_ops v ! k) = AcquireCall" "ls_running v"
  shows "chain_ok b log (setRetryTimer (v\<lparr>ls_ops := remove_at k (ls_ops v)\<rparr>))"
  using chain_acquired [OF assms(1-4)] assms(1,4) by (simp add: chain_ok_def setRetryTimer_def acquiring_def)

lemma chain_stopped_removed:
  assumes "chain_ok b log v" "k < length (ls_ops v)" "\<not> ls_running v"
  shows "chain_ok b log (v\<lparr>ls_ops := remove_at k (ls_ops v)\<rparr>)" "chain_ok b log (stopReleased (v\<lparr>ls_ops := remove_at k (ls_ops v)\<rparr>))" b
  using assms by (auto simp: chain_ok_def stopReleased_def)

lemma chains_ok_svupd:
  assumes "chains_ok s" "i < length (el_services s)" "chain_ok (Started i \<in> set (el_out s)) (el_log s) (f (svc s i))"
  shows "chains_ok (svupd i f s)"
  by (rule chains_okI [OF assms(1), of _ i "[]"]) (use assms(2,3) in auto)

lemma chains_ok_tell: "chains_ok s \<Longrightarrow> (\<And>j. x \<noteq> Started j) \<Longrightarrow> chains_ok (tell x s)"
  by (rule chains_okI [of s _ "length (el_services s)" "[]"]) auto

lemma svupd_svupd: "i < length (el_services s) \<Longrightarrow> svupd i g (svupd i f s) = svupd i (\<lambda>v. g (f v)) s"
  by (simp add: svupd_def)

lemma chains_ok_reply:
  assumes ok: "chains_ok s" and fl: "in_flight s i k" and res: "b \<Longrightarrow> lo_result (ls_ops (svc s i) ! k) \<noteq> None"
  shows "chains_ok (reply i k b s)"
proof -
  define v where "v = svc s i"
  define op where "op = ls_ops v ! k"
  define r where "r = (if b then lo_result op else None)"
  define f :: "leader_service \<Rightarrow> leader_service" where "f = (\<lambda>v. v\<lparr>ls_ops := remove_at k (ls_ops v)\<rparr>)"
  have i: "i < length (el_services s)" and k: "k < length (ls_ops v)" using fl by (simp_all add: in_flight_def v_def)
  have c: "chain_ok (Started i \<in> set (el_out s)) (el_log s) v" using ok i by (simp add: chains_ok_def v_def)
  have stopped: "\<not> ls_running v \<Longrightarrow> chains_ok (svupd i f s)"
    by (rule chains_ok_svupd [OF ok i]) (use chain_stopped_removed(1) [OF c k] in \<open>simp add: f_def v_def\<close>)
  have red: "reply i k b s = (case lo_call op of
           AcquireCall \<Rightarrow> acquireAnswered i r (svupd i f s)
         | RenewCall \<Rightarrow> renewAnswered i r (svupd i f s)
         | StopRelease \<Rightarrow> svupd i stopReleased (svupd i f s)
         | LateRelease \<Rightarrow> svupd i f s)"
    unfolding reply_def Let_def op_def v_def r_def f_def by (rule refl)
  show ?thesis
  proof (cases "lo_call op")
    case AcquireCall
    show ?thesis
    proof (cases "ls_running v")
      case True
      have lead: "r = Some 1 \<Longrightarrow> chains_ok (svupd i (\<lambda>v. startRenewal ((f v)\<lparr>ls_isLeader := True\<rparr>)) s)"
        by (rule chains_ok_svupd [OF ok i])
          (use chain_leads [OF c k] AcquireCall True in \<open>auto simp: f_def v_def op_def r_def split: if_splits\<close>)
      have wait: "chains_ok (svupd i (\<lambda>v. setRetryTimer (f v)) s)"
        by (rule chains_ok_svupd [OF ok i]) (use chain_waits [OF c k] AcquireCall True in \<open>simp add: f_def v_def op_def\<close>)
      show ?thesis
        using True i lead wait
        by (simp add: red AcquireCall acquireAnswered_def svupd_svupd chains_ok_tell) (simp add: f_def v_def)
    next
      case False
      have "chains_ok (svupd i (\<lambda>v. call_redis LateRelease (f v)) s)"
        by (rule chains_ok_svupd [OF ok i])
          (use chain_late [OF chain_stopped_removed(1) [OF c k False] chain_stopped_removed(3) [OF c k False]] False in \<open>simp add: f_def v_def\<close>)
      then show ?thesis using False i stopped by (simp add: red AcquireCall acquireAnswered_def svupd_svupd) (simp add: f_def v_def)
    qed
  next
    case RenewCall
    have cw: "chain_ok (Started i \<in> set (el_out s)) (el_log s) (f v)"
      using chain_removed_other [OF c k] RenewCall by (simp add: f_def op_def)
    have quiet: "chains_ok (svupd i f s)" by (rule chains_ok_svupd [OF ok i]) (use cw in \<open>simp add: v_def\<close>)
    define g :: "leader_service \<Rightarrow> leader_service" where "g = (\<lambda>v. let w = (clearRenewTimer (v\<lparr>ls_isLeader := False\<rparr>))\<lparr>ls_lockId := el_uuids s\<rparr> in if ls_running w then setRetryTimer w else w)"
    have "ls_isLeader v \<Longrightarrow> chains_ok (svupd i (\<lambda>v. g (f v)) s)"
      by (rule chains_ok_svupd [OF ok i]) (use chain_lost [OF cw, of "el_uuids s"] in \<open>simp add: v_def g_def f_def\<close>)
    then have "ls_isLeader v \<Longrightarrow> chains_ok ((tell (LostLeader i) (svupd i g (svupd i f s)))\<lparr>el_uuids := u\<rparr>)" for u
      using i chains_ok_tell [of "svupd i g (svupd i f s)" "LostLeader i"] by (simp add: svupd_svupd) (simp add: chains_ok_def)
    then have "chains_ok (handleLostLeadership i (svupd i f s))"
      using quiet i by (simp add: handleLostLeadership_def g_def f_def v_def)
    with quiet show ?thesis by (simp add: red RenewCall renewAnswered_def split: option.split)
  next
    case StopRelease
    have "op \<in> set (ls_ops v)" using k by (simp add: op_def)
    then have "StopRelease \<in> lo_call ` set (ls_ops v)" using StopRelease by (metis imageI)
    then have "\<not> ls_running v" using c by (auto simp: chain_ok_def)
    then have "chains_ok (svupd i (\<lambda>v. stopReleased (f v)) s)"
      by (intro chains_ok_svupd [OF ok i]) (use chain_stopped_removed(2) [OF c k] in \<open>simp add: f_def v_def\<close>)
    then show ?thesis using i by (simp add: red StopRelease svupd_svupd)
  next
    case LateRelease
    have "chains_ok (svupd i f s)"
      by (rule chains_ok_svupd [OF ok i]) (use chain_removed_other [OF c k] LateRelease in \<open>simp add: f_def v_def op_def\<close>)
    then show ?thesis by (simp add: red LateRelease)
  qed
qed

lemma chains_ok_exec:
  assumes ok: "chains_ok s" and fl: "in_flight s i k"
  shows "chains_ok (redis_exec i k s)"
proof -
  define v where "v = svc s i"
  define op where "op = ls_ops v ! k"
  have i: "i < length (el_services s)" and k: "k < length (ls_ops v)" using fl by (simp_all add: in_flight_def v_def)
  have c: "chain_ok (Started i \<in> set (el_out s)) (el_log s) v" using ok i by (simp add: chains_ok_def v_def)
  obtain r key where ex: "exec_command (el_ttlMs s) (el_now s) (call_command (lo_call op)) (lo_value op) (el_key s) = (r, key)" by force
  have e: "redis_exec i k s = (svupd i (\<lambda>v. v\<lparr>ls_ops := (ls_ops v)[k := op\<lparr>lo_result := Some r\<rparr>]\<rparr>) s)
      \<lparr>el_key := key, el_log := el_log s @ [(el_now s, call_command (lo_call op), lo_value op, r)]\<rparr>"
    using ex by (simp add: redis_exec_def op_def v_def Let_def)
  show ?thesis
    by (rule chains_okI [OF ok, of _ i "[(el_now s, call_command (lo_call op), lo_value op, r)]"])
      (use i chain_executed [OF c k op_def, of "el_now s" r] in \<open>simp_all add: e v_def\<close>)
qed

lemma chains_ok_step: "chains_ok s \<Longrightarrow> chains_ok (leader_step_once s e)"
proof (cases e)
  case (Start i)
  assume ok: "chains_ok s"
  show ?thesis
  proof (cases "i < length (el_services s) \<and> Started i \<notin> set (el_out s)")
    case True
    then have c: "chain_ok False (el_log s) (svc s i)" using ok by (auto simp: chains_ok_def)
    then have "\<not> ls_running (svc s i)" by (auto simp: chain_ok_def split: if_splits)
    then have "leader_step_once s e = tell (Started i) (svupd i (\<lambda>v. tryAcquire (v\<lparr>ls_running := True\<rparr>)) s)"
      using Start True by (simp add: leader_step_once_def start_def)
    moreover have "chains_ok (tell (Started i) (svupd i (\<lambda>v. tryAcquire (v\<lparr>ls_running := True\<rparr>)) s))"
      by (rule chains_okI [OF ok, of _ i "[]"]) (use True chain_start [OF c] in auto)
    ultimately show ?thesis by simp
  next
    case False
    then show ?thesis using Start ok by (auto simp: leader_step_once_def)
  qed
next
  case (Stop i)
  then show "chains_ok s \<Longrightarrow> ?thesis" by (auto simp: leader_step_once_def intro!: chains_ok_svupd chain_stop) (simp add: chains_ok_def)
next
  case (RetryTimer i h)
  then show "chains_ok s \<Longrightarrow> ?thesis" by (auto simp: leader_step_once_def intro!: chains_ok_svupd chain_retry) (simp add: chains_ok_def)
next
  case (RenewTimer i h)
  then show "chains_ok s \<Longrightarrow> ?thesis" by (auto simp: leader_step_once_def intro!: chains_ok_svupd chain_renewTick) (simp add: chains_ok_def)
next
  case (RedisExec i k)
  then show "chains_ok s \<Longrightarrow> ?thesis" by (simp add: leader_step_once_def chains_ok_exec)
next
  case (Reply i k b)
  then show "chains_ok s \<Longrightarrow> ?thesis" by (simp add: leader_step_once_def chains_ok_reply)
next
  case (ClockTick dt)
  then show "chains_ok s \<Longrightarrow> ?thesis" by (simp add: leader_step_once_def chains_ok_def)
qed

lemma chains_ok_new: "chains_ok (new_election ttlMs n)"
  by (simp add: chains_ok_def new_election_def svc_def new_service_def chain_ok_def)

interpretation leader_once: event_system "new_election ttlMs n" leader_step_once chains_ok
  by unfold_locales (fact chains_ok_new, fact chains_ok_step)

text \<open>C30. The election does not stall: if no service is started a second time, then in every reachable state a
  running service either leads, with its renewal interval running and its lock id granted by Redis, or
  it has exactly one \<open>ACQUIRE\<close> in flight or one retry timer armed.\<close>

theorem election_never_stalls:
  "\<lbrakk>s = run_events leader_step_once (new_election ttlMs n) es; i < length (el_services s); ls_running (svc s i)\<rbrakk> \<Longrightarrow>
   (if ls_isLeader (svc s i)
    then (\<exists>h. ls_renewTimer (svc s i) = Some h \<and> ls_intervals (svc s i) = [h]) \<and> (\<exists>t. (t, Acquire, ls_lockId (svc s i), 1) \<in> set (el_log s))
    else length (filter (\<lambda>op. lo_call op = AcquireCall) (ls_ops (svc s i))) + length (ls_timeouts (svc s i)) = 1)"
proof -
  assume s: "s = run_events leader_step_once (new_election ttlMs n) es" and i: "i < length (el_services s)" and run: "ls_running (svc s i)"
  have "chains_ok s" unfolding s by (rule leader_once.reachable_holds)
  then have "chain_ok (Started i \<in> set (el_out s)) (el_log s) (svc s i)" using i by (simp add: chains_ok_def)
  then show ?thesis using run by (simp add: chain_ok_def acquiring_def granted_def split: if_splits)
qed

definition contested :: "leader_event list" where
  "contested = [Start 0, Start 1, RedisExec 1 0, RedisExec 0 0, Reply 1 0 True, Reply 0 0 True]"

theorem election_never_stalls_witness:
  "let s = run_events leader_step_once (new_election 30 2) contested in
     (\<exists>h. ls_intervals (svc s 1) = [h]) \<and> length (ls_timeouts (svc s 0)) = 1"
proof -
  let ?s = "run_events leader_step_once (new_election 30 2) contested"
  have now: "1 < length (el_services ?s)" "ls_running (svc ?s 1)" "ls_isLeader (svc ?s 1)"
    "0 < length (el_services ?s)" "ls_running (svc ?s 0)" "\<not> ls_isLeader (svc ?s 0)" "ls_ops (svc ?s 0) = []"
    by code_simp+
  show ?thesis
    using election_never_stalls [OF refl now(1,2)] election_never_stalls [OF refl now(4,5)] now unfolding Let_def by auto
qed

section \<open>What a second start breaks\<close>

text \<open>\<open>stop()\<close> keeps \<open>isLeader\<close> until the answer to its \<open>RELEASE\<close> arrives.  Meanwhile another service can lead;
  and a \<open>start()\<close> in the meantime acquires the lock and leads, and then the old answer clears \<open>isLeader\<close>: the service
  runs, renews the lock forever, and nobody leads.\<close>

definition restarted :: "leader_event list" where
  "restarted = [Start 0, RedisExec 0 0, Reply 0 0 True, Stop 0, RedisExec 0 0, Start 0, RedisExec 0 1, Reply 0 1 True, Reply 0 0 True]"

lemma restart_leads_to_nobody:
  "let s = run_events leader_step (new_election 30 2) restarted in
     ls_running (svc s 0) \<and> \<not> ls_isLeader (svc s 0) \<and> ls_ops (svc s 0) = [] \<and> ls_timeouts (svc s 0) = []
   \<and> length (ls_intervals (svc s 0)) = 1 \<and> redis_get (el_now s) (el_key s) = Some (ls_lockId (svc s 0))"
  by code_simp

lemma stopping_service_still_leads:
  "let s = run_events leader_step (new_election 30 2)
       [Start 0, RedisExec 0 0, Reply 0 0 True, Stop 0, RedisExec 0 0, Start 1, RedisExec 1 0, Reply 1 0 True] in
     ls_isLeader (svc s 0) \<and> ls_isLeader (svc s 1)"
  by code_simp

end
