(* ===== verification/Mutex.thy ===== *)
theory Mutex
  imports RedisLock
begin

text \<open>
  Mutual exclusion for asynchronous functions, \<open>src/src/helpers/redis/mutex.ts\<close>: \<open>redisMutexExec\<close> over a Redis
  lock that it renews while the function runs, \<open>localMutexExec\<close> over a map of promises, nested mutexes, and the
  key a mutex is known by.

  All calls of one Redis key with the same options are modelled together, with one clock for Redis and the
  processes.  A call to Redis is in flight between its start, its execution and its reply, which are events, as
  are the end of a \<open>sleepMs\<close>, the ticks of the renewal interval and the end of the function.
\<close>

section \<open>Keys\<close>

text \<open>What \<open>flattenMutexKey\<close> can tell apart: \<open>KPrim\<close> carries \<open>String(key)\<close>, \<open>KBare\<close> an object without a prototype
  by its JSON and its string; \<open>null\<close> is an object on which \<open>in\<close> throws.\<close>

datatype mutex_key =
    KPrim string
  | KNull
  | KNamed string
  | KObject string
  | KBare string string
  | KList "mutex_key list"

fun join_keys :: "string list \<Rightarrow> string" where
  "join_keys [] = []"
| "join_keys [k] = k"
| "join_keys (k # ks) = k @ '':'' @ join_keys ks"

fun flattenMutexKey :: "(string \<Rightarrow> string) \<Rightarrow> mutex_key \<Rightarrow> string option" where
  "flattenMutexKey md5 (KList ks) = map_option join_keys (those (map (flattenMutexKey md5) ks))"
| "flattenMutexKey md5 KNull = None"
| "flattenMutexKey md5 (KNamed n) = Some n"
| "flattenMutexKey md5 (KObject c) = Some c"
| "flattenMutexKey md5 (KBare json str) = Some (md5 (if length json = 2 then str else json))"
| "flattenMutexKey md5 (KPrim p) = Some p"

section \<open>The Redis mutex\<close>

record mutex_options =
  mo_retryCount :: nat
  mo_retryDelay :: nat
  mo_renewInterval :: nat

definition DefaultMutexOptions :: mutex_options where
  "DefaultMutexOptions = \<lparr>mo_retryCount = 30, mo_retryDelay = 1000, mo_renewInterval = 1000\<rparr>"

definition lockTtl :: "mutex_options \<Rightarrow> nat" where
  "lockTtl mo = mo_renewInterval mo * 3"

datatype mutex_phase = Acquiring "int option" | Sleeping nat | Holding | Finished

record mutex_op =
  mp_command :: lock_command
  mp_result :: "int option"

datatype mutex_outcome = FnResolved | FnRejected | AcquisitionTimeout | RedisFailed | RenewalFailed

record mutex_call =
  mx_start :: nat
  mx_attempts :: nat
  mx_phase :: mutex_phase
  mx_interval :: bool
  mx_ops :: "mutex_op list"
  mx_outcome :: "mutex_outcome option"

datatype mutex_output = FnStarted nat bool | MutexSettled nat mutex_outcome

record redis_mutex =
  rm_options :: mutex_options
  rm_calls :: "mutex_call list"
  rm_key :: redis_key
  rm_now :: nat
  rm_log :: lock_log
  rm_out :: "mutex_output list"

definition new_mutex :: "mutex_options \<Rightarrow> redis_mutex" where
  "new_mutex mo = \<lparr>rm_options = mo, rm_calls = [], rm_key = None, rm_now = 0, rm_log = [], rm_out = []\<rparr>"

definition mcall :: "redis_mutex \<Rightarrow> nat \<Rightarrow> mutex_call" where
  "mcall s c = rm_calls s ! c"

definition mupd :: "nat \<Rightarrow> (mutex_call \<Rightarrow> mutex_call) \<Rightarrow> redis_mutex \<Rightarrow> redis_mutex" where
  "mupd c f s = s\<lparr>rm_calls := (rm_calls s)[c := f (rm_calls s ! c)]\<rparr>"

definition deadlineMs :: "redis_mutex \<Rightarrow> nat \<Rightarrow> nat" where
  "deadlineMs s c = mx_start (mcall s c) + mo_retryCount (rm_options s) * mo_retryDelay (rm_options s)"

text \<open>The first settlement of a promise counts.\<close>

definition settle_mutex :: "mutex_outcome \<Rightarrow> nat \<Rightarrow> redis_mutex \<Rightarrow> redis_mutex" where
  "settle_mutex x c s =
     (if mx_outcome (mcall s c) \<noteq> None then s
      else (mupd c (\<lambda>m. m\<lparr>mx_outcome := Some x\<rparr>) s)\<lparr>rm_out := rm_out s @ [MutexSettled c x]\<rparr>)"

definition redisMutexExec :: "redis_mutex \<Rightarrow> redis_mutex" where
  "redisMutexExec s = s\<lparr>rm_calls := rm_calls s @ [\<lparr>mx_start = rm_now s, mx_attempts = 1, mx_phase = Acquiring None,
     mx_interval = False, mx_ops = [], mx_outcome = None\<rparr>]\<rparr>"

text \<open>The lock id of a call (\<open>uuid()\<close>) is its number.\<close>

definition mutex_exec :: "lock_command \<Rightarrow> nat \<Rightarrow> redis_mutex \<Rightarrow> redis_mutex \<times> int" where
  "mutex_exec cmd c s =
     (let (r, key) = exec_command (lockTtl (rm_options s)) (rm_now s) cmd c (rm_key s)
      in (s\<lparr>rm_key := key, rm_log := rm_log s @ [(rm_now s, cmd, c, r)]\<rparr>, r))"

definition acquireReplied :: "int option \<Rightarrow> nat \<Rightarrow> redis_mutex \<Rightarrow> redis_mutex" where
  "acquireReplied r c s =
     (case r of
        None \<Rightarrow> settle_mutex RedisFailed c (mupd c (\<lambda>m. m\<lparr>mx_phase := Finished\<rparr>) s)
      | Some x \<Rightarrow>
          if x = 0 then mupd c (\<lambda>m. m\<lparr>mx_phase := Sleeping (rm_now s + mo_retryDelay (rm_options s))\<rparr>) s
          else (mupd c (\<lambda>m. m\<lparr>mx_phase := Holding, mx_interval := True\<rparr>) s)
                 \<lparr>rm_out := rm_out s @ [FnStarted c (mx_attempts (mcall s c) > 1)]\<rparr>)"

definition sleepOver :: "nat \<Rightarrow> redis_mutex \<Rightarrow> redis_mutex" where
  "sleepOver c s =
     (if rm_now s < deadlineMs s c
      then mupd c (\<lambda>m. m\<lparr>mx_attempts := Suc (mx_attempts m), mx_phase := Acquiring None\<rparr>) s
      else settle_mutex AcquisitionTimeout c (mupd c (\<lambda>m. m\<lparr>mx_phase := Finished\<rparr>) s))"

definition send_op :: "lock_command \<Rightarrow> mutex_call \<Rightarrow> mutex_call" where
  "send_op cmd m = m\<lparr>mx_ops := mx_ops m @ [\<lparr>mp_command = cmd, mp_result = None\<rparr>]\<rparr>"

definition renewReplied :: "int option \<Rightarrow> nat \<Rightarrow> redis_mutex \<Rightarrow> redis_mutex" where
  "renewReplied r c s = (if r = None \<or> r = Some 0 then settle_mutex RenewalFailed c s else s)"

definition fnDone :: "bool \<Rightarrow> nat \<Rightarrow> redis_mutex \<Rightarrow> redis_mutex" where
  "fnDone resolved c s =
     mupd c (\<lambda>m. send_op Release (m\<lparr>mx_interval := False, mx_phase := Finished\<rparr>))
       (settle_mutex (if resolved then FnResolved else FnRejected) c s)"

datatype mutex_event =
    CallMutex
  | AcquireExec nat
  | AcquireReply nat bool
  | SleepOver nat
  | RenewTick nat
  | OpExec nat nat
  | OpReply nat nat bool
  | FnDone nat bool
  | MutexClock nat

definition mutex_call_in :: "redis_mutex \<Rightarrow> nat \<Rightarrow> bool" where
  "mutex_call_in s c \<longleftrightarrow> c < length (rm_calls s)"

fun mutex_step :: "redis_mutex \<Rightarrow> mutex_event \<Rightarrow> redis_mutex" where
  "mutex_step s CallMutex = redisMutexExec s"
| "mutex_step s (AcquireExec c) =
     (if mutex_call_in s c \<and> mx_phase (mcall s c) = Acquiring None
      then let (t, r) = mutex_exec Acquire c s in mupd c (\<lambda>m. m\<lparr>mx_phase := Acquiring (Some r)\<rparr>) t else s)"
| "mutex_step s (AcquireReply c arrives) =
     (if mutex_call_in s c
      then case mx_phase (mcall s c) of
             Acquiring r \<Rightarrow> if arrives then (case r of Some x \<Rightarrow> acquireReplied (Some x) c s | None \<Rightarrow> s) else acquireReplied None c s
           | _ \<Rightarrow> s
      else s)"
| "mutex_step s (SleepOver c) =
     (if mutex_call_in s c then case mx_phase (mcall s c) of Sleeping t \<Rightarrow> if t \<le> rm_now s then sleepOver c s else s | _ \<Rightarrow> s else s)"
| "mutex_step s (RenewTick c) = (if mutex_call_in s c \<and> mx_interval (mcall s c) then mupd c (send_op Renew) s else s)"
| "mutex_step s (OpExec c k) =
     (if mutex_call_in s c \<and> k < length (mx_ops (mcall s c)) \<and> mp_result (mx_ops (mcall s c) ! k) = None
      then let op = mx_ops (mcall s c) ! k; (t, r) = mutex_exec (mp_command op) c s
           in mupd c (\<lambda>m. m\<lparr>mx_ops := (mx_ops m)[k := op\<lparr>mp_result := Some r\<rparr>]\<rparr>) t
      else s)"
| "mutex_step s (OpReply c k arrives) =
     (if mutex_call_in s c \<and> k < length (mx_ops (mcall s c)) \<and> (arrives \<longrightarrow> mp_result (mx_ops (mcall s c) ! k) \<noteq> None)
      then let op = mx_ops (mcall s c) ! k;
               t = mupd c (\<lambda>m. m\<lparr>mx_ops := take k (mx_ops m) @ drop (Suc k) (mx_ops m)\<rparr>) s
           in if mp_command op = Renew then renewReplied (if arrives then mp_result op else None) c t else t
      else s)"
| "mutex_step s (FnDone c resolved) =
     (if mutex_call_in s c \<and> mx_phase (mcall s c) = Holding then fnDone resolved c s else s)"
| "mutex_step s (MutexClock dt) = s\<lparr>rm_now := rm_now s + dt\<rparr>"

section \<open>Nested mutexes\<close>

text \<open>The keys in the order they are acquired, and the flag the function is called with, when \<open>waits k\<close> says whether
  the mutex of \<open>k\<close> was waited for.  An empty list of keys still takes the mutex of \<open>undefined\<close>.\<close>

fun withMutexes :: "(mutex_key \<Rightarrow> bool) \<Rightarrow> mutex_key list \<Rightarrow> mutex_key list \<times> bool" where
  "withMutexes waits [] = ([KPrim ''undefined''], waits (KPrim ''undefined''))"
| "withMutexes waits [k] = ([k], waits k)"
| "withMutexes waits (k # ks) = (let (acquired, didAnyWait) = withMutexes waits ks in (k # acquired, didAnyWait))"

section \<open>The local mutex\<close>

text \<open>The calls of one key.  A waiter repeats \<open>LocalCheck\<close> whenever the promise it awaits has settled; the \<open>await\<close>
  between the end of its loop and the call of its function is \<open>LocalContinue\<close>; \<open>LocalFinally\<close> is the \<open>finally\<close>
  of a function that is done.\<close>

datatype local_phase = LWaiting bool | LWoken | LRunning | LSettled | LOver

record local_mutex =
  lm_calls :: "local_phase list"
  lm_promise :: "nat option"
  lm_rejected :: "nat list"

definition run_local :: "nat \<Rightarrow> local_mutex \<Rightarrow> local_mutex" where
  "run_local c s = s\<lparr>lm_calls := (lm_calls s)[c := LRunning], lm_promise := Some c\<rparr>"

datatype local_event = LocalCall | LocalTimeout nat | LocalCheck nat | LocalContinue nat | LocalFnDone nat | LocalFinally nat

definition lphase :: "local_mutex \<Rightarrow> nat \<Rightarrow> local_phase \<Rightarrow> bool" where
  "lphase s c p \<longleftrightarrow> c < length (lm_calls s) \<and> lm_calls s ! c = p"

fun localMutexExec :: "local_mutex \<Rightarrow> local_event \<Rightarrow> local_mutex" where
  "localMutexExec s LocalCall =
     (if lm_promise s \<noteq> None then s\<lparr>lm_calls := lm_calls s @ [LWaiting False]\<rparr>
      else run_local (length (lm_calls s)) (s\<lparr>lm_calls := lm_calls s @ [LWoken]\<rparr>))"
| "localMutexExec s (LocalTimeout c) =
     (if lphase s c (LWaiting False) then s\<lparr>lm_calls := (lm_calls s)[c := LWaiting True], lm_rejected := lm_rejected s @ [c]\<rparr> else s)"
| "localMutexExec s (LocalCheck c) =
     (if lm_promise s \<noteq> None then s
      else if lphase s c (LWaiting True) then s\<lparr>lm_calls := (lm_calls s)[c := LOver]\<rparr>
      else if lphase s c (LWaiting False) then s\<lparr>lm_calls := (lm_calls s)[c := LWoken]\<rparr> else s)"
| "localMutexExec s (LocalContinue c) = (if lphase s c LWoken then run_local c s else s)"
| "localMutexExec s (LocalFnDone c) = (if lphase s c LRunning then s\<lparr>lm_calls := (lm_calls s)[c := LSettled]\<rparr> else s)"
| "localMutexExec s (LocalFinally c) = (if lphase s c LSettled then s\<lparr>lm_calls := (lm_calls s)[c := LOver], lm_promise := None\<rparr> else s)"

end
