(* ===== verification/MutexCorrect.thy ===== *)
theory MutexCorrect
  imports Mutex
begin

text \<open>
  What \<open>src/src/helpers/redis/mutex.ts\<close> promises: mutual exclusion while leases run, a function that is started at
  most once and only with the lock, a bounded number of attempts; and two places where it does not.
\<close>

section \<open>The store of calls\<close>

lemma mupd_simps [simp]:
  "length (rm_calls (mupd c f s)) = length (rm_calls s)" "rm_options (mupd c f s) = rm_options s" "rm_key (mupd c f s) = rm_key s"
  "rm_now (mupd c f s) = rm_now s" "rm_log (mupd c f s) = rm_log s" "rm_out (mupd c f s) = rm_out s"
  by (simp_all add: mupd_def)

lemma mcall_mupd [simp]: "c < length (rm_calls s) \<Longrightarrow> mcall (mupd c f s) d = (if d = c then f (mcall s c) else mcall s d)"
  by (simp add: mcall_def mupd_def)

lemma mcall_updates [simp]:
  "mcall (s\<lparr>rm_key := k\<rparr>) = mcall s" "mcall (s\<lparr>rm_now := t\<rparr>) = mcall s" "mcall (s\<lparr>rm_log := l\<rparr>) = mcall s" "mcall (s\<lparr>rm_out := out\<rparr>) = mcall s"
  by (simp_all add: mcall_def [abs_def])

lemma settle_simps [simp]:
  "length (rm_calls (settle_mutex x c s)) = length (rm_calls s)" "rm_options (settle_mutex x c s) = rm_options s" "rm_key (settle_mutex x c s) = rm_key s"
  "rm_now (settle_mutex x c s) = rm_now s" "rm_log (settle_mutex x c s) = rm_log s"
  by (simp_all add: settle_mutex_def)

section \<open>The invariant\<close>

definition starts :: "nat \<Rightarrow> mutex_output list \<Rightarrow> nat" where
  "starts c out = length (filter (\<lambda>x. case x of FnStarted d w \<Rightarrow> d = c | _ \<Rightarrow> False) out)"

lemma starts_simps [simp]:
  "starts c [] = 0" "starts c (out @ out') = starts c out + starts c out'" "starts c [FnStarted d w] = (if d = c then 1 else 0)"
  "starts c [MutexSettled d x] = 0"
  by (simp_all add: starts_def)

lemma starts_settle [simp]: "starts d (rm_out (settle_mutex x c s)) = starts d (rm_out s)"
  by (simp add: settle_mutex_def)

text \<open>What is known of one call: when it may have made how many attempts, and whether its function was started.\<close>

definition call_ok :: "mutex_options \<Rightarrow> nat \<Rightarrow> lock_log \<Rightarrow> nat \<Rightarrow> nat \<Rightarrow> mutex_call \<Rightarrow> bool" where
  "call_ok mo now log started c m \<longleftrightarrow> 1 \<le> mx_attempts m \<and> mx_start m \<le> now
     \<and> (1 < mx_attempts m \<longrightarrow> (mx_attempts m - 1) * mo_retryDelay mo < mo_retryCount mo * mo_retryDelay mo)
     \<and> started \<le> 1 \<and> (started = 1 \<longrightarrow> (\<exists>t. (t, Acquire, c, 1) \<in> set log))
     \<and> (case mx_phase m of
          Acquiring r \<Rightarrow> mx_start m + (mx_attempts m - 1) * mo_retryDelay mo \<le> now \<and> started = 0 \<and> (r = None \<or> r = Some 0 \<or> (r = Some 1 \<and> (\<exists>t. (t, Acquire, c, 1) \<in> set log)))
        | Sleeping t \<Rightarrow> mx_start m + mx_attempts m * mo_retryDelay mo \<le> t \<and> started = 0
        | Holding \<Rightarrow> started = 1
        | Finished \<Rightarrow> True)"

definition calls_ok :: "redis_mutex \<Rightarrow> bool" where
  "calls_ok s \<longleftrightarrow> (\<forall>c<length (rm_calls s). call_ok (rm_options s) (rm_now s) (rm_log s) (starts c (rm_out s)) c (mcall s c))
     \<and> (\<forall>c\<ge>length (rm_calls s). starts c (rm_out s) = 0)"

definition lock_ok :: "redis_mutex \<Rightarrow> bool" where
  "lock_ok s \<longleftrightarrow> lease_lock.leases_ok (lockTtl (rm_options s)) lock_holder (rm_now s) (rm_key s) (rm_log s)"

definition mutex_ok :: "redis_mutex \<Rightarrow> bool" where
  "mutex_ok s \<longleftrightarrow> calls_ok s \<and> lock_ok s"

lemma call_ok_later: "call_ok mo now log n c m \<Longrightarrow> now \<le> now' \<Longrightarrow> call_ok mo now' (log @ l) n c m"
  unfolding call_ok_def by (auto split: mutex_phase.split)

lemma calls_ok_one:
  assumes ok: "calls_ok s" and c: "c < length (rm_calls s)"
    and t: "length (rm_calls t) = length (rm_calls s)" "rm_options t = rm_options s" "rm_now t = rm_now s" "rm_log t = rm_log s @ l"
    and other: "\<And>d. d \<noteq> c \<Longrightarrow> mcall t d = mcall s d \<and> starts d (rm_out t) = starts d (rm_out s)"
    and one: "call_ok (rm_options s) (rm_now s) (rm_log s @ l) (starts c (rm_out t)) c (mcall t c)"
  shows "calls_ok t"
proof -
  have "call_ok (rm_options t) (rm_now t) (rm_log t) (starts d (rm_out t)) d (mcall t d)" if d: "d < length (rm_calls t)" for d
  proof (cases "d = c")
    case True
    with one t show ?thesis by simp
  next
    case False
    have "call_ok (rm_options s) (rm_now s) (rm_log s) (starts d (rm_out s)) d (mcall s d)" using ok d t(1) by (simp add: calls_ok_def)
    then show ?thesis using call_ok_later other [OF False] t by simp
  qed
  moreover have "starts d (rm_out t) = 0" if "length (rm_calls t) \<le> d" for d
    using ok that t(1) c other [of d] by (simp add: calls_ok_def)
  ultimately show ?thesis by (simp add: calls_ok_def)
qed

lemma call_okD: "calls_ok s \<Longrightarrow> c < length (rm_calls s) \<Longrightarrow> call_ok (rm_options s) (rm_now s) (rm_log s) (starts c (rm_out s)) c (mcall s c)"
  by (simp add: calls_ok_def)

lemma calls_ok_settle:
  assumes "calls_ok s" "c < length (rm_calls s)"
  shows "calls_ok (settle_mutex x c s)"
  by (rule calls_ok_one [OF assms, of _ "[]"])
    (use assms call_okD [OF assms] in \<open>auto simp: settle_mutex_def call_ok_def split: mutex_phase.split\<close>)

lemma calls_ok_mupd:
  assumes "calls_ok s" "c < length (rm_calls s)" "call_ok (rm_options s) (rm_now s) (rm_log s) (starts c (rm_out s)) c (f (mcall s c))"
  shows "calls_ok (mupd c f s)"
  by (rule calls_ok_one [OF assms(1,2), of _ "[]"]) (use assms in auto)

lemma exec_result: "exec_command ttl t cmd v k = (r, k') \<Longrightarrow> r = 0 \<or> r = 1"
  by (auto simp: exec_command_def ACQUIRE_def RENEW_def RELEASE_def split: lock_command.splits if_splits)

lemma lock_ok_exec:
  assumes "lock_ok s" "mutex_exec cmd c s = (t, r)"
  shows "lock_ok t" "rm_log t = rm_log s @ [(rm_now s, cmd, c, r)]" "length (rm_calls t) = length (rm_calls s)" "rm_options t = rm_options s"
    "rm_now t = rm_now s" "rm_out t = rm_out s" "mcall t = mcall s" "r = 0 \<or> r = 1"
proof -
  obtain r' key where ex: "exec_command (lockTtl (rm_options s)) (rm_now s) cmd c (rm_key s) = (r', key)" by force
  then have t: "t = s\<lparr>rm_key := key, rm_log := rm_log s @ [(rm_now s, cmd, c, r)]\<rparr>" "r' = r"
    using assms(2) by (auto simp: mutex_exec_def)
  show "lock_ok t" using redis.leases_exec [OF _ ex, of "rm_log s"] assms(1) by (simp add: lock_ok_def t)
  show "rm_log t = rm_log s @ [(rm_now s, cmd, c, r)]" "length (rm_calls t) = length (rm_calls s)" "rm_options t = rm_options s"
    "rm_now t = rm_now s" "rm_out t = rm_out s" "mcall t = mcall s" by (simp_all add: t)
  show "r = 0 \<or> r = 1" using exec_result [OF ex] t(2) by simp
qed

lemma lock_ok_same: "lock_ok s \<Longrightarrow> rm_options t = rm_options s \<Longrightarrow> rm_now t = rm_now s \<Longrightarrow> rm_key t = rm_key s \<Longrightarrow> rm_log t = rm_log s \<Longrightarrow> lock_ok t"
  by (simp add: lock_ok_def)

section \<open>Every event keeps it\<close>

lemma calls_ok_call: "calls_ok s \<Longrightarrow> calls_ok (redisMutexExec s)"
  unfolding calls_ok_def redisMutexExec_def
  by (auto simp: mcall_def nth_append less_Suc_eq call_ok_def)

lemma calls_ok_acquired:
  assumes ok: "calls_ok s" and c: "c < length (rm_calls s)" and ph: "mx_phase (mcall s c) = Acquiring r" and x: "x = r \<or> x = None" "x = None \<or> x = Some 0 \<or> x = Some 1"
  shows "calls_ok (acquireReplied x c s)"
proof (cases x)
  case None
  have "calls_ok (mupd c (\<lambda>m. m\<lparr>mx_phase := Finished\<rparr>) s)"
    by (rule calls_ok_mupd [OF ok c]) (use call_okD [OF ok c] ph in \<open>auto simp: call_ok_def\<close>)
  then show ?thesis using c by (simp add: acquireReplied_def None calls_ok_settle)
next
  case (Some y)
  show ?thesis
  proof (cases "y = 0")
    case True
    have "1 \<le> mx_attempts (mcall s c)" using call_okD [OF ok c] by (simp add: call_ok_def)
    then have "mx_attempts (mcall s c) * mo_retryDelay (rm_options s) = (mx_attempts (mcall s c) - 1) * mo_retryDelay (rm_options s) + mo_retryDelay (rm_options s)"
      by (cases "mx_attempts (mcall s c)") simp_all
    then have "calls_ok (mupd c (\<lambda>m. m\<lparr>mx_phase := Sleeping (rm_now s + mo_retryDelay (rm_options s))\<rparr>) s)"
      by (intro calls_ok_mupd [OF ok c]) (use call_okD [OF ok c] ph in \<open>auto simp: call_ok_def\<close>)
    then show ?thesis by (simp add: acquireReplied_def Some True)
  next
    case False
    with x Some have "x = Some 1" "r = Some 1" by auto
    then show ?thesis
      by (intro calls_ok_one [OF ok c, of _ "[]"])
        (use c call_okD [OF ok c] ph in \<open>auto simp: acquireReplied_def call_ok_def\<close>)
  qed
qed

lemma calls_ok_slept:
  assumes ok: "calls_ok s" and c: "c < length (rm_calls s)" and ph: "mx_phase (mcall s c) = Sleeping t" "t \<le> rm_now s"
  shows "calls_ok (sleepOver c s)"
proof (cases "rm_now s < deadlineMs s c")
  case True
  have "mx_start (mcall s c) + mx_attempts (mcall s c) * mo_retryDelay (rm_options s) \<le> rm_now s"
    using call_okD [OF ok c] ph by (simp add: call_ok_def)
  moreover from this have "mx_attempts (mcall s c) * mo_retryDelay (rm_options s) < mo_retryCount (rm_options s) * mo_retryDelay (rm_options s)"
    using True unfolding deadlineMs_def by linarith
  ultimately have "calls_ok (mupd c (\<lambda>m. m\<lparr>mx_attempts := Suc (mx_attempts m), mx_phase := Acquiring None\<rparr>) s)"
    by (intro calls_ok_mupd [OF ok c]) (use call_okD [OF ok c] ph in \<open>simp add: call_ok_def\<close>)
  then show ?thesis using True by (simp add: sleepOver_def)
next
  case False
  have "calls_ok (mupd c (\<lambda>m. m\<lparr>mx_phase := Finished\<rparr>) s)"
    by (rule calls_ok_mupd [OF ok c]) (use call_okD [OF ok c] ph in \<open>auto simp: call_ok_def\<close>)
  then show ?thesis using False c by (simp add: sleepOver_def calls_ok_settle)
qed

lemma call_ok_ops [simp]:
  "call_ok mo now log n c (m\<lparr>mx_ops := ops\<rparr>) = call_ok mo now log n c m" "call_ok mo now log n c (send_op cmd m) = call_ok mo now log n c m"
  "call_ok mo now log n c (m\<lparr>mx_interval := b\<rparr>) = call_ok mo now log n c m"
  unfolding call_ok_def send_op_def by (simp_all cong: mutex_phase.case_cong)

lemma calls_ok_done:
  assumes ok: "calls_ok s" and c: "c < length (rm_calls s)" and ph: "mx_phase (mcall s c) = Holding"
  shows "calls_ok (fnDone b c s)"
  unfolding fnDone_def
proof (rule calls_ok_mupd [OF calls_ok_settle [OF ok c]])
  let ?t = "settle_mutex (if b then FnResolved else FnRejected) c s"
  have "call_ok (rm_options ?t) (rm_now ?t) (rm_log ?t) (starts c (rm_out ?t)) c (mcall ?t c)"
    using call_okD [OF calls_ok_settle [OF ok c]] c by simp
  then show "call_ok (rm_options ?t) (rm_now ?t) (rm_log ?t) (starts c (rm_out ?t)) c (send_op Release ((mcall ?t c)\<lparr>mx_interval := False, mx_phase := Finished\<rparr>))"
    by (auto simp: call_ok_def send_op_def)
qed (use c in simp)

lemma mutex_ok_step: "mutex_ok s \<Longrightarrow> mutex_ok (mutex_step s e)"
proof -
  assume "mutex_ok s"
  then have ok: "calls_ok s" and lk: "lock_ok s" by (simp_all add: mutex_ok_def)
  have keep: "lock_ok t" if "rm_options t = rm_options s" "rm_now t = rm_now s" "rm_key t = rm_key s" "rm_log t = rm_log s" for t
    by (rule lock_ok_same [OF lk that])
  show ?thesis
  proof (cases e)
    case CallMutex
    then show ?thesis using calls_ok_call [OF ok] keep [of "redisMutexExec s"] by (simp add: mutex_ok_def redisMutexExec_def)
  next
    case (AcquireExec c)
    show ?thesis
    proof (cases "mutex_call_in s c \<and> mx_phase (mcall s c) = Acquiring None")
      case True
      then have c: "c < length (rm_calls s)" by (simp add: mutex_call_in_def)
      obtain t r where ex: "mutex_exec Acquire c s = (t, r)" by force
      note x = lock_ok_exec [OF lk ex]
      have step: "mutex_step s e = mupd c (\<lambda>m. m\<lparr>mx_phase := Acquiring (Some r)\<rparr>) t" using AcquireExec True ex by simp
      have "lock_ok (mupd c (\<lambda>m. m\<lparr>mx_phase := Acquiring (Some r)\<rparr>) t)" by (rule lock_ok_same [OF x(1)]) simp_all
      moreover have "calls_ok (mupd c (\<lambda>m. m\<lparr>mx_phase := Acquiring (Some r)\<rparr>) t)"
        by (rule calls_ok_one [OF ok c, of _ "[(rm_now s, Acquire, c, r)]"])
          (use c x(2-8) True call_okD [OF ok c] in \<open>auto simp: call_ok_def\<close>)
      ultimately show ?thesis by (simp add: step mutex_ok_def)
    qed (use AcquireExec ok lk in \<open>auto simp: mutex_ok_def\<close>)
  next
    case (AcquireReply c arrives)
    have lock: "lock_ok (acquireReplied x c s)" for x by (rule keep) (auto simp: acquireReplied_def split: option.split)
    show ?thesis
    proof (cases "c < length (rm_calls s)")
      case True
      show ?thesis
      proof (cases "mx_phase (mcall s c)")
        case (Acquiring r)
        have "r = None \<or> r = Some 0 \<or> r = Some 1" using call_okD [OF ok True] Acquiring by (auto simp: call_ok_def)
        then have "calls_ok (acquireReplied None c s)" "r \<noteq> None \<Longrightarrow> calls_ok (acquireReplied r c s)"
          using calls_ok_acquired [OF ok True Acquiring] by blast+
        then show ?thesis using AcquireReply Acquiring ok lk lock by (cases r) (simp_all add: mutex_ok_def)
      qed (use AcquireReply ok lk in \<open>simp_all add: mutex_ok_def\<close>)
    qed (use AcquireReply ok lk in \<open>simp add: mutex_ok_def mutex_call_in_def\<close>)
  next
    case (SleepOver c)
    have "lock_ok (sleepOver c s)" by (rule keep) (simp_all add: sleepOver_def)
    then show ?thesis using SleepOver ok lk calls_ok_slept [OF ok] by (simp add: mutex_ok_def mutex_call_in_def split: mutex_phase.split)
  next
    case (RenewTick c)
    have "lock_ok (mupd c (send_op Renew) s)" by (rule keep) simp_all
    then show ?thesis using RenewTick ok lk calls_ok_mupd [OF ok, of c "send_op Renew"] call_okD [OF ok] by (simp add: mutex_ok_def mutex_call_in_def)
  next
    case (OpExec c k)
    show ?thesis
    proof (cases "mutex_call_in s c \<and> k < length (mx_ops (mcall s c)) \<and> mp_result (mx_ops (mcall s c) ! k) = None")
      case True
      then have c: "c < length (rm_calls s)" by (simp add: mutex_call_in_def)
      define op where "op = mx_ops (mcall s c) ! k"
      obtain t r where ex: "mutex_exec (mp_command op) c s = (t, r)" by force
      note x = lock_ok_exec [OF lk ex]
      define f where "f = (\<lambda>m. m\<lparr>mx_ops := (mx_ops m)[k := op\<lparr>mp_result := Some r\<rparr>]\<rparr> :: mutex_call)"
      have step: "mutex_step s e = mupd c f t" using OpExec True ex by (simp add: Let_def op_def f_def)
      have "lock_ok (mupd c f t)" by (rule lock_ok_same [OF x(1)]) simp_all
      moreover have "calls_ok (mupd c f t)"
        by (rule calls_ok_one [OF ok c, of _ "[(rm_now s, mp_command op, c, r)]"])
          (use c x(2-7) call_ok_later [OF call_okD [OF ok c] order_refl] in \<open>auto simp: f_def\<close>)
      ultimately show ?thesis by (simp add: step mutex_ok_def)
    qed (use OpExec ok lk in \<open>auto simp: mutex_ok_def\<close>)
  next
    case (OpReply c k arrives)
    define f where "f = (\<lambda>m. m\<lparr>mx_ops := take k (mx_ops m) @ drop (Suc k) (mx_ops m)\<rparr> :: mutex_call)"
    define t where "t = mupd c f s"
    have t: "c < length (rm_calls s) \<Longrightarrow> calls_ok t" unfolding t_def by (rule calls_ok_mupd [OF ok]) (simp_all add: f_def call_okD [OF ok])
    have lt: "lock_ok t" "lock_ok (settle_mutex x c t)" for x by (rule keep; simp add: t_def)+
    have "c < length (rm_calls s) \<Longrightarrow> calls_ok (settle_mutex x c t)" for x using t by (simp add: calls_ok_settle) (simp add: t_def calls_ok_settle)
    then show ?thesis using OpReply ok lk t lt
      by (simp add: mutex_ok_def mutex_call_in_def Let_def renewReplied_def f_def [symmetric] t_def [symmetric])
  next
    case (FnDone c b)
    have "lock_ok (fnDone b c s)" by (rule keep) (simp_all add: fnDone_def)
    then show ?thesis using FnDone ok lk calls_ok_done [OF ok] by (simp add: mutex_ok_def mutex_call_in_def)
  next
    case (MutexClock dt)
    have "call_ok (rm_options s) (rm_now s + dt) (rm_log s) n c m" if "call_ok (rm_options s) (rm_now s) (rm_log s) n c m" for n c m
      using call_ok_later [OF that, of "rm_now s + dt" "[]"] by simp
    moreover have "lease_lock.leases_ok (lockTtl (rm_options s)) lock_holder (rm_now s + dt) (rm_key s) (rm_log s)"
      by (rule redis.leases_wait [of "lockTtl (rm_options s)" "rm_now s"]) (use lk in \<open>simp_all add: lock_ok_def\<close>)
    ultimately show ?thesis using MutexClock ok by (simp add: mutex_ok_def calls_ok_def lock_ok_def)
  qed
qed

lemma mutex_ok_new: "mutex_ok (new_mutex mo)"
  using redis.leases_start [of "lockTtl mo" 0 None] by (simp add: mutex_ok_def calls_ok_def lock_ok_def new_mutex_def)

interpretation mutex: event_system "new_mutex mo" mutex_step mutex_ok
  by unfold_locales (fact mutex_ok_new, fact mutex_ok_step)

abbreviation mutex_run :: "mutex_options \<Rightarrow> mutex_event list \<Rightarrow> redis_mutex" where
  "mutex_run mo es \<equiv> run_events mutex_step (new_mutex mo) es"

section \<open>What callers get\<close>

text \<open>C31. The functions of one key exclude each other as long as leases run: in every reachable state a call whose
  function is running was granted the lock, and if its lease runs, it is the holder in Redis and no other
  call has a running lease.\<close>

theorem mutex_excludes:
  "\<lbrakk>s = mutex_run mo es; c < length (rm_calls s); mx_phase (mcall s c) = Holding\<rbrakk> \<Longrightarrow>
   (\<exists>t. (t, Acquire, c, 1) \<in> set (rm_log s))
   \<and> (holds_lease (lockTtl (rm_options s)) (rm_log s) (rm_now s) c \<longrightarrow>
        redis_get (rm_now s) (rm_key s) = Some c \<and> (\<forall>d. holds_lease (lockTtl (rm_options s)) (rm_log s) (rm_now s) d \<longrightarrow> d = c))"
proof -
  assume s: "s = mutex_run mo es" and c: "c < length (rm_calls s)" "mx_phase (mcall s c) = Holding"
  have "mutex_ok s" unfolding s by (rule mutex.reachable_holds)
  then have ok: "calls_ok s" and k: "lease_lock.leases_ok (lockTtl (rm_options s)) lock_holder (rm_now s) (rm_key s) (rm_log s)"
    by (simp_all add: mutex_ok_def lock_ok_def)
  have "\<exists>t. (t, Acquire, c, 1) \<in> set (rm_log s)" using call_okD [OF ok c(1)] c(2) by (simp add: call_ok_def)
  moreover have "redis_get (rm_now s) (rm_key s) = Some c" if "holds_lease (lockTtl (rm_options s)) (rm_log s) (rm_now s) c"
  proof -
    obtain e where "lease (lockTtl (rm_options s)) (rm_log s) c = Some e" "rm_now s < e"
      using \<open>holds_lease (lockTtl (rm_options s)) (rm_log s) (rm_now s) c\<close> by (auto simp: holds_lease_def split: option.splits)
    from redis.leases_okD [OF k this] show ?thesis by (auto simp: lock_holder_def redis_get_def)
  qed
  ultimately show ?thesis using redis.one_lease [OF k] by blast
qed

text \<open>C32. The search for the lock ends: with a positive retry delay a call makes at most \<open>retryCount\<close> attempts
  (and always one); its function is started at most once; and when it wakes after its deadline it gives up.\<close>

theorem mutex_attempts_bounded:
  "\<lbrakk>s = mutex_run mo es; c < length (rm_calls s); 0 < mo_retryDelay (rm_options s)\<rbrakk> \<Longrightarrow>
   mx_attempts (mcall s c) \<le> max 1 (mo_retryCount (rm_options s))
   \<and> length (filter (\<lambda>x. case x of FnStarted d w \<Rightarrow> d = c | _ \<Rightarrow> False) (rm_out s)) \<le> 1
   \<and> (\<forall>t. mx_phase (mcall s c) = Sleeping t \<and> t \<le> rm_now s \<and> deadlineMs s c \<le> rm_now s \<longrightarrow>
        mx_phase (mcall (mutex_step s (SleepOver c)) c) = Finished)"
proof -
  assume s: "s = mutex_run mo es" and c: "c < length (rm_calls s)" and d: "0 < mo_retryDelay (rm_options s)"
  have "mutex_ok s" unfolding s by (rule mutex.reachable_holds)
  then have "call_ok (rm_options s) (rm_now s) (rm_log s) (starts c (rm_out s)) c (mcall s c)" using c by (simp add: mutex_ok_def call_okD)
  then have "mx_attempts (mcall s c) \<le> max 1 (mo_retryCount (rm_options s))" "starts c (rm_out s) \<le> 1" by (auto simp: call_ok_def)
  then show ?thesis
    using c by (auto simp: starts_def mutex_call_in_def sleepOver_def settle_mutex_def mcall_def mupd_def)
qed

definition two_callers :: "mutex_event list" where
  "two_callers = [CallMutex, CallMutex, AcquireExec 0, AcquireReply 0 True, AcquireExec 1, AcquireReply 1 True]"

definition quick :: mutex_options where
  "quick = \<lparr>mo_retryCount = 2, mo_retryDelay = 3, mo_renewInterval = 4\<rparr>"

theorem mutex_excludes_witness:
  "let s = mutex_run quick two_callers in
     redis_get (rm_now s) (rm_key s) = Some 0 \<and> \<not> holds_lease (lockTtl (rm_options s)) (rm_log s) (rm_now s) 1"
proof -
  let ?s = "mutex_run quick two_callers"
  have now: "0 < length (rm_calls ?s)" "mx_phase (mcall ?s 0) = Holding" "holds_lease (lockTtl (rm_options ?s)) (rm_log ?s) (rm_now ?s) 0"
    by code_simp+
  show ?thesis using mutex_excludes [OF refl now(1,2)] now(3) unfolding Let_def by auto
qed

theorem mutex_attempts_bounded_witness:
  "let s = mutex_run quick (two_callers @ [MutexClock 3, SleepOver 1, AcquireExec 1, AcquireReply 1 True, MutexClock 3]) in
     mx_attempts (mcall s 1) \<le> 2 \<and> mx_phase (mcall (mutex_step s (SleepOver 1)) 1) = Finished"
proof -
  let ?s = "mutex_run quick (two_callers @ [MutexClock 3, SleepOver 1, AcquireExec 1, AcquireReply 1 True, MutexClock 3])"
  have now: "1 < length (rm_calls ?s)" "0 < mo_retryDelay (rm_options ?s)" "mo_retryCount (rm_options ?s) = 2"
    "mx_phase (mcall ?s 1) = Sleeping 6" "6 \<le> rm_now ?s" "deadlineMs ?s 1 \<le> rm_now ?s"
    by code_simp+
  show ?thesis using mutex_attempts_bounded [OF refl now(1,2)] now(3-) unfolding Let_def by auto
qed

section \<open>Where it does not hold\<close>

text \<open>The flag that a nested mutex hands to its function is that of the last key alone: a wait for an earlier key is
  lost, although the code collects it.\<close>

lemma nested_wait_is_lost: "withMutexes (\<lambda>k. k = KPrim ''a'') [KPrim ''a'', KPrim ''b''] = ([KPrim ''a'', KPrim ''b''], False)"
  by simp

text \<open>Two waiters of a local mutex see it free in the same turn, before either has taken it, and both run.\<close>

definition two_waiters :: "local_event list" where
  "two_waiters = [LocalCall, LocalCall, LocalCall, LocalFnDone 0, LocalFinally 0, LocalCheck 1, LocalCheck 2, LocalContinue 1, LocalContinue 2]"

lemma local_mutex_runs_two:
  "lm_calls (run_events localMutexExec \<lparr>lm_calls = [], lm_promise = None, lm_rejected = []\<rparr> two_waiters) = [LOver, LRunning, LRunning]"
  by code_simp

text \<open>Different keys can share a mutex: parts are joined with a colon that is not escaped.\<close>

lemma mutex_keys_collide:
  "flattenMutexKey md5 (KList [KPrim ''a:b'', KPrim ''c'']) = flattenMutexKey md5 (KList [KPrim ''a'', KPrim ''b:c''])"
  by simp

end
