(* ===== verification/DbReader.thy ===== *)
theory DbReader
  imports Grammars
begin

text \<open>
  Reading the schema of a database, \<open>src/src/database/migration/create/db-reader.ts\<close>: the rows that the
  catalogue queries return become the tables of \<open>SchemaModel\<close>.

  The database is a parameter, the record of what its catalogue queries answer: rows in the order the query
  asks for, or an error.  Every row is a record with the columns the code reads; a value that can be \<open>NULL\<close> is
  an option.  The regular expressions are written out as matchers on the ASCII part of the text.
\<close>

section \<open>Matching text\<close>

definition starts_with :: "string \<Rightarrow> string \<Rightarrow> bool" where
  "starts_with p s \<longleftrightarrow> strip_prefix p s \<noteq> None"

fun contains_text :: "string \<Rightarrow> string \<Rightarrow> bool" where
  "contains_text p [] = (p = [])"
| "contains_text p (c # s) = (starts_with p (c # s) \<or> contains_text p s)"

text \<open>\<open>/\bX/\<close> for a matcher of \<open>X\<close>, which begins with a word character; \<open>prev\<close> says whether the character before
  is a word character.\<close>

fun word_search :: "(string \<Rightarrow> bool) \<Rightarrow> bool \<Rightarrow> string \<Rightarrow> bool" where
  "word_search m prev [] = False"
| "word_search m prev (c # s) = ((\<not> prev \<and> m (c # s)) \<or> word_search m (is_word_char c) s)"

text \<open>\<open>W\b\<close>, \<open>W\s*\(\)\<close> and \<open>W\s*\(\<close>\<close>

definition whole_word :: "string \<Rightarrow> string \<Rightarrow> bool" where
  "whole_word w s = (case strip_prefix w s of None \<Rightarrow> False | Some r \<Rightarrow> r = [] \<or> \<not> is_word_char (hd r))"

definition empty_call :: "string \<Rightarrow> string \<Rightarrow> bool" where
  "empty_call w s = (case strip_prefix w s of None \<Rightarrow> False | Some r \<Rightarrow> starts_with ''()'' (dropWhile is_space r))"

definition open_call :: "string \<Rightarrow> string \<Rightarrow> bool" where
  "open_call w s = (case strip_prefix w s of None \<Rightarrow> False | Some r \<Rightarrow> starts_with ''('' (dropWhile is_space r))"

definition isExpression :: "string \<Rightarrow> bool" where
  "isExpression value =
     (let upper = trim (to_upper value)
      in word_search (whole_word ''CURRENT_TIMESTAMP'') False upper
       \<or> word_search (empty_call ''NOW'') False upper
       \<or> word_search (whole_word ''CURRENT_DATE'') False upper
       \<or> word_search (empty_call ''UUID'') False upper
       \<or> word_search (empty_call ''GEN_RANDOM_UUID'') False upper
       \<or> word_search (open_call ''NEXTVAL'') False upper)"

section \<open>Enum types\<close>

text \<open>The inner loop: the value up to its closing quote, and what follows it.\<close>

fun enum_value :: "string \<Rightarrow> string \<times> string" where
  "enum_value [] = ([], [])"
| "enum_value [c] = (if c = squote then ([], []) else ([c], []))"
| "enum_value (c # d # s) =
     (if c = backslash then (let (v, r) = enum_value s in (d # v, r))
      else if c = squote \<and> d = squote then (let (v, r) = enum_value s in (squote # v, r))
      else if c = squote then ([], d # s)
      else let (v, r) = enum_value (d # s) in (c # v, r))"

definition skip_separators :: "string \<Rightarrow> string" where
  "skip_separators = dropWhile (\<lambda>c. c = CHR '','' \<or> c = CHR '' '')"

text \<open>The outer loop does not move past a character that is neither a quote, a comma nor a space: it then never
  ends, which is \<open>None\<close> here.\<close>

partial_function (option) enum_loop :: "string \<Rightarrow> string list option" where
  "enum_loop s =
     (let s1 = dropWhile (\<lambda>c. c = CHR '' '') s
      in if s1 = [] then Some []
         else if hd s1 = squote
         then Option.bind (enum_loop (skip_separators (snd (enum_value (tl s1))))) (\<lambda>vs. Some (fst (enum_value (tl s1)) # vs))
         else enum_loop (skip_separators s1))"

definition line_end :: "char \<Rightarrow> bool" where
  "line_end c \<longleftrightarrow> c = newline \<or> c = creturn"

text \<open>\<open>/^enum\((.+)\)$/i\<close>\<close>

definition enum_inner :: "string \<Rightarrow> string option" where
  "enum_inner s =
     (let inner = butlast (drop 5 s)
      in if to_lower (take 5 s) = ''enum('' \<and> 5 < length s \<and> last s = CHR '')'' \<and> inner \<noteq> [] \<and> (\<forall>c\<in>set inner. \<not> line_end c)
         then Some inner else None)"

definition parseEnumValues :: "string \<Rightarrow> string list option" where
  "parseEnumValues columnType = (case enum_inner columnType of None \<Rightarrow> Some [] | Some inner \<Rightarrow> enum_loop inner)"

section \<open>MySQL\<close>

record mysql_column_row =
  COLUMN_NAME :: string
  ORDINAL_POSITION :: int
  COLUMN_DEFAULT :: "string option"
  IS_NULLABLE :: string
  DATA_TYPE :: string
  COLUMN_TYPE :: string
  CHARACTER_MAXIMUM_LENGTH :: "int option"
  NUMERIC_PRECISION :: "int option"
  NUMERIC_SCALE :: "int option"
  EXTRA :: string
  COLUMN_KEY :: string

definition normalizeMySQLType :: "string \<Rightarrow> string \<Rightarrow> string" where
  "normalizeMySQLType dataType columnType =
     (if dataType = ''tinyint'' \<and> starts_with ''tinyint(1)'' columnType then ''tinyint'' else dataType)"

definition inferMySQLSize :: "string \<Rightarrow> string \<Rightarrow> int option \<Rightarrow> int option \<Rightarrow> int option" where
  "inferMySQLSize dataType columnType charMaxLen numPrecision =
     (if dataType = ''varchar'' \<or> dataType = ''char'' then charMaxLen
      else if dataType = ''tinyint'' \<and> starts_with ''tinyint(1)'' columnType then Some 1
      else if dataType = ''binary'' then charMaxLen
      else if dataType = ''decimal'' \<or> dataType = ''numeric'' then numPrecision
      else None)"

text \<open>\<open>/on update\s+(.+)/i\<close> on lower-case text: the first place where white space and another character follow.\<close>

definition on_update_here :: "string \<Rightarrow> string option" where
  "on_update_here s =
     (case strip_prefix ''on update'' s of
        None \<Rightarrow> None
      | Some r \<Rightarrow>
          let ws = takeWhile is_space r; rest = takeWhile (\<lambda>c. \<not> line_end c) (dropWhile is_space r)
          in if ws = [] then None
             else if rest \<noteq> [] then Some rest
             else if 2 \<le> length ws \<and> \<not> line_end (last ws) then Some [last ws] else None)"

fun on_update_match :: "string \<Rightarrow> string option" where
  "on_update_match [] = None"
| "on_update_match (c # s) = (case on_update_here (c # s) of Some m \<Rightarrow> Some m | None \<Rightarrow> on_update_match s)"

text \<open>One column; \<open>None\<close> when the loop over its enum values does not end.\<close>

definition mysql_column :: "mysql_column_row \<Rightarrow> column option" where
  "mysql_column row =
     (let columnType = to_lower (COLUMN_TYPE row); dataType = to_lower (DATA_TYPE row); extra = to_lower (EXTRA row);
          autoIncrement = contains_text ''auto_increment'' extra;
          default = (case COLUMN_DEFAULT row of Some d \<Rightarrow> if autoIncrement then None else Some d | None \<Rightarrow> None)
      in Option.bind (if dataType = ''enum'' then map_option Some (parseEnumValues columnType) else Some None) (\<lambda>enumValues.
         Some ((basic_column (COLUMN_NAME row) (normalizeMySQLType dataType columnType))
           \<lparr>c_size := inferMySQLSize dataType columnType (CHARACTER_MAXIMUM_LENGTH row) (NUMERIC_PRECISION row),
            c_scale := (if dataType = ''decimal'' \<or> dataType = ''numeric'' then NUMERIC_SCALE row else None),
            c_unsigned := contains_text ''unsigned'' columnType,
            c_nullable := (IS_NULLABLE row = ''YES''),
            c_autoIncrement := autoIncrement,
            c_isPrimaryKey := (COLUMN_KEY row = ''PRI''),
            c_ordinalPosition := ORDINAL_POSITION row,
            c_enumValues := enumValues,
            c_defaultExpression := (case default of Some d \<Rightarrow> if isExpression d then Some d else None | None \<Rightarrow> None),
            c_defaultValue := (case default of Some d \<Rightarrow> if isExpression d then None else Some (JStr d) | None \<Rightarrow> None),
            c_onUpdateExpression := (if contains_text ''on update'' extra then map_option to_upper (on_update_match extra) else None)\<rparr>)))"

record mysql_index_row =
  Key_name :: string
  Non_unique :: int
  Seq_in_index :: int
  Column_name :: string
  Index_type :: string

text \<open>The entries of \<open>indexMap\<close>: a schema without columns, and the columns with their sequence numbers.\<close>

definition index_row :: "mysql_index_row \<Rightarrow> (string, index_schema \<times> (int \<times> string) list) jsmap \<Rightarrow> (string, index_schema \<times> (int \<times> string) list) jsmap" where
  "index_row row m =
     (if Key_name row = ''PRIMARY'' then m
      else let (schema, cols) = nullish (jget m (Key_name row))
                 (\<lparr>i_name = Key_name row, i_columns = [], i_unique = (Non_unique row = 0), i_spatial = (to_upper (Index_type row) = ''SPATIAL'')\<rparr>, [])
           in jset (Key_name row) (schema, cols @ [(Seq_in_index row, Column_name row)]) m)"

definition mysql_indexes :: "mysql_index_row list \<Rightarrow> index_schema list" where
  "mysql_indexes rows =
     map (\<lambda>(schema, cols). schema\<lparr>i_columns := map snd (sort_key fst cols)\<rparr>) (jvalues (fold index_row rows []))"

record mysql_fk_row =
  CONSTRAINT_NAME :: string
  FK_COLUMN_NAME :: string
  REFERENCED_TABLE_NAME :: string
  REFERENCED_COLUMN_NAME :: string
  DELETE_RULE :: "string option"
  UPDATE_RULE :: "string option"

definition or_restrict :: "string option \<Rightarrow> string" where
  "or_restrict r = to_upper (if truthy_str r then the r else ''RESTRICT'')"

definition fk_row :: "mysql_fk_row \<Rightarrow> (string, foreign_key) jsmap \<Rightarrow> (string, foreign_key) jsmap" where
  "fk_row row m =
     (let fk = nullish (jget m (CONSTRAINT_NAME row))
            \<lparr>f_name = CONSTRAINT_NAME row, f_columns = [], f_referencedTable = REFERENCED_TABLE_NAME row, f_referencedColumns = [],
             f_onDelete = or_restrict (DELETE_RULE row), f_onUpdate = or_restrict (UPDATE_RULE row)\<rparr>
      in jset (CONSTRAINT_NAME row)
           (fk\<lparr>f_columns := f_columns fk @ [FK_COLUMN_NAME row], f_referencedColumns := f_referencedColumns fk @ [REFERENCED_COLUMN_NAME row]\<rparr>) m)"

definition mysql_foreignKeys :: "mysql_fk_row list \<Rightarrow> foreign_key list" where
  "mysql_foreignKeys rows = jvalues (fold fk_row rows [])"

section \<open>PostgreSQL\<close>

record pg_column_row =
  column_name :: string
  ordinal_position :: int
  column_default :: "string option"
  is_nullable :: string
  data_type :: string
  udt_name :: string
  character_maximum_length :: "int option"
  numeric_precision :: "int option"
  numeric_scale :: "int option"
  is_identity :: string

definition normalizePostgresType :: "string \<Rightarrow> string \<Rightarrow> string" where
  "normalizePostgresType dataType udtName =
     (if dataType = ''character varying'' then ''varchar''
      else if dataType = ''character'' then ''char''
      else if dataType = ''integer'' then ''int''
      else if dataType = ''timestamp without time zone'' then ''timestamp''
      else if dataType = ''timestamp with time zone'' then ''timestamptz''
      else if dataType = ''USER-DEFINED'' then udtName
      else if dataType = ''ARRAY'' then ''jsonb''
      else dataType)"

definition inferPostgresSize :: "string \<Rightarrow> int option \<Rightarrow> int option \<Rightarrow> int option" where
  "inferPostgresSize dataType charMaxLen numPrecision =
     (if dataType = ''varchar'' \<or> dataType = ''char'' then charMaxLen
      else if dataType = ''decimal'' \<or> dataType = ''numeric'' then numPrecision
      else None)"

text \<open>\<open>def.replace(/(::[\w ]+)+$/i, '')\<close>\<close>

definition cast_char :: "char \<Rightarrow> bool" where
  "cast_char c \<longleftrightarrow> is_word_char c \<or> c = CHR '' ''"

function all_casts :: "string \<Rightarrow> bool" where
  "all_casts s =
     (case strip_prefix ''::'' s of
        None \<Rightarrow> False
      | Some r \<Rightarrow> takeWhile cast_char r \<noteq> [] \<and> (dropWhile cast_char r = [] \<or> all_casts (dropWhile cast_char r)))"
  by pat_completeness auto
termination
proof (relation "measure length", goal_cases)
  case (2 s r)
  then have "s = ''::'' @ r" by (simp only: strip_prefix_Some_iff)
  then show ?case using length_dropWhile_le [of cast_char r] by simp
qed simp

declare all_casts.simps [simp del]

fun strip_casts :: "string \<Rightarrow> string" where
  "strip_casts [] = []"
| "strip_casts (c # s) = (if all_casts (c # s) then [] else c # strip_casts s)"

text \<open>\<open>cleaned.replace(/^'(.*)'$/, '$1')\<close>\<close>

definition unquote_default :: "string \<Rightarrow> string" where
  "unquote_default s =
     (if 2 \<le> length s \<and> hd s = squote \<and> last s = squote \<and> (\<forall>c\<in>set s. \<not> line_end c) then butlast (tl s) else s)"

text \<open>One column before its primary key is known; \<open>seq_name\<close> and \<open>enumValues\<close> answer the queries it makes.\<close>

definition pg_is_serial :: "pg_column_row \<Rightarrow> bool" where
  "pg_is_serial row \<longleftrightarrow> (truthy_str (column_default row) \<and> contains_text ''nextval('' (the (column_default row))) \<or> is_identity row = ''YES''"

definition pg_column :: "string option \<Rightarrow> string list \<Rightarrow> pg_column_row \<Rightarrow> column" where
  "pg_column seq_name enumValues row =
     (let dataType = normalizePostgresType (data_type row) (udt_name row); isIdentity = (is_identity row = ''YES''); isSerial = pg_is_serial row;
          isEnum = (data_type row = ''USER-DEFINED'' \<and> enumValues \<noteq> []);
          default = (case column_default row of Some d \<Rightarrow> if isSerial then None else Some (trim (strip_casts d)) | None \<Rightarrow> None)
      in (basic_column (column_name row) (if isEnum then ''enum'' else dataType))
           \<lparr>c_size := inferPostgresSize dataType (character_maximum_length row) (numeric_precision row),
            c_scale := (if dataType = ''decimal'' \<or> dataType = ''numeric'' then numeric_scale row else None),
            c_nullable := (is_nullable row = ''YES''),
            c_autoIncrement := isSerial,
            c_isIdentity := isIdentity,
            c_ordinalPosition := ordinal_position row,
            c_sequenceName := (if isSerial \<and> \<not> isIdentity \<and> truthy_str seq_name then seq_name else None),
            c_enumTypeName := (if isEnum then Some (udt_name row) else None),
            c_enumValues := (if isEnum then Some enumValues else None),
            c_defaultExpression := (case default of Some d \<Rightarrow> if isExpression d then Some d else None | None \<Rightarrow> None),
            c_defaultValue := (case default of Some d \<Rightarrow> if isExpression d then None else Some (JStr (unquote_default d)) | None \<Rightarrow> None)\<rparr>)"

text \<open>A text array as the driver returns it: parsed, or the literal.\<close>

datatype pg_array = PgArray "string list" | PgText string | PgOther

fun array_loop :: "char option \<Rightarrow> bool \<Rightarrow> string \<Rightarrow> string list \<Rightarrow> string \<Rightarrow> string list" where
  "array_loop prev inQuote cur out [] = (if cur \<noteq> [] \<or> out \<noteq> [] then out @ [cur] else out)"
| "array_loop prev inQuote cur out (ch # s) =
     (if ch = dquote \<and> prev \<noteq> Some backslash then array_loop (Some ch) (\<not> inQuote) cur out s
      else if ch = CHR '','' \<and> \<not> inQuote then array_loop (Some ch) inQuote [] (out @ [cur]) s
      else array_loop (Some ch) inQuote (cur @ [ch]) out s)"

definition parsePgTextArray :: "pg_array \<Rightarrow> string list" where
  "parsePgTextArray value =
     (case value of
        PgArray xs \<Rightarrow> xs
      | PgOther \<Rightarrow> []
      | PgText t \<Rightarrow>
          let s = trim t
          in if \<not> starts_with ''{'' s \<or> last s \<noteq> CHR ''}'' then [s]
             else let inner = butlast (tl s) in if inner = [] then [] else array_loop None False [] [] inner)"

record pg_index_row =
  index_name :: string
  is_unique :: bool
  index_columns :: pg_array

definition pg_index :: "pg_index_row \<Rightarrow> index_schema" where
  "pg_index row = \<lparr>i_name = index_name row, i_columns = parsePgTextArray (index_columns row), i_unique = is_unique row, i_spatial = False\<rparr>"

record pg_fk_row =
  constraint_name :: string
  fk_columns :: pg_array
  referenced_table :: string
  referenced_columns :: pg_array
  delete_rule :: "string option"
  update_rule :: "string option"

definition pg_foreignKey :: "pg_fk_row \<Rightarrow> foreign_key" where
  "pg_foreignKey row =
     \<lparr>f_name = constraint_name row, f_columns = parsePgTextArray (fk_columns row), f_referencedTable = referenced_table row,
      f_referencedColumns = parsePgTextArray (referenced_columns row), f_onDelete = or_restrict (delete_rule row), f_onUpdate = or_restrict (update_rule row)\<rparr>"

section \<open>Tables and the database\<close>

text \<open>The answers of the catalogue queries, with the parameters each is asked with; a failing query gives the
message of its error.\<close>

record mysql_catalog =
  myc_tables :: "(string, string list) result"
  myc_columns :: "string \<Rightarrow> (string, mysql_column_row list) result"
  myc_showIndex :: "string \<Rightarrow> (string, mysql_index_row list) result"
  myc_foreignKeys :: "string \<Rightarrow> (string, mysql_fk_row list) result"

record pg_catalog =
  pgc_tables :: "string \<Rightarrow> (string, string list) result"
  pgc_columns :: "string \<Rightarrow> string \<Rightarrow> (string, pg_column_row list) result"
  pgc_sequence :: "string \<Rightarrow> string \<Rightarrow> (string, string option) result"
  pgc_enumValues :: "string \<Rightarrow> string \<Rightarrow> (string, string list) result"
  pgc_primaryKey :: "string \<Rightarrow> string \<Rightarrow> (string, string list) result"
  pgc_indexes :: "string \<Rightarrow> string \<Rightarrow> (string, pg_index_row list) result"
  pgc_foreignKeys :: "string \<Rightarrow> string \<Rightarrow> (string, pg_fk_row list) result"
  pgc_pkConstraint :: "string \<Rightarrow> string \<Rightarrow> (string, string list) result"

text \<open>The database by its dialect.\<close>

datatype catalog = MySQLCatalog mysql_catalog | PgCatalog pg_catalog

fun readAllTableNames :: "catalog \<Rightarrow> string \<Rightarrow> (string, string list) result" where
  "readAllTableNames (MySQLCatalog cat) pgSchema = myc_tables cat"
| "readAllTableNames (PgCatalog cat) pgSchema = pgc_tables cat pgSchema"

text \<open>\<open>null\<close> when the table has no columns.  The outer \<open>None\<close> is the loop that does not end.\<close>

definition readMySQLTable :: "mysql_catalog \<Rightarrow> string \<Rightarrow> (string, table_schema option) result option" where
  "readMySQLTable cat tableName =
     (case myc_columns cat tableName of
        Inl e \<Rightarrow> Some (Inl e)
      | Inr rows \<Rightarrow> Option.bind (those (map mysql_column rows)) (\<lambda>columns.
          if columns = [] then Some (Inr None)
          else Some (bind_result (myc_showIndex cat (quoteId MySQL tableName)) (\<lambda>index_rows.
            map_result (\<lambda>fk_rows.
              let foreignKeys = mysql_foreignKeys fk_rows; fkNames = set (map f_name foreignKeys)
              in Some ((plain_table tableName columns)
                   \<lparr>t_indexes := filter (\<lambda>idx. i_name idx \<notin> fkNames) (mysql_indexes index_rows), t_foreignKeys := foreignKeys\<rparr>))
              (myc_foreignKeys cat tableName)))))"

definition readPostgresColumns :: "pg_catalog \<Rightarrow> string \<Rightarrow> string \<Rightarrow> (string, column list) result" where
  "readPostgresColumns cat tableName pgSchema =
     bind_result (pgc_columns cat pgSchema tableName) (\<lambda>rows.
     bind_result (collect_results (\<lambda>row.
         bind_result (if pg_is_serial row \<and> is_identity row \<noteq> ''YES''
                      then pgc_sequence cat (pgSchema @ ''.'' @ tableName) (column_name row) else Inr None) (\<lambda>seq_name.
         map_result (\<lambda>enumValues. pg_column seq_name enumValues row)
           (if data_type row = ''USER-DEFINED'' then pgc_enumValues cat (udt_name row) pgSchema else Inr []))) rows) (\<lambda>columns.
     map_result (\<lambda>pkCols. map (\<lambda>col. if c_name col \<in> set pkCols then col\<lparr>c_isPrimaryKey := True\<rparr> else col) columns)
       (pgc_primaryKey cat pgSchema tableName)))"

definition readPostgresTable :: "pg_catalog \<Rightarrow> string \<Rightarrow> string \<Rightarrow> (string, table_schema option) result" where
  "readPostgresTable cat tableName pgSchema =
     bind_result (readPostgresColumns cat tableName pgSchema) (\<lambda>columns.
       if columns = [] then Inr None
       else bind_result (pgc_indexes cat pgSchema tableName) (\<lambda>index_rows.
            bind_result (pgc_foreignKeys cat pgSchema tableName) (\<lambda>fk_rows.
            map_result (\<lambda>pkConstraintRows.
              Some ((plain_table tableName columns)
                \<lparr>t_indexes := map pg_index index_rows, t_foreignKeys := map pg_foreignKey fk_rows,
                 t_primaryKeyConstraintName := (case pkConstraintRows of [] \<Rightarrow> None | n # _ \<Rightarrow> Some n)\<rparr>))
              (pgc_pkConstraint cat pgSchema tableName))))"

fun read_table :: "catalog \<Rightarrow> string \<Rightarrow> string \<Rightarrow> (string, table_schema option) result option" where
  "read_table (MySQLCatalog cat) tableName pgSchema = readMySQLTable cat tableName"
| "read_table (PgCatalog cat) tableName pgSchema = Some (readPostgresTable cat tableName pgSchema)"

definition read_failure :: "string \<Rightarrow> string \<Rightarrow> string" where
  "read_failure tableName err = ''Failed to read schema for table '' @ [squote] @ tableName @ [squote] @ '': '' @ err"

text \<open>The loop over the tables stops at the first failure, whose message it prefixes.\<close>

fun read_tables :: "catalog \<Rightarrow> string \<Rightarrow> database_schema \<Rightarrow> string list \<Rightarrow> (string, database_schema) result option" where
  "read_tables db pgSchema schema [] = Some (Inr schema)"
| "read_tables db pgSchema schema (tableName # rest) =
     (case read_table db tableName pgSchema of
        None \<Rightarrow> None
      | Some (Inl err) \<Rightarrow> Some (Inl (read_failure tableName err))
      | Some (Inr None) \<Rightarrow> read_tables db pgSchema schema rest
      | Some (Inr (Some table)) \<Rightarrow> read_tables db pgSchema (jset tableName table schema) rest)"

definition readDatabaseSchema :: "catalog \<Rightarrow> string list \<Rightarrow> string \<Rightarrow> (string, database_schema) result option" where
  "readDatabaseSchema db tableNames pgSchema = read_tables db pgSchema [] tableNames"

end
