(* ===== verification/DbReaderFacts.thy ===== *)
theory DbReaderFacts
  imports DbReader
begin

text \<open>
  What the catalogue readers of \<open>DbReader\<close> guarantee: the values of an enum type are read back from the type's
  text, the indexes and foreign keys of a table are grouped under their names, and a schema is read up to the
  first table that fails.
\<close>

section \<open>Enum types\<close>

lemma ascii_lower_fixed:
  assumes "of_char q < (65::nat) \<or> (90::nat) < of_char q \<and> of_char q < (97::nat)"
  shows "ascii_lower c = q \<longleftrightarrow> c = q"
proof
  assume e: "ascii_lower c = q"
  show "c = q"
  proof (rule ccontr)
    assume ne: "c \<noteq> q"
    then have r: "65 \<le> (of_char c :: nat)" "of_char c \<le> (90 :: nat)" using e by (auto simp: ascii_lower_def split: if_splits)
    then have "(of_char q :: nat) = of_char c + 32" using e by (auto simp: ascii_lower_def)
    with r assms show False by linarith
  qed
next
  assume "c = q"
  then show "ascii_lower c = q" using assms by (auto simp: ascii_lower_def)
qed

lemma ascii_lower_special [simp]:
  "ascii_lower c = squote \<longleftrightarrow> c = squote" "ascii_lower c = backslash \<longleftrightarrow> c = backslash"
  "ascii_lower c = newline \<longleftrightarrow> c = newline" "ascii_lower c = creturn \<longleftrightarrow> c = creturn"
  by (simp_all add: ascii_lower_fixed)

lemma ascii_lower_special' [simp]:
  "ascii_lower squote = squote" "ascii_lower backslash = backslash" "ascii_lower newline = newline" "ascii_lower creturn = creturn"
  by simp_all

lemma to_lower_append [simp]: "to_lower (s @ t) = to_lower s @ to_lower t"
  by (simp add: to_lower_def)

lemma to_lower_replace:
  assumes "\<And>c. ascii_lower c = q \<longleftrightarrow> c = q" "to_lower r = r"
  shows "to_lower (replace_char q r s) = replace_char q r (to_lower s)"
proof (induction s)
  case (Cons c s)
  then show ?case using assms by (auto simp: to_lower_def)
qed (simp add: to_lower_def)

lemma to_lower_sqlString: "to_lower (sqlString d s) = sqlString d (to_lower s)"
proof -
  have q: "to_lower (replace_char squote [squote, squote] t) = replace_char squote [squote, squote] (to_lower t)" for t
    by (rule to_lower_replace) (simp_all add: to_lower_def)
  have b: "to_lower (replace_char backslash [backslash, backslash] t) = replace_char backslash [backslash, backslash] (to_lower t)" for t
    by (rule to_lower_replace) (simp_all add: to_lower_def)
  have "to_lower (escapeStr s d) = escapeStr (to_lower s) d" by (simp add: escapeStr_def Let_def q b)
  then show ?thesis by (simp add: sqlString_def to_lower_def)
qed

lemma to_lower_join: "to_lower (join sep ss) = join (to_lower sep) (map to_lower ss)"
  by (induction sep ss rule: join.induct) (auto simp: to_lower_def)

text \<open>The inner loop reads a quoted value and stops behind its closing quote.\<close>

lemma enum_value_escaped:
  assumes "take 1 rest \<noteq> [squote]"
  shows "enum_value (escapeStr v (Some MySQL) @ squote # rest) = (v, rest)"
  using assms
proof (induction v)
  case Nil
  then show ?case by (cases rest) (auto simp: escapeStr_def)
next
  case (Cons c v)
  obtain d u where du: "escapeStr v (Some MySQL) @ squote # rest = d # u"
    by (metis append_is_Nil_conv list.distinct(1) neq_Nil_conv)
  have "escapeStr (c # v) (Some MySQL) =
    (if c = backslash then [backslash, backslash] else if c = squote then [squote, squote] else [c]) @ escapeStr v (Some MySQL)"
    by (simp add: escapeStr_def Let_def)
  with Cons du show ?case by auto
qed

lemma enum_loop_Nil: "enum_loop [] = Some []"
  by (simp add: enum_loop.simps)

lemma enum_loop_quoted:
  assumes "take 1 rest \<noteq> [squote]"
  shows "enum_loop (sqlString (Some MySQL) v @ rest) = map_option ((#) v) (enum_loop (skip_separators rest))"
proof -
  have d: "dropWhile (\<lambda>c. c = CHR '' '') (sqlString (Some MySQL) v @ rest) = sqlString (Some MySQL) v @ rest"
    by (simp add: sqlString_def)
  have v: "enum_value (tl (sqlString (Some MySQL) v @ rest)) = (v, rest)"
    using enum_value_escaped [OF assms] by (simp add: sqlString_def)
  have h: "hd (sqlString (Some MySQL) v @ rest) = squote" and n: "sqlString (Some MySQL) v @ rest \<noteq> []"
    by (simp_all add: sqlString_def)
  have "enum_loop (sqlString (Some MySQL) v @ rest) =
      Option.bind (enum_loop (skip_separators (snd (v, rest)))) (\<lambda>vs. Some (fst (v, rest) # vs))"
    unfolding enum_loop.simps [of "sqlString (Some MySQL) v @ rest"] Let_def d if_not_P [OF n] if_P [OF h] v ..
  then show ?thesis by (cases "enum_loop (skip_separators rest)") simp_all
qed

lemma skip_separators_quoted:
  "skip_separators (CHR '','' # sqlString d v @ rest) = sqlString d v @ rest"
  by (simp add: skip_separators_def sqlString_def)

lemma enum_loop_list: "enum_loop (join '','' (map (sqlString (Some MySQL)) vs)) = Some vs"
proof (induction vs)
  case (Cons v vs)
  show ?case
  proof (cases vs)
    case Nil
    then show ?thesis using enum_loop_quoted [of "[]" v] by (simp add: enum_loop_Nil skip_separators_def)
  next
    case (Cons w ws)
    define rest where "rest = join '','' (map (sqlString (Some MySQL)) vs)"
    have r: "skip_separators (CHR '','' # rest) = rest"
      unfolding rest_def Cons by (cases ws) (simp_all add: skip_separators_quoted skip_separators_quoted [where rest = "[]", simplified])
    have "join '','' (map (sqlString (Some MySQL)) (v # vs)) = sqlString (Some MySQL) v @ CHR '','' # rest"
      unfolding rest_def Cons by simp
    then show ?thesis using enum_loop_quoted [of "CHR '','' # rest" v] Cons.IH by (simp add: r [unfolded rest_def] rest_def)
  qed
qed (simp add: enum_loop_Nil)

lemma set_replace_char: "set (replace_char q r s) \<subseteq> set s \<union> set r"
  by (induction s) auto

lemma one_line_sqlString: "one_line s \<Longrightarrow> c \<in> set (sqlString d s) \<Longrightarrow> \<not> line_end c"
proof -
  assume o: "one_line s" and c: "c \<in> set (sqlString d s)"
  have "set (sqlString d s) \<subseteq> set s \<union> {squote, backslash}"
    using set_replace_char [of squote "[squote, squote]" s] set_replace_char [of backslash "[backslash, backslash]" s]
      set_replace_char [of squote "[squote, squote]" "replace_char backslash [backslash, backslash] s"]
    by (auto simp: sqlString_def escapeStr_def Let_def split: if_splits)
  with c have "c \<in> set s \<or> c = squote \<or> c = backslash" by auto
  with o show ?thesis by (auto simp: one_line_def line_end_def)
qed

lemma set_join: "set (join sep ss) \<subseteq> set sep \<union> \<Union> (set ` set ss)"
  by (induction sep ss rule: join.induct) auto

lemma enum_inner_text:
  assumes "vs \<noteq> []" "\<forall>v\<in>set vs. one_line v" "to_lower p = ''enum(''"
  shows "enum_inner (p @ join '','' (map (sqlString d) vs) @ '')'') = Some (join '','' (map (sqlString d) vs))"
proof -
  define b where "b = join '','' (map (sqlString d) vs)"
  have "length p = 5" using arg_cong [OF assms(3), of length] by (simp add: to_lower_def)
  then have t: "take 5 (p @ b @ '')'') = p" "drop 5 (p @ b @ '')'') = b @ '')''" "5 < length (p @ b @ '')'')" by auto
  have ne: "b \<noteq> []" using assms(1) by (simp add: b_def join_nonempty sqlString_def)
  have le: "\<not> line_end c" if "c \<in> set b" for c
  proof -
    have "c = CHR '','' \<or> (\<exists>v\<in>set vs. c \<in> set (sqlString d v))"
      using that set_join [of "'',''" "map (sqlString d) vs"] unfolding b_def by auto
    then show ?thesis using one_line_sqlString assms(2) by (auto simp: line_end_def)
  qed
  show ?thesis
    unfolding b_def [symmetric] enum_inner_def t Let_def using assms(3) ne le t(3) by simp
qed

lemma one_line_to_lower: "one_line s \<Longrightarrow> one_line (to_lower s)"
  by (auto simp: one_line_def to_lower_def dest: sym)

text \<open>C11. The values of an enum column come back: from the type that the MySQL grammar writes for a column with
  any non-empty list of one-line values, \<open>parseEnumValues\<close> ends and returns exactly these values; from the
  same text in lower case, which is what \<open>readMySQLColumns\<close> passes to it, it returns them in lower case.\<close>

theorem enum_values_read_back:
  assumes "c_type c = ''enum''" "c_enumValues c = Some vs" "vs \<noteq> []" "\<forall>v\<in>set vs. one_line v"
  shows "parseEnumValues (my_typeDef c) = Some vs \<and> parseEnumValues (to_lower (my_typeDef c)) = Some (map to_lower vs)"
proof -
  have t: "my_typeDef c = ''ENUM('' @ join '','' (map (sqlString (Some MySQL)) vs) @ '')''"
    using assms(1,2) by (simp add: my_typeDef_def)
  have l: "to_lower (my_typeDef c) = ''enum('' @ join '','' (map (sqlString (Some MySQL)) (map to_lower vs)) @ '')''"
  proof -
    have "to_lower '','' = '',''" "to_lower ''ENUM('' = ''enum(''" "to_lower '')'' = '')''" by code_simp+
    then show ?thesis unfolding t to_lower_append by (simp only: to_lower_join map_map comp_def to_lower_sqlString)
  qed
  have e: "enum_inner (my_typeDef c) = Some (join '','' (map (sqlString (Some MySQL)) vs))"
    unfolding t by (rule enum_inner_text [OF assms(3,4)]) code_simp
  have e': "enum_inner (to_lower (my_typeDef c)) = Some (join '','' (map (sqlString (Some MySQL)) (map to_lower vs)))"
  proof (unfold l, rule enum_inner_text)
    show "map to_lower vs \<noteq> []" "\<forall>v\<in>set (map to_lower vs). one_line v" using assms(3,4) one_line_to_lower by auto
    show "to_lower ''enum('' = ''enum(''" by code_simp
  qed
  show ?thesis unfolding parseEnumValues_def e e' option.case enum_loop_list by simp
qed

theorem enum_values_read_back_witness:
  "parseEnumValues (my_typeDef ((basic_column ''s'' ''enum'')\<lparr>c_enumValues := Some [''It'' @ [squote] @ ''s'', [], ''a,b'']\<rparr>))
     = Some [''It'' @ [squote] @ ''s'', [], ''a,b'']"
  using enum_values_read_back [of "(basic_column ''s'' ''enum'')\<lparr>c_enumValues := Some [''It'' @ [squote] @ ''s'', [], ''a,b'']\<rparr>"]
  by (simp add: basic_column_def one_line_def)

section \<open>Rows grouped under a name\<close>

text \<open>Both the indexes and the foreign keys are collected this way: a row updates the entry of its key, which the
first row of the key creates.\<close>

definition group_row :: "('r \<Rightarrow> 'k) \<Rightarrow> ('r \<Rightarrow> 'v) \<Rightarrow> ('r \<Rightarrow> 'v \<Rightarrow> 'v) \<Rightarrow> 'r \<Rightarrow> ('k, 'v) jsmap \<Rightarrow> ('k, 'v) jsmap" where
  "group_row key new upd r m = jset (key r) (upd r (nullish (jget m (key r)) (new r))) m"

definition group_value :: "('r \<Rightarrow> 'k) \<Rightarrow> ('r \<Rightarrow> 'v) \<Rightarrow> ('r \<Rightarrow> 'v \<Rightarrow> 'v) \<Rightarrow> 'r list \<Rightarrow> 'k \<Rightarrow> 'v option" where
  "group_value key new upd rows k =
     (case filter (\<lambda>r. key r = k) rows of [] \<Rightarrow> None | r # rs \<Rightarrow> Some (fold upd (r # rs) (new r)))"

lemma group_value_snoc:
  "group_value key new upd (rows @ [r]) k =
     (if key r = k then Some (upd r (nullish (group_value key new upd rows k) (new r))) else group_value key new upd rows k)"
  by (auto simp: group_value_def split: list.splits)

lemma jget_group_rows: "jget (fold (group_row key new upd) rows []) k = group_value key new upd rows k"
proof (induction rows arbitrary: k rule: rev_induct)
  case (snoc r rows)
  then show ?case by (simp add: group_row_def group_value_snoc)
qed (simp add: group_value_def)

lemma distinct_group_rows: "distinct (map fst (fold (group_row key new upd) rows []))"
  by (induction rows rule: rev_induct) (simp_all add: group_row_def distinct_jset)

lemma keys_group_rows: "fst ` set (fold (group_row key new upd) rows []) = key ` set rows"
  by (induction rows rule: rev_induct) (simp_all add: group_row_def keys_jset)

lemma in_group_rows:
  "(k, v) \<in> set (fold (group_row key new upd) rows []) \<Longrightarrow> group_value key new upd rows k = Some v"
  by (metis distinct_group_rows jget_group_rows map_of_is_SomeI)

lemma group_value_Some:
  assumes "group_value key new upd rows k = Some v"
  shows "\<exists>r rs. filter (\<lambda>r. key r = k) rows = r # rs \<and> v = fold upd (r # rs) (new r) \<and> key r = k"
proof -
  obtain r rs where f: "filter (\<lambda>r. key r = k) rows = r # rs" and v: "v = fold upd (r # rs) (new r)"
    using assms by (auto simp: group_value_def split: list.splits)
  have "r \<in> set (filter (\<lambda>r. key r = k) rows)" unfolding f by simp
  then have "key r = k" by simp
  with f v show ?thesis by blast
qed

lemma insort_key_map: "insort_key f (g x) (map g ys) = map g (insort_key (\<lambda>y. f (g y)) x ys)"
  by (induction ys) auto

lemma sort_key_map: "sort_key f (map g xs) = map g (sort_key (\<lambda>x. f (g x)) xs)"
  by (induction xs) (simp_all add: insort_key_map)

definition new_index :: "mysql_index_row \<Rightarrow> index_schema \<times> (int \<times> string) list" where
  "new_index row = (\<lparr>i_name = Key_name row, i_columns = [], i_unique = (Non_unique row = 0), i_spatial = (to_upper (Index_type row) = ''SPATIAL'')\<rparr>, [])"

definition add_index_row :: "mysql_index_row \<Rightarrow> index_schema \<times> (int \<times> string) list \<Rightarrow> index_schema \<times> (int \<times> string) list" where
  "add_index_row row e = (fst e, snd e @ [(Seq_in_index row, Column_name row)])"

lemma fold_index_row:
  "fold index_row rows m = fold (group_row Key_name new_index add_index_row) (filter (\<lambda>r. Key_name r \<noteq> ''PRIMARY'') rows) m"
  by (induction rows arbitrary: m) (simp_all add: index_row_def group_row_def new_index_def add_index_row_def split: prod.split)

lemma fold_add_index_row: "fold add_index_row rows e = (fst e, snd e @ map (\<lambda>r. (Seq_in_index r, Column_name r)) rows)"
  by (induction rows arbitrary: e) (simp_all add: add_index_row_def)

lemma mysql_index_entry:
  assumes "(k, e) \<in> set (fold index_row rows [])"
  shows "i_name (fst e) = k \<and> k \<noteq> ''PRIMARY''
    \<and> snd e = map (\<lambda>r. (Seq_in_index r, Column_name r)) (filter (\<lambda>r. Key_name r = k) rows)"
proof -
  define rs where "rs = filter (\<lambda>r. Key_name r \<noteq> ''PRIMARY'') rows"
  have e: "group_value Key_name new_index add_index_row rs k = Some e"
    using assms unfolding fold_index_row rs_def by (rule in_group_rows)
  obtain r rt where r: "filter (\<lambda>r. Key_name r = k) rs = r # rt" "e = fold add_index_row (r # rt) (new_index r)" "Key_name r = k"
    using group_value_Some [OF e] by blast
  have "r \<in> set (filter (\<lambda>r. Key_name r = k) rs)" unfolding r(1) by simp
  then have k: "k \<noteq> ''PRIMARY''" by (auto simp: rs_def)
  then have "filter (\<lambda>r. Key_name r = k) rs = filter (\<lambda>r. Key_name r = k) rows"
    by (auto simp: rs_def intro!: filter_cong)
  with r k show ?thesis by (simp add: fold_add_index_row new_index_def add_index_row_def)
qed

lemma mysql_indexes_names:
  "distinct (map i_name (mysql_indexes rows))" "i_name ` set (mysql_indexes rows) = Key_name ` set rows - {''PRIMARY''}"
proof -
  define m where "m = fold index_row rows []"
  have n: "map i_name (mysql_indexes rows) = map fst m"
    unfolding mysql_indexes_def jvalues_def m_def map_map
    by (rule map_cong [OF refl]) (auto simp: split_beta dest: mysql_index_entry)
  show "distinct (map i_name (mysql_indexes rows))" unfolding n unfolding m_def fold_index_row by (rule distinct_group_rows)
  have "i_name ` set (mysql_indexes rows) = fst ` set m" using arg_cong [OF n, of set] by simp
  then show "i_name ` set (mysql_indexes rows) = Key_name ` set rows - {''PRIMARY''}"
    unfolding m_def fold_index_row keys_group_rows by auto
qed

text \<open>The indexes of a MySQL table are the keys that \<open>SHOW INDEX\<close> lists besides \<open>PRIMARY\<close>, each once, however
  the rows of the keys interleave; the columns of an index are those of its rows, in the order of their sequence
  numbers.\<close>

theorem mysql_indexes_grouped:
  "distinct (map i_name (mysql_indexes rows))
   \<and> i_name ` set (mysql_indexes rows) = Key_name ` set rows - {''PRIMARY''}
   \<and> (\<forall>i\<in>set (mysql_indexes rows).
        i_columns i = map Column_name (sort_key Seq_in_index (filter (\<lambda>r. Key_name r = i_name i) rows)))"
proof (intro conjI ballI mysql_indexes_names)
  fix i
  assume "i \<in> set (mysql_indexes rows)"
  then obtain k e where e: "(k, e) \<in> set (fold index_row rows [])" and i: "i = (fst e)\<lparr>i_columns := map snd (sort_key fst (snd e))\<rparr>"
    unfolding mysql_indexes_def jvalues_def by (auto simp: split_beta)
  have "sort_key fst (map (\<lambda>r. (Seq_in_index r, Column_name r)) rs) = map (\<lambda>r. (Seq_in_index r, Column_name r)) (sort_key Seq_in_index rs)"
    for rs :: "mysql_index_row list"
    by (rule sort_key_map [of fst "\<lambda>r. (Seq_in_index r, Column_name r)", unfolded fst_conv])
  with mysql_index_entry [OF e] show "i_columns i = map Column_name (sort_key Seq_in_index (filter (\<lambda>r. Key_name r = i_name i) rows))"
    by (simp add: i comp_def split_def)
qed

definition index_row_of :: "string \<Rightarrow> int \<Rightarrow> string \<Rightarrow> mysql_index_row" where
  "index_row_of n i c = \<lparr>Key_name = n, Non_unique = 0, Seq_in_index = i, Column_name = c, Index_type = ''BTREE''\<rparr>"

theorem mysql_indexes_grouped_witness:
  "\<exists>i. mysql_indexes [index_row_of ''a'' 2 ''y'', index_row_of ''PRIMARY'' 1 ''id'', index_row_of ''a'' 1 ''x''] = [i] \<and> i_columns i = [''x'', ''y'']"
proof -
  define rows where "rows = [index_row_of ''a'' 2 ''y'', index_row_of ''PRIMARY'' 1 ''id'', index_row_of ''a'' 1 ''x'']"
  obtain i where i: "mysql_indexes rows = [i]" "i_name i = ''a''"
    unfolding rows_def by (simp add: mysql_indexes_def index_row_def index_row_of_def jset_def jvalues_def)
  with mysql_indexes_grouped [of rows] have "i_columns i = map Column_name (sort_key Seq_in_index (filter (\<lambda>r. Key_name r = ''a'') rows))"
    by simp
  then have "i_columns i = [''x'', ''y'']" by (simp add: rows_def index_row_of_def)
  with i show ?thesis unfolding rows_def by blast
qed

section \<open>Foreign keys\<close>

definition new_fk :: "mysql_fk_row \<Rightarrow> foreign_key" where
  "new_fk row = \<lparr>f_name = CONSTRAINT_NAME row, f_columns = [], f_referencedTable = REFERENCED_TABLE_NAME row, f_referencedColumns = [],
     f_onDelete = or_restrict (DELETE_RULE row), f_onUpdate = or_restrict (UPDATE_RULE row)\<rparr>"

definition add_fk_row :: "mysql_fk_row \<Rightarrow> foreign_key \<Rightarrow> foreign_key" where
  "add_fk_row row fk = fk\<lparr>f_columns := f_columns fk @ [FK_COLUMN_NAME row], f_referencedColumns := f_referencedColumns fk @ [REFERENCED_COLUMN_NAME row]\<rparr>"

lemma fold_fk_row: "fold fk_row rows m = fold (group_row CONSTRAINT_NAME new_fk add_fk_row) rows m"
  by (rule fold_cong) (simp_all add: fun_eq_iff fk_row_def group_row_def new_fk_def add_fk_row_def Let_def)

lemma fold_add_fk_row:
  "fold add_fk_row rows fk = fk\<lparr>f_columns := f_columns fk @ map FK_COLUMN_NAME rows, f_referencedColumns := f_referencedColumns fk @ map REFERENCED_COLUMN_NAME rows\<rparr>"
  by (induction rows arbitrary: fk) (simp_all add: add_fk_row_def)

lemma mysql_fk_entry: "(k, f) \<in> set (fold fk_row rows []) \<Longrightarrow> f_name f = k"
  by (auto simp: fold_fk_row fold_add_fk_row add_fk_row_def new_fk_def dest!: in_group_rows group_value_Some)

lemma mysql_foreignKeys_names:
  "distinct (map f_name (mysql_foreignKeys rows))" "f_name ` set (mysql_foreignKeys rows) = CONSTRAINT_NAME ` set rows"
proof -
  define m where "m = fold fk_row rows []"
  have n: "map f_name (mysql_foreignKeys rows) = map fst m"
    unfolding mysql_foreignKeys_def jvalues_def m_def map_map
    by (rule map_cong [OF refl]) (auto dest: mysql_fk_entry)
  show "distinct (map f_name (mysql_foreignKeys rows))" unfolding n unfolding m_def fold_fk_row by (rule distinct_group_rows)
  have "f_name ` set (mysql_foreignKeys rows) = fst ` set m" using arg_cong [OF n, of set] by simp
  then show "f_name ` set (mysql_foreignKeys rows) = CONSTRAINT_NAME ` set rows"
    unfolding m_def fold_fk_row keys_group_rows by auto
qed

section \<open>Tables and the schema\<close>

lemma readMySQLTable_keys:
  assumes "readMySQLTable cat n = Some (Inr (Some t))"
  shows "distinct (map i_name (t_indexes t)) \<and> distinct (map f_name (t_foreignKeys t))
    \<and> (\<forall>i\<in>set (t_indexes t). i_name i \<notin> f_name ` set (t_foreignKeys t) \<and> i_name i \<noteq> ''PRIMARY'')
    \<and> t_name t = n \<and> t_skippedColumns t = []"
proof -
  obtain irows frows cols where t: "t = (plain_table n cols)
      \<lparr>t_indexes := filter (\<lambda>idx. i_name idx \<notin> set (map f_name (mysql_foreignKeys frows))) (mysql_indexes irows), t_foreignKeys := mysql_foreignKeys frows\<rparr>"
    using assms by (auto simp: readMySQLTable_def Let_def bind_eq_Some_conv bind_result_Inr_iff map_result_Inr_iff split: sum.splits if_splits)
  have "distinct (map i_name (filter P (mysql_indexes irows)))" for P
    using mysql_indexes_names(1) by (rule distinct_map_filter)
  moreover have "i_name i \<noteq> ''PRIMARY''" if "i \<in> set (mysql_indexes irows)" for i
    using mysql_indexes_names(2) [of irows] that by blast
  ultimately show ?thesis by (auto simp: t plain_table_def mysql_foreignKeys_names(1))
qed

definition read_outcome :: "catalog \<Rightarrow> string \<Rightarrow> database_schema \<Rightarrow> string list \<Rightarrow> (string, database_schema) result option \<Rightarrow> bool" where
  "read_outcome db pg schema names res \<longleftrightarrow>
  (case res of
     None \<Rightarrow> \<exists>n\<in>set names. read_table db n pg = None
   | Some (Inl e) \<Rightarrow> \<exists>pre n post err. names = pre @ n # post \<and> (\<forall>m\<in>set pre. \<exists>t. read_table db m pg = Some (Inr t))
       \<and> read_table db n pg = Some (Inl err) \<and> e = read_failure n err
   | Some (Inr out) \<Rightarrow> (\<forall>n\<in>set names. \<exists>t. read_table db n pg = Some (Inr t))
       \<and> (\<forall>n. jget out n = (if n \<in> set names then (case read_table db n pg of Some (Inr (Some t)) \<Rightarrow> Some t | _ \<Rightarrow> jget schema n) else jget schema n))
       \<and> (distinct (map fst schema) \<longrightarrow> distinct (map fst out)))"

lemma read_tables_outcome: "read_outcome db pg schema names (read_tables db pg schema names)"
proof (induction db pg schema names rule: read_tables.induct)
  case (2 db pg schema m rest)
  note IH = 2
  show ?case
  proof (cases "read_table db m pg")
    case None
    then show ?thesis by (simp add: read_outcome_def)
  next
    case (Some r)
    show ?thesis
    proof (cases r)
      case (Inl err)
      show ?thesis by (simp add: Some Inl read_outcome_def) (rule exI [of _ "[]"], simp add: Some Inl)
    next
      case (Inr t)
      define schema' where "schema' = (case t of None \<Rightarrow> schema | Some table \<Rightarrow> jset m table schema)"
      have step: "read_tables db pg schema (m # rest) = read_tables db pg schema' rest"
        by (cases t) (simp_all add: Some Inr schema'_def)
      have ih: "read_outcome db pg schema' rest (read_tables db pg schema' rest)"
        using IH Some Inr by (cases t) (simp_all add: schema'_def)
      show ?thesis
      proof (cases "read_tables db pg schema' rest")
        case None
        with ih show ?thesis unfolding step by (simp add: read_outcome_def)
      next
        case R: (Some res)
        show ?thesis
        proof (cases res)
          case E: (Inl e)
          obtain pre n post err where o: "rest = pre @ n # post" "\<forall>m\<in>set pre. \<exists>t. read_table db m pg = Some (Inr t)"
            "read_table db n pg = Some (Inl err)" "e = read_failure n err"
            using ih unfolding R E read_outcome_def by auto
          have "m # rest = (m # pre) @ n # post" "\<forall>m\<in>set (m # pre). \<exists>t. read_table db m pg = Some (Inr t)"
            using o(1,2) Some Inr by auto
          then show ?thesis using o(3,4) unfolding step R E read_outcome_def option.case sum.case by blast
        next
          case O: (Inr out)
          have out: "\<forall>n\<in>set rest. \<exists>t. read_table db n pg = Some (Inr t)"
            "jget out n = (if n \<in> set rest then (case read_table db n pg of Some (Inr (Some t)) \<Rightarrow> Some t | _ \<Rightarrow> jget schema' n) else jget schema' n)"
            "distinct (map fst schema') \<longrightarrow> distinct (map fst out)" for n
            using ih unfolding R O read_outcome_def by simp_all
          have d: "distinct (map fst schema) \<longrightarrow> distinct (map fst schema')"
            by (cases t) (simp_all add: schema'_def distinct_jset)
          have "jget out n = (if n \<in> set (m # rest) then (case read_table db n pg of Some (Inr (Some t)) \<Rightarrow> Some t | _ \<Rightarrow> jget schema n) else jget schema n)" for n
            unfolding out(2) using Some Inr by (cases t) (auto simp: schema'_def split: option.splits sum.splits)
          then show ?thesis using out(1,3) d Some Inr unfolding step R O read_outcome_def by simp
        qed
      qed
    qed
  qed
qed (simp add: read_outcome_def)

text \<open>What reading the schema of a database gives, for either dialect and whatever the catalogue answers:
  the result holds exactly the requested tables that exist, each as it was read; or the reading stopped at the first
  table that failed, after all earlier ones were read, and reports that table and its error; or one of the tables has an enum type
  whose values are never read to their end.\<close>

theorem readDatabaseSchema_outcome:
  "case readDatabaseSchema db names pgSchema of
     Some (Inr schema) \<Rightarrow> distinct (map fst schema)
       \<and> (\<forall>n. jget schema n = (if n \<in> set names then (case read_table db n pgSchema of Some (Inr t) \<Rightarrow> t | _ \<Rightarrow> None) else None))
   | Some (Inl e) \<Rightarrow> \<exists>pre n post err. names = pre @ n # post \<and> (\<forall>m\<in>set pre. \<exists>t. read_table db m pgSchema = Some (Inr t))
       \<and> read_table db n pgSchema = Some (Inl err) \<and> e = read_failure n err
   | None \<Rightarrow> \<exists>n\<in>set names. read_table db n pgSchema = None"
proof -
  have o: "read_outcome db pgSchema [] names (readDatabaseSchema db names pgSchema)"
    unfolding readDatabaseSchema_def by (rule read_tables_outcome)
  show ?thesis
  proof (cases "readDatabaseSchema db names pgSchema")
    case None
    with o show ?thesis by (simp add: read_outcome_def)
  next
    case (Some r)
    show ?thesis
    proof (cases r)
      case (Inl e)
      with o Some show ?thesis by (simp add: read_outcome_def)
    next
      case (Inr schema)
      have out: "distinct (map fst schema)" "\<forall>n\<in>set names. \<exists>t. read_table db n pgSchema = Some (Inr t)"
        "jget schema n = (if n \<in> set names then (case read_table db n pgSchema of Some (Inr (Some t)) \<Rightarrow> Some t | _ \<Rightarrow> None) else None)" for n
        using o [unfolded Some Inr] by (simp_all add: read_outcome_def cong: option.case_cong sum.case_cong)
      have "jget schema n = (if n \<in> set names then (case read_table db n pgSchema of Some (Inr t) \<Rightarrow> t | _ \<Rightarrow> None) else None)" for n
        using out(2,3) by (cases "n \<in> set names") (auto split: option.splits sum.splits)
      then show ?thesis using out(1) by (simp add: Some Inr)
    qed
  qed
qed

definition failing_catalog :: catalog where
  "failing_catalog = MySQLCatalog \<lparr>myc_tables = Inr [''a'', ''b''], myc_columns = (\<lambda>n. if n = ''b'' then Inl ''boom'' else Inr []),
     myc_showIndex = (\<lambda>n. Inr []), myc_foreignKeys = (\<lambda>n. Inr [])\<rparr>"

theorem readDatabaseSchema_outcome_witness:
  "readDatabaseSchema failing_catalog [''a'', ''b''] ''public'' = Some (Inl (read_failure ''b'' ''boom''))
   \<and> (\<exists>pre n post err. [''a'', ''b''] = pre @ n # post \<and> read_table failing_catalog n ''public'' = Some (Inl err)
        \<and> read_failure ''b'' ''boom'' = read_failure n err)"
proof -
  have e: "readDatabaseSchema failing_catalog [''a'', ''b''] ''public'' = Some (Inl (read_failure ''b'' ''boom''))" by code_simp
  show ?thesis using readDatabaseSchema_outcome [where db = failing_catalog and names = "[''a'', ''b'']" and pgSchema = "''public''"] unfolding e by auto
qed

end
