(* ===== verification/EntityReader.thy ===== *)
theory EntityReader
  imports Complex_Main SchemaModel
begin

text \<open>
  Reading the schema the entities ask for, \<open>src/src/database/migration/create/entity-reader.ts\<close>.

  The reflection library is a parameter: the records below hold what its queries answer for an entity, a
  property and a type.  A type is a tree with the kinds the code looks at; the annotations the code asks for
  are fields of its node.  A number literal is the rational it denotes; an integer that an annotation carries
  (a length) is an \<open>int\<close>.  Warnings on the console are left out.
\<close>

section \<open>Reflected types\<close>

datatype literal = LitString string | LitNumber rat | LitBoolean bool | LitNull | LitOther

datatype annotation_value = AString string | ANumber int | AOther

text \<open>What \<open>typeAnnotation.getType\<close>, \<open>isUUIDType\<close>, \<open>databaseAnnotation.getDatabase\<close> and
\<open>validationAnnotation.getAnnotations\<close> find: a literal (\<open>None\<close> when there is none or it is of another kind), a
flag, the \<open>type\<close> option per dialect name, and the name and first argument of each annotation (\<open>None\<close> when the
call throws).\<close>

record annotations =
  an_dksfType :: "annotation_value option"
  an_dksfLength :: "annotation_value option"
  an_onUpdate :: "annotation_value option"
  an_uuid :: bool
  an_database :: "string \<Rightarrow> string option"
  an_validation :: "(string \<times> annotation_value option) list option"

datatype enum_member = EmString string | EmNumber rat | EmMissing

datatype js_type = JsType annotations type_kind
  and type_kind =
    KUnion "js_type list" | KIntersection "js_type list" | KUndefined | KNull | KLiteral literal | KString | KNumber | KBoolean
  | KBigint | KEnum "enum_member list" | KClass "string option" | KObjectLiteral | KArray | KAny | KOther

fun kind_of :: "js_type \<Rightarrow> type_kind" where
  "kind_of (JsType a k) = k"

fun ann_of :: "js_type \<Rightarrow> annotations" where
  "ann_of (JsType a k) = a"

definition no_annotations :: annotations where
  "no_annotations = \<lparr>an_dksfType = None, an_dksfLength = None, an_onUpdate = None, an_uuid = False, an_database = (\<lambda>_. None), an_validation = Some []\<rparr>"

section \<open>The column type\<close>

text \<open>\<open>ResolvedType\<close>; its default fields, which nothing sets, are left out.\<close>

record resolved_type =
  rt_type :: string
  rt_size :: "int option"
  rt_scale :: "int option"
  rt_unsigned :: bool
  rt_enumValues :: "string list option"
  rt_enumTypeName :: "string option"

definition just_type :: "string \<Rightarrow> resolved_type" where
  "just_type t = \<lparr>rt_type = t, rt_size = None, rt_scale = None, rt_unsigned = False, rt_enumValues = None, rt_enumTypeName = None\<rparr>"

definition sized_type :: "string \<Rightarrow> int \<Rightarrow> resolved_type" where
  "sized_type t n = (just_type t)\<lparr>rt_size := Some n\<rparr>"

definition resolveDksfType :: "annotation_value \<Rightarrow> resolved_type option" where
  "resolveDksfType v =
     (case v of
        AString t \<Rightarrow>
          if t = ''uuid'' then Some (sized_type ''char'' 36)
          else if t = ''date'' then Some (just_type ''date'')
          else if t = ''phone'' \<or> t = ''phoneNanp'' then Some (sized_type ''varchar'' 20)
          else None
      | _ \<Rightarrow> None)"

definition getMaxLength :: "annotations \<Rightarrow> int option" where
  "getMaxLength a =
     (case an_validation a of
        None \<Rightarrow> None
      | Some vs \<Rightarrow> (case List.map_filter (\<lambda>(n, arg). if n = ''maxLength'' then (case arg of Some (ANumber k) \<Rightarrow> Some k | _ \<Rightarrow> None) else None) vs of
                    [] \<Rightarrow> None | k # _ \<Rightarrow> Some k))"

definition ends_with :: "string \<Rightarrow> string \<Rightarrow> bool" where
  "ends_with s w \<longleftrightarrow> length w \<le> length s \<and> drop (length s - length w) s = w"

definition isIdColumn :: "string \<Rightarrow> bool" where
  "isIdColumn n \<longleftrightarrow> n = ''id'' \<or> ends_with n ''Id'' \<or> ends_with n ''_id''"

definition uuid_type :: "dialect \<Rightarrow> resolved_type" where
  "uuid_type d = (if d = MySQL then sized_type ''binary'' 16 else just_type ''uuid'')"

definition json_type :: "dialect \<Rightarrow> resolved_type" where
  "json_type d = just_type (if d = MySQL then ''json'' else ''jsonb'')"

definition boolean_type :: "dialect \<Rightarrow> resolved_type" where
  "boolean_type d = (if d = MySQL then sized_type ''tinyint'' 1 else just_type ''boolean'')"

text \<open>The smallest integer type for a non-empty list of numbers.\<close>

definition list_min :: "rat list \<Rightarrow> rat" where
  "list_min ns = fold min (tl ns) (hd ns)"

definition list_max :: "rat list \<Rightarrow> rat" where
  "list_max ns = fold max (tl ns) (hd ns)"

definition integer_type :: "dialect \<Rightarrow> rat list \<Rightarrow> resolved_type" where
  "integer_type d numValues =
     (let minVal = list_min numValues; maxVal = list_max numValues
      in if d = MySQL then
           (if 0 \<le> minVal \<and> maxVal \<le> 255 then (just_type ''tinyint'')\<lparr>rt_unsigned := True\<rparr>
            else if - 128 \<le> minVal \<and> maxVal \<le> 127 then just_type ''tinyint''
            else if 0 \<le> minVal \<and> maxVal \<le> 65535 then (just_type ''smallint'')\<lparr>rt_unsigned := True\<rparr>
            else just_type ''int'')
         else if - 32768 \<le> minVal \<and> maxVal \<le> 32767 then just_type ''smallint''
         else just_type ''int'')"

text \<open>A string enum, with the name of its type in PostgreSQL.\<close>

definition string_enum :: "dialect \<Rightarrow> string \<Rightarrow> string option \<Rightarrow> string list \<Rightarrow> resolved_type" where
  "string_enum d columnName parentTableName values =
     (just_type ''enum'')\<lparr>rt_enumValues := Some values,
        rt_enumTypeName := (if d = Postgres
           then Some (if truthy_str parentTableName then the parentTableName @ ''_'' @ columnName else columnName) else None)\<rparr>"

definition resolveEnumType :: "enum_member list \<Rightarrow> string \<Rightarrow> dialect \<Rightarrow> string option \<Rightarrow> resolved_type option" where
  "resolveEnumType members columnName d parentTableName =
     (case filter (\<lambda>v. v \<noteq> EmMissing) members of
        [] \<Rightarrow> None
      | EmString v # vs \<Rightarrow>
          Some (string_enum d columnName parentTableName (v # List.map_filter (\<lambda>m. case m of EmString x \<Rightarrow> Some x | _ \<Rightarrow> None) vs))
      | m # vs \<Rightarrow> Some (integer_type d (List.map_filter (\<lambda>m. case m of EmNumber x \<Rightarrow> Some x | _ \<Rightarrow> None) (m # vs))))"

definition resolveClassType :: "string option \<Rightarrow> dialect \<Rightarrow> resolved_type option" where
  "resolveClassType className d =
     (if className = Some ''Date'' then Some (just_type (if d = MySQL then ''datetime'' else ''timestamp''))
      else if className = Some ''Coordinate'' then (if d = MySQL then Some (just_type ''point'') else None)
      else if className = Some ''ArrayBuffer'' \<or> className = Some ''Uint8Array''
        then Some (just_type (if d = MySQL then ''blob'' else ''bytea''))
      else Some (json_type d))"

definition resolvePrimitiveType :: "type_kind \<Rightarrow> dialect \<Rightarrow> string \<Rightarrow> resolved_type option" where
  "resolvePrimitiveType k d columnName =
     (case k of
        KString \<Rightarrow> Some (sized_type ''varchar'' 255)
      | KNumber \<Rightarrow> Some ((just_type ''int'')\<lparr>rt_unsigned := (d = MySQL \<and> isIdColumn columnName)\<rparr>)
      | KBoolean \<Rightarrow> Some (boolean_type d)
      | KBigint \<Rightarrow> Some (just_type ''bigint'')
      | KClass n \<Rightarrow> resolveClassType n d
      | KObjectLiteral \<Rightarrow> Some (json_type d)
      | KArray \<Rightarrow> Some (json_type d)
      | KAny \<Rightarrow> Some (json_type d)
      | KLiteral (LitString _) \<Rightarrow> Some (sized_type ''varchar'' 255)
      | KLiteral (LitNumber _) \<Rightarrow> Some (just_type ''int'')
      | KLiteral (LitBoolean _) \<Rightarrow> Some (boolean_type d)
      | _ \<Rightarrow> None)"

text \<open>The database annotation for a dialect name, when it names a type.\<close>

definition annotated_type :: "annotations \<Rightarrow> string \<Rightarrow> resolved_type option" where
  "annotated_type a name = (if truthy_str (an_database a name) then Some (just_type (to_lower (the (an_database a name)))) else None)"

definition dialect_name :: "dialect \<Rightarrow> string" where
  "dialect_name d = (if d = MySQL then ''mysql'' else ''postgres'')"

definition dksf_type :: "annotations \<Rightarrow> resolved_type option" where
  "dksf_type a = Option.bind (an_dksfType a) resolveDksfType"

definition dksf_length :: "annotations \<Rightarrow> resolved_type option" where
  "dksf_length a = (case an_dksfLength a of Some (ANumber n) \<Rightarrow> Some (sized_type ''char'' n) | _ \<Rightarrow> None)"

definition max_length :: "annotations \<Rightarrow> resolved_type option" where
  "max_length a = map_option (sized_type ''varchar'') (getMaxLength a)"

fun first_some :: "'a option list \<Rightarrow> 'a option" where
  "first_some [] = None"
| "first_some (Some x # xs) = Some x"
| "first_some (None # xs) = first_some xs"

definition is_absent :: "js_type \<Rightarrow> bool" where
  "is_absent t \<longleftrightarrow> (case kind_of t of KUndefined \<Rightarrow> True | KNull \<Rightarrow> True | KLiteral LitNull \<Rightarrow> True | _ \<Rightarrow> False)"

definition literal_strings :: "js_type list \<Rightarrow> string list" where
  "literal_strings ts = List.map_filter (\<lambda>t. case kind_of t of KLiteral (LitString s) \<Rightarrow> Some s | _ \<Rightarrow> None) ts"

definition literal_numbers :: "js_type list \<Rightarrow> rat list" where
  "literal_numbers ts = List.map_filter (\<lambda>t. case kind_of t of KLiteral (LitNumber x) \<Rightarrow> Some x | _ \<Rightarrow> None) ts"

text \<open>The members of an intersection that can be its base type.\<close>

definition base_kind :: "js_type \<Rightarrow> bool" where
  "base_kind t \<longleftrightarrow> (case kind_of t of KClass _ \<Rightarrow> True | KString \<Rightarrow> True | KNumber \<Rightarrow> True | KBoolean \<Rightarrow> True | KBigint \<Rightarrow> True | KEnum _ \<Rightarrow> True | _ \<Rightarrow> False)"

definition intersection_annotations :: "annotations \<Rightarrow> dialect \<Rightarrow> resolved_type option" where
  "intersection_annotations a d =
     first_some [annotated_type a (dialect_name d), annotated_type a ''*'', dksf_type a,
       if an_uuid a then Some (uuid_type d) else None, dksf_length a, max_length a]"

definition own_annotations :: "annotations \<Rightarrow> dialect \<Rightarrow> resolved_type option" where
  "own_annotations a d =
     first_some [dksf_type a, if an_uuid a then Some (uuid_type d) else None,
       annotated_type a (dialect_name d), annotated_type a ''*'', dksf_length a, max_length a]"

lemma size_filter_Cons:
  fixes t :: js_type
  shows "t # us = filter P ts \<Longrightarrow> size t < Suc (Suc (size_list size ts))"
proof -
  assume "t # us = filter P ts"
  then have "t \<in> set (filter P ts)" by (metis list.set_intros(1))
  then have "t \<in> set ts" by simp
  then show ?thesis by (meson le_SucI less_Suc_eq_le order_refl size_list_estimation')
qed

function resolveColumnType :: "js_type \<Rightarrow> string \<Rightarrow> dialect \<Rightarrow> string option \<Rightarrow> resolved_type option"
  and resolve_first :: "js_type list \<Rightarrow> string \<Rightarrow> dialect \<Rightarrow> string option \<Rightarrow> resolved_type option" where
  "resolveColumnType (JsType a k) columnName d parentTableName =
     (case k of
        KUnion types \<Rightarrow>
          let nonNull = filter (\<lambda>t. \<not> is_absent t) types
          in (case nonNull of
                [] \<Rightarrow> None
              | t # others \<Rightarrow>
                  if others = [] then resolveColumnType t columnName d parentTableName
                  else if length (literal_strings nonNull) = length nonNull
                    then Some (string_enum d columnName parentTableName (literal_strings nonNull))
                  else if length (literal_numbers nonNull) = length nonNull
                    then Some (integer_type d (literal_numbers nonNull))
                  else resolveColumnType t columnName d parentTableName)
      | KIntersection types \<Rightarrow>
          (case intersection_annotations a d of Some r \<Rightarrow> Some r | None \<Rightarrow> resolve_first types columnName d parentTableName)
      | _ \<Rightarrow>
          (case own_annotations a d of
             Some r \<Rightarrow> Some r
           | None \<Rightarrow> (case k of KEnum members \<Rightarrow> resolveEnumType members columnName d parentTableName
                              | _ \<Rightarrow> resolvePrimitiveType k d columnName)))"
| "resolve_first [] columnName d parentTableName = None"
| "resolve_first (t # ts) columnName d parentTableName =
     (case if base_kind t then resolveColumnType t columnName d parentTableName else None of
        Some r \<Rightarrow> Some r
      | None \<Rightarrow> resolve_first ts columnName d parentTableName)"
  by pat_completeness auto
termination
  by (relation "measure (\<lambda>x. case x of Inl (t, _) \<Rightarrow> size t | Inr (ts, _) \<Rightarrow> size_list size ts)")
     (auto dest: size_filter_Cons)

declare resolveColumnType.simps [simp del]

section \<open>Properties, entities and their columns\<close>

text \<open>What a field initialiser leaves in the default instance; \<open>undefined\<close> and \<open>null\<close> are no value.\<close>

datatype init_value = IvDate | IvBool bool | IvNum string | IvStr string | IvOther

record reference_class =
  rc_collectionName :: "string option"
  rc_name :: "string option"
  rc_primaries :: "(string \<times> js_type) list"

record property =
  p_name :: string
  p_type :: js_type
  p_isBackReference :: bool
  p_isOptional :: bool
  p_isNullable :: bool
  p_isAutoIncrement :: bool
  p_isPrimaryKey :: bool
  p_reference :: "reference_class option"
  p_onDelete :: "string option"
  p_onUpdate :: "string option"

text \<open>An index as the reflection lists it; a missing option is \<open>None\<close> or \<open>False\<close>.\<close>

record entity_index =
  x_names :: "string list"
  x_name :: "string option"
  x_unique :: bool
  x_spatial :: bool

text \<open>\<open>defaultInstance\<close> is \<open>None\<close> when the constructor throws.\<close>

record entity =
  en_collectionName :: "string option"
  en_name :: "string option"
  en_properties :: "property list"
  en_indexes :: "entity_index list"
  en_defaultInstance :: "(string \<Rightarrow> init_value option) option"

definition default_expression :: "init_value option \<Rightarrow> string option" where
  "default_expression v = (case v of Some IvDate \<Rightarrow> Some ''CURRENT_TIMESTAMP'' | _ \<Rightarrow> None)"

definition default_value :: "dialect \<Rightarrow> init_value option \<Rightarrow> js_value option" where
  "default_value d v =
     (case v of
        Some (IvBool b) \<Rightarrow> Some (JStr (if d = MySQL then (if b then ''1'' else ''0'') else if b then ''true'' else ''false''))
      | Some (IvNum n) \<Rightarrow> Some (JStr n)
      | Some (IvStr s) \<Rightarrow> Some (JStr s)
      | _ \<Rightarrow> None)"

text \<open>A column of a resolved type.\<close>

definition typed_column :: "string \<Rightarrow> resolved_type \<Rightarrow> column" where
  "typed_column name r =
     (basic_column name (rt_type r))\<lparr>c_size := rt_size r, c_scale := rt_scale r, c_unsigned := rt_unsigned r\<rparr>"

definition readColumn :: "property \<Rightarrow> int \<Rightarrow> dialect \<Rightarrow> string option \<Rightarrow> (string \<Rightarrow> init_value option) option \<Rightarrow> column option" where
  "readColumn prop ordinal d tableName defaultInstance =
     map_option (\<lambda>resolved.
       let val = (if p_isAutoIncrement prop then None else Option.bind defaultInstance (\<lambda>f. f (p_name prop)))
       in (typed_column (p_name prop) resolved)
            \<lparr>c_nullable := (p_isOptional prop \<or> p_isNullable prop),
             c_autoIncrement := p_isAutoIncrement prop,
             c_isPrimaryKey := p_isPrimaryKey prop,
             c_enumValues := rt_enumValues resolved,
             c_enumTypeName := rt_enumTypeName resolved,
             c_ordinalPosition := ordinal,
             c_defaultExpression := default_expression val,
             c_defaultValue := default_value d val,
             c_onUpdateExpression :=
               (if d = MySQL then (case an_onUpdate (ann_of (p_type prop)) of Some (AString t) \<Rightarrow> Some (to_upper t) | _ \<Rightarrow> None) else None)\<rparr>)
       (resolveColumnType (p_type prop) (p_name prop) d tableName)"

text \<open>The column of a reference stores the primary key of the referenced class, which must be a single column.\<close>

definition readReferenceColumn :: "property \<Rightarrow> reference_class \<Rightarrow> int \<Rightarrow> dialect \<Rightarrow> string option \<Rightarrow> column option" where
  "readReferenceColumn prop refClass ordinal d tableName =
     (case rc_primaries refClass of
        [(_, refType)] \<Rightarrow>
          map_option (\<lambda>resolved. (typed_column (p_name prop) resolved)
              \<lparr>c_nullable := (p_isOptional prop \<or> p_isNullable prop), c_isPrimaryKey := p_isPrimaryKey prop, c_ordinalPosition := ordinal\<rparr>)
            (resolveColumnType refType (p_name prop) d tableName)
      | _ \<Rightarrow> None)"

definition or_else :: "string option \<Rightarrow> string option \<Rightarrow> string" where
  "or_else a b = (if truthy_str a then the a else if truthy_str b then the b else [])"

definition readForeignKey :: "property \<Rightarrow> reference_class \<Rightarrow> string \<Rightarrow> foreign_key option" where
  "readForeignKey prop refClass tableName =
     (let refTableName = or_else (rc_collectionName refClass) (rc_name refClass)
      in case rc_primaries refClass of
           [(refName, _)] \<Rightarrow>
             if refTableName = [] then None
             else Some \<lparr>f_name = ''fk_'' @ tableName @ ''_'' @ p_name prop, f_columns = [p_name prop], f_referencedTable = refTableName,
                        f_referencedColumns = [refName], f_onDelete = to_upper (nullish (p_onDelete prop) ''CASCADE''),
                        f_onUpdate = to_upper (if truthy_str (p_onUpdate prop) then the (p_onUpdate prop) else ''CASCADE'')\<rparr>
         | _ \<Rightarrow> None)"

text \<open>The loop over the properties: the columns, the foreign keys, the skipped names and the last ordinal.\<close>

record read_state =
  rs_columns :: "column list"
  rs_foreignKeys :: "foreign_key list"
  rs_skipped :: "string list"
  rs_ordinal :: int

definition read_property :: "entity \<Rightarrow> string \<Rightarrow> dialect \<Rightarrow> property \<Rightarrow> read_state \<Rightarrow> read_state" where
  "read_property e tableName d prop s =
     (if p_isBackReference prop then s
      else let ordinal = rs_ordinal s + 1
           in case p_reference prop of
                Some refClass \<Rightarrow>
                  (case readReferenceColumn prop refClass ordinal d (Some tableName) of
                     Some col \<Rightarrow> s\<lparr>rs_ordinal := ordinal, rs_columns := rs_columns s @ [col],
                       rs_foreignKeys := rs_foreignKeys s @ (case readForeignKey prop refClass tableName of Some fk \<Rightarrow> [fk] | None \<Rightarrow> [])\<rparr>
                   | None \<Rightarrow> s\<lparr>rs_ordinal := ordinal, rs_skipped := rs_skipped s @ [p_name prop]\<rparr>)
              | None \<Rightarrow>
                  (case readColumn prop ordinal d (Some tableName) (en_defaultInstance e) of
                     Some col \<Rightarrow> s\<lparr>rs_ordinal := ordinal, rs_columns := rs_columns s @ [col]\<rparr>
                   | None \<Rightarrow> s\<lparr>rs_ordinal := ordinal, rs_skipped := rs_skipped s @ [p_name prop]\<rparr>))"

definition read_properties :: "entity \<Rightarrow> string \<Rightarrow> dialect \<Rightarrow> read_state" where
  "read_properties e tableName d =
     fold (read_property e tableName d) (en_properties e) \<lparr>rs_columns = [], rs_foreignKeys = [], rs_skipped = [], rs_ordinal = 0\<rparr>"

definition entity_index_name :: "string \<Rightarrow> entity_index \<Rightarrow> string" where
  "entity_index_name tableName idx =
     (if truthy_str (x_name idx) then the (x_name idx) else ''idx_'' @ tableName @ ''_'' @ join ''_'' (x_names idx))"

definition read_index :: "string \<Rightarrow> dialect \<Rightarrow> string list \<Rightarrow> entity_index \<Rightarrow> index_schema list \<Rightarrow> index_schema list" where
  "read_index tableName d skipped idx out =
     (let name = entity_index_name tableName idx
      in if (\<exists>n\<in>set (x_names idx). n \<in> set skipped) \<or> name \<in> i_name ` set out then out
         else out @ [\<lparr>i_name = name, i_columns = x_names idx, i_unique = x_unique idx, i_spatial = (d = MySQL \<and> x_spatial idx)\<rparr>])"

definition readTableSchema :: "entity \<Rightarrow> string \<Rightarrow> dialect \<Rightarrow> table_schema" where
  "readTableSchema e tableName d =
     (let s = read_properties e tableName d
      in (plain_table tableName (rs_columns s))
           \<lparr>t_indexes := fold (read_index tableName d (rs_skipped s)) (en_indexes e) [],
            t_foreignKeys := rs_foreignKeys s, t_skippedColumns := rs_skipped s\<rparr>)"

definition entity_table_name :: "entity \<Rightarrow> string" where
  "entity_table_name e = or_else (en_collectionName e) (en_name e)"

definition readEntitiesSchema :: "entity list \<Rightarrow> dialect \<Rightarrow> database_schema" where
  "readEntitiesSchema entities d =
     fold (\<lambda>e schema. let tableName = entity_table_name e
            in if tableName = [] \<or> tableName \<in> set INTERNAL_TABLES then schema
               else jset tableName (readTableSchema e tableName d) schema) entities []"

end
