(* ===== verification/EntityReaderFacts.thy ===== *)
theory EntityReaderFacts
  imports EntityReader "HOL-Library.Multiset" "HOL-Library.Sublist"
begin

text \<open>
  What \<open>EntityReader\<close> guarantees: the table it reads accounts for every property of the entity and is
  well-formed, and the type it chooses for an enumerated property can hold every value of the property.
\<close>

section \<open>The table of an entity\<close>

lemma readColumn_fields:
  "readColumn prop k d tn inst = Some c \<Longrightarrow> c_name c = p_name prop \<and> c_ordinalPosition c = k"
  by (auto simp: readColumn_def Let_def typed_column_def basic_column_def)

lemma readReferenceColumn_fields:
  "readReferenceColumn prop r k d tn = Some c \<Longrightarrow> c_name c = p_name prop \<and> c_ordinalPosition c = k"
  by (auto simp: readReferenceColumn_def typed_column_def basic_column_def split: list.splits)

lemma readForeignKey_fields:
  "readForeignKey prop r tn = Some fk \<Longrightarrow> f_name fk = ''fk_'' @ tn @ ''_'' @ p_name prop \<and> f_columns fk = [p_name prop]"
  by (auto simp: readForeignKey_def Let_def split: list.splits if_splits)

text \<open>What holds after the properties \<open>ps\<close>.\<close>

definition read_inv :: "string \<Rightarrow> property list \<Rightarrow> read_state \<Rightarrow> bool" where
  "read_inv tn ps s \<longleftrightarrow>
     mset (map c_name (rs_columns s) @ rs_skipped s) = mset (map p_name (filter (\<lambda>p. \<not> p_isBackReference p) ps))
     \<and> (\<exists>ns. subseq ns (map c_name (rs_columns s)) \<and> map f_name (rs_foreignKeys s) = map (\<lambda>n. ''fk_'' @ tn @ ''_'' @ n) ns
             \<and> map f_columns (rs_foreignKeys s) = map (\<lambda>n. [n]) ns)
     \<and> sorted_wrt (<) (map c_ordinalPosition (rs_columns s)) \<and> (\<forall>c\<in>set (rs_columns s). c_ordinalPosition c \<le> rs_ordinal s)"

lemma read_inv_step:
  assumes "read_inv tn ps s"
  shows "read_inv tn (ps @ [p]) (read_property e tn d p s)"
proof -
  obtain ns where ns: "subseq ns (map c_name (rs_columns s))" "map f_name (rs_foreignKeys s) = map (\<lambda>n. ''fk_'' @ tn @ ''_'' @ n) ns"
      "map f_columns (rs_foreignKeys s) = map (\<lambda>n. [n]) ns"
    and m: "mset (map c_name (rs_columns s) @ rs_skipped s) = mset (map p_name (filter (\<lambda>p. \<not> p_isBackReference p) ps))"
    and o: "sorted_wrt (<) (map c_ordinalPosition (rs_columns s))" "\<forall>c\<in>set (rs_columns s). c_ordinalPosition c \<le> rs_ordinal s"
    using assms unfolding read_inv_def by blast
  have o': "sorted_wrt (<) (map c_ordinalPosition (rs_columns s @ [c]))" "\<forall>x\<in>set (rs_columns s @ [c]). c_ordinalPosition x \<le> rs_ordinal s + 1"
    if "c_ordinalPosition c = rs_ordinal s + 1" for c
    using o that by (auto simp: sorted_wrt_append)
  have skip: "read_inv tn (ps @ [p]) (s\<lparr>rs_ordinal := rs_ordinal s + 1, rs_skipped := rs_skipped s @ [p_name p]\<rparr>)" if "\<not> p_isBackReference p"
    unfolding read_inv_def using ns m o that by (auto intro!: exI [of _ ns])
  show ?thesis
  proof (cases "p_isBackReference p")
    case True
    then show ?thesis using assms by (simp add: read_property_def read_inv_def)
  next
    case nb: False
    show ?thesis
    proof (cases "p_reference p")
      case None
      show ?thesis
      proof (cases "readColumn p (rs_ordinal s + 1) d (Some tn) (en_defaultInstance e)")
        case None
        then show ?thesis using skip nb \<open>p_reference p = None\<close> by (simp add: read_property_def Let_def)
      next
        case (Some c)
        note c = readColumn_fields [OF Some]
        have "subseq ns (map c_name (rs_columns s @ [c]))" using ns(1) by (simp add: subseq_rev_drop_many)
        then have "read_inv tn (ps @ [p]) (s\<lparr>rs_ordinal := rs_ordinal s + 1, rs_columns := rs_columns s @ [c]\<rparr>)"
          unfolding read_inv_def using ns(2,3) m o' [OF c [THEN conjunct2]] c nb by (auto intro!: exI [of _ ns])
        then show ?thesis using Some nb \<open>p_reference p = None\<close> by (simp add: read_property_def Let_def)
      qed
    next
      case (Some r)
      show ?thesis
      proof (cases "readReferenceColumn p r (rs_ordinal s + 1) d (Some tn)")
        case None
        then show ?thesis using skip nb Some by (simp add: read_property_def Let_def)
      next
        case C: (Some c)
        note c = readReferenceColumn_fields [OF C]
        define fks where "fks = (case readForeignKey p r tn of Some fk \<Rightarrow> [fk] | None \<Rightarrow> [])"
        define ms where "ms = (if fks = [] then ns else ns @ [p_name p])"
        have "subseq ms (map c_name (rs_columns s @ [c]))"
          using ns(1) c by (simp add: ms_def subseq_rev_drop_many)
        moreover have "map f_name (rs_foreignKeys s @ fks) = map (\<lambda>n. ''fk_'' @ tn @ ''_'' @ n) ms"
            "map f_columns (rs_foreignKeys s @ fks) = map (\<lambda>n. [n]) ms"
          using ns(2,3) readForeignKey_fields [of p r tn] by (cases "readForeignKey p r tn"; simp add: fks_def ms_def)+
        ultimately have "read_inv tn (ps @ [p]) (s\<lparr>rs_ordinal := rs_ordinal s + 1, rs_columns := rs_columns s @ [c], rs_foreignKeys := rs_foreignKeys s @ fks\<rparr>)"
          unfolding read_inv_def using m o' [OF c [THEN conjunct2]] c nb by (auto intro!: exI [of _ ms])
        then show ?thesis using C nb Some by (simp add: read_property_def Let_def fks_def)
      qed
    qed
  qed
qed

lemma read_properties_inv: "read_inv tn (en_properties e) (read_properties e tn d)"
proof -
  have "read_inv tn ps (fold (read_property e tn d) ps \<lparr>rs_columns = [], rs_foreignKeys = [], rs_skipped = [], rs_ordinal = 0\<rparr>)" for ps
    by (induction ps rule: rev_induct) (simp_all add: read_inv_step, simp add: read_inv_def)
  then show ?thesis by (simp add: read_properties_def)
qed

lemma fold_read_index:
  assumes "distinct (map i_name out)" "\<forall>i\<in>set out. set (i_columns i) \<inter> set sk = {}"
  shows "distinct (map i_name (fold (read_index tn d sk) xs out)) \<and> (\<forall>i\<in>set (fold (read_index tn d sk) xs out). set (i_columns i) \<inter> set sk = {})"
  using assms
proof (induction xs arbitrary: out)
  case (Cons x xs)
  have "distinct (map i_name (read_index tn d sk x out))" "\<forall>i\<in>set (read_index tn d sk x out). set (i_columns i) \<inter> set sk = {}"
    using Cons.prems by (auto simp: read_index_def Let_def)
  then show ?case using Cons.IH by simp
qed simp

lemma readTableSchema_wf:
  assumes "distinct (map p_name (en_properties e))"
  shows "wf_table (readTableSchema e tn d)"
proof -
  have "mset (map c_name (rs_columns (read_properties e tn d)) @ rs_skipped (read_properties e tn d))
      = mset (map p_name (filter (\<lambda>p. \<not> p_isBackReference p) (en_properties e)))"
    using read_properties_inv [of tn e d] unfolding read_inv_def by blast
  moreover have "distinct (map p_name (filter (\<lambda>p. \<not> p_isBackReference p) (en_properties e)))"
    using assms by (rule distinct_map_filter)
  ultimately have "distinct (map c_name (rs_columns (read_properties e tn d)) @ rs_skipped (read_properties e tn d))"
    using mset_eq_imp_distinct_iff by blast
  then show ?thesis by (simp add: wf_table_def readTableSchema_def Let_def plain_table_def)
qed

text \<open>C10. The table read from an entity accounts for every property: the columns and the skipped names are the
  properties that are no back references, each once; columns stand in the order of increasing ordinals; index
  names are unique and no index uses a skipped column; and foreign key names are unique, each key being on one column of the table.\<close>

theorem readTableSchema_accounts:
  assumes "distinct (map p_name (en_properties e))" "readTableSchema e tn d = t"
  shows "wf_table t \<and> distinct (t_skippedColumns t) \<and> c_name ` set (t_columns t) \<inter> set (t_skippedColumns t) = {}
    \<and> c_name ` set (t_columns t) \<union> set (t_skippedColumns t) = {p_name p | p. p \<in> set (en_properties e) \<and> \<not> p_isBackReference p}
    \<and> sorted_wrt (<) (map c_ordinalPosition (t_columns t))
    \<and> distinct (map i_name (t_indexes t)) \<and> (\<forall>i\<in>set (t_indexes t). set (i_columns i) \<inter> set (t_skippedColumns t) = {})
    \<and> distinct (map f_name (t_foreignKeys t)) \<and> (\<forall>f\<in>set (t_foreignKeys t). \<exists>c\<in>set (t_columns t). f_columns f = [c_name c])"
proof -
  define s where "s = read_properties e tn d"
  have t: "t_columns t = rs_columns s" "t_skippedColumns t = rs_skipped s" "t_foreignKeys t = rs_foreignKeys s"
    "t_indexes t = fold (read_index tn d (rs_skipped s)) (en_indexes e) []"
    using assms(2) by (auto simp: readTableSchema_def Let_def s_def plain_table_def)
  have inv: "read_inv tn (en_properties e) s" unfolding s_def by (rule read_properties_inv)
  obtain ns where ns: "subseq ns (map c_name (rs_columns s))" "map f_name (rs_foreignKeys s) = map (\<lambda>n. ''fk_'' @ tn @ ''_'' @ n) ns"
      "map f_columns (rs_foreignKeys s) = map (\<lambda>n. [n]) ns"
    and m: "mset (map c_name (rs_columns s) @ rs_skipped s) = mset (map p_name (filter (\<lambda>p. \<not> p_isBackReference p) (en_properties e)))"
    and o: "sorted_wrt (<) (map c_ordinalPosition (rs_columns s))"
    using inv unfolding read_inv_def by blast
  have "distinct (map p_name (filter (\<lambda>p. \<not> p_isBackReference p) (en_properties e)))"
    using assms(1) by (rule distinct_map_filter)
  then have d: "distinct (map c_name (rs_columns s) @ rs_skipped s)" using mset_eq_imp_distinct_iff [OF m] by simp
  have names: "c_name ` set (rs_columns s) \<union> set (rs_skipped s) = {p_name p | p. p \<in> set (en_properties e) \<and> \<not> p_isBackReference p}"
    using mset_eq_setD [OF m] by auto
  have "distinct ns" using ns(1) d by (auto simp: subseq_conv_nths intro: distinct_nthsI)
  then have fk: "distinct (map f_name (rs_foreignKeys s))" unfolding ns(2) by (simp add: distinct_map inj_on_def)
  have col: "\<exists>c\<in>set (rs_columns s). f_columns f = [c_name c]" if "f \<in> set (rs_foreignKeys s)" for f
  proof -
    have "f_columns f \<in> set (map f_columns (rs_foreignKeys s))" using that by simp
    then obtain n where "n \<in> set ns" "f_columns f = [n]" unfolding ns(3) by auto
    moreover have "set ns \<subseteq> c_name ` set (rs_columns s)" using ns(1) by (auto simp: subseq_conv_nths dest: notin_set_nthsI in_set_nthsD)
    ultimately show ?thesis by auto
  qed
  show ?thesis unfolding t wf_table_def using d names o fk col fold_read_index [of "[]" "rs_skipped s" tn d "en_indexes e"] by auto
qed

section \<open>Enumerated types\<close>

text \<open>The values of a union of string or number literals and of an enum whose members are all strings or all numbers.\<close>

datatype enum_datum = VStr string | VNum rat

definition member_strings :: "enum_member list \<Rightarrow> string list" where
  "member_strings ms = List.map_filter (\<lambda>m. case m of EmString x \<Rightarrow> Some x | _ \<Rightarrow> None) ms"

definition member_numbers :: "enum_member list \<Rightarrow> rat list" where
  "member_numbers ms = List.map_filter (\<lambda>m. case m of EmNumber x \<Rightarrow> Some x | _ \<Rightarrow> None) ms"

fun enumerated :: "js_type \<Rightarrow> enum_datum list option" where
  "enumerated (JsType a (KUnion types)) =
     (let ts = filter (\<lambda>t. \<not> is_absent t) types
      in if length ts \<le> 1 then None
         else if length (literal_strings ts) = length ts then Some (map VStr (literal_strings ts))
         else if length (literal_numbers ts) = length ts then Some (map VNum (literal_numbers ts))
         else None)"
| "enumerated (JsType a (KEnum members)) =
     (let ms = filter (\<lambda>v. v \<noteq> EmMissing) members
      in if ms = [] then None
         else if length (member_strings ms) = length ms then Some (map VStr (member_strings ms))
         else if length (member_numbers ms) = length ms then Some (map VNum (member_numbers ms))
         else None)"
| "enumerated _ = None"

text \<open>The integers a column type holds, as the two databases document them.\<close>

definition int_range :: "string \<Rightarrow> bool \<Rightarrow> (rat \<times> rat) option" where
  "int_range t u =
     (if t = ''tinyint'' then Some (if u then (0, 255) else (- 128, 127))
      else if t = ''smallint'' then Some (if u then (0, 65535) else (- 32768, 32767))
      else if t = ''int'' then Some (if u then (0, 4294967295) else (- 2147483648, 2147483647))
      else None)"

fun storable :: "dialect \<Rightarrow> resolved_type \<Rightarrow> enum_datum \<Rightarrow> bool" where
  "storable d r (VStr s) \<longleftrightarrow> rt_type r = ''enum'' \<and> (case rt_enumValues r of Some vs \<Rightarrow> s \<in> set vs | None \<Rightarrow> False)
     \<and> (rt_enumTypeName r = None \<longleftrightarrow> d = MySQL)"
| "storable d r (VNum x) \<longleftrightarrow> x \<in> \<int> \<and> (d = Postgres \<longrightarrow> rt_type r \<noteq> ''tinyint'' \<and> \<not> rt_unsigned r)
     \<and> (case int_range (rt_type r) (rt_unsigned r) of Some (lo, hi) \<Rightarrow> lo \<le> x \<and> x \<le> hi | None \<Rightarrow> False)"

lemma storable_string_enum: "s \<in> set vs \<Longrightarrow> storable d (string_enum d n tn vs) (VStr s)"
  by (cases d) (simp_all add: string_enum_def just_type_def)

lemma list_min_le: "x \<in> set xs \<Longrightarrow> list_min xs \<le> x"
  by (cases xs) (auto simp: list_min_def Min.set_eq_fold [symmetric])

lemma list_max_ge: "x \<in> set xs \<Longrightarrow> x \<le> list_max xs"
  by (cases xs) (auto simp: list_max_def Max.set_eq_fold [symmetric])

lemma storable_integer_type:
  assumes "x \<in> set xs" "x \<in> \<int>" "- 2147483648 \<le> x" "x \<le> 2147483647"
  shows "storable d (integer_type d xs) (VNum x)"
  using assms list_min_le [OF assms(1)] list_max_ge [OF assms(1)]
  by (auto simp: integer_type_def Let_def just_type_def int_range_def)

text \<open>C9. The column type of an enumerated property can hold every value of the property: a union of string
  literals or a string enum becomes an enum type with all its values (and a type name in PostgreSQL), and a
  union of integers or an integer enum within 32 bits becomes an integer type of the dialect whose range
  contains them all.\<close>

theorem enumerated_type_holds_values:
  assumes "enumerated (JsType a k) = Some vs" "own_annotations a d = None"
    and "\<forall>x. VNum x \<in> set vs \<longrightarrow> x \<in> \<int> \<and> - 2147483648 \<le> x \<and> x \<le> 2147483647"
  shows "\<exists>r. resolveColumnType (JsType a k) n d tn = Some r \<and> (\<forall>v\<in>set vs. storable d r v)"
proof -
  have num: "\<forall>v\<in>set (map VNum xs). storable d (integer_type d xs) v" if "vs = map VNum xs" for xs
    using assms(3) that storable_integer_type by auto
  have str: "\<forall>v\<in>set (map VStr xs). storable d (string_enum d n tn xs) v" for xs
    by (auto simp del: storable.simps intro: storable_string_enum)
  show ?thesis
  proof (cases k)
    case (KUnion types)
    define ts where "ts = filter (\<lambda>t. \<not> is_absent t) types"
    have two: "1 < length ts" using assms(1) unfolding KUnion by (simp add: ts_def [symmetric] Let_def split: if_splits)
    then obtain t t' us where ts: "ts = t # t' # us" by (cases ts; cases "tl ts") auto
    have r: "resolveColumnType (JsType a k) n d tn =
      (if length (literal_strings ts) = length ts then Some (string_enum d n tn (literal_strings ts))
       else if length (literal_numbers ts) = length ts then Some (integer_type d (literal_numbers ts))
       else resolveColumnType t n d tn)"
      unfolding KUnion resolveColumnType.simps(1) type_kind.case Let_def ts_def [symmetric] unfolding ts by simp
    have v: "(if length (literal_strings ts) = length ts then Some (map VStr (literal_strings ts))
         else if length (literal_numbers ts) = length ts then Some (map VNum (literal_numbers ts)) else None) = Some vs"
      using assms(1) two unfolding KUnion enumerated.simps Let_def ts_def [symmetric] by simp
    show ?thesis
    proof (cases "length (literal_strings ts) = length ts")
      case True
      with v have "vs = map VStr (literal_strings ts)" by simp
      with True show ?thesis unfolding r using str by simp
    next
      case False
      with v have "length (literal_numbers ts) = length ts" "vs = map VNum (literal_numbers ts)" by (simp_all split: if_splits)
      with False show ?thesis unfolding r using num by simp
    qed
  next
    case (KEnum members)
    define ms where "ms = filter (\<lambda>v. v \<noteq> EmMissing) members"
    have r: "resolveColumnType (JsType a k) n d tn = resolveEnumType members n d tn"
      unfolding KEnum resolveColumnType.simps(1) by (simp add: assms(2))
    have v: "ms \<noteq> []" "(if length (member_strings ms) = length ms then Some (map VStr (member_strings ms))
         else if length (member_numbers ms) = length ms then Some (map VNum (member_numbers ms)) else None) = Some vs"
      using assms(1) unfolding KEnum enumerated.simps Let_def ms_def [symmetric] by (simp_all split: if_splits)
    obtain m mr where m: "ms = m # mr" using v(1) by (cases ms) auto
    have le: "length (List.map_filter f xs) \<le> length xs" for f :: "enum_member \<Rightarrow> 'x option" and xs
      by (induction xs) (auto simp: map_filter_simps split: option.splits)
    show ?thesis
    proof (cases "length (member_strings ms) = length ms")
      case True
      then obtain x where x: "m = EmString x"
        using le [of "\<lambda>m. case m of EmString x \<Rightarrow> Some x | _ \<Rightarrow> None" mr]
        by (cases m) (auto simp: m member_strings_def map_filter_simps)
      have vs: "vs = map VStr (member_strings ms)" using v True by simp
      have "resolveEnumType members n d tn = Some (string_enum d n tn (member_strings ms))"
        unfolding resolveEnumType_def ms_def [symmetric] m x by (simp add: member_strings_def map_filter_simps)
      then show ?thesis unfolding r vs using str by simp
    next
      case False
      then have N: "length (member_numbers ms) = length ms" and vs: "vs = map VNum (member_numbers ms)" using v by (simp_all split: if_splits)
      obtain x where x: "m = EmNumber x"
        using N le [of "\<lambda>m. case m of EmNumber x \<Rightarrow> Some x | _ \<Rightarrow> None" mr]
        by (cases m) (auto simp: m member_numbers_def map_filter_simps)
      have "resolveEnumType members n d tn = Some (integer_type d (member_numbers ms))"
        unfolding resolveEnumType_def ms_def [symmetric] m x by (simp add: member_numbers_def map_filter_simps)
      then show ?thesis unfolding r using num [OF vs] unfolding vs by simp
    qed
  qed (use assms(1) in simp_all)
qed

definition level_type :: js_type where
  "level_type = JsType no_annotations (KUnion (JsType no_annotations KUndefined #
     map (\<lambda>x. JsType no_annotations (KLiteral (LitNumber x))) [- 1, 300, 7]))"

theorem enumerated_type_holds_values_witness:
  "\<exists>r. resolveColumnType level_type ''level'' MySQL (Some ''logs'') = Some r \<and> (\<forall>v\<in>{VNum (- 1), VNum 300, VNum 7}. storable MySQL r v)"
proof -
  have e: "enumerated level_type = Some [VNum (- 1), VNum 300, VNum 7]"
    by (simp add: level_type_def is_absent_def literal_strings_def literal_numbers_def map_filter_simps)
  have o: "own_annotations no_annotations MySQL = None" by code_simp
  have b: "\<forall>x. VNum x \<in> set [VNum (- 1), VNum 300, VNum 7] \<longrightarrow> x \<in> \<int> \<and> - 2147483648 \<le> x \<and> x \<le> 2147483647" by auto
  show ?thesis using enumerated_type_holds_values [OF e [unfolded level_type_def] o b] unfolding level_type_def by simp
qed

text \<open>Outside these bounds the chosen type does not hold its values: a fraction, or an integer beyond 32 bits.\<close>

lemma fractional_union_is_an_integer:
  "resolveColumnType (JsType no_annotations (KUnion (map (\<lambda>x. JsType no_annotations (KLiteral (LitNumber x))) [1 / 2, 3 / 2]))) n d tn
     = Some (if d = MySQL then (just_type ''tinyint'')\<lparr>rt_unsigned := True\<rparr> else just_type ''smallint'')"
  by (simp add: resolveColumnType.simps is_absent_def literal_strings_def literal_numbers_def map_filter_simps integer_type_def
    list_min_def list_max_def)

text \<open>A reference to an entity whose key is an enum gets the type \<open>enum\<close> without its values.\<close>

lemma reference_loses_enum_values:
  assumes "readReferenceColumn prop r k d tn = Some c"
  shows "c_enumValues c = None"
  using assms by (auto simp: readReferenceColumn_def typed_column_def basic_column_def split: list.splits)

definition sample_entity :: entity where
  "sample_entity = (let p = \<lparr>p_name = ''id'', p_type = JsType no_annotations KNumber, p_isBackReference = False, p_isOptional = False,
       p_isNullable = False, p_isAutoIncrement = True, p_isPrimaryKey = True, p_reference = None, p_onDelete = None, p_onUpdate = None\<rparr>
     in \<lparr>en_collectionName = Some ''users'', en_name = Some ''User'',
         en_properties = [p, p\<lparr>p_name := ''email'', p_type := JsType no_annotations KString, p_isAutoIncrement := False, p_isPrimaryKey := False\<rparr>],
         en_indexes = [\<lparr>x_names = [''email''], x_name = None, x_unique = True, x_spatial = False\<rparr>],
         en_defaultInstance = None\<rparr>)"

theorem readTableSchema_accounts_witness:
  "wf_table (readTableSchema sample_entity ''users'' MySQL) \<and> distinct (map i_name (t_indexes (readTableSchema sample_entity ''users'' MySQL)))"
  using readTableSchema_accounts [of sample_entity "''users''" MySQL, OF _ refl] by (simp add: sample_entity_def Let_def)

end
