(* ===== verification/Builder.thy ===== *)
theory Builder
  imports Grammars
begin

text \<open>
  The schema builder, \<open>src/src/database/schema/\<close>: \<open>BlueprintBase.ts\<close> with its two subclasses \<open>Blueprint.ts\<close> and
  \<open>AlterBlueprint.ts\<close>, and \<open>ColumnDefinition.ts\<close>.

  A blueprint is the record of its fields.  The column objects it hands out are changed through their
  \<open>ColumnDefinition\<close> after they were added, so the lists of the subclasses hold references: a column is its
  index in \<open>bp_store\<close>, and a foreign key its index in \<open>bp_foreignKeys\<close>.  What both subclasses call differently is
  one field: \<open>bp_columns\<close> is \<open>Blueprint.columns\<close> or \<open>AlterBlueprint.addedColumns\<close>.  The extension of the
  record is the subclass \<open>AlterBlueprint\<close>.
\<close>

section \<open>Blueprints\<close>

record blueprint =
  bp_tableName :: string
  bp_grammar :: grammar
  bp_store :: "column list"
  bp_columns :: "nat list"
  bp_indexes :: "index_schema list"
  bp_foreignKeys :: "foreign_key list"

record alter_blueprint = blueprint +
  ab_modifiedColumns :: "nat list"
  ab_droppedColumns :: "string list"
  ab_renamedColumns :: "(string \<times> string) list"
  ab_droppedIndexes :: "string list"
  ab_droppedForeignKeys :: "string list"
  ab_newPrimaryKey :: "string list option"
  ab_dropsPrimaryKey :: bool

definition new_blueprint :: "string \<Rightarrow> grammar \<Rightarrow> blueprint" where
  "new_blueprint name g = \<lparr>bp_tableName = name, bp_grammar = g, bp_store = [], bp_columns = [], bp_indexes = [], bp_foreignKeys = []\<rparr>"

definition new_alter :: "string \<Rightarrow> grammar \<Rightarrow> alter_blueprint" where
  "new_alter name g =
     \<lparr>bp_tableName = name, bp_grammar = g, bp_store = [], bp_columns = [], bp_indexes = [], bp_foreignKeys = [],
      ab_modifiedColumns = [], ab_droppedColumns = [], ab_renamedColumns = [], ab_droppedIndexes = [], ab_droppedForeignKeys = [],
      ab_newPrimaryKey = None, ab_dropsPrimaryKey = False\<rparr>"

text \<open>\<open>addColumnImpl\<close> returns the \<open>ColumnDefinition\<close> of the new column: its reference.\<close>

definition addColumnImpl :: "column \<Rightarrow> 'a blueprint_scheme \<Rightarrow> nat \<times> 'a blueprint_scheme" where
  "addColumnImpl col b = (length (bp_store b), b\<lparr>bp_store := bp_store b @ [col], bp_columns := bp_columns b @ [length (bp_store b)]\<rparr>)"

definition addIndexImpl :: "index_schema \<Rightarrow> 'a blueprint_scheme \<Rightarrow> 'a blueprint_scheme" where
  "addIndexImpl idx b = b\<lparr>bp_indexes := bp_indexes b @ [idx]\<rparr>"

definition addForeignKeyImpl :: "foreign_key \<Rightarrow> 'a blueprint_scheme \<Rightarrow> 'a blueprint_scheme" where
  "addForeignKeyImpl fk b = b\<lparr>bp_foreignKeys := bp_foreignKeys b @ [fk]\<rparr>"

section \<open>Column types\<close>

text \<open>The column each method adds, for the dialect of the grammar and the table of the blueprint.\<close>

definition bp_id :: "string \<Rightarrow> column" where
  "bp_id name = (basic_column name ''bigint'')\<lparr>c_unsigned := True, c_autoIncrement := True, c_isPrimaryKey := True\<rparr>"

definition bp_string :: "string \<Rightarrow> int \<Rightarrow> column" where
  "bp_string name len = (basic_column name ''varchar'')\<lparr>c_size := Some len\<rparr>"

definition bp_char :: "string \<Rightarrow> int \<Rightarrow> column" where
  "bp_char name len = (basic_column name ''char'')\<lparr>c_size := Some len\<rparr>"

definition bp_text :: "string \<Rightarrow> column" where
  "bp_text name = basic_column name ''text''"

definition bp_tinyint :: "string \<Rightarrow> column" where
  "bp_tinyint name = basic_column name ''tinyint''"

definition bp_smallint :: "string \<Rightarrow> column" where
  "bp_smallint name = basic_column name ''smallint''"

definition bp_integer :: "string \<Rightarrow> column" where
  "bp_integer name = basic_column name ''int''"

definition bp_bigInteger :: "string \<Rightarrow> column" where
  "bp_bigInteger name = basic_column name ''bigint''"

definition bp_boolean :: "string \<Rightarrow> column" where
  "bp_boolean name = basic_column name ''boolean''"

definition bp_float :: "string \<Rightarrow> column" where
  "bp_float name = basic_column name ''float''"

definition bp_double :: "string \<Rightarrow> column" where
  "bp_double name = basic_column name ''double''"

definition bp_decimal :: "string \<Rightarrow> int option \<Rightarrow> int option \<Rightarrow> column" where
  "bp_decimal name precision scale = (basic_column name ''decimal'')\<lparr>c_size := precision, c_scale := scale\<rparr>"

definition bp_date :: "string \<Rightarrow> column" where
  "bp_date name = basic_column name ''date''"

definition bp_dateTime :: "dialect \<Rightarrow> string \<Rightarrow> column" where
  "bp_dateTime d name = basic_column name (if d = MySQL then ''datetime'' else ''timestamp'')"

definition bp_timestamp :: "string \<Rightarrow> column" where
  "bp_timestamp name = basic_column name ''timestamp''"

definition bp_timestamptz :: "dialect \<Rightarrow> string \<Rightarrow> column" where
  "bp_timestamptz d name = basic_column name (if d = MySQL then ''timestamp'' else ''timestamptz'')"

definition bp_binary :: "dialect \<Rightarrow> string \<Rightarrow> int \<Rightarrow> column" where
  "bp_binary d name len = (basic_column name (if d = MySQL then ''binary'' else ''bytea''))\<lparr>c_size := Some len\<rparr>"

definition bp_blob :: "dialect \<Rightarrow> string \<Rightarrow> column" where
  "bp_blob d name = basic_column name (if d = MySQL then ''blob'' else ''bytea'')"

definition bp_json :: "string \<Rightarrow> column" where
  "bp_json name = basic_column name ''json''"

definition bp_jsonb :: "dialect \<Rightarrow> string \<Rightarrow> column" where
  "bp_jsonb d name = basic_column name (if d = MySQL then ''json'' else ''jsonb'')"

definition bp_uuid :: "dialect \<Rightarrow> string \<Rightarrow> column" where
  "bp_uuid d name = (if d = MySQL then (basic_column name ''binary'')\<lparr>c_size := Some 16\<rparr> else basic_column name ''uuid'')"

definition bp_uuidString :: "string \<Rightarrow> column" where
  "bp_uuidString name = (basic_column name ''char'')\<lparr>c_size := Some 36\<rparr>"

definition bp_enum :: "string \<Rightarrow> string \<Rightarrow> string list \<Rightarrow> string option \<Rightarrow> column" where
  "bp_enum tableName name values typeName =
     (basic_column name ''enum'')\<lparr>c_enumValues := Some values,
        c_enumTypeName := Some (nullish typeName (tableName @ ''_'' @ name @ ''_enum''))\<rparr>"

datatype builder_error = PointUnsupported dialect | UnsupportedColumnType string string

definition bp_point :: "dialect \<Rightarrow> string \<Rightarrow> (builder_error, column) result" where
  "bp_point d name = (if d \<noteq> MySQL then Inl (PointUnsupported d) else Inr (basic_column name ''point''))"

text \<open>A call of one of these methods; an omitted argument is \<open>None\<close>.\<close>

datatype column_call =
    CId "string option" | CString string "int option" | CChar string "int option" | CText string | CTinyint string | CSmallint string
  | CInteger string | CBigInteger string | CBoolean string | CFloat string | CDouble string
  | CDecimal string "int option" "int option" | CDate string | CDateTime string | CTimestamp string | CTimestamptz string
  | CBinary string "int option" | CBlob string | CJson string | CJsonb string | CUuid string | CUuidString string
  | CEnum string "string list" "string option" | CPoint string

fun column_literal :: "dialect \<Rightarrow> string \<Rightarrow> column_call \<Rightarrow> (builder_error, column) result" where
  "column_literal d t (CId n) = Inr (bp_id (nullish n ''id''))"
| "column_literal d t (CString n k) = Inr (bp_string n (nullish k 255))"
| "column_literal d t (CChar n k) = Inr (bp_char n (nullish k 1))"
| "column_literal d t (CText n) = Inr (bp_text n)"
| "column_literal d t (CTinyint n) = Inr (bp_tinyint n)"
| "column_literal d t (CSmallint n) = Inr (bp_smallint n)"
| "column_literal d t (CInteger n) = Inr (bp_integer n)"
| "column_literal d t (CBigInteger n) = Inr (bp_bigInteger n)"
| "column_literal d t (CBoolean n) = Inr (bp_boolean n)"
| "column_literal d t (CFloat n) = Inr (bp_float n)"
| "column_literal d t (CDouble n) = Inr (bp_double n)"
| "column_literal d t (CDecimal n p s) = Inr (bp_decimal n p s)"
| "column_literal d t (CDate n) = Inr (bp_date n)"
| "column_literal d t (CDateTime n) = Inr (bp_dateTime d n)"
| "column_literal d t (CTimestamp n) = Inr (bp_timestamp n)"
| "column_literal d t (CTimestamptz n) = Inr (bp_timestamptz d n)"
| "column_literal d t (CBinary n k) = Inr (bp_binary d n (nullish k 16))"
| "column_literal d t (CBlob n) = Inr (bp_blob d n)"
| "column_literal d t (CJson n) = Inr (bp_json n)"
| "column_literal d t (CJsonb n) = Inr (bp_jsonb d n)"
| "column_literal d t (CUuid n) = Inr (bp_uuid d n)"
| "column_literal d t (CUuidString n) = Inr (bp_uuidString n)"
| "column_literal d t (CEnum n vs ty) = Inr (bp_enum t n vs ty)"
| "column_literal d t (CPoint n) = bp_point d n"

section \<open>Indexes and foreign keys\<close>

definition defaultIndexName :: "'a blueprint_scheme \<Rightarrow> string list \<Rightarrow> string \<Rightarrow> string" where
  "defaultIndexName b columns suffix = bp_tableName b @ ''_'' @ join ''_'' columns @ ''_'' @ suffix"

definition bp_index :: "string list \<Rightarrow> string option \<Rightarrow> 'a blueprint_scheme \<Rightarrow> 'a blueprint_scheme" where
  "bp_index cols name b =
     addIndexImpl \<lparr>i_name = nullish name (defaultIndexName b cols ''index''), i_columns = cols, i_unique = False, i_spatial = False\<rparr> b"

definition bp_unique :: "string list \<Rightarrow> string option \<Rightarrow> 'a blueprint_scheme \<Rightarrow> 'a blueprint_scheme" where
  "bp_unique cols name b =
     addIndexImpl \<lparr>i_name = nullish name (defaultIndexName b cols ''unique''), i_columns = cols, i_unique = True, i_spatial = False\<rparr> b"

definition spatialIndex :: "string list \<Rightarrow> string option \<Rightarrow> 'a blueprint_scheme \<Rightarrow> 'a blueprint_scheme" where
  "spatialIndex cols name b =
     addIndexImpl \<lparr>i_name = nullish name (defaultIndexName b cols ''spatial''), i_columns = cols, i_unique = False, i_spatial = True\<rparr> b"

definition foreign :: "string list \<Rightarrow> string option \<Rightarrow> 'a blueprint_scheme \<Rightarrow> nat \<times> 'a blueprint_scheme" where
  "foreign cols constraintName b =
     (length (bp_foreignKeys b),
      addForeignKeyImpl \<lparr>f_name = nullish constraintName (defaultIndexName b cols ''foreign''), f_columns = cols, f_referencedTable = [],
        f_referencedColumns = [], f_onDelete = ''RESTRICT'', f_onUpdate = ''RESTRICT''\<rparr> b)"

text \<open>\<open>ForeignKeyBuilder\<close>\<close>

datatype fk_modifier = FReferences string | FReferencesAll "string list" | FOn string | FOnDelete string | FOnUpdate string | FName string

fun modify_fk :: "fk_modifier \<Rightarrow> foreign_key \<Rightarrow> foreign_key" where
  "modify_fk (FReferences c) fk = fk\<lparr>f_referencedColumns := [c]\<rparr>"
| "modify_fk (FReferencesAll cs) fk = fk\<lparr>f_referencedColumns := cs\<rparr>"
| "modify_fk (FOn t) fk = fk\<lparr>f_referencedTable := t\<rparr>"
| "modify_fk (FOnDelete a) fk = fk\<lparr>f_onDelete := a\<rparr>"
| "modify_fk (FOnUpdate a) fk = fk\<lparr>f_onUpdate := a\<rparr>"
| "modify_fk (FName n) fk = fk\<lparr>f_name := n\<rparr>"

definition modify_fk_at :: "nat \<Rightarrow> fk_modifier list \<Rightarrow> 'a blueprint_scheme \<Rightarrow> 'a blueprint_scheme" where
  "modify_fk_at k ms b = b\<lparr>bp_foreignKeys := (bp_foreignKeys b)[k := fold modify_fk ms (bp_foreignKeys b ! k)]\<rparr>"

section \<open>Column definitions\<close>

text \<open>The methods that set a field of the column.\<close>

datatype column_setter =
    SNullable bool | SNotNull | SDefault js_value | SDefaultRaw string | SUnsigned bool | SOnUpdate string | SAutoIncrement bool
  | SPrimary | SAfter string | SFirst

fun set_column :: "column_setter \<Rightarrow> column \<Rightarrow> column" where
  "set_column (SNullable v) c = c\<lparr>c_nullable := v\<rparr>"
| "set_column SNotNull c = c\<lparr>c_nullable := False\<rparr>"
| "set_column (SDefault v) c = c\<lparr>c_defaultValue := Some v, c_defaultExpression := None\<rparr>"
| "set_column (SDefaultRaw e) c = c\<lparr>c_defaultExpression := Some e, c_defaultValue := None\<rparr>"
| "set_column (SUnsigned v) c = c\<lparr>c_unsigned := v\<rparr>"
| "set_column (SOnUpdate e) c = c\<lparr>c_onUpdateExpression := Some e\<rparr>"
| "set_column (SAutoIncrement v) c = c\<lparr>c_autoIncrement := v\<rparr>"
| "set_column SPrimary c = c\<lparr>c_isPrimaryKey := True\<rparr>"
| "set_column (SAfter a) c = c\<lparr>c_afterColumn := Some (Some a)\<rparr>"
| "set_column SFirst c = c\<lparr>c_afterColumn := Some None\<rparr>"

text \<open>The methods that also reach the blueprint.\<close>

datatype column_modifier =
    MSet column_setter | MUnique "string option" | MIndex "string option" | MReferences string "fk_modifier list" | MChange

text \<open>\<open>markColumnAsModified\<close> moves the column, if it is among the added ones; a blueprint that creates a table
does not have the method.\<close>

definition markColumnAsModified :: "nat \<Rightarrow> alter_blueprint \<Rightarrow> alter_blueprint" where
  "markColumnAsModified k b =
     (if k \<in> set (bp_columns b) then b\<lparr>bp_columns := remove1 k (bp_columns b), ab_modifiedColumns := ab_modifiedColumns b @ [k]\<rparr> else b)"

fun modify_column :: "(nat \<Rightarrow> 'a blueprint_scheme \<Rightarrow> 'a blueprint_scheme) \<Rightarrow> nat \<Rightarrow> column_modifier \<Rightarrow> 'a blueprint_scheme \<Rightarrow> 'a blueprint_scheme" where
  "modify_column mark k (MSet m) b = b\<lparr>bp_store := (bp_store b)[k := set_column m (bp_store b ! k)]\<rparr>"
| "modify_column mark k (MUnique n) b = bp_unique [c_name (bp_store b ! k)] n b"
| "modify_column mark k (MIndex n) b = bp_index [c_name (bp_store b ! k)] n b"
| "modify_column mark k (MReferences c ms) b =
     (let (f, b1) = foreign [c_name (bp_store b ! k)] None b in modify_fk_at f (FReferences c # ms) b1)"
| "modify_column mark k MChange b = mark k b"

section \<open>Building\<close>

text \<open>A statement of a migration on its blueprint: a column with its chain of methods, an index, a foreign key, or
the primary key.\<close>

datatype blueprint_call =
    BColumn column_call "column_modifier list" | BTimestamps | BIndex "string list" "string option" | BUnique "string list" "string option"
  | BSpatialIndex "string list" "string option" | BForeign "string list" "string option" "fk_modifier list" | BPrimary "string list"

definition add_column :: "(nat \<Rightarrow> 'a blueprint_scheme \<Rightarrow> 'a blueprint_scheme) \<Rightarrow> column \<Rightarrow> column_modifier list \<Rightarrow> 'a blueprint_scheme \<Rightarrow> 'a blueprint_scheme" where
  "add_column mark col ms b = (let (k, b1) = addColumnImpl col b in fold (modify_column mark k) ms b1)"

definition bp_timestamps :: "(nat \<Rightarrow> 'a blueprint_scheme \<Rightarrow> 'a blueprint_scheme) \<Rightarrow> 'a blueprint_scheme \<Rightarrow> 'a blueprint_scheme" where
  "bp_timestamps mark b =
     (let d = g_dialect (bp_grammar b); now = [MSet SNotNull, MSet (SDefaultRaw ''CURRENT_TIMESTAMP'')]
      in add_column mark (bp_dateTime d ''updatedAt'') (now @ (if d = MySQL then [MSet (SOnUpdate ''CURRENT_TIMESTAMP'')] else []))
           (add_column mark (bp_dateTime d ''createdAt'') now b))"

fun run_call :: "(nat \<Rightarrow> 'a blueprint_scheme \<Rightarrow> 'a blueprint_scheme) \<Rightarrow> (string list \<Rightarrow> 'a blueprint_scheme \<Rightarrow> 'a blueprint_scheme)
    \<Rightarrow> blueprint_call \<Rightarrow> 'a blueprint_scheme \<Rightarrow> (builder_error, 'a blueprint_scheme) result" where
  "run_call mark primary (BColumn call ms) b =
     map_result (\<lambda>col. add_column mark col ms b) (column_literal (g_dialect (bp_grammar b)) (bp_tableName b) call)"
| "run_call mark primary BTimestamps b = Inr (bp_timestamps mark b)"
| "run_call mark primary (BIndex cols n) b = Inr (bp_index cols n b)"
| "run_call mark primary (BUnique cols n) b = Inr (bp_unique cols n b)"
| "run_call mark primary (BSpatialIndex cols n) b = Inr (spatialIndex cols n b)"
| "run_call mark primary (BForeign cols n ms) b = (let (f, b1) = foreign cols n b in Inr (modify_fk_at f ms b1))"
| "run_call mark primary (BPrimary cols) b = Inr (primary cols b)"

text \<open>\<open>Blueprint\<close>: \<open>change()\<close> does nothing, \<open>primary\<close> replaces the flags of the columns added so far.\<close>

definition no_mark :: "nat \<Rightarrow> blueprint \<Rightarrow> blueprint" where
  "no_mark k b = b"

definition blueprint_primary :: "string list \<Rightarrow> blueprint \<Rightarrow> blueprint" where
  "blueprint_primary columns b =
     b\<lparr>bp_store := map (\<lambda>c. c\<lparr>c_isPrimaryKey := (c_name c \<in> set columns)\<rparr>) (bp_store b)\<rparr>"

fun run_create :: "blueprint_call list \<Rightarrow> blueprint \<Rightarrow> (builder_error, blueprint) result" where
  "run_create [] b = Inr b"
| "run_create (x # xs) b = bind_result (run_call no_mark blueprint_primary x b) (run_create xs)"

definition build :: "blueprint \<Rightarrow> table_schema" where
  "build b =
     (plain_table (bp_tableName b) (map (\<lambda>i. (bp_store b ! (bp_columns b ! i))\<lparr>c_ordinalPosition := int i + 1\<rparr>) [0..<length (bp_columns b)]))
       \<lparr>t_indexes := bp_indexes b, t_foreignKeys := bp_foreignKeys b\<rparr>"

text \<open>\<open>AlterBlueprint\<close>\<close>

datatype alter_call =
    AOn blueprint_call | ADropColumn string | ARenameColumn string string | ADropIndex string | ADropForeign string | ADropPrimary

definition alter_primary :: "string list \<Rightarrow> alter_blueprint \<Rightarrow> alter_blueprint" where
  "alter_primary columns b = b\<lparr>ab_newPrimaryKey := Some columns\<rparr>"

fun alter_call_step :: "alter_call \<Rightarrow> alter_blueprint \<Rightarrow> (builder_error, alter_blueprint) result" where
  "alter_call_step (AOn c) b = run_call markColumnAsModified alter_primary c b"
| "alter_call_step (ADropColumn n) b = Inr (b\<lparr>ab_droppedColumns := ab_droppedColumns b @ [n]\<rparr>)"
| "alter_call_step (ARenameColumn x y) b = Inr (b\<lparr>ab_renamedColumns := ab_renamedColumns b @ [(x, y)]\<rparr>)"
| "alter_call_step (ADropIndex n) b = Inr (b\<lparr>ab_droppedIndexes := ab_droppedIndexes b @ [n]\<rparr>)"
| "alter_call_step (ADropForeign n) b = Inr (b\<lparr>ab_droppedForeignKeys := ab_droppedForeignKeys b @ [n]\<rparr>)"
| "alter_call_step ADropPrimary b = Inr (b\<lparr>ab_dropsPrimaryKey := True\<rparr>)"

fun run_alter :: "alter_call list \<Rightarrow> alter_blueprint \<Rightarrow> (builder_error, alter_blueprint) result" where
  "run_alter [] b = Inr b"
| "run_alter (x # xs) b = bind_result (alter_call_step x b) (run_alter xs)"

definition added_columns :: "alter_blueprint \<Rightarrow> column list" where
  "added_columns b = map ((!) (bp_store b)) (bp_columns b)"

definition modified_columns_of :: "alter_blueprint \<Rightarrow> column list" where
  "modified_columns_of b = map ((!) (bp_store b)) (ab_modifiedColumns b)"

end
