(* ===== verification/SchemaBuilder.thy ===== *)
theory SchemaBuilder
  imports Builder
begin

text \<open>
  \<open>src/src/database/schema/Schema.ts\<close>: the operations of a migration, and the part of
  \<open>MigrationRunCommand.runCodeMigration\<close> that runs one.  An operation changes the schema object and sends statements to
  the database; it stops at the first error, and what it did before stays done.  The database is the
  parameter \<open>db\<close>: the error message of a statement it rejects.
\<close>

datatype schema_error = BuilderError builder_error | GrammarError sql_error | DatabaseError string

record schema_state =
  sc_enumTypeRegistry :: "string list"
  sc_pendingForeignKeys :: "(string \<times> foreign_key) list"
  sc_executed :: "string list"

definition new_schema :: schema_state where
  "new_schema = \<lparr>sc_enumTypeRegistry = [], sc_pendingForeignKeys = [], sc_executed = []\<rparr>"

section \<open>Actions\<close>

type_synonym action = "schema_state \<Rightarrow> schema_state \<times> schema_error option"

definition done_ok :: action where
  "done_ok s = (s, None)"

definition and_then :: "action \<Rightarrow> action \<Rightarrow> action" where
  "and_then f g s = (case f s of (s', None) \<Rightarrow> g s' | (s', Some e) \<Rightarrow> (s', Some e))"

fun each :: "('a \<Rightarrow> action) \<Rightarrow> 'a list \<Rightarrow> action" where
  "each f [] = done_ok"
| "each f (x # xs) = and_then (f x) (each f xs)"

fun in_order :: "action list \<Rightarrow> action" where
  "in_order [] = done_ok"
| "in_order (a # as) = and_then a (in_order as)"

definition rawExecute :: "(string \<Rightarrow> string option) \<Rightarrow> string \<Rightarrow> action" where
  "rawExecute db stmt s =
     (case db stmt of None \<Rightarrow> (s\<lparr>sc_executed := sc_executed s @ [stmt]\<rparr>, None) | Some e \<Rightarrow> (s, Some (DatabaseError e)))"

section \<open>Operations\<close>

definition ensureEnumType :: "(string \<Rightarrow> string option) \<Rightarrow> grammar \<Rightarrow> string \<Rightarrow> string list \<Rightarrow> action" where
  "ensureEnumType db g name values s =
     (if name \<in> set (sc_enumTypeRegistry s) then (s, None)
      else each (rawExecute db) (g_createEnumType g name values) (s\<lparr>sc_enumTypeRegistry := set_add name (sc_enumTypeRegistry s)\<rparr>))"

definition ensure_enum_of :: "(string \<Rightarrow> string option) \<Rightarrow> grammar \<Rightarrow> column \<Rightarrow> action" where
  "ensure_enum_of db g col =
     (if c_type col = ''enum'' \<and> truthy_str (c_enumTypeName col) \<and> c_enumValues col \<noteq> None
      then ensureEnumType db g (the (c_enumTypeName col)) (the (c_enumValues col)) else done_ok)"

definition defer_fk :: "string \<Rightarrow> foreign_key \<Rightarrow> action" where
  "defer_fk name fk s = (s\<lparr>sc_pendingForeignKeys := sc_pendingForeignKeys s @ [(name, fk)]\<rparr>, None)"

definition schema_create :: "(string \<Rightarrow> string option) \<Rightarrow> grammar \<Rightarrow> string \<Rightarrow> blueprint_call list \<Rightarrow> action" where
  "schema_create db g name calls s =
     (case run_create calls (new_blueprint name g) of
        Inl e \<Rightarrow> (s, Some (BuilderError e))
      | Inr b \<Rightarrow>
          let table = build b
          in in_order [each (ensure_enum_of db g) (t_columns table),
                       rawExecute db (g_createTable g table),
                       each (\<lambda>idx. rawExecute db (g_createIndex g name idx)) (t_indexes table),
                       each (defer_fk name) (t_foreignKeys table)] s)"

definition schema_alter :: "(string \<Rightarrow> string option) \<Rightarrow> grammar \<Rightarrow> string \<Rightarrow> alter_call list \<Rightarrow> action" where
  "schema_alter db g name calls s =
     (case run_alter calls (new_alter name g) of
        Inl e \<Rightarrow> (s, Some (BuilderError e))
      | Inr b \<Rightarrow>
          in_order [each (\<lambda>fkName. rawExecute db (g_dropForeignKey g name fkName)) (ab_droppedForeignKeys b),
                    each (\<lambda>idxName. rawExecute db (g_dropIndex g name idxName)) (ab_droppedIndexes b),
                    (if ab_dropsPrimaryKey b then rawExecute db (g_dropPrimaryKey g name None) else done_ok),
                    each (\<lambda>colName. rawExecute db (g_dropColumn g name colName)) (ab_droppedColumns b),
                    each (\<lambda>(x, y). rawExecute db (g_renameColumn g name x y)) (ab_renamedColumns b),
                    each (ensure_enum_of db g) (added_columns b @ modified_columns_of b),
                    each (\<lambda>col. rawExecute db (g_addColumn g name col)) (added_columns b),
                    each (\<lambda>col. each (rawExecute db) (g_modifyColumn g name col)) (modified_columns_of b),
                    (case ab_newPrimaryKey b of Some cols \<Rightarrow> rawExecute db (g_addPrimaryKey g name cols) | None \<Rightarrow> done_ok),
                    each (\<lambda>idx. rawExecute db (g_createIndex g name idx)) (bp_indexes b),
                    each (defer_fk name) (bp_foreignKeys b)] s)"

text \<open>The foreign keys collected by the migration; a failure leaves them collected.\<close>

definition add_fk :: "(string \<Rightarrow> string option) \<Rightarrow> grammar \<Rightarrow> string \<times> foreign_key \<Rightarrow> action" where
  "add_fk db g p s =
     (case g_addForeignKey g (fst p) (snd p) of Inl e \<Rightarrow> (s, Some (GrammarError e)) | Inr stmt \<Rightarrow> rawExecute db stmt s)"

definition flush :: "(string \<Rightarrow> string option) \<Rightarrow> grammar \<Rightarrow> action" where
  "flush db g s =
     and_then (each (add_fk db g) (sc_pendingForeignKeys s)) (\<lambda>s. (s\<lparr>sc_pendingForeignKeys := [], sc_enumTypeRegistry := []\<rparr>, None)) s"

section \<open>Introspection\<close>

definition escapeLiteral :: "string \<Rightarrow> string" where
  "escapeLiteral s = replace_char squote [squote, squote] s"

definition quoted_literal :: "string \<Rightarrow> string" where
  "quoted_literal s = [squote] @ escapeLiteral s @ [squote]"

definition hasTableSql :: "grammar \<Rightarrow> string \<Rightarrow> string" where
  "hasTableSql g name = tableExistsSql (g_dialect g) name (g_pgSchema g)"

definition hasColumnSql :: "grammar \<Rightarrow> string \<Rightarrow> string \<Rightarrow> string" where
  "hasColumnSql g table column =
     (if g_dialect g = MySQL
      then ''SELECT 1 FROM information_schema.COLUMNS WHERE TABLE_SCHEMA = DATABASE() AND TABLE_NAME = '' @ quoted_literal table
           @ '' AND COLUMN_NAME = '' @ quoted_literal column
      else ''SELECT 1 FROM information_schema.columns WHERE table_schema = '' @ quoted_literal (g_pgSchema g)
           @ '' AND table_name = '' @ quoted_literal table @ '' AND column_name = '' @ quoted_literal column)"

definition hasIndexSql :: "grammar \<Rightarrow> string \<Rightarrow> string \<Rightarrow> string" where
  "hasIndexSql g table indexName =
     (if g_dialect g = MySQL
      then ''SELECT 1 FROM information_schema.STATISTICS WHERE TABLE_SCHEMA = DATABASE() AND TABLE_NAME = '' @ quoted_literal table
           @ '' AND INDEX_NAME = '' @ quoted_literal indexName @ '' LIMIT 1''
      else ''SELECT 1 FROM pg_indexes WHERE schemaname = '' @ quoted_literal (g_pgSchema g)
           @ '' AND tablename = '' @ quoted_literal table @ '' AND indexname = '' @ quoted_literal indexName)"

section \<open>Migrations\<close>

text \<open>A migration function as the sequence of the calls it makes.\<close>

datatype schema_call =
    SCreate string "blueprint_call list" | SAlter string "alter_call list" | SDrop string | SDropIfExists string
  | SRename string string | SEnumType string "string list" | SRaw string | SOnlyOn dialect "schema_call list"

fun schema_call_step :: "(string \<Rightarrow> string option) \<Rightarrow> grammar \<Rightarrow> schema_call \<Rightarrow> action" where
  "schema_call_step db g (SCreate name calls) = schema_create db g name calls"
| "schema_call_step db g (SAlter name calls) = schema_alter db g name calls"
| "schema_call_step db g (SDrop name) = rawExecute db (g_dropTable g name)"
| "schema_call_step db g (SDropIfExists name) = rawExecute db (g_dropTableIfExists g name)"
| "schema_call_step db g (SRename old new) = rawExecute db (g_renameTable g old new)"
| "schema_call_step db g (SEnumType name values) = ensureEnumType db g name values"
| "schema_call_step db g (SRaw sql) = rawExecute db sql"
| "schema_call_step db g (SOnlyOn d calls) = (if g_dialect g = d then in_order (map (schema_call_step db g) calls) else done_ok)"

definition runCodeMigration :: "(string \<Rightarrow> string option) \<Rightarrow> grammar \<Rightarrow> schema_call list \<Rightarrow> action" where
  "runCodeMigration db g calls = and_then (in_order (map (schema_call_step db g) calls)) (flush db g)"

end
