(* ===== verification/BuilderRegenerator.thy ===== *)
theory BuilderRegenerator
  imports SchemaBuilder
begin

text \<open>
  \<open>src/src/database/migration/create/builder-regenerator.ts\<close>: the text of a migration file that makes builder calls.
  The functions follow the source and produce text; the second part names, for the same inputs, the calls the text
  stands for, with a printer.
\<close>

section \<open>The text\<close>

definition FILE_HEADER :: string where
  "FILE_HEADER = ''import { createMigration } from '' @ quoteStr ''@zyno-io/dk-server-foundation'' @ '';'' @ [newline, newline]
     @ ''export default createMigration(async db => {'' @ [newline]"

definition FILE_FOOTER :: string where
  "FILE_FOOTER = [newline] @ ''});'' @ [newline]"

definition str_list :: "string list \<Rightarrow> string" where
  "str_list ss = ''['' @ join '', '' (map quoteStr ss) @ '']''"

definition renderColumnsArg :: "string list \<Rightarrow> string" where
  "renderColumnsArg columns = (case columns of [c] \<Rightarrow> quoteStr c | _ \<Rightarrow> str_list columns)"

text \<open>\<open>JSON.stringify\<close> of a value that is no primitive is the text the value carries.\<close>

definition renderJsValue :: "js_value \<Rightarrow> string" where
  "renderJsValue v = (case v of JStr s \<Rightarrow> quoteStr s | _ \<Rightarrow> js_to_string v)"

definition callText :: "string \<Rightarrow> string list \<Rightarrow> string" where
  "callText f args = f @ ''('' @ join '', '' args @ '')''"

definition pickBuilderMethod :: "column \<Rightarrow> (builder_error, string) result" where
  "pickBuilderMethod col =
     (let t = c_type col; n = quoteStr (c_name col) in
      if t = ''varchar'' then Inr (callText ''string'' [n, num_text (nullish (c_size col) 255)])
      else if t = ''char'' then
        (if c_size col = Some 36 then Inr (callText ''uuidString'' [n]) else Inr (callText ''char'' [n, num_text (nullish (c_size col) 1)]))
      else if t = ''text'' then Inr (callText ''text'' [n])
      else if t = ''tinyint'' then (if c_size col = Some 1 then Inr (callText ''boolean'' [n]) else Inr (callText ''tinyint'' [n]))
      else if t = ''smallint'' then Inr (callText ''smallint'' [n])
      else if t = ''int'' \<or> t = ''integer'' then Inr (callText ''integer'' [n])
      else if t = ''bigint'' then Inr (callText ''bigInteger'' [n])
      else if t = ''boolean'' then Inr (callText ''boolean'' [n])
      else if t = ''float'' \<or> t = ''real'' then Inr (callText ''float'' [n])
      else if t = ''double'' \<or> t = ''double precision'' then Inr (callText ''double'' [n])
      else if t = ''decimal'' \<or> t = ''numeric'' then
        Inr (callText ''decimal'' ([n] @ (case c_size col of None \<Rightarrow> [] | Some k \<Rightarrow> [num_text k]
          @ (case c_scale col of None \<Rightarrow> [] | Some m \<Rightarrow> [num_text m]))))
      else if t = ''date'' then Inr (callText ''date'' [n])
      else if t = ''datetime'' \<or> t = ''timestamp'' then Inr (callText ''dateTime'' [n])
      else if t = ''timestamptz'' then Inr (callText ''timestamptz'' [n])
      else if t = ''binary'' then
        (if c_size col = Some 16 then Inr (callText ''uuid'' [n]) else Inr (callText ''binary'' [n, num_text (nullish (c_size col) 16)]))
      else if t = ''blob'' \<or> t = ''bytea'' then Inr (callText ''blob'' [n])
      else if t = ''json'' then Inr (callText ''json'' [n])
      else if t = ''jsonb'' then Inr (callText ''jsonb'' [n])
      else if t = ''uuid'' then Inr (callText ''uuid'' [n])
      else if t = ''point'' then Inr (callText ''point'' [n])
      else if t = ''enum'' then
        Inr (callText ''enum'' ([n, str_list (nullish (c_enumValues col) [])]
          @ (if truthy_str (c_enumTypeName col) then [quoteStr (the (c_enumTypeName col))] else [])))
      else Inl (UnsupportedColumnType t (c_name col)))"

definition pk_count :: "table_schema \<Rightarrow> nat" where
  "pk_count table = length (filter c_isPrimaryKey (t_columns table))"

text \<open>What \<open>replace\<close> makes of a replacement text, in which a dollar sign can start a pattern: the text before
the match, the match, and the text after it.\<close>

fun js_replacement :: "string \<Rightarrow> string \<Rightarrow> string \<Rightarrow> string \<Rightarrow> string" where
  "js_replacement pre m post (c # d # s) =
     (if c = dollar \<and> d = dollar then dollar # js_replacement pre m post s
      else if c = dollar \<and> d = CHR ''&'' then m @ js_replacement pre m post s
      else if c = dollar \<and> d = backtick then pre @ js_replacement pre m post s
      else if c = dollar \<and> d = squote then post @ js_replacement pre m post s
      else c # js_replacement pre m post (d # s))"
| "js_replacement pre m post s = s"

text \<open>The column with its modifiers and the final semicolon; \<open>extra\<close> is what \<open>renderAlterBlock\<close> puts before the
semicolon with \<open>line.replace(/;$/, ...)\<close>.\<close>

definition renderModifiers :: "column \<Rightarrow> table_schema \<Rightarrow> string" where
  "renderModifiers col table =
     (if c_unsigned col then ''.unsigned()'' else [])
     @ (if c_nullable col then ''.nullable()'' else [])
     @ (if c_autoIncrement col then ''.autoIncrement()'' else [])
     @ (if c_isPrimaryKey col \<and> pk_count table = 1 then ''.primary()'' else [])
     @ (if truthy_str (c_defaultExpression col) then ''.defaultRaw('' @ quoteStr (the (c_defaultExpression col)) @ '')''
        else case c_defaultValue col of Some v \<Rightarrow> ''.default('' @ renderJsValue v @ '')'' | None \<Rightarrow> [])
     @ (if truthy_str (c_onUpdateExpression col) then ''.onUpdate('' @ quoteStr (the (c_onUpdateExpression col)) @ '')'' else [])"

definition renderColumnLine :: "column \<Rightarrow> table_schema \<Rightarrow> (builder_error, string) result" where
  "renderColumnLine col table = map_result (\<lambda>m. ''t.'' @ m @ renderModifiers col table @ '';'') (pickBuilderMethod col)"

definition replace_semicolon :: "string \<Rightarrow> string \<Rightarrow> string" where
  "replace_semicolon extra line = butlast line @ js_replacement (butlast line) '';'' [] extra"

definition renderIndexLine :: "index_schema \<Rightarrow> table_schema \<Rightarrow> string" where
  "renderIndexLine idx table =
     (let colsArg = renderColumnsArg (i_columns idx);
          suffix = (if i_spatial idx then ''spatial'' else if i_unique idx then ''unique'' else ''index'');
          expectedName = t_name table @ ''_'' @ join ''_'' (i_columns idx) @ ''_'' @ suffix;
          nameArg = (if i_name idx = expectedName then [] else '', '' @ quoteStr (i_name idx))
      in (if i_spatial idx then ''t.spatialIndex('' else if i_unique idx then ''t.unique('' else ''t.index('') @ colsArg @ nameArg @ '');'')"

definition renderForeignKeyLine :: "foreign_key \<Rightarrow> table_schema \<Rightarrow> string" where
  "renderForeignKeyLine fk table =
     (let colsArg = renderColumnsArg (f_columns fk);
          expectedName = t_name table @ ''_'' @ join ''_'' (f_columns fk) @ ''_foreign'';
          nameArg = (if f_name fk = expectedName then [] else '', '' @ quoteStr (f_name fk))
      in ''t.foreign('' @ colsArg @ nameArg @ '')''
         @ (case f_referencedColumns fk of [c] \<Rightarrow> ''.references('' @ quoteStr c @ '')'' | cs \<Rightarrow> ''.referencesAll('' @ str_list cs @ '')'')
         @ ''.on('' @ quoteStr (f_referencedTable fk) @ '')''
         @ (if f_onDelete fk \<noteq> [] \<and> to_upper (f_onDelete fk) \<noteq> ''RESTRICT'' then ''.onDelete('' @ quoteStr (f_onDelete fk) @ '')'' else [])
         @ (if f_onUpdate fk \<noteq> [] \<and> to_upper (f_onUpdate fk) \<noteq> ''RESTRICT'' then ''.onUpdate('' @ quoteStr (f_onUpdate fk) @ '')'' else [])
         @ '';'')"

definition indent8 :: "string \<Rightarrow> string" where
  "indent8 line = ''        '' @ line"

definition renderTableBlock :: "table_schema \<Rightarrow> (builder_error, string) result" where
  "renderTableBlock table =
     map_result (\<lambda>cols.
         let pkCols = pk_columns table;
             lines = cols @ (if 1 < length pkCols then [''t.primary('' @ str_list pkCols @ '');''] else [])
               @ map (\<lambda>idx. renderIndexLine idx table) (t_indexes table) @ map (\<lambda>fk. renderForeignKeyLine fk table) (t_foreignKeys table)
         in ''    await db.schema.create('' @ quoteStr (t_name table) @ '', t => {'' @ [newline] @ join [newline] (map indent8 lines)
            @ [newline] @ ''    });'')
       (collect_results (\<lambda>col. renderColumnLine col table) (t_columns table))"

definition generateBuilderMigrationFile :: "table_schema list \<Rightarrow> (builder_error, string) result" where
  "generateBuilderMigrationFile tables =
     map_result (\<lambda>blocks. FILE_HEADER @ join [newline, newline] blocks @ FILE_FOOTER) (collect_results renderTableBlock tables)"

text \<open>The columns before a column in the entity's order, nearest first, that are not added by the same change.\<close>

definition renderPositioning :: "column \<Rightarrow> column list \<Rightarrow> column list \<Rightarrow> string" where
  "renderPositioning col entityColumns addedColumns =
     (if c_name col \<notin> c_name ` set entityColumns then []
      else let before = takeWhile (\<lambda>c. c_name c \<noteq> c_name col) entityColumns
           in case filter (\<lambda>c. c_name c \<notin> c_name ` set addedColumns) (rev before) of
                prev # _ \<Rightarrow> ''.after('' @ quoteStr (c_name prev) @ '')''
              | [] \<Rightarrow> ''.first()'')"

definition rawLine :: "string \<Rightarrow> string" where
  "rawLine sql = ''    await db.schema.raw('' @ quoteStr sql @ '');''"

definition add_value_sql :: "string \<Rightarrow> string \<Rightarrow> string" where
  "add_value_sql typeName value =
     ''ALTER TYPE '' @ [dquote] @ typeName @ [dquote] @ '' ADD VALUE IF NOT EXISTS '' @ [squote] @ replace_char squote [squote, squote] value @ [squote]"

definition drop_cast_sql :: "string \<Rightarrow> string" where
  "drop_cast_sql typeName = ''DROP CAST IF EXISTS (text AS '' @ [dquote] @ typeName @ [dquote] @ '')''"

definition drop_type_sql :: "string \<Rightarrow> string" where
  "drop_type_sql typeName = ''DROP TYPE IF EXISTS '' @ [dquote] @ typeName @ [dquote]"

definition pre_lines :: "table_diff \<Rightarrow> dialect \<Rightarrow> string list" where
  "pre_lines td d =
     (if d = Postgres
      then map (\<lambda>t. ''    await db.schema.enumType('' @ quoteStr (e_typeName t) @ '', '' @ str_list (e_values t) @ '');'') (d_addedEnumTypes td)
        @ concat (map (\<lambda>m. map (\<lambda>v. rawLine (add_value_sql (em_typeName m) v)) (em_added m)) (d_modifiedEnumTypes td))
      else [])"

definition post_lines :: "table_diff \<Rightarrow> dialect \<Rightarrow> string list" where
  "post_lines td d =
     (if d = Postgres
      then concat (map (\<lambda>n. [rawLine (drop_cast_sql n), rawLine (drop_type_sql n)]) (d_removedEnumTypes td))
      else [])"

definition stub_table :: "table_diff \<Rightarrow> table_schema" where
  "stub_table td = plain_table (d_tableName td) []"

definition non_empty :: "string list option \<Rightarrow> bool" where
  "non_empty p \<longleftrightarrow> (case p of Some (x # xs) \<Rightarrow> True | _ \<Rightarrow> False)"

definition positioning :: "table_diff \<Rightarrow> dialect \<Rightarrow> column \<Rightarrow> string" where
  "positioning td d col =
     (case d_entityColumns td of
        Some cols \<Rightarrow> if d = MySQL then renderPositioning col cols (d_addedColumns td) else []
      | None \<Rightarrow> [])"

definition drop_lines :: "table_diff \<Rightarrow> string list" where
  "drop_lines td =
     (if d_primaryKeyChanged td \<and> non_empty (d_oldPrimaryKey td) then [''t.dropPrimary();''] else [])
     @ map (\<lambda>fk. ''t.dropForeign('' @ quoteStr (f_name fk) @ '');'') (d_removedForeignKeys td)
     @ map (\<lambda>idx. ''t.dropIndex('' @ quoteStr (i_name idx) @ '');'') (d_removedIndexes td)
     @ map (\<lambda>col. ''t.dropColumn('' @ quoteStr (c_name col) @ '');'') (d_removedColumns td)
     @ map (\<lambda>r. ''t.renameColumn('' @ quoteStr (r_from r) @ '', '' @ quoteStr (r_to r) @ '');'') (d_renamedColumns td)"

definition key_lines :: "table_diff \<Rightarrow> string list" where
  "key_lines td =
     (if d_primaryKeyChanged td \<and> non_empty (d_newPrimaryKey td) then [''t.primary('' @ str_list (the (d_newPrimaryKey td)) @ '');''] else [])
     @ map (\<lambda>idx. renderIndexLine idx (stub_table td)) (d_addedIndexes td)
     @ map (\<lambda>fk. renderForeignKeyLine fk (stub_table td)) (d_addedForeignKeys td)"

definition renderAlterBlock :: "table_diff \<Rightarrow> dialect \<Rightarrow> (builder_error, string) result" where
  "renderAlterBlock td d =
     bind_result (collect_results (\<lambda>col. map_result (\<lambda>line.
           if positioning td d col \<noteq> [] then replace_semicolon (positioning td d col @ '';'') line else line)
         (renderColumnLine col (stub_table td))) (d_addedColumns td)) (\<lambda>added.
     map_result (\<lambda>modified.
         let inner = drop_lines td @ added @ modified @ key_lines td; pre = pre_lines td d; post = post_lines td d
         in if inner = [] \<and> pre = [] \<and> post = [] then []
            else join [newline, newline]
              ((if pre \<noteq> [] then [join [newline] pre] else [])
               @ (if inner \<noteq> [] then [''    await db.schema.alter('' @ quoteStr (d_tableName td) @ '', t => {'' @ [newline]
                    @ join [newline] (map indent8 inner) @ [newline] @ ''    });''] else [])
               @ (if post \<noteq> [] then [join [newline] post] else [])))
       (collect_results (\<lambda>m. map_result (replace_semicolon ''.change();'') (renderColumnLine (m_newColumn m) (stub_table td)))
         (d_modifiedColumns td)))"

definition generateBuilderMigrationFromDiff :: "schema_diff \<Rightarrow> (builder_error, string) result" where
  "generateBuilderMigrationFromDiff diff =
     bind_result (collect_results renderTableBlock (s_addedTables diff)) (\<lambda>created.
     map_result (\<lambda>altered.
         let blocks = map (\<lambda>t. ''    await db.schema.drop('' @ quoteStr (t_name t) @ '');'') (s_removedTables diff)
               @ created @ filter (\<lambda>b. b \<noteq> []) altered
         in if blocks = [] then FILE_HEADER @ ''    // No schema changes detected.'' @ FILE_FOOTER
            else FILE_HEADER @ join [newline, newline] blocks @ FILE_FOOTER)
       (collect_results (\<lambda>td. renderAlterBlock td (s_dialect diff)) (s_modifiedTables diff)))"

end
