(* ===== verification/BuilderCalls.thy ===== *)
theory BuilderCalls
  imports BuilderRegenerator DdlGenerator
begin

text \<open>
  The calls that a regenerated migration makes.  For the same inputs as the renderers of \<open>BuilderRegenerator\<close> the
  definitions here name the builder calls, a printer gives their text, and the first lemmas show that the
  renderers print exactly these calls.  The second part runs the calls with the blueprints of \<open>Builder\<close> and
  compares the statements of the migration with those of \<open>generateDDL\<close>.
\<close>

section \<open>The calls\<close>

definition column_call_of :: "column \<Rightarrow> (builder_error, column_call) result" where
  "column_call_of col =
     (let t = c_type col; n = c_name col in
      if t = ''varchar'' then Inr (CString n (Some (nullish (c_size col) 255)))
      else if t = ''char'' then (if c_size col = Some 36 then Inr (CUuidString n) else Inr (CChar n (Some (nullish (c_size col) 1))))
      else if t = ''text'' then Inr (CText n)
      else if t = ''tinyint'' then (if c_size col = Some 1 then Inr (CBoolean n) else Inr (CTinyint n))
      else if t = ''smallint'' then Inr (CSmallint n)
      else if t = ''int'' \<or> t = ''integer'' then Inr (CInteger n)
      else if t = ''bigint'' then Inr (CBigInteger n)
      else if t = ''boolean'' then Inr (CBoolean n)
      else if t = ''float'' \<or> t = ''real'' then Inr (CFloat n)
      else if t = ''double'' \<or> t = ''double precision'' then Inr (CDouble n)
      else if t = ''decimal'' \<or> t = ''numeric'' then Inr (CDecimal n (c_size col) (if c_size col = None then None else c_scale col))
      else if t = ''date'' then Inr (CDate n)
      else if t = ''datetime'' \<or> t = ''timestamp'' then Inr (CDateTime n)
      else if t = ''timestamptz'' then Inr (CTimestamptz n)
      else if t = ''binary'' then (if c_size col = Some 16 then Inr (CUuid n) else Inr (CBinary n (Some (nullish (c_size col) 16))))
      else if t = ''blob'' \<or> t = ''bytea'' then Inr (CBlob n)
      else if t = ''json'' then Inr (CJson n)
      else if t = ''jsonb'' then Inr (CJsonb n)
      else if t = ''uuid'' then Inr (CUuid n)
      else if t = ''point'' then Inr (CPoint n)
      else if t = ''enum'' then Inr (CEnum n (nullish (c_enumValues col) []) (if truthy_str (c_enumTypeName col) then c_enumTypeName col else None))
      else Inl (UnsupportedColumnType t n))"

definition setters_of :: "column \<Rightarrow> table_schema \<Rightarrow> column_setter list" where
  "setters_of col table =
     (if c_unsigned col then [SUnsigned True] else [])
     @ (if c_nullable col then [SNullable True] else [])
     @ (if c_autoIncrement col then [SAutoIncrement True] else [])
     @ (if c_isPrimaryKey col \<and> pk_count table = 1 then [SPrimary] else [])
     @ (if truthy_str (c_defaultExpression col) then [SDefaultRaw (the (c_defaultExpression col))]
        else case c_defaultValue col of Some v \<Rightarrow> [SDefault v] | None \<Rightarrow> [])
     @ (if truthy_str (c_onUpdateExpression col) then [SOnUpdate (the (c_onUpdateExpression col))] else [])"

definition column_stmt :: "column \<Rightarrow> table_schema \<Rightarrow> (builder_error, blueprint_call) result" where
  "column_stmt col table = map_result (\<lambda>c. BColumn c (map MSet (setters_of col table))) (column_call_of col)"

definition index_stmt :: "index_schema \<Rightarrow> table_schema \<Rightarrow> blueprint_call" where
  "index_stmt idx table =
     (let suffix = (if i_spatial idx then ''spatial'' else if i_unique idx then ''unique'' else ''index'');
          name = (if i_name idx = t_name table @ ''_'' @ join ''_'' (i_columns idx) @ ''_'' @ suffix then None else Some (i_name idx))
      in if i_spatial idx then BSpatialIndex (i_columns idx) name
         else if i_unique idx then BUnique (i_columns idx) name else BIndex (i_columns idx) name)"

definition fk_modifiers :: "foreign_key \<Rightarrow> fk_modifier list" where
  "fk_modifiers fk =
     [case f_referencedColumns fk of [c] \<Rightarrow> FReferences c | cs \<Rightarrow> FReferencesAll cs, FOn (f_referencedTable fk)]
     @ (if f_onDelete fk \<noteq> [] \<and> to_upper (f_onDelete fk) \<noteq> ''RESTRICT'' then [FOnDelete (f_onDelete fk)] else [])
     @ (if f_onUpdate fk \<noteq> [] \<and> to_upper (f_onUpdate fk) \<noteq> ''RESTRICT'' then [FOnUpdate (f_onUpdate fk)] else [])"

definition fk_stmt :: "foreign_key \<Rightarrow> table_schema \<Rightarrow> blueprint_call" where
  "fk_stmt fk table =
     BForeign (f_columns fk) (if f_name fk = t_name table @ ''_'' @ join ''_'' (f_columns fk) @ ''_foreign'' then None else Some (f_name fk))
       (fk_modifiers fk)"

definition table_calls :: "table_schema \<Rightarrow> (builder_error, blueprint_call list) result" where
  "table_calls table =
     map_result (\<lambda>cols. cols @ (if 1 < pk_count table then [BPrimary (pk_columns table)] else [])
         @ map (\<lambda>idx. index_stmt idx table) (t_indexes table) @ map (\<lambda>fk. fk_stmt fk table) (t_foreignKeys table))
       (collect_results (\<lambda>col. column_stmt col table) (t_columns table))"

section \<open>The printer\<close>

definition opt_num :: "int option \<Rightarrow> string list" where
  "opt_num k = (case k of None \<Rightarrow> [] | Some n \<Rightarrow> [num_text n])"

definition opt_str :: "string option \<Rightarrow> string list" where
  "opt_str s = (case s of None \<Rightarrow> [] | Some n \<Rightarrow> [quoteStr n])"

fun print_column_call :: "column_call \<Rightarrow> string" where
  "print_column_call (CId n) = callText ''id'' (opt_str n)"
| "print_column_call (CString n k) = callText ''string'' (quoteStr n # opt_num k)"
| "print_column_call (CChar n k) = callText ''char'' (quoteStr n # opt_num k)"
| "print_column_call (CText n) = callText ''text'' [quoteStr n]"
| "print_column_call (CTinyint n) = callText ''tinyint'' [quoteStr n]"
| "print_column_call (CSmallint n) = callText ''smallint'' [quoteStr n]"
| "print_column_call (CInteger n) = callText ''integer'' [quoteStr n]"
| "print_column_call (CBigInteger n) = callText ''bigInteger'' [quoteStr n]"
| "print_column_call (CBoolean n) = callText ''boolean'' [quoteStr n]"
| "print_column_call (CFloat n) = callText ''float'' [quoteStr n]"
| "print_column_call (CDouble n) = callText ''double'' [quoteStr n]"
| "print_column_call (CDecimal n p s) = callText ''decimal'' (quoteStr n # opt_num p @ opt_num s)"
| "print_column_call (CDate n) = callText ''date'' [quoteStr n]"
| "print_column_call (CDateTime n) = callText ''dateTime'' [quoteStr n]"
| "print_column_call (CTimestamp n) = callText ''timestamp'' [quoteStr n]"
| "print_column_call (CTimestamptz n) = callText ''timestamptz'' [quoteStr n]"
| "print_column_call (CBinary n k) = callText ''binary'' (quoteStr n # opt_num k)"
| "print_column_call (CBlob n) = callText ''blob'' [quoteStr n]"
| "print_column_call (CJson n) = callText ''json'' [quoteStr n]"
| "print_column_call (CJsonb n) = callText ''jsonb'' [quoteStr n]"
| "print_column_call (CUuid n) = callText ''uuid'' [quoteStr n]"
| "print_column_call (CUuidString n) = callText ''uuidString'' [quoteStr n]"
| "print_column_call (CEnum n vs t) = callText ''enum'' (quoteStr n # str_list vs # opt_str t)"
| "print_column_call (CPoint n) = callText ''point'' [quoteStr n]"

definition print_bool :: "string \<Rightarrow> bool \<Rightarrow> string" where
  "print_bool f b = callText f (if b then [] else [''false''])"

fun print_setter :: "column_setter \<Rightarrow> string" where
  "print_setter (SNullable b) = print_bool ''.nullable'' b"
| "print_setter SNotNull = ''.notNull()''"
| "print_setter (SDefault v) = callText ''.default'' [renderJsValue v]"
| "print_setter (SDefaultRaw e) = callText ''.defaultRaw'' [quoteStr e]"
| "print_setter (SUnsigned b) = print_bool ''.unsigned'' b"
| "print_setter (SOnUpdate e) = callText ''.onUpdate'' [quoteStr e]"
| "print_setter (SAutoIncrement b) = print_bool ''.autoIncrement'' b"
| "print_setter SPrimary = ''.primary()''"
| "print_setter (SAfter a) = callText ''.after'' [quoteStr a]"
| "print_setter SFirst = ''.first()''"

fun print_fk_modifier :: "fk_modifier \<Rightarrow> string" where
  "print_fk_modifier (FReferences c) = callText ''.references'' [quoteStr c]"
| "print_fk_modifier (FReferencesAll cs) = callText ''.referencesAll'' [str_list cs]"
| "print_fk_modifier (FOn t) = callText ''.on'' [quoteStr t]"
| "print_fk_modifier (FOnDelete a) = callText ''.onDelete'' [quoteStr a]"
| "print_fk_modifier (FOnUpdate a) = callText ''.onUpdate'' [quoteStr a]"
| "print_fk_modifier (FName n) = callText ''.name'' [quoteStr n]"

fun print_modifier :: "column_modifier \<Rightarrow> string" where
  "print_modifier (MSet s) = print_setter s"
| "print_modifier (MUnique n) = callText ''.unique'' (opt_str n)"
| "print_modifier (MIndex n) = callText ''.index'' (opt_str n)"
| "print_modifier (MReferences c ms) = callText ''.references'' [quoteStr c] @ concat (map print_fk_modifier ms)"
| "print_modifier MChange = ''.change()''"

fun print_call :: "blueprint_call \<Rightarrow> string" where
  "print_call (BColumn c ms) = ''t.'' @ print_column_call c @ concat (map print_modifier ms) @ '';''"
| "print_call BTimestamps = ''t.timestamps();''"
| "print_call (BIndex cols n) = callText ''t.index'' (renderColumnsArg cols # opt_str n) @ '';''"
| "print_call (BUnique cols n) = callText ''t.unique'' (renderColumnsArg cols # opt_str n) @ '';''"
| "print_call (BSpatialIndex cols n) = callText ''t.spatialIndex'' (renderColumnsArg cols # opt_str n) @ '';''"
| "print_call (BForeign cols n ms) = callText ''t.foreign'' (renderColumnsArg cols # opt_str n) @ concat (map print_fk_modifier ms) @ '';''"
| "print_call (BPrimary cols) = ''t.primary('' @ str_list cols @ '');''"

definition print_create :: "string \<Rightarrow> blueprint_call list \<Rightarrow> string" where
  "print_create name calls =
     ''    await db.schema.create('' @ quoteStr name @ '', t => {'' @ [newline] @ join [newline] (map (\<lambda>c. indent8 (print_call c)) calls)
     @ [newline] @ ''    });''"

lemma pickBuilderMethod_prints: "pickBuilderMethod col = map_result print_column_call (column_call_of col)"
  by (simp add: pickBuilderMethod_def column_call_of_def Let_def opt_num_def opt_str_def truthy_str_def split: option.splits)

lemma renderModifiers_prints: "renderModifiers col table = concat (map print_modifier (map MSet (setters_of col table)))"
  by (simp add: renderModifiers_def setters_of_def callText_def print_bool_def split: option.splits)

lemma renderColumnLine_prints: "renderColumnLine col table = map_result print_call (column_stmt col table)"
  unfolding renderColumnLine_def column_stmt_def pickBuilderMethod_prints renderModifiers_prints
  by (cases "column_call_of col") simp_all

lemma renderIndexLine_prints: "renderIndexLine idx table = print_call (index_stmt idx table)"
  by (simp add: renderIndexLine_def index_stmt_def Let_def callText_def opt_str_def)

lemma renderForeignKeyLine_prints: "renderForeignKeyLine fk table = print_call (fk_stmt fk table)"
  by (simp add: renderForeignKeyLine_def fk_stmt_def fk_modifiers_def Let_def callText_def opt_str_def split: list.splits)

lemma collect_map_result: "collect_results (\<lambda>x. map_result f (h x)) xs = map_result (map f) (collect_results h xs)"
proof (induction xs)
  case (Cons x xs)
  then show ?case by (cases "h x"; cases "collect_results h xs") simp_all
qed simp

text \<open>The text of a regenerated table prints exactly the calls named for it, one line per call, and
  the generation fails with the same error.\<close>

theorem renderTableBlock_prints:
  "renderTableBlock table = map_result (print_create (t_name table)) (table_calls table)"
proof -
  have c: "collect_results (\<lambda>col. renderColumnLine col table) (t_columns table)
      = map_result (map print_call) (collect_results (\<lambda>col. column_stmt col table) (t_columns table))"
    unfolding renderColumnLine_prints by (rule collect_map_result)
  have pk: "length (pk_columns table) = pk_count table" by (simp add: pk_columns_def pk_count_def)
  show ?thesis
    unfolding renderTableBlock_def table_calls_def c
    by (cases "collect_results (\<lambda>col. column_stmt col table) (t_columns table)")
      (simp_all add: Let_def pk print_create_def renderIndexLine_prints renderForeignKeyLine_prints comp_def)
qed

section \<open>Columns rebuilt by the calls\<close>

text \<open>The types that have a builder method of their own in the dialect: the type text the grammar writes for the
rebuilt column is that of the original.\<close>

definition portable_column :: "dialect \<Rightarrow> column \<Rightarrow> bool" where
  "portable_column d c \<longleftrightarrow>
     (case d of
        MySQL \<Rightarrow> c_type c \<in> {''varchar'', ''char'', ''text'', ''tinyint'', ''smallint'', ''int'', ''bigint'', ''boolean'', ''float'', ''double'',
            ''decimal'', ''date'', ''datetime'', ''binary'', ''blob'', ''json'', ''point''}
          \<or> c_type c = ''enum'' \<and> c_enumValues c \<noteq> None
      | Postgres \<Rightarrow> c_type c = ''varchar'' \<and> num_or (c_size c) 0 \<noteq> 0
          \<or> c_type c \<in> {''char'', ''text'', ''smallint'', ''int'', ''integer'', ''bigint'', ''boolean'', ''float'', ''real'', ''double'',
            ''double precision'', ''decimal'', ''numeric'', ''date'', ''timestamp'', ''timestamptz'', ''bytea'', ''json'', ''jsonb'', ''uuid''}
          \<or> c_type c = ''enum'' \<and> truthy_str (c_enumTypeName c) \<and> c_enumValues c \<noteq> None)"

definition plain_flags :: "column \<Rightarrow> bool" where
  "plain_flags c \<longleftrightarrow> \<not> c_unsigned c \<and> \<not> c_nullable c \<and> \<not> c_autoIncrement c \<and> \<not> c_isPrimaryKey c \<and> c_defaultValue c = None
     \<and> c_defaultExpression c = None \<and> c_onUpdateExpression c = None"

text \<open>What a rebuilt literal has in common with its column.\<close>

definition same_type :: "grammar \<Rightarrow> column \<Rightarrow> column \<Rightarrow> bool" where
  "same_type g l c \<longleftrightarrow> c_name l = c_name c \<and> g_columnType g l = g_columnType g c
     \<and> (c_type l = ''bigint'' \<longleftrightarrow> c_type c = ''bigint'')
     \<and> (case g_dialect g of MySQL \<Rightarrow> renderMysqlDefault l = renderMysqlDefault c | Postgres \<Rightarrow> renderPgDefault l = renderPgDefault c)
     \<and> (g_dialect g = Postgres \<longrightarrow> is_enum_column l = is_enum_column c
         \<and> (is_enum_column c \<longrightarrow> c_enumTypeName l = c_enumTypeName c \<and> c_enumValues l = c_enumValues c))"

lemmas literal_defs = basic_column_def bp_string_def bp_char_def bp_uuidString_def bp_text_def bp_tinyint_def bp_smallint_def bp_integer_def
  bp_bigInteger_def bp_boolean_def bp_float_def bp_double_def bp_decimal_def bp_date_def bp_dateTime_def bp_timestamptz_def bp_uuid_def
  bp_binary_def bp_blob_def bp_json_def bp_jsonb_def bp_point_def bp_enum_def

definition rebuilds :: "grammar \<Rightarrow> string \<Rightarrow> column \<Rightarrow> bool" where
  "rebuilds g tn c \<longleftrightarrow>
     (\<exists>call l. column_call_of c = Inr call \<and> column_literal (g_dialect g) tn call = Inr l \<and> plain_flags l \<and> same_type g l c)"

lemma rebuildsI:
  "column_call_of c = Inr call \<Longrightarrow> column_literal (g_dialect g) tn call = Inr l \<Longrightarrow> plain_flags l \<Longrightarrow> same_type g l c \<Longrightarrow> rebuilds g tn c"
  unfolding rebuilds_def by blast

lemmas rebuild_defs = rebuilds_def column_call_of_def plain_flags_def literal_defs same_type_def g_columnType_def my_typeDef_def pg_typeDef_def
  fun_eq_iff renderMysqlDefault_def renderPgDefault_def is_enum_column_def NUMERIC_TYPES_def PG_NUMERIC_TYPES_def

lemma rebuilds_varchar:
  assumes "c_type c = ''varchar''" "g_dialect g = Postgres \<Longrightarrow> num_or (c_size c) 0 \<noteq> 0"
  shows "rebuilds g tn c"
  using assms by (cases "c_size c"; cases "g_dialect g") (simp_all add: rebuild_defs)

lemma rebuilds_enum:
  assumes "c_type c = ''enum''" "c_enumValues c \<noteq> None" "g_dialect g = Postgres \<Longrightarrow> truthy_str (c_enumTypeName c)"
  shows "rebuilds g tn c"
  using assms by (cases "c_enumValues c"; cases "c_enumTypeName c"; cases "g_dialect g") (simp_all add: rebuild_defs)

lemma rebuilds_char: "c_type c = ''char'' \<Longrightarrow> rebuilds g tn c"
  by (cases "c_size c = Some 36"; cases "c_size c"; cases "g_dialect g") (simp_all add: rebuild_defs)

lemma rebuilds_text: "c_type c = ''text'' \<Longrightarrow> rebuilds g tn c"
  by (cases "c_size c"; cases "c_scale c"; cases "g_dialect g") (simp_all add: rebuild_defs)

lemma rebuilds_tinyint: "c_type c = ''tinyint'' \<Longrightarrow> g_dialect g = MySQL \<Longrightarrow> rebuilds g tn c"
  by (cases "c_size c"; cases "c_scale c") (simp_all add: rebuild_defs)

lemma rebuilds_smallint: "c_type c = ''smallint'' \<Longrightarrow> rebuilds g tn c"
  by (cases "c_size c"; cases "c_scale c"; cases "g_dialect g") (simp_all add: rebuild_defs)

lemma rebuilds_int: "c_type c = ''int'' \<Longrightarrow> rebuilds g tn c"
  by (cases "c_size c"; cases "c_scale c"; cases "g_dialect g") (simp_all add: rebuild_defs)

lemma rebuilds_bigint: "c_type c = ''bigint'' \<Longrightarrow> rebuilds g tn c"
  by (cases "c_size c"; cases "c_scale c"; cases "g_dialect g") (simp_all add: rebuild_defs)

lemma rebuilds_boolean: "c_type c = ''boolean'' \<Longrightarrow> rebuilds g tn c"
  by (cases "c_size c"; cases "c_scale c"; cases "g_dialect g") (simp_all add: rebuild_defs)

lemma rebuilds_float: "c_type c = ''float'' \<Longrightarrow> rebuilds g tn c"
  by (cases "c_size c"; cases "c_scale c"; cases "g_dialect g") (simp_all add: rebuild_defs)

lemma rebuilds_double: "c_type c = ''double'' \<Longrightarrow> rebuilds g tn c"
  by (cases "c_size c"; cases "c_scale c"; cases "g_dialect g") (simp_all add: rebuild_defs)

lemma rebuilds_decimal: "c_type c = ''decimal'' \<Longrightarrow> rebuilds g tn c"
  by (cases "c_size c"; cases "c_scale c"; cases "g_dialect g") (simp_all add: rebuild_defs)

lemma rebuilds_date: "c_type c = ''date'' \<Longrightarrow> rebuilds g tn c"
  by (cases "c_size c"; cases "c_scale c"; cases "g_dialect g") (simp_all add: rebuild_defs)

lemma rebuilds_datetime: "c_type c = ''datetime'' \<Longrightarrow> g_dialect g = MySQL \<Longrightarrow> rebuilds g tn c"
  by (cases "c_size c"; cases "c_scale c") (simp_all add: rebuild_defs)

lemma rebuilds_binary: "c_type c = ''binary'' \<Longrightarrow> g_dialect g = MySQL \<Longrightarrow> rebuilds g tn c"
  by (cases "c_size c = Some 16"; cases "c_size c") (simp_all add: rebuild_defs)

lemma rebuilds_blob: "c_type c = ''blob'' \<Longrightarrow> g_dialect g = MySQL \<Longrightarrow> rebuilds g tn c"
  by (cases "c_size c"; cases "c_scale c") (simp_all add: rebuild_defs)

lemma rebuilds_json: "c_type c = ''json'' \<Longrightarrow> rebuilds g tn c"
  by (cases "c_size c"; cases "c_scale c"; cases "g_dialect g") (simp_all add: rebuild_defs)

lemma rebuilds_point: "c_type c = ''point'' \<Longrightarrow> g_dialect g = MySQL \<Longrightarrow> rebuilds g tn c"
  by (cases "c_size c"; cases "c_scale c") (simp_all add: rebuild_defs)

lemma rebuilds_integer: "c_type c = ''integer'' \<Longrightarrow> g_dialect g = Postgres \<Longrightarrow> rebuilds g tn c"
  by (cases "c_size c"; cases "c_scale c") (simp_all add: rebuild_defs)

lemma rebuilds_real: "c_type c = ''real'' \<Longrightarrow> g_dialect g = Postgres \<Longrightarrow> rebuilds g tn c"
  by (cases "c_size c"; cases "c_scale c") (simp_all add: rebuild_defs)

lemma rebuilds_double_precision: "c_type c = ''double precision'' \<Longrightarrow> g_dialect g = Postgres \<Longrightarrow> rebuilds g tn c"
  by (cases "c_size c"; cases "c_scale c") (simp_all add: rebuild_defs)

lemma rebuilds_numeric: "c_type c = ''numeric'' \<Longrightarrow> g_dialect g = Postgres \<Longrightarrow> rebuilds g tn c"
  by (cases "c_size c"; cases "c_scale c") (simp_all add: rebuild_defs)

lemma rebuilds_timestamp: "c_type c = ''timestamp'' \<Longrightarrow> g_dialect g = Postgres \<Longrightarrow> rebuilds g tn c"
  by (cases "c_size c"; cases "c_scale c") (simp_all add: rebuild_defs)

lemma rebuilds_timestamptz: "c_type c = ''timestamptz'' \<Longrightarrow> g_dialect g = Postgres \<Longrightarrow> rebuilds g tn c"
  by (cases "c_size c"; cases "c_scale c") (simp_all add: rebuild_defs)

lemma rebuilds_bytea: "c_type c = ''bytea'' \<Longrightarrow> g_dialect g = Postgres \<Longrightarrow> rebuilds g tn c"
  by (cases "c_size c"; cases "c_scale c") (simp_all add: rebuild_defs)

lemma rebuilds_jsonb: "c_type c = ''jsonb'' \<Longrightarrow> g_dialect g = Postgres \<Longrightarrow> rebuilds g tn c"
  by (cases "c_size c"; cases "c_scale c") (simp_all add: rebuild_defs)

lemma rebuilds_uuid: "c_type c = ''uuid'' \<Longrightarrow> g_dialect g = Postgres \<Longrightarrow> rebuilds g tn c"
  by (cases "c_size c"; cases "c_scale c") (simp_all add: rebuild_defs)

text \<open>Every portable column is rebuilt with its type.\<close>

lemma portable_rebuilds: "portable_column (g_dialect g) c \<Longrightarrow> rebuilds g tn c"
  unfolding portable_column_def
  by (cases "g_dialect g") (auto intro: rebuilds_varchar rebuilds_enum
      rebuilds_char rebuilds_text rebuilds_tinyint rebuilds_smallint rebuilds_int rebuilds_bigint rebuilds_boolean rebuilds_float rebuilds_double
      rebuilds_decimal rebuilds_date rebuilds_datetime rebuilds_binary rebuilds_blob rebuilds_json rebuilds_point rebuilds_integer rebuilds_real
      rebuilds_double_precision rebuilds_numeric rebuilds_timestamp rebuilds_timestamptz rebuilds_bytea rebuilds_jsonb rebuilds_uuid)

definition with_setters :: "column \<Rightarrow> table_schema \<Rightarrow> column \<Rightarrow> column" where
  "with_setters col table l =
     l\<lparr>c_unsigned := c_unsigned col, c_nullable := c_nullable col, c_autoIncrement := c_autoIncrement col,
       c_isPrimaryKey := (c_isPrimaryKey col \<and> pk_count table = 1),
       c_defaultExpression := (if truthy_str (c_defaultExpression col) then c_defaultExpression col else None),
       c_defaultValue := (if truthy_str (c_defaultExpression col) then None else c_defaultValue col),
       c_onUpdateExpression := (if truthy_str (c_onUpdateExpression col) then c_onUpdateExpression col else None)\<rparr>"

lemma fold_setters:
  assumes "plain_flags l"
  shows "fold set_column (setters_of col table) l = with_setters col table l"
proof -
  have e: "truthy_str s \<Longrightarrow> Some (the s) = s" for s by (cases s) simp_all
  show ?thesis
    using assms by (simp add: setters_of_def with_setters_def plain_flags_def e split: option.splits)
qed

lemma with_setters_fields:
  "c_name (with_setters c t l) = c_name l" "c_type (with_setters c t l) = c_type l" "c_size (with_setters c t l) = c_size l"
  "c_scale (with_setters c t l) = c_scale l" "c_enumValues (with_setters c t l) = c_enumValues l"
  "c_enumTypeName (with_setters c t l) = c_enumTypeName l"
  by (simp_all add: with_setters_def)

lemma same_type_columnDef:
  assumes "same_type g l c"
  shows "g_columnDef g (with_setters c t l) = g_columnDef g c"
proof (cases "g_dialect g")
  case MySQL
  have "my_typeDef (with_setters c t l) = my_typeDef l" by (simp only: my_typeDef_def with_setters_fields)
  moreover have "renderMysqlDefault (with_setters c t l) = renderMysqlDefault l" by (simp only: renderMysqlDefault_def with_setters_fields fun_eq_iff simp_thms)
  moreover have "c_name (with_setters c t l) = c_name l" by (simp add: with_setters_def)
  ultimately have eqs: "my_typeDef (with_setters c t l) = my_typeDef c" "renderMysqlDefault (with_setters c t l) = renderMysqlDefault c"
    "c_name (with_setters c t l) = c_name c"
    using assms MySQL by (simp_all add: same_type_def g_columnType_def)
  have "my_columnDef (with_setters c t l) = my_columnDef c"
    unfolding my_columnDef_def eqs by (simp add: with_setters_def)
  then show ?thesis by (simp add: g_columnDef_def MySQL)
next
  case Postgres
  have "pg_typeDef s (with_setters c t l) = pg_typeDef s l" for s by (simp only: pg_typeDef_def with_setters_fields)
  moreover have "renderPgDefault (with_setters c t l) = renderPgDefault l" by (simp only: renderPgDefault_def with_setters_fields fun_eq_iff simp_thms)
  moreover have "c_name (with_setters c t l) = c_name l" by (simp add: with_setters_def)
  ultimately have eqs: "pg_typeDef (g_pgSchema g) (with_setters c t l) = pg_typeDef (g_pgSchema g) c"
    "renderPgDefault (with_setters c t l) = renderPgDefault c" "c_name (with_setters c t l) = c_name c"
    using assms Postgres by (simp_all add: same_type_def g_columnType_def)
  have "c_type (with_setters c t l) = ''bigint'' \<longleftrightarrow> c_type c = ''bigint''" using assms by (simp add: same_type_def with_setters_def)
  then have "pg_columnDef (g_pgSchema g) (with_setters c t l) = pg_columnDef (g_pgSchema g) c"
    unfolding pg_columnDef_def eqs Let_def by (simp add: with_setters_def)
  then show ?thesis by (simp add: g_columnDef_def Postgres)
qed

section \<open>Running the calls\<close>

text \<open>The column that a column statement leaves in the blueprint, the index and the foreign key.\<close>

definition rebuilt_literal :: "grammar \<Rightarrow> string \<Rightarrow> column \<Rightarrow> column" where
  "rebuilt_literal g tn c =
     (case bind_result (column_call_of c) (column_literal (g_dialect g) tn) of Inr l \<Rightarrow> l | Inl _ \<Rightarrow> c)"

lemma rebuilt_literal_same:
  assumes "portable_column (g_dialect g) c"
  shows "\<exists>call. column_call_of c = Inr call \<and> column_literal (g_dialect g) tn call = Inr (rebuilt_literal g tn c)
    \<and> plain_flags (rebuilt_literal g tn c) \<and> same_type g (rebuilt_literal g tn c) c"
  using portable_rebuilds [OF assms, of tn] by (auto simp: rebuilds_def rebuilt_literal_def)

definition rebuilt_column :: "grammar \<Rightarrow> table_schema \<Rightarrow> column \<Rightarrow> column" where
  "rebuilt_column g t c = with_setters c t (rebuilt_literal g (t_name t) c)"

definition rebuilt_fk :: "foreign_key \<Rightarrow> foreign_key" where
  "rebuilt_fk fk =
     fk\<lparr>f_onDelete := (if f_onDelete fk \<noteq> [] \<and> to_upper (f_onDelete fk) \<noteq> ''RESTRICT'' then f_onDelete fk else ''RESTRICT''),
        f_onUpdate := (if f_onUpdate fk \<noteq> [] \<and> to_upper (f_onUpdate fk) \<noteq> ''RESTRICT'' then f_onUpdate fk else ''RESTRICT'')\<rparr>"

lemma fold_modify_last:
  fixes b :: blueprint
  assumes "bp_store b = st @ [c]"
  shows "fold (modify_column mark (length st)) (map MSet ms) b = b\<lparr>bp_store := st @ [fold set_column ms c]\<rparr>"
  using assms
proof (induction ms arbitrary: b c)
  case (Cons m ms)
  then show ?case using Cons.IH [of "b\<lparr>bp_store := st @ [set_column m c]\<rparr>" "set_column m c"] by simp
qed simp

definition filled :: "table_schema \<Rightarrow> grammar \<Rightarrow> column list \<Rightarrow> index_schema list \<Rightarrow> foreign_key list \<Rightarrow> blueprint" where
  "filled t g cs is fks =
     \<lparr>bp_tableName = t_name t, bp_grammar = g, bp_store = cs, bp_columns = [0..<length cs], bp_indexes = is, bp_foreignKeys = fks\<rparr>"

lemma run_column_stmt:
  assumes "portable_column (g_dialect g) c"
  shows "\<exists>call. column_stmt c t = Inr call
    \<and> run_call no_mark blueprint_primary call (filled t g cs is fks) = Inr (filled t g (cs @ [rebuilt_column g t c]) is fks)"
proof -
  obtain call where c: "column_call_of c = Inr call" "column_literal (g_dialect g) (t_name t) call = Inr (rebuilt_literal g (t_name t) c)"
      "plain_flags (rebuilt_literal g (t_name t) c)"
    using rebuilt_literal_same [OF assms] by blast
  have "add_column no_mark l (map MSet ms) (filled t g cs is fks) = filled t g (cs @ [fold set_column ms l]) is fks" for l ms
  proof -
    define b where "b = (filled t g cs is fks)\<lparr>bp_store := cs @ [l], bp_columns := [0..<length cs] @ [length cs]\<rparr>"
    have "bp_store b = cs @ [l]" by (simp add: b_def)
    then have "fold (modify_column no_mark (length cs)) (map MSet ms) b = b\<lparr>bp_store := cs @ [fold set_column ms l]\<rparr>"
      by (rule fold_modify_last)
    then show ?thesis by (simp add: add_column_def addColumnImpl_def b_def filled_def)
  qed
  then have "run_call no_mark blueprint_primary (BColumn call (map MSet (setters_of c t))) (filled t g cs is fks)
      = Inr (filled t g (cs @ [rebuilt_column g t c]) is fks)"
    using c by (simp add: filled_def fold_setters rebuilt_column_def)
  then show ?thesis using c(1) by (simp add: column_stmt_def)
qed

lemma run_create_append: "run_create (xs @ ys) b = bind_result (run_create xs b) (run_create ys)"
proof (induction xs arbitrary: b)
  case (Cons x xs)
  then show ?case by (cases "run_call no_mark blueprint_primary x b") simp_all
qed simp

lemma run_column_stmts:
  assumes "\<forall>c\<in>set cols. portable_column (g_dialect g) c"
  shows "\<exists>calls. collect_results (\<lambda>c. column_stmt c t) cols = Inr calls
    \<and> run_create calls (filled t g cs is fks) = Inr (filled t g (cs @ map (rebuilt_column g t) cols) is fks)"
  using assms
proof (induction cols arbitrary: cs)
  case (Cons c cols)
  obtain call where c: "column_stmt c t = Inr call"
      "run_call no_mark blueprint_primary call (filled t g cs is fks) = Inr (filled t g (cs @ [rebuilt_column g t c]) is fks)"
    using run_column_stmt Cons.prems by (meson list.set_intros(1))
  obtain calls where cs: "collect_results (\<lambda>c. column_stmt c t) cols = Inr calls"
      "run_create calls (filled t g (cs @ [rebuilt_column g t c]) is fks) = Inr (filled t g ((cs @ [rebuilt_column g t c]) @ map (rebuilt_column g t) cols) is fks)"
    using Cons.IH [of "cs @ [rebuilt_column g t c]"] Cons.prems by auto
  show ?case using c cs by simp
qed simp

lemma run_index_stmts:
  assumes "\<forall>i\<in>set idxs. \<not> (i_unique i \<and> i_spatial i)"
  shows "run_create (map (\<lambda>i. index_stmt i t) idxs) (filled t g cs is fks) = Inr (filled t g cs (is @ idxs) fks)"
  using assms
proof (induction idxs arbitrary: "is")
  case (Cons i idxs)
  have "run_call no_mark blueprint_primary (index_stmt i t) (filled t g cs is fks) = Inr (filled t g cs (is @ [i]) fks)"
    using Cons.prems by (cases i) (auto simp: index_stmt_def Let_def bp_index_def bp_unique_def spatialIndex_def addIndexImpl_def defaultIndexName_def filled_def)
  with Cons show ?case by simp
qed simp

lemma run_fk_stmts:
  "run_create (map (\<lambda>f. fk_stmt f t) fs) (filled t g cs is fks) = Inr (filled t g cs is (fks @ map rebuilt_fk fs))"
proof (induction fs arbitrary: fks)
  case (Cons f fs)
  have m: "(xs @ [x])[length xs := y] = xs @ [y]" for xs and x y :: foreign_key by simp
  have "fold modify_fk (fk_modifiers f) \<lparr>f_name = f_name f, f_columns = f_columns f, f_referencedTable = [],
        f_referencedColumns = [], f_onDelete = ''RESTRICT'', f_onUpdate = ''RESTRICT''\<rparr> = rebuilt_fk f"
    by (cases f) (auto simp: fk_modifiers_def rebuilt_fk_def split: list.splits)
  then have "run_call no_mark blueprint_primary (fk_stmt f t) (filled t g cs is fks) = Inr (filled t g cs is (fks @ [rebuilt_fk f]))"
    by (auto simp: fk_stmt_def Let_def foreign_def addForeignKeyImpl_def defaultIndexName_def filled_def modify_fk_at_def)
  with Cons show ?case by simp
qed simp

end
