(* ===== verification/BuilderCorrect.thy ===== *)
theory BuilderCorrect
  imports BuilderCalls
begin

text \<open>
  A regenerated migration does what the raw one does: for new tables the statements that the builder sends are the
  statements of \<open>generateDDL\<close>, in the same order.
\<close>

section \<open>A table\<close>

definition portable_table :: "dialect \<Rightarrow> table_schema \<Rightarrow> bool" where
  "portable_table d t \<longleftrightarrow>
     (\<forall>c\<in>set (t_columns t). portable_column d c) \<and> distinct (map c_name (t_columns t))
     \<and> (\<forall>i\<in>set (t_indexes t). \<not> (i_unique i \<and> i_spatial i))
     \<and> (\<forall>f\<in>set (t_foreignKeys t). f_onDelete f \<noteq> [] \<and> f_onUpdate f \<noteq> [])"

text \<open>What the calls of a table leave: the rebuilt columns with their key flags.\<close>

definition final_column :: "grammar \<Rightarrow> table_schema \<Rightarrow> column \<Rightarrow> column" where
  "final_column g t c = (rebuilt_column g t c)\<lparr>c_isPrimaryKey := c_isPrimaryKey c\<rparr>"

lemma rebuilt_name: "portable_column (g_dialect g) c \<Longrightarrow> c_name (rebuilt_column g t c) = c_name c"
  using rebuilt_literal_same [of g c "t_name t"] by (auto simp: rebuilt_column_def with_setters_fields same_type_def)

lemma member_pk_columns:
  assumes "distinct (map c_name (t_columns t))" "c \<in> set (t_columns t)"
  shows "c_name c \<in> set (pk_columns t) \<longleftrightarrow> c_isPrimaryKey c"
proof
  assume "c_name c \<in> set (pk_columns t)"
  then obtain c' where "c' \<in> set (t_columns t)" "c_isPrimaryKey c'" "c_name c' = c_name c" by (auto simp: pk_columns_def)
  with distinct_names_inj [OF assms(1) this(1) assms(2)] show "c_isPrimaryKey c" by simp
qed (use assms(2) in \<open>auto simp: pk_columns_def\<close>)

lemma table_calls_run:
  assumes "portable_table (g_dialect g) t"
  shows "\<exists>calls. table_calls t = Inr calls
    \<and> run_create calls (new_blueprint (t_name t) g) = Inr (filled t g (map (final_column g t) (t_columns t)) (t_indexes t) (map rebuilt_fk (t_foreignKeys t)))"
proof -
  have p: "\<forall>c\<in>set (t_columns t). portable_column (g_dialect g) c" and d: "distinct (map c_name (t_columns t))"
    and i: "\<forall>i\<in>set (t_indexes t). \<not> (i_unique i \<and> i_spatial i)"
    using assms by (auto simp: portable_table_def)
  have new: "new_blueprint (t_name t) g = filled t g [] [] []" by (simp add: new_blueprint_def filled_def)
  obtain cols where cols: "collect_results (\<lambda>c. column_stmt c t) (t_columns t) = Inr cols"
      "run_create cols (filled t g [] [] []) = Inr (filled t g (map (rebuilt_column g t) (t_columns t)) [] [])"
    using run_column_stmts [OF p, of t "[]" "[]" "[]"] by auto
  define pk where "pk = (if 1 < pk_count t then [BPrimary (pk_columns t)] else [])"
  have fin: "map (final_column g t) (t_columns t) = map (\<lambda>c. (rebuilt_column g t c)\<lparr>c_isPrimaryKey := (c_name (rebuilt_column g t c) \<in> set (pk_columns t))\<rparr>) (t_columns t)"
    using p d by (auto simp: final_column_def rebuilt_name member_pk_columns)
  have "run_create pk (filled t g (map (rebuilt_column g t) (t_columns t)) [] []) = Inr (filled t g (map (final_column g t) (t_columns t)) [] [])"
  proof (cases "1 < pk_count t")
    case True
    then show ?thesis unfolding fin by (simp add: pk_def blueprint_primary_def filled_def comp_def)
  next
    case False
    have "rebuilt_column g t c = final_column g t c" if "c \<in> set (t_columns t)" for c
    proof -
      have "pk_count t = 1" if "c_isPrimaryKey c"
      proof -
        have "filter c_isPrimaryKey (t_columns t) \<noteq> []" using that \<open>c \<in> set (t_columns t)\<close> by (auto simp: filter_empty_conv)
        then have "pk_count t \<noteq> 0" by (simp add: pk_count_def)
        with False show ?thesis by simp
      qed
      then have b: "(c_isPrimaryKey c \<and> pk_count t = 1) = c_isPrimaryKey c" by auto
      show ?thesis unfolding final_column_def rebuilt_column_def with_setters_def b by simp
    qed
    then have m: "map (rebuilt_column g t) (t_columns t) = map (final_column g t) (t_columns t)" by simp
    show ?thesis unfolding m pk_def using False by simp
  qed
  then show ?thesis
    unfolding new table_calls_def cols(1) map_result.simps pk_def [symmetric]
    using i by (simp add: run_create_append cols(2) run_index_stmts run_fk_stmts)
qed

text \<open>The definition of a column does not depend on its key flag and its position.\<close>

definition repositioned :: "bool \<Rightarrow> int \<Rightarrow> column \<Rightarrow> column" where
  "repositioned b k c = c\<lparr>c_isPrimaryKey := b, c_ordinalPosition := k\<rparr>"

lemma repositioned_fields:
  "c_name (repositioned b k c) = c_name c" "c_type (repositioned b k c) = c_type c" "c_size (repositioned b k c) = c_size c"
  "c_scale (repositioned b k c) = c_scale c" "c_enumValues (repositioned b k c) = c_enumValues c"
  "c_enumTypeName (repositioned b k c) = c_enumTypeName c" "c_unsigned (repositioned b k c) = c_unsigned c"
  "c_nullable (repositioned b k c) = c_nullable c" "c_autoIncrement (repositioned b k c) = c_autoIncrement c"
  "c_defaultExpression (repositioned b k c) = c_defaultExpression c" "c_defaultValue (repositioned b k c) = c_defaultValue c"
  "c_onUpdateExpression (repositioned b k c) = c_onUpdateExpression c" "c_isPrimaryKey (repositioned b k c) = b"
  by (simp_all add: repositioned_def)

lemma columnDef_repositioned: "g_columnDef g (repositioned b k c) = g_columnDef g c"
  by (simp only: g_columnDef_def my_columnDef_def pg_columnDef_def my_typeDef_def pg_typeDef_def renderMysqlDefault_def renderPgDefault_def
    repositioned_fields)

definition placed_column :: "grammar \<Rightarrow> table_schema \<Rightarrow> nat \<Rightarrow> column" where
  "placed_column g t i = repositioned (c_isPrimaryKey (t_columns t ! i)) (int i + 1) (rebuilt_column g t (t_columns t ! i))"

lemma rebuilt_columnDef: "portable_column (g_dialect g) c \<Longrightarrow> g_columnDef g (rebuilt_column g t c) = g_columnDef g c"
  unfolding rebuilt_column_def using rebuilt_literal_same same_type_columnDef by blast

text \<open>The table that \<open>build\<close> returns: the same \<open>CREATE TABLE\<close>, indexes, and enum columns.\<close>

definition rebuilt_table :: "grammar \<Rightarrow> table_schema \<Rightarrow> table_schema" where
  "rebuilt_table g t = build (filled t g (map (final_column g t) (t_columns t)) (t_indexes t) (map rebuilt_fk (t_foreignKeys t)))"

lemma rebuilt_table_fields:
  "t_name (rebuilt_table g t) = t_name t" "t_indexes (rebuilt_table g t) = t_indexes t"
  "t_foreignKeys (rebuilt_table g t) = map rebuilt_fk (t_foreignKeys t)"
  "t_columns (rebuilt_table g t) = map (placed_column g t) [0..<length (t_columns t)]"
  by (simp_all add: rebuilt_table_def build_def filled_def plain_table_def placed_column_def repositioned_def final_column_def cong: map_cong)

lemma map_upt_nth: "map (\<lambda>i. f (xs ! i)) [0..<length xs] = map f xs"
  by (rule nth_equalityI) simp_all

lemma rebuilt_createTable:
  assumes "portable_table (g_dialect g) t"
  shows "g_createTable g (rebuilt_table g t) = g_createTable g t"
proof -
  have p: "portable_column (g_dialect g) (t_columns t ! i)" if "i < length (t_columns t)" for i
    using assms that by (auto simp: portable_table_def)
  have "map (g_columnDef g) (t_columns (rebuilt_table g t)) = map (\<lambda>i. g_columnDef g (t_columns t ! i)) [0..<length (t_columns t)]"
    unfolding rebuilt_table_fields using p by (auto simp: placed_column_def columnDef_repositioned rebuilt_columnDef)
  then have "map (g_columnDef g) (t_columns (rebuilt_table g t)) = map (g_columnDef g) (t_columns t)"
    by (simp add: map_upt_nth)
  from arg_cong [OF this, of "map ((@) ''    '')"]
  have lines: "map (\<lambda>col. ''    '' @ g_columnDef g col) (t_columns (rebuilt_table g t)) = map (\<lambda>col. ''    '' @ g_columnDef g col) (t_columns t)"
    by (simp add: comp_def)
  have "map (\<lambda>c. (c_isPrimaryKey c, c_name c)) (t_columns (rebuilt_table g t)) = map (\<lambda>i. (c_isPrimaryKey (t_columns t ! i), c_name (t_columns t ! i))) [0..<length (t_columns t)]"
    unfolding rebuilt_table_fields using p by (auto simp: placed_column_def repositioned_fields rebuilt_name)
  then have flags: "map (\<lambda>c. (c_isPrimaryKey c, c_name c)) (t_columns (rebuilt_table g t)) = map (\<lambda>c. (c_isPrimaryKey c, c_name c)) (t_columns t)"
    by (simp add: map_upt_nth [where f = "\<lambda>c. (c_isPrimaryKey c, c_name c)"])
  have key: "map c_name (filter c_isPrimaryKey cs) = map snd (filter fst (map (\<lambda>c. (c_isPrimaryKey c, c_name c)) cs))" for cs
    by (induction cs) auto
  have pk: "pk_columns (rebuilt_table g t) = pk_columns t"
    unfolding pk_columns_def key flags ..
  show ?thesis unfolding g_createTable_def lines pk rebuilt_table_fields(1) ..
qed

section \<open>The migration\<close>

text \<open>A database that accepts every statement.\<close>

definition accepting :: "string \<Rightarrow> string option" where
  "accepting s = None"

definition after :: "schema_state \<Rightarrow> string list \<Rightarrow> string list \<Rightarrow> (string \<times> foreign_key) list \<Rightarrow> schema_state" where
  "after s reg stmts fks =
     s\<lparr>sc_enumTypeRegistry := reg, sc_executed := sc_executed s @ stmts, sc_pendingForeignKeys := sc_pendingForeignKeys s @ fks\<rparr>"

lemma after_after: "after (after s r1 a f) r2 b h = after s r2 (a @ b) (f @ h)"
  by (simp add: after_def)

lemma after_same: "after s (sc_enumTypeRegistry s) [] [] = s"
  by (simp add: after_def)

lemma after_registry [simp]: "sc_enumTypeRegistry (after s r a f) = r"
  by (simp add: after_def)

lemma rawExecute_accepting: "rawExecute accepting stmt s = (after s (sc_enumTypeRegistry s) [stmt] [], None)"
  by (simp add: rawExecute_def accepting_def after_def)

lemma each_rawExecute: "each (\<lambda>x. rawExecute accepting (f x)) xs s = (after s (sc_enumTypeRegistry s) (map f xs) [], None)"
proof (induction xs arbitrary: s)
  case (Cons x xs)
  then show ?case by (simp add: and_then_def rawExecute_accepting after_after)
qed (simp add: done_ok_def after_same)

lemma each_rawExecute': "each (rawExecute accepting) xs s = (after s (sc_enumTypeRegistry s) xs [], None)"
  using each_rawExecute [of "\<lambda>x. x" xs s] by simp

lemma each_defer: "each (defer_fk n) fks s = (after s (sc_enumTypeRegistry s) [] (map (Pair n) fks), None)"
proof (induction fks arbitrary: s)
  case (Cons x xs)
  have d: "defer_fk n x s = (after s (sc_enumTypeRegistry s) [] [(n, x)], None)" by (simp add: defer_fk_def after_def)
  show ?case using Cons by (simp add: and_then_def d after_after)
qed (simp add: done_ok_def after_same)

lemma each_ensure_mysql:
  assumes "g_dialect g = MySQL"
  shows "\<exists>r. each (ensure_enum_of accepting g) cols s = (after s r [] [], None)"
proof (induction cols arbitrary: s)
  case Nil
  show ?case by (simp add: done_ok_def) (metis after_same)
next
  case (Cons c cols)
  have "\<exists>r. ensure_enum_of accepting g c s = (after s r [] [], None)"
  proof (cases "is_enum_column c \<and> the (c_enumTypeName c) \<notin> set (sc_enumTypeRegistry s)")
    case False
    then have "ensure_enum_of accepting g c s = (s, None)"
      by (auto simp: ensure_enum_of_def ensureEnumType_def is_enum_column_def done_ok_def)
    then show ?thesis by (metis after_same)
  next
    case True
    then have "ensure_enum_of accepting g c s = (after s (set_add (the (c_enumTypeName c)) (sc_enumTypeRegistry s)) [] [], None)"
      using assms by (auto simp: ensure_enum_of_def ensureEnumType_def is_enum_column_def g_createEnumType_def done_ok_def after_def)
    then show ?thesis by blast
  qed
  then obtain r where r: "ensure_enum_of accepting g c s = (after s r [] [], None)" by blast
  obtain r' where "each (ensure_enum_of accepting g) cols (after s r [] []) = (after (after s r [] []) r' [] [], None)" using Cons.IH by blast
  with r show ?case by (simp add: and_then_def after_after) blast
qed

lemma each_ensure_pg:
  assumes "g = getGrammar Postgres ps"
  shows "each (ensure_enum_of accepting g) cols s
    = (after s (snd (new_table_enums ps cols (sc_enumTypeRegistry s))) (fst (new_table_enums ps cols (sc_enumTypeRegistry s))) [], None)"
proof (induction cols arbitrary: s)
  case Nil
  show ?case by (simp add: done_ok_def after_same)
next
  case (Cons c cols)
  have d: "g_createEnumType g n vs = createEnumType n vs ps" for n vs by (simp add: createEnumType_def pgGrammar_def assms)
  show ?case
  proof (cases "is_enum_column c \<and> the (c_enumTypeName c) \<notin> set (sc_enumTypeRegistry s)")
    case True
    define n where "n = the (c_enumTypeName c)"
    have "ensure_enum_of accepting g c s = (after s (set_add n (sc_enumTypeRegistry s)) (createEnumType n (the (c_enumValues c)) ps) [], None)"
      using True by (auto simp: ensure_enum_of_def ensureEnumType_def is_enum_column_def n_def [symmetric] d each_rawExecute' after_def)
    then show ?thesis using True Cons.IH by (simp add: and_then_def after_after n_def split: prod.split)
  next
    case False
    then have "ensure_enum_of accepting g c s = (s, None)"
      by (auto simp: ensure_enum_of_def ensureEnumType_def is_enum_column_def done_ok_def)
    moreover have "new_table_enums ps (c # cols) r = new_table_enums ps cols r" if "r = sc_enumTypeRegistry s" for r
      using False that by auto
    ultimately show ?thesis using Cons.IH by (simp add: and_then_def)
  qed
qed

definition enum_key :: "column \<Rightarrow> (string \<times> string list) option" where
  "enum_key c = (if is_enum_column c then Some (the (c_enumTypeName c), the (c_enumValues c)) else None)"

lemma new_table_enums_keys: "map enum_key cs = map enum_key ds \<Longrightarrow> new_table_enums ps cs seen = new_table_enums ps ds seen"
proof (induction cs arbitrary: ds seen)
  case (Cons c cs)
  then obtain d ds' where d: "ds = d # ds'" "enum_key c = enum_key d" "map enum_key cs = map enum_key ds'" by (cases ds) auto
  have "is_enum_column c = is_enum_column d" "is_enum_column c \<Longrightarrow> the (c_enumTypeName c) = the (c_enumTypeName d) \<and> the (c_enumValues c) = the (c_enumValues d)"
    using d(2) by (auto simp: enum_key_def split: if_splits)
  then show ?case using Cons.IH [OF d(3)] by (auto simp: d(1))
qed simp

lemma rebuilt_enum_keys:
  assumes "portable_table Postgres t" "g_dialect g = Postgres"
  shows "map enum_key (t_columns (rebuilt_table g t)) = map enum_key (t_columns t)"
proof -
  have k: "enum_key (rebuilt_column g t c) = enum_key c" if p: "portable_column Postgres c" for c
  proof -
    have "same_type g (rebuilt_literal g (t_name t) c) c" using rebuilt_literal_same p assms(2) by metis
    then show ?thesis
      using assms(2) by (auto simp: enum_key_def same_type_def rebuilt_column_def is_enum_column_def with_setters_fields)
  qed
  have r: "enum_key (repositioned b k c) = enum_key c" for b k c
    by (simp add: enum_key_def is_enum_column_def repositioned_fields)
  have "map enum_key (t_columns (rebuilt_table g t)) = map (\<lambda>i. enum_key (t_columns t ! i)) [0..<length (t_columns t)]"
    unfolding rebuilt_table_fields using assms(1) by (auto simp: placed_column_def r k portable_table_def)
  then show ?thesis by (simp add: map_upt_nth)
qed

definition table_statements :: "dialect \<Rightarrow> string option \<Rightarrow> table_schema \<Rightarrow> string list" where
  "table_statements d ps t = createTable t d ps # map (\<lambda>idx. createIndex (t_name t) idx d ps) (t_indexes t)"

lemma schema_create_rebuilt:
  assumes "portable_table d t" "g = getGrammar d ps"
  shows "\<exists>calls r. table_calls t = Inr calls
    \<and> schema_create accepting g (t_name t) calls s
      = (after s r ((if d = Postgres then fst (new_table_enums ps (t_columns t) (sc_enumTypeRegistry s)) else []) @ table_statements d ps t)
           (map (Pair (t_name t)) (map rebuilt_fk (t_foreignKeys t))), None)
    \<and> (d = Postgres \<longrightarrow> r = snd (new_table_enums ps (t_columns t) (sc_enumTypeRegistry s)))"
proof -
  have gd: "g_dialect g = d" by (simp add: assms(2) getGrammar_def)
  obtain calls where calls: "table_calls t = Inr calls"
      "run_create calls (new_blueprint (t_name t) g) = Inr (filled t g (map (final_column g t) (t_columns t)) (t_indexes t) (map rebuilt_fk (t_foreignKeys t)))"
    using table_calls_run assms(1) gd by blast
  obtain r where r: "each (ensure_enum_of accepting g) (t_columns (rebuilt_table g t)) s
      = (after s r (if d = Postgres then fst (new_table_enums ps (t_columns t) (sc_enumTypeRegistry s)) else []) [], None)"
      "d = Postgres \<longrightarrow> r = snd (new_table_enums ps (t_columns t) (sc_enumTypeRegistry s))"
  proof (cases d)
    case MySQL
    then show ?thesis using that each_ensure_mysql [of g] gd by auto
  next
    case Postgres
    have "new_table_enums ps (t_columns (rebuilt_table g t)) (sc_enumTypeRegistry s) = new_table_enums ps (t_columns t) (sc_enumTypeRegistry s)"
      using rebuilt_enum_keys [of t g] assms(1) gd Postgres by (intro new_table_enums_keys) simp
    then show ?thesis using that each_ensure_pg [of g ps] assms(2) Postgres by simp
  qed
  have c: "g_createTable g (rebuilt_table g t) = createTable t d ps"
    using rebuilt_createTable [of g t] assms gd by (simp add: createTable_def)
  have i: "map (g_createIndex g (t_name t)) (t_indexes t) = map (\<lambda>idx. createIndex (t_name t) idx d ps) (t_indexes t)"
    by (simp add: createIndex_def assms(2))
  have "schema_create accepting g (t_name t) calls s
    = in_order [each (ensure_enum_of accepting g) (t_columns (rebuilt_table g t)), rawExecute accepting (g_createTable g (rebuilt_table g t)),
        each (\<lambda>idx. rawExecute accepting (g_createIndex g (t_name t) idx)) (t_indexes t), each (defer_fk (t_name t)) (map rebuilt_fk (t_foreignKeys t))] s"
    unfolding schema_create_def calls(2) sum.case Let_def rebuilt_table_def [symmetric] rebuilt_table_fields ..
  also have "\<dots> = (after s r ((if d = Postgres then fst (new_table_enums ps (t_columns t) (sc_enumTypeRegistry s)) else []) @ table_statements d ps t)
           (map (Pair (t_name t)) (map rebuilt_fk (t_foreignKeys t))), None)"
    unfolding c by (simp add: and_then_def r(1) rawExecute_accepting each_rawExecute each_defer after_after done_ok_def table_statements_def i)
  finally show ?thesis using calls(1) r(2) by blast
qed

text \<open>The comments that separate the tables are no statements.\<close>

definition is_comment :: "string \<Rightarrow> bool" where
  "is_comment s \<longleftrightarrow> starts COMMENT_PREFIX s"

lemma not_comment: "s \<noteq> [] \<Longrightarrow> hd s \<noteq> CHR 0x00 \<Longrightarrow> \<not> is_comment s"
  by (cases s) (auto simp: is_comment_def COMMENT_PREFIX_def)

lemma table_statements_no_comment: "filter (\<lambda>s. \<not> is_comment s) (table_statements d ps t) = table_statements d ps t"
proof -
  have "\<not> is_comment (createTable t d ps)" by (rule not_comment) (simp_all add: createTable_def g_createTable_def Let_def)
  moreover have "\<not> is_comment (createIndex n i d ps)" for n i by (rule not_comment) (simp_all add: createIndex_def g_createIndex_def)
  ultimately show ?thesis by (auto simp: table_statements_def)
qed

lemma enum_statements_no_comment:
  "filter (\<lambda>s. \<not> is_comment s) (fst (new_table_enums ps cols seen)) = fst (new_table_enums ps cols seen)"
proof (induction cols arbitrary: seen)
  case (Cons c cols)
  have "\<not> is_comment s" if "s \<in> set (createEnumType n vs ps)" for s n vs
    using that by (intro not_comment) (auto simp: createEnumType_def pgGrammar_def getGrammar_def g_createEnumType_def pg_createEnumType_def Let_def)
  then have "filter (\<lambda>s. \<not> is_comment s) (createEnumType n vs ps) = createEnumType n vs ps" for n vs by (simp add: filter_id_conv)
  with Cons show ?case by (simp add: split_def Let_def)
qed simp

lemma tables_created:
  assumes "\<forall>t\<in>set tables. portable_table d t" "g = getGrammar d ps"
  shows "\<exists>calls r. collect_results (\<lambda>t. map_result (SCreate (t_name t)) (table_calls t)) tables = Inr calls
    \<and> in_order (map (schema_call_step accepting g) calls) s
      = (after s r (filter (\<lambda>s. \<not> is_comment s) (fst (new_tables d ps tables (sc_enumTypeRegistry s))))
           (map (\<lambda>(n, f). (n, rebuilt_fk f)) (deferredFKs tables)), None)"
  using assms(1)
proof (induction tables arbitrary: s)
  case Nil
  show ?case by (simp add: done_ok_def deferredFKs_def) (metis after_same)
next
  case (Cons t tables)
  define E where "E = (if d = Postgres then new_table_enums ps (t_columns t) (sc_enumTypeRegistry s) else ([], sc_enumTypeRegistry s))"
  have E_fst: "fst E = (if d = Postgres then fst (new_table_enums ps (t_columns t) (sc_enumTypeRegistry s)) else [])"
    by (simp add: E_def)
  obtain calls1 r1 where c1: "table_calls t = Inr calls1"
      "schema_create accepting g (t_name t) calls1 s = (after s r1 (fst E @ table_statements d ps t) (map (Pair (t_name t)) (map rebuilt_fk (t_foreignKeys t))), None)"
      "d = Postgres \<longrightarrow> r1 = snd E"
    using schema_create_rebuilt [OF _ assms(2), of t s] Cons.prems unfolding E_fst [symmetric] by (auto simp: E_def)
  obtain calls2 r2 where c2: "collect_results (\<lambda>t. map_result (SCreate (t_name t)) (table_calls t)) tables = Inr calls2"
      "in_order (map (schema_call_step accepting g) calls2) (after s r1 (fst E @ table_statements d ps t) (map (Pair (t_name t)) (map rebuilt_fk (t_foreignKeys t))))
        = (after (after s r1 (fst E @ table_statements d ps t) (map (Pair (t_name t)) (map rebuilt_fk (t_foreignKeys t)))) r2
             (filter (\<lambda>s. \<not> is_comment s) (fst (new_tables d ps tables r1))) (map (\<lambda>(n, f). (n, rebuilt_fk f)) (deferredFKs tables)), None)"
    using Cons.IH [of "after s r1 (fst E @ table_statements d ps t) (map (Pair (t_name t)) (map rebuilt_fk (t_foreignKeys t)))"] Cons.prems by auto
  have my: "fst (new_tables MySQL ps ts a) = fst (new_tables MySQL ps ts b)" for ts a b
    by (induction ts arbitrary: a b) (simp_all add: Let_def split_def)
  have same: "fst (new_tables d ps tables r1) = fst (new_tables d ps tables (snd E))"
    using c1(3) my by (cases d) auto
  have nt: "fst (new_tables d ps (t # tables) (sc_enumTypeRegistry s))
      = [COMMENT_PREFIX @ t_name t] @ fst E @ table_statements d ps t @ fst (new_tables d ps tables (snd E))"
    by (simp add: E_def table_statements_def Let_def split_def)
  have com: "is_comment (COMMENT_PREFIX @ x)" for x by (simp add: is_comment_def starts_def)
  have "filter (\<lambda>s. \<not> is_comment s) (fst E) = fst E" by (simp add: E_def enum_statements_no_comment)
  then have f: "filter (\<lambda>s. \<not> is_comment s) (fst (new_tables d ps (t # tables) (sc_enumTypeRegistry s)))
      = (fst E @ table_statements d ps t) @ filter (\<lambda>s. \<not> is_comment s) (fst (new_tables d ps tables r1))"
    unfolding nt same by (simp add: com table_statements_no_comment)
  show ?case
    unfolding f using c1(1,2) c2
    by (intro exI [of _ "SCreate (t_name t) calls1 # calls2"] exI [of _ r2]) (simp add: and_then_def after_after deferredFKs_def comp_def)
qed

lemma rebuilt_fk_statement:
  "f_onDelete f \<noteq> [] \<Longrightarrow> f_onUpdate f \<noteq> [] \<Longrightarrow> g_addForeignKey g n (rebuilt_fk f) = g_addForeignKey g n f"
proof -
  have v: "validateFkAction a d = validateFkAction ''RESTRICT'' d" if "to_upper a = ''RESTRICT''" for a d
  proof -
    have u: "to_upper ''RESTRICT'' = ''RESTRICT''" by code_simp
    have "''RESTRICT'' \<in> VALID_FK_ACTIONS" by (simp add: VALID_FK_ACTIONS_def)
    then show ?thesis by (simp only: validateFkAction_def that u Let_def not_True_eq_False if_False simp_thms)
  qed
  show "f_onDelete f \<noteq> [] \<Longrightarrow> f_onUpdate f \<noteq> [] \<Longrightarrow> ?thesis"
    by (auto simp: g_addForeignKey_def rebuilt_fk_def v)
qed

text \<open>The foreign keys, applied at the end: the statements of those before the first that the grammar refuses.\<close>

lemma each_add_fk:
  "case collect_results (\<lambda>(n, f). g_addForeignKey g n f) ps of
     Inr stmts \<Rightarrow> each (add_fk accepting g) ps s = (after s (sc_enumTypeRegistry s) stmts [], None)
   | Inl e \<Rightarrow> \<exists>s'. each (add_fk accepting g) ps s = (s', Some (GrammarError e))"
proof (induction ps arbitrary: s)
  case Nil
  show ?case by (simp add: done_ok_def after_same)
next
  case (Cons p ps)
  obtain n f where p: "p = (n, f)" by force
  show ?case
  proof (cases "g_addForeignKey g n f")
    case (Inl e)
    then show ?thesis by (simp add: p add_fk_def and_then_def)
  next
    case (Inr stmt)
    have a: "add_fk accepting g (n, f) s = (after s (sc_enumTypeRegistry s) [stmt] [], None)"
      by (simp add: add_fk_def Inr rawExecute_accepting)
    show ?thesis
    proof (cases "collect_results (\<lambda>(n, f). g_addForeignKey g n f) ps")
      case (Inl e)
      then show ?thesis using Cons.IH [of "after s (sc_enumTypeRegistry s) [stmt] []"] Inr by (auto simp: p and_then_def a)
    next
      case R: (Inr stmts)
      then show ?thesis using Cons.IH [of "after s (sc_enumTypeRegistry s) [stmt] []"] Inr
        by (simp add: p and_then_def a after_after)
    qed
  qed
qed

lemma fk_statement_no_comment: "g_addForeignKey g n f = Inr s \<Longrightarrow> \<not> is_comment s"
  by (rule not_comment) (auto simp: g_addForeignKey_def bind_result_Inr_iff map_result_Inr_iff)

lemma collect_fk_cong:
  assumes "\<forall>(n, f)\<in>set ps. f_onDelete f \<noteq> [] \<and> f_onUpdate f \<noteq> []"
  shows "collect_results (\<lambda>(n, f). g_addForeignKey g n f) (map (\<lambda>(n, f). (n, rebuilt_fk f)) ps) = collect_results (\<lambda>(n, f). g_addForeignKey g n f) ps"
  using assms by (induction ps) (auto simp: rebuilt_fk_statement)

text \<open>C7. A regenerated migration for new tables does exactly what the raw one does: for any portable tables, running
  the calls that the migration file makes on a fresh schema sends the statements of \<open>generateDDL\<close>, in the same
  order and without its comments, and leaves no foreign key pending; and where \<open>generateDDL\<close> throws, the
  migration fails with the same error.\<close>

theorem builder_migration_equals_ddl:
  assumes "\<forall>t\<in>set (s_addedTables diff). portable_table (s_dialect diff) t"
    and "s_modifiedTables diff = []" "s_removedTables diff = []"
  shows "\<exists>calls. collect_results (\<lambda>t. map_result (SCreate (t_name t)) (table_calls t)) (s_addedTables diff) = Inr calls
    \<and> (case generateDDL diff of
         Inr stmts \<Rightarrow> runCodeMigration accepting (getGrammar (s_dialect diff) (s_pgSchema diff)) calls new_schema
             = (new_schema\<lparr>sc_executed := filter (\<lambda>s. \<not> is_comment s) stmts\<rparr>, None)
       | Inl e \<Rightarrow> \<exists>s. runCodeMigration accepting (getGrammar (s_dialect diff) (s_pgSchema diff)) calls new_schema = (s, Some (GrammarError e)))"
proof -
  define d ps g tables where "d = s_dialect diff" and "ps = s_pgSchema diff" and "g = getGrammar d ps" and "tables = s_addedTables diff"
  have p: "\<forall>t\<in>set tables. portable_table d t" using assms(1) by (simp add: tables_def d_def)
  obtain calls r where c: "collect_results (\<lambda>t. map_result (SCreate (t_name t)) (table_calls t)) tables = Inr calls"
      "in_order (map (schema_call_step accepting g) calls) new_schema
        = (after new_schema r (filter (\<lambda>s. \<not> is_comment s) (fst (new_tables d ps tables [])))
             (map (\<lambda>(n, f). (n, rebuilt_fk f)) (deferredFKs tables)), None)"
    using tables_created [OF p g_def, of new_schema] by (auto simp: new_schema_def)
  define S where "S = after new_schema r (filter (\<lambda>s. \<not> is_comment s) (fst (new_tables d ps tables []))) (map (\<lambda>(n, f). (n, rebuilt_fk f)) (deferredFKs tables))"
  have pend: "sc_pendingForeignKeys S = map (\<lambda>(n, f). (n, rebuilt_fk f)) (deferredFKs tables)"
    by (simp add: S_def after_def new_schema_def)
  have "\<forall>(n, f)\<in>set (deferredFKs tables). f_onDelete f \<noteq> [] \<and> f_onUpdate f \<noteq> []"
    using p by (auto simp: deferredFKs_def portable_table_def)
  from collect_fk_cong [OF this] have fk: "collect_results (\<lambda>(n, f). g_addForeignKey g n f) (sc_pendingForeignKeys S)
      = collect_results (\<lambda>(tn, f). addForeignKey tn f d ps) (deferredFKs tables)"
    unfolding pend by (simp add: addForeignKey_def g_def)
  have run: "runCodeMigration accepting g calls new_schema = flush accepting g S"
    unfolding runCodeMigration_def and_then_def c(2) S_def by simp
  have ddl: "generateDDL diff = map_result (\<lambda>fks. fst (new_tables d ps tables []) @ fks)
      (collect_results (\<lambda>(tn, f). addForeignKey tn f d ps) (deferredFKs tables))"
    unfolding generateDDL_def assms(2,3) d_def [symmetric] ps_def [symmetric] tables_def [symmetric]
    by (cases "collect_results (\<lambda>(tn, f). addForeignKey tn f d ps) (deferredFKs tables)")
      (simp_all add: Let_def split_def seenEnumMods_def removed_table_fks_def removed_table_drops_def enum_drops_def orphan_drops_def enum_mod_drops_def assms(2,3))
  have "case generateDDL diff of
         Inr stmts \<Rightarrow> runCodeMigration accepting g calls new_schema = (new_schema\<lparr>sc_executed := filter (\<lambda>s. \<not> is_comment s) stmts\<rparr>, None)
       | Inl e \<Rightarrow> \<exists>s. runCodeMigration accepting g calls new_schema = (s, Some (GrammarError e))"
  proof (cases "collect_results (\<lambda>(tn, f). addForeignKey tn f d ps) (deferredFKs tables)")
    case (Inl e)
    then show ?thesis
      using each_add_fk [of g "sc_pendingForeignKeys S" S] unfolding ddl run fk by (auto simp: flush_def and_then_def)
  next
    case (Inr stmts)
    have e: "each (add_fk accepting g) (sc_pendingForeignKeys S) S = (after S (sc_enumTypeRegistry S) stmts [], None)"
      using each_add_fk [of g "sc_pendingForeignKeys S" S] unfolding fk Inr by simp
    have "\<not> is_comment s" if s: "s \<in> set stmts" for s
    proof -
      obtain i where i: "i < length stmts" "s = stmts ! i" using s by (auto simp: in_set_conv_nth)
      have len: "length stmts = length (deferredFKs tables)" using collect_results_Inr_length [OF Inr] .
      obtain n f where nf: "deferredFKs tables ! i = (n, f)" by force
      have "g_addForeignKey g n f = Inr s"
        using collect_results_Inr_nth [OF Inr, of i] i len nf by (simp add: addForeignKey_def g_def)
      then show ?thesis by (rule fk_statement_no_comment)
    qed
    then have "filter (\<lambda>s. \<not> is_comment s) stmts = stmts" by (simp add: filter_id_conv)
    then show ?thesis
      unfolding ddl run Inr by (simp add: flush_def and_then_def e) (simp add: S_def after_def new_schema_def)
  qed
  then show ?thesis using c(1) unfolding g_def d_def ps_def tables_def by blast
qed

definition orders_table :: table_schema where
  "orders_table = (plain_table ''orders''
      [(basic_column ''id'' ''bigint'')\<lparr>c_autoIncrement := True, c_isPrimaryKey := True\<rparr>,
       (basic_column ''state'' ''enum'')\<lparr>c_enumTypeName := Some ''orders_state'', c_enumValues := Some [''new'', ''paid''], c_defaultValue := Some (JStr ''new'')\<rparr>,
       (basic_column ''userId'' ''int'')\<lparr>c_nullable := True\<rparr>])
     \<lparr>t_indexes := [\<lparr>i_name = ''orders_state_index'', i_columns = [''state''], i_unique = False, i_spatial = False\<rparr>],
      t_foreignKeys := [\<lparr>f_name = ''fk_orders_userId'', f_columns = [''userId''], f_referencedTable = ''users'', f_referencedColumns = [''id''],
         f_onDelete = ''CASCADE'', f_onUpdate = ''restrict''\<rparr>]\<rparr>"

definition orders_diff :: schema_diff where
  "orders_diff = \<lparr>s_dialect = Postgres, s_pgSchema = Some ''public'', s_addedTables = [orders_table], s_removedTables = [], s_modifiedTables = [],
     s_entityEnumTypes = Some [''orders_state'']\<rparr>"

theorem builder_migration_equals_ddl_witness:
  "\<exists>calls. collect_results (\<lambda>t. map_result (SCreate (t_name t)) (table_calls t)) [orders_table] = Inr calls
    \<and> (case generateDDL orders_diff of
         Inr stmts \<Rightarrow> runCodeMigration accepting (getGrammar Postgres (Some ''public'')) calls new_schema
             = (new_schema\<lparr>sc_executed := filter (\<lambda>s. \<not> is_comment s) stmts\<rparr>, None)
       | Inl e \<Rightarrow> \<exists>s. runCodeMigration accepting (getGrammar Postgres (Some ''public'')) calls new_schema = (s, Some (GrammarError e)))"
proof -
  have p: "\<forall>t\<in>set (s_addedTables orders_diff). portable_table (s_dialect orders_diff) t"
    by (simp add: orders_diff_def orders_table_def portable_table_def portable_column_def plain_table_def basic_column_def)
  have m: "s_modifiedTables orders_diff = []" "s_removedTables orders_diff = []" by (simp_all add: orders_diff_def)
  have f: "s_addedTables orders_diff = [orders_table]" "s_dialect orders_diff = Postgres" "s_pgSchema orders_diff = Some ''public''"
    by (simp_all add: orders_diff_def)
  show ?thesis using builder_migration_equals_ddl [OF p m] unfolding f .
qed

section \<open>Where the rebuilt table differs\<close>

text \<open>In MySQL a \<open>timestamp\<close> column is rebuilt as \<open>datetime\<close>.\<close>

lemma timestamp_rebuilt_as_datetime:
  "bind_result (column_call_of (basic_column n ''timestamp'')) (column_literal MySQL tn) = Inr (basic_column n ''datetime'')"
  by (simp add: column_call_of_def basic_column_def bp_dateTime_def)

text \<open>Two consecutive new columns are both placed directly after the same old column, so the second ends up before the first.\<close>

lemma consecutive_additions_reversed:
  "(let x = basic_column ''x'' ''int''; a = basic_column ''a'' ''int''; b = basic_column ''b'' ''int''
    in renderPositioning a [x, a, b] [a, b] = renderPositioning b [x, a, b] [a, b])"
  by (simp add: renderPositioning_def basic_column_def Let_def)

text \<open>A column name that ends in a dollar sign loses the quote that follows it when the position is inserted.\<close>

lemma dollar_in_position_breaks_the_text:
  "replace_semicolon (''.after('' @ quoteStr ''cost$'' @ '');'') ''x;'' = ''x.after('' @ [squote] @ ''cost);''"
  by (simp add: replace_semicolon_def quoteStr_def replace_char_def)

end
