(* ===== verification/BuilderAlter.thy ===== *)
theory BuilderAlter
  imports BuilderCorrect
begin

text \<open>
  The alterations that a regenerated migration makes: the calls of \<open>renderAlterBlock\<close>, the text that prints them, and
  the alter blueprint they leave.
\<close>

section \<open>The calls of an alteration\<close>

definition position_setters :: "table_diff \<Rightarrow> dialect \<Rightarrow> column \<Rightarrow> column_setter list" where
  "position_setters td d col =
     (case d_entityColumns td of
        None \<Rightarrow> []
      | Some cols \<Rightarrow>
          if d \<noteq> MySQL \<or> c_name col \<notin> c_name ` set cols then []
          else case filter (\<lambda>c. c_name c \<notin> c_name ` set (d_addedColumns td)) (rev (takeWhile (\<lambda>c. c_name c \<noteq> c_name col) cols)) of
                 prev # _ \<Rightarrow> [SAfter (c_name prev)] | [] \<Rightarrow> [SFirst])"

definition add_calls :: "table_diff \<Rightarrow> dialect \<Rightarrow> (builder_error, blueprint_call list) result" where
  "add_calls td d =
     collect_results (\<lambda>col. map_result (\<lambda>c. BColumn c (map MSet (setters_of col (stub_table td) @ position_setters td d col))) (column_call_of col))
       (d_addedColumns td)"

definition change_calls :: "table_diff \<Rightarrow> (builder_error, blueprint_call list) result" where
  "change_calls td =
     collect_results (\<lambda>m. map_result (\<lambda>c. BColumn c (map MSet (setters_of (m_newColumn m) (stub_table td)) @ [MChange])) (column_call_of (m_newColumn m)))
       (d_modifiedColumns td)"

definition drop_calls :: "table_diff \<Rightarrow> alter_call list" where
  "drop_calls td =
     (if d_primaryKeyChanged td \<and> non_empty (d_oldPrimaryKey td) then [ADropPrimary] else [])
     @ map (\<lambda>fk. ADropForeign (f_name fk)) (d_removedForeignKeys td) @ map (\<lambda>idx. ADropIndex (i_name idx)) (d_removedIndexes td)
     @ map (\<lambda>col. ADropColumn (c_name col)) (d_removedColumns td) @ map (\<lambda>r. ARenameColumn (r_from r) (r_to r)) (d_renamedColumns td)"

definition key_calls :: "table_diff \<Rightarrow> blueprint_call list" where
  "key_calls td =
     (if d_primaryKeyChanged td \<and> non_empty (d_newPrimaryKey td) then [BPrimary (the (d_newPrimaryKey td))] else [])
     @ map (\<lambda>idx. index_stmt idx (stub_table td)) (d_addedIndexes td) @ map (\<lambda>fk. fk_stmt fk (stub_table td)) (d_addedForeignKeys td)"

definition alter_calls :: "table_diff \<Rightarrow> dialect \<Rightarrow> (builder_error, alter_call list) result" where
  "alter_calls td d =
     bind_result (add_calls td d) (\<lambda>added.
     map_result (\<lambda>modified. drop_calls td @ map AOn (added @ modified @ key_calls td)) (change_calls td))"

fun print_alter :: "alter_call \<Rightarrow> string" where
  "print_alter (AOn c) = print_call c"
| "print_alter (ADropColumn n) = ''t.dropColumn('' @ quoteStr n @ '');''"
| "print_alter (ARenameColumn x y) = ''t.renameColumn('' @ quoteStr x @ '', '' @ quoteStr y @ '');''"
| "print_alter (ADropIndex n) = ''t.dropIndex('' @ quoteStr n @ '');''"
| "print_alter (ADropForeign n) = ''t.dropForeign('' @ quoteStr n @ '');''"
| "print_alter ADropPrimary = ''t.dropPrimary();''"

section \<open>The text of an alteration\<close>

lemma js_replacement_plain: "dollar \<notin> set s \<Longrightarrow> js_replacement p m p2 s = s"
proof (induction s rule: induct_list012)
  case (3 x y zs)
  then show ?case by auto
qed simp_all

lemma quoteStr_dollar: "dollar \<in> set (quoteStr s) \<longleftrightarrow> dollar \<in> set s"
proof -
  have r: "dollar \<in> set (replace_char k r s) \<longleftrightarrow> dollar \<in> set s" if "k \<noteq> dollar" "dollar \<notin> set r" for k r s
    using that by (induction s) auto
  show ?thesis by (simp add: quoteStr_def r)
qed

lemma positioning_prints:
  assumes "\<forall>cols. d_entityColumns td = Some cols \<longrightarrow> (\<forall>c\<in>set cols. dollar \<notin> set (c_name c))"
  shows "positioning td d col = concat (map print_setter (position_setters td d col)) \<and> dollar \<notin> set (positioning td d col)
    \<and> (positioning td d col = [] \<longleftrightarrow> position_setters td d col = [])"
proof (cases "d_entityColumns td")
  case None
  then show ?thesis by (simp add: positioning_def position_setters_def)
next
  case (Some cols)
  define bef where "bef = filter (\<lambda>c. c_name c \<notin> c_name ` set (d_addedColumns td)) (rev (takeWhile (\<lambda>c. c_name c \<noteq> c_name col) cols))"
  show ?thesis
  proof (cases bef)
    case Nil
    then show ?thesis
      by (simp add: positioning_def position_setters_def Some renderPositioning_def Let_def bef_def [symmetric])
  next
    case (Cons prev bs)
    have "prev \<in> set bef" by (simp add: Cons)
    then have "prev \<in> set cols" by (auto simp: bef_def dest: set_takeWhileD)
    then have "dollar \<notin> set (c_name prev)" using assms Some by blast
    then show ?thesis
      by (simp add: positioning_def position_setters_def Some renderPositioning_def Let_def bef_def [symmetric] Cons callText_def quoteStr_dollar)
  qed
qed

lemma renderColumnLine_parts:
  "renderColumnLine col t = map_result (\<lambda>c. (''t.'' @ print_column_call c @ concat (map print_modifier (map MSet (setters_of col t)))) @ '';'') (column_call_of col)"
  unfolding renderColumnLine_prints column_stmt_def by (cases "column_call_of col") simp_all

lemma add_lines_print:
  assumes "\<forall>cols. d_entityColumns td = Some cols \<longrightarrow> (\<forall>c\<in>set cols. dollar \<notin> set (c_name c))"
  shows "collect_results (\<lambda>col. map_result (\<lambda>line.
           if positioning td d col \<noteq> [] then replace_semicolon (positioning td d col @ '';'') line else line)
         (renderColumnLine col (stub_table td))) (d_addedColumns td) = map_result (map print_call) (add_calls td d)"
proof -
  have "map_result (\<lambda>line. if positioning td d col \<noteq> [] then replace_semicolon (positioning td d col @ '';'') line else line)
         (renderColumnLine col (stub_table td))
      = map_result print_call (map_result (\<lambda>c. BColumn c (map MSet (setters_of col (stub_table td) @ position_setters td d col))) (column_call_of col))" for col
  proof (cases "column_call_of col")
    case (Inr c)
    have nd: "dollar \<notin> set (positioning td d col @ '';'')" using positioning_prints [OF assms, of d col, THEN conjunct2, THEN conjunct1] by simp
    have r: "replace_semicolon (positioning td d col @ '';'') (x @ '';'') = x @ positioning td d col @ '';''" for x
      by (simp only: replace_semicolon_def js_replacement_plain [OF nd] butlast_snoc)
    show ?thesis
    proof (cases "positioning td d col = []")
      case True
      with positioning_prints [OF assms, of d col, THEN conjunct2, THEN conjunct2] have "position_setters td d col = []" by blast
      with True show ?thesis unfolding renderColumnLine_parts Inr by (simp add: comp_def)
    next
      case False
      have p: "positioning td d col = concat (map print_modifier (map MSet (position_setters td d col)))"
        using positioning_prints [OF assms, of d col, THEN conjunct1] by (simp add: comp_def)
      show ?thesis unfolding renderColumnLine_parts Inr map_result.simps if_P [OF False] r by (simp add: p)
    qed
  qed (simp add: renderColumnLine_parts)
  then show ?thesis unfolding add_calls_def collect_map_result [symmetric] by presburger
qed

lemma change_lines_print:
  "collect_results (\<lambda>m. map_result (replace_semicolon ''.change();'') (renderColumnLine (m_newColumn m) (stub_table td))) (d_modifiedColumns td)
     = map_result (map print_call) (change_calls td)"
proof -
  have r: "replace_semicolon ''.change();'' (x @ '';'') = x @ ''.change();''" for x
    by (simp add: replace_semicolon_def)
  have F: "map_result (replace_semicolon ''.change();'') (renderColumnLine (m_newColumn m) (stub_table td))
      = map_result print_call (map_result (\<lambda>c. BColumn c (map MSet (setters_of (m_newColumn m) (stub_table td)) @ [MChange])) (column_call_of (m_newColumn m)))" for m
    unfolding renderColumnLine_parts by (cases "column_call_of (m_newColumn m)") (simp_all only: map_result.simps r, simp add: comp_def)
  show ?thesis unfolding change_calls_def collect_map_result [symmetric] F ..
qed

lemma drop_lines_print: "drop_lines td = map print_alter (drop_calls td)"
  by (simp add: drop_lines_def drop_calls_def)

lemma key_lines_print: "key_lines td = map print_call (key_calls td)"
  by (simp add: key_lines_def key_calls_def renderIndexLine_prints renderForeignKeyLine_prints)

section \<open>The blueprint of an alteration\<close>

lemma run_alter_append: "run_alter (xs @ ys) b = bind_result (run_alter xs b) (run_alter ys)"
proof (induction xs arbitrary: b)
  case (Cons x xs)
  then show ?case by (cases "alter_call_step x b") simp_all
qed simp

text \<open>An alter blueprint with the columns \<open>added\<close> and \<open>modified\<close>: the objects and the references to them.\<close>

definition alter_inv :: "alter_blueprint \<Rightarrow> column list \<Rightarrow> column list \<Rightarrow> bool" where
  "alter_inv b added modified \<longleftrightarrow>
     added_columns b = added \<and> modified_columns_of b = modified
     \<and> (\<forall>k\<in>set (bp_columns b) \<union> set (ab_modifiedColumns b). k < length (bp_store b))"

lemma map_nth_snoc:
  assumes "\<forall>k\<in>set ks. k < length st"
  shows "map ((!) (st @ [c])) ks = map ((!) st) ks"
  using assms by (simp add: nth_append)

lemma fold_modify_last_alter:
  fixes b :: alter_blueprint
  assumes "bp_store b = st @ [c]"
  shows "fold (modify_column mark (length st)) (map MSet ms) b = b\<lparr>bp_store := st @ [fold set_column ms c]\<rparr>"
  using assms
proof (induction ms arbitrary: b c)
  case (Cons m ms)
  then show ?case using Cons.IH [of "b\<lparr>bp_store := st @ [set_column m c]\<rparr>" "set_column m c"] by simp
qed simp

text \<open>The column that a statement with these setters leaves.\<close>

definition altered_column :: "grammar \<Rightarrow> table_diff \<Rightarrow> column_setter list \<Rightarrow> column \<Rightarrow> column" where
  "altered_column g td ps c = fold set_column ps (with_setters c (stub_table td) (rebuilt_literal g (d_tableName td) c))"

text \<open>Everything of a blueprint except its columns.\<close>

definition rest_of :: "alter_blueprint \<Rightarrow> alter_blueprint" where
  "rest_of b = b\<lparr>bp_store := [], bp_columns := [], ab_modifiedColumns := []\<rparr>"

lemma rest_of_fields:
  assumes "rest_of b = rest_of b'"
  shows "bp_tableName b = bp_tableName b'"
    "bp_grammar b = bp_grammar b'"
    "ab_droppedColumns b = ab_droppedColumns b'"
    "ab_renamedColumns b = ab_renamedColumns b'"
    "ab_droppedIndexes b = ab_droppedIndexes b'"
    "ab_droppedForeignKeys b = ab_droppedForeignKeys b'"
    "ab_dropsPrimaryKey b = ab_dropsPrimaryKey b'"
    "ab_newPrimaryKey b = ab_newPrimaryKey b'"
    "bp_indexes b = bp_indexes b'"
    "bp_foreignKeys b = bp_foreignKeys b'"
proof -
  show "bp_tableName b = bp_tableName b'" using arg_cong [OF assms, of bp_tableName] by (simp add: rest_of_def)
  show "bp_grammar b = bp_grammar b'" using arg_cong [OF assms, of bp_grammar] by (simp add: rest_of_def)
  show "ab_droppedColumns b = ab_droppedColumns b'" using arg_cong [OF assms, of ab_droppedColumns] by (simp add: rest_of_def)
  show "ab_renamedColumns b = ab_renamedColumns b'" using arg_cong [OF assms, of ab_renamedColumns] by (simp add: rest_of_def)
  show "ab_droppedIndexes b = ab_droppedIndexes b'" using arg_cong [OF assms, of ab_droppedIndexes] by (simp add: rest_of_def)
  show "ab_droppedForeignKeys b = ab_droppedForeignKeys b'" using arg_cong [OF assms, of ab_droppedForeignKeys] by (simp add: rest_of_def)
  show "ab_dropsPrimaryKey b = ab_dropsPrimaryKey b'" using arg_cong [OF assms, of ab_dropsPrimaryKey] by (simp add: rest_of_def)
  show "ab_newPrimaryKey b = ab_newPrimaryKey b'" using arg_cong [OF assms, of ab_newPrimaryKey] by (simp add: rest_of_def)
  show "bp_indexes b = bp_indexes b'" using arg_cong [OF assms, of bp_indexes] by (simp add: rest_of_def)
  show "bp_foreignKeys b = bp_foreignKeys b'" using arg_cong [OF assms, of bp_foreignKeys] by (simp add: rest_of_def)
qed

lemma run_add_call:
  assumes "portable_column (g_dialect g) c" "bp_grammar b = g" "bp_tableName b = d_tableName td" "alter_inv b added modified"
    and "column_call_of c = Inr call"
  shows "\<exists>b'. run_call markColumnAsModified alter_primary (BColumn call (map MSet (setters_of c (stub_table td) @ ps))) b = Inr b'
    \<and> alter_inv b' (added @ [altered_column g td ps c]) modified \<and> rest_of b' = rest_of b"
proof -
  define l where "l = rebuilt_literal g (d_tableName td) c"
  have l: "column_literal (g_dialect g) (d_tableName td) call = Inr l" "plain_flags l"
    using rebuilt_literal_same [OF assms(1), of "d_tableName td"] assms(5) by (auto simp: l_def)
  define b1 where "b1 = b\<lparr>bp_store := bp_store b @ [l], bp_columns := bp_columns b @ [length (bp_store b)]\<rparr>"
  define b' where "b' = b1\<lparr>bp_store := bp_store b @ [altered_column g td ps c]\<rparr>"
  have "fold (modify_column markColumnAsModified (length (bp_store b))) (map MSet (setters_of c (stub_table td) @ ps)) b1
      = b1\<lparr>bp_store := bp_store b @ [fold set_column (setters_of c (stub_table td) @ ps) l]\<rparr>"
    by (rule fold_modify_last_alter) (simp add: b1_def)
  also have "\<dots> = b'" by (simp add: b'_def altered_column_def fold_setters [OF l(2)] l_def [symmetric])
  finally have "run_call markColumnAsModified alter_primary (BColumn call (map MSet (setters_of c (stub_table td) @ ps))) b = Inr b'"
    using assms(2,3) l(1) by (simp add: add_column_def addColumnImpl_def b1_def)
  moreover have "alter_inv b' (added @ [altered_column g td ps c]) modified"
    using assms(4) unfolding alter_inv_def added_columns_def modified_columns_of_def
    by (auto simp: less_Suc_eq ball_Un b'_def b1_def map_nth_snoc)
  moreover have "rest_of b' = rest_of b" by (simp add: rest_of_def b'_def b1_def)
  ultimately show ?thesis by blast
qed

lemma run_add_calls:
  assumes "\<forall>c\<in>set cols. portable_column (g_dialect g) c" "bp_grammar b = g" "bp_tableName b = d_tableName td" "alter_inv b added modified"
  shows "\<exists>calls b'. collect_results (\<lambda>col. map_result (\<lambda>c. BColumn c (map MSet (setters_of col (stub_table td) @ ps col))) (column_call_of col)) cols = Inr calls
    \<and> run_alter (map AOn calls) b = Inr b' \<and> alter_inv b' (added @ map (\<lambda>c. altered_column g td (ps c) c) cols) modified \<and> rest_of b' = rest_of b"
  using assms
proof (induction cols arbitrary: b added)
  case (Cons c cols)
  obtain call where c: "column_call_of c = Inr call" using rebuilt_literal_same Cons.prems(1) by (meson list.set_intros(1))
  obtain b1 where b1: "run_call markColumnAsModified alter_primary (BColumn call (map MSet (setters_of c (stub_table td) @ ps c))) b = Inr b1"
      "alter_inv b1 (added @ [altered_column g td (ps c) c]) modified" "rest_of b1 = rest_of b"
    using run_add_call [OF _ Cons.prems(2,3,4) c] Cons.prems(1) by (meson list.set_intros(1))
  have "bp_grammar b1 = g" "bp_tableName b1 = d_tableName td" using rest_of_fields [OF b1(3)] Cons.prems(2,3) by simp_all
  then obtain calls b' where r: "collect_results (\<lambda>col. map_result (\<lambda>c. BColumn c (map MSet (setters_of col (stub_table td) @ ps col))) (column_call_of col)) cols = Inr calls"
      "run_alter (map AOn calls) b1 = Inr b'" "alter_inv b' ((added @ [altered_column g td (ps c) c]) @ map (\<lambda>c. altered_column g td (ps c) c) cols) modified"
      "rest_of b' = rest_of b1"
    using Cons.IH [OF _ _ _ b1(2)] Cons.prems(1) by auto
  show ?case using c b1(1,3) r by (auto simp del: run_call.simps)
qed simp

text \<open>A changed column is added and at once moved to the modified ones.\<close>

lemma run_change_call:
  assumes "portable_column (g_dialect g) c" "bp_grammar b = g" "bp_tableName b = d_tableName td" "alter_inv b added modified"
    and "column_call_of c = Inr call"
  shows "\<exists>b'. run_call markColumnAsModified alter_primary (BColumn call (map MSet (setters_of c (stub_table td)) @ [MChange])) b = Inr b'
    \<and> alter_inv b' added (modified @ [altered_column g td [] c]) \<and> rest_of b' = rest_of b"
proof -
  obtain b1 where b1: "run_call markColumnAsModified alter_primary (BColumn call (map MSet (setters_of c (stub_table td) @ []))) b = Inr b1"
      "alter_inv b1 (added @ [altered_column g td [] c]) modified" "rest_of b1 = rest_of b"
    using run_add_call [OF assms] by blast
  define k where "k = length (bp_store b)"
  obtain l where l: "column_literal (g_dialect (bp_grammar b)) (bp_tableName b) call = Inr l"
    using b1(1) by (cases "column_literal (g_dialect (bp_grammar b)) (bp_tableName b) call") auto
  define b0 where "b0 = b\<lparr>bp_store := bp_store b @ [l], bp_columns := bp_columns b @ [k]\<rparr>"
  have f: "fold (modify_column markColumnAsModified k) (map MSet (setters_of c (stub_table td))) b0
      = b0\<lparr>bp_store := bp_store b @ [fold set_column (setters_of c (stub_table td)) l]\<rparr>"
    unfolding k_def by (rule fold_modify_last_alter) (simp add: b0_def k_def)
  have b1': "b1 = b0\<lparr>bp_store := bp_store b @ [fold set_column (setters_of c (stub_table td)) l]\<rparr>"
    using b1(1) l f by (simp add: add_column_def addColumnImpl_def k_def [symmetric] b0_def [symmetric])
  have kcols: "bp_columns b1 = bp_columns b @ [k]" by (simp add: b1' b0_def)
  have nk: "k \<notin> set (bp_columns b)" using assms(4) by (auto simp: alter_inv_def k_def)
  define b' where "b' = b1\<lparr>bp_columns := bp_columns b, ab_modifiedColumns := ab_modifiedColumns b1 @ [k]\<rparr>"
  have mark: "markColumnAsModified k b1 = b'"
    using nk by (simp add: markColumnAsModified_def kcols b'_def remove1_append)
  have "run_call markColumnAsModified alter_primary (BColumn call (map MSet (setters_of c (stub_table td)) @ [MChange])) b = Inr b'"
    using l f mark b1' by (simp add: add_column_def addColumnImpl_def k_def [symmetric] b0_def [symmetric])
  moreover have "alter_inv b' added (modified @ [altered_column g td [] c])"
    using b1(2) nk unfolding alter_inv_def added_columns_def modified_columns_of_def kcols
    by (auto simp: b'_def)
  moreover have "rest_of b' = rest_of b" using b1(3) by (simp add: rest_of_def b'_def)
  ultimately show ?thesis by blast
qed

lemma run_change_calls:
  assumes "\<forall>m\<in>set ms. portable_column (g_dialect g) (m_newColumn m)" "bp_grammar b = g" "bp_tableName b = d_tableName td" "alter_inv b added modified"
  shows "\<exists>calls b'. collect_results (\<lambda>m. map_result (\<lambda>c. BColumn c (map MSet (setters_of (m_newColumn m) (stub_table td)) @ [MChange]))
        (column_call_of (m_newColumn m))) ms = Inr calls
    \<and> run_alter (map AOn calls) b = Inr b' \<and> alter_inv b' added (modified @ map (\<lambda>m. altered_column g td [] (m_newColumn m)) ms) \<and> rest_of b' = rest_of b"
  using assms
proof (induction ms arbitrary: b modified)
  case (Cons m ms)
  obtain call where c: "column_call_of (m_newColumn m) = Inr call" using rebuilt_literal_same Cons.prems(1) by (meson list.set_intros(1))
  obtain b1 where b1: "run_call markColumnAsModified alter_primary (BColumn call (map MSet (setters_of (m_newColumn m) (stub_table td)) @ [MChange])) b = Inr b1"
      "alter_inv b1 added (modified @ [altered_column g td [] (m_newColumn m)])" "rest_of b1 = rest_of b"
    using run_change_call [OF _ Cons.prems(2,3,4) c] Cons.prems(1) by (meson list.set_intros(1))
  have "bp_grammar b1 = g" "bp_tableName b1 = d_tableName td" using rest_of_fields [OF b1(3)] Cons.prems(2,3) by simp_all
  then obtain calls b' where r: "collect_results (\<lambda>m. map_result (\<lambda>c. BColumn c (map MSet (setters_of (m_newColumn m) (stub_table td)) @ [MChange]))
        (column_call_of (m_newColumn m))) ms = Inr calls"
      "run_alter (map AOn calls) b1 = Inr b'" "alter_inv b' added ((modified @ [altered_column g td [] (m_newColumn m)]) @ map (\<lambda>m. altered_column g td [] (m_newColumn m)) ms)"
      "rest_of b' = rest_of b1"
    using Cons.IH [OF _ _ _ b1(2)] Cons.prems(1) by auto
  show ?case using c b1(1,3) r by (auto simp del: run_call.simps)
qed simp

section \<open>The whole alteration\<close>

text \<open>The drops, on any alter blueprint.\<close>

lemma run_drop_fks: "run_alter (map (\<lambda>x. ADropForeign (f x)) xs) b = Inr (b\<lparr>ab_droppedForeignKeys := ab_droppedForeignKeys b @ map f xs\<rparr>)"
  by (induction xs arbitrary: b) simp_all

lemma run_drop_indexes: "run_alter (map (\<lambda>x. ADropIndex (f x)) xs) b = Inr (b\<lparr>ab_droppedIndexes := ab_droppedIndexes b @ map f xs\<rparr>)"
  by (induction xs arbitrary: b) simp_all

lemma run_drop_columns: "run_alter (map (\<lambda>x. ADropColumn (f x)) xs) b = Inr (b\<lparr>ab_droppedColumns := ab_droppedColumns b @ map f xs\<rparr>)"
  by (induction xs arbitrary: b) simp_all

lemma run_renames: "run_alter (map (\<lambda>x. ARenameColumn (f x) (h x)) xs) b = Inr (b\<lparr>ab_renamedColumns := ab_renamedColumns b @ map (\<lambda>x. (f x, h x)) xs\<rparr>)"
  by (induction xs arbitrary: b) simp_all

definition dropped_blueprint :: "table_diff \<Rightarrow> grammar \<Rightarrow> alter_blueprint" where
  "dropped_blueprint td g =
     (new_alter (d_tableName td) g)
       \<lparr>ab_dropsPrimaryKey := (d_primaryKeyChanged td \<and> non_empty (d_oldPrimaryKey td)),
        ab_droppedForeignKeys := map f_name (d_removedForeignKeys td), ab_droppedIndexes := map i_name (d_removedIndexes td),
        ab_droppedColumns := map c_name (d_removedColumns td), ab_renamedColumns := map (\<lambda>r. (r_from r, r_to r)) (d_renamedColumns td)\<rparr>"

lemma run_drop_calls: "run_alter (drop_calls td) (new_alter (d_tableName td) g) = Inr (dropped_blueprint td g)"
proof -
  define b1 where "b1 = (new_alter (d_tableName td) g)\<lparr>ab_dropsPrimaryKey := (d_primaryKeyChanged td \<and> non_empty (d_oldPrimaryKey td))\<rparr>"
  have "run_alter (if d_primaryKeyChanged td \<and> non_empty (d_oldPrimaryKey td) then [ADropPrimary] else []) (new_alter (d_tableName td) g) = Inr b1"
    by (simp add: b1_def new_alter_def)
  then show ?thesis
    unfolding drop_calls_def run_alter_append
    by (simp add: run_drop_fks run_drop_indexes run_drop_columns run_renames) (simp add: b1_def dropped_blueprint_def new_alter_def)
qed

text \<open>Indexes and foreign keys, on any blueprint of the table.\<close>

lemma run_index_stmt:
  fixes b :: alter_blueprint
  assumes "bp_tableName b = t_name t" "\<not> (i_unique i \<and> i_spatial i)"
  shows "run_call mark pk (index_stmt i t) b = Inr (addIndexImpl i b)"
  using assms by (cases i) (auto simp: index_stmt_def Let_def bp_index_def bp_unique_def spatialIndex_def defaultIndexName_def)

lemma run_fk_stmt:
  fixes b :: alter_blueprint
  assumes "bp_tableName b = t_name t"
  shows "run_call mark pk (fk_stmt f t) b = Inr (addForeignKeyImpl (rebuilt_fk f) b)"
proof -
  have "fold modify_fk (fk_modifiers f) \<lparr>f_name = f_name f, f_columns = f_columns f, f_referencedTable = [],
        f_referencedColumns = [], f_onDelete = ''RESTRICT'', f_onUpdate = ''RESTRICT''\<rparr> = rebuilt_fk f"
    by (cases f) (auto simp: fk_modifiers_def rebuilt_fk_def split: list.splits)
  then show ?thesis using assms
    by (auto simp: fk_stmt_def Let_def foreign_def addForeignKeyImpl_def defaultIndexName_def modify_fk_at_def)
qed

lemma run_index_fk_stmts:
  fixes b :: alter_blueprint
  assumes "bp_tableName b = t_name t" "\<forall>i\<in>set is. \<not> (i_unique i \<and> i_spatial i)"
  shows "run_alter (map AOn (map (\<lambda>i. index_stmt i t) is @ map (\<lambda>f. fk_stmt f t) fs)) b
    = Inr (b\<lparr>bp_indexes := bp_indexes b @ is, bp_foreignKeys := bp_foreignKeys b @ map rebuilt_fk fs\<rparr>)"
  using assms
proof (induction "is" arbitrary: b)
  case Nil
  then show ?case
  proof (induction fs arbitrary: b)
    case (Cons f fs)
    then show ?case by (simp add: run_fk_stmt del: run_call.simps) (simp add: addForeignKeyImpl_def)
  qed simp
next
  case (Cons i "is")
  have n: "bp_tableName (addIndexImpl i b) = t_name t" using Cons.prems(1) by (simp add: addIndexImpl_def)
  show ?case using Cons.IH [OF n] Cons.prems by (simp add: run_index_stmt del: run_call.simps) (simp add: addIndexImpl_def)
qed

lemma altered_column_def_text:
  assumes "portable_column (g_dialect g) c"
  shows "g_columnDef g (altered_column g td (position_setters td2 d c2) c) = g_columnDef g c"
proof -
  have a: "g_columnDef g (x\<lparr>c_afterColumn := p\<rparr>) = g_columnDef g x" for x p
  proof -
    define y where "y = x\<lparr>c_afterColumn := p\<rparr>"
    have f: "c_name y = c_name x" "c_type y = c_type x" "c_size y = c_size x" "c_scale y = c_scale x" "c_enumValues y = c_enumValues x"
      "c_enumTypeName y = c_enumTypeName x" "c_unsigned y = c_unsigned x" "c_nullable y = c_nullable x" "c_autoIncrement y = c_autoIncrement x"
      "c_defaultExpression y = c_defaultExpression x" "c_defaultValue y = c_defaultValue x" "c_onUpdateExpression y = c_onUpdateExpression x"
      by (simp_all add: y_def)
    show ?thesis unfolding y_def [symmetric]
      by (simp only: g_columnDef_def my_columnDef_def pg_columnDef_def my_typeDef_def pg_typeDef_def renderMysqlDefault_def renderPgDefault_def f)
  qed
  have "fold set_column (position_setters td2 d c2) x = x \<or> (\<exists>p. fold set_column (position_setters td2 d c2) x = x\<lparr>c_afterColumn := p\<rparr>)" for x
    by (auto simp: position_setters_def split: option.splits list.splits)
  then have "g_columnDef g (altered_column g td (position_setters td2 d c2) c) = g_columnDef g (with_setters c (stub_table td) (rebuilt_literal g (d_tableName td) c))"
    unfolding altered_column_def using a by metis
  also have "\<dots> = g_columnDef g c" using rebuilt_literal_same [OF assms] same_type_columnDef by blast
  finally show ?thesis .
qed

text \<open>The text of the alteration, from its calls.\<close>

definition print_alteration :: "table_diff \<Rightarrow> dialect \<Rightarrow> alter_call list \<Rightarrow> string" where
  "print_alteration td d calls =
     (let pre = pre_lines td d; post = post_lines td d
      in if calls = [] \<and> pre = [] \<and> post = [] then []
         else join [newline, newline]
           ((if pre \<noteq> [] then [join [newline] pre] else [])
            @ (if calls \<noteq> [] then [''    await db.schema.alter('' @ quoteStr (d_tableName td) @ '', t => {'' @ [newline]
                 @ join [newline] (map (\<lambda>c. indent8 (print_alter c)) calls) @ [newline] @ ''    });''] else [])
            @ (if post \<noteq> [] then [join [newline] post] else [])))"

lemma renderAlterBlock_prints:
  assumes "\<forall>cols. d_entityColumns td = Some cols \<longrightarrow> (\<forall>c\<in>set cols. dollar \<notin> set (c_name c))"
  shows "renderAlterBlock td d = map_result (print_alteration td d) (alter_calls td d)"
  unfolding renderAlterBlock_def add_lines_print [OF assms] change_lines_print alter_calls_def
  by (cases "add_calls td d"; cases "change_calls td")
    (simp_all add: drop_lines_print key_lines_print print_alteration_def Let_def comp_def)


definition renaming_diff :: table_diff where
  "renaming_diff = \<lparr>d_tableName = ''users'', d_addedColumns = [basic_column ''age'' ''int''], d_removedColumns = [basic_column ''old'' ''text''],
     d_modifiedColumns = [\<lparr>m_name = ''name'', m_oldColumn = (basic_column ''name'' ''varchar'')\<lparr>c_size := Some 20\<rparr>,
        m_newColumn = (basic_column ''name'' ''varchar'')\<lparr>c_size := Some 40\<rparr>, m_typeChanged = True, m_nullableChanged = False, m_defaultChanged = False,
        m_autoIncrementChanged = False, m_onUpdateChanged = False\<rparr>],
     d_renamedColumns = [], d_reorderedColumns = [],
     d_addedIndexes = [\<lparr>i_name = ''users_age_index'', i_columns = [''age''], i_unique = False, i_spatial = False\<rparr>], d_removedIndexes = [],
     d_addedForeignKeys = [], d_removedForeignKeys = [], d_primaryKeyChanged = False, d_newPrimaryKey = None, d_oldPrimaryKey = None,
     d_oldPrimaryKeyConstraintName = None, d_addedEnumTypes = [], d_removedEnumTypes = [], d_modifiedEnumTypes = [],
     d_entityColumns = Some [(basic_column ''name'' ''varchar'')\<lparr>c_size := Some 40\<rparr>, basic_column ''age'' ''int'']\<rparr>"


end
