(* ===== verification/MigrationCreate.thy ===== *)
theory MigrationCreate
  imports DbReaderFacts EntityReaderFacts BuilderAlter MigrationCorrect
begin

text \<open>
  The command \<open>migration:create\<close>, \<open>src/src/database/migration/create/MigrationCreateCommand.ts\<close>: it reads the schema of
  the entities and of the database, compares them, and writes the difference as a migration; with
  \<open>migration:reset\<close> (\<open>MigrationResetCommand.ts\<close>) and the naming of files (\<open>file-generator.ts\<close>).  The properties connect the readers
  with the comparison and the generated statements.
\<close>

section \<open>Files\<close>

definition spaces4 :: string where
  "spaces4 = ''    ''"

fun split_lines :: "string \<Rightarrow> string list" where
  "split_lines [] = [[]]"
| "split_lines (c # s) = (if c = newline then [] # split_lines s else case split_lines s of [] \<Rightarrow> [[c]] | l # ls \<Rightarrow> (c # l) # ls)"

definition formatStatement :: "string \<Rightarrow> string" where
  "formatStatement stmt =
     (let escaped = escapeTemplate stmt
      in if newline \<notin> set escaped then ''    await db.rawExecute('' @ [backtick] @ escaped @ [backtick] @ '');''
         else ''    await db.rawExecute('' @ [backtick, newline] @ join [newline] (map indent8 (split_lines escaped)) @ [newline] @ spaces4 @ [backtick] @ '');'')"

fun file_lines :: "bool \<Rightarrow> string list \<Rightarrow> string list" where
  "file_lines hasGroup [] = []"
| "file_lines hasGroup (stmt # stmts) =
     (case strip_prefix COMMENT_PREFIX stmt of
        Some tableName \<Rightarrow> (if hasGroup then [[]] else []) @ [spaces4 @ ''// Table: '' @ tableName] @ file_lines True stmts
      | None \<Rightarrow> formatStatement stmt # file_lines hasGroup stmts)"

definition buildFileContent :: "string list \<Rightarrow> string" where
  "buildFileContent statements = FILE_HEADER @ join [newline] (file_lines False statements) @ FILE_FOOTER"

definition slug_char :: "char \<Rightarrow> bool" where
  "slug_char c \<longleftrightarrow> 97 \<le> (of_char c :: nat) \<and> of_char c \<le> (122 :: nat) \<or> 48 \<le> (of_char c :: nat) \<and> of_char c \<le> (57 :: nat)"

text \<open>\<open>replace(/[^a-z0-9]+/g, '_')\<close>; \<open>gap\<close> says whether the run of other characters already gave its underscore.\<close>

fun squeeze :: "bool \<Rightarrow> string \<Rightarrow> string" where
  "squeeze gap [] = []"
| "squeeze gap (c # s) = (if slug_char c then c # squeeze False s else if gap then squeeze True s else CHR ''_'' # squeeze True s)"

definition strip_underscores :: "string \<Rightarrow> string" where
  "strip_underscores s =
     (let s1 = (case s of c # r \<Rightarrow> if c = CHR ''_'' then r else s | [] \<Rightarrow> [])
      in if s1 \<noteq> [] \<and> last s1 = CHR ''_'' then butlast s1 else s1)"

definition slugify :: "string \<Rightarrow> string" where
  "slugify s = take 50 (strip_underscores (squeeze False (to_lower s)))"

definition pad2 :: "nat \<Rightarrow> string" where
  "pad2 n = (let s = nat_to_string n in if length s < 2 then ''0'' @ s else s)"

record utc_date =
  dt_year :: nat
  dt_month :: nat
  dt_day :: nat
  dt_hour :: nat
  dt_minute :: nat
  dt_second :: nat

text \<open>The month counts from one here, as it is printed.\<close>

definition formatTimestamp :: "utc_date \<Rightarrow> string" where
  "formatTimestamp t =
     nat_to_string (dt_year t) @ pad2 (dt_month t) @ pad2 (dt_day t) @ ''_'' @ pad2 (dt_hour t) @ pad2 (dt_minute t) @ pad2 (dt_second t)"

definition migration_filename :: "utc_date \<Rightarrow> string \<Rightarrow> string" where
  "migration_filename now description = formatTimestamp now @ ''_'' @ slugify description @ ''.ts''"

definition promptMigrationDescription :: "bool \<Rightarrow> string \<Rightarrow> string" where
  "promptMigrationDescription nonInteractive answer =
     (if nonInteractive then ''auto'' else if trim answer = [] then ''migration'' else trim answer)"

section \<open>The commands\<close>

datatype create_error = ReadFailed string | DdlFailed sql_error | BuilderFailed builder_error

text \<open>\<open>hasChanges\<close>\<close>

definition table_changed :: "table_diff \<Rightarrow> bool" where
  "table_changed t \<longleftrightarrow>
     d_addedColumns t \<noteq> [] \<or> d_removedColumns t \<noteq> [] \<or> d_modifiedColumns t \<noteq> [] \<or> d_renamedColumns t \<noteq> []
     \<or> d_addedIndexes t \<noteq> [] \<or> d_removedIndexes t \<noteq> [] \<or> d_addedForeignKeys t \<noteq> [] \<or> d_removedForeignKeys t \<noteq> []
     \<or> d_primaryKeyChanged t \<or> d_addedEnumTypes t \<noteq> [] \<or> d_removedEnumTypes t \<noteq> [] \<or> d_modifiedEnumTypes t \<noteq> []"

definition hasChanges :: "schema_diff \<Rightarrow> bool" where
  "hasChanges diff \<longleftrightarrow> s_addedTables diff \<noteq> [] \<or> s_removedTables diff \<noteq> [] \<or> (\<exists>t\<in>set (s_modifiedTables diff). table_changed t)"

text \<open>The two schemas that are compared: the entities', and the database's tables of these names and of all other tables
that are not internal.  The outer \<open>None\<close> is the enum loop that does not end.\<close>

definition db_table_names :: "database_schema \<Rightarrow> string list \<Rightarrow> string list" where
  "db_table_names entitySchema allDbTableNames =
     jkeys entitySchema @ filter (\<lambda>n. \<not> jhas entitySchema n \<and> n \<notin> set INTERNAL_TABLES) allDbTableNames"

definition read_schemas :: "entity list \<Rightarrow> dialect \<Rightarrow> catalog \<Rightarrow> string \<Rightarrow> (string, database_schema \<times> database_schema) result option" where
  "read_schemas entities d cat pgSchema =
     (let entitySchema = readEntitiesSchema entities d
      in case readAllTableNames cat pgSchema of
           Inl e \<Rightarrow> Some (Inl e)
         | Inr names \<Rightarrow> map_option (map_result (Pair entitySchema)) (readDatabaseSchema cat (db_table_names entitySchema names) pgSchema))"

text \<open>The command: no file when there is nothing to do, else the name of the file and its content.\<close>

definition render_migration :: "bool \<Rightarrow> schema_diff \<Rightarrow> (create_error, string) result" where
  "render_migration raw diff =
     (if raw then (case generateDDL diff of Inl e \<Rightarrow> Inl (DdlFailed e) | Inr stmts \<Rightarrow> Inr (buildFileContent stmts))
      else (case generateBuilderMigrationFromDiff diff of Inl e \<Rightarrow> Inl (BuilderFailed e) | Inr content \<Rightarrow> Inr content))"

definition migration_create :: "(string \<Rightarrow> string \<Rightarrow> string list \<Rightarrow> string) \<Rightarrow> string \<Rightarrow> utc_date \<Rightarrow> bool \<Rightarrow> bool \<Rightarrow> entity list \<Rightarrow> dialect \<Rightarrow> catalog
    \<Rightarrow> string \<Rightarrow> (create_error, (string \<times> string) option) result option" where
  "migration_create ask answer now nonInteractive raw entities d cat pgSchema =
     map_option (\<lambda>r. case r of
         Inl e \<Rightarrow> Inl (ReadFailed e)
       | Inr (entitySchema, dbSchema) \<Rightarrow>
           let diff = compareSchemas ask nonInteractive entitySchema dbSchema d (\<not> nonInteractive) (Some pgSchema)
           in if \<not> hasChanges diff then Inr None
              else map_result (\<lambda>content. Some (migration_filename now (promptMigrationDescription nonInteractive answer), content))
                     (render_migration raw diff))
       (read_schemas entities d cat pgSchema)"

text \<open>The base migration of \<open>migration:reset\<close>, which first removes the files that end in \<open>.ts\<close>: the files that remain and
the file it writes.\<close>

definition migration_reset :: "string list \<Rightarrow> entity list \<Rightarrow> dialect \<Rightarrow> string list \<times> (builder_error, (string \<times> string) option) result" where
  "migration_reset files entities d =
     (let tables = jvalues (readEntitiesSchema entities d)
      in (filter (\<lambda>f. \<not> ends_with f ''.ts'') files,
          if tables = [] then Inr None
          else map_result (\<lambda>content. Some (''00000000_000000_base.ts'', content)) (generateBuilderMigrationFile tables)))"

section \<open>From the readers to the migration\<close>

lemma jget_entities:
  assumes "jget (readEntitiesSchema entities d) n = Some t"
  shows "\<exists>e\<in>set entities. t = readTableSchema e n d \<and> n \<noteq> [] \<and> n \<notin> set INTERNAL_TABLES"
proof -
  define step where "step = (\<lambda>e schema. let tableName = entity_table_name e
            in if tableName = [] \<or> tableName \<in> set INTERNAL_TABLES then schema
               else jset tableName (readTableSchema e tableName d) schema)"
  have "jget (fold step es m) n = Some t \<Longrightarrow> jget m n = Some t \<or> (\<exists>e\<in>set es. t = readTableSchema e n d \<and> n \<noteq> [] \<and> n \<notin> set INTERNAL_TABLES)" for es m
  proof (induction es arbitrary: m)
    case (Cons e es)
    then have "jget (step e m) n = Some t \<or> (\<exists>e\<in>set es. t = readTableSchema e n d \<and> n \<noteq> [] \<and> n \<notin> set INTERNAL_TABLES)" by simp
    then show ?case by (auto simp: step_def Let_def split: if_splits)
  qed simp
  from this [of entities "[]"] show ?thesis using assms by (auto simp: readEntitiesSchema_def step_def)
qed

lemma mysql_column_name: "mysql_column row = Some c \<Longrightarrow> c_name c = COLUMN_NAME row"
  by (auto simp: mysql_column_def Let_def bind_eq_Some_conv basic_column_def)

lemma those_map_names: "those (map mysql_column rows) = Some cs \<Longrightarrow> map c_name cs = map COLUMN_NAME rows"
proof (induction rows arbitrary: cs)
  case (Cons r rows)
  then show ?case by (auto simp: mysql_column_name split: option.splits)
qed simp

lemma readMySQLTable_columns:
  assumes "readMySQLTable cat n = Some (Inr (Some t))"
  shows "\<exists>rows. myc_columns cat n = Inr rows \<and> map c_name (t_columns t) = map COLUMN_NAME rows"
  using assms
  by (auto simp: readMySQLTable_def Let_def bind_eq_Some_conv bind_result_Inr_iff map_result_Inr_iff plain_table_def
      dest!: those_map_names split: sum.splits if_splits)

text \<open>A catalogue lists every column of a table once.\<close>

definition lists_columns_once :: "mysql_catalog \<Rightarrow> bool" where
  "lists_columns_once cat \<longleftrightarrow> (\<forall>n. case myc_columns cat n of Inr rows \<Rightarrow> distinct (map COLUMN_NAME rows) | Inl _ \<Rightarrow> True)"

lemma read_tables_mysql:
  assumes "lists_columns_once cat" "readDatabaseSchema (MySQLCatalog cat) names pgSchema = Some (Inr dbSchema)" "jget dbSchema n = Some t"
  shows "wf_table t \<and> distinct (map i_name (t_indexes t)) \<and> distinct (map f_name (t_foreignKeys t)) \<and> t_name t = n"
proof -
  have o: "read_outcome (MySQLCatalog cat) pgSchema [] names (Some (Inr dbSchema))"
    using read_tables_outcome [of "MySQLCatalog cat" pgSchema "[]" names] assms(2) by (simp add: readDatabaseSchema_def)
  have "jget dbSchema n = (if n \<in> set names then (case read_table (MySQLCatalog cat) n pgSchema of Some (Inr (Some t)) \<Rightarrow> Some t | _ \<Rightarrow> jget [] n) else jget [] n)"
    using o unfolding read_outcome_def by simp
  then have "read_table (MySQLCatalog cat) n pgSchema = Some (Inr (Some t))"
    using assms(3) by (auto split: if_splits option.splits sum.splits)
  then have r: "readMySQLTable cat n = Some (Inr (Some t))" by simp
  obtain rows where rows: "myc_columns cat n = Inr rows" "map c_name (t_columns t) = map COLUMN_NAME rows"
    using readMySQLTable_columns [OF r] by blast
  have "distinct (map COLUMN_NAME rows)" using assms(1) rows(1) unfolding lists_columns_once_def by (metis sum.case(2))
  with readMySQLTable_keys [OF r] rows(2) show ?thesis by (simp add: wf_table_def)
qed


definition sample_catalog :: mysql_catalog where
  "sample_catalog = \<lparr>myc_tables = Inr [''users'', ''_migrations''],
     myc_columns = (\<lambda>n. if n = ''users'' then Inr [\<lparr>COLUMN_NAME = ''id'', ORDINAL_POSITION = 1, COLUMN_DEFAULT = None, IS_NULLABLE = ''NO'',
        DATA_TYPE = ''int'', COLUMN_TYPE = ''int unsigned'', CHARACTER_MAXIMUM_LENGTH = None, NUMERIC_PRECISION = Some 10, NUMERIC_SCALE = Some 0,
        EXTRA = ''auto_increment'', COLUMN_KEY = ''PRI''\<rparr>] else Inr []),
     myc_showIndex = (\<lambda>n. Inr []), myc_foreignKeys = (\<lambda>n. Inr [])\<rparr>"


text \<open>A difference that only reorders columns is reported as no change.\<close>

lemma reordering_is_no_change:
  "\<not> hasChanges (orders_diff\<lparr>s_addedTables := [], s_modifiedTables := [renaming_diff\<lparr>d_addedColumns := [], d_removedColumns := [],
      d_modifiedColumns := [], d_addedIndexes := [], d_reorderedColumns := [\<lparr>o_name = ''b'', o_after = None\<rparr>]\<rparr>]\<rparr>)"
  by (simp add: hasChanges_def table_changed_def orders_diff_def renaming_diff_def)

end
