(* ===== verification/MigrationRun.thy ===== *)
theory MigrationRun
  imports SchemaBuilder EntityReader
begin

text \<open>
  The command \<open>migration:run\<close>, \<open>src/src/database/migration/MigrationRunCommand.ts\<close>: the migration files that the table
  \<open>_migrations\<close> does not list are run one after the other, and each is entered into the table when it has succeeded.
  What a migration does to the database is the parameter \<open>migrate\<close>; loading the modules and the worker's
  queue are left out.
\<close>

text \<open>\<open>/\.[jt]s$/\<close>\<close>

definition is_migration_file :: "string \<Rightarrow> bool" where
  "is_migration_file f \<longleftrightarrow> ends_with f ''.js'' \<or> ends_with f ''.ts''"

definition migration_names :: "string list \<Rightarrow> string list" where
  "migration_names files = sort (map (\<lambda>f. take (length f - 3) f) (filter is_migration_file files))"

text \<open>lodash's \<open>difference\<close> keeps the order and the repetitions of its first argument.\<close>

definition unexecutedMigrations :: "string list \<Rightarrow> string list \<Rightarrow> string list" where
  "unexecutedMigrations files executed = filter (\<lambda>m. m \<notin> set executed) (migration_names files)"

datatype run_error = NoDirectory | MigrationFailed string string | DuplicateEntry string

text \<open>The loop: the database, the names in \<open>_migrations\<close> (its primary key), and the error that stopped it.\<close>

fun run_migrations :: "(string \<Rightarrow> 'db \<Rightarrow> 'db \<times> string option) \<Rightarrow> string list \<Rightarrow> 'db \<Rightarrow> string list \<Rightarrow> ('db \<times> string list) \<times> run_error option" where
  "run_migrations migrate [] db executed = ((db, executed), None)"
| "run_migrations migrate (m # ms) db executed =
     (case migrate m db of
        (db', Some e) \<Rightarrow> ((db', executed), Some (MigrationFailed m e))
      | (db', None) \<Rightarrow>
          if m \<in> set executed then ((db', executed), Some (DuplicateEntry m))
          else run_migrations migrate ms db' (executed @ [m]))"

definition migration_run :: "(string \<Rightarrow> 'db \<Rightarrow> 'db \<times> string option) \<Rightarrow> string list option \<Rightarrow> 'db \<Rightarrow> string list \<Rightarrow> ('db \<times> string list) \<times> run_error option" where
  "migration_run migrate files db executed =
     (case files of
        None \<Rightarrow> ((db, executed), Some NoDirectory)
      | Some fs \<Rightarrow> run_migrations migrate (unexecutedMigrations fs executed) db executed)"

text \<open>\<open>createMigrationsTableIfNotExists\<close>: the statement for a table that does not exist.\<close>

definition lines4 :: "string list \<Rightarrow> string" where
  "lines4 ls = concat (map (\<lambda>l. newline # replicate 16 (CHR '' '') @ l) ls) @ newline # replicate 12 (CHR '' '')"

definition migrationsTableSql :: "dialect \<Rightarrow> string" where
  "migrationsTableSql d =
     (if d = Postgres
      then lines4 [''CREATE TABLE '' @ [dquote] @ ''_migrations'' @ [dquote] @ '' ('',
        ''    '' @ [dquote] @ ''name'' @ [dquote] @ '' varchar(255) NOT NULL PRIMARY KEY,'',
        ''    '' @ [dquote] @ ''executedAt'' @ [dquote] @ '' timestamp NOT NULL,'',
        ''    '' @ [dquote] @ ''durationMs'' @ [dquote] @ '' integer NOT NULL'', '')'']
      else lines4 [''CREATE TABLE _migrations ('', ''    name varchar(255) NOT NULL,'', ''    executedAt datetime NOT NULL,'',
        ''    durationMs int unsigned NOT NULL,'', ''    PRIMARY KEY (name)'', '') ENGINE=InnoDB''])"

definition createMigrationsTableIfNotExists :: "(string \<Rightarrow> string option) \<Rightarrow> bool \<Rightarrow> dialect \<Rightarrow> action" where
  "createMigrationsTableIfNotExists db exists d s = (if exists then (s, None) else rawExecute db (migrationsTableSql d) s)"

section \<open>Properties\<close>

lemma run_migrations_prefix:
  assumes "distinct ms" "set ms \<inter> set executed = {}" "run_migrations migrate ms db executed = ((db', executed'), r)"
  shows "\<exists>k\<le>length ms. executed' = executed @ take k ms \<and> (r = None \<longleftrightarrow> k = length ms)
    \<and> (\<forall>e. r = Some e \<longrightarrow> (\<exists>msg. e = MigrationFailed (ms ! k) msg))"
  using assms
proof (induction ms arbitrary: db executed)
  case (Cons m ms)
  obtain db1 res where m: "migrate m db = (db1, res)" by force
  show ?case
  proof (cases res)
    case (Some e)
    with Cons.prems(3) m show ?thesis by (intro exI [of _ 0]) auto
  next
    case None
    have new: "m \<notin> set executed" using Cons.prems(2) by auto
    have "run_migrations migrate ms db1 (executed @ [m]) = ((db', executed'), r)" using Cons.prems(3) m None new by simp
    moreover have "distinct ms" "set ms \<inter> set (executed @ [m]) = {}" using Cons.prems(1,2) by auto
    ultimately obtain k where "k \<le> length ms" "executed' = (executed @ [m]) @ take k ms" "r = None \<longleftrightarrow> k = length ms"
      "\<forall>e. r = Some e \<longrightarrow> (\<exists>msg. e = MigrationFailed (ms ! k) msg)"
      using Cons.IH by blast
    then show ?thesis by (intro exI [of _ "Suc k"]) auto
  qed
qed auto

lemma distinct_sorted_names:
  "distinct (map (\<lambda>f. take (length f - 3) f) (filter is_migration_file files)) \<Longrightarrow> distinct (migration_names files) \<and> sorted (migration_names files)"
  by (simp add: migration_names_def)


text \<open>One migration with two compiled files runs twice, and the second entry is refused.\<close>

lemma duplicate_files_run_twice:
  "snd (migration_run (\<lambda>m n. (Suc n, None)) (Some [''a.js'', ''a.ts'']) 0 []) = Some (DuplicateEntry ''a'')
   \<and> fst (fst (migration_run (\<lambda>m n. (Suc n, None)) (Some [''a.js'', ''a.ts'']) 0 [])) = 2"
  by code_simp


end
