(* ===== verification/Mesh.thy ===== *)
theory Mesh
  imports Prelude "HOL-Library.List_Lexorder" "HOL-Library.Product_Lexorder"
begin

text \<open>
  The mesh of server processes, \<open>src/src/services/mesh.ts\<close>: every process takes an instance id from Redis, listens on
  a channel of its own and on a common one, keeps a heartbeat in Redis, and answers requests of the others; the process
  that leads removes the instances whose heartbeat is old.

  A \<open>mesh\<close> is any number of services (\<open>MeshService\<close> objects) over one Redis.  The code after an \<open>await\<close> of a Redis
  call, and the handler of a failed \<open>publish\<close>, is a continuation in \<open>ms_ops\<close>: \<open>OpDone\<close> lets Redis execute the
  command (or not) and the reply (or an error) arrive.  What Redis publishes enters the inbox of the listening services,
  in order, and is handled when the event \<open>Deliver\<close> fires.  Timers are armed while they are in \<open>ms_timers\<close> or
  \<open>ms_intervals\<close>.  Handlers are user code that answers by events.  \<open>wire\<close> is \<open>JSON.stringify\<close> followed by
  \<open>JSON.parse\<close> on the other side, or the message of the exception that the first throws.
\<close>

section \<open>Messages\<close>

datatype 'd mesh_message =
    MRequest string nat string 'd "int option"
  | MResponse string "string option" "'d option"
  | MHeartbeat string
  | MBroadcast nat string 'd
  | MInvalid

datatype channel = InstanceChannel nat | BroadcastChannel

datatype mesh_error =
    MeshRequestTimeoutError nat string
  | MeshHandlerError string
  | MeshNoHandlerError string
  | PublishFailed string
  | MeshStopped

definition NO_HANDLER_ERROR_PREFIX :: string where
  "NO_HANDLER_ERROR_PREFIX = ''MESH_NO_HANDLER:''"

section \<open>State\<close>

record pending_request =
  pr_timer :: nat
  pr_type :: string
  pr_targetInstanceId :: nat
  pr_timeoutMs :: int

record request_timer =
  rt_handle :: nat
  rt_requestId :: string
  rt_target :: nat
  rt_msgType :: string
  rt_deadline :: int

datatype mesh_interval = HeartbeatInterval | HandlerInterval string nat

datatype 'd mesh_op =
    StartIncr
  | StartSubscribe nat nat
  | StartHeartbeat nat nat
  | StartHset nat nat
  | StartUndo nat
  | StopLeader
  | StopUnsubscribe nat
  | StopDeregister nat
  | BeatHeartbeat nat
  | BeatCleanup
  | BeatCallback "nat list"
  | PublishRequest string nat channel "'d mesh_message"
  | Publish channel "'d mesh_message"

record running_handler =
  rh_requestId :: string
  rh_sender :: nat
  rh_interval :: nat

datatype 'd mesh_output =
    InvokeThrew
  | InvokedLocally string 'd
  | Invoked string
  | MeshResolved string "'d option"
  | MeshRejected string mesh_error
  | HandlerCalled nat string 'd
  | BroadcastHandled string 'd nat
  | NodeCleanedUp nat
  | StartResolved
  | StartRejected
  | StopResolved
  | LeaderServiceStarted
  | LeaderServiceStopped

record 'd mesh_node =
  ms_instanceId :: nat
  ms_running :: bool
  ms_hostname :: string
  ms_heartbeatTimer :: "nat option"
  ms_leaderService :: "bool option"
  ms_subscriber :: "nat option"
  ms_subscriptions :: "(nat \<times> nat) list"
  ms_handlers :: "string list"
  ms_broadcastHandlers :: "string list"
  ms_pending :: "(string, pending_request) jsmap"
  ms_activeHandlerIntervals :: "nat list"
  ms_timers :: "request_timer list"
  ms_intervals :: "(nat \<times> mesh_interval) list"
  ms_tasks :: "(nat \<times> running_handler) list"
  ms_handles :: nat
  ms_ops :: "'d mesh_op list"
  ms_inbox :: "(channel \<times> 'd mesh_message) list"
  ms_log :: "'d mesh_output list"

record 'd mesh =
  me_now :: int
  me_nextId :: nat
  me_heartbeats :: "(nat, int) jsmap"
  me_hostnames :: "(nat, string) jsmap"
  me_nodes :: "'d mesh_node list"

record mesh_options =
  mo_nodeTtlMs :: int
  mo_requestTimeoutMs :: int

definition new_mesh_node :: "string \<Rightarrow> string list \<Rightarrow> string list \<Rightarrow> 'd mesh_node" where
  "new_mesh_node hostname handlers broadcastHandlers =
     \<lparr>ms_instanceId = 0, ms_running = False, ms_hostname = hostname, ms_heartbeatTimer = None, ms_leaderService = None,
      ms_subscriber = None, ms_subscriptions = [], ms_handlers = handlers, ms_broadcastHandlers = broadcastHandlers,
      ms_pending = [], ms_activeHandlerIntervals = [], ms_timers = [], ms_intervals = [], ms_tasks = [], ms_handles = 0,
      ms_ops = [], ms_inbox = [], ms_log = []\<rparr>"

definition mnode :: "'d mesh \<Rightarrow> nat \<Rightarrow> 'd mesh_node" where
  "mnode s p = me_nodes s ! p"

definition mesh_mupd :: "nat \<Rightarrow> ('d mesh_node \<Rightarrow> 'd mesh_node) \<Rightarrow> 'd mesh \<Rightarrow> 'd mesh" where
  "mesh_mupd p f s = s\<lparr>me_nodes := (me_nodes s)[p := f (me_nodes s ! p)]\<rparr>"

section \<open>What Redis executes\<close>

definition HEARTBEAT_SCRIPT :: "nat \<Rightarrow> 'd mesh \<Rightarrow> 'd mesh" where
  "HEARTBEAT_SCRIPT instanceId s = s\<lparr>me_heartbeats := jset instanceId (me_now s) (me_heartbeats s)\<rparr>"

text \<open>A sorted set is ordered by score, then by the text of its members.\<close>

definition by_score :: "(nat, int) jsmap \<Rightarrow> nat list" where
  "by_score z = map fst (sort_key (\<lambda>(m, score). (score, map (of_char :: char \<Rightarrow> nat) (nat_to_string m))) z)"

definition expired_members :: "int \<Rightarrow> 'd mesh \<Rightarrow> nat list" where
  "expired_members ttlMs s = by_score (filter (\<lambda>(m, score). score \<le> me_now s - ttlMs) (me_heartbeats s))"

definition deregister_instance :: "nat \<Rightarrow> 'd mesh \<Rightarrow> 'd mesh" where
  "deregister_instance instanceId s =
     s\<lparr>me_heartbeats := jdelete instanceId (me_heartbeats s), me_hostnames := jdelete instanceId (me_hostnames s)\<rparr>"

definition CLEANUP_SCRIPT :: "int \<Rightarrow> 'd mesh \<Rightarrow> nat list \<times> 'd mesh" where
  "CLEANUP_SCRIPT ttlMs s = (let expired = expired_members ttlMs s in (expired, fold deregister_instance expired s))"

definition DEREGISTER_SCRIPT :: "nat \<Rightarrow> 'd mesh \<Rightarrow> 'd mesh" where
  "DEREGISTER_SCRIPT = deregister_instance"

fun listens :: "channel \<Rightarrow> nat \<times> nat \<Rightarrow> bool" where
  "listens (InstanceChannel i) (h, instanceId) \<longleftrightarrow> instanceId = i"
| "listens BroadcastChannel _ \<longleftrightarrow> True"

definition redis_publish :: "channel \<Rightarrow> 'd mesh_message \<Rightarrow> 'd mesh \<Rightarrow> 'd mesh" where
  "redis_publish ch m s =
     s\<lparr>me_nodes := map (\<lambda>n. n\<lparr>ms_inbox := ms_inbox n @ replicate (length (filter (listens ch) (ms_subscriptions n))) (ch, m)\<rparr>) (me_nodes s)\<rparr>"

section \<open>Requests\<close>

definition mesh_emit :: "'d mesh_output \<Rightarrow> 'd mesh_node \<Rightarrow> 'd mesh_node" where
  "mesh_emit out n = n\<lparr>ms_log := ms_log n @ [out]\<rparr>"

definition mesh_add_op :: "'d mesh_op \<Rightarrow> 'd mesh_node \<Rightarrow> 'd mesh_node" where
  "mesh_add_op op n = n\<lparr>ms_ops := ms_ops n @ [op]\<rparr>"

text \<open>The first settlement of a promise counts.\<close>

definition settles :: "string \<Rightarrow> 'd mesh_output \<Rightarrow> bool" where
  "settles requestId out = (case out of MeshResolved r _ \<Rightarrow> r = requestId | MeshRejected r _ \<Rightarrow> r = requestId | _ \<Rightarrow> False)"

definition mesh_settle :: "string \<Rightarrow> 'd mesh_output \<Rightarrow> 'd mesh_node \<Rightarrow> 'd mesh_node" where
  "mesh_settle requestId out n = (if list_ex (settles requestId) (ms_log n) then n else mesh_emit out n)"

definition clear_timer :: "nat \<Rightarrow> 'd mesh_node \<Rightarrow> 'd mesh_node" where
  "clear_timer h n = n\<lparr>ms_timers := filter (\<lambda>t. rt_handle t \<noteq> h) (ms_timers n)\<rparr>"

definition clear_mesh_interval :: "nat \<Rightarrow> 'd mesh_node \<Rightarrow> 'd mesh_node" where
  "clear_mesh_interval h n = n\<lparr>ms_intervals := filter (\<lambda>(k, _). k \<noteq> h) (ms_intervals n)\<rparr>"

definition arm_timer :: "string \<Rightarrow> nat \<Rightarrow> string \<Rightarrow> int \<Rightarrow> 'd mesh_node \<Rightarrow> nat \<times> 'd mesh_node" where
  "arm_timer requestId target type deadline n =
     (ms_handles n, n\<lparr>ms_handles := Suc (ms_handles n), ms_timers := ms_timers n @
        [\<lparr>rt_handle = ms_handles n, rt_requestId = requestId, rt_target = target, rt_msgType = type, rt_deadline = deadline\<rparr>]\<rparr>)"

text \<open>\<open>invoke\<close>; \<open>requestId\<close> is the fresh \<open>uuid()\<close>.\<close>

definition mesh_invoke :: "mesh_options \<Rightarrow> ('d \<Rightarrow> (string, 'd) result) \<Rightarrow> int \<Rightarrow> nat \<Rightarrow> string \<Rightarrow> 'd \<Rightarrow> int option \<Rightarrow> string \<Rightarrow> 'd mesh_node \<Rightarrow> 'd mesh_node" where
  "mesh_invoke opts wire now instanceId type data timeoutMs requestId n =
     (if \<not> ms_running n then mesh_emit InvokeThrew n
      else let effectiveTimeout = nullish timeoutMs (mo_requestTimeoutMs opts) in
        if instanceId = ms_instanceId n
        then if type \<in> set (ms_handlers n) then mesh_emit (InvokedLocally type data) n else mesh_emit InvokeThrew n
        else case wire data of
          Inl _ \<Rightarrow> mesh_emit InvokeThrew n
        | Inr payload \<Rightarrow>
            let (timer, n1) = arm_timer requestId instanceId type (now + effectiveTimeout) (mesh_emit (Invoked requestId) n)
            in mesh_add_op (PublishRequest requestId timer (InstanceChannel instanceId)
                         (MRequest requestId (ms_instanceId n) type payload (Some effectiveTimeout)))
                 (n1\<lparr>ms_pending := jset requestId \<lparr>pr_timer = timer, pr_type = type, pr_targetInstanceId = instanceId,
                                                     pr_timeoutMs = effectiveTimeout\<rparr> (ms_pending n1)\<rparr>))"

definition publish_request_failed :: "string \<Rightarrow> nat \<Rightarrow> string \<Rightarrow> 'd mesh_node \<Rightarrow> 'd mesh_node" where
  "publish_request_failed requestId timer err n =
     (let n1 = clear_timer timer n
      in mesh_settle requestId (MeshRejected requestId (PublishFailed (''Failed to publish mesh request: '' @ err)))
           (n1\<lparr>ms_pending := jdelete requestId (ms_pending n1)\<rparr>))"

definition request_timed_out :: "request_timer \<Rightarrow> 'd mesh_node \<Rightarrow> 'd mesh_node" where
  "request_timed_out t n =
     (let n1 = clear_timer (rt_handle t) n
      in mesh_settle (rt_requestId t) (MeshRejected (rt_requestId t) (MeshRequestTimeoutError (rt_target t) (rt_msgType t)))
           (n1\<lparr>ms_pending := jdelete (rt_requestId t) (ms_pending n1)\<rparr>))"

definition handleHeartbeatMessage :: "int \<Rightarrow> string \<Rightarrow> 'd mesh_node \<Rightarrow> 'd mesh_node" where
  "handleHeartbeatMessage now requestId n =
     (case jget (ms_pending n) requestId of
        None \<Rightarrow> n
      | Some p \<Rightarrow>
          let (timer, n1) = arm_timer requestId (pr_targetInstanceId p) (pr_type p) (now + pr_timeoutMs p) (clear_timer (pr_timer p) n)
          in n1\<lparr>ms_pending := jset requestId (p\<lparr>pr_timer := timer\<rparr>) (ms_pending n1)\<rparr>)"

definition response_outcome :: "string \<Rightarrow> string option \<Rightarrow> 'd option \<Rightarrow> 'd mesh_output" where
  "response_outcome requestId error data =
     (case error of
        Some e \<Rightarrow>
          (case strip_prefix NO_HANDLER_ERROR_PREFIX e of
             Some type \<Rightarrow> MeshRejected requestId (MeshNoHandlerError type)
           | None \<Rightarrow> MeshRejected requestId (MeshHandlerError e))
      | None \<Rightarrow> MeshResolved requestId data)"

definition handleResponseMessage :: "string \<Rightarrow> string option \<Rightarrow> 'd option \<Rightarrow> 'd mesh_node \<Rightarrow> 'd mesh_node" where
  "handleResponseMessage requestId error data n =
     (case jget (ms_pending n) requestId of
        None \<Rightarrow> n
      | Some p \<Rightarrow>
          let n1 = clear_timer (pr_timer p) n
          in mesh_settle requestId (response_outcome requestId error data) (n1\<lparr>ms_pending := jdelete requestId (ms_pending n1)\<rparr>))"

text \<open>A handler runs as the task with the handle of its heartbeat interval.\<close>

definition handleRequestMessage :: "string \<Rightarrow> nat \<Rightarrow> string \<Rightarrow> 'd \<Rightarrow> 'd mesh_node \<Rightarrow> 'd mesh_node" where
  "handleRequestMessage requestId sender type data n =
     (if type \<notin> set (ms_handlers n)
      then mesh_add_op (Publish (InstanceChannel sender) (MResponse requestId (Some (NO_HANDLER_ERROR_PREFIX @ type)) None)) n
      else let h = ms_handles n
           in mesh_emit (HandlerCalled h type data)
                (n\<lparr>ms_handles := Suc h, ms_intervals := ms_intervals n @ [(h, HandlerInterval requestId sender)],
                   ms_activeHandlerIntervals := ms_activeHandlerIntervals n @ [h],
                   ms_tasks := ms_tasks n @ [(h, \<lparr>rh_requestId = requestId, rh_sender = sender, rh_interval = h\<rparr>)]\<rparr>))"

definition handler_done :: "('d \<Rightarrow> (string, 'd) result) \<Rightarrow> nat \<Rightarrow> running_handler \<Rightarrow> (string, 'd) result \<Rightarrow> 'd mesh_node \<Rightarrow> 'd mesh_node" where
  "handler_done wire task rh outcome n =
     (let n1 = clear_mesh_interval (rh_interval rh) (n\<lparr>ms_tasks := filter (\<lambda>(k, _). k \<noteq> task) (ms_tasks n)\<rparr>);
          n2 = n1\<lparr>ms_activeHandlerIntervals := filter (\<lambda>k. k \<noteq> rh_interval rh) (ms_activeHandlerIntervals n1)\<rparr>;
          sent = (case outcome of Inl e \<Rightarrow> Inl e | Inr v \<Rightarrow> wire v)
      in mesh_add_op (Publish (InstanceChannel (rh_sender rh))
           (case sent of Inl e \<Rightarrow> MResponse (rh_requestId rh) (Some e) None | Inr v \<Rightarrow> MResponse (rh_requestId rh) None (Some v))) n2)"

section \<open>Broadcasts\<close>

definition handleBroadcastMessage :: "nat \<Rightarrow> string \<Rightarrow> 'd \<Rightarrow> 'd mesh_node \<Rightarrow> 'd mesh_node" where
  "handleBroadcastMessage sender type data n =
     (if type \<in> set (ms_broadcastHandlers n) then mesh_emit (BroadcastHandled type data sender) n else n)"

definition mesh_broadcast :: "('d \<Rightarrow> (string, 'd) result) \<Rightarrow> string \<Rightarrow> 'd \<Rightarrow> bool \<Rightarrow> 'd mesh_node \<Rightarrow> 'd mesh_node" where
  "mesh_broadcast wire type data skipSelf n =
     (if \<not> ms_running n then mesh_emit InvokeThrew n
      else let n1 = (if skipSelf then n else handleBroadcastMessage (ms_instanceId n) type data n)
           in case wire data of
                Inl _ \<Rightarrow> mesh_emit InvokeThrew n1
              | Inr payload \<Rightarrow> mesh_add_op (Publish BroadcastChannel (MBroadcast (ms_instanceId n) type payload)) n1)"

definition handleBroadcastIncoming :: "'d mesh_message \<Rightarrow> 'd mesh_node \<Rightarrow> 'd mesh_node" where
  "handleBroadcastIncoming m n =
     (if \<not> ms_running n then n
      else case m of
        MBroadcast sender type data \<Rightarrow> if sender = ms_instanceId n then n else handleBroadcastMessage sender type data n
      | _ \<Rightarrow> n)"

definition handle_mesh_message :: "int \<Rightarrow> 'd mesh_message \<Rightarrow> 'd mesh_node \<Rightarrow> 'd mesh_node" where
  "handle_mesh_message now m n =
     (if \<not> ms_running n then n
      else case m of
        MHeartbeat requestId \<Rightarrow> handleHeartbeatMessage now requestId n
      | MResponse requestId error data \<Rightarrow> handleResponseMessage requestId error data n
      | MRequest requestId sender type data timeoutMs \<Rightarrow> handleRequestMessage requestId sender type data n
      | _ \<Rightarrow> n)"

section \<open>Starting and stopping\<close>

definition mesh_start :: "'d mesh_node \<Rightarrow> 'd mesh_node" where
  "mesh_start n = (if ms_running n then mesh_emit StartRejected n else mesh_add_op StartIncr n)"

definition start_subscriber :: "nat \<Rightarrow> 'd mesh_node \<Rightarrow> 'd mesh_node" where
  "start_subscriber instanceId n =
     mesh_add_op (StartSubscribe (ms_handles n) instanceId)
       (n\<lparr>ms_instanceId := instanceId, ms_subscriber := Some (ms_handles n), ms_handles := Suc (ms_handles n)\<rparr>)"

definition start_running :: "'d mesh_node \<Rightarrow> 'd mesh_node" where
  "start_running n =
     mesh_emit StartResolved (mesh_emit LeaderServiceStarted
       (n\<lparr>ms_running := True, ms_heartbeatTimer := Some (ms_handles n), ms_intervals := ms_intervals n @ [(ms_handles n, HeartbeatInterval)],
          ms_handles := Suc (ms_handles n), ms_leaderService := Some False\<rparr>))"

definition stop_deregister :: "'d mesh_node \<Rightarrow> 'd mesh_node" where
  "stop_deregister n =
     (if ms_instanceId n \<noteq> 0 then mesh_add_op (StopDeregister (ms_instanceId n)) (n\<lparr>ms_instanceId := 0\<rparr>) else mesh_emit StopResolved n)"

definition reject_stopped :: "string \<times> pending_request \<Rightarrow> 'd mesh_node \<Rightarrow> 'd mesh_node" where
  "reject_stopped = (\<lambda>(requestId, p) n.
     let n1 = mesh_settle requestId (MeshRejected requestId MeshStopped) (clear_timer (pr_timer p) n)
     in n1\<lparr>ms_pending := jdelete requestId (ms_pending n1)\<rparr>)"

definition stop_clear :: "'d mesh_node \<Rightarrow> 'd mesh_node" where
  "stop_clear n =
     (let n1 = (case ms_heartbeatTimer n of Some h \<Rightarrow> (clear_mesh_interval h n)\<lparr>ms_heartbeatTimer := None\<rparr> | None \<Rightarrow> n);
          n2 = (fold clear_mesh_interval (ms_activeHandlerIntervals n1) n1)\<lparr>ms_activeHandlerIntervals := []\<rparr>;
          n3 = fold reject_stopped (ms_pending n2) n2
      in case ms_subscriber n3 of Some h \<Rightarrow> mesh_add_op (StopUnsubscribe h) n3 | None \<Rightarrow> stop_deregister n3)"

definition mesh_stop :: "'d mesh_node \<Rightarrow> 'd mesh_node" where
  "mesh_stop n =
     (let n1 = n\<lparr>ms_running := False\<rparr>
      in if ms_leaderService n1 \<noteq> None then mesh_add_op StopLeader (mesh_emit LeaderServiceStopped n1) else stop_clear n1)"

definition doHeartbeat :: "'d mesh_node \<Rightarrow> 'd mesh_node" where
  "doHeartbeat n = (if \<not> ms_running n then n else mesh_add_op (BeatHeartbeat (ms_instanceId n)) n)"

fun clean_up_next :: "nat list \<Rightarrow> 'd mesh_node \<Rightarrow> 'd mesh_node" where
  "clean_up_next [] n = n"
| "clean_up_next (i # rest) n = mesh_add_op (BeatCallback rest) (mesh_emit (NodeCleanedUp i) n)"

section \<open>Calls of Redis\<close>

text \<open>A command is executed and answered, executed with its answer lost, or not executed.\<close>

datatype op_outcome = Replied | Lost string | Failed string

datatype op_reply = NoValue | IncrReply nat | CleanupReply "nat list"

fun op_execute :: "mesh_options \<Rightarrow> 'd mesh_op \<Rightarrow> 'd mesh \<Rightarrow> op_reply \<times> 'd mesh" where
  "op_execute opts StartIncr s = (IncrReply (Suc (me_nextId s)), s\<lparr>me_nextId := Suc (me_nextId s)\<rparr>)"
| "op_execute opts (StartHeartbeat h i) s = (NoValue, HEARTBEAT_SCRIPT i s)"
| "op_execute opts (BeatHeartbeat i) s = (NoValue, HEARTBEAT_SCRIPT i s)"
| "op_execute opts (StopDeregister i) s = (NoValue, DEREGISTER_SCRIPT i s)"
| "op_execute opts BeatCleanup s = (let (expired, t) = CLEANUP_SCRIPT (mo_nodeTtlMs opts) s in (CleanupReply expired, t))"
| "op_execute opts (PublishRequest r h ch m) s = (NoValue, redis_publish ch m s)"
| "op_execute opts (Publish ch m) s = (NoValue, redis_publish ch m s)"
| "op_execute opts _ s = (NoValue, s)"

text \<open>\<open>hset\<close> needs the host name of the caller.\<close>

definition op_hset :: "'d mesh_op \<Rightarrow> string \<Rightarrow> 'd mesh \<Rightarrow> 'd mesh" where
  "op_hset op hostname s = (case op of StartHset h i \<Rightarrow> s\<lparr>me_hostnames := jset i hostname (me_hostnames s)\<rparr> | _ \<Rightarrow> s)"

fun op_continue :: "'d mesh_op \<Rightarrow> op_reply \<Rightarrow> 'd mesh_node \<Rightarrow> 'd mesh_node" where
  "op_continue StartIncr (IncrReply i) n = start_subscriber i n"
| "op_continue (StartSubscribe h i) _ n =
     mesh_add_op (StartHeartbeat h (ms_instanceId n)) (n\<lparr>ms_subscriptions := ms_subscriptions n @ [(h, i)]\<rparr>)"
| "op_continue (StartHeartbeat h i) _ n = mesh_add_op (StartHset h (ms_instanceId n)) n"
| "op_continue (StartHset h i) _ n = start_running n"
| "op_continue (StartUndo h) _ n =
     mesh_emit StartRejected (n\<lparr>ms_subscriptions := filter (\<lambda>(k, _). k \<noteq> h) (ms_subscriptions n), ms_subscriber := None\<rparr>)"
| "op_continue StopLeader _ n = stop_clear (n\<lparr>ms_leaderService := None\<rparr>)"
| "op_continue (StopUnsubscribe h) _ n =
     stop_deregister (n\<lparr>ms_subscriptions := filter (\<lambda>(k, _). k \<noteq> h) (ms_subscriptions n), ms_subscriber := None\<rparr>)"
| "op_continue (StopDeregister i) _ n = mesh_emit StopResolved n"
| "op_continue (BeatHeartbeat i) _ n = (if ms_leaderService n = Some True then mesh_add_op BeatCleanup n else n)"
| "op_continue BeatCleanup (CleanupReply ids) n = clean_up_next ids n"
| "op_continue (BeatCallback ids) _ n = clean_up_next ids n"
| "op_continue _ _ n = n"

fun op_failed :: "'d mesh_op \<Rightarrow> string \<Rightarrow> 'd mesh_node \<Rightarrow> 'd mesh_node" where
  "op_failed StartIncr err n = mesh_emit StartRejected n"
| "op_failed (StartSubscribe h i) err n = mesh_add_op (StartUndo h) n"
| "op_failed (StartHeartbeat h i) err n = mesh_add_op (StartUndo h) n"
| "op_failed (StartHset h i) err n = mesh_add_op (StartUndo h) n"
| "op_failed (StartUndo h) err n = mesh_emit StartRejected (n\<lparr>ms_subscriber := None\<rparr>)"
| "op_failed (StopUnsubscribe h) err n = stop_deregister (n\<lparr>ms_subscriber := None\<rparr>)"
| "op_failed BeatCleanup err n = n"
| "op_failed (PublishRequest r h ch m) err n = publish_request_failed r h err n"
| "op_failed (Publish ch m) err n = n"
| "op_failed op err n = op_continue op NoValue n"

text \<open>The commands of a connection are executed and answered in order.\<close>

datatype connection = MainConnection | SubscriberConnection nat | NoConnection

fun connection_of :: "'d mesh_op \<Rightarrow> connection" where
  "connection_of (StartSubscribe h i) = SubscriberConnection h"
| "connection_of (StartUndo h) = SubscriberConnection h"
| "connection_of (StopUnsubscribe h) = SubscriberConnection h"
| "connection_of StopLeader = NoConnection"
| "connection_of (BeatCallback ids) = NoConnection"
| "connection_of _ = MainConnection"

definition op_ready :: "'d mesh_node \<Rightarrow> nat \<Rightarrow> bool" where
  "op_ready n k \<longleftrightarrow> k < length (ms_ops n)
     \<and> (let c = connection_of (ms_ops n ! k) in c = NoConnection \<or> list_all (\<lambda>op. connection_of op \<noteq> c) (take k (ms_ops n)))"

definition op_done :: "mesh_options \<Rightarrow> nat \<Rightarrow> nat \<Rightarrow> op_outcome \<Rightarrow> 'd mesh \<Rightarrow> 'd mesh" where
  "op_done opts p k outcome s =
     (let op = ms_ops (mnode s p) ! k; hostname = ms_hostname (mnode s p);
          s1 = mesh_mupd p (\<lambda>n. n\<lparr>ms_ops := take k (ms_ops n) @ drop (Suc k) (ms_ops n)\<rparr>) s
      in case outcome of
           Replied \<Rightarrow> (let (r, s2) = op_execute opts op s1 in mesh_mupd p (op_continue op r) (op_hset op hostname s2))
         | Lost err \<Rightarrow> (let (r, s2) = op_execute opts op s1 in mesh_mupd p (op_failed op err) (op_hset op hostname s2))
         | Failed err \<Rightarrow> mesh_mupd p (op_failed op err) s1)"

section \<open>Queries\<close>

record mesh_node_info =
  mi_instanceId :: nat
  mi_hostname :: string
  mi_self :: bool

definition getNodes :: "'d mesh_node \<Rightarrow> 'd mesh \<Rightarrow> mesh_node_info list option" where
  "getNodes n s =
     (if \<not> ms_running n then None
      else Some (map (\<lambda>i. \<lparr>mi_instanceId = i, mi_hostname = nullish (jget (me_hostnames s) i) ''unknown'', mi_self = (i = ms_instanceId n)\<rparr>)
                  (by_score (me_heartbeats s))))"

section \<open>Events\<close>

datatype 'd mesh_event =
    CallStart nat
  | CallStop nat
  | CallInvoke nat nat string 'd "int option" string
  | CallBroadcast nat string 'd bool
  | OpDone nat nat op_outcome
  | Deliver nat
  | TimerFires nat nat
  | IntervalFires nat nat
  | TaskDone nat nat "(string, 'd) result"
  | LeaderIs nat bool
  | MeshClock nat

definition fresh_request_id :: "'d mesh \<Rightarrow> string \<Rightarrow> bool" where
  "fresh_request_id s requestId \<longleftrightarrow>
     list_all (\<lambda>n. \<not> list_ex (\<lambda>out. case out of Invoked r \<Rightarrow> r = requestId | _ \<Rightarrow> False) (ms_log n)) (me_nodes s)"

definition deliver_next :: "int \<Rightarrow> 'd mesh_node \<Rightarrow> 'd mesh_node" where
  "deliver_next now n =
     (case ms_inbox n of
        [] \<Rightarrow> n
      | (ch, m) # rest \<Rightarrow>
          if ch = BroadcastChannel then handleBroadcastIncoming m (n\<lparr>ms_inbox := rest\<rparr>)
          else handle_mesh_message now m (n\<lparr>ms_inbox := rest\<rparr>))"

definition interval_fires :: "nat \<Rightarrow> 'd mesh_node \<Rightarrow> 'd mesh_node" where
  "interval_fires h n =
     (case jget (ms_intervals n) h of
        None \<Rightarrow> n
      | Some HeartbeatInterval \<Rightarrow> doHeartbeat n
      | Some (HandlerInterval requestId sender) \<Rightarrow> mesh_add_op (Publish (InstanceChannel sender) (MHeartbeat requestId)) n)"

definition timer_fires :: "int \<Rightarrow> nat \<Rightarrow> 'd mesh_node \<Rightarrow> 'd mesh_node" where
  "timer_fires now h n =
     (case find (\<lambda>t. rt_handle t = h) (ms_timers n) of
        Some t \<Rightarrow> if rt_deadline t \<le> now then request_timed_out t n else n
      | None \<Rightarrow> n)"

fun mesh_step :: "mesh_options \<Rightarrow> ('d \<Rightarrow> (string, 'd) result) \<Rightarrow> 'd mesh \<Rightarrow> 'd mesh_event \<Rightarrow> 'd mesh" where
  "mesh_step opts wire s (CallStart p) = mesh_mupd p mesh_start s"
| "mesh_step opts wire s (CallStop p) = mesh_mupd p mesh_stop s"
| "mesh_step opts wire s (CallInvoke p i type data timeoutMs requestId) =
     (if fresh_request_id s requestId then mesh_mupd p (mesh_invoke opts wire (me_now s) i type data timeoutMs requestId) s else s)"
| "mesh_step opts wire s (CallBroadcast p type data skipSelf) = mesh_mupd p (mesh_broadcast wire type data skipSelf) s"
| "mesh_step opts wire s (OpDone p k outcome) =
     (if p < length (me_nodes s) \<and> op_ready (mnode s p) k then op_done opts p k outcome s else s)"
| "mesh_step opts wire s (Deliver p) = mesh_mupd p (deliver_next (me_now s)) s"
| "mesh_step opts wire s (TimerFires p h) = mesh_mupd p (timer_fires (me_now s) h) s"
| "mesh_step opts wire s (IntervalFires p h) = mesh_mupd p (interval_fires h) s"
| "mesh_step opts wire s (TaskDone p task outcome) =
     mesh_mupd p (\<lambda>n. case jget (ms_tasks n) task of Some rh \<Rightarrow> handler_done wire task rh outcome n | None \<Rightarrow> n) s"
| "mesh_step opts wire s (LeaderIs p b) = mesh_mupd p (\<lambda>n. n\<lparr>ms_leaderService := map_option (\<lambda>_. b) (ms_leaderService n)\<rparr>) s"
| "mesh_step opts wire s (MeshClock dt) = s\<lparr>me_now := me_now s + int dt\<rparr>"

definition new_mesh :: "'d mesh_node list \<Rightarrow> 'd mesh" where
  "new_mesh nodes = \<lparr>me_now = 0, me_nextId = 0, me_heartbeats = [], me_hostnames = [], me_nodes = nodes\<rparr>"

end
