(* ===== verification/MeshFacts.thy ===== *)
theory MeshFacts
  imports Mesh
begin

text \<open>
  What holds in every reachable state of a mesh: a request of a service is settled once or still pending under an armed
  timer, and instance ids and channels are never shared.
\<close>

section \<open>Requests\<close>

fun invoked_id :: "'d mesh_output \<Rightarrow> string option" where
  "invoked_id (Invoked r) = Some r"
| "invoked_id _ = None"

fun settled_id :: "'d mesh_output \<Rightarrow> string option" where
  "settled_id (MeshResolved r _) = Some r"
| "settled_id (MeshRejected r _) = Some r"
| "settled_id _ = None"

definition mesh_invoked_ids :: "'d mesh_node \<Rightarrow> string list" where
  "mesh_invoked_ids n = List.map_filter invoked_id (ms_log n)"

definition mesh_settled_ids :: "'d mesh_node \<Rightarrow> string list" where
  "mesh_settled_ids n = List.map_filter settled_id (ms_log n)"

lemma settles_id: "settles r out \<longleftrightarrow> settled_id out = Some r"
  by (cases out) (auto simp: settles_def)

lemma list_ex_settles: "list_ex (settles r) (ms_log n) \<longleftrightarrow> r \<in> set (mesh_settled_ids n)"
  by (auto simp: mesh_settled_ids_def in_map_filter list_ex_iff settles_id)

definition mesh_requests_ok :: "'d mesh_node \<Rightarrow> bool" where
  "mesh_requests_ok n \<longleftrightarrow>
     distinct (mesh_invoked_ids n) \<and> distinct (mesh_settled_ids n) \<and> distinct (map fst (ms_pending n))
   \<and> (\<forall>r. r \<in> set (mesh_invoked_ids n) \<longleftrightarrow> jhas (ms_pending n) r \<or> r \<in> set (mesh_settled_ids n))
   \<and> (\<forall>r. jhas (ms_pending n) r \<longrightarrow> r \<notin> set (mesh_settled_ids n))
   \<and> distinct (map rt_handle (ms_timers n)) \<and> (\<forall>t\<in>set (ms_timers n). rt_handle t < ms_handles n \<and> rt_requestId t \<in> set (mesh_invoked_ids n))
   \<and> (\<forall>r p. jget (ms_pending n) r = Some p \<longrightarrow> (\<exists>t\<in>set (ms_timers n). rt_handle t = pr_timer p \<and> rt_requestId t = r
        \<and> rt_target t = pr_targetInstanceId p \<and> rt_msgType t = pr_type p))
   \<and> (\<forall>r h ch m. PublishRequest r h ch m \<in> set (ms_ops n) \<longrightarrow> r \<in> set (mesh_invoked_ids n) \<and> h < ms_handles n
        \<and> (\<forall>t\<in>set (ms_timers n). rt_handle t = h \<longrightarrow> rt_requestId t = r))"

definition quiet :: "'d mesh_node \<Rightarrow> 'd mesh_node \<Rightarrow> bool" where
  "quiet n n' \<longleftrightarrow> ms_pending n' = ms_pending n \<and> ms_timers n' = ms_timers n \<and> mesh_invoked_ids n' = mesh_invoked_ids n
     \<and> mesh_settled_ids n' = mesh_settled_ids n \<and> ms_handles n \<le> ms_handles n'
     \<and> (\<forall>r h ch m. PublishRequest r h ch m \<in> set (ms_ops n') \<longrightarrow> PublishRequest r h ch m \<in> set (ms_ops n))"

lemma quiet_refl [simp, intro!]: "quiet n n"
  by (simp add: quiet_def)

lemma quiet_trans: "quiet n1 n2 \<Longrightarrow> quiet n2 n3 \<Longrightarrow> quiet n1 n3"
  by (auto simp: quiet_def)

lemma quiet_keeps:
  assumes "quiet n n'" "mesh_requests_ok n"
  shows "mesh_requests_ok n'"
proof -
  have e: "ms_pending n' = ms_pending n" "ms_timers n' = ms_timers n" "mesh_invoked_ids n' = mesh_invoked_ids n" "mesh_settled_ids n' = mesh_settled_ids n"
    and le: "ms_handles n \<le> ms_handles n'"
    and op: "\<And>r h ch m. PublishRequest r h ch m \<in> set (ms_ops n') \<Longrightarrow> PublishRequest r h ch m \<in> set (ms_ops n)"
    using assms(1) by (simp_all add: quiet_def)
  show ?thesis
    using assms(2) le unfolding mesh_requests_ok_def e by (elim conjE, intro conjI) (assumption | meson op less_le_trans)+
qed

text \<open>Field updates and outputs that concern no request.\<close>

lemma quiet_update:
  "quiet n (n\<lparr>ms_instanceId := a\<rparr>)" "quiet n (n\<lparr>ms_running := b\<rparr>)" "quiet n (n\<lparr>ms_heartbeatTimer := c\<rparr>)"
  "quiet n (n\<lparr>ms_leaderService := d\<rparr>)" "quiet n (n\<lparr>ms_subscriber := e\<rparr>)" "quiet n (n\<lparr>ms_subscriptions := f\<rparr>)"
  "quiet n (n\<lparr>ms_activeHandlerIntervals := g\<rparr>)" "quiet n (n\<lparr>ms_intervals := i\<rparr>)" "quiet n (n\<lparr>ms_tasks := j\<rparr>)"
  "quiet n (n\<lparr>ms_inbox := k\<rparr>)"
  by (auto simp: quiet_def mesh_invoked_ids_def mesh_settled_ids_def)

lemma quiet_handles: "ms_handles n \<le> l \<Longrightarrow> quiet n (n\<lparr>ms_handles := l\<rparr>)"
  by (simp add: quiet_def mesh_invoked_ids_def mesh_settled_ids_def)

lemma map_filter_append: "List.map_filter f (xs @ ys) = List.map_filter f xs @ List.map_filter f ys"
  by (simp add: List.map_filter_def)

lemma ids_emit:
  "mesh_invoked_ids (mesh_emit out n) = mesh_invoked_ids n @ (case invoked_id out of Some r \<Rightarrow> [r] | None \<Rightarrow> [])"
  "mesh_settled_ids (mesh_emit out n) = mesh_settled_ids n @ (case settled_id out of Some r \<Rightarrow> [r] | None \<Rightarrow> [])"
  by (auto simp: mesh_invoked_ids_def mesh_settled_ids_def mesh_emit_def map_filter_append map_filter_simps split: option.split)

lemma quiet_emit: "invoked_id out = None \<Longrightarrow> settled_id out = None \<Longrightarrow> quiet n (mesh_emit out n)"
  by (simp add: quiet_def ids_emit) (simp add: mesh_emit_def)

lemma quiet_add_op: "(\<And>r h ch m. op \<noteq> PublishRequest r h ch m) \<Longrightarrow> quiet n (mesh_add_op op n)"
  by (auto simp: quiet_def mesh_add_op_def mesh_invoked_ids_def mesh_settled_ids_def)

lemma quiet_remove_op: "quiet n (n\<lparr>ms_ops := take k (ms_ops n) @ drop (Suc k) (ms_ops n)\<rparr>)"
  by (auto simp: quiet_def mesh_invoked_ids_def mesh_settled_ids_def dest: in_set_takeD in_set_dropD)

lemma quiet_clear_interval: "quiet n (clear_mesh_interval h n)"
  by (auto simp: clear_mesh_interval_def intro: quiet_update)

lemma quiet_clear_intervals: "quiet n (fold clear_mesh_interval hs n)"
  by (induction hs arbitrary: n) (auto intro: quiet_clear_interval quiet_trans)

text \<open>As introduction rules they peel off one operation at a time.\<close>

lemmas quiet_steps [intro!] = quiet_update [THEN quiet_trans [rotated]] quiet_handles [THEN quiet_trans [rotated]]
  quiet_emit [THEN quiet_trans [rotated]] quiet_add_op [THEN quiet_trans [rotated]] quiet_remove_op [THEN quiet_trans [rotated]]
  quiet_clear_interval [THEN quiet_trans [rotated]] quiet_clear_intervals [THEN quiet_trans [rotated]]

text \<open>The end of a request.\<close>

definition finish_request :: "string \<Rightarrow> nat \<Rightarrow> 'd mesh_output \<Rightarrow> 'd mesh_node \<Rightarrow> 'd mesh_node" where
  "finish_request r h out n = mesh_settle r out ((clear_timer h n)\<lparr>ms_pending := jdelete r (ms_pending n)\<rparr>)"

lemma finish_request_views:
  assumes "settled_id out = Some r"
  shows "ms_pending (finish_request r h out n) = jdelete r (ms_pending n)"
    "ms_timers (finish_request r h out n) = filter (\<lambda>t. rt_handle t \<noteq> h) (ms_timers n)"
    "ms_handles (finish_request r h out n) = ms_handles n" "ms_ops (finish_request r h out n) = ms_ops n"
    "mesh_invoked_ids (finish_request r h out n) = mesh_invoked_ids n"
    "mesh_settled_ids (finish_request r h out n) = (if r \<in> set (mesh_settled_ids n) then mesh_settled_ids n else mesh_settled_ids n @ [r])"
proof -
  have i: "invoked_id out = None" using assms by (cases out) auto
  have b: "mesh_settled_ids ((clear_timer h n)\<lparr>ms_pending := p\<rparr>) = mesh_settled_ids n" "mesh_invoked_ids ((clear_timer h n)\<lparr>ms_pending := p\<rparr>) = mesh_invoked_ids n"
    "mesh_settled_ids (clear_timer h n) = mesh_settled_ids n" for p
    by (simp_all add: clear_timer_def mesh_settled_ids_def mesh_invoked_ids_def)
  show "mesh_settled_ids (finish_request r h out n) = (if r \<in> set (mesh_settled_ids n) then mesh_settled_ids n else mesh_settled_ids n @ [r])"
    "mesh_invoked_ids (finish_request r h out n) = mesh_invoked_ids n"
    by (simp_all add: finish_request_def mesh_settle_def list_ex_settles b ids_emit assms i)
  show "ms_pending (finish_request r h out n) = jdelete r (ms_pending n)"
    "ms_timers (finish_request r h out n) = filter (\<lambda>t. rt_handle t \<noteq> h) (ms_timers n)"
    "ms_handles (finish_request r h out n) = ms_handles n" "ms_ops (finish_request r h out n) = ms_ops n"
    by (simp_all add: finish_request_def mesh_settle_def mesh_emit_def clear_timer_def)
qed

lemma finish_request_keeps:
  assumes ok: "mesh_requests_ok n" and out: "settled_id out = Some r" and inv: "r \<in> set (mesh_invoked_ids n)"
    and t: "\<And>t. t \<in> set (ms_timers n) \<Longrightarrow> rt_handle t = h \<Longrightarrow> rt_requestId t = r"
  shows "mesh_requests_ok (finish_request r h out n)"
  unfolding mesh_requests_ok_def finish_request_views [OF out]
proof (intro conjI allI impI)
  show "distinct (mesh_invoked_ids n)" "distinct (if r \<in> set (mesh_settled_ids n) then mesh_settled_ids n else mesh_settled_ids n @ [r])"
    using ok by (auto simp: mesh_requests_ok_def)
  show "distinct (map fst (jdelete r (ms_pending n)))" using ok by (simp add: mesh_requests_ok_def distinct_jdelete)
  show "distinct (map rt_handle (filter (\<lambda>t. rt_handle t \<noteq> h) (ms_timers n)))"
    using ok by (simp add: mesh_requests_ok_def distinct_map_filter)
  show "\<forall>t\<in>set (filter (\<lambda>t. rt_handle t \<noteq> h) (ms_timers n)). rt_handle t < ms_handles n \<and> rt_requestId t \<in> set (mesh_invoked_ids n)"
    using ok unfolding mesh_requests_ok_def by auto
  fix q
  show "q \<in> set (mesh_invoked_ids n) = (jhas (jdelete r (ms_pending n)) q \<or> q \<in> set (if r \<in> set (mesh_settled_ids n) then mesh_settled_ids n else mesh_settled_ids n @ [r]))"
    using ok inv by (auto simp: mesh_requests_ok_def split: if_splits)
  show "jhas (jdelete r (ms_pending n)) q \<Longrightarrow> q \<notin> set (if r \<in> set (mesh_settled_ids n) then mesh_settled_ids n else mesh_settled_ids n @ [r])"
    using ok by (auto simp: mesh_requests_ok_def split: if_splits)
next
  fix q p assume "jget (jdelete r (ms_pending n)) q = Some p"
  then have "q \<noteq> r" "jget (ms_pending n) q = Some p" by (auto split: if_splits)
  moreover from this obtain u where "u \<in> set (ms_timers n)" "rt_handle u = pr_timer p" "rt_requestId u = q"
    "rt_target u = pr_targetInstanceId p" "rt_msgType u = pr_type p"
    using ok unfolding mesh_requests_ok_def by blast
  ultimately show "\<exists>t\<in>set (filter (\<lambda>t. rt_handle t \<noteq> h) (ms_timers n)). rt_handle t = pr_timer p \<and> rt_requestId t = q
     \<and> rt_target t = pr_targetInstanceId p \<and> rt_msgType t = pr_type p"
    using t [of u] by auto
next
  fix q k ch m assume "PublishRequest q k ch m \<in> set (ms_ops n)"
  then have "q \<in> set (mesh_invoked_ids n) \<and> k < ms_handles n \<and> (\<forall>t\<in>set (ms_timers n). rt_handle t = k \<longrightarrow> rt_requestId t = q)"
    using ok unfolding mesh_requests_ok_def by blast
  then show "q \<in> set (mesh_invoked_ids n)" "k < ms_handles n" "\<forall>t\<in>set (filter (\<lambda>t. rt_handle t \<noteq> h) (ms_timers n)). rt_handle t = k \<longrightarrow> rt_requestId t = q"
    by auto
qed

text \<open>The timer of a pending request has the handle of no other request.\<close>

lemma pending_timer:
  assumes ok: "mesh_requests_ok n" and p: "jget (ms_pending n) r = Some p" and t: "t \<in> set (ms_timers n)" "rt_handle t = pr_timer p"
  shows "rt_requestId t = r"
proof -
  obtain u where u: "u \<in> set (ms_timers n)" "rt_handle u = pr_timer p" "rt_requestId u = r"
    using ok p unfolding mesh_requests_ok_def by blast
  have "inj_on rt_handle (set (ms_timers n))" using ok by (simp add: mesh_requests_ok_def distinct_map)
  then have "t = u" using t u by (metis inj_onD)
  then show ?thesis using u by simp
qed

lemma pending_invoked: "mesh_requests_ok n \<Longrightarrow> jget (ms_pending n) r = Some p \<Longrightarrow> r \<in> set (mesh_invoked_ids n)"
  by (auto simp: mesh_requests_ok_def)

lemma publish_request_failed_keeps:
  assumes ok: "mesh_requests_ok n" and op: "r \<in> set (mesh_invoked_ids n)" "\<And>t. t \<in> set (ms_timers n) \<Longrightarrow> rt_handle t = h \<Longrightarrow> rt_requestId t = r"
  shows "mesh_requests_ok (publish_request_failed r h err n)"
proof -
  have "publish_request_failed r h err n = finish_request r h (MeshRejected r (PublishFailed (''Failed to publish mesh request: '' @ err))) n"
    by (simp add: publish_request_failed_def finish_request_def Let_def clear_timer_def)
  then show ?thesis using finish_request_keeps [OF ok _ op(1)] op(2) by simp
qed

lemma request_timed_out_keeps:
  assumes ok: "mesh_requests_ok n" and t: "t \<in> set (ms_timers n)"
  shows "mesh_requests_ok (request_timed_out t n)"
proof -
  have "inj_on rt_handle (set (ms_timers n))" using ok by (simp add: mesh_requests_ok_def distinct_map)
  then have u: "u \<in> set (ms_timers n) \<Longrightarrow> rt_handle u = rt_handle t \<Longrightarrow> rt_requestId u = rt_requestId t" for u
    using t by (metis inj_onD)
  have "request_timed_out t n = finish_request (rt_requestId t) (rt_handle t)
      (MeshRejected (rt_requestId t) (MeshRequestTimeoutError (rt_target t) (rt_msgType t))) n"
    by (simp add: request_timed_out_def finish_request_def Let_def clear_timer_def)
  moreover have "rt_requestId t \<in> set (mesh_invoked_ids n)" using ok t unfolding mesh_requests_ok_def by blast
  ultimately show ?thesis using finish_request_keeps [OF ok] u by simp
qed

lemma settled_response: "settled_id (response_outcome r e d) = Some r"
  by (simp add: response_outcome_def split: option.split)

lemma handleResponseMessage_keeps:
  assumes ok: "mesh_requests_ok n"
  shows "mesh_requests_ok (handleResponseMessage r e d n)"
proof (cases "jget (ms_pending n) r")
  case None
  then show ?thesis using ok by (simp add: handleResponseMessage_def)
next
  case (Some p)
  then have "handleResponseMessage r e d n = finish_request r (pr_timer p) (response_outcome r e d) n"
    by (simp add: handleResponseMessage_def finish_request_def Let_def clear_timer_def)
  then show ?thesis
    using finish_request_keeps [OF ok settled_response pending_invoked [OF ok Some]] pending_timer [OF ok Some] by simp
qed

text \<open>A request under a new timer; \<open>old\<close> is the handle of the timer it replaces, if there is one.\<close>

lemma new_timer_keeps:
  assumes ok: "mesh_requests_ok n"
    and n': "ms_timers n' = filter (\<lambda>t. Some (rt_handle t) \<noteq> old) (ms_timers n) @ [u]" "rt_handle u = ms_handles n" "rt_requestId u = r"
      "ms_handles n' = Suc (ms_handles n)" "ms_pending n' = jset r p (ms_pending n)" "pr_timer p = ms_handles n"
      "rt_target u = pr_targetInstanceId p" "rt_msgType u = pr_type p"
      "mesh_settled_ids n' = mesh_settled_ids n" "set (mesh_invoked_ids n') = insert r (set (mesh_invoked_ids n))" "distinct (mesh_invoked_ids n')"
      "\<And>q h ch m. PublishRequest q h ch m \<in> set (ms_ops n') \<Longrightarrow> PublishRequest q h ch m \<in> set (ms_ops n) \<or> q = r \<and> h = ms_handles n"
    and old: "\<And>t. t \<in> set (ms_timers n) \<Longrightarrow> Some (rt_handle t) = old \<Longrightarrow> rt_requestId t = r"
    and r: "r \<notin> set (mesh_settled_ids n)"
  shows "mesh_requests_ok n'"
  unfolding mesh_requests_ok_def n'
proof (intro conjI allI impI)
  have less: "\<And>t. t \<in> set (ms_timers n) \<Longrightarrow> rt_handle t < ms_handles n" "distinct (map rt_handle (ms_timers n))"
    using ok by (auto simp: mesh_requests_ok_def)
  show "distinct (mesh_invoked_ids n')" "distinct (mesh_settled_ids n)" "distinct (map fst (jset r p (ms_pending n)))"
    using ok n' by (auto simp: mesh_requests_ok_def distinct_jset)
  show "distinct (map rt_handle (filter (\<lambda>t. Some (rt_handle t) \<noteq> old) (ms_timers n) @ [u]))"
    using less n'(2) by (auto simp: distinct_map_filter dest: less(1))
  show "\<forall>t\<in>set (filter (\<lambda>t. Some (rt_handle t) \<noteq> old) (ms_timers n) @ [u]). rt_handle t < Suc (ms_handles n) \<and> rt_requestId t \<in> insert r (set (mesh_invoked_ids n))"
    using ok n'(2,3) unfolding mesh_requests_ok_def by (auto simp: less_Suc_eq)
  fix q
  show "(q \<in> insert r (set (mesh_invoked_ids n))) = (jhas (jset r p (ms_pending n)) q \<or> q \<in> set (mesh_settled_ids n))"
    using ok by (auto simp: mesh_requests_ok_def)
  show "jhas (jset r p (ms_pending n)) q \<Longrightarrow> q \<notin> set (mesh_settled_ids n)"
    using ok r by (auto simp: mesh_requests_ok_def split: if_splits)
next
  fix q p' assume j: "jget (jset r p (ms_pending n)) q = Some p'"
  show "\<exists>t\<in>set (filter (\<lambda>t. Some (rt_handle t) \<noteq> old) (ms_timers n) @ [u]). rt_handle t = pr_timer p' \<and> rt_requestId t = q
     \<and> rt_target t = pr_targetInstanceId p' \<and> rt_msgType t = pr_type p'"
  proof (cases "q = r")
    case True
    then show ?thesis using j n' by auto
  next
    case False
    then obtain t where "t \<in> set (ms_timers n)" "rt_handle t = pr_timer p'" "rt_requestId t = q" "rt_target t = pr_targetInstanceId p'" "rt_msgType t = pr_type p'"
      using ok j unfolding mesh_requests_ok_def by auto metis
    then show ?thesis using old [of t] False by auto
  qed
next
  fix q h ch m assume "PublishRequest q h ch m \<in> set (ms_ops n')"
  then consider (old) "PublishRequest q h ch m \<in> set (ms_ops n)" | (new) "q = r" "h = ms_handles n" using n'(12) by blast
  then have g: "q \<in> insert r (set (mesh_invoked_ids n)) \<and> h < Suc (ms_handles n) \<and>
    (\<forall>t\<in>set (filter (\<lambda>t. Some (rt_handle t) \<noteq> old) (ms_timers n) @ [u]). rt_handle t = h \<longrightarrow> rt_requestId t = q)"
  proof cases
    case old
    then have "q \<in> set (mesh_invoked_ids n)" "h < ms_handles n" "\<forall>t\<in>set (ms_timers n). rt_handle t = h \<longrightarrow> rt_requestId t = q"
      using ok unfolding mesh_requests_ok_def by blast+
    then show ?thesis using n'(2) by auto
  next
    case new
    have "rt_handle t \<noteq> ms_handles n" if "t \<in> set (ms_timers n)" for t
      using that ok unfolding mesh_requests_ok_def by (metis less_irrefl)
    then show ?thesis using new n'(3) by auto
  qed
  show "q \<in> insert r (set (mesh_invoked_ids n))" using g by (rule conjunct1)
  show "h < Suc (ms_handles n)" using g by blast
  show "\<forall>t\<in>set (filter (\<lambda>t. Some (rt_handle t) \<noteq> old) (ms_timers n) @ [u]). rt_handle t = h \<longrightarrow> rt_requestId t = q"
    using g by (elim conjE)
qed

lemma handleHeartbeatMessage_keeps:
  assumes ok: "mesh_requests_ok n"
  shows "mesh_requests_ok (handleHeartbeatMessage now r n)"
proof (cases "jget (ms_pending n) r")
  case None
  then show ?thesis using ok by (simp add: handleHeartbeatMessage_def)
next
  case (Some p)
  have "set (mesh_invoked_ids n) = insert r (set (mesh_invoked_ids n))" "distinct (mesh_invoked_ids n)" "r \<notin> set (mesh_settled_ids n)"
    using ok Some unfolding mesh_requests_ok_def by blast+
  moreover have "t \<in> set (ms_timers n) \<Longrightarrow> Some (rt_handle t) = Some (pr_timer p) \<Longrightarrow> rt_requestId t = r" for t
    using pending_timer [OF ok Some] by simp
  ultimately show ?thesis
    using Some by (intro new_timer_keeps [OF ok, where old = "Some (pr_timer p)" and r = r and p = "p\<lparr>pr_timer := ms_handles n\<rparr>"
        and u = "\<lparr>rt_handle = ms_handles n, rt_requestId = r, rt_target = pr_targetInstanceId p, rt_msgType = pr_type p, rt_deadline = now + pr_timeoutMs p\<rparr>"])
      (simp_all add: handleHeartbeatMessage_def arm_timer_def clear_timer_def mesh_settled_ids_def mesh_invoked_ids_def)
qed

lemma mesh_invoke_keeps:
  assumes ok: "mesh_requests_ok n" and r: "r \<notin> set (mesh_invoked_ids n)"
  shows "mesh_requests_ok (mesh_invoke opts wire now i type data timeoutMs r n)"
proof -
  let ?n' = "mesh_invoke opts wire now i type data timeoutMs r n"
  show ?thesis
  proof (cases "ms_running n \<and> i \<noteq> ms_instanceId n \<and> (\<exists>payload. wire data = Inr payload)")
    case False
    then have "quiet n ?n'"
      by (auto simp: mesh_invoke_def Let_def split: sum.splits)
    then show ?thesis by (rule quiet_keeps [OF _ ok])
  next
    case True
    then obtain payload where remote: "ms_running n" "i \<noteq> ms_instanceId n" "wire data = Inr payload" by blast
    have e: "?n' = mesh_add_op (PublishRequest r (ms_handles n) (InstanceChannel i) (MRequest r (ms_instanceId n) type payload (Some (nullish timeoutMs (mo_requestTimeoutMs opts)))))
        ((snd (arm_timer r i type (now + nullish timeoutMs (mo_requestTimeoutMs opts)) (mesh_emit (Invoked r) n)))\<lparr>ms_pending := jset r \<lparr>pr_timer = ms_handles n, pr_type = type, pr_targetInstanceId = i,
           pr_timeoutMs = nullish timeoutMs (mo_requestTimeoutMs opts)\<rparr> (ms_pending n)\<rparr>)"
      using remote by (simp add: mesh_invoke_def Let_def arm_timer_def mesh_emit_def)
    have ids: "mesh_settled_ids ?n' = mesh_settled_ids n" "mesh_invoked_ids ?n' = mesh_invoked_ids n @ [r]"
      by (simp_all add: e mesh_add_op_def arm_timer_def mesh_emit_def mesh_settled_ids_def mesh_invoked_ids_def map_filter_append map_filter_simps)
    have "r \<notin> set (mesh_settled_ids n)" "distinct (mesh_invoked_ids n)" using ok r unfolding mesh_requests_ok_def by blast+
    then show ?thesis
      using r ids by (intro new_timer_keeps [OF ok, where old = None and r = r
            and p = "\<lparr>pr_timer = ms_handles n, pr_type = type, pr_targetInstanceId = i, pr_timeoutMs = nullish timeoutMs (mo_requestTimeoutMs opts)\<rparr>"
            and u = "\<lparr>rt_handle = ms_handles n, rt_requestId = r, rt_target = i, rt_msgType = type, rt_deadline = now + nullish timeoutMs (mo_requestTimeoutMs opts)\<rparr>"])
        (auto simp: e mesh_add_op_def arm_timer_def mesh_emit_def)
  qed
qed

lemma reject_stopped_finish:
  "reject_stopped (r, p) n = finish_request r (pr_timer p) (MeshRejected r MeshStopped) n"
  by (simp add: reject_stopped_def finish_request_def Let_def mesh_settle_def mesh_emit_def clear_timer_def)

lemma reject_stopped_fold:
  assumes "mesh_requests_ok n" "\<forall>(r, p)\<in>set ps. r \<in> set (mesh_invoked_ids n) \<and> (\<forall>t\<in>set (ms_timers n). rt_handle t = pr_timer p \<longrightarrow> rt_requestId t = r)"
  shows "mesh_requests_ok (fold reject_stopped ps n) \<and> ms_pending (fold reject_stopped ps n) = fold jdelete (map fst ps) (ms_pending n)
       \<and> mesh_invoked_ids (fold reject_stopped ps n) = mesh_invoked_ids n"
  using assms
proof (induction ps arbitrary: n)
  case Nil
  then show ?case by simp
next
  case (Cons x ps)
  obtain r p where x: "x = (r, p)" by (cases x)
  have out: "settled_id (MeshRejected r MeshStopped :: 'a mesh_output) = Some r" by simp
  note v = finish_request_views [OF out, of "pr_timer p" n]
  have "mesh_requests_ok (reject_stopped x n)"
    unfolding x reject_stopped_finish by (rule finish_request_keeps [OF Cons.prems(1) out]) (use Cons.prems(2) x in auto)
  moreover have "\<forall>(r', p')\<in>set ps. r' \<in> set (mesh_invoked_ids (reject_stopped x n)) \<and> (\<forall>t\<in>set (ms_timers (reject_stopped x n)). rt_handle t = pr_timer p' \<longrightarrow> rt_requestId t = r')"
    using Cons.prems(2) unfolding x reject_stopped_finish v by auto
  ultimately show ?case using Cons.IH [of "reject_stopped x n"] unfolding x reject_stopped_finish by (simp add: v x reject_stopped_finish)
qed

lemma fold_jdelete: "jget (fold jdelete ks m) k = (if k \<in> set ks then None else jget m k)"
  by (induction ks arbitrary: m) auto

lemma quiet_stop_deregister: "quiet n (stop_deregister n)"
  unfolding stop_deregister_def by auto

lemmas quiet_stop_deregister_step [intro!] = quiet_stop_deregister [THEN quiet_trans [rotated]]

lemma stop_clear_requests:
  assumes ok: "mesh_requests_ok n"
  shows "mesh_requests_ok (stop_clear n) \<and> ms_pending (stop_clear n) = []"
proof -
  define n1 where "n1 = (case ms_heartbeatTimer n of Some h \<Rightarrow> (clear_mesh_interval h n)\<lparr>ms_heartbeatTimer := None\<rparr> | None \<Rightarrow> n)"
  define n2 where "n2 = (fold clear_mesh_interval (ms_activeHandlerIntervals n1) n1)\<lparr>ms_activeHandlerIntervals := []\<rparr>"
  define n3 where "n3 = fold reject_stopped (ms_pending n2) n2"
  have "quiet n n1" unfolding n1_def by (cases "ms_heartbeatTimer n") auto
  then have "quiet n n2" unfolding n2_def by auto
  then have ok2: "mesh_requests_ok n2" using quiet_keeps ok by blast
  have d: "distinct (map fst (ms_pending n2))" using ok2 by (simp add: mesh_requests_ok_def)
  have "\<forall>(r, p)\<in>set (ms_pending n2). r \<in> set (mesh_invoked_ids n2) \<and> (\<forall>t\<in>set (ms_timers n2). rt_handle t = pr_timer p \<longrightarrow> rt_requestId t = r)"
    using pending_timer [OF ok2] pending_invoked [OF ok2] d by (auto simp: map_of_eq_Some_iff)
  then have r: "mesh_requests_ok n3" "ms_pending n3 = fold jdelete (map fst (ms_pending n2)) (ms_pending n2)"
    using reject_stopped_fold [OF ok2] unfolding n3_def by auto
  have "jget (ms_pending n3) k = None" for k
    unfolding r(2) fold_jdelete by (auto simp: map_of_eq_None_iff)
  then have "ms_pending n3 = []" by (cases "ms_pending n3") (auto dest: meta_spec [of _ "fst (hd (ms_pending n3))"])
  moreover have "stop_clear n = (case ms_subscriber n3 of Some h \<Rightarrow> mesh_add_op (StopUnsubscribe h) n3 | None \<Rightarrow> stop_deregister n3)"
    unfolding stop_clear_def n1_def n2_def n3_def Let_def ..
  then have "quiet n3 (stop_clear n)" by (auto split: option.split)
  ultimately show ?thesis using quiet_keeps [OF _ r(1)] by (auto simp: quiet_def)
qed

section \<open>Steps\<close>

lemma quiet_start [intro]: "quiet n (mesh_start n)"
  by (auto simp: mesh_start_def)

lemma quiet_start_subscriber: "quiet n (start_subscriber i n)"
  unfolding start_subscriber_def by (auto intro!: quiet_add_op simp: quiet_def mesh_add_op_def mesh_invoked_ids_def mesh_settled_ids_def)

lemmas quiet_start_subscriber_step [intro!] = quiet_start_subscriber [THEN quiet_trans [rotated]]

lemma quiet_start_running: "quiet n (start_running n)"
  unfolding start_running_def by (auto simp: quiet_def mesh_emit_def mesh_invoked_ids_def mesh_settled_ids_def map_filter_append map_filter_simps)

lemmas quiet_start_running_step [intro!] = quiet_start_running [THEN quiet_trans [rotated]]

lemma quiet_broadcast_message: "quiet n (handleBroadcastMessage i type d n)"
  by (auto simp: handleBroadcastMessage_def)

lemmas quiet_broadcast_message_step [intro!] = quiet_broadcast_message [THEN quiet_trans [rotated]]

lemma quiet_broadcast [intro]: "quiet n (mesh_broadcast wire type d skip n)"
  by (auto simp: mesh_broadcast_def Let_def split: sum.split)

lemma quiet_broadcast_incoming [intro]: "quiet n (handleBroadcastIncoming m n)"
  by (auto simp: handleBroadcastIncoming_def split: mesh_message.split)

lemma quiet_request_message [intro]: "quiet n (handleRequestMessage r i type d n)"
  by (auto simp: handleRequestMessage_def Let_def quiet_def mesh_emit_def mesh_add_op_def mesh_invoked_ids_def mesh_settled_ids_def map_filter_append map_filter_simps)

lemma quiet_handler_done [intro]: "quiet n (handler_done wire task rh outcome n)"
  unfolding handler_done_def Let_def clear_mesh_interval_def
  by auto

lemma quiet_do_heartbeat: "quiet n (doHeartbeat n)"
  by (auto simp: doHeartbeat_def)

lemmas quiet_do_heartbeat_step [intro!] = quiet_do_heartbeat [THEN quiet_trans [rotated]]

lemma quiet_clean_up_next: "quiet n (clean_up_next ids n)"
  by (cases ids) auto

lemmas quiet_clean_up_next_step [intro!] = quiet_clean_up_next [THEN quiet_trans [rotated]]

lemma quiet_interval_fires [intro]: "quiet n (interval_fires h n)"
  by (auto simp: interval_fires_def split: option.split mesh_interval.split)

lemma mesh_stop_keeps: "mesh_requests_ok n \<Longrightarrow> mesh_requests_ok (mesh_stop n)"
  unfolding mesh_stop_def Let_def using stop_clear_requests quiet_keeps [of n "n\<lparr>ms_running := False\<rparr>"]
  by (auto intro: quiet_keeps [rotated])

lemma op_continue_keeps: "mesh_requests_ok n \<Longrightarrow> mesh_requests_ok (op_continue op r n)"
  by (cases "(op, r, n)" rule: op_continue.cases) (auto intro: quiet_keeps [rotated] conjunct1 [OF stop_clear_requests])

lemma op_failed_keeps:
  assumes "mesh_requests_ok n" "\<And>r h ch m. op = PublishRequest r h ch m \<Longrightarrow> r \<in> set (mesh_invoked_ids n) \<and> (\<forall>t\<in>set (ms_timers n). rt_handle t = h \<longrightarrow> rt_requestId t = r)"
  shows "mesh_requests_ok (op_failed op err n)"
  using assms
proof (induction op err n rule: op_failed.induct)
  case (8 r h ch m err n)
  show ?case using publish_request_failed_keeps [OF 8(1), of r h err] 8(2) by simp
qed (auto intro: op_continue_keeps quiet_keeps [rotated] conjunct1 [OF stop_clear_requests])

lemma requests_ok_op:
  assumes "mesh_requests_ok n" "PublishRequest r h ch m \<in> set (ms_ops n)"
  shows "r \<in> set (mesh_invoked_ids n) \<and> (\<forall>t\<in>set (ms_timers n). rt_handle t = h \<longrightarrow> rt_requestId t = r)"
  using assms unfolding mesh_requests_ok_def by blast

lemma deliver_next_keeps: "mesh_requests_ok n \<Longrightarrow> mesh_requests_ok (deliver_next now n)"
proof -
  assume ok: "mesh_requests_ok n"
  show ?thesis
  proof (cases "ms_inbox n")
    case Nil
    then show ?thesis using ok by (simp add: deliver_next_def)
  next
    case (Cons x rest)
    obtain ch m where x: "x = (ch, m)" by (cases x)
    have i: "mesh_requests_ok (n\<lparr>ms_inbox := rest\<rparr>)" by (rule quiet_keeps [OF _ ok]) auto
    have "mesh_requests_ok (handle_mesh_message now m (n\<lparr>ms_inbox := rest\<rparr>))"
      using i handleHeartbeatMessage_keeps [OF i] handleResponseMessage_keeps [OF i]
        quiet_keeps [OF quiet_request_message i]
      by (auto simp: handle_mesh_message_def split: mesh_message.split)
    moreover have "mesh_requests_ok (handleBroadcastIncoming m (n\<lparr>ms_inbox := rest\<rparr>))"
      using quiet_keeps [OF quiet_broadcast_incoming i] .
    ultimately show ?thesis using Cons x by (simp add: deliver_next_def)
  qed
qed

lemma timer_fires_keeps: "mesh_requests_ok n \<Longrightarrow> mesh_requests_ok (timer_fires now h n)"
  by (auto simp: timer_fires_def find_Some_iff intro: request_timed_out_keeps split: option.split)

text \<open>What holds of every service is kept by an operation of one of them and by what Redis executes.\<close>

definition nodes_all :: "(nat \<Rightarrow> 'd mesh_node \<Rightarrow> bool) \<Rightarrow> 'd mesh \<Rightarrow> bool" where
  "nodes_all P s \<longleftrightarrow> (\<forall>q<length (me_nodes s). P q (mnode s q))"

lemma length_mupd [simp]: "length (me_nodes (mesh_mupd p f s)) = length (me_nodes s)"
  by (simp add: mesh_mupd_def)

lemma mnode_mupd: "q < length (me_nodes s) \<Longrightarrow> mnode (mesh_mupd p f s) q = (if q = p then f (mnode s q) else mnode s q)"
  by (auto simp: mnode_def mesh_mupd_def nth_list_update_neq)

lemma nodes_all_mupd: "nodes_all P s \<Longrightarrow> (\<And>n. p < length (me_nodes s) \<Longrightarrow> n = mnode s p \<Longrightarrow> P p n \<Longrightarrow> P p (f n)) \<Longrightarrow> nodes_all P (mesh_mupd p f s)"
  by (auto simp: nodes_all_def mnode_mupd)

lemma nodes_all_mono: "nodes_all P s \<Longrightarrow> (\<And>q n. P q n \<Longrightarrow> Q q n) \<Longrightarrow> nodes_all Q s"
  by (simp add: nodes_all_def)

lemma deregister_fold_nodes: "me_nodes (fold deregister_instance ids t) = me_nodes t"
  by (induction ids arbitrary: t) (auto simp: deregister_instance_def)

lemma same_inbox: "n\<lparr>ms_inbox := ms_inbox n\<rparr> = n"
  by (cases n) simp

lemma op_execute_nodes:
  "\<exists>boxes. me_nodes (snd (op_execute opts op s)) = map (\<lambda>q. (mnode s q)\<lparr>ms_inbox := boxes q\<rparr>) [0..<length (me_nodes s)]"
proof -
  have same: "me_nodes s = map (\<lambda>q. (mnode s q)\<lparr>ms_inbox := ms_inbox (mnode s q)\<rparr>) [0..<length (me_nodes s)]"
    by (rule nth_equalityI) (simp_all add: mnode_def same_inbox)
  have pub: "me_nodes (redis_publish ch m s) = map (\<lambda>q. (mnode s q)\<lparr>ms_inbox := ms_inbox (mnode s q) @
      replicate (length (filter (listens ch) (ms_subscriptions (mnode s q)))) (ch, m)\<rparr>) [0..<length (me_nodes s)]" for ch m
    by (rule nth_equalityI) (simp_all add: redis_publish_def mnode_def)
  have pub': "\<exists>boxes. me_nodes (redis_publish ch m s) = map (\<lambda>q. (mnode s q)\<lparr>ms_inbox := boxes q\<rparr>) [0..<length (me_nodes s)]" for ch m
    by (rule exI) (rule pub)
  show ?thesis
  proof (cases "\<exists>ch m. op = Publish ch m \<or> (\<exists>r h. op = PublishRequest r h ch m)")
    case True
    then consider ch m where "op = Publish ch m" | r h ch m where "op = PublishRequest r h ch m" by blast
    then show ?thesis by cases (use pub' in simp_all)
  next
    case False
    then have "me_nodes (snd (op_execute opts op s)) = me_nodes s"
      by (cases op) (auto simp: HEARTBEAT_SCRIPT_def DEREGISTER_SCRIPT_def deregister_instance_def CLEANUP_SCRIPT_def deregister_fold_nodes Let_def)
    with same show ?thesis by (intro exI [of _ "\<lambda>q. ms_inbox (mnode s q)"]) simp
  qed
qed

lemma nodes_all_execute:
  assumes "nodes_all P s" "\<And>q n x. P q n \<Longrightarrow> P q (n\<lparr>ms_inbox := x\<rparr>)"
  shows "nodes_all P (snd (op_execute opts op s))"
proof -
  obtain boxes where "me_nodes (snd (op_execute opts op s)) = map (\<lambda>q. (mnode s q)\<lparr>ms_inbox := boxes q\<rparr>) [0..<length (me_nodes s)]"
    using op_execute_nodes by blast
  then show ?thesis using assms by (auto simp: nodes_all_def mnode_def)
qed

lemma nodes_all_hset [simp]: "nodes_all P (op_hset op hostname s) = nodes_all P s"
  by (cases op) (simp_all add: op_hset_def nodes_all_def mnode_def)

text \<open>The reply of a call: \<open>C\<close> is what its continuation needs of the node.\<close>

lemma nodes_all_op_done:
  assumes all: "nodes_all P s" and p: "p < length (me_nodes s)" and k: "k < length (ms_ops (mnode s p))"
    and inbox: "\<And>q n x. P q n \<Longrightarrow> P q (n\<lparr>ms_inbox := x\<rparr>)" and boxC: "\<And>n x. C n \<Longrightarrow> C (n\<lparr>ms_inbox := x\<rparr>)"
    and remove: "\<And>n. P p n \<Longrightarrow> n = mnode s p \<Longrightarrow> P p (n\<lparr>ms_ops := take k (ms_ops n) @ drop (Suc k) (ms_ops n)\<rparr>) \<and> C (n\<lparr>ms_ops := take k (ms_ops n) @ drop (Suc k) (ms_ops n)\<rparr>)"
    and continue: "\<And>n r. outcome = Replied \<Longrightarrow> P p n \<Longrightarrow> C n \<Longrightarrow> r = fst (op_execute opts (ms_ops (mnode s p) ! k) (mesh_mupd p (\<lambda>n. n\<lparr>ms_ops := take k (ms_ops n) @ drop (Suc k) (ms_ops n)\<rparr>) s))
        \<Longrightarrow> P p (op_continue (ms_ops (mnode s p) ! k) r n)"
    and failed: "\<And>n err. P p n \<Longrightarrow> C n \<Longrightarrow> P p (op_failed (ms_ops (mnode s p) ! k) err n)"
  shows "nodes_all P (op_done opts p k outcome s)"
proof -
  define op where "op = ms_ops (mnode s p) ! k"
  define s1 where "s1 = mesh_mupd p (\<lambda>n. n\<lparr>ms_ops := take k (ms_ops n) @ drop (Suc k) (ms_ops n)\<rparr>) s"
  define R where "R = (\<lambda>q n. P q n \<and> (q = p \<longrightarrow> C n))"
  have s1: "nodes_all R s1"
    using all remove by (auto simp: nodes_all_def s1_def mnode_mupd R_def)
  have s2: "nodes_all R (snd (op_execute opts op s1))"
    by (rule nodes_all_execute [OF s1]) (simp add: R_def inbox boxC)
  have len: "length (me_nodes s1) = length (me_nodes s)" by (simp add: s1_def mesh_mupd_def)
  have fin: "nodes_all P (mesh_mupd p f t)" if "nodes_all R t" "\<And>n. P p n \<Longrightarrow> C n \<Longrightarrow> P p (f n)" for t f
    using that by (auto simp: nodes_all_def mnode_mupd R_def)
  show ?thesis
  proof (cases outcome)
    case Replied
    obtain r t where e: "op_execute opts op s1 = (r, t)" by force
    have "nodes_all P (mesh_mupd p (op_continue op r) (op_hset op (ms_hostname (mnode s p)) t))"
      by (rule fin) (use s2 e continue Replied in \<open>auto simp: op_def s1_def\<close>)
    then show ?thesis using Replied e by (simp add: op_done_def Let_def op_def s1_def)
  next
    case (Lost err)
    obtain r t where e: "op_execute opts op s1 = (r, t)" by force
    have "nodes_all P (mesh_mupd p (op_failed op err) (op_hset op (ms_hostname (mnode s p)) t))"
      by (rule fin) (use s2 e failed in \<open>auto simp: op_def\<close>)
    then show ?thesis using Lost e by (simp add: op_done_def Let_def op_def s1_def)
  next
    case (Failed err)
    have "nodes_all P (mesh_mupd p (op_failed op err) s1)"
      by (rule fin [OF s1]) (use failed in \<open>auto simp: op_def\<close>)
    then show ?thesis using Failed by (simp add: op_done_def Let_def op_def s1_def)
  qed
qed

definition mesh_ok :: "'d mesh \<Rightarrow> bool" where
  "mesh_ok s \<longleftrightarrow> nodes_all (\<lambda>_. mesh_requests_ok) s"

lemma inbox_keeps: "mesh_requests_ok n \<Longrightarrow> mesh_requests_ok (n\<lparr>ms_inbox := x\<rparr>)"
  by (rule quiet_keeps [rotated]) auto

lemma invoked_id_Some: "invoked_id out = Some r \<longleftrightarrow> out = Invoked r"
  by (cases out) auto

lemma fresh_not_invoked:
  assumes "fresh_request_id s r" "q < length (me_nodes s)"
  shows "r \<notin> set (mesh_invoked_ids (mnode s q))"
proof -
  have "mnode s q \<in> set (me_nodes s)" using assms(2) by (simp add: mnode_def)
  then have "\<forall>out\<in>set (ms_log (mnode s q)). invoked_id out \<noteq> Some r"
    using assms(1) by (auto simp: fresh_request_id_def list_all_iff list_ex_iff invoked_id_Some split: mesh_output.splits)
  then show ?thesis by (auto simp: mesh_invoked_ids_def in_map_filter)
qed

lemma op_done_keeps:
  fixes s :: "'d mesh"
  assumes ok: "mesh_ok s" and p: "p < length (me_nodes s)" and r: "op_ready (mnode s p) k"
  shows "mesh_ok (op_done opts p k outcome s)"
proof -
  define op where "op = ms_ops (mnode s p) ! k"
  define C where "C = (\<lambda>n :: 'd mesh_node. \<forall>r h ch m. op = PublishRequest r h ch m \<longrightarrow> r \<in> set (mesh_invoked_ids n) \<and> (\<forall>t\<in>set (ms_timers n). rt_handle t = h \<longrightarrow> rt_requestId t = r))"
  have k: "k < length (ms_ops (mnode s p))" using r by (simp add: op_ready_def)
  have okp: "mesh_requests_ok (mnode s p)" using ok p by (simp add: mesh_ok_def nodes_all_def)
  have "C (mnode s p)" using requests_ok_op [OF okp] k unfolding C_def op_def by (metis nth_mem)
  then have c: "C ((mnode s p)\<lparr>ms_ops := x\<rparr>)" for x by (simp add: C_def mesh_invoked_ids_def)
  have cont: "mesh_requests_ok n \<Longrightarrow> C n \<Longrightarrow> mesh_requests_ok (op_failed op err n)" for n err
    by (rule op_failed_keeps) (auto simp: C_def)
  show ?thesis
    unfolding mesh_ok_def
    by (rule nodes_all_op_done [where C = C, OF ok [unfolded mesh_ok_def] p k])
       (use cont c in \<open>auto simp: op_def [symmetric] C_def mesh_invoked_ids_def intro: inbox_keeps quiet_keeps [OF quiet_remove_op] op_continue_keeps\<close>)
qed

lemma quiet_mupd: "mesh_ok s \<Longrightarrow> (\<And>n. quiet n (f n)) \<Longrightarrow> mesh_ok (mesh_mupd p f s)"
  unfolding mesh_ok_def by (rule nodes_all_mupd) (auto intro: quiet_keeps)

lemma mesh_step_keeps:
  assumes ok: "mesh_ok s"
  shows "mesh_ok (mesh_step opts wire s e)"
proof (cases e)
  case (CallInvoke p i type data timeoutMs r)
  then show ?thesis using ok unfolding mesh_ok_def
    by (auto intro!: nodes_all_mupd mesh_invoke_keeps dest: fresh_not_invoked)
next
  case (OpDone p k outcome)
  then show ?thesis using ok op_done_keeps by auto
next
  case (Deliver p)
  then show ?thesis using ok deliver_next_keeps unfolding mesh_ok_def by (auto intro!: nodes_all_mupd)
next
  case (TimerFires p h)
  then show ?thesis using ok timer_fires_keeps unfolding mesh_ok_def by (auto intro!: nodes_all_mupd)
next
  case (CallStop p)
  then show ?thesis using ok mesh_stop_keeps unfolding mesh_ok_def by (auto intro!: nodes_all_mupd)
next
  case (TaskDone p task outcome)
  then show ?thesis using ok by (auto intro!: quiet_mupd split: option.split)
next
  case (MeshClock dt)
  then show ?thesis using ok by (simp add: mesh_ok_def nodes_all_def mnode_def)
qed (use ok in \<open>auto intro!: quiet_mupd\<close>)

end
