(* ===== verification/MeshCorrect.thy ===== *)
theory MeshCorrect
  imports MeshFacts
begin

text \<open>
  What \<open>src/src/services/mesh.ts\<close> promises, for any number of services and every order of calls, deliveries, timers and
  failures of Redis: requests settle once, instance ids are never shared, a request reaches its handler and the outcome
  comes back, and an instance is removed only when it stops or has been silent for the time to live.
\<close>

section \<open>Requests settle once\<close>

definition mesh_of :: "(string \<times> string list \<times> string list) list \<Rightarrow> 'd mesh" where
  "mesh_of config = new_mesh (map (\<lambda>(hostname, handlers, broadcastHandlers). new_mesh_node hostname handlers broadcastHandlers) config)"

lemma mesh_ok_new: "mesh_ok (mesh_of config)"
  by (auto simp: mesh_ok_def nodes_all_def mesh_of_def new_mesh_def mnode_def new_mesh_node_def mesh_requests_ok_def mesh_invoked_ids_def
      mesh_settled_ids_def map_filter_simps split: prod.splits)

interpretation mesh_requests: event_system "mesh_of config" "mesh_step opts wire" mesh_ok
  by unfold_locales (auto intro: mesh_ok_new mesh_step_keeps)

lemma length_execute [simp]: "length (me_nodes (snd (op_execute opts op s))) = length (me_nodes s)"
proof -
  obtain boxes where "me_nodes (snd (op_execute opts op s)) = map (\<lambda>q. (mnode s q)\<lparr>ms_inbox := boxes q\<rparr>) [0..<length (me_nodes s)]"
    using op_execute_nodes by blast
  then show ?thesis by simp
qed

lemma op_hset_nodes [simp]: "me_nodes (op_hset op hostname s) = me_nodes s"
  by (cases op) (simp_all add: op_hset_def)

lemma length_op_done [simp]: "length (me_nodes (op_done opts p k outcome s)) = length (me_nodes s)"
proof -
  have "length (me_nodes t) = length (me_nodes s')" if "op_execute opts op s' = (r, t)" for op r t and s' :: "'a mesh"
    using length_execute [of opts op s'] that by simp
  then show ?thesis by (cases outcome) (fastforce simp: op_done_def Let_def split: prod.split)+
qed

lemma length_step [simp]: "length (me_nodes (mesh_step opts wire s e)) = length (me_nodes s)"
  by (cases e) auto

lemma length_mesh_run [simp]: "length (me_nodes (run_events (mesh_step opts wire) s es)) = length (me_nodes s)"
  by (induction es arbitrary: s) auto

text \<open>C35. In every reachable state of a mesh, every remote request that a service made is either settled, once, or pending,
  and then a timer that will reject it is armed.\<close>

theorem mesh_requests_settle_once:
  assumes "q < length config"
  shows "let n = mnode (run_events (mesh_step opts wire) (mesh_of config) es) q in
     distinct (mesh_settled_ids n) \<and> set (mesh_invoked_ids n) = set (mesh_settled_ids n) \<union> {r. jhas (ms_pending n) r}
   \<and> set (mesh_settled_ids n) \<inter> {r. jhas (ms_pending n) r} = {}
   \<and> {r. jhas (ms_pending n) r} \<subseteq> rt_requestId ` set (ms_timers n)"
proof -
  define n where "n = mnode (run_events (mesh_step opts wire) (mesh_of config) es) q"
  have "length (me_nodes (mesh_of config :: 'a mesh)) = length config" by (simp add: mesh_of_def new_mesh_def)
  then have ok: "mesh_requests_ok n"
    using mesh_requests.reachable_holds [of opts wire config es] assms by (auto simp: mesh_ok_def nodes_all_def n_def)
  have a: "distinct (mesh_settled_ids n)" "\<And>r. r \<in> set (mesh_invoked_ids n) \<longleftrightarrow> jhas (ms_pending n) r \<or> r \<in> set (mesh_settled_ids n)"
    "\<And>r. jhas (ms_pending n) r \<Longrightarrow> r \<notin> set (mesh_settled_ids n)"
    using ok unfolding mesh_requests_ok_def by blast+
  have "jhas (ms_pending n) r \<Longrightarrow> r \<in> rt_requestId ` set (ms_timers n)" for r
    using ok unfolding mesh_requests_ok_def by (metis image_eqI not_Some_eq)
  with a show ?thesis unfolding n_def [symmetric] Let_def by blast
qed

definition demo_options :: mesh_options where
  "demo_options = \<lparr>mo_nodeTtlMs = 15, mo_requestTimeoutMs = 10\<rparr>"

definition demo_config :: "(string \<times> string list \<times> string list) list" where
  "demo_config = [(''host1'', [''echo''], [''news'']), (''host2'', [''echo''], [''news''])]"

abbreviation demo_mesh_run :: "string mesh_event list \<Rightarrow> string mesh" where
  "demo_mesh_run es \<equiv> run_events (mesh_step demo_options Inr) (mesh_of demo_config) es"

text \<open>A service starts with four calls of Redis.\<close>

definition start_events :: "nat \<Rightarrow> string mesh_event list" where
  "start_events p = [CallStart p, OpDone p 0 Replied, OpDone p 0 Replied, OpDone p 0 Replied, OpDone p 0 Replied]"

definition demo_requests :: "string mesh_event list" where
  "demo_requests = start_events 0 @ start_events 1 @
     [CallInvoke 0 2 ''echo'' ''x'' None ''r1'', CallInvoke 0 2 ''nope'' ''y'' None ''r2'', CallInvoke 0 2 ''echo'' ''z'' None ''r3'',
      OpDone 0 0 Replied, OpDone 0 0 Replied, Deliver 1, Deliver 1, OpDone 1 0 Replied, TaskDone 1 2 (Inr ''done''), OpDone 1 0 Replied,
      Deliver 0, Deliver 0]"

theorem mesh_requests_settle_once_witness:
  "0 < length demo_config \<and> (let n = mnode (demo_mesh_run demo_requests) 0 in
     mesh_settled_ids n = [''r2'', ''r1''] \<and> jkeys (ms_pending n) = [''r3'']
   \<and> set (mesh_invoked_ids n) = set (mesh_settled_ids n) \<union> {r. jhas (ms_pending n) r})"
proof -
  have c: "0 < length demo_config" by (simp add: demo_config_def)
  have "mesh_settled_ids (mnode (demo_mesh_run demo_requests) 0) = [''r2'', ''r1'']" "jkeys (ms_pending (mnode (demo_mesh_run demo_requests) 0)) = [''r3'']"
    by code_simp+
  with mesh_requests_settle_once [OF c, of demo_options Inr demo_requests] c show ?thesis by (simp add: Let_def)
qed

section \<open>Instance ids\<close>

definition owned_ids :: "'d mesh_node \<Rightarrow> nat set" where
  "owned_ids n = ({ms_instanceId n} - {0}) \<union> snd ` set (ms_subscriptions n) \<union> {i. \<exists>h. StartSubscribe h i \<in> set (ms_ops n)}"

definition no_new_ids :: "'d mesh_node \<Rightarrow> 'd mesh_node \<Rightarrow> bool" where
  "no_new_ids n n' \<longleftrightarrow> owned_ids n' \<subseteq> owned_ids n"

lemma no_new_ids_refl [simp, intro!]: "no_new_ids n n"
  by (simp add: no_new_ids_def)

lemma no_new_ids_trans: "no_new_ids n1 n2 \<Longrightarrow> no_new_ids n2 n3 \<Longrightarrow> no_new_ids n1 n3"
  by (auto simp: no_new_ids_def)

lemma no_new_ids_update:
  "no_new_ids n (n\<lparr>ms_running := b\<rparr>)" "no_new_ids n (n\<lparr>ms_heartbeatTimer := c\<rparr>)" "no_new_ids n (n\<lparr>ms_leaderService := d\<rparr>)"
  "no_new_ids n (n\<lparr>ms_subscriber := e\<rparr>)" "no_new_ids n (n\<lparr>ms_activeHandlerIntervals := g\<rparr>)" "no_new_ids n (n\<lparr>ms_intervals := i\<rparr>)"
  "no_new_ids n (n\<lparr>ms_tasks := j\<rparr>)" "no_new_ids n (n\<lparr>ms_inbox := k\<rparr>)" "no_new_ids n (n\<lparr>ms_handles := l\<rparr>)" "no_new_ids n (n\<lparr>ms_pending := m\<rparr>)"
  "no_new_ids n (n\<lparr>ms_timers := t\<rparr>)" "no_new_ids n (n\<lparr>ms_log := u\<rparr>)" "no_new_ids n (n\<lparr>ms_instanceId := 0\<rparr>)"
  "no_new_ids n (n\<lparr>ms_subscriptions := filter P (ms_subscriptions n)\<rparr>)"
  by (auto simp: no_new_ids_def owned_ids_def)

lemma no_new_ids_add_op: "(\<And>h i. op = StartSubscribe h i \<Longrightarrow> i \<in> owned_ids n) \<Longrightarrow> no_new_ids n (mesh_add_op op n)"
  unfolding no_new_ids_def mesh_add_op_def owned_ids_def by auto

lemma no_new_ids_remove_op: "no_new_ids n (n\<lparr>ms_ops := take k (ms_ops n) @ drop (Suc k) (ms_ops n)\<rparr>)"
  by (auto simp: no_new_ids_def owned_ids_def dest: in_set_takeD in_set_dropD)

lemmas no_new_ids_steps [intro!] = no_new_ids_update [THEN no_new_ids_trans [rotated]] no_new_ids_add_op [THEN no_new_ids_trans [rotated]]
  no_new_ids_remove_op [THEN no_new_ids_trans [rotated]]

lemma no_new_ids_simple [intro!]:
  "no_new_ids m n \<Longrightarrow> no_new_ids m (mesh_emit out n)" "no_new_ids m n \<Longrightarrow> no_new_ids m (clear_timer h n)"
  "no_new_ids m n \<Longrightarrow> no_new_ids m (clear_mesh_interval h n)" "no_new_ids m n \<Longrightarrow> no_new_ids m (mesh_settle r out n)"
  "no_new_ids m n \<Longrightarrow> no_new_ids m (snd (arm_timer r i type d n))"
  by (auto simp: mesh_emit_def clear_timer_def clear_mesh_interval_def mesh_settle_def arm_timer_def)

lemma no_new_ids_reject [intro!]: "no_new_ids m n \<Longrightarrow> no_new_ids m (reject_stopped x n)"
  by (cases x) (auto simp: reject_stopped_def Let_def)

lemma no_new_ids_folds [intro!]:
  "no_new_ids m n \<Longrightarrow> no_new_ids m (fold clear_mesh_interval hs n)" "no_new_ids m n \<Longrightarrow> no_new_ids m (fold reject_stopped ps n)"
  by (induction hs arbitrary: n, simp_all add: no_new_ids_simple) (induction ps arbitrary: n, auto)

lemma no_new_ids_clean_up [intro!]: "no_new_ids m n \<Longrightarrow> no_new_ids m (clean_up_next ids n)"
  by (cases ids) auto

lemma no_new_ids_operations [intro!]:
  "no_new_ids m n \<Longrightarrow> no_new_ids m (mesh_start n)" "no_new_ids m n \<Longrightarrow> no_new_ids m (stop_deregister n)"
  "no_new_ids m n \<Longrightarrow> no_new_ids m (start_running n)" "no_new_ids m n \<Longrightarrow> no_new_ids m (doHeartbeat n)"
  "no_new_ids m n \<Longrightarrow> no_new_ids m (handleBroadcastMessage i type d n)"
  "no_new_ids m n \<Longrightarrow> no_new_ids m (publish_request_failed r h err n)" "no_new_ids m n \<Longrightarrow> no_new_ids m (request_timed_out t n)"
  "no_new_ids m n \<Longrightarrow> no_new_ids m (handleRequestMessage r i type d n)" "no_new_ids m n \<Longrightarrow> no_new_ids m (handleResponseMessage r e x n)"
  "no_new_ids m n \<Longrightarrow> no_new_ids m (handler_done wire task rh outcome n)"
  by (auto simp: mesh_start_def stop_deregister_def start_running_def doHeartbeat_def handleBroadcastMessage_def
      publish_request_failed_def request_timed_out_def handleRequestMessage_def handleResponseMessage_def handler_done_def Let_def split: option.split)

lemma no_new_ids_more [intro!]:
  "no_new_ids m n \<Longrightarrow> no_new_ids m (stop_clear n)" "no_new_ids m n \<Longrightarrow> no_new_ids m (handleHeartbeatMessage now r n)"
  "no_new_ids m n \<Longrightarrow> no_new_ids m (mesh_broadcast wire type d skip n)" "no_new_ids m n \<Longrightarrow> no_new_ids m (handleBroadcastIncoming x n)"
  "no_new_ids m n \<Longrightarrow> no_new_ids m (mesh_invoke opts wire now i type d timeoutMs r n)"
  by (auto simp: stop_clear_def handleHeartbeatMessage_def mesh_broadcast_def handleBroadcastIncoming_def mesh_invoke_def Let_def arm_timer_def
      split: option.split sum.split mesh_message.split)

lemma no_new_ids_events [intro!]:
  "no_new_ids m n \<Longrightarrow> no_new_ids m (mesh_stop n)" "no_new_ids m n \<Longrightarrow> no_new_ids m (handle_mesh_message now x n)"
  "no_new_ids m n \<Longrightarrow> no_new_ids m (interval_fires h n)" "no_new_ids m n \<Longrightarrow> no_new_ids m (timer_fires now h n)"
  "no_new_ids m n \<Longrightarrow> no_new_ids m (deliver_next now n)"
  by (auto simp: mesh_stop_def handle_mesh_message_def interval_fires_def timer_fires_def deliver_next_def Let_def
      split: option.split mesh_message.split mesh_interval.split list.split)

lemma op_continue_ids:
  "owned_ids (op_continue op r n) \<subseteq> owned_ids n \<union> {i. \<exists>h. op = StartSubscribe h i} \<union> {i. op = StartIncr \<and> r = IncrReply i}"
proof -
  have sub: "no_new_ids n m \<Longrightarrow> owned_ids m \<subseteq> owned_ids n \<union> A \<union> B" for m :: "'a mesh_node" and A B
    by (auto simp: no_new_ids_def)
  show ?thesis
  proof (cases "(op, r, n)" rule: op_continue.cases)
    case (1 i m)
    then show ?thesis by (auto simp: start_subscriber_def owned_ids_def mesh_add_op_def)
  next
    case (2 h i v m)
    then show ?thesis by (auto simp: owned_ids_def mesh_add_op_def)
  qed (auto intro!: sub [unfolded no_new_ids_def, THEN subsetD] simp: no_new_ids_def [symmetric])
qed

lemma op_failed_ids: "owned_ids (op_failed op err n) \<subseteq> owned_ids n"
proof -
  have "no_new_ids n (op_failed op err n)"
  proof (cases "(op, err, n)" rule: op_failed.cases)
  qed auto
  then show ?thesis by (simp add: no_new_ids_def)
qed

lemma owned_ids_inbox [simp]: "owned_ids (n\<lparr>ms_inbox := x\<rparr>) = owned_ids n"
  by (simp add: owned_ids_def)

lemma nextId_execute: "me_nextId (snd (op_execute opts op s)) = (if op = StartIncr then Suc (me_nextId s) else me_nextId s)"
proof -
  have "me_nextId (fold deregister_instance ids t) = me_nextId t" for ids and t :: "'a mesh"
    by (induction ids arbitrary: t) (auto simp: deregister_instance_def)
  then show ?thesis
    by (cases op) (auto simp: HEARTBEAT_SCRIPT_def DEREGISTER_SCRIPT_def deregister_instance_def CLEANUP_SCRIPT_def redis_publish_def Let_def)
qed

lemma nextId_more [simp]: "me_nextId (mesh_mupd p f s) = me_nextId s" "me_nextId (op_hset op hostname s) = me_nextId s"
  by (simp add: mesh_mupd_def) (cases op; simp add: op_hset_def)

lemma op_done_nextId:
  "me_nextId (op_done opts p k outcome s) =
     (if ms_ops (mnode s p) ! k = StartIncr \<and> (\<forall>err. outcome \<noteq> Failed err) then Suc (me_nextId s) else me_nextId s)"
proof -
  have e: "me_nextId t = (if op = StartIncr then Suc (me_nextId s') else me_nextId s')" if "op_execute opts op s' = (r, t)" for op r t and s' :: "'a mesh"
    using nextId_execute [of opts op s'] that by simp
  show ?thesis by (cases outcome) (auto simp: op_done_def Let_def split: prod.split dest!: e)
qed

lemma op_done_ids:
  fixes s :: "'d mesh"
  assumes p: "p < length (me_nodes s)" and k: "op_ready (mnode s p) k" and q: "q < length (me_nodes s)"
  shows "owned_ids (mnode (op_done opts p k outcome s) q)
       \<subseteq> owned_ids (mnode s q) \<union> (if q = p \<and> ms_ops (mnode s p) ! k = StartIncr \<and> outcome = Replied then {Suc (me_nextId s)} else {})"
proof -
  define op where "op = ms_ops (mnode s p) ! k"
  define P where "P = (\<lambda>q (n :: 'd mesh_node). owned_ids n \<subseteq> owned_ids (mnode s q) \<union> (if q = p \<and> op = StartIncr \<and> outcome = Replied then {Suc (me_nextId s)} else {}))"
  have k': "k < length (ms_ops (mnode s p))" using k by (simp add: op_ready_def)
  have sub: "\<exists>h. op = StartSubscribe h i \<Longrightarrow> i \<in> owned_ids (mnode s p)" for i
    using nth_mem [OF k'] by (auto simp: op_def owned_ids_def)
  have incr: "op = StartIncr \<Longrightarrow> fst (op_execute opts op t) = IncrReply i \<Longrightarrow> i = Suc (me_nextId t)" for i and t :: "'d mesh"
    by auto
  have "nodes_all P (op_done opts p k outcome s)"
  proof (rule nodes_all_op_done [where C = "\<lambda>_. True"])
    show "nodes_all P s" by (auto simp: nodes_all_def P_def)
    show "p < length (me_nodes s)" "k < length (ms_ops (mnode s p))" by (fact p, fact k')
    show "P q n \<Longrightarrow> P q (n\<lparr>ms_inbox := x\<rparr>)" for q n x by (simp add: P_def)
    show "P p n \<Longrightarrow> P p (n\<lparr>ms_ops := take k (ms_ops n) @ drop (Suc k) (ms_ops n)\<rparr>) \<and> True" for n
      using no_new_ids_remove_op [of n k] by (auto simp: P_def no_new_ids_def)
    show "P p (op_failed (ms_ops (mnode s p) ! k) err n)" if "P p n" for n err
      using that op_failed_ids [of "ms_ops (mnode s p) ! k" err n] by (auto simp: P_def)
    show "P p (op_continue (ms_ops (mnode s p) ! k) r n)"
      if "outcome = Replied" "P p n" "r = fst (op_execute opts (ms_ops (mnode s p) ! k) (mesh_mupd p (\<lambda>n. n\<lparr>ms_ops := take k (ms_ops n) @ drop (Suc k) (ms_ops n)\<rparr>) s))" for n r
      using that op_continue_ids [of op r n] sub incr unfolding op_def [symmetric] P_def by (auto split: if_splits)
  qed simp_all
  then show ?thesis using q by (simp add: nodes_all_def P_def op_def)
qed

definition mesh_ids_ok :: "'d mesh \<Rightarrow> bool" where
  "mesh_ids_ok s \<longleftrightarrow> (\<forall>p<length (me_nodes s). \<forall>i\<in>owned_ids (mnode s p). i \<le> me_nextId s)
     \<and> (\<forall>p<length (me_nodes s). \<forall>q<length (me_nodes s). p \<noteq> q \<longrightarrow> owned_ids (mnode s p) \<inter> owned_ids (mnode s q) = {})"

lemma ids_ok_shrink:
  assumes "mesh_ids_ok s" "length (me_nodes t) = length (me_nodes s)" "me_nextId t = me_nextId s"
    "\<And>q. q < length (me_nodes s) \<Longrightarrow> owned_ids (mnode t q) \<subseteq> owned_ids (mnode s q)"
  shows "mesh_ids_ok t"
  unfolding mesh_ids_ok_def
proof (intro conjI allI impI ballI)
  fix q i assume "q < length (me_nodes t)" "i \<in> owned_ids (mnode t q)"
  then show "i \<le> me_nextId t" using assms by (auto simp: mesh_ids_ok_def)
next
  fix a b assume ab: "a < length (me_nodes t)" "b < length (me_nodes t)" "a \<noteq> b"
  have "owned_ids (mnode s a) \<inter> owned_ids (mnode s b) = {}" using assms(1,2) ab unfolding mesh_ids_ok_def by simp
  then show "owned_ids (mnode t a) \<inter> owned_ids (mnode t b) = {}" using assms(4) [of a] assms(4) [of b] ab assms(2) by auto
qed

lemma mesh_ids_ok_upd: "mesh_ids_ok s \<Longrightarrow> (\<And>n. no_new_ids n (f n)) \<Longrightarrow> mesh_ids_ok (mesh_mupd p f s)"
  by (rule ids_ok_shrink [of s]) (simp_all add: mnode_mupd no_new_ids_def)

lemma ids_ok_op_done:
  assumes ok: "mesh_ids_ok s" and p: "p < length (me_nodes s)" and r: "op_ready (mnode s p) k"
  shows "mesh_ids_ok (op_done opts p k outcome s)"
proof -
  let ?t = "op_done opts p k outcome s"
  define new where "new = (if ms_ops (mnode s p) ! k = StartIncr \<and> outcome = Replied then {Suc (me_nextId s)} else {})"
  have n: "me_nextId s \<le> me_nextId ?t" "i \<in> new \<Longrightarrow> i = Suc (me_nextId s) \<and> i \<le> me_nextId ?t" for i
    by (auto simp: op_done_nextId new_def split: if_splits)
  have ids: "owned_ids (mnode ?t q) \<subseteq> owned_ids (mnode s q) \<union> (if q = p then new else {})" if "q < length (me_nodes s)" for q
    using op_done_ids [OF p r that, of opts outcome] by (auto simp: new_def split: if_splits)
  have le: "i \<in> owned_ids (mnode s q) \<Longrightarrow> q < length (me_nodes s) \<Longrightarrow> i \<le> me_nextId s" for q i
    using ok by (auto simp: mesh_ids_ok_def)
  show ?thesis
    unfolding mesh_ids_ok_def
  proof (intro conjI allI impI ballI)
    fix q i assume "q < length (me_nodes ?t)" "i \<in> owned_ids (mnode ?t q)"
    then show "i \<le> me_nextId ?t" using ids [of q] le [of i q] n by (auto split: if_splits)
  next
    fix a b assume ab: "a < length (me_nodes ?t)" "b < length (me_nodes ?t)" "a \<noteq> b"
    have d: "owned_ids (mnode s a) \<inter> owned_ids (mnode s b) = {}" using ok ab unfolding mesh_ids_ok_def by simp
    have old: "new \<inter> owned_ids (mnode s q) = {}" if "q < length (me_nodes s)" for q
      using le [OF _ that] n(2) by fastforce
    have "owned_ids (mnode ?t a) \<inter> owned_ids (mnode ?t b)
        \<subseteq> (owned_ids (mnode s a) \<union> (if a = p then new else {})) \<inter> (owned_ids (mnode s b) \<union> (if b = p then new else {}))"
      using ids [of a] ids [of b] ab by (intro Int_mono) simp_all
    also have "\<dots> = {}" using d old [of a] old [of b] ab by auto
    finally show "owned_ids (mnode ?t a) \<inter> owned_ids (mnode ?t b) = {}" by simp
  qed
qed

lemma mesh_ids_ok_step:
  assumes ok: "mesh_ids_ok s"
  shows "mesh_ids_ok (mesh_step opts wire s e)"
proof (cases e)
  case (OpDone p k outcome)
  then show ?thesis using ok ids_ok_op_done by auto
next
  case (TaskDone p task outcome)
  then show ?thesis using ok by (auto intro!: mesh_ids_ok_upd split: option.split)
next
  case (MeshClock dt)
  then show ?thesis using ok by (simp add: mesh_ids_ok_def mnode_def)
next
  case (LeaderIs p b)
  then show ?thesis using ok by (auto intro!: mesh_ids_ok_upd)
qed (use ok in \<open>auto intro!: mesh_ids_ok_upd\<close>)

lemma mesh_ids_ok_new: "mesh_ids_ok (mesh_of config)"
  by (auto simp: mesh_ids_ok_def mesh_of_def new_mesh_def mnode_def new_mesh_node_def owned_ids_def split: prod.splits)

interpretation mesh_ids: event_system "mesh_of config" "mesh_step opts wire" mesh_ids_ok
  by unfold_locales (auto intro: mesh_ids_ok_new mesh_ids_ok_step)

text \<open>C36. Instance ids are never shared: in every reachable state two services have different instance ids, unless they have
  none, and a message published on an instance channel reaches the inbox of at most one service.\<close>

theorem instance_ids_unique:
  assumes "p < length config" "q < length config" "p \<noteq> q"
  shows "let s = run_events (mesh_step opts wire) (mesh_of config) es in
     (ms_instanceId (mnode s p) \<noteq> 0 \<longrightarrow> ms_instanceId (mnode s p) \<noteq> ms_instanceId (mnode s q))
   \<and> (ms_inbox (mnode (redis_publish (InstanceChannel i) m s) p) = ms_inbox (mnode s p)
    \<or> ms_inbox (mnode (redis_publish (InstanceChannel i) m s) q) = ms_inbox (mnode s q))"
proof -
  define s where "s = run_events (mesh_step opts wire) (mesh_of config) es"
  have len: "length (me_nodes s) = length config" by (simp add: s_def mesh_of_def new_mesh_def)
  have ok: "mesh_ids_ok s" unfolding s_def by (rule mesh_ids.reachable_holds)
  have d: "owned_ids (mnode s p) \<inter> owned_ids (mnode s q) = {}" using ok assms len unfolding mesh_ids_ok_def by simp
  have box: "ms_inbox (mnode (redis_publish (InstanceChannel i) m s) r) = ms_inbox (mnode s r)"
    if "i \<notin> owned_ids (mnode s r)" "r < length config" for r
  proof -
    have f: "filter (listens (InstanceChannel i)) (ms_subscriptions (mnode s r)) = []"
      using that(1) by (force simp: owned_ids_def filter_empty_conv)
    show ?thesis using that(2) len f by (simp add: redis_publish_def mnode_def)
  qed
  have "ms_instanceId (mnode s p) \<noteq> 0 \<Longrightarrow> ms_instanceId (mnode s p) \<noteq> ms_instanceId (mnode s q)"
    using d by (auto simp: owned_ids_def)
  then show ?thesis unfolding s_def [symmetric] Let_def using d box assms by blast
qed

theorem instance_ids_unique_witness:
  "0 < length demo_config \<and> 1 < length demo_config
   \<and> (let s = demo_mesh_run demo_requests in
      ms_instanceId (mnode s 0) = 1 \<and> ms_instanceId (mnode s 1) = 2 \<and> ms_instanceId (mnode s 0) \<noteq> ms_instanceId (mnode s 1))"
proof -
  have c: "0 < length demo_config" "1 < length demo_config" by (simp_all add: demo_config_def)
  have i: "ms_instanceId (mnode (demo_mesh_run demo_requests) 0) = 1" "ms_instanceId (mnode (demo_mesh_run demo_requests) 1) = 2"
    by code_simp+
  show ?thesis using instance_ids_unique [OF c, of demo_options Inr demo_requests 2 MInvalid] c i by (simp add: Let_def)
qed

section \<open>A request and its response\<close>

lemma mnode_publish:
  "q < length (me_nodes s) \<Longrightarrow> mnode (redis_publish ch m s) q
     = (mnode s q)\<lparr>ms_inbox := ms_inbox (mnode s q) @ replicate (length (filter (listens ch) (ms_subscriptions (mnode s q)))) (ch, m)\<rparr>"
  by (simp add: redis_publish_def mnode_def)

lemma length_publish [simp]: "length (me_nodes (redis_publish ch m s)) = length (me_nodes s)"
  by (simp add: redis_publish_def)

text \<open>The number of connections on which a service hears an instance channel.\<close>

definition hears :: "'d mesh_node \<Rightarrow> nat \<Rightarrow> nat" where
  "hears n i = length (filter (listens (InstanceChannel i)) (ms_subscriptions n))"

text \<open>A service that runs, has no call of Redis open, no handler running and no message waiting, and hears its own channel.\<close>

definition idle_node :: "'d mesh_node \<Rightarrow> bool" where
  "idle_node n \<longleftrightarrow> ms_running n \<and> ms_ops n = [] \<and> ms_tasks n = [] \<and> ms_inbox n = [] \<and> hears n (ms_instanceId n) = 1"

lemma publish_done:
  assumes p: "p < length (me_nodes s)" and ops: "ms_ops (mnode s p) = [op]" and op: "op = Publish (InstanceChannel i) m \<or> op = PublishRequest r h (InstanceChannel i) m"
    and q: "q < length (me_nodes s)"
  shows "mnode (mesh_step opts wire s (OpDone p 0 Replied)) q
       = (let n = (if q = p then (mnode s p)\<lparr>ms_ops := []\<rparr> else mnode s q) in n\<lparr>ms_inbox := ms_inbox n @ replicate (hears n i) (InstanceChannel i, m)\<rparr>)"
proof -
  have "op_ready (mnode s p) 0" using ops by (simp add: op_ready_def Let_def)
  moreover have "op_hset op hostname t = t" for hostname and t :: "'a mesh" using op by (auto simp: op_hset_def)
  moreover have "op_execute opts op t = (NoValue, redis_publish (InstanceChannel i) m t)" for t using op by auto
  moreover have "op_continue op NoValue n = n" for n using op by auto
  ultimately show ?thesis
    using p q ops by (auto simp: op_done_def Let_def mnode_mupd mnode_publish hears_def)
qed

lemma me_now_publish_done [simp]: "me_now (redis_publish ch m s) = me_now s"
  by (simp add: redis_publish_def)

lemma request_leg:
  assumes pq: "p < length (me_nodes s)" "q < length (me_nodes s)" "p \<noteq> q" and ok: "mesh_ok s" and ids: "mesh_ids_ok s"
    and idle: "idle_node (mnode s p)" "idle_node (mnode s q)" and iq: "ms_instanceId (mnode s q) \<noteq> 0"
    and r: "fresh_request_id s r" and w: "wire data = Inr d"
  shows "let t = run_events (mesh_step opts wire) s [CallInvoke p (ms_instanceId (mnode s q)) type data timeoutMs r, OpDone p 0 Replied, Deliver q] in
     mnode t q = handleRequestMessage r (ms_instanceId (mnode s p)) type d (mnode s q)
   \<and> idle_node (mnode t p) \<and> ms_instanceId (mnode t p) = ms_instanceId (mnode s p) \<and> ms_subscriptions (mnode t p) = ms_subscriptions (mnode s p)
   \<and> jhas (ms_pending (mnode t p)) r \<and> r \<notin> set (mesh_settled_ids (mnode t p))"
proof -
  let ?i = "ms_instanceId (mnode s q)"
  define s1 where "s1 = mesh_step opts wire s (CallInvoke p ?i type data timeoutMs r)"
  define s2 where "s2 = mesh_step opts wire s1 (OpDone p 0 Replied)"
  have d: "owned_ids (mnode s p) \<inter> owned_ids (mnode s q) = {}" using ids pq unfolding mesh_ids_ok_def by blast
  have iq_own: "?i \<in> owned_ids (mnode s q)" using iq by (simp add: owned_ids_def)
  then have ne: "?i \<noteq> ms_instanceId (mnode s p)" using d iq by (auto simp: owned_ids_def)
  have "\<not> listens (InstanceChannel ?i) x" if "x \<in> set (ms_subscriptions (mnode s p))" for x
  proof -
    have "snd x \<in> owned_ids (mnode s p)" using that by (simp add: owned_ids_def)
    moreover have "?i \<notin> owned_ids (mnode s p)" using d iq_own by (auto simp only: disjoint_iff)
    ultimately have "snd x \<noteq> ?i" by metis
    then show ?thesis by (metis listens.simps(1) prod.collapse)
  qed
  then have deaf: "hears (mnode s p) ?i = 0" by (simp add: hears_def)
  define P where "P = \<lparr>pr_timer = ms_handles (mnode s p), pr_type = type, pr_targetInstanceId = ?i, pr_timeoutMs = nullish timeoutMs (mo_requestTimeoutMs opts)\<rparr>"
  define m where "m = MRequest r (ms_instanceId (mnode s p)) type d (Some (nullish timeoutMs (mo_requestTimeoutMs opts)))"
  have p1: "mnode s1 p = mesh_invoke opts wire (me_now s) ?i type data timeoutMs r (mnode s p)" "mnode s1 q = mnode s q"
    using pq r by (simp_all add: s1_def mnode_mupd)
  have n1: "ms_ops (mnode s1 p) = [PublishRequest r (ms_handles (mnode s p)) (InstanceChannel ?i) m]"
    "ms_running (mnode s1 p)" "ms_tasks (mnode s1 p) = []" "ms_inbox (mnode s1 p) = []" "ms_instanceId (mnode s1 p) = ms_instanceId (mnode s p)"
    "ms_subscriptions (mnode s1 p) = ms_subscriptions (mnode s p)" "jget (ms_pending (mnode s1 p)) r = Some P" "mesh_settled_ids (mnode s1 p) = mesh_settled_ids (mnode s p)"
    unfolding p1(1) using idle(1) ne w
    by (simp_all add: idle_node_def mesh_invoke_def Let_def arm_timer_def mesh_add_op_def mesh_emit_def m_def P_def mesh_settled_ids_def map_filter_append map_filter_simps)
  have len: "length (me_nodes s1) = length (me_nodes s)" "length (me_nodes s2) = length (me_nodes s)" by (simp_all add: s1_def s2_def)
  have p2: "mnode s2 a = (let n = (if a = p then (mnode s1 p)\<lparr>ms_ops := []\<rparr> else mnode s1 a) in n\<lparr>ms_inbox := ms_inbox n @ replicate (hears n ?i) (InstanceChannel ?i, m)\<rparr>)"
    if "a < length (me_nodes s)" for a
    unfolding s2_def by (rule publish_done [OF _ n1(1)]) (use pq that len in auto)
  have "hears ((mnode s1 p)\<lparr>ms_ops := []\<rparr>) ?i = 0" using deaf n1 by (simp add: hears_def)
  then have q2: "mnode s2 p = (mnode s1 p)\<lparr>ms_ops := [], ms_inbox := []\<rparr>"
    using p2 [of p] pq n1 by (simp add: Let_def)
  have "mnode s2 q = (mnode s q)\<lparr>ms_inbox := [(InstanceChannel ?i, m)]\<rparr>"
    using p2 [of q] pq p1(2) idle(2) by (simp add: Let_def idle_node_def)
  then have "deliver_next (me_now s2) (mnode s2 q) = handle_mesh_message (me_now s2) m ((mnode s q)\<lparr>ms_inbox := []\<rparr>)"
    by (simp add: deliver_next_def)
  moreover have "(mnode s q)\<lparr>ms_inbox := []\<rparr> = mnode s q" using idle(2) same_inbox [of "mnode s q"] by (simp add: idle_node_def)
  ultimately have dq: "deliver_next (me_now s2) (mnode s2 q) = handleRequestMessage r (ms_instanceId (mnode s p)) type d (mnode s q)"
    using idle(2) by (simp add: handle_mesh_message_def m_def idle_node_def)
  have "r \<notin> set (mesh_settled_ids (mnode s p))"
  proof -
    have "mesh_requests_ok (mnode s p)" using ok pq by (simp add: mesh_ok_def nodes_all_def)
    then show ?thesis using fresh_not_invoked [OF r pq(1)] unfolding mesh_requests_ok_def by blast
  qed
  then have settled: "r \<notin> set (mesh_settled_ids (mnode s2 p))" unfolding q2 using n1(8) by (simp add: mesh_settled_ids_def)
  define t where "t = mesh_step opts wire s2 (Deliver q)"
  have t: "mnode t q = handleRequestMessage r (ms_instanceId (mnode s p)) type d (mnode s q)" "mnode t p = mnode s2 p"
    using pq len dq by (simp_all add: t_def mnode_mupd)
  have run: "run_events (mesh_step opts wire) s [CallInvoke p ?i type data timeoutMs r, OpDone p 0 Replied, Deliver q] = t"
    by (simp only: run_events_simps t_def s2_def s1_def)
  have "idle_node (mnode s2 p)" unfolding q2 using n1 idle(1) by (simp add: idle_node_def hears_def)
  moreover have "ms_instanceId (mnode s2 p) = ms_instanceId (mnode s p)" "ms_subscriptions (mnode s2 p) = ms_subscriptions (mnode s p)"
    "jhas (ms_pending (mnode s2 p)) r" unfolding q2 using n1 by simp_all
  ultimately show ?thesis unfolding run Let_def t using settled by blast
qed

lemma response_leg:
  assumes pq: "p < length (me_nodes t)" "q < length (me_nodes t)" "p \<noteq> q"
    and idle: "idle_node (mnode t p)" and ops: "ms_ops (mnode t q) = [Publish (InstanceChannel (ms_instanceId (mnode t p))) (MResponse r e v)]"
    and pend: "jhas (ms_pending (mnode t p)) r" "r \<notin> set (mesh_settled_ids (mnode t p))"
  shows "ms_log (mnode (run_events (mesh_step opts wire) t [OpDone q 0 Replied, Deliver p]) p) = ms_log (mnode t p) @ [response_outcome r e v]"
proof -
  define u where "u = mesh_step opts wire t (OpDone q 0 Replied)"
  have u: "mnode u p = (mnode t p)\<lparr>ms_inbox := [(InstanceChannel (ms_instanceId (mnode t p)), MResponse r e v)]\<rparr>"
    using publish_done [OF pq(2) ops, of "ms_instanceId (mnode t p)" "MResponse r e v" undefined undefined p opts wire] pq idle
    by (simp add: u_def Let_def idle_node_def)
  obtain P where P: "jget (ms_pending (mnode t p)) r = Some P" using pend(1) by auto
  have "deliver_next (me_now u) (mnode u p) = handleResponseMessage r e v ((mnode t p)\<lparr>ms_inbox := []\<rparr>)"
    using idle by (simp add: u deliver_next_def handle_mesh_message_def idle_node_def)
  also have "\<dots> = finish_request r (pr_timer P) (response_outcome r e v) ((mnode t p)\<lparr>ms_inbox := []\<rparr>)"
    using P by (simp add: handleResponseMessage_def finish_request_def Let_def clear_timer_def)
  finally have "ms_log (deliver_next (me_now u) (mnode u p)) = ms_log (mnode t p) @ [response_outcome r e v]"
    using pend(2) by (simp add: finish_request_def mesh_settle_def list_ex_settles mesh_emit_def clear_timer_def mesh_settled_ids_def)
  moreover have "length (me_nodes u) = length (me_nodes t)" by (simp only: u_def length_step)
  ultimately have "ms_log (mnode (mesh_step opts wire u (Deliver p)) p) = ms_log (mnode t p) @ [response_outcome r e v]"
    using pq(1) by (simp add: mnode_mupd)
  then show ?thesis by (simp only: run_events_simps u_def)
qed

text \<open>C37. Between two idle services a request makes its way and back: the handler is called with the data as it arrives over the
  wire, and the request settles with what the handler answered, as it arrives, or with its error; without a handler it
  is rejected with the type that has none.\<close>

theorem mesh_request_roundtrip:
  assumes "p < length config" "q < length config" "p \<noteq> q" "idle_node (mnode s p)" "idle_node (mnode s q)" "ms_instanceId (mnode s q) \<noteq> 0"
    "fresh_request_id s r" "wire data = Inr d"
    and s: "s = run_events (mesh_step opts wire) (mesh_of config) es"
  shows "let n = mnode s q; request = [CallInvoke p (ms_instanceId n) type data timeoutMs r, OpDone p 0 Replied, Deliver q];
             result = (\<lambda>es. last (ms_log (mnode (run_events (mesh_step opts wire) s es) p)))
         in if type \<in> set (ms_handlers n)
            then last (ms_log (mnode (run_events (mesh_step opts wire) s request) q)) = HandlerCalled (ms_handles n) type d
               \<and> result (request @ [TaskDone q (ms_handles n) outcome, OpDone q 0 Replied, Deliver p])
                 = (case (case outcome of Inl e \<Rightarrow> Inl e | Inr v \<Rightarrow> wire v) of Inl e \<Rightarrow> response_outcome r (Some e) None | Inr v \<Rightarrow> MeshResolved r (Some v))
            else result (request @ [OpDone q 0 Replied, Deliver p]) = MeshRejected r (MeshNoHandlerError type)"
proof -
  have len: "length (me_nodes s) = length config" by (simp add: s mesh_of_def new_mesh_def)
  have ok: "mesh_ok s" "mesh_ids_ok s" unfolding s by (rule mesh_requests.reachable_holds, rule mesh_ids.reachable_holds)
  define request where "request = [CallInvoke p (ms_instanceId (mnode s q)) type data timeoutMs r, OpDone p 0 Replied, Deliver q]"
  define t where "t = run_events (mesh_step opts wire) s request"
  have leg: "mnode t q = handleRequestMessage r (ms_instanceId (mnode s p)) type d (mnode s q)" "idle_node (mnode t p)"
    "ms_instanceId (mnode t p) = ms_instanceId (mnode s p)" "jhas (ms_pending (mnode t p)) r" "r \<notin> set (mesh_settled_ids (mnode t p))"
    using request_leg [of p s q r wire data d opts type timeoutMs] assms len ok unfolding t_def request_def Let_def by auto
  have lt: "length (me_nodes t) = length config" by (simp add: t_def len)
  have ops: "ms_ops (mnode s q) = []" using assms(5) by (simp add: idle_node_def)
  have goal: "last (ms_log (mnode (run_events (mesh_step opts wire) t (es @ [OpDone q 0 Replied, Deliver p])) p)) = response_outcome r e v"
    if "run_events (mesh_step opts wire) t es = t'" "mnode t' p = mnode t p" "length (me_nodes t') = length config"
      "ms_ops (mnode t' q) = [Publish (InstanceChannel (ms_instanceId (mnode s p))) (MResponse r e v)]" for es t' e v
    using response_leg [of p t' q r e v opts wire] that assms(1-3) leg unfolding run_events_append by (metis last_snoc)
  show ?thesis
  proof (cases "type \<in> set (ms_handlers (mnode s q))")
    case True
    define h where "h = ms_handles (mnode s q)"
    have log: "last (ms_log (mnode t q)) = HandlerCalled h type d"
      unfolding leg(1) using True by (simp add: handleRequestMessage_def Let_def mesh_emit_def h_def)
    define sent where "sent = (case outcome of Inl e \<Rightarrow> Inl e | Inr v \<Rightarrow> wire v)"
    define e where "e = (case sent of Inl e \<Rightarrow> Some e | Inr _ \<Rightarrow> None)"
    define v where "v = (case sent of Inl _ \<Rightarrow> None | Inr v \<Rightarrow> Some v)"
    define u where "u = mesh_step opts wire t (TaskDone q h outcome)"
    have "mnode u q = handler_done wire h \<lparr>rh_requestId = r, rh_sender = ms_instanceId (mnode s p), rh_interval = h\<rparr> outcome (mnode t q)"
      using assms(2,5) lt by (simp add: u_def mnode_mupd leg(1) handleRequestMessage_def Let_def True mesh_emit_def h_def idle_node_def)
    then have "ms_ops (mnode u q) = [Publish (InstanceChannel (ms_instanceId (mnode s p))) (MResponse r e v)]"
      using ops True by (simp add: handler_done_def Let_def mesh_add_op_def clear_mesh_interval_def leg(1) handleRequestMessage_def mesh_emit_def
          e_def v_def sent_def split: sum.split)
    moreover have "mnode u p = mnode t p" "length (me_nodes u) = length config"
      using assms(1,3) lt by (simp_all add: u_def mnode_mupd)
    ultimately have "last (ms_log (mnode (run_events (mesh_step opts wire) t ([TaskDone q h outcome] @ [OpDone q 0 Replied, Deliver p])) p)) = response_outcome r e v"
      by (intro goal [of _ u]) (simp_all add: u_def)
    moreover have "response_outcome r e v = (case sent of Inl e \<Rightarrow> response_outcome r (Some e) None | Inr v \<Rightarrow> MeshResolved r (Some v))"
      by (simp add: e_def v_def response_outcome_def split: sum.split)
    ultimately show ?thesis
      using True log unfolding Let_def request_def [symmetric] h_def [symmetric] run_events_append t_def [symmetric] sent_def [symmetric] by simp
  next
    case False
    have "ms_ops (mnode t q) = [Publish (InstanceChannel (ms_instanceId (mnode s p))) (MResponse r (Some (NO_HANDLER_ERROR_PREFIX @ type)) None)]"
      unfolding leg(1) using False ops by (simp add: handleRequestMessage_def mesh_add_op_def)
    then have "last (ms_log (mnode (run_events (mesh_step opts wire) t ([] @ [OpDone q 0 Replied, Deliver p])) p))
        = response_outcome r (Some (NO_HANDLER_ERROR_PREFIX @ type)) None"
      by (intro goal [of _ t]) (simp_all add: lt)
    also have "\<dots> = MeshRejected r (MeshNoHandlerError type)"
      by (simp add: response_outcome_def)
    finally show ?thesis
      using False unfolding Let_def request_def [symmetric] run_events_append t_def [symmetric] by simp
  qed
qed

theorem mesh_request_roundtrip_witness:
  "let s = demo_mesh_run (start_events 0 @ start_events 1) in
     idle_node (mnode s 0) \<and> idle_node (mnode s 1) \<and> ms_instanceId (mnode s 1) = 2
   \<and> last (ms_log (mnode (run_events (mesh_step demo_options Inr) s [CallInvoke 0 2 ''echo'' ''x'' None ''r'', OpDone 0 0 Replied, Deliver 1,
        TaskDone 1 (ms_handles (mnode s 1)) (Inr ''y''), OpDone 1 0 Replied, Deliver 0]) 0)) = MeshResolved ''r'' (Some ''y'')"
proof -
  define s where "s = demo_mesh_run (start_events 0 @ start_events 1)"
  have c: "0 < length demo_config" "1 < length demo_config" "(0::nat) \<noteq> 1" by (simp_all add: demo_config_def)
  have i: "idle_node (mnode s 0)" "idle_node (mnode s 1)" "ms_instanceId (mnode s 1) \<noteq> 0" "fresh_request_id s ''r''"
    "''echo'' \<in> set (ms_handlers (mnode s 1))" "ms_instanceId (mnode s 1) = 2"
    unfolding s_def by code_simp+
  have w: "(Inr :: string \<Rightarrow> (string, string) result) ''x'' = Inr ''x''" by simp
  note R = mesh_request_roundtrip [OF c i(1-4) w s_def, of "''echo''" None "Inr ''y''", unfolded Let_def, unfolded if_P [OF i(5)] i(6) sum.case append.simps]
  show ?thesis unfolding Let_def s_def [symmetric] using i R by blast
qed

section \<open>Instances that are removed\<close>

lemma deregister_fold:
  "jget (me_heartbeats (fold deregister_instance ids s)) i = (if i \<in> set ids then None else jget (me_heartbeats s) i)"
  by (induction ids arbitrary: s) (auto simp: deregister_instance_def)

lemma set_by_score: "set (by_score z) = fst ` set z"
  by (simp add: by_score_def)

lemma expired_silent:
  assumes "i \<in> set (expired_members ttl s)" "jget (me_heartbeats s) i = Some t" "distinct (map fst (me_heartbeats s))"
  shows "t + ttl \<le> me_now s"
proof -
  obtain b where "(i, b) \<in> set (me_heartbeats s)" "b \<le> me_now s - ttl"
    using assms(1) by (auto simp: expired_members_def set_by_score)
  moreover from this have "b = t" using assms(2,3) by (metis map_of_is_SomeI option.inject)
  ultimately show ?thesis by simp
qed

lemma execute_heartbeats:
  assumes "jget (me_heartbeats s) i = Some t" "jget (me_heartbeats (snd (op_execute opts op s))) i = None" "distinct (map fst (me_heartbeats s))"
  shows "op = StopDeregister i \<or> op = BeatCleanup \<and> t + mo_nodeTtlMs opts \<le> me_now s"
proof (cases "op = BeatCleanup")
  case True
  then have "i \<in> set (expired_members (mo_nodeTtlMs opts) s)"
    using assms by (auto simp: CLEANUP_SCRIPT_def Let_def deregister_fold split: if_splits)
  then show ?thesis using True expired_silent [OF _ assms(1,3)] by blast
next
  case False
  then show ?thesis using assms
    by (cases op) (auto simp: HEARTBEAT_SCRIPT_def DEREGISTER_SCRIPT_def deregister_instance_def redis_publish_def split: if_splits)
qed

lemma heartbeats_more [simp]: "me_heartbeats (mesh_mupd p f s) = me_heartbeats s" "me_heartbeats (op_hset op hostname s) = me_heartbeats s"
  "me_now (mesh_mupd p f s) = me_now s" "me_now (op_hset op hostname s) = me_now s"
  by (simp_all add: mesh_mupd_def) (cases op; simp add: op_hset_def)+

lemma op_done_heartbeats:
  fixes s :: "'d mesh"
  shows
  "\<exists>f. me_heartbeats (op_done opts p k outcome s) = me_heartbeats s
     \<or> me_heartbeats (op_done opts p k outcome s) = me_heartbeats (snd (op_execute opts (ms_ops (mnode s p) ! k) (mesh_mupd p f s)))"
proof -
  define g where "g = (\<lambda>n :: 'd mesh_node. n\<lparr>ms_ops := take k (ms_ops n) @ drop (Suc k) (ms_ops n)\<rparr>)"
  have "me_heartbeats (op_done opts p k outcome s) = me_heartbeats s
     \<or> me_heartbeats (op_done opts p k outcome s) = me_heartbeats (snd (op_execute opts (ms_ops (mnode s p) ! k) (mesh_mupd p g s)))"
    by (cases outcome) (auto simp: op_done_def Let_def g_def split: prod.split)
  then show ?thesis by blast
qed

lemma distinct_heartbeats:
  assumes "distinct (map fst (me_heartbeats s))"
  shows "distinct (map fst (me_heartbeats (mesh_step opts wire s e)))"
proof -
  have fold: "distinct (map fst (me_heartbeats t)) \<Longrightarrow> distinct (map fst (me_heartbeats (fold deregister_instance ids t)))" for ids and t :: "'a mesh"
    by (induction ids arbitrary: t) (auto simp: deregister_instance_def distinct_jdelete)
  have "distinct (map fst (me_heartbeats (snd (op_execute opts op t))))" if "distinct (map fst (me_heartbeats t))" for op and t :: "'a mesh"
    using that by (cases op) (auto simp: HEARTBEAT_SCRIPT_def DEREGISTER_SCRIPT_def deregister_instance_def CLEANUP_SCRIPT_def Let_def
        redis_publish_def distinct_jset distinct_jdelete intro: fold)
  then show ?thesis
    using assms op_done_heartbeats [of opts _ _ _ s] by (cases e) (auto, metis heartbeats_more(1))
qed

lemma distinct_heartbeats_new: "distinct (map fst (me_heartbeats (mesh_of config)))"
  by (simp add: mesh_of_def new_mesh_def)

interpretation mesh_heartbeats: event_system "mesh_of config" "mesh_step opts wire" "\<lambda>s. distinct (map fst (me_heartbeats s))"
  by unfold_locales (auto intro: distinct_heartbeats_new distinct_heartbeats)

text \<open>C38. An instance that has a heartbeat disappears from the mesh in two ways only: a service deregisters it in \<open>stop()\<close>, or the
  cleanup of a leader removes it at least the time to live after its last heartbeat.\<close>

theorem instance_removed_only_when_silent:
  assumes "s = run_events (mesh_step opts wire) (mesh_of config) es" "jget (me_heartbeats s) i = Some t" "jget (me_heartbeats (mesh_step opts wire s e)) i = None"
  shows "\<exists>p k outcome. e = OpDone p k outcome
     \<and> (ms_ops (mnode s p) ! k = StopDeregister i \<or> ms_ops (mnode s p) ! k = BeatCleanup \<and> t + mo_nodeTtlMs opts \<le> me_now s)"
proof -
  have d: "distinct (map fst (me_heartbeats s))" unfolding assms(1) by (rule mesh_heartbeats.reachable_holds)
  show ?thesis
  proof (cases e)
    case (OpDone p k outcome)
    then have n: "jget (me_heartbeats (op_done opts p k outcome s)) i = None" using assms by (auto split: if_splits)
    with op_done_heartbeats [of opts p k outcome s] assms(2) obtain f where
      "jget (me_heartbeats (snd (op_execute opts (ms_ops (mnode s p) ! k) (mesh_mupd p f s)))) i = None" by auto
    then have "ms_ops (mnode s p) ! k = StopDeregister i \<or> ms_ops (mnode s p) ! k = BeatCleanup \<and> t + mo_nodeTtlMs opts \<le> me_now (mesh_mupd p f s)"
      by (intro execute_heartbeats) (use assms(2) d in simp_all)
    then show ?thesis using OpDone by auto
  qed (use assms in \<open>auto split: if_splits\<close>)
qed

definition silent_events :: "string mesh_event list" where
  "silent_events = start_events 0 @ start_events 1 @ [LeaderIs 0 True, MeshClock 20, IntervalFires 0 1, OpDone 0 0 Replied]"

theorem instance_removed_only_when_silent_witness:
  "let s = demo_mesh_run silent_events in
     jget (me_heartbeats s) 2 = Some 0 \<and> jget (me_heartbeats (mesh_step demo_options Inr s (OpDone 0 0 Replied))) 2 = None
   \<and> (\<exists>p k outcome. OpDone 0 0 Replied = (OpDone p k outcome :: string mesh_event) \<and> (ms_ops (mnode s p) ! k = StopDeregister 2
        \<or> ms_ops (mnode s p) ! k = BeatCleanup \<and> 0 + mo_nodeTtlMs demo_options \<le> me_now s))"
proof -
  define s where "s = demo_mesh_run silent_events"
  have h: "jget (me_heartbeats s) 2 = Some 0" "jget (me_heartbeats (mesh_step demo_options Inr s (OpDone 0 0 Replied))) 2 = None"
    unfolding s_def by code_simp+
  show ?thesis using instance_removed_only_when_silent [OF s_def h] h unfolding s_def [symmetric] Let_def by blast
qed

section \<open>Inputs on which the code does not do what it means to\<close>

text \<open>An instance that was silent and removed, and then beats again, is listed without its host name.\<close>

lemma revived_instance_has_no_hostname:
  "let s = demo_mesh_run (silent_events @ [OpDone 0 0 Replied, IntervalFires 1 1, OpDone 1 0 Replied]) in
     map_option (map (\<lambda>i. (mi_instanceId i, mi_hostname i))) (getNodes (mnode s 0) s) = Some [(1, ''host1''), (2, ''unknown'')]"
  by code_simp

text \<open>A handler that never ends keeps the request alive: each of its heartbeats starts the timeout anew.\<close>

definition hung_round :: "string mesh_event list" where
  "hung_round = [MeshClock 8, IntervalFires 1 2, OpDone 1 0 Replied, Deliver 0]"

lemma hung_handler_never_times_out:
  "let s = demo_mesh_run (start_events 0 @ start_events 1 @ [CallInvoke 0 2 ''echo'' ''x'' (Some 10) ''r'', OpDone 0 0 Replied, Deliver 1]
         @ hung_round @ hung_round @ hung_round)
   in me_now s = 24 \<and> jhas (ms_pending (mnode s 0)) ''r'' \<and> map rt_deadline (ms_timers (mnode s 0)) = [34]"
  by code_simp

text \<open>A \<open>stop()\<close> during a \<open>start()\<close> leaves a service that runs without an instance id and hears no channel.\<close>

lemma stopped_while_starting:
  "let s = demo_mesh_run [CallStart 0, OpDone 0 0 Replied, OpDone 0 0 Replied, CallStop 0, OpDone 0 0 Replied, OpDone 0 0 Replied,
         OpDone 0 0 Replied, OpDone 0 0 Replied, OpDone 0 0 Replied]
   in ms_running (mnode s 0) \<and> ms_instanceId (mnode s 0) = 0 \<and> ms_subscriptions (mnode s 0) = []"
  by code_simp

text \<open>The error of a handler is taken for a missing handler when its message begins like one.\<close>

lemma error_text_is_a_protocol:
  "response_outcome ''r'' (Some ''MESH_NO_HANDLER:x'') None = (MeshRejected ''r'' (MeshNoHandlerError ''x'') :: string mesh_output)"
  by code_simp

end
