(* ===== verification/MeshRegistry.thy ===== *)
theory MeshRegistry
  imports Prelude
begin

text \<open>
  The registry of the clients of a mesh, \<open>src/src/services/mesh-client/mesh-client-redis-registry.ts\<close>: which node
  holds the connection of which client.  Redis keeps a hash of the clients and, for every node, the set of the
  clients it holds; five scripts change them, each atomic.  Both kinds of keys expire a day after a script wrote them.

  A value of the hash is a record; \<open>JSON.stringify\<close> and the way a value through Lua's \<open>cjson\<close> are the parameters
  \<open>stringify\<close> and \<open>recode\<close>.  \<open>None\<close> as metadata is \<open>undefined\<close>, for which the code writes \<open>null\<close>.  The sets are
  lists without repetition, in the order in which Redis happens to return them.
\<close>

section \<open>What Redis keeps\<close>

definition KEY_TTL_SECONDS :: int where
  "KEY_TTL_SECONDS = 86400"

datatype registration_state = Active | Pending

record 'm registration =
  rg_nodeId :: nat
  rg_connectedAt :: int
  rg_state :: "registration_state option"
  rg_hasMetadata :: "bool option"
  rg_metadata :: "'m option"

record 'm client_store =
  cs_now :: int
  cs_clients :: "(string, 'm registration) jsmap"
  cs_clientsExpire :: int
  cs_nodes :: "(nat, string list \<times> int) jsmap"

definition new_store :: "'m client_store" where
  "new_store = \<lparr>cs_now = 0, cs_clients = [], cs_clientsExpire = 0, cs_nodes = []\<rparr>"

definition cs_sets :: "'m client_store \<Rightarrow> nat \<Rightarrow> string list" where
  "cs_sets s n = (case jget (cs_nodes s) n of Some (members, _) \<Rightarrow> members | None \<Rightarrow> [])"

definition cs_setExpire :: "'m client_store \<Rightarrow> nat \<Rightarrow> int" where
  "cs_setExpire s n = (case jget (cs_nodes s) n of Some (_, expire) \<Rightarrow> expire | None \<Rightarrow> 0)"

definition clients_hash :: "'m client_store \<Rightarrow> (string, 'm registration) jsmap" where
  "clients_hash s = (if cs_now s < cs_clientsExpire s then cs_clients s else [])"

definition node_set :: "'m client_store \<Rightarrow> nat \<Rightarrow> string list" where
  "node_set s n = (if cs_now s < cs_setExpire s n then cs_sets s n else [])"

text \<open>The commands the scripts use; \<open>hset\<close> and \<open>sadd\<close> come with the \<open>expire\<close> of their key.\<close>

definition hset_expire :: "string \<Rightarrow> 'm registration \<Rightarrow> 'm client_store \<Rightarrow> 'm client_store" where
  "hset_expire clientId v s =
     s\<lparr>cs_clients := jset clientId v (clients_hash s), cs_clientsExpire := cs_now s + 1000 * KEY_TTL_SECONDS\<rparr>"

definition hdel :: "string \<Rightarrow> 'm client_store \<Rightarrow> 'm client_store" where
  "hdel clientId s = s\<lparr>cs_clients := jdelete clientId (clients_hash s)\<rparr>"

definition sadd_expire :: "nat \<Rightarrow> string \<Rightarrow> 'm client_store \<Rightarrow> 'm client_store" where
  "sadd_expire n clientId s =
     s\<lparr>cs_nodes := jset n (set_add clientId (node_set s n), cs_now s + 1000 * KEY_TTL_SECONDS) (cs_nodes s)\<rparr>"

definition srem :: "nat \<Rightarrow> string \<Rightarrow> 'm client_store \<Rightarrow> 'm client_store" where
  "srem n clientId s =
     (if jhas (cs_nodes s) n then s\<lparr>cs_nodes := jset n (filter (\<lambda>c. c \<noteq> clientId) (node_set s n), cs_setExpire s n) (cs_nodes s)\<rparr> else s)"

definition del_set :: "nat \<Rightarrow> 'm client_store \<Rightarrow> 'm client_store" where
  "del_set n s = s\<lparr>cs_nodes := jdelete n (cs_nodes s)\<rparr>"

section \<open>The scripts\<close>

definition REGISTER_SCRIPT :: "string \<Rightarrow> nat \<Rightarrow> 'm option \<Rightarrow> bool \<Rightarrow> int \<Rightarrow> bool \<Rightarrow> registration_state \<Rightarrow> 'm client_store \<Rightarrow> int \<times> 'm client_store" where
  "REGISTER_SCRIPT clientId nodeId metadata hasMetadata connectedAt allowSupersede st s =
     (let value = \<lparr>rg_nodeId = nodeId, rg_connectedAt = connectedAt, rg_state = Some st, rg_hasMetadata = Some hasMetadata, rg_metadata = metadata\<rparr>;
          register = (\<lambda>t. sadd_expire nodeId clientId (hset_expire clientId value t))
      in case jget (clients_hash s) clientId of
           None \<Rightarrow> (-1, register s)
         | Some parsed \<Rightarrow>
             if rg_nodeId parsed \<noteq> nodeId
             then if \<not> allowSupersede then (-2, s)
                  else (int (rg_nodeId parsed), register (srem (rg_nodeId parsed) clientId s))
             else (-1, register s))"

definition ACTIVATE_SCRIPT :: "string \<Rightarrow> nat \<Rightarrow> 'm option \<Rightarrow> bool \<Rightarrow> 'm client_store \<Rightarrow> int \<times> 'm client_store" where
  "ACTIVATE_SCRIPT clientId nodeId metadata hasMetadata s =
     (case jget (clients_hash s) clientId of
        None \<Rightarrow> (0, s)
      | Some parsed \<Rightarrow>
          if rg_nodeId parsed \<noteq> nodeId then (0, s)
          else (1, sadd_expire nodeId clientId (hset_expire clientId
                 \<lparr>rg_nodeId = rg_nodeId parsed, rg_connectedAt = rg_connectedAt parsed, rg_state = Some Active,
                  rg_hasMetadata = Some hasMetadata, rg_metadata = metadata\<rparr> s)))"

definition UNREGISTER_SCRIPT :: "string \<Rightarrow> nat \<Rightarrow> 'm client_store \<Rightarrow> int \<times> 'm client_store" where
  "UNREGISTER_SCRIPT clientId nodeId s =
     (case jget (clients_hash s) clientId of
        None \<Rightarrow> (0, s)
      | Some parsed \<Rightarrow> if rg_nodeId parsed \<noteq> nodeId then (0, s) else (1, srem nodeId clientId (hdel clientId s)))"

definition UPDATE_METADATA_SCRIPT :: "string \<Rightarrow> nat \<Rightarrow> 'm option \<Rightarrow> bool \<Rightarrow> 'm client_store \<Rightarrow> int \<times> 'm client_store" where
  "UPDATE_METADATA_SCRIPT clientId nodeId metadata hasMetadata s =
     (case jget (clients_hash s) clientId of
        None \<Rightarrow> (0, s)
      | Some parsed \<Rightarrow>
          if rg_nodeId parsed \<noteq> nodeId then (0, s)
          else (1, hset_expire clientId
                 \<lparr>rg_nodeId = rg_nodeId parsed, rg_connectedAt = rg_connectedAt parsed,
                  rg_state = Some (nullish (rg_state parsed) Active), rg_hasMetadata = Some hasMetadata, rg_metadata = metadata\<rparr> s))"

definition cleanup_member :: "nat \<Rightarrow> string \<Rightarrow> ('m registration \<times> string) list \<times> 'm client_store \<Rightarrow> ('m registration \<times> string) list \<times> 'm client_store" where
  "cleanup_member nodeId clientId = (\<lambda>(removed, s).
     case jget (clients_hash s) clientId of
       None \<Rightarrow> (removed, s)
     | Some existing \<Rightarrow> if rg_nodeId existing = nodeId then (removed @ [(existing, clientId)], hdel clientId s) else (removed, s))"

definition CLEANUP_NODE_SCRIPT :: "nat \<Rightarrow> 'm client_store \<Rightarrow> ('m registration \<times> string) list \<times> 'm client_store" where
  "CLEANUP_NODE_SCRIPT nodeId s =
     (let (removed, t) = fold (cleanup_member nodeId) (node_set s nodeId) ([], s) in (removed, del_set nodeId t))"

section \<open>The registry\<close>

record 'm registered_client =
  rc_clientId :: string
  rc_nodeId :: nat
  rc_connectedAt :: int
  rc_metadata :: "'m option"

datatype register_result = RegisterOk "nat option" | RegisterConflict "nat option"

text \<open>\<open>stringify\<close> throws, gives \<open>undefined\<close>, or a text that \<open>cjson\<close> decodes and encodes again.\<close>

definition encodeMetadata :: "('m \<Rightarrow> (string, 'm option) result) \<Rightarrow> ('m \<Rightarrow> 'm) \<Rightarrow> 'm option \<Rightarrow> (string, 'm option \<times> bool) result" where
  "encodeMetadata stringify recode metadata =
     (case metadata of
        None \<Rightarrow> Inr (None, False)
      | Some m \<Rightarrow>
          case stringify m of
            Inl e \<Rightarrow> Inl e
          | Inr None \<Rightarrow> Inl ''Mesh client metadata must be JSON-serializable''
          | Inr (Some j) \<Rightarrow> Inr (Some (recode j), True))"

definition parsed_metadata :: "'m registration \<Rightarrow> 'm option" where
  "parsed_metadata r = (if rg_hasMetadata r = Some False then None else rg_metadata r)"

definition parsed_state :: "'m registration \<Rightarrow> registration_state" where
  "parsed_state r = nullish (rg_state r) Active"

text \<open>A conflict is looked up again after the script; \<open>between\<close> is what the other clients of Redis do in the meantime.\<close>

definition registerWithState :: "('m \<Rightarrow> (string, 'm option) result) \<Rightarrow> ('m \<Rightarrow> 'm) \<Rightarrow> ('m client_store \<Rightarrow> 'm client_store)
    \<Rightarrow> string \<Rightarrow> nat \<Rightarrow> 'm option \<Rightarrow> bool \<Rightarrow> registration_state \<Rightarrow> int \<Rightarrow> 'm client_store
    \<Rightarrow> (string, register_result) result \<times> 'm client_store" where
  "registerWithState stringify recode between clientId nodeId metadata allowSupersede st dateNow s =
     (case encodeMetadata stringify recode metadata of
        Inl e \<Rightarrow> (Inl e, s)
      | Inr (m, hasMetadata) \<Rightarrow>
          let (result, s1) = REGISTER_SCRIPT clientId nodeId m hasMetadata dateNow allowSupersede st s
          in if result = -2
             then let s2 = between s1 in (Inr (RegisterConflict (map_option rg_nodeId (jget (clients_hash s2) clientId))), s2)
             else (Inr (RegisterOk (if result \<ge> 0 then Some (nat result) else None)), s1))"

definition activate :: "('m \<Rightarrow> (string, 'm option) result) \<Rightarrow> ('m \<Rightarrow> 'm) \<Rightarrow> string \<Rightarrow> nat \<Rightarrow> 'm option \<Rightarrow> 'm client_store
    \<Rightarrow> (string, bool) result \<times> 'm client_store" where
  "activate stringify recode clientId nodeId metadata s =
     (case encodeMetadata stringify recode metadata of
        Inl e \<Rightarrow> (Inl e, s)
      | Inr (m, hasMetadata) \<Rightarrow> (let (result, s1) = ACTIVATE_SCRIPT clientId nodeId m hasMetadata s in (Inr (result = 1), s1)))"

definition unregister :: "string \<Rightarrow> nat \<Rightarrow> 'm client_store \<Rightarrow> bool \<times> 'm client_store" where
  "unregister clientId nodeId s = (let (result, s1) = UNREGISTER_SCRIPT clientId nodeId s in (result = 1, s1))"

definition updateMetadata :: "('m \<Rightarrow> (string, 'm option) result) \<Rightarrow> ('m \<Rightarrow> 'm) \<Rightarrow> string \<Rightarrow> nat \<Rightarrow> 'm option \<Rightarrow> 'm client_store
    \<Rightarrow> (string, bool) result \<times> 'm client_store" where
  "updateMetadata stringify recode clientId nodeId metadata s =
     (case encodeMetadata stringify recode metadata of
        Inl e \<Rightarrow> (Inl e, s)
      | Inr (m, hasMetadata) \<Rightarrow> (let (result, s1) = UPDATE_METADATA_SCRIPT clientId nodeId m hasMetadata s in (Inr (result = 1), s1)))"

definition toRegisteredClient :: "string \<Rightarrow> 'm registration \<Rightarrow> 'm registered_client option" where
  "toRegisteredClient clientId r =
     (if parsed_state r \<noteq> Active then None
      else Some \<lparr>rc_clientId = clientId, rc_nodeId = rg_nodeId r, rc_connectedAt = rg_connectedAt r, rc_metadata = parsed_metadata r\<rparr>)"

definition getClient :: "string \<Rightarrow> 'm client_store \<Rightarrow> 'm registered_client option" where
  "getClient clientId s = Option.bind (jget (clients_hash s) clientId) (toRegisteredClient clientId)"

definition listClients :: "'m client_store \<Rightarrow> 'm registered_client list" where
  "listClients s = List.map_filter (\<lambda>(clientId, r). toRegisteredClient clientId r) (clients_hash s)"

definition listClientsForNode :: "nat \<Rightarrow> 'm client_store \<Rightarrow> 'm registered_client list" where
  "listClientsForNode nodeId s =
     List.map_filter (\<lambda>clientId. Option.bind (jget (clients_hash s) clientId)
        (\<lambda>r. if rg_nodeId r = nodeId then toRegisteredClient clientId r else None)) (node_set s nodeId)"

definition cleanupNode :: "nat \<Rightarrow> 'm client_store \<Rightarrow> 'm registered_client list \<times> 'm client_store" where
  "cleanupNode nodeId s =
     (let (removed, s1) = CLEANUP_NODE_SCRIPT nodeId s
      in (map (\<lambda>(r, clientId). \<lparr>rc_clientId = clientId, rc_nodeId = rg_nodeId r, rc_connectedAt = rg_connectedAt r,
                                 rc_metadata = parsed_metadata r\<rparr>) removed, s1))"

end
