(* ===== verification/MeshRegistryFacts.thy ===== *)
theory MeshRegistryFacts
  imports MeshRegistry
begin

text \<open>
  What the registry of a mesh keeps, for every sequence of calls and every passage of time: the sets of the nodes
  index the hash, the calls implement an ownership map, and the cleanup of a node returns and removes exactly its
  clients.  The one gap is a set that expires before the hash does, which the last lemmas show.
\<close>

section \<open>Commands\<close>

named_theorems registry_simps

lemma KEY_TTL_pos [simp]: "0 < KEY_TTL_SECONDS" "0 \<le> KEY_TTL_SECONDS"
  by (simp_all add: KEY_TTL_SECONDS_def)

lemma cs_sets_update [simp]:
  "cs_sets (s\<lparr>cs_now := t\<rparr>) = cs_sets s" "cs_setExpire (s\<lparr>cs_now := t\<rparr>) = cs_setExpire s"
  "cs_sets (s\<lparr>cs_clients := h\<rparr>) = cs_sets s" "cs_setExpire (s\<lparr>cs_clients := h\<rparr>) = cs_setExpire s"
  "cs_sets (s\<lparr>cs_clientsExpire := t\<rparr>) = cs_sets s" "cs_setExpire (s\<lparr>cs_clientsExpire := t\<rparr>) = cs_setExpire s"
  by (simp_all add: cs_sets_def cs_setExpire_def fun_eq_iff)

lemma hset_expire_views [registry_simps]:
  "clients_hash (hset_expire c v s) = jset c v (clients_hash s)"
  "node_set (hset_expire c v s) n = node_set s n"
  "cs_now (hset_expire c v s) = cs_now s"
  "cs_setExpire (hset_expire c v s) = cs_setExpire s"
  "cs_clientsExpire (hset_expire c v s) = cs_now s + 1000 * KEY_TTL_SECONDS"
  by (simp_all add: hset_expire_def clients_hash_def node_set_def)

lemma hdel_views [registry_simps]:
  "clients_hash (hdel c s) = jdelete c (clients_hash s)"
  "node_set (hdel c s) n = node_set s n"
  "cs_now (hdel c s) = cs_now s"
  "cs_setExpire (hdel c s) = cs_setExpire s"
  "cs_clientsExpire (hdel c s) = cs_clientsExpire s"
  by (simp_all add: hdel_def clients_hash_def node_set_def jdelete_def)

lemma sadd_expire_views [registry_simps]:
  "clients_hash (sadd_expire n c s) = clients_hash s"
  "node_set (sadd_expire n c s) m = (if m = n then set_add c (node_set s n) else node_set s m)"
  "cs_now (sadd_expire n c s) = cs_now s"
  "cs_setExpire (sadd_expire n c s) m = (if m = n then cs_now s + 1000 * KEY_TTL_SECONDS else cs_setExpire s m)"
  "cs_clientsExpire (sadd_expire n c s) = cs_clientsExpire s"
  by (auto simp: sadd_expire_def clients_hash_def node_set_def cs_sets_def cs_setExpire_def fun_eq_iff split: option.splits)

lemma srem_views [registry_simps]:
  "clients_hash (srem n c s) = clients_hash s"
  "node_set (srem n c s) m = (if m = n then filter (\<lambda>x. x \<noteq> c) (node_set s n) else node_set s m)"
  "cs_now (srem n c s) = cs_now s"
  "cs_setExpire (srem n c s) = cs_setExpire s"
  "cs_clientsExpire (srem n c s) = cs_clientsExpire s"
  by (auto simp: srem_def clients_hash_def node_set_def cs_sets_def cs_setExpire_def fun_eq_iff split: option.splits)

lemma del_set_views [registry_simps]:
  "clients_hash (del_set n s) = clients_hash s"
  "node_set (del_set n s) m = (if m = n then [] else node_set s m)"
  "cs_now (del_set n s) = cs_now s"
  "cs_setExpire (del_set n s) m = (if m = n then 0 else cs_setExpire s m)"
  "cs_clientsExpire (del_set n s) = cs_clientsExpire s"
  by (auto simp: del_set_def clients_hash_def node_set_def cs_sets_def cs_setExpire_def fun_eq_iff split: option.splits)

text \<open>The loop of the cleanup script.\<close>

lemma map_filter_cong: "(\<And>x. x \<in> set xs \<Longrightarrow> f x = g x) \<Longrightarrow> List.map_filter f xs = List.map_filter g xs"
  by (induction xs) (simp_all add: map_filter_simps split: option.split)

lemma map_filter_ids: "(\<And>x y. f x = Some y \<Longrightarrow> g y = x) \<Longrightarrow> map g (List.map_filter f xs) = filter (\<lambda>x. f x \<noteq> None) xs"
  by (induction xs) (auto simp: map_filter_simps split: option.split)

lemma cleanup_fold:
  "distinct ids \<Longrightarrow> fold (cleanup_member n) ids (rs, s) = (rs', s') \<Longrightarrow>
     (\<forall>c. jget (clients_hash s') c = (if c \<in> set ids \<and> map_option rg_nodeId (jget (clients_hash s) c) = Some n then None else jget (clients_hash s) c))
   \<and> rs' = rs @ List.map_filter (\<lambda>c. case jget (clients_hash s) c of Some r \<Rightarrow> if rg_nodeId r = n then Some (r, c) else None | None \<Rightarrow> None) ids
   \<and> (\<forall>m. node_set s' m = node_set s m) \<and> cs_now s' = cs_now s \<and> cs_setExpire s' = cs_setExpire s \<and> cs_clientsExpire s' = cs_clientsExpire s
   \<and> (distinct (map fst (clients_hash s)) \<longrightarrow> distinct (map fst (clients_hash s')))"
proof (induction ids arbitrary: rs s)
  case Nil
  then show ?case by (simp add: map_filter_simps)
next
  case (Cons c ids)
  define p where "p = cleanup_member n c (rs, s)"
  obtain rs1 s1 where p1: "p = (rs1, s1)" by (cases p) auto
  have step: "fold (cleanup_member n) ids (rs1, s1) = (rs', s')"
    using Cons.prems(2) p1 p_def by simp
  have views: "jget (clients_hash s1) d = (if d = c \<and> map_option rg_nodeId (jget (clients_hash s) c) = Some n then None else jget (clients_hash s) d)" for d
    using p1 unfolding p_def cleanup_member_def by (auto simp: registry_simps split: option.splits if_splits)
  have rs1: "rs1 = rs @ (case jget (clients_hash s) c of Some r \<Rightarrow> if rg_nodeId r = n then [(r, c)] else [] | None \<Rightarrow> [])"
    using p1 unfolding p_def cleanup_member_def by (auto split: option.splits if_splits)
  have rest: "(\<forall>m. node_set s1 m = node_set s m) \<and> cs_now s1 = cs_now s \<and> cs_setExpire s1 = cs_setExpire s \<and> cs_clientsExpire s1 = cs_clientsExpire s
     \<and> (distinct (map fst (clients_hash s)) \<longrightarrow> distinct (map fst (clients_hash s1)))"
    using p1 unfolding p_def cleanup_member_def
    by (auto simp: registry_simps distinct_jdelete split: option.splits if_splits)
  note IH = Cons.IH [OF _ step]
  have mf: "List.map_filter (\<lambda>c. case jget (clients_hash s1) c of Some r \<Rightarrow> if rg_nodeId r = n then Some (r, c) else None | None \<Rightarrow> None) ids
          = List.map_filter (\<lambda>c. case jget (clients_hash s) c of Some r \<Rightarrow> if rg_nodeId r = n then Some (r, c) else None | None \<Rightarrow> None) ids"
    using Cons.prems(1) by (intro map_filter_cong) (auto simp: views)
  show ?case
    using IH Cons.prems(1) views rs1 rest mf
    by (auto simp: map_filter_simps split: option.splits if_splits)
qed

section \<open>Sequences of calls\<close>

datatype 'm registry_event =
    Register string nat "'m option" bool registration_state int
  | Activate string nat "'m option"
  | Unregister string nat
  | UpdateMetadata string nat "'m option"
  | CleanupNode nat
  | Elapse nat

fun registry_step :: "('m \<Rightarrow> (string, 'm option) result) \<Rightarrow> ('m \<Rightarrow> 'm) \<Rightarrow> 'm client_store \<Rightarrow> 'm registry_event \<Rightarrow> 'm client_store" where
  "registry_step stringify recode s (Register c n m allow st now) = snd (registerWithState stringify recode (\<lambda>t. t) c n m allow st now s)"
| "registry_step stringify recode s (Activate c n m) = snd (activate stringify recode c n m s)"
| "registry_step stringify recode s (Unregister c n) = snd (unregister c n s)"
| "registry_step stringify recode s (UpdateMetadata c n m) = snd (updateMetadata stringify recode c n m s)"
| "registry_step stringify recode s (CleanupNode n) = snd (cleanupNode n s)"
| "registry_step stringify recode s (Elapse dt) = s\<lparr>cs_now := cs_now s + int dt\<rparr>"

text \<open>The node that holds a client.\<close>

definition owner :: "'m client_store \<Rightarrow> string \<Rightarrow> nat option" where
  "owner s c = map_option rg_nodeId (jget (clients_hash s) c)"

definition registry_ok :: "'m client_store \<Rightarrow> bool" where
  "registry_ok s \<longleftrightarrow>
     distinct (map fst (clients_hash s))
   \<and> (\<forall>n. distinct (node_set s n))
   \<and> (\<forall>n. \<forall>c\<in>set (node_set s n). owner s c = Some n)
   \<and> (\<forall>n. cs_setExpire s n \<le> cs_clientsExpire s)
   \<and> (\<forall>n. cs_setExpire s n \<le> cs_now s + 1000 * KEY_TTL_SECONDS) \<and> cs_clientsExpire s \<le> cs_now s + 1000 * KEY_TTL_SECONDS
   \<and> 0 \<le> cs_now s \<and> 0 \<le> cs_clientsExpire s"

text \<open>What a call does to the hash and the sets.\<close>

lemma REGISTER_SCRIPT_views:
  assumes "REGISTER_SCRIPT c n m has now allow st s = (r, s')"
  shows "(r = -2 \<longrightarrow> s' = s \<and> (\<exists>p. jget (clients_hash s) c = Some p \<and> rg_nodeId p \<noteq> n))
       \<and> (r \<noteq> -2 \<longrightarrow> clients_hash s' = jset c \<lparr>rg_nodeId = n, rg_connectedAt = now, rg_state = Some st, rg_hasMetadata = Some has, rg_metadata = m\<rparr> (clients_hash s)
            \<and> owner s' = (owner s)(c := Some n)
            \<and> (\<forall>k. node_set s' k = (if k = n then set_add c (node_set s n)
                     else if owner s c = Some k then filter (\<lambda>x. x \<noteq> c) (node_set s k) else node_set s k))
            \<and> (\<forall>k. cs_setExpire s' k = (if k = n then cs_now s + 1000 * KEY_TTL_SECONDS else cs_setExpire s k))
            \<and> cs_clientsExpire s' = cs_now s + 1000 * KEY_TTL_SECONDS \<and> cs_now s' = cs_now s)
       \<and> r = (case jget (clients_hash s) c of None \<Rightarrow> -1
              | Some p \<Rightarrow> if rg_nodeId p = n then -1 else if allow then int (rg_nodeId p) else -2)"
  using assms unfolding REGISTER_SCRIPT_def Let_def owner_def
  by (auto simp: registry_simps fun_eq_iff split: option.splits if_splits)

lemma registry_ok_new: "registry_ok new_store"
  by (simp add: registry_ok_def new_store_def clients_hash_def node_set_def owner_def cs_sets_def cs_setExpire_def)

lemma REGISTER_SCRIPT_keeps:
  assumes ok: "registry_ok s" and r: "REGISTER_SCRIPT c n m has now allow st s = (r, s')"
  shows "registry_ok s'"
proof (cases "r = -2")
  case True
  with REGISTER_SCRIPT_views [OF r] ok show ?thesis by simp
next
  case False
  with REGISTER_SCRIPT_views [OF r] ok show ?thesis
    unfolding registry_ok_def by (auto simp: distinct_jset distinct_set_add le_trans)
qed

lemma ACTIVATE_SCRIPT_views:
  assumes "ACTIVATE_SCRIPT c n m has s = (r, s')"
  shows "(r = (if owner s c = Some n then 1 else 0))
       \<and> (r \<noteq> 1 \<longrightarrow> s' = s)
       \<and> (r = 1 \<longrightarrow> (\<exists>p. jget (clients_hash s) c = Some p \<and> clients_hash s' = jset c (p\<lparr>rg_state := Some Active, rg_hasMetadata := Some has, rg_metadata := m\<rparr>) (clients_hash s)) \<and> owner s' = owner s
            \<and> (\<forall>k. node_set s' k = (if k = n then set_add c (node_set s n) else node_set s k))
            \<and> (\<forall>k. cs_setExpire s' k = (if k = n then cs_now s + 1000 * KEY_TTL_SECONDS else cs_setExpire s k))
            \<and> cs_clientsExpire s' = cs_now s + 1000 * KEY_TTL_SECONDS \<and> cs_now s' = cs_now s)"
  using assms unfolding ACTIVATE_SCRIPT_def owner_def
  by (auto simp: registry_simps fun_eq_iff split: option.splits if_splits intro!: arg_cong2 [where f = "jset c"])

lemma ACTIVATE_SCRIPT_keeps:
  assumes ok: "registry_ok s" and r: "ACTIVATE_SCRIPT c n m has s = (r, s')"
  shows "registry_ok s'"
proof (cases "r = 1")
  case False
  with ACTIVATE_SCRIPT_views [OF r] ok show ?thesis by simp
next
  case True
  with ACTIVATE_SCRIPT_views [OF r] ok show ?thesis
    unfolding registry_ok_def by (auto simp: distinct_jset distinct_set_add le_trans split: if_splits)
qed

lemma UPDATE_METADATA_SCRIPT_views:
  assumes "UPDATE_METADATA_SCRIPT c n m has s = (r, s')"
  shows "(r = (if owner s c = Some n then 1 else 0))
       \<and> (r \<noteq> 1 \<longrightarrow> s' = s)
       \<and> (r = 1 \<longrightarrow> (\<exists>p. jget (clients_hash s) c = Some p \<and> clients_hash s' = jset c (p\<lparr>rg_state := Some (nullish (rg_state p) Active), rg_hasMetadata := Some has, rg_metadata := m\<rparr>) (clients_hash s)) \<and> owner s' = owner s
            \<and> (\<forall>k. node_set s' k = node_set s k) \<and> cs_setExpire s' = cs_setExpire s
            \<and> cs_clientsExpire s' = cs_now s + 1000 * KEY_TTL_SECONDS \<and> cs_now s' = cs_now s)"
  using assms unfolding UPDATE_METADATA_SCRIPT_def owner_def
  by (auto simp: registry_simps fun_eq_iff split: option.splits if_splits intro!: arg_cong2 [where f = "jset c"])

lemma UPDATE_METADATA_SCRIPT_keeps:
  assumes ok: "registry_ok s" and r: "UPDATE_METADATA_SCRIPT c n m has s = (r, s')"
  shows "registry_ok s'"
proof (cases "r = 1")
  case False
  with UPDATE_METADATA_SCRIPT_views [OF r] ok show ?thesis by simp
next
  case True
  with UPDATE_METADATA_SCRIPT_views [OF r] ok show ?thesis
    unfolding registry_ok_def by (auto simp: distinct_jset le_trans split: if_splits)
qed

lemma UNREGISTER_SCRIPT_views:
  assumes "UNREGISTER_SCRIPT c n s = (r, s')"
  shows "(r = (if owner s c = Some n then 1 else 0))
       \<and> (r \<noteq> 1 \<longrightarrow> s' = s)
       \<and> (r = 1 \<longrightarrow> clients_hash s' = jdelete c (clients_hash s) \<and> owner s' = (owner s)(c := None)
            \<and> (\<forall>k. node_set s' k = (if k = n then filter (\<lambda>x. x \<noteq> c) (node_set s n) else node_set s k))
            \<and> cs_setExpire s' = cs_setExpire s \<and> cs_clientsExpire s' = cs_clientsExpire s \<and> cs_now s' = cs_now s)"
  using assms unfolding UNREGISTER_SCRIPT_def owner_def
  by (auto simp: registry_simps fun_eq_iff split: option.splits if_splits)

lemma UNREGISTER_SCRIPT_keeps:
  assumes ok: "registry_ok s" and r: "UNREGISTER_SCRIPT c n s = (r, s')"
  shows "registry_ok s'"
proof (cases "r = 1")
  case False
  with UNREGISTER_SCRIPT_views [OF r] ok show ?thesis by simp
next
  case True
  with UNREGISTER_SCRIPT_views [OF r] ok show ?thesis
    unfolding registry_ok_def by (auto simp: distinct_jdelete split: if_splits)
qed

text \<open>The cleanup removes from the hash what the set lists and the node still owns, and then the set.\<close>

lemma CLEANUP_NODE_SCRIPT_views:
  assumes ok: "registry_ok s" and r: "CLEANUP_NODE_SCRIPT n s = (removed, s')"
  shows "(\<forall>c. jget (clients_hash s') c = (if c \<in> set (node_set s n) then None else jget (clients_hash s) c))
       \<and> (\<forall>c. owner s' c = (if c \<in> set (node_set s n) then None else owner s c))
       \<and> removed = map (\<lambda>c. (the (jget (clients_hash s) c), c)) (node_set s n)
       \<and> (\<forall>k. node_set s' k = (if k = n then [] else node_set s k))
       \<and> (\<forall>k. cs_setExpire s' k = (if k = n then 0 else cs_setExpire s k))
       \<and> cs_clientsExpire s' = cs_clientsExpire s \<and> cs_now s' = cs_now s \<and> distinct (map fst (clients_hash s'))"
proof -
  obtain t where t: "fold (cleanup_member n) (node_set s n) ([], s) = (removed, t)" and s': "s' = del_set n t"
    using r unfolding CLEANUP_NODE_SCRIPT_def by (auto split: prod.splits)
  have d: "distinct (node_set s n)" "distinct (map fst (clients_hash s))"
    and own: "\<And>c. c \<in> set (node_set s n) \<Longrightarrow> \<exists>p. jget (clients_hash s) c = Some p \<and> rg_nodeId p = n"
    using ok by (auto simp: registry_ok_def owner_def)
  have mf: "(\<And>c. c \<in> set xs \<Longrightarrow> f c = Some (g c)) \<Longrightarrow> List.map_filter f xs = map g xs" for f :: "string \<Rightarrow> ('m registration \<times> string) option" and g xs
    by (induction xs) (simp_all add: map_filter_simps)
  have "List.map_filter (\<lambda>c. case jget (clients_hash s) c of Some r \<Rightarrow> if rg_nodeId r = n then Some (r, c) else None | None \<Rightarrow> None) (node_set s n)
      = map (\<lambda>c. (the (jget (clients_hash s) c), c)) (node_set s n)"
    by (rule mf) (use own in fastforce)
  then show ?thesis
    using cleanup_fold [OF d(1) t] d(2) own unfolding s' by (auto simp: registry_simps owner_def)
qed

lemma CLEANUP_NODE_SCRIPT_keeps:
  assumes ok: "registry_ok s" and r: "CLEANUP_NODE_SCRIPT n s = (removed, s')"
  shows "registry_ok s'"
proof -
  note v = CLEANUP_NODE_SCRIPT_views [OF assms]
  have own: "c \<in> set (node_set s n) \<Longrightarrow> owner s c = Some n" for c n
    using ok by (simp add: registry_ok_def)
  have "owner s' c = Some k" if c: "c \<in> set (node_set s' k)" for c k
  proof -
    have "k \<noteq> n" "c \<in> set (node_set s k)" using v c by (auto split: if_splits)
    with own [of c k] own [of c n] v show ?thesis by auto
  qed
  then show ?thesis using v ok unfolding registry_ok_def by simp
qed

text \<open>Every operation leaves the store that one of the scripts leaves, or the store as it was.\<close>

lemma registry_step_cases:
  obtains (same) "registry_step stringify recode s e = s"
    | (register) c n m has now allow st r where "REGISTER_SCRIPT c n m has now allow st s = (r, registry_step stringify recode s e)"
    | (activate) c n m has r where "ACTIVATE_SCRIPT c n m has s = (r, registry_step stringify recode s e)"
    | (unregister) c n r where "UNREGISTER_SCRIPT c n s = (r, registry_step stringify recode s e)"
    | (update) c n m has r where "UPDATE_METADATA_SCRIPT c n m has s = (r, registry_step stringify recode s e)"
    | (cleanup) n r where "CLEANUP_NODE_SCRIPT n s = (r, registry_step stringify recode s e)"
    | (elapse) dt where "e = Elapse dt" "registry_step stringify recode s e = s\<lparr>cs_now := cs_now s + int dt\<rparr>"
proof (cases e)
  case (Register c n m allow st now)
  show thesis
  proof (cases "encodeMetadata stringify recode m")
    case (Inl x)
    then show thesis using Register same by (simp add: registerWithState_def)
  next
    case (Inr y)
    obtain m' has where y: "y = (m', has)" by (cases y)
    obtain r t where "REGISTER_SCRIPT c n m' has now allow st s = (r, t)" by force
    then show thesis using Register register [of c n m' has now allow st r] Inr y
      by (simp add: registerWithState_def Let_def split: if_splits)
  qed
next
  case (Activate c n m)
  show thesis
  proof (cases "encodeMetadata stringify recode m")
    case (Inl x)
    then show thesis using Activate same by (simp add: activate_def)
  next
    case (Inr y)
    obtain m' has where y: "y = (m', has)" by (cases y)
    obtain r t where "ACTIVATE_SCRIPT c n m' has s = (r, t)" by force
    then show thesis using Activate activate [of c n m' has r] Inr y by (simp add: activate_def)
  qed
next
  case (UpdateMetadata c n m)
  show thesis
  proof (cases "encodeMetadata stringify recode m")
    case (Inl x)
    then show thesis using UpdateMetadata same by (simp add: updateMetadata_def)
  next
    case (Inr y)
    obtain m' has where y: "y = (m', has)" by (cases y)
    obtain r t where "UPDATE_METADATA_SCRIPT c n m' has s = (r, t)" by force
    then show thesis using UpdateMetadata update [of c n m' has r] Inr y by (simp add: updateMetadata_def)
  qed
next
  case (Unregister c n)
  obtain r t where "UNREGISTER_SCRIPT c n s = (r, t)" by force
  then show thesis using Unregister unregister [of c n r] by (simp add: unregister_def)
next
  case (CleanupNode n)
  obtain r t where "CLEANUP_NODE_SCRIPT n s = (r, t)" by force
  then show thesis using CleanupNode cleanup [of n r] by (simp add: cleanupNode_def)
next
  case (Elapse dt)
  then show thesis using elapse by simp
qed

lemma elapse_keeps:
  assumes ok: "registry_ok s"
  shows "registry_ok (s\<lparr>cs_now := cs_now s + int dt\<rparr>)" (is "registry_ok ?t")
proof -
  have le: "cs_setExpire s n \<le> cs_clientsExpire s" "cs_setExpire s n \<le> cs_now s + 1000 * KEY_TTL_SECONDS"
    "cs_clientsExpire s \<le> cs_now s + 1000 * KEY_TTL_SECONDS" for n
    using ok by (simp_all add: registry_ok_def)
  have sets: "node_set ?t n = [] \<or> node_set ?t n = node_set s n \<and> clients_hash ?t = clients_hash s" for n
    using le(1) [of n] by (auto simp: node_set_def clients_hash_def)
  have hash: "clients_hash ?t = [] \<or> clients_hash ?t = clients_hash s"
    by (auto simp: clients_hash_def)
  have "distinct (map fst (clients_hash ?t))" using hash ok by (auto simp: registry_ok_def)
  moreover have "distinct (node_set ?t n)" for n using sets [of n] ok by (auto simp: registry_ok_def)
  moreover have "owner ?t c = Some n" if "c \<in> set (node_set ?t n)" for n c
    using that sets [of n] ok by (auto simp: registry_ok_def owner_def)
  moreover have "cs_setExpire s n \<le> cs_now s + int dt + 1000 * KEY_TTL_SECONDS" "cs_clientsExpire s \<le> cs_now s + int dt + 1000 * KEY_TTL_SECONDS" for n
    using le(2) [of n] le(3) by linarith+
  ultimately show ?thesis using le(1) ok unfolding registry_ok_def by simp
qed

lemma registry_step_keeps:
  assumes "registry_ok s"
  shows "registry_ok (registry_step stringify recode s e)"
  using assms
proof (cases rule: registry_step_cases [of stringify recode s e])
  case same
  then show ?thesis using assms by simp
next
  case elapse
  then show ?thesis using elapse_keeps [OF assms] by simp
qed (blast intro: REGISTER_SCRIPT_keeps ACTIVATE_SCRIPT_keeps UNREGISTER_SCRIPT_keeps UPDATE_METADATA_SCRIPT_keeps CLEANUP_NODE_SCRIPT_keeps)+

section \<open>The index is complete\<close>

text \<open>Nothing that is written has expired.\<close>

definition index_live :: "'m client_store \<Rightarrow> bool" where
  "index_live s \<longleftrightarrow> (\<forall>(c, r)\<in>set (cs_clients s). cs_now s < cs_setExpire s (rg_nodeId r))"

definition index_complete :: "'m client_store \<Rightarrow> bool" where
  "index_complete s \<longleftrightarrow> (\<forall>c n. owner s c = Some n \<longrightarrow> c \<in> set (node_set s n))"

lemma index_live_hash:
  assumes "index_live s" "registry_ok s"
  shows "clients_hash s = cs_clients s"
proof (cases "cs_clients s")
  case Nil
  then show ?thesis by (simp add: clients_hash_def)
next
  case (Cons p ps)
  obtain c r where p: "p = (c, r)" by (cases p)
  have "cs_now s < cs_setExpire s (rg_nodeId r)" using assms(1) Cons p by (auto simp: index_live_def)
  moreover have "cs_setExpire s (rg_nodeId r) \<le> cs_clientsExpire s" using assms(2) by (simp add: registry_ok_def)
  ultimately show ?thesis by (simp add: clients_hash_def)
qed

lemma elapse_live:
  assumes ok: "registry_ok s" and live: "index_live (s\<lparr>cs_now := cs_now s + int dt\<rparr>)" (is "index_live ?t")
  shows "clients_hash ?t = clients_hash s" "owner ?t = owner s" "index_complete s \<Longrightarrow> index_complete ?t"
proof -
  have h: "clients_hash ?t = cs_clients s" using index_live_hash [OF live elapse_keeps [OF ok]] by simp
  then show hash: "clients_hash ?t = clients_hash s" by (auto simp: clients_hash_def split: if_splits)
  then show own: "owner ?t = owner s" by (simp add: owner_def fun_eq_iff)
  assume comp: "index_complete s"
  show "index_complete ?t"
    unfolding index_complete_def
  proof (intro allI impI)
    fix c n assume o: "owner ?t c = Some n"
    then obtain r where "jget (cs_clients s) c = Some r" "rg_nodeId r = n" using h by (auto simp: owner_def)
    then have "(c, r) \<in> set (cs_clients ?t)" "rg_nodeId r = n" by (auto dest: map_of_SomeD)
    then have "cs_now ?t < cs_setExpire s n" using live by (auto simp: index_live_def)
    then show "c \<in> set (node_set ?t n)"
      using comp o own by (auto simp: index_complete_def node_set_def)
  qed
qed

lemma registry_step_complete:
  assumes ok: "registry_ok s" and comp: "index_complete s" and live: "index_live (registry_step stringify recode s e)"
  shows "index_complete (registry_step stringify recode s e)"
  using live
proof (cases rule: registry_step_cases [of stringify recode s e])
  case same
  then show ?thesis using comp by simp
next
  case (register c n m has now allow st r)
  from REGISTER_SCRIPT_views [OF this] comp show ?thesis
    unfolding index_complete_def by (cases "r = -2") auto
next
  case (activate c n m has r)
  from ACTIVATE_SCRIPT_views [OF this] comp show ?thesis
    unfolding index_complete_def by (cases "r = 1") auto
next
  case (unregister c n r)
  from UNREGISTER_SCRIPT_views [OF this] comp show ?thesis
    unfolding index_complete_def by (cases "r = 1") auto
next
  case (update c n m has r)
  from UPDATE_METADATA_SCRIPT_views [OF this] comp show ?thesis
    unfolding index_complete_def by (cases "r = 1") auto
next
  case (cleanup n r)
  from CLEANUP_NODE_SCRIPT_views [OF ok this] comp show ?thesis
    unfolding index_complete_def by (auto split: if_splits)
next
  case (elapse dt)
  then show ?thesis using elapse_live(3) [OF ok _ comp, of dt] live by simp
qed

section \<open>Ownership\<close>

text \<open>The abstract registry: a map from clients to the node that holds them and whether they may be seen.\<close>

type_synonym ownership = "string \<Rightarrow> (nat \<times> registration_state) option"

definition ownership_of :: "'m client_store \<Rightarrow> ownership" where
  "ownership_of s c = map_option (\<lambda>r. (rg_nodeId r, parsed_state r)) (jget (clients_hash s) c)"

definition take_over :: "ownership \<Rightarrow> string \<Rightarrow> nat \<Rightarrow> bool \<Rightarrow> registration_state \<Rightarrow> register_result \<times> ownership" where
  "take_over own c n allow st =
     (case own c of
        Some (k, _) \<Rightarrow> if k \<noteq> n \<and> \<not> allow then (RegisterConflict (Some k), own)
                       else (RegisterOk (if k \<noteq> n then Some k else None), own(c \<mapsto> (n, st)))
      | None \<Rightarrow> (RegisterOk None, own(c \<mapsto> (n, st))))"

definition held_by :: "ownership \<Rightarrow> string \<Rightarrow> nat \<Rightarrow> bool" where
  "held_by own c n \<longleftrightarrow> map_option fst (own c) = Some n"

lemma owner_ownership: "owner s c = map_option fst (ownership_of s c)"
  by (simp add: owner_def ownership_of_def option.map_comp comp_def)

lemma registerWithState_ownership:
  assumes enc: "encodeMetadata stringify recode m = Inr e"
  shows "registerWithState stringify recode (\<lambda>t. t) c n m allow st now s = (Inr res, s') \<Longrightarrow>
    (res, ownership_of s') = take_over (ownership_of s) c n allow st"
proof -
  obtain m' has where e: "e = (m', has)" by (cases e)
  obtain r t where r: "REGISTER_SCRIPT c n m' has now allow st s = (r, t)" by force
  note v = REGISTER_SCRIPT_views [OF r]
  assume "registerWithState stringify recode (\<lambda>t. t) c n m allow st now s = (Inr res, s')"
  then have res: "res = (if r = -2 then RegisterConflict (owner t c) else RegisterOk (if r \<ge> 0 then Some (nat r) else None))" "s' = t"
    using enc e r by (auto simp: registerWithState_def Let_def owner_def split: if_splits)
  show ?thesis
  proof (cases "r = -2")
    case True
    then show ?thesis using v res
      by (auto simp: take_over_def ownership_of_def owner_def split: if_splits option.splits)
  next
    case False
    then have "ownership_of t = (ownership_of s)(c \<mapsto> (n, st))"
      using v by (auto simp: ownership_of_def parsed_state_def fun_eq_iff)
    then show ?thesis using v res False
      by (auto simp: take_over_def ownership_of_def split: if_splits option.splits)
  qed
qed

lemma activate_ownership:
  assumes "encodeMetadata stringify recode m = Inr e" "activate stringify recode c n m s = (r, s')"
  shows "r = Inr (held_by (ownership_of s) c n) \<and> ownership_of s' = (if held_by (ownership_of s) c n then (ownership_of s)(c \<mapsto> (n, Active)) else ownership_of s)"
proof -
  obtain m' has where e: "e = (m', has)" by (cases e)
  obtain k t where k: "ACTIVATE_SCRIPT c n m' has s = (k, t)" by force
  have r: "r = Inr (k = 1)" "s' = t" using assms e k by (auto simp: activate_def)
  note v = ACTIVATE_SCRIPT_views [OF k]
  have h: "held_by (ownership_of s) c n \<longleftrightarrow> k = 1" using v by (auto simp: held_by_def owner_ownership [symmetric])
  show ?thesis
  proof (cases "k = 1")
    case True
    then obtain p where p: "clients_hash t = jset c (p\<lparr>rg_state := Some Active, rg_hasMetadata := Some has, rg_metadata := m'\<rparr>) (clients_hash s)"
      and j: "jget (clients_hash s) c = Some p" and o: "owner s c = Some n" using v by (auto split: if_splits)
    have "rg_nodeId p = n" using j o by (simp add: owner_def)
    then have "ownership_of t = (ownership_of s)(c \<mapsto> (n, Active))"
      using p j by (auto simp: ownership_of_def parsed_state_def fun_eq_iff)
    then show ?thesis using r h True by simp
  next
    case False
    then show ?thesis using r h v by simp
  qed
qed

lemma unregister_ownership:
  assumes "unregister c n s = (r, s')"
  shows "r = held_by (ownership_of s) c n \<and> ownership_of s' = (if held_by (ownership_of s) c n then (ownership_of s)(c := None) else ownership_of s)"
proof -
  obtain k t where k: "UNREGISTER_SCRIPT c n s = (k, t)" by force
  have "r = (k = 1)" "s' = t" using assms k by (auto simp: unregister_def)
  then show ?thesis using UNREGISTER_SCRIPT_views [OF k]
    by (auto simp: held_by_def ownership_of_def owner_def fun_eq_iff)
qed

lemma updateMetadata_ownership:
  assumes "encodeMetadata stringify recode m = Inr e" "updateMetadata stringify recode c n m s = (r, s')"
  shows "r = Inr (held_by (ownership_of s) c n) \<and> ownership_of s' = ownership_of s"
proof -
  obtain m' has where e: "e = (m', has)" by (cases e)
  obtain k t where k: "UPDATE_METADATA_SCRIPT c n m' has s = (k, t)" by force
  have "r = Inr (k = 1)" "s' = t" using assms e k by (auto simp: updateMetadata_def)
  then show ?thesis using UPDATE_METADATA_SCRIPT_views [OF k]
    by (auto simp: held_by_def ownership_of_def owner_def parsed_state_def fun_eq_iff split: if_splits)
qed

lemma cleanupNode_ownership:
  assumes ok: "registry_ok s" and comp: "index_complete s" and r: "cleanupNode n s = (removed, s')"
  shows "distinct (map rc_clientId removed) \<and> set (map rc_clientId removed) = {c. held_by (ownership_of s) c n}
       \<and> ownership_of s' = (\<lambda>c. if held_by (ownership_of s) c n then None else ownership_of s c)"
proof -
  obtain rs t where k: "CLEANUP_NODE_SCRIPT n s = (rs, t)" by force
  note v = CLEANUP_NODE_SCRIPT_views [OF ok k]
  have s': "s' = t" and ids: "map rc_clientId removed = map snd rs"
    using r k by (auto simp: cleanupNode_def)
  have held: "held_by (ownership_of s) c n \<longleftrightarrow> c \<in> set (node_set s n)" for c
    using ok comp unfolding held_by_def owner_ownership [symmetric] registry_ok_def index_complete_def by blast
  have "map snd rs = node_set s n" using v by (simp add: comp_def)
  then show ?thesis using v ok held ids s'
    by (auto simp: registry_ok_def ownership_of_def fun_eq_iff)
qed

text \<open>A run in which nothing expires.\<close>

fun kept_live :: "('m \<Rightarrow> (string, 'm option) result) \<Rightarrow> ('m \<Rightarrow> 'm) \<Rightarrow> 'm client_store \<Rightarrow> 'm registry_event list \<Rightarrow> bool" where
  "kept_live stringify recode s [] \<longleftrightarrow> index_live s"
| "kept_live stringify recode s (e # es) \<longleftrightarrow> index_live s \<and> kept_live stringify recode (registry_step stringify recode s e) es"

lemma kept_live_start: "kept_live stringify recode s es \<Longrightarrow> index_live s"
  by (cases es) auto

lemma kept_live_holds:
  assumes "registry_ok s" "index_complete s" "kept_live stringify recode s es"
  shows "registry_ok (run_events (registry_step stringify recode) s es) \<and> index_complete (run_events (registry_step stringify recode) s es)
       \<and> index_live (run_events (registry_step stringify recode) s es)"
  using assms
proof (induction es arbitrary: s)
  case Nil
  then show ?case by simp
next
  case (Cons e es)
  then show ?case
    using registry_step_keeps registry_step_complete kept_live_start by (metis kept_live.simps(2) run_events_simps(2))
qed

lemma kept_live_reachable:
  assumes "kept_live stringify recode new_store es"
  shows "registry_ok (run_events (registry_step stringify recode) new_store es)"
    "index_complete (run_events (registry_step stringify recode) new_store es)"
    "index_live (run_events (registry_step stringify recode) new_store es)"
  using kept_live_holds [OF registry_ok_new _ assms] by (auto simp: index_complete_def owner_def new_store_def clients_hash_def)

text \<open>What a call answers, and what the abstract registry answers.\<close>

datatype registry_reply = Threw string | Registered register_result | Answered bool | Removed "string set" | NoReply

definition reply_with :: "('a \<Rightarrow> registry_reply) \<Rightarrow> (string, 'a) result \<Rightarrow> registry_reply" where
  "reply_with f r = (case r of Inl e \<Rightarrow> Threw e | Inr x \<Rightarrow> f x)"

fun call_reply :: "('m \<Rightarrow> (string, 'm option) result) \<Rightarrow> ('m \<Rightarrow> 'm) \<Rightarrow> 'm client_store \<Rightarrow> 'm registry_event \<Rightarrow> registry_reply" where
  "call_reply stringify recode s (Register c n m allow st now) =
     reply_with Registered (fst (registerWithState stringify recode (\<lambda>t. t) c n m allow st now s))"
| "call_reply stringify recode s (Activate c n m) = reply_with Answered (fst (activate stringify recode c n m s))"
| "call_reply stringify recode s (Unregister c n) = Answered (fst (unregister c n s))"
| "call_reply stringify recode s (UpdateMetadata c n m) = reply_with Answered (fst (updateMetadata stringify recode c n m s))"
| "call_reply stringify recode s (CleanupNode n) = Removed (set (map rc_clientId (fst (cleanupNode n s))))"
| "call_reply stringify recode s (Elapse dt) = NoReply"

definition unserializable :: "('m \<Rightarrow> (string, 'm option) result) \<Rightarrow> ('m \<Rightarrow> 'm) \<Rightarrow> 'm option \<Rightarrow> string option" where
  "unserializable stringify recode m = (case encodeMetadata stringify recode m of Inl e \<Rightarrow> Some e | Inr _ \<Rightarrow> None)"

fun ownership_step :: "('m option \<Rightarrow> string option) \<Rightarrow> ownership \<Rightarrow> 'm registry_event \<Rightarrow> registry_reply \<times> ownership" where
  "ownership_step bad own (Register c n m allow st now) =
     (case bad m of Some e \<Rightarrow> (Threw e, own) | None \<Rightarrow> (let (r, own') = take_over own c n allow st in (Registered r, own')))"
| "ownership_step bad own (Activate c n m) =
     (case bad m of Some e \<Rightarrow> (Threw e, own)
      | None \<Rightarrow> if held_by own c n then (Answered True, own(c \<mapsto> (n, Active))) else (Answered False, own))"
| "ownership_step bad own (Unregister c n) = (if held_by own c n then (Answered True, own(c := None)) else (Answered False, own))"
| "ownership_step bad own (UpdateMetadata c n m) = (case bad m of Some e \<Rightarrow> (Threw e, own) | None \<Rightarrow> (Answered (held_by own c n), own))"
| "ownership_step bad own (CleanupNode n) = (Removed {c. held_by own c n}, \<lambda>c. if held_by own c n then None else own c)"
| "ownership_step bad own (Elapse dt) = (NoReply, own)"

lemma registry_step_simulates:
  assumes ok: "registry_ok s" and comp: "index_complete s" and live: "index_live (registry_step stringify recode s e)"
  shows "(call_reply stringify recode s e, ownership_of (registry_step stringify recode s e))
       = ownership_step (unserializable stringify recode) (ownership_of s) e"
proof (cases e)
  case (Register c n m allow st now)
  obtain r t where r: "registerWithState stringify recode (\<lambda>t. t) c n m allow st now s = (r, t)" by force
  show ?thesis
  proof (cases "encodeMetadata stringify recode m")
    case Inl
    then show ?thesis using Register by (simp add: registerWithState_def unserializable_def reply_with_def)
  next
    case (Inr x)
    obtain res where res: "r = Inr res"
      using r Inr by (auto simp: registerWithState_def Let_def split: prod.splits if_splits)
    show ?thesis using registerWithState_ownership [OF Inr r [unfolded res], symmetric] r res Inr Register
      by (simp add: unserializable_def reply_with_def)
  qed
next
  case (Activate c n m)
  obtain r t where r: "activate stringify recode c n m s = (r, t)" by force
  show ?thesis
  proof (cases "encodeMetadata stringify recode m")
    case Inl
    then show ?thesis using Activate by (simp add: activate_def unserializable_def reply_with_def)
  next
    case (Inr x)
    show ?thesis using activate_ownership [OF Inr r] r Inr Activate by (simp add: unserializable_def reply_with_def)
  qed
next
  case (UpdateMetadata c n m)
  obtain r t where r: "updateMetadata stringify recode c n m s = (r, t)" by force
  show ?thesis
  proof (cases "encodeMetadata stringify recode m")
    case Inl
    then show ?thesis using UpdateMetadata by (simp add: updateMetadata_def unserializable_def reply_with_def)
  next
    case (Inr x)
    show ?thesis using updateMetadata_ownership [OF Inr r] r Inr UpdateMetadata by (simp add: unserializable_def reply_with_def)
  qed
next
  case (Unregister c n)
  obtain r t where r: "unregister c n s = (r, t)" by force
  show ?thesis using unregister_ownership [OF r] r Unregister by simp
next
  case (CleanupNode n)
  obtain r t where r: "cleanupNode n s = (r, t)" by force
  show ?thesis using cleanupNode_ownership [OF ok comp r] r CleanupNode by simp
next
  case (Elapse dt)
  then show ?thesis using elapse_live(1) [OF ok, of dt] live by (simp add: ownership_of_def fun_eq_iff)
qed

section \<open>Theorems\<close>

text \<open>C33. The registry implements an ownership map: while nothing expires, every call answers and changes what the
  map answers and changes.  In particular a client is taken from another node only with the permission to supersede,
  a node activates and releases only what it holds, and the cleanup of a node removes exactly its clients.\<close>

theorem registry_refines_ownership:
  assumes "kept_live stringify recode new_store (es @ [e])"
  shows "let s = run_events (registry_step stringify recode) new_store es in
           (call_reply stringify recode s e, ownership_of (registry_step stringify recode s e))
         = ownership_step (unserializable stringify recode) (ownership_of s) e"
proof -
  have live: "kept_live stringify recode s (es @ [e]) \<Longrightarrow>
      kept_live stringify recode s es \<and> index_live (registry_step stringify recode (run_events (registry_step stringify recode) s es) e)" for s
    by (induction es arbitrary: s) auto
  note l = live [OF assms]
  show ?thesis
    unfolding Let_def
    by (rule registry_step_simulates [OF kept_live_reachable(1,2)]) (use l in auto)
qed

definition demo_stringify :: "string \<Rightarrow> (string, string option) result" where
  "demo_stringify m = Inr (Some m)"

definition demo_calls :: "string registry_event list" where
  "demo_calls = [Register ''c'' 1 (Some ''m'') True Pending 5, Activate ''c'' 1 (Some ''m''), Elapse 10, Register ''d'' 1 None False Active 15,
     Register ''c'' 2 (Some ''n'') False Pending 16, Register ''c'' 2 (Some ''n'') True Pending 17, Unregister ''c'' 1]"

theorem registry_refines_ownership_witness:
  "kept_live demo_stringify (\<lambda>m. m) new_store (demo_calls @ [CleanupNode 1])
   \<and> (let s = run_events (registry_step demo_stringify (\<lambda>m. m)) new_store demo_calls in
        call_reply demo_stringify (\<lambda>m. m) s (CleanupNode 1) = Removed {''d''} \<and> ownership_of s ''c'' = Some (2, Pending)
      \<and> (call_reply demo_stringify (\<lambda>m. m) s (CleanupNode 1), ownership_of (registry_step demo_stringify (\<lambda>m. m) s (CleanupNode 1)))
       = ownership_step (unserializable demo_stringify (\<lambda>m. m)) (ownership_of s) (CleanupNode 1))"
proof -
  have live: "kept_live demo_stringify (\<lambda>m. m) new_store (demo_calls @ [CleanupNode 1])"
    by code_simp
  have "call_reply demo_stringify (\<lambda>m. m) (run_events (registry_step demo_stringify (\<lambda>m. m)) new_store demo_calls) (CleanupNode 1) = Removed {''d''}"
    "ownership_of (run_events (registry_step demo_stringify (\<lambda>m. m)) new_store demo_calls) ''c'' = Some (2, Pending)"
    by code_simp+
  with registry_refines_ownership [OF live] live show ?thesis by (simp add: Let_def)
qed



text \<open>The hash lives as long as anything is written, the set of a node only as long as clients register there.  A client
  that stays connected for a day is lost to the list and to the cleanup of its node, and outlives the node in the hash.\<close>

definition day_calls :: "string registry_event list" where
  "day_calls = [Register ''c'' 1 None True Active 0, Elapse 50000000, UpdateMetadata ''c'' 1 (Some ''m''), Elapse 50000000]"

lemma node_index_expires:
  "let s = run_events (registry_step demo_stringify (\<lambda>m. m)) new_store day_calls in
     getClient ''c'' s \<noteq> None \<and> listClientsForNode 1 s = [] \<and> fst (cleanupNode 1 s) = []
   \<and> getClient ''c'' (snd (cleanupNode 1 s)) \<noteq> None"
proof -
  have n: "int 50000000 = 50000000" by simp
  show ?thesis
    by (simp add: day_calls_def n demo_stringify_def registerWithState_def encodeMetadata_def REGISTER_SCRIPT_def updateMetadata_def
        UPDATE_METADATA_SCRIPT_def new_store_def clients_hash_def node_set_def hset_expire_def sadd_expire_def jset_def set_add_def
        KEY_TTL_SECONDS_def cs_sets_def cs_setExpire_def getClient_def listClientsForNode_def cleanupNode_def CLEANUP_NODE_SCRIPT_def
        del_set_def jdelete_def toRegisteredClient_def parsed_state_def map_filter_simps Let_def)
qed

end
