(* ===== verification/MeshServer.thy ===== *)
theory MeshServer
  imports SrpcServer MeshRegistryFacts
begin

text \<open>
  An RPC server that is a node of a mesh: \<open>src/src/services/mesh-client/mesh-srpc-server.ts\<close> with the service below
  it, \<open>mesh-client-service.ts\<close>, and the registry bound to its node, \<open>mesh-client-registry.ts\<close>.  It is \<open>SrpcServer\<close>
  with three of its hooks overridden, so that the registry of \<open>MeshRegistry\<close> knows which clients it serves.

  A \<open>mesh_server\<close> is one node with the Redis it shares with the others: what the other nodes do to the registry are the
  events \<open>Elsewhere\<close>.  The mesh itself (\<open>Mesh\<close>) appears by what this code sees of it: the instance id it gets, when its
  \<open>start\<close> and \<open>stop\<close> are done, requests that arrive, answers to the requests sent.

  The functions queued for a client (\<open>enqueueClientRegistry\<close>) are the list \<open>ch_tasks\<close>; the first one runs when
  \<open>StartTask\<close> fires, up to its \<open>await\<close> of the registry; \<open>RedisDone\<close> executes the call, \<open>FinishTask\<close> runs what is behind
  the \<open>await\<close>.  A promise that is resolved, but whose callback has not run, is in \<open>mv_continuations\<close>.  Metadata are
  objects whose values are compared by \<open>===\<close>; here they are strings.
\<close>

section \<open>Metadata\<close>

type_synonym client_meta = "(string, string) jsmap"

record mesh_server_options =
  mx_extract :: "client_meta \<Rightarrow> client_meta"
  mx_stringify :: "client_meta \<Rightarrow> (string, client_meta option) result"
  mx_recode :: "client_meta \<Rightarrow> client_meta"

definition shallowChanged :: "client_meta \<Rightarrow> client_meta \<Rightarrow> bool" where
  "shallowChanged a b \<longleftrightarrow> list_ex (\<lambda>key. jget a key \<noteq> jget b key) (set_of_list (jkeys a @ jkeys b))"

section \<open>State\<close>

record stream_extra =
  sx_meta :: client_meta
  sx_supersede :: bool
  sx_proxied :: bool

datatype registry_task =
    ReserveTask nat client_meta bool
  | ActivateTask nat client_meta
  | UnregisterTask nat bool
  | SyncTask client_meta
  | BackfillTask nat client_meta bool

datatype head_status = Waiting | Calling "client_meta registry_event" | Replied registry_reply

record registry_chain =
  ch_tasks :: "registry_task list"
  ch_status :: head_status
  ch_captured :: "client_meta option"

datatype callback_task = ConnectedTask nat | DisconnectedTask nat client_meta

record callback_chain =
  kb_tasks :: "callback_task list"
  kb_running :: "(client_meta \<times> nat) option"

datatype continuation =
    CheckAnswered nat "unit + bool"
  | ActivationAnswered nat "bool option"
  | HookDone nat

datatype mesh_phase = NotStarted | StartingMesh bool | StartedMesh | MeshUp | StopCleanup | StopMesh bool

datatype invocation_origin = CalledBy nat | ForwardedBy nat

datatype service_op =
    UpdateLookup string client_meta "client_meta option"
  | UpdateOwn string nat client_meta "client_meta option"
  | UpdateRemote string "client_meta option"
  | UpdateDone string bool "client_meta option"
  | InvokeLookup nat string string string "int option"
  | InvokeRemote nat string

datatype client_error =
    ClientNotFoundError string
  | ClientDisconnectedError string
  | ClientInvocationError string
  | OtherError string

record forward_response =
  fr_data :: "string option"
  fr_error :: "string option"
  fr_errorName :: "string option"

datatype mesh_server_output =
    KickSent nat string
  | Kicked string bool
  | ClientConnected nat nat string client_meta
  | ClientDisconnected nat nat string client_meta
  | NodeClientsOrphaned nat "client_meta registered_client list"
  | MetadataUpdated string bool
  | MetadataUpdateThrew string
  | UpdateAsked nat string client_meta
  | UpdateAnswered bool
  | InvocationForwarded nat nat string string string "int option"
  | InvocationResult nat "(client_error, string) result"
  | ForwardAnswered nat forward_response

record mesh_server =
  mv_srpc :: srpc_server
  mv_extra :: "stream_extra list"
  mv_store :: "client_meta client_store"
  mv_instanceId :: nat
  mv_registryId :: nat
  mv_running :: bool
  mv_phase :: mesh_phase
  mv_clientMetadata :: "(string, client_meta) jsmap"
  mv_lifecycleConnectedStreams :: "nat list"
  mv_chains :: "(string, registry_chain) jsmap"
  mv_callbacks :: "(string, callback_chain) jsmap"
  mv_pendingSyncs :: "string list"
  mv_microtasks :: "(string \<times> nat) list"
  mv_continuations :: "continuation list"
  mv_ops :: "service_op list"
  mv_local :: "((nat \<times> string) \<times> invocation_origin) list"
  mv_connectedCallbacks :: nat
  mv_disconnectedCallbacks :: nat
  mv_log :: "mesh_server_output list"

definition new_mesh_server :: "(string, string) jsmap \<Rightarrow> nat \<Rightarrow> nat \<Rightarrow> mesh_server" where
  "new_mesh_server handlers connected disconnected =
     \<lparr>mv_srpc = new_server handlers, mv_extra = [], mv_store = new_store, mv_instanceId = 0, mv_registryId = 0, mv_running = False,
      mv_phase = NotStarted, mv_clientMetadata = [], mv_lifecycleConnectedStreams = [], mv_chains = [], mv_callbacks = [],
      mv_pendingSyncs = [], mv_microtasks = [], mv_continuations = [], mv_ops = [], mv_local = [],
      mv_connectedCallbacks = connected, mv_disconnectedCallbacks = disconnected, mv_log = []\<rparr>"

definition mv_emit :: "mesh_server_output \<Rightarrow> mesh_server \<Rightarrow> mesh_server" where
  "mv_emit out s = s\<lparr>mv_log := mv_log s @ [out]\<rparr>"

definition client_of :: "mesh_server \<Rightarrow> nat \<Rightarrow> string" where
  "client_of s r = ss_clientId (sobj (mv_srpc s) r)"

definition extra_of :: "mesh_server \<Rightarrow> nat \<Rightarrow> stream_extra" where
  "extra_of s r = mv_extra s ! r"

definition add_continuation :: "continuation \<Rightarrow> mesh_server \<Rightarrow> mesh_server" where
  "add_continuation k s = s\<lparr>mv_continuations := mv_continuations s @ [k]\<rparr>"

definition add_service_op :: "service_op \<Rightarrow> mesh_server \<Rightarrow> mesh_server" where
  "add_service_op op s = s\<lparr>mv_ops := mv_ops s @ [op]\<rparr>"

section \<open>The calls of the client service\<close>

text \<open>The registry is bound to a node; a method of the service is either an answer without Redis or a call of it.\<close>

definition cr_register :: "nat \<Rightarrow> string \<Rightarrow> client_meta \<Rightarrow> bool \<Rightarrow> int \<Rightarrow> client_meta registry_event" where
  [simp]: "cr_register nodeId c md allowSupersede now = Register c nodeId (Some md) allowSupersede Active now"

definition cr_reserve :: "nat \<Rightarrow> string \<Rightarrow> client_meta \<Rightarrow> bool \<Rightarrow> int \<Rightarrow> client_meta registry_event" where
  [simp]: "cr_reserve nodeId c md allowSupersede now = Register c nodeId (Some md) allowSupersede Pending now"

definition cr_activate :: "nat \<Rightarrow> string \<Rightarrow> client_meta \<Rightarrow> client_meta registry_event" where
  [simp]: "cr_activate nodeId c md = Activate c nodeId (Some md)"

definition cr_unregister :: "nat \<Rightarrow> string \<Rightarrow> client_meta registry_event" where
  [simp]: "cr_unregister nodeId c = Unregister c nodeId"

definition cr_updateMetadata :: "nat \<Rightarrow> string \<Rightarrow> client_meta \<Rightarrow> client_meta registry_event" where
  [simp]: "cr_updateMetadata nodeId c md = UpdateMetadata c nodeId (Some md)"

definition cr_cleanupNode :: "nat \<Rightarrow> client_meta registry_event" where
  [simp]: "cr_cleanupNode nodeId = CleanupNode nodeId"

definition registerClient :: "string \<Rightarrow> client_meta \<Rightarrow> bool \<Rightarrow> mesh_server \<Rightarrow> registry_reply + client_meta registry_event" where
  "registerClient c md allowSupersede s =
     (if \<not> mv_running s then Inl (Answered True)
      else Inr (cr_register (mv_registryId s) c md allowSupersede (cs_now (mv_store s))))"

definition reserveClient :: "string \<Rightarrow> client_meta \<Rightarrow> bool \<Rightarrow> mesh_server \<Rightarrow> registry_reply + client_meta registry_event" where
  "reserveClient c md allowSupersede s =
     (if \<not> mv_running s then Inl (Answered True)
      else Inr (cr_reserve (mv_registryId s) c md allowSupersede (cs_now (mv_store s))))"

definition activateClient :: "string \<Rightarrow> client_meta \<Rightarrow> mesh_server \<Rightarrow> registry_reply + client_meta registry_event" where
  "activateClient c md s = (if \<not> mv_running s then Inl (Answered False) else Inr (cr_activate (mv_registryId s) c md))"

definition unregisterClient :: "string \<Rightarrow> mesh_server \<Rightarrow> registry_reply + client_meta registry_event" where
  "unregisterClient c s = (if \<not> mv_running s then Inl (Answered False) else Inr (cr_unregister (mv_registryId s) c))"

definition updateRegistered :: "string \<Rightarrow> client_meta \<Rightarrow> mesh_server \<Rightarrow> registry_reply + client_meta registry_event" where
  "updateRegistered c md s = Inr (cr_updateMetadata (mv_registryId s) c md)"

text \<open>What \<open>registerClient\<close> and \<open>reserveClient\<close> do with the reply: \<open>None\<close> when they throw.  A superseded node is asked to
  drop the client; the answer is not awaited.\<close>

definition registered_reply :: "string \<Rightarrow> registry_reply \<Rightarrow> mesh_server \<Rightarrow> bool option \<times> mesh_server" where
  "registered_reply c reply s =
     (case reply of
        Answered b \<Rightarrow> (Some b, s)
      | Registered (RegisterConflict n) \<Rightarrow> (Some False, s)
      | Registered (RegisterOk None) \<Rightarrow> (Some True, s)
      | Registered (RegisterOk (Some n)) \<Rightarrow> (Some True, mv_emit (KickSent n c) s)
      | _ \<Rightarrow> (None, s))"

section \<open>Queues per client\<close>

definition chain_of :: "mesh_server \<Rightarrow> string \<Rightarrow> registry_chain" where
  "chain_of s c = nullish (jget (mv_chains s) c) \<lparr>ch_tasks = [], ch_status = Waiting, ch_captured = None\<rparr>"

definition set_chain :: "string \<Rightarrow> registry_chain \<Rightarrow> mesh_server \<Rightarrow> mesh_server" where
  "set_chain c ch s = s\<lparr>mv_chains := (if ch_tasks ch = [] then jdelete c (mv_chains s) else jset c ch (mv_chains s))\<rparr>"

definition enqueueClientRegistry :: "string \<Rightarrow> registry_task \<Rightarrow> mesh_server \<Rightarrow> mesh_server" where
  "enqueueClientRegistry c t s = (let ch = chain_of s c in set_chain c (ch\<lparr>ch_tasks := ch_tasks ch @ [t]\<rparr>) s)"

definition end_task :: "string \<Rightarrow> mesh_server \<Rightarrow> mesh_server" where
  "end_task c s = set_chain c \<lparr>ch_tasks = tl (ch_tasks (chain_of s c)), ch_status = Waiting, ch_captured = None\<rparr> s"

definition task_calls :: "string \<Rightarrow> registry_reply + client_meta registry_event \<Rightarrow> mesh_server \<Rightarrow> mesh_server" where
  "task_calls c answer s =
     set_chain c ((chain_of s c)\<lparr>ch_status := (case answer of Inl reply \<Rightarrow> Replied reply | Inr e \<Rightarrow> Calling e)\<rparr>) s"

definition callbacks_of :: "mesh_server \<Rightarrow> string \<Rightarrow> callback_chain" where
  "callbacks_of s c = nullish (jget (mv_callbacks s) c) \<lparr>kb_tasks = [], kb_running = None\<rparr>"

definition set_callbacks :: "string \<Rightarrow> callback_chain \<Rightarrow> mesh_server \<Rightarrow> mesh_server" where
  "set_callbacks c kb s = s\<lparr>mv_callbacks := (if kb_tasks kb = [] then jdelete c (mv_callbacks s) else jset c kb (mv_callbacks s))\<rparr>"

definition enqueueClientCallback :: "string \<Rightarrow> callback_task \<Rightarrow> mesh_server \<Rightarrow> mesh_server" where
  "enqueueClientCallback c t s = (let kb = callbacks_of s c in set_callbacks c (kb\<lparr>kb_tasks := kb_tasks kb @ [t]\<rparr>) s)"

section \<open>Metadata of a stream\<close>

definition extractMeta :: "mesh_server_options \<Rightarrow> mesh_server \<Rightarrow> nat \<Rightarrow> client_meta" where
  "extractMeta opts s r = mx_extract opts (sx_meta (extra_of s r))"

definition xupd :: "nat \<Rightarrow> (stream_extra \<Rightarrow> stream_extra) \<Rightarrow> mesh_server \<Rightarrow> mesh_server" where
  "xupd r f s = s\<lparr>mv_extra := (mv_extra s)[r := f (mv_extra s ! r)]\<rparr>"

definition installMetaProxy :: "nat \<Rightarrow> mesh_server \<Rightarrow> mesh_server" where
  "installMetaProxy r = xupd r (\<lambda>x. x\<lparr>sx_proxied := True\<rparr>)"

definition syncStreamMeta :: "mesh_server_options \<Rightarrow> nat \<Rightarrow> mesh_server \<Rightarrow> mesh_server" where
  "syncStreamMeta opts r s =
     (let c = client_of s r; metadata = extractMeta opts s r in
      case jget (mv_clientMetadata s) c of
        Some existing \<Rightarrow>
          if \<not> shallowChanged existing metadata then s
          else enqueueClientRegistry c (SyncTask metadata) (s\<lparr>mv_clientMetadata := jset c metadata (mv_clientMetadata s)\<rparr>)
      | None \<Rightarrow> enqueueClientRegistry c (SyncTask metadata) (s\<lparr>mv_clientMetadata := jset c metadata (mv_clientMetadata s)\<rparr>))"

definition scheduleSyncStreamMeta :: "nat \<Rightarrow> mesh_server \<Rightarrow> mesh_server" where
  "scheduleSyncStreamMeta r s =
     (let c = client_of s r in
      if c \<in> set (mv_pendingSyncs s) then s
      else s\<lparr>mv_pendingSyncs := mv_pendingSyncs s @ [c], mv_microtasks := mv_microtasks s @ [(c, r)]\<rparr>)"

definition write_meta :: "nat \<Rightarrow> (client_meta \<Rightarrow> client_meta) \<Rightarrow> mesh_server \<Rightarrow> mesh_server" where
  "write_meta r f s =
     (let s1 = xupd r (\<lambda>x. x\<lparr>sx_meta := f (sx_meta x)\<rparr>) s
      in if sx_proxied (extra_of s1 r) then scheduleSyncStreamMeta r s1 else s1)"

definition run_microtask :: "mesh_server_options \<Rightarrow> string \<times> nat \<Rightarrow> mesh_server \<Rightarrow> mesh_server" where
  "run_microtask opts = (\<lambda>(c, r) s.
     let s1 = s\<lparr>mv_pendingSyncs := filter (\<lambda>d. d \<noteq> c) (mv_pendingSyncs s)\<rparr>
     in if isCurrentStream (mv_srpc s1) r then syncStreamMeta opts r s1 else s1)"

definition clientUpdateMetaFn :: "string \<Rightarrow> client_meta \<Rightarrow> mesh_server \<Rightarrow> bool \<times> mesh_server" where
  "clientUpdateMetaFn c metadata s =
     (case jget (sv_streamsByClientId (mv_srpc s)) c of
        None \<Rightarrow> (False, s)
      | Some r \<Rightarrow> (True, fold (\<lambda>(key, v). write_meta r (jset key v)) metadata s))"

section \<open>The overridden hooks\<close>

definition allow_supersede :: "mesh_server \<Rightarrow> nat \<Rightarrow> bool" where
  "allow_supersede s r \<longleftrightarrow>
     \<not> ((case ss_protocolVersion (sobj (mv_srpc s) r) of Some v \<Rightarrow> v \<ge> 2 | None \<Rightarrow> False) \<and> \<not> sx_supersede (extra_of s r))"

definition postEstablishCheck :: "mesh_server_options \<Rightarrow> nat \<Rightarrow> mesh_server \<Rightarrow> mesh_server" where
  "postEstablishCheck opts r s =
     (let s1 = installMetaProxy r s; c = client_of s1 r; metadata = extractMeta opts s1 r
      in enqueueClientRegistry c (ReserveTask r metadata (allow_supersede s1 r))
           (s1\<lparr>mv_clientMetadata := jset c metadata (mv_clientMetadata s1)\<rparr>))"

text \<open>\<open>onStreamActivated\<close> behind its first \<open>await\<close>.\<close>

definition stream_activated :: "mesh_server_options \<Rightarrow> nat \<Rightarrow> mesh_server \<Rightarrow> mesh_server" where
  "stream_activated opts r s = enqueueClientCallback (client_of s r) (ConnectedTask r) (syncStreamMeta opts r s)"

definition onStreamActivated :: "mesh_server_options \<Rightarrow> nat \<Rightarrow> mesh_server \<Rightarrow> mesh_server" where
  "onStreamActivated opts r s =
     (let c = client_of s r; metadata = extractMeta opts s r;
          s1 = s\<lparr>mv_clientMetadata := jset c metadata (mv_clientMetadata s)\<rparr>
      in if mv_instanceId s1 \<noteq> 0 then enqueueClientRegistry c (ActivateTask r metadata) s1 else stream_activated opts r s1)"

definition onStreamDisconnected :: "nat \<Rightarrow> mesh_server \<Rightarrow> mesh_server" where
  "onStreamDisconnected r s =
     (let published = (r \<in> set (mv_lifecycleConnectedStreams s))
      in enqueueClientRegistry (client_of s r) (UnregisterTask r published)
           (s\<lparr>mv_lifecycleConnectedStreams := filter (\<lambda>q. q \<noteq> r) (mv_lifecycleConnectedStreams s)\<rparr>))"

text \<open>The results of invocations over local streams go to the caller or back to the node that asked.\<close>

definition forward_reply :: "(client_error, string) result \<Rightarrow> forward_response" where
  "forward_reply outcome =
     (case outcome of
        Inr v \<Rightarrow> \<lparr>fr_data = Some v, fr_error = None, fr_errorName = None\<rparr>
      | Inl (ClientDisconnectedError c) \<Rightarrow>
          \<lparr>fr_data = None, fr_error = Some (''Client disconnected: '' @ c), fr_errorName = Some ''ClientDisconnectedError''\<rparr>
      | Inl (ClientNotFoundError c) \<Rightarrow>
          \<lparr>fr_data = None, fr_error = Some (''Client not found: '' @ c), fr_errorName = Some ''ClientNotFoundError''\<rparr>
      | Inl (ClientInvocationError e) \<Rightarrow> \<lparr>fr_data = None, fr_error = Some e, fr_errorName = Some ''ClientInvocationError''\<rparr>
      | Inl (OtherError e) \<Rightarrow> \<lparr>fr_data = None, fr_error = Some e, fr_errorName = Some ''Error''\<rparr>)"

definition answer_origin :: "invocation_origin \<Rightarrow> (client_error, string) result \<Rightarrow> mesh_server \<Rightarrow> mesh_server" where
  "answer_origin origin outcome =
     mv_emit (case origin of CalledBy i \<Rightarrow> InvocationResult i outcome | ForwardedBy f \<Rightarrow> ForwardAnswered f (forward_reply outcome))"

definition settled_result :: "invocation_outcome \<Rightarrow> (client_error, string) result" where
  "settled_result out = (case out of Resolved v \<Rightarrow> Inr v | Rejected e \<Rightarrow> Inl (OtherError e))"

definition react :: "mesh_server_options \<Rightarrow> server_output \<Rightarrow> mesh_server \<Rightarrow> mesh_server" where
  "react opts out s =
     (case out of
        Disconnected r cause \<Rightarrow> onStreamDisconnected r s
      | ActivatedHook r \<Rightarrow> onStreamActivated opts r s
      | Settled r requestId outcome \<Rightarrow>
          (case jget (mv_local s) (r, requestId) of
             Some origin \<Rightarrow> answer_origin origin (settled_result outcome) (s\<lparr>mv_local := jdelete (r, requestId) (mv_local s)\<rparr>)
           | None \<Rightarrow> s)
      | _ \<Rightarrow> s)"

text \<open>A step of the RPC server with its hooks.  The extra fields of a new stream come from its request; its
  \<open>postEstablishCheck\<close> runs when it was not refused.\<close>

definition new_extras :: "server_event \<Rightarrow> stream_extra list" where
  "new_extras e = (case e of Connect now streamId info \<Rightarrow> [\<lparr>sx_meta = si_meta info, sx_supersede = si_supersede info, sx_proxied = False\<rparr>] | _ \<Rightarrow> [])"

definition srpc_event :: "mesh_server_options \<Rightarrow> server_event \<Rightarrow> mesh_server \<Rightarrow> mesh_server" where
  "srpc_event opts e s =
     (let n = length (sv_objs (mv_srpc s)); t = server_step (mv_srpc s) e;
          grown = length (sv_objs t) > n;
          s1 = s\<lparr>mv_srpc := t, mv_extra := mv_extra s @ (if grown then new_extras e else [])\<rparr>;
          s2 = fold (react opts) (drop (length (sv_log (mv_srpc s))) (sv_log t)) s1
      in if grown \<and> ss_phase (sobj t n) = Checking then postEstablishCheck opts n s2 else s2)"

definition cleanup_event :: "mesh_server_options \<Rightarrow> nat \<Rightarrow> disconnect_cause \<Rightarrow> mesh_server \<Rightarrow> mesh_server" where
  "cleanup_event opts r cause = srpc_event opts (SubclassCleanup r cause)"

section \<open>The queued functions\<close>

text \<open>Each function queued for a client, up to its call of the registry and from the reply on.\<close>

definition start_reserve :: "string \<Rightarrow> nat \<Rightarrow> client_meta \<Rightarrow> bool \<Rightarrow> mesh_server \<Rightarrow> mesh_server" where
  "start_reserve c r md allow s =
     (if ss_lastPingAt (sobj (mv_srpc s) r) < 0 \<or> \<not> isCurrentStream (mv_srpc s) r
      then add_continuation (CheckAnswered r (Inr True)) (end_task c s)
      else task_calls c (reserveClient c md allow s) s)"

definition finish_reserve :: "mesh_server_options \<Rightarrow> string \<Rightarrow> nat \<Rightarrow> registry_reply \<Rightarrow> mesh_server \<Rightarrow> mesh_server" where
  "finish_reserve opts c r reply s =
     (case registered_reply c reply s of
        (None, s1) \<Rightarrow> add_continuation (CheckAnswered r (Inl ())) s1
      | (Some True, s1) \<Rightarrow> add_continuation (CheckAnswered r (Inr False)) s1
      | (Some False, s1) \<Rightarrow> add_continuation (CheckAnswered r (Inr True)) (cleanup_event opts r CauseConflict s1))"

definition start_activate :: "string \<Rightarrow> nat \<Rightarrow> client_meta \<Rightarrow> mesh_server \<Rightarrow> mesh_server" where
  "start_activate c r md s =
     (if ss_lastPingAt (sobj (mv_srpc s) r) < 0 \<or> jget (sv_streamsByClientId (mv_srpc s)) c \<noteq> Some r
      then add_continuation (ActivationAnswered r (Some False)) (end_task c s)
      else task_calls c (activateClient c md s) s)"

definition finish_activate :: "nat \<Rightarrow> registry_reply \<Rightarrow> mesh_server \<Rightarrow> mesh_server" where
  "finish_activate r reply = add_continuation (ActivationAnswered r (case reply of Answered b \<Rightarrow> Some b | _ \<Rightarrow> None))"

definition start_unregister :: "string \<Rightarrow> nat \<Rightarrow> mesh_server \<Rightarrow> mesh_server" where
  "start_unregister c r s =
     (let asks = task_calls c (unregisterClient c s) (set_chain c ((chain_of s c)\<lparr>ch_captured := jget (mv_clientMetadata s) c\<rparr>) s)
      in case getCurrentStreamByClientId (mv_srpc s) c of
           Some q \<Rightarrow> if q \<noteq> r then end_task c s else asks
         | None \<Rightarrow> asks)"

definition finish_unregister :: "string \<Rightarrow> nat \<Rightarrow> bool \<Rightarrow> client_meta option \<Rightarrow> registry_reply \<Rightarrow> mesh_server \<Rightarrow> mesh_server" where
  "finish_unregister c r published captured reply s =
     (case reply of
        Answered removed \<Rightarrow>
          let s1 = s\<lparr>mv_clientMetadata := jdelete c (mv_clientMetadata s)\<rparr>
          in (case captured of
                Some md \<Rightarrow> if removed \<and> published then enqueueClientCallback c (DisconnectedTask r md) s1 else s1
              | None \<Rightarrow> s1)
      | _ \<Rightarrow> s)"

definition start_backfill :: "string \<Rightarrow> nat \<Rightarrow> client_meta \<Rightarrow> bool \<Rightarrow> mesh_server \<Rightarrow> mesh_server" where
  "start_backfill c r md allow s =
     (if getCurrentStreamByClientId (mv_srpc s) c \<noteq> Some r then end_task c s
      else task_calls c (if ss_isActivated (sobj (mv_srpc s) r) then registerClient c md allow s else reserveClient c md allow s) s)"

definition finish_backfill :: "mesh_server_options \<Rightarrow> string \<Rightarrow> nat \<Rightarrow> registry_reply \<Rightarrow> mesh_server \<Rightarrow> mesh_server" where
  "finish_backfill opts c r reply s =
     (case registered_reply c reply s of
        (Some False, s1) \<Rightarrow> cleanup_event opts r CauseConflict s1
      | (_, s1) \<Rightarrow> s1)"

fun start_task :: "string \<Rightarrow> registry_task \<Rightarrow> mesh_server \<Rightarrow> mesh_server" where
  "start_task c (ReserveTask r md allow) s = start_reserve c r md allow s"
| "start_task c (ActivateTask r md) s = start_activate c r md s"
| "start_task c (UnregisterTask r published) s = start_unregister c r s"
| "start_task c (SyncTask md) s = task_calls c (updateRegistered c md s) s"
| "start_task c (BackfillTask r md allow) s = start_backfill c r md allow s"

fun task_replied :: "mesh_server_options \<Rightarrow> string \<Rightarrow> registry_task \<Rightarrow> client_meta option \<Rightarrow> registry_reply \<Rightarrow> mesh_server \<Rightarrow> mesh_server" where
  "task_replied opts c (ReserveTask r md allow) captured reply s = finish_reserve opts c r reply s"
| "task_replied opts c (ActivateTask r md) captured reply s = finish_activate r reply s"
| "task_replied opts c (UnregisterTask r published) captured reply s = finish_unregister c r published captured reply s"
| "task_replied opts c (SyncTask md) captured reply s = s"
| "task_replied opts c (BackfillTask r md allow) captured reply s = finish_backfill opts c r reply s"

definition finish_task :: "mesh_server_options \<Rightarrow> string \<Rightarrow> registry_task \<Rightarrow> client_meta option \<Rightarrow> registry_reply \<Rightarrow> mesh_server \<Rightarrow> mesh_server" where
  "finish_task opts c t captured reply s = task_replied opts c t captured reply (end_task c s)"

text \<open>The callbacks of the user run one after the other; an error of one is logged.\<close>

definition end_callback :: "string \<Rightarrow> mesh_server \<Rightarrow> mesh_server" where
  "end_callback c s =
     (let kb = callbacks_of s c; s1 = set_callbacks c \<lparr>kb_tasks = tl (kb_tasks kb), kb_running = None\<rparr> s
      in case kb_tasks kb of ConnectedTask r # _ \<Rightarrow> add_continuation (HookDone r) s1 | _ \<Rightarrow> s1)"

definition call_callback :: "string \<Rightarrow> client_meta \<Rightarrow> nat \<Rightarrow> mesh_server \<Rightarrow> mesh_server" where
  "call_callback c md i s =
     (let kb = callbacks_of s c in
      case kb_tasks kb of
        ConnectedTask r # _ \<Rightarrow>
          if i < mv_connectedCallbacks s
          then mv_emit (ClientConnected r i c md) (set_callbacks c (kb\<lparr>kb_running := Some (md, i)\<rparr>) s) else end_callback c s
      | DisconnectedTask r _ # _ \<Rightarrow>
          if i < mv_disconnectedCallbacks s
          then mv_emit (ClientDisconnected r i c md) (set_callbacks c (kb\<lparr>kb_running := Some (md, i)\<rparr>) s) else end_callback c s
      | [] \<Rightarrow> s)"

definition start_callback :: "string \<Rightarrow> callback_task \<Rightarrow> mesh_server \<Rightarrow> mesh_server" where
  "start_callback c t s =
     (case t of
        ConnectedTask r \<Rightarrow>
          if ss_lastPingAt (sobj (mv_srpc s) r) < 0 \<or> jget (sv_streamsByClientId (mv_srpc s)) c \<noteq> Some r then end_callback c s
          else (case jget (mv_clientMetadata s) c of
                  None \<Rightarrow> end_callback c s
                | Some md \<Rightarrow>
                    call_callback c md 0
                      (s\<lparr>mv_lifecycleConnectedStreams := set_add r (mv_lifecycleConnectedStreams s)\<rparr>))
      | DisconnectedTask r md \<Rightarrow> call_callback c md 0 s)"

definition run_continuation :: "mesh_server_options \<Rightarrow> nat \<Rightarrow> continuation \<Rightarrow> mesh_server \<Rightarrow> mesh_server" where
  "run_continuation opts now k s =
     (case k of
        CheckAnswered r result \<Rightarrow> srpc_event opts (CheckDone r result) s
      | ActivationAnswered r None \<Rightarrow> srpc_event opts (ActivatedDone now r False) s
      | ActivationAnswered r (Some False) \<Rightarrow> add_continuation (HookDone r) (cleanup_event opts r CauseDisconnect s)
      | ActivationAnswered r (Some True) \<Rightarrow> stream_activated opts r s
      | HookDone r \<Rightarrow> srpc_event opts (ActivatedDone now r True) s)"

section \<open>Calls by client id\<close>

definition clientInvokeFn :: "mesh_server_options \<Rightarrow> invocation_origin \<Rightarrow> string \<Rightarrow> string \<Rightarrow> string \<Rightarrow> int option \<Rightarrow> string \<Rightarrow> nat \<Rightarrow> mesh_server \<Rightarrow> mesh_server" where
  "clientInvokeFn opts origin c prefix data timeoutMs requestId now s =
     (case jget (sv_streamsByClientId (mv_srpc s)) c of
        None \<Rightarrow> answer_origin origin (Inl (ClientDisconnectedError c)) s
      | Some r \<Rightarrow>
          srpc_event opts (Invoke r prefix data requestId now (nullish timeoutMs 30000))
            (s\<lparr>mv_local := jset (r, requestId) origin (mv_local s)\<rparr>))"

definition service_invoke :: "nat \<Rightarrow> string \<Rightarrow> string \<Rightarrow> string \<Rightarrow> int option \<Rightarrow> mesh_server \<Rightarrow> mesh_server" where
  "service_invoke i c prefix data timeoutMs s =
     (if \<not> mv_running s then mv_emit (InvocationResult i (Inl (ClientNotFoundError c))) s
      else add_service_op (InvokeLookup i c prefix data timeoutMs) s)"

definition invoke_found :: "mesh_server_options \<Rightarrow> nat \<Rightarrow> string \<Rightarrow> string \<Rightarrow> string \<Rightarrow> int option \<Rightarrow> client_meta registered_client option
    \<Rightarrow> string \<Rightarrow> nat \<Rightarrow> mesh_server \<Rightarrow> mesh_server" where
  "invoke_found opts i c prefix data timeoutMs client requestId now s =
     (case client of
        None \<Rightarrow> mv_emit (InvocationResult i (Inl (ClientNotFoundError c))) s
      | Some client \<Rightarrow>
          if rc_nodeId client = mv_instanceId s then clientInvokeFn opts (CalledBy i) c prefix data timeoutMs requestId now s
          else add_service_op (InvokeRemote i c) (mv_emit (InvocationForwarded i (rc_nodeId client) c prefix data timeoutMs) s))"

definition forward_result :: "string \<Rightarrow> forward_response \<Rightarrow> (client_error, string) result" where
  "forward_result c response =
     (case fr_error response of
        Some e \<Rightarrow> if fr_errorName response = Some ''ClientDisconnectedError'' then Inl (ClientDisconnectedError c) else Inl (ClientInvocationError e)
      | None \<Rightarrow> Inr (nullish (fr_data response) []))"

definition updateClientMetadata :: "string \<Rightarrow> client_meta \<Rightarrow> mesh_server \<Rightarrow> mesh_server" where
  "updateClientMetadata c md s =
     (let previous = jget (mv_clientMetadata s) c; s1 = s\<lparr>mv_clientMetadata := jset c md (mv_clientMetadata s)\<rparr>
      in if \<not> mv_running s1 then add_service_op (UpdateDone c False previous) s1 else add_service_op (UpdateLookup c md previous) s1)"

definition update_found :: "string \<Rightarrow> client_meta \<Rightarrow> client_meta option \<Rightarrow> client_meta registered_client option \<Rightarrow> mesh_server \<Rightarrow> mesh_server" where
  "update_found c md previous client s =
     (case client of
        None \<Rightarrow> add_service_op (UpdateDone c False previous) s
      | Some client \<Rightarrow>
          if rc_nodeId client = mv_instanceId s
          then add_service_op (UpdateOwn c (mv_registryId s) md previous) (snd (clientUpdateMetaFn c md s))
          else add_service_op (UpdateRemote c previous) (mv_emit (UpdateAsked (rc_nodeId client) c md) s))"

definition update_done :: "string \<Rightarrow> bool \<Rightarrow> client_meta option \<Rightarrow> mesh_server \<Rightarrow> mesh_server" where
  "update_done c updated previous s =
     mv_emit (MetadataUpdated c updated)
       (if updated then s
        else s\<lparr>mv_clientMetadata := (case previous of Some p \<Rightarrow> jset c p (mv_clientMetadata s) | None \<Rightarrow> jdelete c (mv_clientMetadata s))\<rparr>)"

text \<open>What answers an operation: Redis, with its result taken from the store, or its failure; another node.\<close>

datatype service_answer =
    FromRedis
  | RedisFails string
  | NodeUpdated bool
  | NodeForwarded forward_response
  | NodeFails string

definition service_answers :: "mesh_server_options \<Rightarrow> service_op \<Rightarrow> service_answer \<Rightarrow> string \<Rightarrow> nat \<Rightarrow> mesh_server \<Rightarrow> mesh_server" where
  "service_answers opts op answer requestId now s =
     (case (op, answer) of
        (UpdateLookup c md previous, FromRedis) \<Rightarrow> update_found c md previous (getClient c (mv_store s)) s
      | (UpdateLookup c md previous, RedisFails e) \<Rightarrow> mv_emit (MetadataUpdateThrew c) s
      | (UpdateOwn c n md previous, FromRedis) \<Rightarrow>
          (case updateMetadata (mx_stringify opts) (mx_recode opts) c n (Some md) (mv_store s) of
             (Inl e, store) \<Rightarrow> mv_emit (MetadataUpdateThrew c) s
           | (Inr b, store) \<Rightarrow> add_service_op (UpdateDone c b previous) (s\<lparr>mv_store := store\<rparr>))
      | (UpdateOwn c n md previous, RedisFails e) \<Rightarrow> mv_emit (MetadataUpdateThrew c) s
      | (UpdateRemote c previous, NodeUpdated b) \<Rightarrow> add_service_op (UpdateDone c b previous) s
      | (UpdateRemote c previous, NodeFails e) \<Rightarrow> add_service_op (UpdateDone c False previous) s
      | (UpdateDone c b previous, _) \<Rightarrow> update_done c b previous s
      | (InvokeLookup i c prefix data timeoutMs, FromRedis) \<Rightarrow>
          invoke_found opts i c prefix data timeoutMs (getClient c (mv_store s)) requestId now s
      | (InvokeLookup i c prefix data timeoutMs, RedisFails e) \<Rightarrow> mv_emit (InvocationResult i (Inl (OtherError e))) s
      | (InvokeRemote i c, NodeForwarded response) \<Rightarrow> mv_emit (InvocationResult i (forward_result c response)) s
      | (InvokeRemote i c, NodeFails e) \<Rightarrow> mv_emit (InvocationResult i (Inl (OtherError e))) s
      | _ \<Rightarrow> add_service_op op s)"

section \<open>Requests of other nodes\<close>

definition kick_client :: "mesh_server_options \<Rightarrow> string \<Rightarrow> mesh_server \<Rightarrow> mesh_server" where
  "kick_client opts c s =
     mv_emit (Kicked c True)
       (case getCurrentStreamByClientId (mv_srpc s) c of Some r \<Rightarrow> cleanup_event opts r CauseSupersede s | None \<Rightarrow> s)"

definition update_meta_request :: "string \<Rightarrow> client_meta \<Rightarrow> mesh_server \<Rightarrow> mesh_server" where
  "update_meta_request c md s = (let (updated, s1) = clientUpdateMetaFn c md s in mv_emit (UpdateAnswered updated) s1)"

definition node_cleaned_up :: "nat \<Rightarrow> mesh_server \<Rightarrow> mesh_server" where
  "node_cleaned_up n s =
     (let (orphaned, store) = cleanupNode n (mv_store s); s1 = s\<lparr>mv_store := store\<rparr>
      in if orphaned \<noteq> [] then mv_emit (NodeClientsOrphaned n orphaned) s1 else s1)"

section \<open>Joining and leaving the mesh\<close>

definition mesh_start_done :: "mesh_server \<Rightarrow> mesh_server" where
  "mesh_start_done s = s\<lparr>mv_registryId := mv_instanceId s, mv_running := True, mv_phase := StartedMesh\<rparr>"

definition backfill_stream :: "mesh_server_options \<Rightarrow> string \<times> nat \<Rightarrow> mesh_server \<Rightarrow> mesh_server" where
  "backfill_stream opts = (\<lambda>(c, r) s.
     let s1 = installMetaProxy r s;
         s2 = (if jhas (mv_clientMetadata s1) c then s1
               else s1\<lparr>mv_clientMetadata := jset c (extractMeta opts s1 r) (mv_clientMetadata s1)\<rparr>);
         metadata = the (jget (mv_clientMetadata s2) c)
     in enqueueClientRegistry c (BackfillTask r metadata (allow_supersede s2 r)) s2)"

definition backfill :: "mesh_server_options \<Rightarrow> mesh_server \<Rightarrow> mesh_server" where
  "backfill opts s =
     (let pending = fold (\<lambda>(c, r). jset c r) (sv_pendingStreamsByClientId (mv_srpc s)) [];
          streams = fold (\<lambda>(c, r) m. if jhas m c then m else jset c r m) (sv_streamsByClientId (mv_srpc s)) pending
      in fold (backfill_stream opts) streams (s\<lparr>mv_phase := MeshUp\<rparr>))"

definition mesh_server_stop :: "mesh_server \<Rightarrow> mesh_server" where
  "mesh_server_stop s =
     (let s1 = s\<lparr>mv_running := False\<rparr> in s1\<lparr>mv_phase := (if mv_instanceId s1 \<noteq> 0 then StopCleanup else StopMesh True)\<rparr>)"

definition mesh_stop_done :: "bool \<Rightarrow> mesh_server \<Rightarrow> mesh_server" where
  "mesh_stop_done cleaned s =
     (let s1 = s\<lparr>mv_instanceId := 0, mv_phase := NotStarted\<rparr> in if cleaned then s1\<lparr>mv_clientMetadata := []\<rparr> else s1)"

section \<open>Events\<close>

text \<open>A call of Redis is executed and answered, executed with its answer lost, or not executed.\<close>

datatype redis_outcome = Executed | AnswerLost string | NotExecuted string

definition redis_call :: "mesh_server_options \<Rightarrow> client_meta registry_event \<Rightarrow> redis_outcome \<Rightarrow> mesh_server \<Rightarrow> registry_reply \<times> mesh_server" where
  "redis_call opts e outcome s =
     (let reply = call_reply (mx_stringify opts) (mx_recode opts) (mv_store s) e;
          s1 = s\<lparr>mv_store := registry_step (mx_stringify opts) (mx_recode opts) (mv_store s) e\<rparr>
      in case outcome of Executed \<Rightarrow> (reply, s1) | AnswerLost err \<Rightarrow> (Threw err, s1) | NotExecuted err \<Rightarrow> (Threw err, s))"

datatype mesh_server_event =
    Srpc server_event
  | SetMeta nat string string
  | DeleteMeta nat string
  | Microtask
  | StartTask string
  | RedisDone string redis_outcome
  | FinishTask string
  | RunCallback string
  | Continue nat nat
  | CallUpdate string client_meta
  | CallInvokeClient nat string string string "int option"
  | ServiceAnswers nat service_answer string nat
  | KickRequest string
  | UpdateMetaRequest string client_meta
  | ForwardRequest nat string string string "int option" string nat
  | NodeCleanedUp nat
  | Elsewhere "client_meta registry_event"
  | CallMeshStart
  | MeshInstance nat
  | MeshStartDone bool
  | Backfill
  | CallMeshStop
  | StopCleanupDone redis_outcome
  | MeshStopDone

text \<open>The server itself resumes the chain of a stream only through its hooks.\<close>

fun from_outside :: "server_event \<Rightarrow> bool" where
  "from_outside (CheckDone r result) = False"
| "from_outside (ActivatedDone now r ok) = False"
| "from_outside (Invoke r prefix data requestId now timeoutMs) = True"
| "from_outside e = True"

text \<open>Another node acts under its own instance id, which is never one of this node; time is the same for all.\<close>

fun of_node :: "'m registry_event \<Rightarrow> nat option" where
  "of_node (Register c n md allow st now) = Some n"
| "of_node (Activate c n md) = Some n"
| "of_node (Unregister c n) = Some n"
| "of_node (UpdateMetadata c n md) = Some n"
| "of_node (CleanupNode n) = None"
| "of_node (Elapse dt) = None"

definition of_others :: "mesh_server \<Rightarrow> 'm registry_event \<Rightarrow> bool" where
  "of_others s e \<longleftrightarrow> of_node e \<noteq> Some (mv_registryId s) \<and> of_node e \<noteq> Some (mv_instanceId s)"

text \<open>An instance id is new when no registration of it exists and it is above the ids this node had before.\<close>

definition fresh_instance :: "mesh_server \<Rightarrow> nat \<Rightarrow> bool" where
  "fresh_instance s i \<longleftrightarrow> mv_instanceId s < i \<and> mv_registryId s < i \<and> i \<notin> (rg_nodeId \<circ> snd) ` set (cs_clients (mv_store s))"

definition fresh_invocation :: "mesh_server \<Rightarrow> string \<Rightarrow> bool" where
  "fresh_invocation s requestId \<longleftrightarrow>
     requestId \<noteq> [] \<and> \<not> list_ex (\<lambda>out. case out of Invoked r i \<Rightarrow> i = requestId | _ \<Rightarrow> False) (sv_log (mv_srpc s))"

fun mesh_server_step :: "mesh_server_options \<Rightarrow> mesh_server \<Rightarrow> mesh_server_event \<Rightarrow> mesh_server" where
  "mesh_server_step opts s (Srpc e) = (if from_outside e then srpc_event opts e s else s)"
| "mesh_server_step opts s (SetMeta r key v) = (if r < length (mv_extra s) then write_meta r (jset key v) s else s)"
| "mesh_server_step opts s (DeleteMeta r key) = (if r < length (mv_extra s) then write_meta r (jdelete key) s else s)"
| "mesh_server_step opts s Microtask =
     (case mv_microtasks s of m # rest \<Rightarrow> run_microtask opts m (s\<lparr>mv_microtasks := rest\<rparr>) | [] \<Rightarrow> s)"
| "mesh_server_step opts s (StartTask c) =
     (case (ch_tasks (chain_of s c), ch_status (chain_of s c)) of (t # ts, Waiting) \<Rightarrow> start_task c t s | _ \<Rightarrow> s)"
| "mesh_server_step opts s (RedisDone c outcome) =
     (case ch_status (chain_of s c) of
        Calling e \<Rightarrow> (let (reply, s1) = redis_call opts e outcome s in set_chain c ((chain_of s1 c)\<lparr>ch_status := Replied reply\<rparr>) s1)
      | _ \<Rightarrow> s)"
| "mesh_server_step opts s (FinishTask c) =
     (case (ch_tasks (chain_of s c), ch_status (chain_of s c)) of
        (t # ts, Replied reply) \<Rightarrow> finish_task opts c t (ch_captured (chain_of s c)) reply s | _ \<Rightarrow> s)"
| "mesh_server_step opts s (RunCallback c) =
     (case (kb_tasks (callbacks_of s c), kb_running (callbacks_of s c)) of
        (t # ts, None) \<Rightarrow> start_callback c t s
      | (t # ts, Some (md, i)) \<Rightarrow> call_callback c md (Suc i) s
      | _ \<Rightarrow> s)"
| "mesh_server_step opts s (Continue k now) =
     (if k < length (mv_continuations s)
      then run_continuation opts now (mv_continuations s ! k)
             (s\<lparr>mv_continuations := take k (mv_continuations s) @ drop (Suc k) (mv_continuations s)\<rparr>)
      else s)"
| "mesh_server_step opts s (CallUpdate c md) = updateClientMetadata c md s"
| "mesh_server_step opts s (CallInvokeClient i c prefix data timeoutMs) = service_invoke i c prefix data timeoutMs s"
| "mesh_server_step opts s (ServiceAnswers k answer requestId now) =
     (if k < length (mv_ops s) \<and> fresh_invocation s requestId
      then service_answers opts (mv_ops s ! k) answer requestId now (s\<lparr>mv_ops := take k (mv_ops s) @ drop (Suc k) (mv_ops s)\<rparr>)
      else s)"
| "mesh_server_step opts s (KickRequest c) = kick_client opts c s"
| "mesh_server_step opts s (UpdateMetaRequest c md) = update_meta_request c md s"
| "mesh_server_step opts s (ForwardRequest f c prefix data timeoutMs requestId now) =
     (if fresh_invocation s requestId then clientInvokeFn opts (ForwardedBy f) c prefix data timeoutMs requestId now s else s)"
| "mesh_server_step opts s (NodeCleanedUp n) = node_cleaned_up n s"
| "mesh_server_step opts s (Elsewhere e) =
     (if of_others s e then s\<lparr>mv_store := registry_step (mx_stringify opts) (mx_recode opts) (mv_store s) e\<rparr> else s)"
| "mesh_server_step opts s CallMeshStart = (if mv_phase s = NotStarted then s\<lparr>mv_phase := StartingMesh False\<rparr> else s)"
| "mesh_server_step opts s (MeshInstance i) =
     (if mv_phase s = StartingMesh False \<and> fresh_instance s i then s\<lparr>mv_instanceId := i, mv_phase := StartingMesh True\<rparr> else s)"
| "mesh_server_step opts s (MeshStartDone ok) =
     (if ok \<and> mv_phase s = StartingMesh True then mesh_start_done s
      else if \<not> ok \<and> mv_phase s \<in> {StartingMesh False, StartingMesh True} then s\<lparr>mv_phase := NotStarted\<rparr> else s)"
| "mesh_server_step opts s Backfill = (if mv_phase s = StartedMesh then backfill opts s else s)"
| "mesh_server_step opts s CallMeshStop = (if mv_phase s \<in> {NotStarted, MeshUp} then mesh_server_stop s else s)"
| "mesh_server_step opts s (StopCleanupDone outcome) =
     (if mv_phase s = StopCleanup
      then (let (reply, s1) = redis_call opts (cr_cleanupNode (mv_registryId s)) outcome s
            in s1\<lparr>mv_phase := StopMesh (case reply of Threw e \<Rightarrow> False | _ \<Rightarrow> True)\<rparr>)
      else s)"
| "mesh_server_step opts s MeshStopDone = (case mv_phase s of StopMesh cleaned \<Rightarrow> mesh_stop_done cleaned s | _ \<Rightarrow> s)"

abbreviation mesh_server_run :: "mesh_server_options \<Rightarrow> mesh_server \<Rightarrow> mesh_server_event list \<Rightarrow> mesh_server" where
  "mesh_server_run opts s es \<equiv> run_events (mesh_server_step opts) s es"

end
