(* ===== verification/MeshServerFacts.thy ===== *)
theory MeshServerFacts
  imports MeshServer SrpcServerCorrect
begin

text \<open>
  What holds in every reachable state of a mesh server: a client whose connection is gone leaves no registration
  behind on this node, except one that a queued function will remove.  The registry is used through what a call can do
  to the holder of a client (\<open>client_registry\<close>), the RPC server through the notices of the streams it gives up
  (\<open>notices\<close>).
\<close>

section \<open>The registry as the server sees it\<close>

fun call_client :: "'m registry_event \<Rightarrow> string option" where
  "call_client (Register c n md allow st now) = Some c"
| "call_client (Activate c n md) = Some c"
| "call_client (Unregister c n) = Some c"
| "call_client (UpdateMetadata c n md) = Some c"
| "call_client (CleanupNode n) = None"
| "call_client (Elapse dt) = None"

fun claims :: "'m registry_event \<Rightarrow> bool \<Rightarrow> bool" where
  "claims (Register c n md allow st now) own = True"
| "claims (Unregister c n) own = False"
| "claims e own = own"

locale client_registry =
  fixes exec :: "'s \<Rightarrow> 'm registry_event \<Rightarrow> 's"
    and holder :: "'s \<Rightarrow> string \<Rightarrow> nat option"
    and usable :: "'s \<Rightarrow> bool"
  assumes exec_usable: "usable s \<Longrightarrow> usable (exec s e)"
    and exec_holder: "usable s \<Longrightarrow> holder (exec s e) c = Some n \<Longrightarrow>
          holder s c = Some n \<or> of_node e = Some n \<and> call_client e = Some c \<and> claims e False"
    and unregister_frees: "usable s \<Longrightarrow> holder (exec s (Unregister c n)) c \<noteq> Some n"
begin

lemma others_take_nothing: "usable s \<Longrightarrow> of_node e \<noteq> Some n \<Longrightarrow> holder (exec s e) c = Some n \<Longrightarrow> holder s c = Some n"
  using exec_holder by blast

lemma claims_bound:
  assumes "usable s" "holder (exec s e) c = Some n" "of_node e = Some n" "call_client e = Some c"
  shows "claims e (holder s c = Some n)"
  using assms exec_holder [OF assms(1,2)] unregister_frees [OF assms(1)]
  by (cases e) auto

lemma claims_other:
  assumes "usable s" "holder (exec s e) c = Some n" "of_node e \<noteq> Some n \<or> call_client e \<noteq> Some c"
  shows "holder s c = Some n"
  using assms exec_holder [OF assms(1,2)] by blast

end

lemma registry_step_holder:
  assumes ok: "registry_ok s" and h: "owner (registry_step f g s e) c = Some n"
  shows "owner s c = Some n \<or> of_node e = Some n \<and> call_client e = Some c \<and> claims e False"
proof (cases e)
  case (Register d k md allow st now)
  show ?thesis
  proof (cases "encodeMetadata f g md")
    case (Inl a)
    with h Register show ?thesis by (simp add: registerWithState_def)
  next
    case (Inr b)
    then obtain m has where b: "encodeMetadata f g md = Inr (m, has)" by (cases b) simp
    obtain res t where t: "REGISTER_SCRIPT d k m has now allow st s = (res, t)" by force
    have "registry_step f g s e = t"
      by (simp add: Register registerWithState_def b t split: if_splits)
    with h REGISTER_SCRIPT_views [OF t] Register show ?thesis by (cases "res = -2") (auto split: if_splits)
  qed
next
  case (Activate d k md)
  show ?thesis
  proof (cases "encodeMetadata f g md")
    case (Inl a)
    with h Activate show ?thesis by (simp add: activate_def)
  next
    case (Inr b)
    then obtain m has where b: "encodeMetadata f g md = Inr (m, has)" by (cases b) simp
    obtain res t where t: "ACTIVATE_SCRIPT d k m has s = (res, t)" by force
    with h ACTIVATE_SCRIPT_views [OF t] Activate b show ?thesis by (cases "res = 1") (auto simp: activate_def)
  qed
next
  case (Unregister d k)
  obtain res t where t: "UNREGISTER_SCRIPT d k s = (res, t)" by force
  with h UNREGISTER_SCRIPT_views [OF t] Unregister show ?thesis by (cases "res = 1") (auto simp: unregister_def split: if_splits)
next
  case (UpdateMetadata d k md)
  show ?thesis
  proof (cases "encodeMetadata f g md")
    case (Inl a)
    with h UpdateMetadata show ?thesis by (simp add: updateMetadata_def)
  next
    case (Inr b)
    then obtain m has where b: "encodeMetadata f g md = Inr (m, has)" by (cases b) simp
    obtain res t where t: "UPDATE_METADATA_SCRIPT d k m has s = (res, t)" by force
    with h UPDATE_METADATA_SCRIPT_views [OF t] UpdateMetadata b show ?thesis by (cases "res = 1") (auto simp: updateMetadata_def)
  qed
next
  case (CleanupNode k)
  obtain res t where t: "CLEANUP_NODE_SCRIPT k s = (res, t)" by force
  with h CLEANUP_NODE_SCRIPT_views [OF ok t] CleanupNode show ?thesis by (auto simp: cleanupNode_def split: if_splits)
next
  case (Elapse dt)
  with h show ?thesis by (auto simp: owner_def clients_hash_def split: if_splits)
qed

lemma unregister_script_frees: "owner (registry_step f g s (Unregister c n)) c \<noteq> Some n"
proof -
  obtain res t where t: "UNREGISTER_SCRIPT c n s = (res, t)" by force
  with UNREGISTER_SCRIPT_views [OF t] show ?thesis by (cases "res = 1") (auto simp: unregister_def)
qed

interpretation clients: client_registry "registry_step f g" owner registry_ok
  by unfold_locales (fact registry_step_keeps, erule (1) registry_step_holder, rule unregister_script_frees)

section \<open>The notices of the RPC server\<close>

definition notices :: "srpc_server \<Rightarrow> srpc_server \<Rightarrow> bool" where
  "notices s t \<longleftrightarrow> length (sv_objs s) \<le> length (sv_objs t)
     \<and> (\<forall>r<length (sv_objs s). ss_id (sobj t r) = ss_id (sobj s r) \<and> ss_clientId (sobj t r) = ss_clientId (sobj s r))
     \<and> (\<exists>new. sv_log t = sv_log s @ new \<and> (\<forall>r. registered s r \<longrightarrow> registered t r \<or> disconnected r new))"

lemma notices_refl: "notices s s"
  by (simp add: notices_def)

lemma notices_trans: "notices s t \<Longrightarrow> notices t u \<Longrightarrow> notices s u"
  unfolding notices_def by (elim conjE exE) (auto 0 3)

lemma notices_emit [intro]: "notices s t \<Longrightarrow> notices s (emit os t)"
  by (erule notices_trans) (auto simp: notices_def)

lemma notices_supd [intro]:
  assumes "notices s t" "r < length (sv_objs t)" "ss_id (f (sobj t r)) = ss_id (sobj t r)" "ss_clientId (f (sobj t r)) = ss_clientId (sobj t r)"
  shows "notices s (supd r f t)"
  by (rule notices_trans [OF assms(1)]) (use assms in \<open>auto simp: notices_def\<close>)

lemma registered_maps [simp]:
  "registered (s\<lparr>sv_pendingClientRequests := pr\<rparr>) = registered s" "registered (s\<lparr>sv_running := ru\<rparr>) = registered s"
  "registered (s\<lparr>sv_blockedClientRequests := bl\<rparr>) = registered s"
  by (simp_all add: registered_def [abs_def])

lemma notices_maps [intro]:
  "notices s t \<Longrightarrow> notices s (t\<lparr>sv_pendingClientRequests := pr\<rparr>)" "notices s t \<Longrightarrow> notices s (t\<lparr>sv_running := ru\<rparr>)"
  "notices s t \<Longrightarrow> notices s (t\<lparr>sv_blockedClientRequests := bl\<rparr>)"
  by (auto elim!: notices_trans simp: notices_def)

lemma notices_cleanup:
  assumes "notices s t" "server_ok t" "r < length (sv_objs t)"
  shows "notices s (cleanupStream c r t)"
proof (rule notices_trans [OF assms(1)])
  show "notices t (cleanupStream c r t)"
  proof (cases "ss_lastPingAt (sobj t r) < 0")
    case True
    then show ?thesis by (simp add: cleanup_noop notices_refl)
  next
    case False
    note f = cleanup_frame [OF assms(3) False] and reg = cleanup_registered [OF server_okD(1) [OF assms(2)] assms(3) False]
    show ?thesis unfolding notices_def by (auto simp: f reg split: option.split)
  qed
qed

lemma notices_cleanups:
  "notices s t \<Longrightarrow> server_ok t \<Longrightarrow> \<forall>r\<in>set rs. r < length (sv_objs t) \<Longrightarrow>
   notices s (fold (\<lambda>r u. if P r u then cleanupStream c r u else u) rs t)"
  by (induction rs arbitrary: t) (simp_all add: notices_cleanup server_ok_cleanup)

lemma notices_write [intro]: "notices s t \<Longrightarrow> notices s (writeToStream r m t)" "notices s t \<Longrightarrow> notices s (closeStreamWithError r cause text t)"
  by (auto simp: writeToStream_def closeStreamWithError_def)

lemma notices_request [intro]: "notices s t \<Longrightarrow> notices s (handleClientRequest r requestId m t)"
  by (auto simp: handleClientRequest_def split: option.split prod.split)

lemma notices_handle:
  assumes "notices s t" "r < length (sv_objs t)"
  shows "notices s (handleStreamDataReceived now r m t)"
  using assms unfolding handleStreamDataReceived_def Let_def
  by (auto intro!: notices_write notices_supd notices_emit notices_maps notices_request split: option.split)

lemma notices_handle_all:
  "notices s t \<Longrightarrow> r < length (sv_objs t) \<Longrightarrow> notices s (fold (handleStreamDataReceived now r) ms t)"
  by (induction ms arbitrary: t) (simp_all add: notices_handle)

lemma notices_open:
  "notices s t \<Longrightarrow> r < length (sv_objs t) \<Longrightarrow> notices s (openClientRequests now r t)"
  by (auto simp: openClientRequests_def Let_def intro!: notices_handle_all)

lemma notices_phase [intro]: "notices s t \<Longrightarrow> r < length (sv_objs t) \<Longrightarrow> notices s (set_phase p r t)"
  by (auto simp: set_phase_def)

lemma notices_activate:
  assumes "notices s t" "r < length (sv_objs t)"
  shows "notices s (activateStream r t)"
proof -
  have "notices t (activateStream r t)"
    using assms(2) by (auto simp: activateStream_def Let_def notices_def registered_def sobj_def supd_def nth_list_update)
  with assms(1) show ?thesis by (rule notices_trans)
qed

lemma length_activate [simp]: "length (sv_objs (activateStream r s)) = length (sv_objs s)"
  by (simp add: activateStream_def Let_def)

lemma notices_append:
  assumes "notices s t" "server_ok t" "ss_id b \<notin> ss_id ` set (sv_objs t)"
  shows "notices s (register_stream b t)"
proof (rule notices_trans [OF assms(1)])
  have "sobj (register_stream b t) r = sobj t r" if "r < length (sv_objs t)" for r
    using that by (simp add: register_stream_def sobj_def append_stream_def nth_append)
  then show "notices t (register_stream b t)"
    using registered_register [OF assms(2,3)] by (auto simp: notices_def register_stream_def)
qed

lemma cleanup_same_ids:
  assumes "r < length (sv_objs s)"
  shows "ss_id ` set (sv_objs (cleanupStream c r s)) = ss_id ` set (sv_objs s)"
proof (cases "ss_lastPingAt (sobj s r) < 0")
  case False
  have "map ss_id (sv_objs (cleanupStream c r s)) = map ss_id (sv_objs s)"
    by (rule nth_equalityI) (use cleanup_frame(1,2) [OF assms False] in \<open>auto simp: sobj_def split: if_splits\<close>)
  then show ?thesis by (metis set_map)
qed (simp add: cleanup_noop)

lemma notices_attach:
  assumes ok: "server_ok s" and fresh: "streamId \<notin> ss_id ` set (sv_objs s)"
  shows "notices s (attachConnection now streamId info s)"
proof (cases "getCurrentStreamByClientId s (si_clientId info)")
  case None
  then show ?thesis using notices_append [OF notices_refl ok] fresh by (simp add: attach_free)
next
  case (Some q)
  note q = current_registered [OF ok Some]
  show ?thesis
  proof (cases "insists info")
    case False
    have "registered (append_stream b s) r" if "registered s r" for b r
      using that by (auto simp: registered_def)
    then have "notices s (append_stream b s)" for b by (auto simp: notices_def)
    then show ?thesis using notices_emit by (simp add: attach_refused [OF Some False])
  next
    case True
    then show ?thesis
      using notices_append [OF notices_cleanup [OF notices_refl ok q(3)] server_ok_cleanup [OF ok q(3)]] fresh
      by (simp add: attach_replaces [OF ok Some True] cleanup_same_ids [OF q(3)])
  qed
qed

lemma notices_end:
  assumes "server_ok s" "r < length (sv_objs s)"
  shows "notices s (set_phase Over r (cleanupStream c r s))"
  using assms by (auto intro!: notices_cleanup notices_refl)

lemma notices_step:
  assumes ok: "server_ok s"
  shows "notices s (server_step s e)"
proof (cases e)
  case (Connect now streamId info)
  then show ?thesis using notices_attach [OF ok] by (simp add: notices_refl)
next
  case (CheckDone r result)
  then show ?thesis
    using notices_end [OF ok]
    by (auto simp: checkDone_def in_phase_def writeToStream_def intro!: notices_phase notices_emit notices_supd notices_refl split: sum.split)
next
  case (ConnectedDone r good)
  then show ?thesis
    using notices_end [OF ok] by (auto simp: connectedDone_def in_phase_def Let_def intro!: notices_activate notices_refl notices_phase)
next
  case (ActivatedDone now r good)
  then show ?thesis
    using notices_end [OF ok] by (auto simp: activatedDone_def in_phase_def set_phase_def intro!: notices_open notices_refl)
next
  case (WsMessage now r data)
  then show ?thesis by (auto simp: handleWsMessage_def notices_refl notices_handle split: ws_data.split)
next
  case (WsClose r)
  then show ?thesis
    using notices_cleanup [OF notices_refl ok] by (auto simp: handleStreamDisconnected_def notices_refl simp del: byte_step.simps)
next
  case (WsError r)
  then show ?thesis using notices_cleanup [OF notices_refl ok] by (simp add: notices_refl)
next
  case (HandlerDone r requestId resultType outcome)
  then show ?thesis by (auto simp: handlerDone_def Let_def intro!: notices_write notices_maps notices_refl)
next
  case (Invoke r prefix data requestId now timeoutMs)
  then show ?thesis by (auto simp: invoke_def fresh_request_def intro!: notices_write notices_refl notices_emit notices_supd)
next
  case (InactivityCheck now)
  then show ?thesis
    using notices_cleanups [OF notices_refl ok values_in_range [OF ok], of "\<lambda>r t. ss_lastPingAt (sobj t r) < int now - 75000"]
    by (simp add: terminateInactiveStreams_def)
next
  case (SubclassCleanup r cause)
  then show ?thesis using notices_cleanup [OF notices_refl ok] by (simp add: notices_refl)
next
  case CloseServer
  then show ?thesis
    using notices_cleanups [OF notices_refl ok values_in_range [OF ok], of "\<lambda>r t. True"] by (simp add: closeServer_def)
qed

section \<open>What the queue of a client will have done\<close>

fun task_owns :: "registry_task \<Rightarrow> bool \<Rightarrow> bool" where
  "task_owns (ReserveTask r md allow) own = True"
| "task_owns (BackfillTask r md allow) own = True"
| "task_owns (UnregisterTask r published) own = False"
| "task_owns (ActivateTask r md) own = own"
| "task_owns (SyncTask md) own = own"

definition chain_owns :: "nat \<Rightarrow> registry_chain \<Rightarrow> bool \<Rightarrow> bool" where
  "chain_owns n ch own =
     (case ch_status ch of
        Waiting \<Rightarrow> fold task_owns (ch_tasks ch) own
      | Calling e \<Rightarrow> fold task_owns (tl (ch_tasks ch)) (if of_node e = Some n then claims e own else own)
      | Replied reply \<Rightarrow> fold task_owns (tl (ch_tasks ch)) own)"

definition owns :: "mesh_server \<Rightarrow> string \<Rightarrow> bool" where
  "owns s c \<longleftrightarrow> mv_running s \<and> owner (mv_store s) c = Some (mv_registryId s)"

definition owned_after :: "mesh_server \<Rightarrow> string \<Rightarrow> bool" where
  "owned_after s c \<longleftrightarrow> chain_owns (mv_registryId s) (chain_of s c) (owns s c)"

lemma task_owns_mono: "task_owns t own \<Longrightarrow> (own \<Longrightarrow> own') \<Longrightarrow> task_owns t own'"
  by (cases t) simp_all

lemma tasks_own_mono: "fold task_owns ts own \<Longrightarrow> (own \<Longrightarrow> own') \<Longrightarrow> fold task_owns ts own'"
proof (induction ts arbitrary: own own')
  case (Cons t ts)
  from Cons.prems(1) have "fold task_owns ts (task_owns t own)" by simp
  then have "fold task_owns ts (task_owns t own')" by (rule Cons.IH) (rule task_owns_mono [OF _ Cons.prems(2)])
  then show ?case by simp
qed simp

lemma claims_mono: "claims e own \<Longrightarrow> (own \<Longrightarrow> own') \<Longrightarrow> claims e own'"
  by (cases e) simp_all

lemma chain_owns_mono: "chain_owns n ch own \<Longrightarrow> (own \<Longrightarrow> own') \<Longrightarrow> chain_owns n ch own'"
  by (auto simp: chain_owns_def split: head_status.splits if_splits elim!: tasks_own_mono claims_mono)

lemma chain_owns_append:
  "ch_status ch \<noteq> Waiting \<longrightarrow> ch_tasks ch \<noteq> [] \<Longrightarrow>
   chain_owns n (ch\<lparr>ch_tasks := ch_tasks ch @ [t]\<rparr>) own = task_owns t (chain_owns n ch own)"
  by (cases "ch_status ch") (simp_all add: chain_owns_def)

definition empty_chain :: registry_chain where
  "empty_chain = \<lparr>ch_tasks = [], ch_status = Waiting, ch_captured = None\<rparr>"

lemma chain_of_set [simp]:
  "chain_of (set_chain c ch s) d = (if d = c then (if ch_tasks ch = [] then empty_chain else ch) else chain_of s d)"
  by (simp add: chain_of_def set_chain_def empty_chain_def)

lemma chain_of_store [simp]: "chain_of (s\<lparr>mv_store := st\<rparr>) = chain_of s"
  by (simp add: chain_of_def [abs_def])

lemma empty_chain_simps [simp]: "ch_tasks empty_chain = []" "ch_status empty_chain = Waiting" "chain_owns n empty_chain own = own"
  by (simp_all add: empty_chain_def chain_owns_def)

lemma set_chain_simps [simp]:
  "mv_srpc (set_chain c ch s) = mv_srpc s" "mv_store (set_chain c ch s) = mv_store s" "mv_running (set_chain c ch s) = mv_running s"
  "mv_registryId (set_chain c ch s) = mv_registryId s" "mv_instanceId (set_chain c ch s) = mv_instanceId s" "mv_phase (set_chain c ch s) = mv_phase s"
  "mv_extra (set_chain c ch s) = mv_extra s" "mv_clientMetadata (set_chain c ch s) = mv_clientMetadata s"
  by (simp_all add: set_chain_def)

lemma owns_set_chain [simp]: "owns (set_chain c ch s) d = owns s d"
  by (simp add: owns_def)

section \<open>The invariant\<close>

definition queues_ok :: "mesh_server \<Rightarrow> bool" where
  "queues_ok s \<longleftrightarrow> (\<forall>c. (ch_status (chain_of s c) \<noteq> Waiting \<longrightarrow> ch_tasks (chain_of s c) \<noteq> [])
     \<and> (\<forall>e. ch_status (chain_of s c) = Calling e \<longrightarrow> call_client e = Some c \<and> (\<exists>n\<le>mv_registryId s. of_node e = Some n)))"

definition joining_ok :: "mesh_server \<Rightarrow> bool" where
  "joining_ok s \<longleftrightarrow> (mv_phase s = StartingMesh True \<longrightarrow>
     mv_registryId s < mv_instanceId s \<and> (\<forall>c. owner (mv_store s) c \<noteq> Some (mv_instanceId s)))"

definition mesh_server_ok :: "mesh_server \<Rightarrow> bool" where
  "mesh_server_ok s \<longleftrightarrow> server_ok (mv_srpc s) \<and> registry_ok (mv_store s) \<and> queues_ok s \<and> joining_ok s"

definition no_ghost :: "string \<Rightarrow> mesh_server \<Rightarrow> bool" where
  "no_ghost c s \<longleftrightarrow> mesh_server_ok s \<and> (getCurrentStreamByClientId (mv_srpc s) c = None \<longrightarrow> \<not> owned_after s c)"

text \<open>The parts of the state the invariant reads.\<close>

definition core :: "mesh_server \<Rightarrow> srpc_server \<times> client_meta client_store \<times> bool \<times> nat \<times> nat \<times> mesh_phase \<times> (string, registry_chain) jsmap" where
  "core s = (mv_srpc s, mv_store s, mv_running s, mv_registryId s, mv_instanceId s, mv_phase s, mv_chains s)"

lemma no_ghost_core:
  assumes "core s = core t" "no_ghost c s"
  shows "no_ghost c t"
proof -
  have f: "mv_srpc t = mv_srpc s" "mv_store t = mv_store s" "mv_running t = mv_running s" "mv_registryId t = mv_registryId s"
    "mv_instanceId t = mv_instanceId s" "mv_phase t = mv_phase s" "mv_chains t = mv_chains s"
    using assms(1) by (simp_all add: core_def)
  have "chain_of t = chain_of s" by (simp add: chain_of_def [abs_def] f)
  with assms(2) show ?thesis
    by (simp add: no_ghost_def mesh_server_ok_def queues_ok_def joining_ok_def owned_after_def owns_def f)
qed

named_theorems core_simps

lemma core_updates [core_simps]:
  "core (s\<lparr>mv_clientMetadata := m\<rparr>) = core s" "core (s\<lparr>mv_lifecycleConnectedStreams := l\<rparr>) = core s" "core (s\<lparr>mv_callbacks := b\<rparr>) = core s"
  "core (s\<lparr>mv_pendingSyncs := p\<rparr>) = core s" "core (s\<lparr>mv_microtasks := q\<rparr>) = core s" "core (s\<lparr>mv_continuations := k\<rparr>) = core s"
  "core (s\<lparr>mv_ops := o'\<rparr>) = core s" "core (s\<lparr>mv_local := lo\<rparr>) = core s" "core (s\<lparr>mv_log := g\<rparr>) = core s" "core (s\<lparr>mv_extra := x\<rparr>) = core s"
  by (simp_all add: core_def)

lemma core_ops [core_simps]:
  "core (mv_emit out s) = core s" "core (add_continuation k s) = core s" "core (add_service_op op s) = core s"
  "core (set_callbacks c kb s) = core s" "core (enqueueClientCallback c t s) = core s" "core (xupd r f s) = core s"
  "core (installMetaProxy r s) = core s" "core (scheduleSyncStreamMeta r s) = core s"
  by (simp_all add: core_def mv_emit_def add_continuation_def add_service_op_def set_callbacks_def enqueueClientCallback_def Let_def xupd_def
      installMetaProxy_def scheduleSyncStreamMeta_def)

lemma core_write_meta [core_simps]: "core (write_meta r f s) = core s"
  by (simp add: write_meta_def Let_def core_simps)

lemma core_clientUpdate [core_simps]: "core (snd (clientUpdateMetaFn c md s)) = core s"
proof -
  have "core (fold (\<lambda>(key, v). write_meta r (jset key v)) md s) = core s" for r
    by (induction md arbitrary: s) (auto simp: core_simps)
  then show ?thesis by (simp add: clientUpdateMetaFn_def split: option.split)
qed

lemma core_callbacks [core_simps]:
  "core (end_callback c s) = core s" "core (call_callback c md i s) = core s" "core (start_callback c t s) = core s"
proof -
  show e: "core (end_callback c s) = core s" for s
    by (simp add: end_callback_def Let_def core_simps split: list.split callback_task.split)
  show k: "core (call_callback c md i s) = core s" for md i s
    by (simp add: call_callback_def Let_def core_simps e split: list.split callback_task.split)
  show "core (start_callback c t s) = core s"
    by (simp add: start_callback_def core_simps e k split: callback_task.split option.split)
qed

lemma core_answer [core_simps]: "core (answer_origin origin outcome s) = core s"
  by (simp add: answer_origin_def core_simps)

lemma core_registered [core_simps]: "core (snd (registered_reply c reply s)) = core s"
  by (simp add: registered_reply_def core_simps split: registry_reply.split register_result.split option.split)

lemma no_ghost_keep: "no_ghost c s \<Longrightarrow> core t = core s \<Longrightarrow> no_ghost c t"
  by (rule no_ghost_core [of s]) simp_all

section \<open>Queueing\<close>

lemma mesh_server_ok_enqueue: "mesh_server_ok s \<Longrightarrow> mesh_server_ok (enqueueClientRegistry d t s)"
  by (auto simp: mesh_server_ok_def queues_ok_def joining_ok_def enqueueClientRegistry_def Let_def)

lemma owned_after_enqueue:
  "queues_ok s \<Longrightarrow> owned_after (enqueueClientRegistry d t s) c = (if c = d then task_owns t (owned_after s c) else owned_after s c)"
  by (simp add: owned_after_def enqueueClientRegistry_def Let_def queues_ok_def chain_owns_append)

lemma enqueue_simps [simp]:
  "mv_srpc (enqueueClientRegistry d t s) = mv_srpc s" "mv_extra (enqueueClientRegistry d t s) = mv_extra s"
  "mv_running (enqueueClientRegistry d t s) = mv_running s" "mv_registryId (enqueueClientRegistry d t s) = mv_registryId s"
  by (simp_all add: enqueueClientRegistry_def Let_def)

fun takes_client :: "registry_task \<Rightarrow> bool" where
  "takes_client (ReserveTask r md allow) = True"
| "takes_client (BackfillTask r md allow) = True"
| "takes_client t = False"

lemma no_ghost_enqueue:
  assumes "no_ghost c s" "takes_client t \<Longrightarrow> getCurrentStreamByClientId (mv_srpc s) d \<noteq> None"
  shows "no_ghost c (enqueueClientRegistry d t s)"
  using assms mesh_server_ok_enqueue [of s d t]
  by (cases t) (auto simp: no_ghost_def owned_after_enqueue mesh_server_ok_def)

lemma no_ghost_sync: "no_ghost c s \<Longrightarrow> no_ghost c (syncStreamMeta opts r s)"
  by (auto simp: syncStreamMeta_def Let_def core_simps split: option.split intro!: no_ghost_enqueue elim: no_ghost_keep)

lemma no_ghost_stream_activated: "no_ghost c s \<Longrightarrow> no_ghost c (stream_activated opts r s)"
  unfolding stream_activated_def by (rule no_ghost_keep [OF no_ghost_sync]) (auto simp: core_simps)

section \<open>The hooks\<close>

text \<open>Only a notice of a lost stream changes what the queue of its client will have done.\<close>

definition gives_up :: "mesh_server \<Rightarrow> server_output \<Rightarrow> string \<Rightarrow> bool" where
  "gives_up s out c \<longleftrightarrow> (\<exists>r cause. out = Disconnected r cause \<and> client_of s r = c)"

lemma client_of_srpc: "mv_srpc t = mv_srpc s \<Longrightarrow> client_of t r = client_of s r"
  by (simp add: client_of_def)

lemma mesh_server_ok_core: "core s = core t \<Longrightarrow> mesh_server_ok s = mesh_server_ok t" "core s = core t \<Longrightarrow> owned_after s c = owned_after t c"
  by (simp_all add: core_def mesh_server_ok_def queues_ok_def joining_ok_def owned_after_def owns_def chain_of_def)

lemma core_srpc: "core s = core t \<Longrightarrow> mv_srpc s = mv_srpc t"
  by (simp add: core_def)

lemma enqueue_neutral:
  assumes "mesh_server_ok s" "core t = core s" "\<And>own. task_owns k own = own"
  shows "mesh_server_ok (enqueueClientRegistry d k t) \<and> owned_after (enqueueClientRegistry d k t) c = owned_after s c"
proof -
  have "mesh_server_ok t" "owned_after t x = owned_after s x" for x using mesh_server_ok_core [OF assms(2)] assms(1) by simp_all
  then show ?thesis using assms(3) mesh_server_ok_enqueue [of t] by (simp add: owned_after_enqueue mesh_server_ok_def)
qed

lemma sync_neutral:
  assumes "mesh_server_ok s" "core t = core s"
  shows "mesh_server_ok (syncStreamMeta opts r t) \<and> owned_after (syncStreamMeta opts r t) c = owned_after s c"
  using enqueue_neutral [OF assms(1)] mesh_server_ok_core [OF assms(2)] assms
  by (simp add: syncStreamMeta_def Let_def core_simps split: option.split)

lemma react_owned:
  assumes ok: "mesh_server_ok s"
  shows "mesh_server_ok (react opts out s) \<and> mv_srpc (react opts out s) = mv_srpc s
    \<and> owned_after (react opts out s) c = (owned_after s c \<and> \<not> gives_up s out c)"
proof (cases out)
  case (Disconnected r cause)
  let ?t = "s\<lparr>mv_lifecycleConnectedStreams := filter (\<lambda>q. q \<noteq> r) (mv_lifecycleConnectedStreams s)\<rparr>"
  have "mesh_server_ok ?t" "owned_after ?t c = owned_after s c" using mesh_server_ok_core [of ?t s] ok by (simp_all add: core_simps)
  then show ?thesis
    using Disconnected mesh_server_ok_enqueue [of ?t] by (auto simp: react_def onStreamDisconnected_def owned_after_enqueue mesh_server_ok_def gives_up_def)
next
  case (ActivatedHook r)
  define m where "m = jset (client_of s r) (extractMeta opts s r) (mv_clientMetadata s)"
  let ?t = "s\<lparr>mv_clientMetadata := m\<rparr>"
  have a: "mesh_server_ok (stream_activated opts r ?t) \<and> owned_after (stream_activated opts r ?t) c = owned_after s c"
    using sync_neutral [OF ok, of ?t] mesh_server_ok_core [of "stream_activated opts r ?t" "syncStreamMeta opts r ?t"]
    by (simp add: stream_activated_def core_simps)
  have b: "mv_srpc (stream_activated opts r ?t) = mv_srpc s"
    using core_srpc [of "stream_activated opts r ?t" "syncStreamMeta opts r ?t"]
    by (simp add: stream_activated_def core_simps) (simp add: syncStreamMeta_def Let_def split: option.split)
  show ?thesis
    using enqueue_neutral [OF ok] a b ActivatedHook by (simp add: react_def onStreamActivated_def Let_def core_simps gives_up_def m_def [symmetric])
next
  case (Settled r requestId outcome)
  show ?thesis
  proof (cases "jget (mv_local s) (r, requestId)")
    case None
    then show ?thesis using Settled ok by (simp add: react_def gives_up_def)
  next
    case (Some origin)
    have c: "core (react opts out s) = core s" using Settled Some by (simp add: react_def core_simps)
    have "\<not> gives_up s out c" using Settled by (simp add: gives_up_def)
    with mesh_server_ok_core [OF c] core_srpc [OF c] ok show ?thesis by simp
  qed
qed (use ok in \<open>simp_all add: react_def gives_up_def\<close>)

lemma reacts_owned:
  "mesh_server_ok s \<Longrightarrow>
   mesh_server_ok (fold (react opts) outs s) \<and> mv_srpc (fold (react opts) outs s) = mv_srpc s
   \<and> owned_after (fold (react opts) outs s) c = (owned_after s c \<and> (\<forall>out\<in>set outs. \<not> gives_up s out c))"
proof (induction outs arbitrary: s)
  case (Cons out outs)
  note r = react_owned [OF Cons.prems, of opts out c]
  have "gives_up (react opts out s) x c = gives_up s x c" for x using client_of_srpc [OF r [THEN conjunct2, THEN conjunct1]] by (simp add: gives_up_def)
  with r Cons.IH [of "react opts out s"] show ?case by auto
qed simp

lemma server_length_step:
  assumes "\<And>now streamId info. e \<noteq> Connect now streamId info"
  shows "length (sv_objs (server_step s e)) = length (sv_objs s)"
proof -
  have "length (sv_objs (fold (\<lambda>r u. if P r u then cleanupStream c r u else u) rs u)) = length (sv_objs u)" for P c rs u
    by (induction rs arbitrary: u) simp_all
  note this [of "\<lambda>r u. ss_lastPingAt (sobj u r) < d" for d, simp] this [of "\<lambda>r u. True", simplified, simp]
  have "length (sv_objs (fold (handleStreamDataReceived now r) ms u)) = length (sv_objs u)" for now r ms u
    by (induction ms arbitrary: u) simp_all
  note this [simp]
  show ?thesis
    using assms by (cases e)
      (auto simp: checkDone_def connectedDone_def activatedDone_def Let_def set_phase_def writeToStream_def openClientRequests_def
        handleWsMessage_def closeStreamWithError_def handleStreamDisconnected_def handlerDone_def invoke_def terminateInactiveStreams_def
        closeServer_def split: sum.split ws_data.split)
qed

lemma new_stream_current:
  assumes ok: "server_ok s" and grown: "length (sv_objs s) < length (sv_objs (server_step s e))"
    and ph: "ss_phase (sobj (server_step s e) (length (sv_objs s))) = Checking"
  shows "getCurrentStreamByClientId (server_step s e) (ss_clientId (sobj (server_step s e) (length (sv_objs s)))) = Some (length (sv_objs s))"
proof (cases "\<exists>now streamId info. e = Connect now streamId info")
  case False
  then show ?thesis using server_length_step [of e s] grown by auto
next
  case True
  then obtain now streamId info where e: "e = Connect now streamId info" by blast
  with grown have t: "server_step s e = attachConnection (int now) streamId info s" by (auto split: if_splits)
  have reg: "getCurrentStreamByClientId (register_stream b u) (ss_clientId (sobj (register_stream b u) (length (sv_objs u)))) = Some (length (sv_objs u))" for b u
    by (simp add: register_stream_def getCurrentStreamByClientId_def sobj_def append_stream_def)
  show ?thesis
  proof (cases "getCurrentStreamByClientId s (si_clientId info)")
    case None
    then show ?thesis using reg [where u = s] by (simp add: t attach_free)
  next
    case (Some q)
    show ?thesis
    proof (cases "insists info")
      case True
      then show ?thesis using reg [where u = "cleanupStream (Some CauseSupersede) q s"] by (simp add: t attach_replaces [OF ok Some])
    next
      case False
      with ph show ?thesis by (simp add: t attach_refused [OF Some])
    qed
  qed
qed

lemma current_kept:
  assumes "notices s t" "server_ok s" "server_ok t" "getCurrentStreamByClientId s c = Some r" "getCurrentStreamByClientId t c = None"
  shows "\<exists>cause. Disconnected r cause \<in> set (drop (length (sv_log s)) (sv_log t)) \<and> ss_clientId (sobj t r) = c"
proof -
  note r = current_registered [OF assms(2,4)]
  from assms(1) obtain new where new: "sv_log t = sv_log s @ new" "registered s r \<longrightarrow> registered t r \<or> disconnected r new"
    and id: "ss_clientId (sobj t r) = ss_clientId (sobj s r)"
    using r(3) by (auto simp: notices_def)
  have "\<not> registered t r"
  proof
    assume "registered t r"
    from registered_current [OF assms(3) this] id r(2) assms(5) show False by (simp add: isCurrentStream_def)
  qed
  with new r(1,2) id show ?thesis by (auto simp: disconnected_def)
qed

lemma no_ghost_srpc:
  assumes inv: "no_ghost c s"
  shows "no_ghost c (srpc_event opts e s)"
proof -
  define n where "n = length (sv_objs (mv_srpc s))"
  define t where "t = server_step (mv_srpc s) e"
  define s1 where "s1 = s\<lparr>mv_srpc := t, mv_extra := mv_extra s @ (if length (sv_objs t) > n then new_extras e else [])\<rparr>"
  define outs where "outs = drop (length (sv_log (mv_srpc s))) (sv_log t)"
  define s2 where "s2 = fold (react opts) outs s1"
  have ok: "mesh_server_ok s" using inv by (simp add: no_ghost_def)
  then have sok: "server_ok (mv_srpc s)" by (simp add: mesh_server_ok_def)
  then have tok: "server_ok t" unfolding t_def by (rule server_ok_step)
  have chains: "chain_of s1 = chain_of s" by (simp add: s1_def chain_of_def [abs_def])
  have ok1: "mesh_server_ok s1" using ok tok chains by (simp add: mesh_server_ok_def queues_ok_def joining_ok_def) (simp add: s1_def)
  have own1: "owned_after s1 c = owned_after s c" by (simp add: owned_after_def owns_def chains) (simp add: s1_def)
  note r = reacts_owned [OF ok1, of opts outs c, folded s2_def]
  have srpc: "mv_srpc s2 = t" using r by (simp add: s1_def)
  have inv2: "no_ghost c s2"
    unfolding no_ghost_def
  proof (intro conjI impI)
    show "mesh_server_ok s2" using r by blast
    assume "getCurrentStreamByClientId (mv_srpc s2) c = None"
    then have none: "getCurrentStreamByClientId t c = None" by (simp add: srpc)
    show "\<not> owned_after s2 c"
    proof (cases "getCurrentStreamByClientId (mv_srpc s) c")
      case None
      then have "\<not> owned_after s c" using inv by (simp add: no_ghost_def)
      then show ?thesis using r own1 by blast
    next
      case (Some q)
      from current_kept [OF notices_step [OF sok, of e, folded t_def] sok tok Some none]
      obtain cause where "Disconnected q cause \<in> set outs" "ss_clientId (sobj t q) = c" by (auto simp: outs_def)
      then have "gives_up s1 (Disconnected q cause) c" "Disconnected q cause \<in> set outs"
        by (simp_all add: gives_up_def client_of_def s1_def)
      then show ?thesis using r by blast
    qed
  qed
  have eq: "srpc_event opts e s = (if length (sv_objs t) > n \<and> ss_phase (sobj t n) = Checking then postEstablishCheck opts n s2 else s2)"
    by (simp only: srpc_event_def Let_def n_def t_def s1_def outs_def s2_def)
  show ?thesis
  proof (cases "length (sv_objs t) > n \<and> ss_phase (sobj t n) = Checking")
    case False
    show ?thesis unfolding eq if_not_P [OF False] by (rule inv2)
  next
    case True
    let ?s3 = "installMetaProxy n s2"
    have "getCurrentStreamByClientId t (ss_clientId (sobj t n)) \<noteq> None"
      using new_stream_current [OF sok, of e, folded t_def n_def] True by simp
    then have "getCurrentStreamByClientId (mv_srpc ?s3) (client_of ?s3 n) \<noteq> None"
      by (simp add: client_of_def installMetaProxy_def xupd_def srpc)
    then have "no_ghost c (postEstablishCheck opts n s2)"
      unfolding postEstablishCheck_def Let_def
      by (intro no_ghost_enqueue no_ghost_keep [OF inv2]) (simp_all add: core_simps client_of_def)
    then show ?thesis unfolding eq if_P [OF True] .
  qed
qed

section \<open>The queued functions\<close>

definition valid_chain :: "nat \<Rightarrow> string \<Rightarrow> registry_chain \<Rightarrow> bool" where
  "valid_chain n d ch \<longleftrightarrow> (ch_status ch \<noteq> Waiting \<longrightarrow> ch_tasks ch \<noteq> [])
     \<and> (\<forall>e. ch_status ch = Calling e \<longrightarrow> call_client e = Some d \<and> (\<exists>k\<le>n. of_node e = Some k))"

lemma queues_ok_valid: "queues_ok s \<longleftrightarrow> (\<forall>d. valid_chain (mv_registryId s) d (chain_of s d))"
  by (simp add: queues_ok_def valid_chain_def)

lemma valid_empty [simp]: "valid_chain n d empty_chain"
  by (simp add: valid_chain_def)

lemma no_ghost_set_chain:
  assumes inv: "no_ghost c s" and valid: "valid_chain (mv_registryId s) d ch"
    and keeps: "\<lbrakk>c = d; getCurrentStreamByClientId (mv_srpc s) c = None; chain_owns (mv_registryId s) ch (owns s c)\<rbrakk> \<Longrightarrow> owned_after s c"
  shows "no_ghost c (set_chain d ch s)"
proof -
  have empty: "ch_tasks ch = [] \<Longrightarrow> chain_owns n ch own = own" for n own
    using valid by (cases "ch_status ch") (simp_all add: valid_chain_def chain_owns_def)
  have "mesh_server_ok (set_chain d ch s)"
    using inv valid by (simp add: no_ghost_def mesh_server_ok_def queues_ok_valid joining_ok_def)
  moreover have "\<not> owned_after (set_chain d ch s) c" if "getCurrentStreamByClientId (mv_srpc s) c = None"
    using inv keeps that empty by (auto simp: no_ghost_def owned_after_def split: if_splits)
  ultimately show ?thesis by (simp add: no_ghost_def)
qed

lemma owned_after_head:
  "ch_tasks (chain_of s d) = t # ts \<Longrightarrow> ch_status (chain_of s d) = Waiting \<Longrightarrow>
   owned_after s d = fold task_owns ts (task_owns t (owns s d))"
  by (simp add: owned_after_def chain_owns_def)

lemma no_ghost_end_task:
  assumes inv: "no_ghost c s" and ch: "ch_tasks (chain_of s d) = t # ts"
    and idle: "ch_status (chain_of s d) = Waiting \<Longrightarrow> takes_client t \<or> getCurrentStreamByClientId (mv_srpc s) d \<noteq> None \<or> (\<exists>r md. t = ActivateTask r md)"
    and quiet: "\<And>e. ch_status (chain_of s d) \<noteq> Calling e"
  shows "no_ghost c (end_task d s)"
  unfolding end_task_def
proof (rule no_ghost_set_chain [OF inv])
  assume c: "c = d" and none: "getCurrentStreamByClientId (mv_srpc s) c = None"
    and own: "chain_owns (mv_registryId s) \<lparr>ch_tasks = tl (ch_tasks (chain_of s d)), ch_status = Waiting, ch_captured = None\<rparr> (owns s c)"
  then have own': "fold task_owns ts (owns s d)" by (simp add: chain_owns_def ch)
  show "owned_after s c"
  proof (cases "ch_status (chain_of s d)")
    case Waiting
    then have "owns s d \<Longrightarrow> task_owns t (owns s d)" using idle none c by (cases t) auto
    with own' show ?thesis unfolding c owned_after_head [OF ch Waiting] by (rule tasks_own_mono)
  next
    case (Calling e)
    with quiet show ?thesis by blast
  next
    case (Replied reply)
    with own' c ch show ?thesis by (simp add: owned_after_def chain_owns_def)
  qed
qed (simp add: valid_chain_def)

lemma no_ghost_task_calls:
  assumes inv: "no_ghost c s" and ch: "ch_tasks (chain_of s d) = t # ts" "ch_status (chain_of s d) = Waiting"
    and ans: "\<And>reply. ans = Inl reply \<Longrightarrow> owns s d \<Longrightarrow> task_owns t (owns s d)"
    and call: "\<And>e. ans = Inr e \<Longrightarrow> call_client e = Some d \<and> of_node e = Some (mv_registryId s) \<and> (claims e (owns s d) \<longrightarrow> task_owns t (owns s d))"
  shows "no_ghost c (task_calls d ans s)"
  unfolding task_calls_def
proof (rule no_ghost_set_chain [OF inv])
  show "valid_chain (mv_registryId s) d ((chain_of s d)\<lparr>ch_status := case ans of Inl reply \<Rightarrow> Replied reply | Inr e \<Rightarrow> Calling e\<rparr>)"
    using ch call by (auto simp: valid_chain_def split: sum.splits)
next
  assume c: "c = d"
    and own: "chain_owns (mv_registryId s) ((chain_of s d)\<lparr>ch_status := case ans of Inl reply \<Rightarrow> Replied reply | Inr e \<Rightarrow> Calling e\<rparr>) (owns s c)"
  show "owned_after s c"
  proof (cases ans)
    case (Inl reply)
    then have "fold task_owns ts (owns s d)" using own c ch by (simp add: chain_owns_def)
    then show ?thesis unfolding c owned_after_head [OF ch] by (rule tasks_own_mono) (rule ans [OF Inl])
  next
    case (Inr e)
    then have "fold task_owns ts (claims e (owns s d))" using own c ch call [OF Inr] by (simp add: chain_owns_def)
    then show ?thesis unfolding c owned_after_head [OF ch] by (rule tasks_own_mono) (use call [OF Inr] in blast)
  qed
qed

lemma no_ghost_capture:
  assumes "no_ghost c s"
  shows "no_ghost c (set_chain d ((chain_of s d)\<lparr>ch_captured := md\<rparr>) s)"
proof (rule no_ghost_set_chain [OF assms])
  show "valid_chain (mv_registryId s) d ((chain_of s d)\<lparr>ch_captured := md\<rparr>)"
    using assms by (simp add: no_ghost_def mesh_server_ok_def queues_ok_valid valid_chain_def)
qed (auto simp: owned_after_def chain_owns_def split: head_status.splits if_splits)

lemma no_ghost_continue: "no_ghost c s \<Longrightarrow> no_ghost c (add_continuation k s)"
  by (erule no_ghost_keep) (simp add: core_simps)

lemma no_ghost_start:
  assumes inv: "no_ghost c s" and ch: "ch_tasks (chain_of s d) = t # ts" "ch_status (chain_of s d) = Waiting"
  shows "no_ghost c (start_task d t s)"
proof (cases t)
  case (ReserveTask r md allow)
  then show ?thesis
    using no_ghost_end_task [OF inv ch(1)] no_ghost_task_calls [OF inv ch, of "reserveClient d md allow s"] ch
    by (auto simp: start_reserve_def reserveClient_def no_ghost_continue)
next
  case (ActivateTask r md)
  then show ?thesis
    using no_ghost_end_task [OF inv ch(1)] no_ghost_task_calls [OF inv ch, of "activateClient d md s"] ch
    by (auto simp: start_activate_def activateClient_def no_ghost_continue)
next
  case (SyncTask md)
  then show ?thesis
    using no_ghost_task_calls [OF inv ch, of "updateRegistered d md s"] by (simp add: updateRegistered_def)
next
  case (BackfillTask r md allow)
  then show ?thesis
    using no_ghost_end_task [OF inv ch(1)] no_ghost_task_calls [OF inv ch, of "registerClient d md allow s"]
      no_ghost_task_calls [OF inv ch, of "reserveClient d md allow s"] ch
    by (auto simp: start_backfill_def registerClient_def reserveClient_def)
next
  case (UnregisterTask r published)
  let ?s = "set_chain d ((chain_of s d)\<lparr>ch_captured := jget (mv_clientMetadata s) d\<rparr>) s"
  have "no_ghost c (task_calls d (unregisterClient d ?s) ?s)"
    by (rule no_ghost_task_calls [OF no_ghost_capture [OF inv]])
      (use ch UnregisterTask in \<open>auto simp: unregisterClient_def owns_def split: if_splits\<close>)
  moreover have "unregisterClient d ?s = unregisterClient d s" by (simp add: unregisterClient_def)
  ultimately show ?thesis
    using no_ghost_end_task [OF inv ch(1)] ch UnregisterTask by (simp add: start_unregister_def Let_def split: option.split)
qed

lemma no_ghost_cleanup_event: "no_ghost c s \<Longrightarrow> no_ghost c (cleanup_event opts r cause s)"
  unfolding cleanup_event_def by (rule no_ghost_srpc)

lemma no_ghost_reply: "no_ghost c s \<Longrightarrow> registered_reply d reply s = (b, t) \<Longrightarrow> no_ghost c t"
  using core_registered [of d reply s] by (auto elim: no_ghost_keep)

lemma no_ghost_finish:
  assumes inv: "no_ghost c s" and ch: "ch_tasks (chain_of s d) = t # ts" "ch_status (chain_of s d) = Replied reply"
  shows "no_ghost c (finish_task opts d t md reply s)"
proof -
  have e: "no_ghost c (end_task d s)" by (rule no_ghost_end_task [OF inv ch(1)]) (simp_all add: ch)
  have q: "no_ghost c (enqueueClientCallback c' x (s'\<lparr>mv_clientMetadata := m\<rparr>)) \<and> no_ghost c (s'\<lparr>mv_clientMetadata := m\<rparr>)"
    if "no_ghost c s'" for c' x s' m
    using that by (auto elim!: no_ghost_keep simp: core_simps)
  show ?thesis
    by (cases t)
      (use e no_ghost_reply [OF e] q in
        \<open>auto simp: finish_task_def finish_reserve_def finish_activate_def finish_unregister_def finish_backfill_def Let_def
            no_ghost_continue no_ghost_cleanup_event split: prod.split option.split bool.split registry_reply.split\<close>)
qed

section \<open>Every event keeps the invariant\<close>

text \<open>A change of the store that takes no client for any node.\<close>

lemma no_ghost_store:
  assumes inv: "no_ghost c s" and ok: "registry_ok st"
    and takes: "\<And>d n. owner st d = Some n \<Longrightarrow> n = mv_registryId s \<or> n = mv_instanceId s \<Longrightarrow> owner (mv_store s) d = Some n"
  shows "no_ghost c (s\<lparr>mv_store := st\<rparr>)" (is "no_ghost c ?t")
proof -
  have ch: "chain_of ?t = chain_of s" by (simp add: chain_of_def [abs_def])
  have "owns ?t c \<Longrightarrow> owns s c" using takes by (auto simp: owns_def)
  then have "owned_after ?t c \<Longrightarrow> owned_after s c" by (auto simp: owned_after_def ch elim: chain_owns_mono)
  moreover have "joining_ok ?t"
    using inv takes by (simp add: no_ghost_def mesh_server_ok_def joining_ok_def) metis
  then have "mesh_server_ok ?t" using inv ok by (simp add: no_ghost_def mesh_server_ok_def queues_ok_def ch)
  ultimately show ?thesis using inv by (auto simp: no_ghost_def)
qed

lemma no_ghost_registry_step:
  assumes inv: "no_ghost c s" and e: "claims e False \<Longrightarrow> of_node e \<noteq> Some (mv_registryId s) \<and> of_node e \<noteq> Some (mv_instanceId s)"
  shows "no_ghost c (s\<lparr>mv_store := registry_step f g (mv_store s) e\<rparr>)"
proof (rule no_ghost_store [OF inv])
  have ok: "registry_ok (mv_store s)" using inv by (simp add: no_ghost_def mesh_server_ok_def)
  then show "registry_ok (registry_step f g (mv_store s) e)" by (rule clients.exec_usable)
  show "owner (mv_store s) d = Some n" if "owner (registry_step f g (mv_store s) e) d = Some n" "n = mv_registryId s \<or> n = mv_instanceId s" for d n
    using clients.exec_holder [OF ok that(1)] that(2) e by auto
qed

lemma no_ghost_fields:
  assumes inv: "no_ghost c s" and fields: "mv_srpc t = mv_srpc s" "mv_store t = mv_store s" "mv_chains t = mv_chains s"
    and ids: "mv_registryId s \<le> mv_registryId t" "owns t c \<Longrightarrow> mv_registryId t = mv_registryId s \<and> mv_running s"
      "mv_registryId t = mv_registryId s \<or> (\<forall>e. of_node e = Some (mv_registryId t) \<longrightarrow> ch_status (chain_of s c) \<noteq> Calling e)"
    and joining: "joining_ok t"
  shows "no_ghost c t"
proof -
  have ch: "chain_of t = chain_of s" by (simp add: chain_of_def [abs_def] fields)
  have own: "owns t c \<Longrightarrow> owns s c" using ids(2) by (auto simp: owns_def fields)
  have "owned_after s c" if "owned_after t c"
  proof (cases "mv_registryId t = mv_registryId s")
    case True
    with that own show ?thesis by (auto simp: owned_after_def ch elim: chain_owns_mono)
  next
    case False
    then have none: "\<not> owns t c" using ids(2) by blast
    with that False ids(3) have "chain_owns (mv_registryId t) (chain_of s c) False" by (simp add: owned_after_def ch)
    show ?thesis
    proof (cases "ch_status (chain_of s c)")
      case Waiting
      with \<open>chain_owns (mv_registryId t) (chain_of s c) False\<close> have "fold task_owns (ch_tasks (chain_of s c)) False" by (simp add: chain_owns_def)
      with Waiting show ?thesis by (simp add: owned_after_def chain_owns_def) (erule tasks_own_mono, simp)
    next
      case (Calling e)
      with \<open>chain_owns (mv_registryId t) (chain_of s c) False\<close> ids(3) False have "fold task_owns (tl (ch_tasks (chain_of s c))) False" by (auto simp: chain_owns_def split: if_splits)
      with Calling show ?thesis by (simp add: owned_after_def chain_owns_def) (metis tasks_own_mono)
    next
      case (Replied reply)
      with \<open>chain_owns (mv_registryId t) (chain_of s c) False\<close> have "fold task_owns (tl (ch_tasks (chain_of s c))) False" by (simp add: chain_owns_def)
      with Replied show ?thesis by (simp add: owned_after_def chain_owns_def) (erule tasks_own_mono, simp)
    qed
  qed
  moreover have "mesh_server_ok t"
  proof -
    have "\<exists>n\<le>mv_registryId t. of_node e = Some n" if "\<exists>n\<le>mv_registryId s. of_node e = Some n" for e :: "client_meta registry_event"
      using that ids(1) le_trans by blast
    then show ?thesis using inv joining by (simp add: no_ghost_def mesh_server_ok_def queues_ok_def fields ch)
  qed
  ultimately show ?thesis using inv by (auto simp: no_ghost_def fields)
qed

lemma no_ghost_redis:
  assumes inv: "no_ghost c s" and st: "ch_status (chain_of s d) = Calling e"
    and r: "redis_call opts e outcome s = (reply, s1)" and fine: "c = d \<Longrightarrow> \<forall>err. outcome \<noteq> NotExecuted err"
  shows "no_ghost c (set_chain d ((chain_of s1 d)\<lparr>ch_status := Replied reply\<rparr>) s1)"
proof -
  have mok: "mesh_server_ok s" and ok: "registry_ok (mv_store s)" using inv by (simp_all add: no_ghost_def mesh_server_ok_def)
  have tasks: "ch_tasks (chain_of s d) \<noteq> []" and client: "call_client e = Some d" and n: "\<exists>n\<le>mv_registryId s. of_node e = Some n"
    using mok st by (auto simp: mesh_server_ok_def queues_ok_def)
  let ?x = "registry_step (mx_stringify opts) (mx_recode opts) (mv_store s) e"
  show ?thesis
  proof (cases "\<exists>err. outcome = NotExecuted err")
    case True
    then have s1: "s1 = s" "c \<noteq> d" using r fine by (auto simp: redis_call_def Let_def)
    show ?thesis unfolding s1(1)
      by (rule no_ghost_set_chain [OF inv]) (use s1(2) tasks in \<open>auto simp: valid_chain_def\<close>)
  next
    case False
    then have s1: "s1 = s\<lparr>mv_store := ?x\<rparr>" using r by (auto simp: redis_call_def Let_def split: redis_outcome.splits)
    let ?t = "set_chain d ((chain_of s1 d)\<lparr>ch_status := Replied reply\<rparr>) s1"
    have ch: "chain_of s1 = chain_of s" by (simp add: s1 chain_of_def [abs_def])
    have f: "mv_srpc ?t = mv_srpc s" "mv_registryId ?t = mv_registryId s" "owns ?t c = owns s1 c" "mv_store ?t = ?x" "mv_phase ?t = mv_phase s"
      "mv_instanceId ?t = mv_instanceId s"
      by (simp_all add: s1)
    have "mesh_server_ok ?t"
      unfolding mesh_server_ok_def
    proof (intro conjI)
      show "server_ok (mv_srpc ?t)" using mok unfolding f by (simp add: mesh_server_ok_def)
      show "registry_ok (mv_store ?t)" unfolding f by (rule clients.exec_usable [OF ok])
      show "queues_ok ?t" using mok tasks by (auto simp: mesh_server_ok_def queues_ok_def ch s1)
      show "joining_ok ?t"
        unfolding joining_ok_def f
      proof (intro impI conjI allI)
        assume p: "mv_phase s = StartingMesh True"
        with mok have j: "mv_registryId s < mv_instanceId s" "owner (mv_store s) x \<noteq> Some (mv_instanceId s)" for x
          by (simp_all add: mesh_server_ok_def joining_ok_def)
        then show "mv_registryId s < mv_instanceId s" by blast
        have "of_node e \<noteq> Some (mv_instanceId s)" using n j(1) by auto
        from clients.others_take_nothing [OF ok this] j(2) show "owner ?x x \<noteq> Some (mv_instanceId s)" for x by blast
      qed
    qed
    moreover have "owned_after ?t c \<Longrightarrow> owned_after s c"
    proof (cases "c = d")
      case False
      then have "owns s1 c \<Longrightarrow> owns s c" using clients.claims_other [OF ok] client by (auto simp: owns_def s1)
      then show "owned_after ?t c \<Longrightarrow> owned_after s c"
        using False by (auto simp: owned_after_def ch s1 owns_def elim!: chain_owns_mono)
    next
      case True
      have own: "owns s1 c \<Longrightarrow> if of_node e = Some (mv_registryId s) then claims e (owns s c) else owns s c"
        using clients.claims_other [OF ok, of _ _ e c] clients.claims_bound [OF ok, of _ _ e c] client True
        by (auto simp: owns_def s1)
      assume "owned_after ?t c"
      then have "fold task_owns (tl (ch_tasks (chain_of s c))) (owns s1 c)" using True tasks by (simp add: owned_after_def ch chain_owns_def s1)
      from tasks_own_mono [OF this own] show "owned_after s c" using True st by (auto simp: owned_after_def chain_owns_def)
    qed
    ultimately show ?thesis using inv unfolding no_ghost_def f by blast
  qed
qed

lemma no_ghost_microtask: "no_ghost c s \<Longrightarrow> no_ghost c (run_microtask opts m s)"
  by (cases m) (auto simp: run_microtask_def Let_def core_simps intro!: no_ghost_sync elim: no_ghost_keep)

lemma no_ghost_continuation: "no_ghost c s \<Longrightarrow> no_ghost c (run_continuation opts now k s)"
  by (auto simp: run_continuation_def no_ghost_srpc no_ghost_stream_activated no_ghost_continue no_ghost_cleanup_event
      split: continuation.split option.split bool.split)

lemma no_ghost_answer: "no_ghost c s \<Longrightarrow> no_ghost c (answer_origin origin outcome s)"
  by (erule no_ghost_keep) (simp add: core_simps)

lemma no_ghost_emit: "no_ghost c s \<Longrightarrow> no_ghost c (mv_emit out s)" "no_ghost c s \<Longrightarrow> no_ghost c (add_service_op op s)"
  by (erule no_ghost_keep, simp add: core_simps)+

lemma no_ghost_updates:
  "no_ghost c s \<Longrightarrow> no_ghost c (s\<lparr>mv_clientMetadata := m\<rparr>)" "no_ghost c s \<Longrightarrow> no_ghost c (s\<lparr>mv_local := lo\<rparr>)"
  "no_ghost c s \<Longrightarrow> no_ghost c (s\<lparr>mv_continuations := ks\<rparr>)" "no_ghost c s \<Longrightarrow> no_ghost c (s\<lparr>mv_microtasks := ms\<rparr>)"
  "no_ghost c s \<Longrightarrow> no_ghost c (s\<lparr>mv_ops := os\<rparr>)"
  by (erule no_ghost_keep, simp add: core_simps)+

lemma no_ghost_invoke: "no_ghost c s \<Longrightarrow> no_ghost c (clientInvokeFn opts origin d prefix data timeoutMs requestId now s)"
  by (auto simp: clientInvokeFn_def no_ghost_answer no_ghost_srpc no_ghost_updates split: option.split)

lemma no_ghost_clientUpdate: "no_ghost c s \<Longrightarrow> no_ghost c (snd (clientUpdateMetaFn d md s))"
  by (erule no_ghost_keep) (simp add: core_simps)

lemma no_ghost_service:
  assumes inv: "no_ghost c s"
  shows "no_ghost c (service_answers opts op answer requestId now s)"
proof -
  have own: "no_ghost c (s\<lparr>mv_store := st\<rparr>)" if "updateMetadata f g d n (Some md) (mv_store s) = (r, st)" for f g d n md r st
    using no_ghost_registry_step [OF inv, of "UpdateMetadata d n (Some md)" f g] that by simp
  have found: "no_ghost c (invoke_found opts i d prefix data timeoutMs client requestId now s)" for i d prefix data timeoutMs client
    using inv by (auto simp: invoke_found_def no_ghost_emit no_ghost_invoke split: option.split)
  have upd: "no_ghost c (update_found d md previous client s)" "no_ghost c (update_done d b previous s)" for d md previous client b
    using inv by (auto simp: update_found_def update_done_def no_ghost_emit no_ghost_clientUpdate no_ghost_updates split: option.split)
  show ?thesis
    using inv by (cases op; cases answer; simp add: service_answers_def found upd no_ghost_emit; auto simp: no_ghost_emit own split: prod.split sum.split)
qed

lemma jget_keys: "jget m k \<noteq> None \<longleftrightarrow> k \<in> fst ` set m"
  by (simp add: map_of_eq_None_iff)

lemma backfill_current:
  fixes pending active :: "(string, nat) jsmap"
  assumes "(d, r) \<in> set (fold (\<lambda>(c, r) m. if jhas m c then m else jset c r m) active (fold (\<lambda>(c, r). jset c r) pending []))"
  shows "d \<in> fst ` set pending \<or> d \<in> fst ` set active"
proof -
  have a: "d \<in> fst ` set (fold (\<lambda>(c, r). jset c r) xs m) \<Longrightarrow> d \<in> fst ` set m \<or> d \<in> fst ` set xs" for xs and m :: "(string, nat) jsmap"
  proof (induction xs arbitrary: m)
    case (Cons x xs)
    then have "d \<in> fst ` set (jset (fst x) (snd x) m) \<or> d \<in> fst ` set xs" by (simp add: case_prod_beta)
    then show ?case by (auto simp: jset_def dom_update)
  qed simp
  have b: "d \<in> fst ` set (fold (\<lambda>(c, r) m. if jhas m c then m else jset c r m) xs m) \<Longrightarrow> d \<in> fst ` set m \<or> d \<in> fst ` set xs" for xs and m :: "(string, nat) jsmap"
  proof (induction xs arbitrary: m)
    case (Cons x xs)
    then have "d \<in> fst ` set (if jhas m (fst x) then m else jset (fst x) (snd x) m) \<or> d \<in> fst ` set xs" by (simp add: case_prod_beta)
    then show ?case by (auto simp: jset_def dom_update split: if_splits)
  qed simp
  from assms have "d \<in> fst ` set (fold (\<lambda>(c, r) m. if jhas m c then m else jset c r m) active (fold (\<lambda>(c, r). jset c r) pending []))"
    by (rule image_eqI [rotated]) simp
  from b [OF this] a [of pending "[]"] show ?thesis by auto
qed

lemma no_ghost_backfill_stream:
  assumes "no_ghost c s" "getCurrentStreamByClientId (mv_srpc s) d \<noteq> None"
  shows "no_ghost c (backfill_stream opts (d, r) s) \<and> mv_srpc (backfill_stream opts (d, r) s) = mv_srpc s"
proof -
  let ?s1 = "installMetaProxy r s"
  let ?s2 = "if jhas (mv_clientMetadata ?s1) d then ?s1 else ?s1\<lparr>mv_clientMetadata := jset d (extractMeta opts ?s1 r) (mv_clientMetadata ?s1)\<rparr>"
  have "core ?s2 = core s" by (simp add: core_simps)
  then have "no_ghost c ?s2" "mv_srpc ?s2 = mv_srpc s" using no_ghost_keep [OF assms(1)] core_srpc by blast+
  then show ?thesis
    using assms(2) no_ghost_enqueue unfolding backfill_stream_def prod.case Let_def by simp
qed

lemma no_ghost_backfill_streams:
  "no_ghost c s \<Longrightarrow> \<forall>d\<in>fst ` set xs. getCurrentStreamByClientId (mv_srpc s) d \<noteq> None \<Longrightarrow> no_ghost c (fold (backfill_stream opts) xs s)"
proof (induction xs arbitrary: s)
  case (Cons x xs)
  obtain d r where x: "x = (d, r)" by force
  have "no_ghost c (backfill_stream opts (d, r) s) \<and> mv_srpc (backfill_stream opts (d, r) s) = mv_srpc s"
    using no_ghost_backfill_stream Cons.prems x by simp
  with Cons show ?case by (simp add: x)
qed simp

lemma no_ghost_phase:
  assumes "no_ghost c s" "p \<noteq> StartingMesh True"
  shows "no_ghost c (s\<lparr>mv_phase := p\<rparr>)"
  by (rule no_ghost_fields [OF assms(1)]) (use assms(2) in \<open>simp_all add: owns_def joining_ok_def\<close>)

lemma no_ghost_backfill:
  assumes "no_ghost c s"
  shows "no_ghost c (backfill opts s)"
  unfolding backfill_def Let_def
proof (rule no_ghost_backfill_streams)
  show "no_ghost c (s\<lparr>mv_phase := MeshUp\<rparr>)" by (rule no_ghost_phase [OF assms]) simp
  have "getCurrentStreamByClientId (mv_srpc s) d \<noteq> None"
    if "d \<in> fst ` set (sv_pendingStreamsByClientId (mv_srpc s)) \<or> d \<in> fst ` set (sv_streamsByClientId (mv_srpc s))" for d
    using that jget_keys [of "sv_pendingStreamsByClientId (mv_srpc s)" d] jget_keys [of "sv_streamsByClientId (mv_srpc s)" d]
    by (auto simp: getCurrentStreamByClientId_def split: option.split)
  with backfill_current [of _ _ "sv_streamsByClientId (mv_srpc s)" "sv_pendingStreamsByClientId (mv_srpc s)"]
  show "\<forall>d\<in>fst ` set (fold (\<lambda>(c, r) m. if jhas m c then m else jset c r m) (sv_streamsByClientId (mv_srpc s))
      (fold (\<lambda>(c, r). jset c r) (sv_pendingStreamsByClientId (mv_srpc s)) [])). getCurrentStreamByClientId (mv_srpc (s\<lparr>mv_phase := MeshUp\<rparr>)) d \<noteq> None"
    by (auto simp del: split_paired_Ex)
qed

definition redis_misses :: "string \<Rightarrow> mesh_server_event \<Rightarrow> bool" where
  "redis_misses c ev \<longleftrightarrow> (\<exists>err. ev = RedisDone c (NotExecuted err))"

lemma no_ghost_step:
  assumes inv: "no_ghost c s" and fine: "\<not> redis_misses c ev"
  shows "no_ghost c (mesh_server_step opts s ev)"
proof (cases ev)
  case (RedisDone d outcome)
  show ?thesis
  proof (cases "ch_status (chain_of s d)")
    case (Calling e)
    obtain reply s1 where r: "redis_call opts e outcome s = (reply, s1)" by force
    have "no_ghost c (set_chain d ((chain_of s1 d)\<lparr>ch_status := Replied reply\<rparr>) s1)"
      by (rule no_ghost_redis [OF inv Calling r]) (use fine RedisDone in \<open>auto simp: redis_misses_def\<close>)
    then show ?thesis using RedisDone Calling r by simp
  qed (use RedisDone inv in simp_all)
next
  case (StartTask d)
  then show ?thesis using inv no_ghost_start [OF inv] by (auto split: list.split head_status.split)
next
  case (FinishTask d)
  then show ?thesis using inv no_ghost_finish [OF inv] by (auto split: list.split head_status.split)
next
  case (RunCallback d)
  then show ?thesis using inv by (auto elim!: no_ghost_keep simp: core_simps split: list.split option.split)
next
  case (Continue k now)
  then show ?thesis using inv by (simp add: no_ghost_continuation no_ghost_updates)
next
  case (ServiceAnswers k answer requestId now)
  then show ?thesis using inv by (simp add: no_ghost_service no_ghost_updates)
next
  case (CallUpdate d md)
  then show ?thesis using inv by (simp add: updateClientMetadata_def Let_def no_ghost_emit no_ghost_updates)
next
  case (CallInvokeClient i d prefix data timeoutMs)
  then show ?thesis using inv by (simp add: service_invoke_def no_ghost_emit)
next
  case (Srpc e)
  then show ?thesis using inv by (simp add: no_ghost_srpc)
next
  case (SetMeta r key v)
  then show ?thesis using inv by (auto elim: no_ghost_keep simp: core_simps)
next
  case (DeleteMeta r key)
  then show ?thesis using inv by (auto elim: no_ghost_keep simp: core_simps)
next
  case Microtask
  then show ?thesis using inv by (auto simp: no_ghost_microtask no_ghost_updates split: list.split)
next
  case (KickRequest d)
  then show ?thesis using inv by (simp add: kick_client_def no_ghost_emit no_ghost_cleanup_event split: option.split)
next
  case (UpdateMetaRequest d md)
  then show ?thesis using inv no_ghost_clientUpdate [OF inv, of d md] by (auto simp: update_meta_request_def no_ghost_emit split: prod.split)
next
  case (ForwardRequest f d prefix data timeoutMs requestId now)
  then show ?thesis using inv by (simp add: no_ghost_invoke)
next
  case (NodeCleanedUp n)
  have "no_ghost c (s\<lparr>mv_store := snd (cleanupNode n (mv_store s))\<rparr>)"
    using no_ghost_registry_step [OF inv, of "CleanupNode n"] by simp
  then show ?thesis using NodeCleanedUp by (auto simp: node_cleaned_up_def Let_def no_ghost_emit split: prod.split)
next
  case (Elsewhere e)
  then show ?thesis using inv no_ghost_registry_step [OF inv] by (auto simp: of_others_def)
next
  case CallMeshStart
  then show ?thesis using inv no_ghost_phase by simp
next
  case (MeshInstance i)
  show ?thesis
  proof (cases "mv_phase s = StartingMesh False \<and> fresh_instance s i")
    case True
    then have i: "mv_registryId s < i" "i \<notin> (rg_nodeId \<circ> snd) ` set (cs_clients (mv_store s))" by (simp_all add: fresh_instance_def)
    have "owner (mv_store s) d \<noteq> Some i" for d
    proof
      assume "owner (mv_store s) d = Some i"
      then obtain v where v: "jget (cs_clients (mv_store s)) d = Some v" "rg_nodeId v = i" by (auto simp: owner_def clients_hash_def split: if_splits)
      from map_of_SomeD [OF v(1)] v(2) i(2) show False by force
    qed
    then have "joining_ok (s\<lparr>mv_instanceId := i, mv_phase := StartingMesh True\<rparr>)" using i(1) by (simp add: joining_ok_def)
    then have "no_ghost c (s\<lparr>mv_instanceId := i, mv_phase := StartingMesh True\<rparr>)"
      by (intro no_ghost_fields [OF inv]) (simp_all add: owns_def)
    then show ?thesis using MeshInstance True by simp
  next
    case False
    show ?thesis unfolding MeshInstance mesh_server_step.simps if_not_P [OF False] by (rule inv)
  qed
next
  case (MeshStartDone ok)
  have "no_ghost c (mesh_start_done s)" if p: "mv_phase s = StartingMesh True"
  proof -
    have j: "mv_registryId s < mv_instanceId s" "owner (mv_store s) c \<noteq> Some (mv_instanceId s)"
      using inv p by (simp_all add: no_ghost_def mesh_server_ok_def joining_ok_def)
    have "ch_status (chain_of s c) \<noteq> Calling e" if "of_node e = Some (mv_instanceId s)" for e
    proof
      assume "ch_status (chain_of s c) = Calling e"
      then have "\<exists>n\<le>mv_registryId s. of_node e = Some n" using inv unfolding no_ghost_def mesh_server_ok_def queues_ok_def by blast
      with that j(1) show False by auto
    qed
    with j show ?thesis
      by (intro no_ghost_fields [OF inv]) (auto simp: mesh_start_done_def owns_def joining_ok_def)
  qed
  then show ?thesis using MeshStartDone inv no_ghost_phase by auto
next
  case Backfill
  then show ?thesis using inv by (simp add: no_ghost_backfill)
next
  case CallMeshStop
  have "no_ghost c (mesh_server_stop s)"
    by (rule no_ghost_fields [OF inv]) (simp_all add: mesh_server_stop_def owns_def joining_ok_def)
  then show ?thesis using CallMeshStop inv by simp
next
  case (StopCleanupDone outcome)
  obtain reply s1 where r: "redis_call opts (CleanupNode (mv_registryId s)) outcome s = (reply, s1)" by force
  have "no_ghost c s1"
    using r inv no_ghost_registry_step [OF inv, of "CleanupNode (mv_registryId s)"]
    by (auto simp: redis_call_def Let_def split: redis_outcome.splits)
  then show ?thesis using StopCleanupDone inv r by (simp add: no_ghost_phase)
next
  case MeshStopDone
  have "no_ghost c (s\<lparr>mv_instanceId := 0, mv_phase := NotStarted\<rparr>)"
    by (rule no_ghost_fields [OF inv]) (simp_all add: owns_def joining_ok_def)
  then show ?thesis using MeshStopDone inv by (simp add: mesh_stop_done_def Let_def no_ghost_updates split: mesh_phase.split)
qed

lemma no_ghost_new: "no_ghost c (new_mesh_server handlers k n)"
proof -
  have "chain_of (new_mesh_server handlers k n) d = empty_chain" for d by (simp add: chain_of_def new_mesh_server_def empty_chain_def)
  then show ?thesis
    by (simp add: no_ghost_def mesh_server_ok_def queues_ok_def joining_ok_def owned_after_def owns_def)
      (simp add: new_mesh_server_def server_ok_new registry_ok_new)
qed

lemma no_ghost_run:
  "\<forall>ev\<in>set evs. \<not> redis_misses c ev \<Longrightarrow> no_ghost c s \<Longrightarrow> no_ghost c (mesh_server_run opts s evs)"
  by (induction evs arbitrary: s) (simp_all add: no_ghost_step)

end
