(* ===== verification/MeshServerCorrect.thy ===== *)
theory MeshServerCorrect
  imports MeshServerFacts
begin

text \<open>
  The properties of a mesh server that hold in every run, and inputs on which it does not do what it means to.
\<close>

section \<open>Demonstration runs\<close>

definition plain_meta :: mesh_server_options where
  "plain_meta = \<lparr>mx_extract = (\<lambda>m. m), mx_stringify = (\<lambda>m. Inr (Some m)), mx_recode = (\<lambda>m. m)\<rparr>"

definition phone_info :: stream_info where
  "phone_info = (client_info ''c'' False)\<lparr>si_meta := [(''user'', ''ann'')]\<rparr>"

definition mesh_demo :: "mesh_server_event list \<Rightarrow> mesh_server" where
  "mesh_demo evs = mesh_server_run plain_meta (new_mesh_server echo_handlers 2 1) evs"

definition joined :: "mesh_server_event list" where
  "joined = [CallMeshStart, MeshInstance 7, MeshStartDone True, Backfill]"

definition one_call :: "string \<Rightarrow> mesh_server_event list" where
  "one_call c = [StartTask c, RedisDone c Executed, FinishTask c]"

definition arrives :: "nat \<Rightarrow> string \<Rightarrow> mesh_server_event list" where
  "arrives r c = one_call c @ [Continue 0 0, Srpc (ConnectedDone r True)] @ one_call c
     @ [Continue 0 0, RunCallback c, RunCallback c, RunCallback c, Continue 0 0]"

definition phone_up :: "mesh_server_event list" where
  "phone_up = joined @ [Srpc (Connect 0 ''s1'' phone_info)] @ arrives 0 ''c''"

lemmas demo_defs = mesh_demo_def plain_meta_def phone_info_def phone_up_def joined_def one_call_def arrives_def client_info_def echo_handlers_def

section \<open>No registration without a connection\<close>

lemma released_by_a_task:
  "\<not> fold task_owns ts own \<Longrightarrow> own \<Longrightarrow> \<exists>pre r published post. ts = pre @ UnregisterTask r published # post \<and> (\<forall>t\<in>set post. \<not> takes_client t)"
proof (induction ts rule: rev_induct)
  case (snoc t ts)
  show ?case
  proof (cases t)
    case (UnregisterTask r published)
    then have "ts @ [t] = ts @ UnregisterTask r published # [] \<and> (\<forall>t\<in>set []. \<not> takes_client t)" by simp
    then show ?thesis by blast
  next
    case (ActivateTask r md)
    then have "\<not> fold task_owns ts own" using snoc.prems by simp
    from snoc.IH [OF this snoc.prems(2)] obtain pre q p post where "ts = pre @ UnregisterTask q p # post" "\<forall>t\<in>set post. \<not> takes_client t" by blast
    then have "ts @ [t] = pre @ UnregisterTask q p # (post @ [t]) \<and> (\<forall>t\<in>set (post @ [t]). \<not> takes_client t)" using ActivateTask by simp
    then show ?thesis by blast
  next
    case (SyncTask md)
    then have "\<not> fold task_owns ts own" using snoc.prems by simp
    from snoc.IH [OF this snoc.prems(2)] obtain pre q p post where "ts = pre @ UnregisterTask q p # post" "\<forall>t\<in>set post. \<not> takes_client t" by blast
    then have "ts @ [t] = pre @ UnregisterTask q p # (post @ [t]) \<and> (\<forall>t\<in>set (post @ [t]). \<not> takes_client t)" using SyncTask by simp
    then show ?thesis by blast
  qed (use snoc.prems in simp_all)
qed simp

text \<open>C39. A registration does not outlive its connection: in every run of a node in which Redis executes its calls for the
  client, whatever the order of connections, disconnections, calls, replies and steps of other nodes, when the registry
  attributes a client to the node while the node has no stream of the client, then the call that unregisters the client
  is under way, or the function that makes it is queued with no later one that takes the client.\<close>

theorem departed_clients_are_unregistered:
  assumes "\<forall>ev\<in>set evs. \<not> redis_misses c ev"
  shows "let s = mesh_server_run opts (new_mesh_server handlers k n) evs; ch = chain_of s c in
    getCurrentStreamByClientId (mv_srpc s) c = None \<and> mv_running s \<and> owner (mv_store s) c = Some (mv_registryId s) \<longrightarrow>
      (\<exists>pre r published post. ch_tasks ch = pre @ UnregisterTask r published # post \<and> (\<forall>t\<in>set post. \<not> takes_client t))
    \<or> ch_status ch = Calling (Unregister c (mv_registryId s))"
proof -
  define s where "s = mesh_server_run opts (new_mesh_server handlers k n) evs"
  define ch where "ch = chain_of s c"
  have inv: "no_ghost c s" unfolding s_def by (rule no_ghost_run [OF assms no_ghost_new])
  have "(\<exists>pre r published post. ch_tasks ch = pre @ UnregisterTask r published # post \<and> (\<forall>t\<in>set post. \<not> takes_client t))
      \<or> ch_status ch = Calling (Unregister c (mv_registryId s))"
    if none: "getCurrentStreamByClientId (mv_srpc s) c = None" and own: "mv_running s" "owner (mv_store s) c = Some (mv_registryId s)"
  proof -
    have free: "\<not> chain_owns (mv_registryId s) ch True"
      using inv none own by (simp add: no_ghost_def owned_after_def owns_def ch_def)
    have tail: "\<exists>pre r published post. ch_tasks ch = pre @ UnregisterTask r published # post \<and> (\<forall>t\<in>set post. \<not> takes_client t)"
      if tl: "\<not> fold task_owns (tl (ch_tasks ch)) True"
    proof -
      from released_by_a_task [OF tl] obtain pre r p post where
        x: "tl (ch_tasks ch) = pre @ UnregisterTask r p # post" "\<forall>t\<in>set post. \<not> takes_client t" by blast
      then have "ch_tasks ch = (hd (ch_tasks ch) # pre) @ UnregisterTask r p # post" by (cases "ch_tasks ch") auto
      with x(2) show ?thesis by blast
    qed
    show ?thesis
    proof (cases "ch_status ch")
      case Waiting
      with free released_by_a_task [of "ch_tasks ch" True] show ?thesis by (simp add: chain_owns_def)
    next
      case (Replied reply)
      with free tail show ?thesis by (simp add: chain_owns_def)
    next
      case (Calling e)
      show ?thesis
      proof (cases "of_node e = Some (mv_registryId s) \<and> \<not> claims e True")
        case True
        have "call_client e = Some c" using inv Calling by (simp add: no_ghost_def mesh_server_ok_def queues_ok_def ch_def)
        with True have "e = Unregister c (mv_registryId s)" by (cases e) simp_all
        with Calling show ?thesis by simp
      next
        case False
        then have "\<not> fold task_owns (tl (ch_tasks ch)) True" using free Calling by (auto simp: chain_owns_def split: if_splits)
        with tail show ?thesis by blast
      qed
    qed
  qed
  then show ?thesis unfolding s_def [symmetric] ch_def [symmetric] Let_def by blast
qed

theorem departed_clients_are_unregistered_witness:
  "let s = mesh_demo (phone_up @ [Srpc (WsClose 0)]); t = mesh_demo (phone_up @ [Srpc (WsClose 0)] @ one_call ''c'') in
     owner (mv_store s) ''c'' = Some 7 \<and> getCurrentStreamByClientId (mv_srpc s) ''c'' = None
   \<and> (\<exists>pre r published post. ch_tasks (chain_of s ''c'') = pre @ UnregisterTask r published # post)
   \<and> owner (mv_store t) ''c'' = None"
proof -
  define s where "s = mesh_demo (phone_up @ [Srpc (WsClose 0)])"
  have quiet: "\<forall>ev\<in>set (phone_up @ [Srpc (WsClose 0)]). \<not> redis_misses ''c'' ev"
    by (simp add: redis_misses_def demo_defs)
  have run: "mesh_server_run plain_meta (new_mesh_server echo_handlers 2 1) (phone_up @ [Srpc (WsClose 0)]) = s"
    by (simp only: s_def mesh_demo_def)
  have st: "owner (mv_store s) ''c'' = Some 7" "getCurrentStreamByClientId (mv_srpc s) ''c'' = None" "mv_running s" "mv_registryId s = 7"
    "ch_status (chain_of s ''c'') = Waiting"
    unfolding s_def by code_simp+
  have "owner (mv_store (mesh_demo (phone_up @ [Srpc (WsClose 0)] @ one_call ''c''))) ''c'' = None" by code_simp
  moreover have "\<exists>pre r published post. ch_tasks (chain_of s ''c'') = pre @ UnregisterTask r published # post"
    using departed_clients_are_unregistered [OF quiet, of plain_meta echo_handlers 2 1, unfolded run Let_def] st by auto
  ultimately show ?thesis using st unfolding s_def [symmetric] Let_def by blast
qed

section \<open>Invocations by client id\<close>

definition client_reply :: "string \<Rightarrow> base_message \<Rightarrow> bool" where
  "client_reply requestId m \<longleftrightarrow> bm_reply m \<and> bm_requestId m = Some requestId \<and> \<not> bm_pingPong m \<and> bm_byteStreamOperation m = None"

definition reply_result :: "string \<Rightarrow> base_message \<Rightarrow> (client_error, string) result" where
  "reply_result prefix m =
     (if truthy_str (bm_error m) then Inl (ClientInvocationError (the (bm_error m)))
      else case jget (bm_fields m) (prefix @ ''Response'') of
             Some v \<Rightarrow> Inr v | None \<Rightarrow> Inl (ClientInvocationError ''Invalid response from client''))"

lemma srpc_event_quiet:
  assumes "\<And>now streamId info. e \<noteq> Connect now streamId info"
  shows "srpc_event opts e s = fold (react opts) (drop (length (sv_log (mv_srpc s))) (sv_log (server_step (mv_srpc s) e)))
    (s\<lparr>mv_srpc := server_step (mv_srpc s) e\<rparr>)"
proof -
  have "\<not> length (sv_objs (mv_srpc s)) < length (sv_objs (server_step (mv_srpc s) e))" using server_length_step [OF assms] by simp
  then show ?thesis by (simp add: srpc_event_def Let_def)
qed

lemma invoke_step:
  assumes "fresh_request (mv_srpc s) r requestId"
  shows "srpc_event opts (Invoke r prefix data requestId now timeoutMs) s =
    s\<lparr>mv_srpc := invoke r prefix data requestId (int now) timeoutMs (mv_srpc s)\<rparr>"
  using assms
  by (subst srpc_event_quiet) (simp_all add: invoke_def writeToStream_def emit_def supd_def react_def)

lemma fresh_invocation_request:
  assumes "fresh_invocation s requestId" "r < length (sv_objs (mv_srpc s))"
  shows "fresh_request (mv_srpc s) r requestId"
  using assms by (auto simp: fresh_invocation_def fresh_request_def list_ex_iff split: server_output.splits)

lemma reply_step:
  assumes r: "r < length (sv_objs (mv_srpc s))" "ss_listening (sobj (mv_srpc s) r)"
    and queued: "jget (ss_queue (sobj (mv_srpc s) r)) requestId = Some request" "requestId \<noteq> []"
    and origin: "jget (mv_local s) (r, requestId) = Some origin" and m: "client_reply requestId m"
  shows "mv_log (srpc_event opts (WsMessage now r (Decoded m)) s) = mv_log s
    @ [case origin of CalledBy i \<Rightarrow> InvocationResult i (settled_result (invocation_outcome_of request m))
       | ForwardedBy f \<Rightarrow> ForwardAnswered f (forward_reply (settled_result (invocation_outcome_of request m)))]"
proof -
  have step: "server_step (mv_srpc s) (WsMessage now r (Decoded m)) =
      emit [Settled r requestId (invocation_outcome_of request m)] (supd r (\<lambda>b. b\<lparr>ss_queue := jdelete requestId (ss_queue b)\<rparr>) (mv_srpc s))"
    using assms by (simp add: handleWsMessage_def handleStreamDataReceived_def Let_def client_reply_def)
  have "srpc_event opts (WsMessage now r (Decoded m)) s = react opts (Settled r requestId (invocation_outcome_of request m))
      (s\<lparr>mv_srpc := server_step (mv_srpc s) (WsMessage now r (Decoded m))\<rparr>)"
    by (subst srpc_event_quiet) (simp_all only: step emit_simps supd_simps append_eq_conv_conj, simp_all)
  then show ?thesis using origin by (cases origin) (simp_all add: react_def answer_origin_def mv_emit_def)
qed

text \<open>C40. A client is invoked through any node of the mesh: when the caller's registry attributes the client to another
  node, and there the client has an active stream, the request goes to that node and down the stream; the client's reply
  travels back and settles the call with the value, or with the client's error as an invocation error; so does a reply
  without a result.\<close>

theorem client_invocation_across_nodes:
  assumes "mv_running a" "getClient c (mv_store a) = Some reg" "rc_nodeId reg \<noteq> mv_instanceId a"
    and "fresh_invocation a x" "fresh_invocation b requestId"
    and "jget (sv_streamsByClientId (mv_srpc b)) c = Some r" "r < length (sv_objs (mv_srpc b))" "ss_listening (sobj (mv_srpc b) r)"
    and "client_reply requestId m"
  shows "let step = mesh_server_step opts; k = length (mv_ops a);
      a1 = step (step a (CallInvokeClient i c prefix data timeoutMs)) (ServiceAnswers k FromRedis x now);
      b1 = step b (ForwardRequest f c prefix data timeoutMs requestId now);
      b2 = step b1 (Srpc (WsMessage now r (Decoded m)))
    in mv_log a1 = mv_log a @ [InvocationForwarded i (rc_nodeId reg) c prefix data timeoutMs]
     \<and> last (sv_log (mv_srpc b1)) = Sent r (empty_message\<lparr>bm_requestId := Some requestId, bm_fields := [(prefix @ ''Request'', data)]\<rparr>)
     \<and> (\<exists>response. mv_log b2 = mv_log b @ [ForwardAnswered f response]
          \<and> mv_log (step a1 (ServiceAnswers k (NodeForwarded response) x now)) = mv_log a1 @ [InvocationResult i (reply_result prefix m)])"
proof -
  define k where "k = length (mv_ops a)"
  define a1 where "a1 = mesh_server_step opts (mesh_server_step opts a (CallInvokeClient i c prefix data timeoutMs)) (ServiceAnswers k FromRedis x now)"
  define b1 where "b1 = mesh_server_step opts b (ForwardRequest f c prefix data timeoutMs requestId now)"
  define request where "request = \<lparr>qr_exp = int now + nullish timeoutMs 30000, qr_resultType = prefix @ ''Response''\<rparr>"
  define response where "response = forward_reply (settled_result (invocation_outcome_of request m))"
  have a1: "a1 = a\<lparr>mv_ops := mv_ops a @ [InvokeRemote i c], mv_log := mv_log a @ [InvocationForwarded i (rc_nodeId reg) c prefix data timeoutMs]\<rparr>"
    using assms(1-4) unfolding a1_def k_def
    by (simp add: service_invoke_def add_service_op_def service_answers_def invoke_found_def mv_emit_def fresh_invocation_def)
  have b1: "b1 = b\<lparr>mv_local := jset (r, requestId) (ForwardedBy f) (mv_local b),
      mv_srpc := invoke r prefix data requestId (int now) (nullish timeoutMs 30000) (mv_srpc b)\<rparr>"
    using assms(5-7) fresh_invocation_request [OF assms(5,7)] unfolding b1_def
    by (simp add: clientInvokeFn_def invoke_step)
  have id: "requestId \<noteq> []" using assms(5) by (simp add: fresh_invocation_def)
  have b2: "mv_log (mesh_server_step opts b1 (Srpc (WsMessage now r (Decoded m)))) = mv_log b @ [ForwardAnswered f response]"
    using assms(7-9) id reply_step [of r b1 requestId request "ForwardedBy f" m opts now]
    by (simp add: b1 invoke_def writeToStream_def request_def response_def)
  have a2: "mv_log (mesh_server_step opts a1 (ServiceAnswers k (NodeForwarded response) x now)) = mv_log a1 @ [InvocationResult i (forward_result c response)]"
    using assms(4) by (simp add: a1 k_def service_answers_def mv_emit_def fresh_invocation_def)
  have result: "forward_result c response = reply_result prefix m"
    by (auto simp: response_def reply_result_def forward_reply_def forward_result_def settled_result_def invocation_outcome_of_def request_def split: option.split)
  have sent: "last (sv_log (mv_srpc b1)) = Sent r (empty_message\<lparr>bm_requestId := Some requestId, bm_fields := [(prefix @ ''Request'', data)]\<rparr>)"
    by (simp add: b1 invoke_def writeToStream_def)
  show ?thesis
    unfolding Let_def k_def [symmetric] a1_def [symmetric] b1_def [symmetric]
    using b2 a2 result sent by (simp add: a1)
qed

definition other_node :: mesh_server where
  "other_node = mesh_demo [CallMeshStart, MeshInstance 3, MeshStartDone True, Backfill, Elsewhere (Register ''c'' 7 (Some [(''user'', ''ann'')]) True Active 0)]"

definition ok_reply :: base_message where
  "ok_reply = (reply_message ''q1'')\<lparr>bm_fields := [(''dNotifyResponse'', ''ok'')]\<rparr>"

theorem client_invocation_across_nodes_witness:
  "let step = mesh_server_step plain_meta; a = other_node; b = mesh_demo phone_up;
      a1 = step (step a (CallInvokeClient 5 ''c'' ''dNotify'' ''hi'' None)) (ServiceAnswers 0 FromRedis ''x'' 9);
      b1 = step b (ForwardRequest 4 ''c'' ''dNotify'' ''hi'' None ''q1'' 9);
      b2 = step b1 (Srpc (WsMessage 9 0 (Decoded ok_reply)))
    in mv_log a1 = [InvocationForwarded 5 7 ''c'' ''dNotify'' ''hi'' None]
     \<and> (\<exists>response. mv_log b2 = mv_log b @ [ForwardAnswered 4 response]
          \<and> mv_log (step a1 (ServiceAnswers 0 (NodeForwarded response) ''x'' 9)) = mv_log a1 @ [InvocationResult 5 (Inr ''ok'')])"
proof -
  define a where "a = other_node"
  define b where "b = mesh_demo phone_up"
  obtain reg where reg: "getClient ''c'' (mv_store a) = Some reg" "rc_nodeId reg = 7" "mv_instanceId a = 3" "mv_running a" "fresh_invocation a ''x''"
    "mv_ops a = []" "mv_log a = []"
  proof -
    have "map_option rc_nodeId (getClient ''c'' (mv_store a)) = Some 7 \<and> mv_instanceId a = 3 \<and> mv_running a \<and> fresh_invocation a ''x'' \<and> mv_ops a = [] \<and> mv_log a = []"
      unfolding a_def by code_simp
    then show thesis using that by auto
  qed
  have fb: "fresh_invocation b ''q1''" unfolding b_def by code_simp
  have sb: "jget (sv_streamsByClientId (mv_srpc b)) ''c'' = Some 0" "0 < length (sv_objs (mv_srpc b))" "ss_listening (sobj (mv_srpc b) 0)"
    unfolding b_def by code_simp+
  have m: "client_reply ''q1'' ok_reply" "reply_result ''dNotify'' ok_reply = Inr ''ok''" by code_simp+
  have "rc_nodeId reg \<noteq> mv_instanceId a" using reg by simp
  from client_invocation_across_nodes [OF reg(4,1) this reg(5) fb sb m(1), of plain_meta 5 "''dNotify''" "''hi''" None 9 4]
  show ?thesis unfolding a_def [symmetric] b_def [symmetric] Let_def reg(2,6,7) m(2) list.size append_Nil by blast
qed

text \<open>Where the client has gone, the call fails with its disconnection.\<close>

lemma client_gone_across_nodes:
  assumes "jget (sv_streamsByClientId (mv_srpc b)) c = None" "fresh_invocation b requestId"
  shows "\<exists>response. mv_log (mesh_server_step opts b (ForwardRequest f c prefix data timeoutMs requestId now)) = mv_log b @ [ForwardAnswered f response]
    \<and> forward_result c response = Inl (ClientDisconnectedError c)"
  using assms by (simp add: clientInvokeFn_def answer_origin_def mv_emit_def forward_reply_def forward_result_def)

section \<open>Inputs on which the code does not do what it means to\<close>

text \<open>A stream that is activated while the mesh starts has been let in without a reservation and is then disconnected:
  the instance id is set, but the service does not run yet.\<close>

definition early_activation :: "mesh_server_event list" where
  "early_activation = [CallMeshStart, MeshInstance 7, Srpc (Connect 0 ''s1'' phone_info)] @ [StartTask ''c'', FinishTask ''c'', Continue 0 0,
     Srpc (ConnectedDone 0 True), StartTask ''c'', FinishTask ''c'', Continue 0 0]"

lemma activation_during_start_disconnects:
  "let s = mesh_demo early_activation in
     last (sv_log (mv_srpc s)) = Disconnected 0 CauseDisconnect \<and> mv_phase s = StartingMesh True"
  by code_simp

text \<open>The same during \<open>meshStop\<close>, while the registrations of the node are removed.\<close>

lemma activation_during_stop_disconnects:
  "let s = mesh_demo (joined @ [Srpc (Connect 0 ''s1'' phone_info)] @ one_call ''c'' @ [Continue 0 0, Srpc (ConnectedDone 0 True), CallMeshStop,
         StartTask ''c'', FinishTask ''c'', Continue 0 0]) in
     last (sv_log (mv_srpc s)) = Disconnected 0 CauseDisconnect"
  by code_simp

text \<open>A call of the registry that is under way when the node leaves arrives behind the removal of its registrations and
  leaves one for a node that is gone.\<close>

lemma reservation_outlives_node:
  "let s = mesh_demo (joined @ [Srpc (Connect 0 ''s1'' phone_info), StartTask ''c'', CallMeshStop, StopCleanupDone Executed, RedisDone ''c'' Executed,
         FinishTask ''c'', MeshStopDone]) in
     owner (mv_store s) ''c'' = Some 7 \<and> mv_instanceId s = 0 \<and> ch_tasks (chain_of s ''c'') = []"
  by code_simp

text \<open>When Redis fails the call that unregisters, nothing repeats it: the client stays registered without a connection.\<close>

lemma failed_unregister_leaves_a_ghost:
  "let s = mesh_demo (phone_up @ [Srpc (WsClose 0), StartTask ''c'', RedisDone ''c'' (NotExecuted ''down''), FinishTask ''c'']) in
     owner (mv_store s) ''c'' = Some 7 \<and> getCurrentStreamByClientId (mv_srpc s) ''c'' = None \<and> ch_tasks (chain_of s ''c'') = []"
  by code_simp

text \<open>\<open>updateClientMetadata\<close> sets the local copy first and restores it only when the update answers \<open>false\<close>: when Redis
  fails, the copy claims what the registry does not have, and a later change of \<open>stream.meta\<close> to the same value is not
  sent.\<close>

lemma failed_update_hides_a_change:
  "let s = mesh_demo (phone_up @ [CallUpdate ''c'' [(''user'', ''bob'')], ServiceAnswers 0 (RedisFails ''down'') ''x'' 0,
         SetMeta 0 ''user'' ''bob'', Microtask]) in
     sx_meta (extra_of s 0) = [(''user'', ''bob'')] \<and> ch_tasks (chain_of s ''c'') = []
   \<and> map_option rc_metadata (getClient ''c'' (mv_store s)) = Some (Some [(''user'', ''ann'')])"
  by code_simp

text \<open>An update for a client of another node leaves its metadata in the local map.\<close>

lemma remote_update_leaves_an_entry:
  "let s = mesh_server_run plain_meta other_node [CallUpdate ''c'' [(''user'', ''bob'')], ServiceAnswers 0 FromRedis ''x'' 0,
         ServiceAnswers 0 (NodeUpdated True) ''x'' 0, ServiceAnswers 0 FromRedis ''x'' 0] in
     mv_clientMetadata s = [(''c'', [(''user'', ''bob'')])] \<and> getCurrentStreamByClientId (mv_srpc s) ''c'' = None"
  by code_simp

text \<open>\<open>updateClientMetadata\<close> replaces the metadata in the registry but merges them into \<open>stream.meta\<close>: the key that the
  update leaves out comes back with the next synchronisation.\<close>

lemma replaced_key_comes_back:
  "let s = mesh_demo (phone_up @ [CallUpdate ''c'' [(''room'', ''1'')], ServiceAnswers 0 FromRedis ''x'' 0, ServiceAnswers 0 FromRedis ''x'' 0,
         ServiceAnswers 0 FromRedis ''x'' 0]);
       t = mesh_server_run plain_meta s (Microtask # one_call ''c'') in
     last (mv_log s) = MetadataUpdated ''c'' True
   \<and> map_option rc_metadata (getClient ''c'' (mv_store s)) = Some (Some [(''room'', ''1'')])
   \<and> map_option rc_metadata (getClient ''c'' (mv_store t)) = Some (Some [(''user'', ''ann''), (''room'', ''1'')])"
  by code_simp

end
