(* ===== verification/Spec2Isabelle.thy ===== *)
theory Spec2Isabelle
  imports PostgresMigration DdlGenerator ByteStreamFacts SrpcServerCorrect SrpcClientCorrect LeaderCorrect MutexCorrect MigrationCreate MigrationRun MeshCorrect MeshServerCorrect
begin

text \<open>
  A verification of dk-server-foundation, a TypeScript foundation for servers (\<open>src/src/\<close>): its migration generator
  and schema builder, its RPC over WebSockets, its locks over Redis, and its mesh of server processes.

  \<^bold>\<open>The program and its model.\<close>  Its parts share \<open>Prelude\<close> (JavaScript strings, objects and truthiness, results of code
  that can throw, runs of events, lists); the mesh server builds on the RPC server, the others stand on their own.

  \<^item> \<^emph>\<open>Migrations.\<close>  \<open>migration:create\<close> reads the schema the entities ask for (\<open>EntityReader\<close>: \<open>entity-reader.ts\<close>)
    and the schema of the database (\<open>DbReader\<close>: \<open>db-reader.ts\<close>), both into the records of \<open>SchemaModel\<close>
    (\<open>schema-model.ts\<close>), compares them (\<open>Comparator\<close>: \<open>comparator.ts\<close>, \<open>prompt.ts\<close>), and writes a file: of SQL
    statements (\<open>DdlMySQL\<close>, \<open>DdlPostgres\<close>, \<open>DdlGenerator\<close>: \<open>ddl-generator.ts\<close>, with the column definitions and
    statements of \<open>Grammars\<close>: \<open>schema/grammar/\<close>, and the quoting of \<open>SqlText\<close>: \<open>dialect.ts\<close>), or of calls to the
    schema builder (\<open>BuilderRegenerator\<close>: \<open>builder-regenerator.ts\<close>).  \<open>MigrationCreate\<close> is the command
    (\<open>MigrationCreateCommand.ts\<close>, \<open>MigrationResetCommand.ts\<close>, \<open>file-generator.ts\<close>), \<open>MigrationRun\<close> the command that
    runs the files (\<open>MigrationRunCommand.ts\<close>), \<open>Builder\<close> and \<open>SchemaBuilder\<close> what the calls do when they run
    (\<open>schema/BlueprintBase.ts\<close>, \<open>Blueprint.ts\<close>, \<open>AlterBlueprint.ts\<close>, \<open>ColumnDefinition.ts\<close>, \<open>Schema.ts\<close>).
  \<^item> \<^emph>\<open>RPC.\<close>  \<open>SrpcServer\<close> (\<open>srpc/SrpcServer.ts\<close>) and \<open>SrpcClient\<close> (\<open>srpc/SrpcClient.ts\<close>) are the two ends of a
    connection, \<open>SrpcAuth\<close> how the client signs its request and the server checks it, \<open>ByteStream\<close>
    (\<open>srpc/SrpcByteStream.ts\<close>) the byte streams multiplexed over a connection.
  \<^item> \<^emph>\<open>Locks.\<close>  \<open>RedisLock\<close> has the three scripts that Redis runs; \<open>Mutex\<close> (\<open>helpers/redis/mutex.ts\<close>) and
    \<open>LeaderElection\<close> (\<open>services/leader.ts\<close>) are their two clients.
  \<^item> \<^emph>\<open>Mesh.\<close>  \<open>Mesh\<close> (\<open>services/mesh.ts\<close>) are any number of server processes over one Redis, with their instance ids,
    heartbeats, requests and broadcasts.  \<open>MeshRegistry\<close> (\<open>services/mesh-client/mesh-client-redis-registry.ts\<close>) has the
    scripts that record which process holds which client.  \<open>MeshServer\<close> (\<open>mesh-srpc-server.ts\<close>, \<open>mesh-client-service.ts\<close>,
    \<open>mesh-client-registry.ts\<close>) is an RPC server that is a node of the mesh: \<open>SrpcServer\<close> with the hooks that keep the
    registry in step with its connections, one queue of functions per client.

  An interface of the program is a record with its fields in order, under a prefix (\<open>c_autoIncrement\<close> is
  \<open>ColumnSchema.autoIncrement\<close>); a pure function is a function with the name it has in the source; an object with
  methods is a record of its state and one function per method, asynchronous code being cut at its awaits (\<open>stop\<close> and
  \<open>stopReleased\<close> are the two halves of \<open>LeaderService.stop\<close>); what a method does to the outside (a frame sent, a
  callback run, a statement executed) is appended to a log or returned.  A component that reacts to messages, timers and
  user code has a type of events and a step function, and what it promises holds after every list of events, that is,
  in every order in which the outside can answer.  Exceptions are values (\<open>result\<close>, \<open>option\<close>).

  \<^bold>\<open>What is shown.\<close>

  \<^item> \<open>ComparatorFacts\<close>, \<open>ReorderFacts\<close>: no difference is reported exactly when two tables agree; every column is
    accounted for once; the column moves give the order of the entity.
  \<^item> \<open>MySQLMigration\<close>, \<open>MigrationCorrect\<close>, \<open>PostgresMigration\<close>: an abstract database executes abstract operations
    (adding a column that exists, dropping one that does not and so on are failures); the text emitted by the generator
    is the rendering of a list of such operations, and executing them never fails and reaches a table that agrees with
    the entity.  \<open>DdlGenerator\<close>: enum types are created once and dropped exactly when no entity uses them.
  \<^item> \<open>EntityReaderFacts\<close>, \<open>DbReaderFacts\<close>: what the readers return is well formed, which is what the theorems on the
    comparison ask for, so that \<open>MigrationCreate\<close> composes them from reflection and catalogue to the migrated table.
  \<^item> \<open>BuilderCalls\<close>, \<open>BuilderCorrect\<close>, \<open>BuilderAlter\<close>: the regenerated text is the print of a list of calls; running the
    calls sends the statements of the raw migration (new tables), and rebuilds the difference (changed tables).
  \<^item> \<open>MigrationRun\<close>: every outstanding migration runs once, in order, and a failed run is resumed where it stopped.
  \<^item> \<open>ByteStreamFacts\<close>, \<open>SrpcServerFacts\<close>, \<open>SrpcServerCorrect\<close>, \<open>SrpcClientFacts\<close>, \<open>SrpcClientCorrect\<close>: the maps of each end
    stay consistent, buffers stay bounded, requests settle exactly once, no request overtakes the activation of its
    stream, a request travels from either end to the other and back; \<open>SrpcAuth\<close>: signed requests are accepted, and
    accepted requests are signed.
  \<^item> \<open>LeaderCorrect\<close>, \<open>MutexCorrect\<close>: two leases never run at once, elections do not stall, and the search for a lock
    is bounded.

  \<^item> \<open>MeshFacts\<close>, \<open>MeshCorrect\<close>: requests between processes settle exactly once, instance ids are unique, and only
    silent instances are removed.  \<open>MeshRegistryFacts\<close>: while nothing expires, the scripts implement an ownership map,
    and the sets of the nodes index it.  \<open>MeshServerFacts\<close>, \<open>MeshServerCorrect\<close>: a client that is gone does not stay
    registered, and an invocation by client id from any node reaches the client and comes back.

  Interfaces between components are locales, each interpreted on the model's own definitions in the theory that
  provides them.  The closed lemmas at the ends of the theories record inputs on which the code does not do what it
  means to.

  \<^bold>\<open>Bounds and fuel.\<close>  The loops of the code are structural recursions or functions with a proved measure; none uses fuel.  The
  one loop that may not end, over the values of an enum type in \<open>parseEnumValues\<close>, has \<open>None\<close> for not ending.
  Numbers are \<open>int\<close>, \<open>nat\<close> or \<open>rat\<close>: the code computes with doubles far below \<open>2^53\<close> (sizes, positions, times in
  milliseconds).

  \<^bold>\<open>Parameters.\<close>  What is not under \<open>src/\<close> is an argument of the definitions that use it: the rows of the catalogue
  queries, what reflection answers for an entity, the replies typed at a prompt, HMAC-SHA256, the user's handlers and
  hooks, the database that executes a statement, JSON and what Lua's \<open>cjson\<close> makes of it.  A Redis script is atomic, and
  every client reads one clock.

  \<^bold>\<open>Not modelled.\<close>  Logging, tracing, the file system, sockets and the codec of protobuf are left out: the code calls
  libraries for them.  PROJECT.json lists the components without a model and why.
\<close>

end
